(* ===== verification/Prelude.thy ===== *)
theory Prelude
  imports Main "HOL-Library.Word"
begin

section \<open>Shared types, memory accesses and automation\<close>

text \<open>
  What every component of the development shares: the machine types, the faults a C
  program can run into, sequencing of fallible steps, bounds-checked accesses to a memory
  block (\<open>memcpy\<close>, \<open>memset\<close>), allocation, and the return codes of
  \<^verbatim>\<open>libtsuploader/uploader.h\<close>.

  A C function is modelled by a HOL function that takes the state it works on and returns
  it updated. A memory block is the list of its bytes; the null pointer is the empty
  block. An access outside the block, a failing \<open>assert\<close> and a loop that does not end are values of \<open>fault\<close>,
  so that freedom from them is something to be proved and not a silent assumption.
\<close>

unbundle bit_operations_syntax

type_synonym u8 = "8 word"
type_synonym u16 = "16 word"
type_synonym u32 = "32 word"
type_synonym u64 = "64 word"
type_synonym bytes = "u8 list"

datatype fault =
    Out_of_bounds | Assertion_failed | Null_deref | Double_free | Division_by_zero | Bad_shift | Diverges

type_synonym 'a run = "fault + 'a"

named_theorems run_simps \<open>unfolding of fallible steps\<close>
named_theorems mem_simps \<open>reads and writes of memory blocks\<close>

subsection \<open>Sequencing of fallible steps\<close>

definition and_then :: "'e + 'a \<Rightarrow> ('a \<Rightarrow> 'e + 'b) \<Rightarrow> 'e + 'b" where
  "and_then r f = (case r of Inl e \<Rightarrow> Inl e | Inr x \<Rightarrow> f x)"

lemma and_then_Inl [simp, run_simps]: "and_then (Inl e) f = Inl e"
  by (simp add: and_then_def)

lemma and_then_Inr [simp, run_simps]: "and_then (Inr x) f = f x"
  by (simp add: and_then_def)

lemma and_then_eq_Inr: "and_then r f = Inr y \<longleftrightarrow> (\<exists>x. r = Inr x \<and> f x = Inr y)"
  by (cases r) auto

lemma and_then_assoc: "and_then (and_then r f) g = and_then r (\<lambda>x. and_then (f x) g)"
  by (cases r) auto

lemma and_then_if: "and_then (if b then r else s) f = (if b then and_then r f else and_then s f)"
  by simp

subsection \<open>Memory blocks\<close>

text \<open>
  \<open>overwrite p xs b\<close> is the block after \<open>memcpy (b + p, xs, length xs)\<close>; \<open>write_at\<close> adds the
  bounds check. \<open>read_at p n b\<close> are the bytes \<open>memcpy (dst, b + p, n)\<close> reads.
\<close>

definition overwrite :: "nat \<Rightarrow> 'a list \<Rightarrow> 'a list \<Rightarrow> 'a list" where
  "overwrite p xs b = take p b @ xs @ drop (p + length xs) b"

definition write_at :: "nat \<Rightarrow> 'a list \<Rightarrow> 'a list \<Rightarrow> 'a list run" where
  "write_at p xs b =
     (if p + length xs \<le> length b then Inr (overwrite p xs b) else Inl Out_of_bounds)"

definition read_at :: "nat \<Rightarrow> nat \<Rightarrow> 'a list \<Rightarrow> 'a list run" where
  "read_at p n b = (if p + n \<le> length b then Inr (take n (drop p b)) else Inl Out_of_bounds)"

lemma length_overwrite [simp]:
  "p + length xs \<le> length b \<Longrightarrow> length (overwrite p xs b) = length b"
  by (simp add: overwrite_def)

lemma write_at_ok [mem_simps]: "p + length xs \<le> length b \<Longrightarrow> write_at p xs b = Inr (overwrite p xs b)"
  by (simp add: write_at_def)

lemma write_at_fault [mem_simps]:
  "length b < p + length xs \<Longrightarrow> write_at p xs b = Inl Out_of_bounds"
  by (simp add: write_at_def)

lemma read_at_ok [mem_simps]: "p + n \<le> length b \<Longrightarrow> read_at p n b = Inr (take n (drop p b))"
  by (simp add: read_at_def)

lemma read_at_fault [mem_simps]: "length b < p + n \<Longrightarrow> read_at p n b = Inl Out_of_bounds"
  by (simp add: read_at_def)

text \<open>What a write leaves in a window of the block: the same window, or a disjoint one.\<close>

lemma take_drop_overwrite_same:
  assumes "p + length xs \<le> length b"
  shows "take (length xs) (drop p (overwrite p xs b)) = xs"
  using assms by (simp add: overwrite_def)

lemma take_drop_overwrite_before:
  assumes "p + length xs \<le> length b" and "k + n \<le> p"
  shows "take n (drop k (overwrite p xs b)) = take n (drop k b)"
  using assms by (auto simp: overwrite_def drop_take min_def)

lemma take_drop_overwrite_after:
  assumes "p + length xs \<le> length b" and "p + length xs \<le> k"
  shows "take n (drop k (overwrite p xs b)) = take n (drop k b)"
  using assms by (auto simp: overwrite_def drop_append min_def)

lemma overwrite_append:
  "q + length xs \<le> length B \<Longrightarrow>
   overwrite (length A + q) xs (A @ B @ C) = A @ overwrite q xs B @ C"
  by (simp add: overwrite_def)

lemma take_drop_overwrite_inside:
  assumes "k + n \<le> length b" and "k \<le> p" and "p + length xs \<le> k + n"
  shows "take n (drop k (overwrite p xs b)) = overwrite (p - k) xs (take n (drop k b))"
proof -
  define A B C where "A = take k b" and "B = take n (drop k b)" and "C = drop n (drop k b)"
  have b: "b = A @ B @ C"
    unfolding A_def B_def C_def by (simp only: append_take_drop_id)
  have len: "length A = k" "length B = n"
    using assms(1) by (simp_all add: A_def B_def)
  have "overwrite p xs b = A @ overwrite (p - k) xs B @ C"
    using overwrite_append [where q = "p - k" and A = A and B = B and C = C and xs = xs]
      assms(2,3) len b by simp
  moreover have "length (overwrite (p - k) xs B) = n"
    using assms(2,3) len by simp
  ultimately show ?thesis
    using len by (simp add: B_def)
qed

subsection \<open>Allocation\<close>

text \<open>
  \<open>malloc\<close> either fails (\<open>None\<close>) or returns a block with arbitrary contents, given by
  a function from offsets to bytes; \<open>realloc\<close> keeps the old contents in front.
\<close>

type_synonym heap_answer = "(nat \<Rightarrow> u8) option"

definition malloc :: "heap_answer \<Rightarrow> nat \<Rightarrow> bytes option" where
  "malloc m n = map_option (\<lambda>junk. map junk [0..<n]) m"

definition realloc :: "heap_answer \<Rightarrow> bytes \<Rightarrow> nat \<Rightarrow> bytes option" where
  "realloc m b n = map_option (\<lambda>junk. take n b @ map junk [length b..<n]) m"

lemma malloc_length: "malloc m n = Some b \<Longrightarrow> length b = n"
  by (auto simp: malloc_def)

lemma realloc_length: "realloc m b n = Some b' \<Longrightarrow> length b' = n"
  by (auto simp: realloc_def)

lemma realloc_take:
  "realloc m b n = Some b' \<Longrightarrow> k \<le> length b \<Longrightarrow> k \<le> n \<Longrightarrow> take k b' = take k b"
  by (auto simp: realloc_def min_def)

subsection \<open>A C int in memory\<close>

text \<open>
  \<open>sizeof(int)\<close> is 4 and the target is little endian. \<open>bytes_int\<close> reads the four
  bytes back as the C type does, with its sign.
\<close>

definition int_bytes :: "int \<Rightarrow> bytes" where
  "int_bytes n = (let w = (word_of_int n :: u32) in
     [ucast w, ucast (drop_bit 8 w), ucast (drop_bit 16 w), ucast (drop_bit 24 w)])"

definition bytes_word :: "bytes \<Rightarrow> u32" where
  "bytes_word bs = foldr (\<lambda>b acc. push_bit 8 acc OR ucast b) bs 0"

definition bytes_int :: "bytes \<Rightarrow> int" where
  "bytes_int bs = sint (bytes_word bs)"

lemma length_int_bytes [simp]: "length (int_bytes n) = 4"
  by (simp add: int_bytes_def Let_def)

lemma bytes_word_of_word:
  "bytes_word [ucast w, ucast (drop_bit 8 w), ucast (drop_bit 16 w), ucast (drop_bit 24 w)] = w"
  (is "?l = w")
proof (rule bit_word_eqI)
  fix n
  assume n: "n < LENGTH(32)"
  have "n < 8 \<or> (8 \<le> n \<and> n < 16) \<or> (16 \<le> n \<and> n < 24) \<or> (24 \<le> n \<and> n < 32)"
    using n by auto
  then show "bit ?l n = bit w n"
    by (elim disjE)
       (auto simp: bytes_word_def bit_or_iff bit_push_bit_iff bit_ucast_iff bit_drop_bit_eq)
qed

lemma bytes_int_int_bytes:
  assumes "- (2 ^ 31) \<le> n" and "n < 2 ^ 31"
  shows "bytes_int (int_bytes n) = n"
proof -
  have "sint (word_of_int n :: u32) = signed_take_bit 31 n"
    by (simp add: signed_of_int)
  also have "\<dots> = n"
    using assms by (simp add: signed_take_bit_int_eq_self)
  finally show ?thesis
    by (simp add: bytes_int_def int_bytes_def Let_def bytes_word_of_word)
qed

subsection \<open>Return codes (uploader.h)\<close>

abbreviation (input) LINK_NO_MEMORY :: int where "LINK_NO_MEMORY \<equiv> -1000"
abbreviation (input) LINK_MUTEX_ERROR :: int where "LINK_MUTEX_ERROR \<equiv> -1100"
abbreviation (input) LINK_COND_ERROR :: int where "LINK_COND_ERROR \<equiv> -1101"
abbreviation (input) LINK_THREAD_ERROR :: int where "LINK_THREAD_ERROR \<equiv> -1102"
abbreviation (input) LINK_TIMEOUT :: int where "LINK_TIMEOUT \<equiv> -2000"
abbreviation (input) LINK_NO_PUSH :: int where "LINK_NO_PUSH \<equiv> -2001"
abbreviation (input) LINK_BUFFER_IS_SMALL :: int where "LINK_BUFFER_IS_SMALL \<equiv> -2003"
abbreviation (input) LINK_ARG_TOO_LONG :: int where "LINK_ARG_TOO_LONG \<equiv> -2004"
abbreviation (input) LINK_ARG_ERROR :: int where "LINK_ARG_ERROR \<equiv> -2100"
abbreviation (input) LINK_JSON_FORMAT :: int where "LINK_JSON_FORMAT \<equiv> -2200"
abbreviation (input) LINK_Q_OVERWRIT :: int where "LINK_Q_OVERWRIT \<equiv> -5001"
abbreviation (input) LINK_Q_WRONGSTATE :: int where "LINK_Q_WRONGSTATE \<equiv> -5002"
abbreviation (input) LINK_MAX_SEG :: int where "LINK_MAX_SEG \<equiv> -5103"
abbreviation (input) LINK_NOT_INITED :: int where "LINK_NOT_INITED \<equiv> -5104"
abbreviation (input) LINK_MAX_CACHE :: int where "LINK_MAX_CACHE \<equiv> -5105"
abbreviation (input) LINK_Q_OVERFLOW :: int where "LINK_Q_OVERFLOW \<equiv> -5005"
abbreviation (input) LINK_PAUSED :: int where "LINK_PAUSED \<equiv> -6000"
abbreviation (input) LINK_GHTTP_FAIL :: int where "LINK_GHTTP_FAIL \<equiv> -7000"
abbreviation (input) LINK_SUCCESS :: int where "LINK_SUCCESS \<equiv> 0"
abbreviation (input) LINK_ERROR :: int where "LINK_ERROR \<equiv> -1"

end
