(* ===== verification/CircleQueue.thy ===== *)
theory CircleQueue
  imports Prelude
begin

section \<open>The circular queue (libtsuploader/queue.c)\<close>

text \<open>
  The queue every thread of the uploader communicates through. One implementation serves
  five policies: three keep fixed-size slots in a ring (a four byte length prefix and the
  item), two append bytes to one buffer. The model keeps the byte block itself, so that
  every \<open>memcpy\<close> is bounds checked; the lemmas then relate the block to the list of items
  it holds. The mutex makes each function one atomic step; what other threads do while
  \<open>PopQueueWithTimeout\<close> waits on the condition variable is a function given to it.
\<close>

subsection \<open>State\<close>

datatype CircleQueuePolicy =
    TSQ_FIX_LENGTH
  | TSQ_FIX_LENGTH_CAN_OVERWRITE
  | TSQ_VAR_LENGTH
  | TSQ_APPEND
  | TSQ_APPEND_FIX

abbreviation (input) QUEUE_READ_ONLY_STATE :: int where "QUEUE_READ_ONLY_STATE \<equiv> 1"
abbreviation (input) QUEUE_TIMEOUT_STATE :: int where "QUEUE_TIMEOUT_STATE \<equiv> 2"

record LinkUploaderStatInfo =
  nPushDataBytes :: u32
  nPopDataBytes :: u32
  nStatLen :: int
  nOverwriteCnt :: u32
  nIsReadOnly :: int
  nDropped :: u32
  nStatCap :: int

text \<open>
  A block handed to the queue by its creator, with the callback that gives it back: the
  address stands for \<open>pMem\<close> (0 is the null pointer).
\<close>

record LinkQueueMem =
  pMem :: nat
  freeMem :: bool

record CircleQueueImp =
  pData :: bytes
  nCap :: nat
  nLen :: nat
  nLenInByte :: nat
  nStart :: nat
  nEnd :: nat
  nQState :: int
  nItemLen :: nat
  policy :: CircleQueuePolicy
  statInfo :: LinkUploaderStatInfo
  nIsAvailableAfterTimeout :: bool
  nCount :: int
  isWait :: bool
  shouldFree :: bool
  qmem :: LinkQueueMem

definition zeroStatInfo :: LinkUploaderStatInfo where
  "zeroStatInfo = \<lparr>nPushDataBytes = 0, nPopDataBytes = 0, nStatLen = 0, nOverwriteCnt = 0,
     nIsReadOnly = 0, nDropped = 0, nStatCap = 0\<rparr>"

text \<open>Counting in the statistics wraps at 32 bits.\<close>

definition count_push :: "nat \<Rightarrow> CircleQueueImp \<Rightarrow> CircleQueueImp" where
  "count_push n q = q\<lparr>statInfo := (statInfo q)
     \<lparr>nPushDataBytes := nPushDataBytes (statInfo q) + of_nat n\<rparr>\<rparr>"

definition count_pop :: "nat \<Rightarrow> CircleQueueImp \<Rightarrow> CircleQueueImp" where
  "count_pop n q = q\<lparr>statInfo := (statInfo q)
     \<lparr>nPopDataBytes := nPopDataBytes (statInfo q) + of_nat n\<rparr>\<rparr>"

definition count_drop :: "nat \<Rightarrow> CircleQueueImp \<Rightarrow> CircleQueueImp" where
  "count_drop n q = q\<lparr>statInfo := (statInfo q)
     \<lparr>nDropped := nDropped (statInfo q) + of_nat n\<rparr>\<rparr>"

definition count_overwrite :: "CircleQueueImp \<Rightarrow> CircleQueueImp" where
  "count_overwrite q = q\<lparr>statInfo := (statInfo q)
     \<lparr>nOverwriteCnt := nOverwriteCnt (statInfo q) + 1\<rparr>\<rparr>"

lemmas count_defs = count_push_def count_pop_def count_drop_def count_overwrite_def

subsection \<open>Pushing\<close>

definition queueAppendCopy :: "CircleQueueImp \<Rightarrow> bytes \<Rightarrow> (int \<times> CircleQueueImp) run" where
  "queueAppendCopy q d = and_then (write_at (nLen q) d (pData q)) (\<lambda>b.
     Inr (int (length d),
          (count_push (length d) q)\<lparr>pData := b, nLen := nLen q + length d\<rparr>))"

definition queueAppendPush ::
    "heap_answer \<Rightarrow> CircleQueueImp \<Rightarrow> bytes \<Rightarrow> (int \<times> CircleQueueImp) run" where
  "queueAppendPush m q d =
     (if nCap q < length d + nLen q then
        if policy q = TSQ_APPEND_FIX then Inr (0, q)
        else
          let newLen = nCap q * 3 div 2 in
          case realloc m (pData q) newLen of
            None \<Rightarrow> Inr (LINK_NO_MEMORY, q)
          | Some pTmp \<Rightarrow>
              queueAppendCopy (q\<lparr>pData := pTmp, nCap := newLen, nLenInByte := newLen\<rparr>) d
      else queueAppendCopy q d)"

text \<open>The two \<open>memcpy\<close> that fill slot \<open>nPos\<close>: the length, then the item.\<close>

definition writeSlot :: "nat \<Rightarrow> nat \<Rightarrow> bytes \<Rightarrow> bytes \<Rightarrow> bytes run" where
  "writeSlot itemLen nPos d b =
     and_then (write_at (nPos * itemLen) (int_bytes (int (length d))) b)
       (write_at (nPos * itemLen + 4) d)"

definition ringPush :: "CircleQueueImp \<Rightarrow> bytes \<Rightarrow> (int \<times> CircleQueueImp) run" where
  "ringPush q d =
     (let nPos = nEnd q;
          nEnd' = (if nEnd q + 1 = nCap q then 0 else nEnd q + 1)
      in and_then (writeSlot (nItemLen q) nPos d (pData q)) (\<lambda>b.
         Inr (int (length d),
              (count_push (length d) q)\<lparr>pData := b, nEnd := nEnd', nLen := nLen q + 1\<rparr>)))"

definition overwritePush :: "CircleQueueImp \<Rightarrow> bytes \<Rightarrow> (int \<times> CircleQueueImp) run" where
  "overwritePush q d =
     (let nPos = nEnd q;
          wrap = (nEnd q + 1 = nCap q);
          nEnd' = (if wrap then 0 else nEnd q + 1);
          nStart' = (if wrap then 0 else nStart q + 1)
      in and_then (writeSlot (nItemLen q) nPos d (pData q)) (\<lambda>b.
         Inr (LINK_Q_OVERWRIT,
              count_overwrite
                ((count_push (length d) q)\<lparr>pData := b, nEnd := nEnd', nStart := nStart'\<rparr>))))"

text \<open>The bytes of a full ring in queue order, as \<open>TSQ_VAR_LENGTH\<close> copies them.\<close>

definition linearize :: "CircleQueueImp \<Rightarrow> bytes \<Rightarrow> bytes run" where
  "linearize q pTmp =
     (let off = nStart q * nItemLen q in
      if nStart q = 0 then
        and_then (read_at 0 (nLenInByte q) (pData q)) (\<lambda>x. write_at 0 x pTmp)
      else
        and_then (read_at off (nLenInByte q - off) (pData q)) (\<lambda>x.
        and_then (write_at 0 x pTmp) (\<lambda>b.
        and_then (read_at 0 (nEnd q * nItemLen q) (pData q)) (\<lambda>y.
          write_at (nLenInByte q - off) y b))))"

definition varPush ::
    "heap_answer \<Rightarrow> CircleQueueImp \<Rightarrow> bytes \<Rightarrow> (int \<times> CircleQueueImp) run" where
  "varPush m q d =
     (let newLen = nCap q * 3 div 2 in
      case malloc m (nItemLen q * newLen) of
        None \<Rightarrow> Inr (LINK_NO_MEMORY, q)
      | Some pTmp \<Rightarrow>
          and_then (linearize q pTmp) (\<lambda>b1.
          and_then (write_at (nLenInByte q) (int_bytes (int (length d))) b1) (\<lambda>b2.
          and_then (write_at (nLenInByte q + 4) d b2) (\<lambda>b3.
            Inr (int (length d),
                 (count_push (length d) q)\<lparr>pData := b3, nStart := 0, nEnd := nCap q + 1,
                   nLen := nLen q + 1, nCap := newLen, nLenInByte := newLen * nItemLen q\<rparr>)))))"

text \<open>
  \<open>PushQueue\<close>; \<open>None\<close> stands for a null \<open>pData_\<close>. The queue itself is never null here,
  since the function is called through a pointer read from it.
\<close>

definition PushQueue ::
    "heap_answer \<Rightarrow> CircleQueueImp \<Rightarrow> bytes option \<Rightarrow> (int \<times> CircleQueueImp) run" where
  "PushQueue m q pd =
     (case pd of
        None \<Rightarrow> Inr (LINK_ERROR, q)
      | Some d \<Rightarrow>
          if nItemLen q < length d + 4 then Inl Assertion_failed
          else if \<not> nIsAvailableAfterTimeout q \<and> nQState q = QUEUE_TIMEOUT_STATE
            then Inr (0, count_drop (length d) q)
          else if nQState q = QUEUE_READ_ONLY_STATE
            then Inr (LINK_NO_PUSH, count_drop (length d) q)
          else if policy q = TSQ_APPEND \<or> policy q = TSQ_APPEND_FIX
            then queueAppendPush m q d
          else if nLen q < nCap q then ringPush q d
          else if nLen q = nCap q then
            (case policy q of
               TSQ_FIX_LENGTH \<Rightarrow> Inr (LINK_Q_OVERFLOW, q)
             | TSQ_FIX_LENGTH_CAN_OVERWRITE \<Rightarrow> overwritePush q d
             | _ \<Rightarrow> varPush m q d)
          else Inr (-1, q))"

subsection \<open>Popping\<close>

text \<open>
  The absolute deadline of the timed wait. C's division truncates; both operands are
  non-negative here.
\<close>

definition pop_deadline :: "int \<times> int \<Rightarrow> int \<Rightarrow> int \<times> int" where
  "pop_deadline now nMicroSec =
     (fst now + (snd now + nMicroSec) div 1000000,
      ((snd now + nMicroSec) mod 1000000) * 1000)"

text \<open>
  \<open>pthread_cond_timedwait\<close> releases the mutex and returns with it held: whether it timed
  out, and the queue as the other threads left it.
\<close>

type_synonym cond_wait = "int \<times> int \<Rightarrow> CircleQueueImp \<Rightarrow> bool \<times> CircleQueueImp"

text \<open>
  Taking the item at \<open>nStart\<close>. An item longer than the caller's buffer is cut: the rest
  moves to the front of its slot and stays in the queue.
\<close>

definition popItem :: "CircleQueueImp \<Rightarrow> nat \<Rightarrow> (int \<times> bytes \<times> CircleQueueImp) run" where
  "popItem q nBufLen =
     (let off = nStart q * nItemLen q in
      and_then (read_at off 4 (pData q)) (\<lambda>hdr.
      let nDataLen = bytes_int hdr; nRemain = nDataLen - int nBufLen in
      if 0 < nRemain then
        and_then (read_at (off + 4) nBufLen (pData q)) (\<lambda>out.
        and_then (write_at off (int_bytes nRemain) (pData q)) (\<lambda>b1.
        and_then (read_at (off + 4 + nBufLen) (nat nRemain) b1) (\<lambda>rest.
        and_then (write_at (off + 4) rest b1) (\<lambda>b2.
          Inr (int nBufLen, out, (count_pop nBufLen q)\<lparr>pData := b2\<rparr>)))))
      else if nDataLen < 0 then Inl Out_of_bounds
      else
        and_then (read_at (off + 4) (nat nDataLen) (pData q)) (\<lambda>out.
          Inr (nDataLen, out,
               (count_pop (nat nDataLen) q)
                 \<lparr>nStart := (if nStart q + 1 = nCap q then 0 else nStart q + 1),
                  nLen := nLen q - 1\<rparr>))))"

text \<open>
  \<open>PopQueueWithTimeout\<close>; \<open>None\<close> stands for a null \<open>pBuf_\<close>. The \<open>while\<close> around the wait
  runs its body at most once: every path through it returns or leaves the queue non-empty.
\<close>

definition PopQueueWithTimeout ::
    "int \<times> int \<Rightarrow> cond_wait \<Rightarrow> CircleQueueImp \<Rightarrow> nat option \<Rightarrow> int
       \<Rightarrow> (int \<times> bytes \<times> CircleQueueImp) run" where
  "PopQueueWithTimeout now wait q pBuf nMicroSec =
     (case pBuf of
        None \<Rightarrow> Inr (LINK_ERROR, [], q)
      | Some nBufLen \<Rightarrow>
          if \<not> nIsAvailableAfterTimeout q \<and> nQState q = QUEUE_TIMEOUT_STATE
            then Inr (LINK_TIMEOUT, [], q)
          else if nQState q = QUEUE_READ_ONLY_STATE \<and> nLen q = 0 then Inr (0, [], q)
          else if nLen q = 0 then
            (case wait (pop_deadline now nMicroSec) (q\<lparr>isWait := True\<rparr>) of
               (timedout, q') \<Rightarrow>
                 if timedout
                   then Inr (LINK_TIMEOUT, [], q'\<lparr>isWait := False, nQState := QUEUE_TIMEOUT_STATE\<rparr>)
                 else if nLen q' = 0 then Inr (0, [], q'\<lparr>isWait := False\<rparr>)
                 else popItem (q'\<lparr>isWait := False\<rparr>) nBufLen)
          else popItem q nBufLen)"

definition PopQueue ::
    "int \<times> int \<Rightarrow> cond_wait \<Rightarrow> CircleQueueImp \<Rightarrow> nat option \<Rightarrow> int
       \<Rightarrow> (int \<times> bytes \<times> CircleQueueImp) run" where
  "PopQueue now wait q pBuf nMicroSec =
     (if 0 < sint (nOverwriteCnt (statInfo q)) then Inr (LINK_Q_OVERWRIT, [], q)
      else PopQueueWithTimeout now wait q pBuf nMicroSec)"

definition PopQueueWithNoOverwrite ::
    "int \<times> int \<Rightarrow> cond_wait \<Rightarrow> CircleQueueImp \<Rightarrow> nat option
       \<Rightarrow> (int \<times> bytes \<times> CircleQueueImp) run" where
  "PopQueueWithNoOverwrite now wait q pBuf =
     (if 0 < sint (nOverwriteCnt (statInfo q)) then Inr (LINK_Q_OVERWRIT, [], q)
      else if 0 < sint (nPushDataBytes (statInfo q))
        then PopQueueWithTimeout now wait q pBuf 1000000
      else PopQueueWithTimeout now wait q pBuf (1000000 * 60 * 60 * 24 * 365))"

subsection \<open>Control operations\<close>

definition stopPush :: "CircleQueueImp \<Rightarrow> CircleQueueImp" where
  "stopPush q = q\<lparr>nQState := QUEUE_READ_ONLY_STATE\<rparr>"

definition StopPush :: "CircleQueueImp \<Rightarrow> CircleQueueImp" where
  "StopPush q = stopPush q"

definition getStatInfo :: "CircleQueueImp \<Rightarrow> LinkUploaderStatInfo \<Rightarrow> LinkUploaderStatInfo" where
  "getStatInfo q info = info
     \<lparr>nPushDataBytes := nPushDataBytes (statInfo q),
      nPopDataBytes := nPopDataBytes (statInfo q),
      nStatLen := int (nLen q),
      nDropped := nDropped (statInfo q),
      nIsReadOnly := nQState q,
      nStatCap := int (nCap q)\<rparr>"

definition getQueueType :: "CircleQueueImp \<Rightarrow> CircleQueuePolicy" where
  "getQueueType q = policy q"

text \<open>
  \<open>LinkNewCircleQueue\<close>: whether the queue structure could be allocated, the answer to the
  allocation of the data block, the results of initialising the mutex and the condition
  variable, and a block given by the caller (with its contents). After allocating the data
  block the code tests the wrong pointer, so a failed allocation goes unnoticed and the
  queue has a null \<open>pData_\<close>.
\<close>

definition LinkNewCircleQueue ::
    "bool \<Rightarrow> heap_answer \<Rightarrow> int \<Rightarrow> int \<Rightarrow> bool \<Rightarrow> CircleQueuePolicy \<Rightarrow> int \<Rightarrow> int
       \<Rightarrow> (LinkQueueMem \<times> bytes) option \<Rightarrow> int \<times> CircleQueueImp option" where
  "LinkNewCircleQueue structOk m mutexRet condRet avail pol nMaxItemLen nInitItemCount pm =
     (if nMaxItemLen < 1 \<or> nInitItemCount < 1 then (LINK_ERROR, None)
      else if \<not> structOk then (LINK_NO_MEMORY, None)
      else
        let itemLen = nat nMaxItemLen + 4;
            cnt = nat nInitItemCount;
            data = (case pm of
                      Some (mem, block) \<Rightarrow> block
                    | None \<Rightarrow> (case malloc m (itemLen * cnt) of Some b \<Rightarrow> b | None \<Rightarrow> []))
        in if mutexRet \<noteq> 0 then (LINK_MUTEX_ERROR, None)
           else if condRet \<noteq> 0 then (LINK_COND_ERROR, None)
           else (LINK_SUCCESS, Some
             \<lparr>pData = data,
              nCap = (if pol = TSQ_APPEND \<or> pol = TSQ_APPEND_FIX
                      then nat nMaxItemLen * cnt else cnt),
              nLen = 0, nLenInByte = itemLen * cnt, nStart = 0, nEnd = 0, nQState = 0,
              nItemLen = itemLen, policy = pol, statInfo = zeroStatInfo,
              nIsAvailableAfterTimeout = avail, nCount = 1, isWait = False,
              shouldFree = (pm = None),
              qmem = (case pm of Some (mem, _) \<Rightarrow> mem
                              | None \<Rightarrow> \<lparr>pMem = 0, freeMem = False\<rparr>)\<rparr>))"

text \<open>\<open>LinkGetQueueBuffer\<close>: the return value and, in append mode, the bytes of the buffer.\<close>

definition LinkGetQueueBuffer :: "CircleQueueImp \<Rightarrow> int \<times> bytes option" where
  "LinkGetQueueBuffer q =
     (if policy q \<noteq> TSQ_APPEND \<and> policy q \<noteq> TSQ_APPEND_FIX then (LINK_Q_WRONGSTATE, None)
      else (int (nLen q), Some (take (nLen q) (pData q))))"

definition LinkQueueIncRefCount :: "CircleQueueImp \<Rightarrow> CircleQueueImp" where
  "LinkQueueIncRefCount q = q\<lparr>nCount := nCount q + 1\<rparr>"

definition LinkQueueDecRefCount :: "CircleQueueImp \<Rightarrow> CircleQueueImp" where
  "LinkQueueDecRefCount q = (if 1 < nCount q then q\<lparr>nCount := nCount q - 1\<rparr> else q)"

text \<open>
  \<open>LinkDestroyQueue\<close> drops one reference; the last one releases the data block: it is freed
  when the queue allocated it, else given back through the creator's callback. The busy
  wait for a popping thread (\<open>isWait\<close>) is not modelled: it changes nothing.
\<close>

datatype release = Release_free | Release_callback LinkQueueMem | Release_nothing

definition LinkDestroyQueue ::
    "CircleQueueImp option \<Rightarrow> int \<times> CircleQueueImp option \<times> release" where
  "LinkDestroyQueue pq =
     (case pq of
        None \<Rightarrow> (LINK_ERROR, None, Release_nothing)
      | Some q0 \<Rightarrow>
          let q = q0\<lparr>nCount := nCount q0 - 1\<rparr> in
          if 0 < nCount q then (LINK_SUCCESS, Some q, Release_nothing)
          else (LINK_SUCCESS, None,
            if pData q \<noteq> [] \<and> shouldFree q then Release_free
            else if freeMem (qmem q) \<and> pMem (qmem q) \<noteq> 0 then Release_callback (qmem q)
            else Release_nothing))"

subsection \<open>Slots of the ring\<close>

text \<open>
  Slot \<open>i\<close> of a block of slots of \<open>L\<close> bytes; the item a slot holds.
\<close>

definition slot :: "nat \<Rightarrow> bytes \<Rightarrow> nat \<Rightarrow> bytes" where
  "slot L b i = take L (drop (i * L) b)"

definition slot_ok :: "bytes \<Rightarrow> bool" where
  "slot_ok s \<longleftrightarrow> 0 \<le> bytes_int (take 4 s) \<and> nat (bytes_int (take 4 s)) + 4 \<le> length s"

definition item_of :: "bytes \<Rightarrow> bytes" where
  "item_of s = take (nat (bytes_int (take 4 s))) (drop 4 s)"

lemma slot_bound: "i < n \<Longrightarrow> n * L \<le> m \<Longrightarrow> i * L + L \<le> (m::nat)"
proof -
  assume "i < n" and "n * L \<le> m"
  then have "Suc i * L \<le> m"
    by (meson Suc_leI le_trans mult_le_mono1)
  then show ?thesis by simp
qed

lemma slot_other:
  assumes "i * L + k + length xs \<le> length b" and "k + length xs \<le> L" and "i \<noteq> j"
  shows "slot L (overwrite (i * L + k) xs b) j = slot L b j"
proof (cases "j < i")
  case True
  then have "j * L + L \<le> i * L" by (rule slot_bound) simp
  then show ?thesis
    unfolding slot_def using assms(1) by (intro take_drop_overwrite_before) auto
next
  case False
  with assms(3) have "i < j" by simp
  then have "i * L + L \<le> j * L" by (rule slot_bound) simp
  then show ?thesis
    unfolding slot_def using assms(1,2) by (intro take_drop_overwrite_after) auto
qed

lemma slot_same:
  assumes "i * L + L \<le> length b" and "k + length xs \<le> L"
  shows "slot L (overwrite (i * L + k) xs b) i = overwrite k xs (slot L b i)"
  unfolding slot_def using assms
  by (subst take_drop_overwrite_inside) auto

lemma length_slot: "i * L + L \<le> length b \<Longrightarrow> length (slot L b i) = L"
  by (simp add: slot_def)

text \<open>Filling a slot stores the item and leaves the other slots alone.\<close>

lemma writeSlot_ok:
  assumes "i * L + L \<le> length b" and "length d + 4 \<le> L"
  shows "writeSlot L i d b =
    Inr (overwrite (i * L + 4) d (overwrite (i * L) (int_bytes (int (length d))) b))"
  using assms by (simp add: writeSlot_def mem_simps)

lemma writeSlot_slots:
  assumes "i * L + L \<le> length b" and "length d + 4 \<le> L" and "L < 2 ^ 31"
    and w: "writeSlot L i d b = Inr b'"
  shows "length b' = length b"
    and "slot_ok (slot L b' i)"
    and "item_of (slot L b' i) = d"
    and "j \<noteq> i \<Longrightarrow> slot L b' j = slot L b j"
proof -
  let ?h = "int_bytes (int (length d))"
  define b1 where "b1 = overwrite (i * L) ?h b"
  have b1: "length b1 = length b" "slot L b1 i = overwrite 0 ?h (slot L b i)"
    using slot_same [where k = 0 and xs = ?h and i = i and L = L and b = b] assms
    by (simp_all add: b1_def)
  have b': "b' = overwrite (i * L + 4) d b1"
    using w assms by (simp add: writeSlot_ok b1_def)
  show len: "length b' = length b"
    using assms by (simp add: b' b1)
  have s: "slot L b' i = overwrite 4 d (overwrite 0 ?h (slot L b i))"
    unfolding b' using assms b1 by (subst slot_same) auto
  have l: "length (slot L b i) = L"
    using assms(1) by (rule length_slot)
  have hd: "take 4 (slot L b' i) = ?h"
    using assms(2) l by (simp add: s overwrite_def)
  have n: "bytes_int ?h = int (length d)"
    using assms(2,3) by (intro bytes_int_int_bytes) auto
  show "slot_ok (slot L b' i)"
    using assms(1,2) len by (simp add: slot_ok_def hd n length_slot)
  show "item_of (slot L b' i) = d"
    using assms(2) l by (simp add: item_of_def hd n) (simp add: s overwrite_def)
  show "slot L b' j = slot L b j" if "j \<noteq> i"
  proof -
    have "slot L b' j = slot L b1 j"
      unfolding b' using that assms b1 by (intro slot_other) auto
    also have "\<dots> = slot L b j"
      unfolding b1_def using that assms slot_other [where k = 0 and xs = ?h and i = i] by simp
    finally show ?thesis .
  qed
qed

subsection \<open>The ring as a list of items\<close>

text \<open>
  What the ring policies keep true of their state, and the items the ring holds, oldest
  first.
\<close>

definition ring_policy :: "CircleQueueImp \<Rightarrow> bool" where
  "ring_policy q \<longleftrightarrow> policy q \<noteq> TSQ_APPEND \<and> policy q \<noteq> TSQ_APPEND_FIX"

definition ring_shape :: "CircleQueueImp \<Rightarrow> bool" where
  "ring_shape q \<longleftrightarrow> ring_policy q \<and> 0 < nCap q \<and> 4 < nItemLen q \<and> nItemLen q < 2 ^ 31
     \<and> nLenInByte q = nCap q * nItemLen q \<and> nLenInByte q \<le> length (pData q)
     \<and> nLen q \<le> nCap q \<and> nStart q < nCap q \<and> nEnd q = (nStart q + nLen q) mod nCap q"

definition ring_slot :: "CircleQueueImp \<Rightarrow> nat \<Rightarrow> bytes" where
  "ring_slot q k = slot (nItemLen q) (pData q) ((nStart q + k) mod nCap q)"

definition ring_inv :: "CircleQueueImp \<Rightarrow> bool" where
  "ring_inv q \<longleftrightarrow> ring_shape q \<and> (\<forall>k < nLen q. slot_ok (ring_slot q k))"

definition ring_items :: "CircleQueueImp \<Rightarrow> bytes list" where
  "ring_items q = map (\<lambda>k. item_of (ring_slot q k)) [0..<nLen q]"

lemma length_ring_items [simp]: "length (ring_items q) = nLen q"
  by (simp add: ring_items_def)

lemma ring_index_distinct:
  assumes "k < n" and "n < (c::nat)"
  shows "(s + k) mod c \<noteq> (s + n) mod c"
proof
  assume "(s + k) mod c = (s + n) mod c"
  then have "c dvd (s + n) - (s + k)"
    using mod_eq_dvd_iff_nat [of "s + k" "s + n" c] assms by (simp only:) simp
  then have "c dvd n - k" by simp
  with assms show False
    by (auto dest: dvd_imp_le)
qed

lemma wrap_index: "e < c \<Longrightarrow> (if e + 1 = c then 0 else e + 1) = (e + 1) mod (c::nat)"
  by auto

lemma ring_bound: "ring_shape q \<Longrightarrow> i < nCap q \<Longrightarrow> i * nItemLen q + nItemLen q \<le> length (pData q)"
  by (rule slot_bound) (auto simp: ring_shape_def)

text \<open>What pushes into free space and pops leave unchanged.\<close>

definition same_config :: "CircleQueueImp \<Rightarrow> CircleQueueImp \<Rightarrow> bool" where
  "same_config q q' \<longleftrightarrow> nCap q' = nCap q \<and> nItemLen q' = nItemLen q \<and> policy q' = policy q
     \<and> nQState q' = nQState q \<and> nIsAvailableAfterTimeout q' = nIsAvailableAfterTimeout q
     \<and> nOverwriteCnt (statInfo q') = nOverwriteCnt (statInfo q)"

text \<open>A push into free space appends the item.\<close>

lemma ringPush_ok:
  assumes inv: "ring_inv q" and room: "nLen q < nCap q" and fit: "length d + 4 \<le> nItemLen q"
  shows "\<exists>q'. ringPush q d = Inr (int (length d), q') \<and> ring_inv q'
    \<and> ring_items q' = ring_items q @ [d] \<and> same_config q q'"
proof -
  let ?L = "nItemLen q" and ?c = "nCap q" and ?e = "nEnd q"
  have sh: "ring_shape q" and oks: "\<And>k. k < nLen q \<Longrightarrow> slot_ok (ring_slot q k)"
    using inv by (auto simp: ring_inv_def)
  have e: "?e < ?c" "?e = (nStart q + nLen q) mod ?c" and L: "?L < 2 ^ 31"
    using sh by (auto simp: ring_shape_def)
  have bound: "?e * ?L + ?L \<le> length (pData q)"
    by (rule ring_bound [OF sh e(1)])
  obtain b' where w: "writeSlot ?L ?e d (pData q) = Inr b'"
    using writeSlot_ok [OF bound fit] by blast
  note ws = writeSlot_slots [OF bound fit L w]
  define q' where "q' = (count_push (length d) q)\<lparr>pData := b',
    nEnd := (?e + 1) mod ?c, nLen := nLen q + 1\<rparr>"
  have push: "ringPush q d = Inr (int (length d), q')"
    using e(1) by (simp add: ringPush_def Let_def w q'_def wrap_index)
  have fields: "nItemLen q' = ?L" "pData q' = b'" "nStart q' = nStart q" "nCap q' = ?c"
    "nLen q' = nLen q + 1" "policy q' = policy q" "nLenInByte q' = nLenInByte q"
    "nEnd q' = (?e + 1) mod ?c" "nQState q' = nQState q"
    "nIsAvailableAfterTimeout q' = nIsAvailableAfterTimeout q"
    "nOverwriteCnt (statInfo q') = nOverwriteCnt (statInfo q)"
    by (simp_all add: q'_def count_push_def)
  have old: "ring_slot q' k = ring_slot q k" if "k < nLen q" for k
    using ring_index_distinct [OF that room, of "nStart q"] e(2)
    by (simp add: ring_slot_def fields ws(4))
  have new: "ring_slot q' (nLen q) = slot ?L b' ?e"
    using e(2) by (simp add: ring_slot_def fields)
  have "ring_shape q'"
    using sh room ws(1) by (auto simp: ring_shape_def ring_policy_def fields mod_simps)
  then have "ring_inv q'"
    using oks old new ws(2) by (auto simp: ring_inv_def fields less_Suc_eq)
  moreover have "ring_items q' = ring_items q @ [d]"
    using old new ws(3) by (simp add: ring_items_def fields)
  ultimately show ?thesis
    using push fields by (auto simp: same_config_def)
qed

text \<open>On a full ring the overwriting push drops the oldest item.\<close>

lemma overwritePush_ok:
  assumes inv: "ring_inv q" and full: "nLen q = nCap q" and fit: "length d + 4 \<le> nItemLen q"
  shows "\<exists>q'. overwritePush q d = Inr (LINK_Q_OVERWRIT, q') \<and> ring_inv q'
    \<and> ring_items q' = tl (ring_items q) @ [d]"
proof -
  let ?L = "nItemLen q" and ?c = "nCap q" and ?e = "nEnd q"
  have sh: "ring_shape q" and oks: "\<And>k. k < nLen q \<Longrightarrow> slot_ok (ring_slot q k)"
    using inv by (auto simp: ring_inv_def)
  have e: "?e < ?c" "?e = nStart q" and L: "?L < 2 ^ 31" and c: "0 < ?c"
    using sh full by (auto simp: ring_shape_def)
  have bound: "?e * ?L + ?L \<le> length (pData q)"
    by (rule ring_bound [OF sh e(1)])
  obtain b' where w: "writeSlot ?L ?e d (pData q) = Inr b'"
    using writeSlot_ok [OF bound fit] by blast
  note ws = writeSlot_slots [OF bound fit L w]
  define q' where "q' = count_overwrite ((count_push (length d) q)\<lparr>pData := b',
    nEnd := (?e + 1) mod ?c, nStart := (?e + 1) mod ?c\<rparr>)"
  have push: "overwritePush q d = Inr (LINK_Q_OVERWRIT, q')"
    using e(1) by (auto simp: overwritePush_def Let_def w q'_def e(2) [symmetric])
  have fields: "nItemLen q' = ?L" "pData q' = b'" "nStart q' = (?e + 1) mod ?c" "nCap q' = ?c"
    "nLen q' = nLen q" "policy q' = policy q" "nLenInByte q' = nLenInByte q"
    "nEnd q' = (?e + 1) mod ?c"
    by (simp_all add: q'_def count_push_def count_overwrite_def)
  have old: "ring_slot q' k = ring_slot q (Suc k)" if "Suc k < nLen q" for k
  proof -
    have "(?e + Suc k) mod ?c \<noteq> (?e + 0) mod ?c"
      using ring_index_distinct [of 0 "Suc k" ?c ?e] that full by auto
    then show ?thesis
      using e by (simp add: ring_slot_def fields ws(4) mod_simps)
  qed
  have new: "ring_slot q' (?c - 1) = slot ?L b' ?e"
  proof -
    have "((?e + 1) mod ?c + (?c - 1)) mod ?c = ?e"
      using e(1) by (cases "?e + 1 = ?c") auto
    then show ?thesis by (simp add: ring_slot_def fields)
  qed
  have "ring_shape q'"
    using sh full ws(1) by (auto simp: ring_shape_def ring_policy_def fields)
  moreover have "slot_ok (ring_slot q' k)" if "k < nLen q" for k
  proof (cases "Suc k < nLen q")
    case True
    then show ?thesis using oks old by simp
  next
    case False
    then have "k = ?c - 1" using that full by simp
    then show ?thesis using new ws(2) by simp
  qed
  ultimately have "ring_inv q'"
    by (simp add: ring_inv_def fields)
  moreover have "ring_items q' = tl (ring_items q) @ [d]"
  proof -
    obtain n where n: "?c = Suc n" using c by (cases ?c) auto
    have "ring_items q' = map (\<lambda>k. item_of (ring_slot q' k)) [0..<n] @ [item_of (ring_slot q' n)]"
      using full n by (simp add: ring_items_def fields)
    also have "\<dots> = map (\<lambda>k. item_of (ring_slot q (Suc k))) [0..<n] @ [d]"
      using old new ws(3) n full by simp
    also have "map (\<lambda>k. item_of (ring_slot q (Suc k))) [0..<n] = tl (ring_items q)"
      using full n by (simp add: ring_items_def upt_conv_Cons map_Suc_upt [symmetric] del: upt_Suc)
    finally show ?thesis .
  qed
  ultimately show ?thesis
    using push by auto
qed

text \<open>Taking the oldest item: whole when it fits the caller's buffer, else a prefix of it.\<close>

lemma ring_items_Cons:
  assumes "ring_items q = x # xs"
  shows "0 < nLen q" and "item_of (ring_slot q 0) = x"
    and "xs = map (\<lambda>k. item_of (ring_slot q (Suc k))) [0..<nLen q - 1]"
proof -
  have "length (ring_items q) = Suc (length xs)"
    using assms by simp
  then obtain n where n: "nLen q = Suc n"
    by auto
  have "x # xs = map (\<lambda>k. item_of (ring_slot q k)) [0..<Suc n]"
    using assms n by (simp only: ring_items_def)
  then have "x # xs = item_of (ring_slot q 0) # map (\<lambda>k. item_of (ring_slot q (Suc k))) [0..<n]"
    by (simp add: upt_conv_Cons map_Suc_upt [symmetric] del: upt_Suc)
  then show "0 < nLen q" "item_of (ring_slot q 0) = x"
    "xs = map (\<lambda>k. item_of (ring_slot q (Suc k))) [0..<nLen q - 1]"
    using n by simp_all
qed

lemma slot_header:
  assumes "i * L + L \<le> length b" and "4 \<le> L" and "slot_ok (slot L b i)"
  shows "take 4 (drop (i * L) b) = take 4 (slot L b i)"
    and "bytes_int (take 4 (slot L b i)) = int (length (item_of (slot L b i)))"
    and "length (item_of (slot L b i)) + 4 \<le> L"
    and "take (length (item_of (slot L b i))) (drop (i * L + 4) b) = item_of (slot L b i)"
proof -
  have l: "length (slot L b i) = L"
    using assms(1) by (rule length_slot)
  let ?n = "nat (bytes_int (take 4 (slot L b i)))"
  have n: "0 \<le> bytes_int (take 4 (slot L b i))" "?n + 4 \<le> L"
    using assms(3) l by (auto simp: slot_ok_def)
  have len: "length (item_of (slot L b i)) = ?n"
    using n l by (simp add: item_of_def)
  show "take 4 (drop (i * L) b) = take 4 (slot L b i)"
    using assms(2) by (simp add: slot_def min_def)
  show "bytes_int (take 4 (slot L b i)) = int (length (item_of (slot L b i)))"
    using n len by simp
  show "length (item_of (slot L b i)) + 4 \<le> L"
    using n len by simp
  have "drop 4 (slot L b i) = take (L - 4) (drop (i * L + 4) b)"
    using assms(2) by (simp add: slot_def drop_take add.commute)
  moreover have "?n \<le> L - 4"
    using n by simp
  ultimately show "take (length (item_of (slot L b i))) (drop (i * L + 4) b) = item_of (slot L b i)"
    by (simp only: len) (simp add: item_of_def min_absorb1)
qed

lemma popItem_whole:
  assumes inv: "ring_inv q" and items: "ring_items q = x # xs" and fit: "length x \<le> n"
  shows "\<exists>q'. popItem q n = Inr (int (length x), x, q') \<and> ring_inv q' \<and> ring_items q' = xs
    \<and> same_config q q'"
proof -
  let ?L = "nItemLen q" and ?s = "nStart q" and ?c = "nCap q"
  have sh: "ring_shape q" and oks: "\<And>k. k < nLen q \<Longrightarrow> slot_ok (ring_slot q k)"
    using inv by (auto simp: ring_inv_def)
  have s: "?s < ?c" "4 < ?L" and le: "nLen q \<le> ?c"
    using sh by (auto simp: ring_shape_def)
  note hd = ring_items_Cons [OF items]
  have bound: "?s * ?L + ?L \<le> length (pData q)"
    by (rule ring_bound [OF sh s(1)])
  have slot0: "ring_slot q 0 = slot ?L (pData q) ?s"
    using s by (simp add: ring_slot_def)
  have ok0: "slot_ok (slot ?L (pData q) ?s)"
    using oks [of 0] hd(1) slot0 by simp
  note h = slot_header [OF bound less_imp_le [OF s(2)] ok0, folded slot0, unfolded hd(2)]
  define q' where "q' = (count_pop (length x) q)
    \<lparr>nStart := (?s + 1) mod ?c, nLen := nLen q - 1\<rparr>"
  have r1: "read_at (?s * ?L) 4 (pData q) = Inr (take 4 (ring_slot q 0))"
    using bound s(2) h(1) by (simp add: mem_simps)
  have r2: "read_at (?s * ?L + 4) (length x) (pData q) = Inr x"
    using bound h(3,4) by (simp add: mem_simps)
  have pop: "popItem q n = Inr (int (length x), x, q')"
    using fit s(1) by (auto simp: popItem_def Let_def r1 h(2) r2 q'_def)
  have fields: "nItemLen q' = ?L" "pData q' = pData q" "nStart q' = (?s + 1) mod ?c"
    "nCap q' = ?c" "nLen q' = nLen q - 1" "policy q' = policy q"
    "nLenInByte q' = nLenInByte q" "nEnd q' = nEnd q"
    "nQState q' = nQState q" "nIsAvailableAfterTimeout q' = nIsAvailableAfterTimeout q"
    "nOverwriteCnt (statInfo q') = nOverwriteCnt (statInfo q)"
    by (simp_all add: q'_def count_pop_def)
  have old: "ring_slot q' k = ring_slot q (Suc k)" for k
    by (simp add: ring_slot_def fields mod_simps)
  have "(?s + nLen q) mod ?c = ((?s + 1) mod ?c + (nLen q - 1)) mod ?c"
    using hd(1) by (cases "nLen q") (auto simp: mod_simps)
  then have "ring_shape q'"
    using sh s(1) by (auto simp: ring_shape_def ring_policy_def fields)
  then have "ring_inv q'"
    using oks by (auto simp: ring_inv_def fields old)
  moreover have "ring_items q' = xs"
    by (simp add: ring_items_def fields old hd(3))
  ultimately show ?thesis
    using pop fields by (auto simp: same_config_def)
qed

lemma popItem_part:
  assumes inv: "ring_inv q" and items: "ring_items q = x # xs" and cut: "n < length x"
  shows "\<exists>q'. popItem q n = Inr (int n, take n x, q') \<and> ring_inv q'
    \<and> ring_items q' = drop n x # xs \<and> same_config q q'"
proof -
  let ?L = "nItemLen q" and ?s = "nStart q" and ?c = "nCap q" and ?b = "pData q"
  let ?h = "int_bytes (int (length x) - int n)"
  have sh: "ring_shape q" and oks: "\<And>k. k < nLen q \<Longrightarrow> slot_ok (ring_slot q k)"
    using inv by (auto simp: ring_inv_def)
  have s: "?s < ?c" "4 < ?L" "?L < 2 ^ 31" and le: "nLen q \<le> ?c"
    using sh by (auto simp: ring_shape_def)
  note hd = ring_items_Cons [OF items]
  have bound: "?s * ?L + ?L \<le> length ?b"
    by (rule ring_bound [OF sh s(1)])
  have slot0: "ring_slot q 0 = slot ?L ?b ?s"
    using s by (simp add: ring_slot_def)
  have ok0: "slot_ok (slot ?L ?b ?s)"
    using oks [of 0] hd(1) slot0 by simp
  note h = slot_header [OF bound less_imp_le [OF s(2)] ok0, folded slot0, unfolded hd(2)]
  have len_d: "length (drop n x) + 4 \<le> ?L"
    using h(3) by simp
  have hdr: "?h = int_bytes (int (length (drop n x)))"
    using cut by (simp add: of_nat_diff)
  have r1: "read_at (?s * ?L) 4 ?b = Inr (take 4 (ring_slot q 0))"
    using bound s(2) h(1) by (simp add: mem_simps)
  have r2: "read_at (?s * ?L + 4) n ?b = Inr (take n x)"
  proof -
    have "take n (drop (?s * ?L + 4) ?b) = take n (take (length x) (drop (?s * ?L + 4) ?b))"
      using cut by simp
    then show ?thesis
      using bound cut h(3) by (simp add: mem_simps h(4))
  qed
  define b1 where "b1 = overwrite (?s * ?L) ?h ?b"
  have w1: "write_at (?s * ?L) ?h ?b = Inr b1"
    using bound s(2) by (simp add: mem_simps b1_def)
  have len1: "length b1 = length ?b"
    using bound s(2) by (simp add: b1_def)
  have "take (length x - n) (drop (?s * ?L + 4 + n) b1) = drop n x"
  proof -
    have "take (length x - n) (drop (?s * ?L + 4 + n) b1)
        = take (length x - n) (drop (?s * ?L + 4 + n) ?b)"
      unfolding b1_def using bound s(2) by (intro take_drop_overwrite_after) auto
    also have "\<dots> = drop n (take (length x) (drop (?s * ?L + 4) ?b))"
      by (simp add: drop_take add.commute)
    finally show ?thesis by (simp add: h(4))
  qed
  then have r3: "read_at (?s * ?L + 4 + n) (length x - n) b1 = Inr (drop n x)"
    using bound cut h(3) len1 by (simp add: mem_simps)
  obtain b2 where w: "writeSlot ?L ?s (drop n x) ?b = Inr b2"
    using writeSlot_ok [OF bound len_d] by blast
  then have w2: "write_at (?s * ?L + 4) (drop n x) b1 = Inr b2"
    by (simp only: writeSlot_def hdr [symmetric] w1) simp
  note ws = writeSlot_slots [OF bound len_d s(3) w]
  define q' where "q' = (count_pop n q)\<lparr>pData := b2\<rparr>"
  have pop: "popItem q n = Inr (int n, take n x, q')"
    using cut by (simp add: popItem_def Let_def r1 h(2) r2 w1 w2 q'_def nat_diff_distrib r3)
  have fields: "nItemLen q' = ?L" "pData q' = b2" "nStart q' = ?s"
    "nCap q' = ?c" "nLen q' = nLen q" "policy q' = policy q"
    "nLenInByte q' = nLenInByte q" "nEnd q' = nEnd q"
    "nQState q' = nQState q" "nIsAvailableAfterTimeout q' = nIsAvailableAfterTimeout q"
    "nOverwriteCnt (statInfo q') = nOverwriteCnt (statInfo q)"
    by (simp_all add: q'_def count_pop_def)
  have new: "ring_slot q' 0 = slot ?L b2 ?s"
    using s by (simp add: ring_slot_def fields)
  have old: "ring_slot q' (Suc k) = ring_slot q (Suc k)" if "Suc k < nLen q" for k
  proof -
    have "(?s + Suc k) mod ?c \<noteq> ?s"
      using ring_index_distinct [of 0 "Suc k" ?c ?s] that le s(1) by auto
    then show ?thesis
      by (simp add: ring_slot_def fields ws(4))
  qed
  have "ring_shape q'"
    using sh ws(1) by (auto simp: ring_shape_def ring_policy_def fields)
  moreover have "slot_ok (ring_slot q' k)" if "k < nLen q" for k
    using that oks old new ws(2) by (cases k) auto
  ultimately have "ring_inv q'"
    by (simp add: ring_inv_def fields)
  moreover have "ring_items q' = drop n x # xs"
  proof -
    obtain m where m: "nLen q = Suc m" using hd(1) by (cases "nLen q") auto
    have "ring_items q' = item_of (ring_slot q' 0) # map (\<lambda>k. item_of (ring_slot q' (Suc k))) [0..<m]"
      by (simp add: ring_items_def fields m upt_conv_Cons map_Suc_upt [symmetric] del: upt_Suc)
    also have "\<dots> = drop n x # map (\<lambda>k. item_of (ring_slot q (Suc k))) [0..<m]"
      using new ws(3) old m by simp
    finally show ?thesis
      using m by (simp add: hd(3))
  qed
  ultimately show ?thesis
    using pop fields by (auto simp: same_config_def)
qed

subsection \<open>The whole push and pop\<close>

lemma PushQueue_room:
  assumes "ring_inv q" and "nLen q < nCap q" and "length d + 4 \<le> nItemLen q"
    and "nQState q \<noteq> QUEUE_READ_ONLY_STATE"
    and "nIsAvailableAfterTimeout q \<or> nQState q \<noteq> QUEUE_TIMEOUT_STATE"
  shows "PushQueue m q (Some d) = ringPush q d"
  using assms by (auto simp: PushQueue_def ring_inv_def ring_shape_def ring_policy_def)

lemma PushQueue_full:
  assumes "ring_inv q" and "nLen q = nCap q" and "length d + 4 \<le> nItemLen q"
    and "nQState q \<noteq> QUEUE_READ_ONLY_STATE"
    and "nIsAvailableAfterTimeout q \<or> nQState q \<noteq> QUEUE_TIMEOUT_STATE"
  shows "policy q = TSQ_FIX_LENGTH \<Longrightarrow> PushQueue m q (Some d) = Inr (LINK_Q_OVERFLOW, q)"
    and "policy q = TSQ_FIX_LENGTH_CAN_OVERWRITE \<Longrightarrow>
      PushQueue m q (Some d) = overwritePush q d"
  using assms by (auto simp: PushQueue_def)

subsection \<open>The queue as a bounded first-in first-out channel\<close>

text \<open>
  What the threads of the uploader rely on when they exchange commands through a
  \<open>TSQ_FIX_LENGTH\<close> queue: the contract of a bounded FIFO, and its consequence for every
  sequence of operations.
\<close>

datatype 'a queue_op = Push 'a | Pop

fun run_queue ::
    "('q \<Rightarrow> 'a \<Rightarrow> (int \<times> 'q) run) \<Rightarrow> ('q \<Rightarrow> (int \<times> 'a \<times> 'q) run)
       \<Rightarrow> 'q \<Rightarrow> 'a queue_op list \<Rightarrow> ((int \<times> 'a option) list \<times> 'q) run" where
  "run_queue push pop q [] = Inr ([], q)"
| "run_queue push pop q (Push x # ops) =
     and_then (push q x) (\<lambda>(r, q').
     and_then (run_queue push pop q' ops) (\<lambda>(rs, q''). Inr ((r, None) # rs, q'')))"
| "run_queue push pop q (Pop # ops) =
     and_then (pop q) (\<lambda>(r, x, q').
     and_then (run_queue push pop q' ops) (\<lambda>(rs, q'').
       Inr ((r, if 0 < r then Some x else None) # rs, q'')))"

text \<open>The abstract channel: a list of at most \<open>c\<close> items.\<close>

fun spec_queue ::
    "('a \<Rightarrow> int) \<Rightarrow> nat \<Rightarrow> 'a list \<Rightarrow> 'a queue_op list \<Rightarrow> (int \<times> 'a option) list \<times> 'a list" where
  "spec_queue size_of c xs [] = ([], xs)"
| "spec_queue size_of c xs (Push x # ops) =
     (if length xs < c then
        (case spec_queue size_of c (xs @ [x]) ops of (rs, ys) \<Rightarrow> ((size_of x, None) # rs, ys))
      else (case spec_queue size_of c xs ops of (rs, ys) \<Rightarrow> ((LINK_Q_OVERFLOW, None) # rs, ys)))"
| "spec_queue size_of c [] (Pop # ops) =
     (case spec_queue size_of c [] ops of (rs, ys) \<Rightarrow> ((LINK_TIMEOUT, None) # rs, ys))"
| "spec_queue size_of c (x # xs) (Pop # ops) =
     (case spec_queue size_of c xs ops of (rs, ys) \<Rightarrow>
        ((size_of x, if 0 < size_of x then Some x else None) # rs, ys))"

locale bounded_fifo =
  fixes push :: "'q \<Rightarrow> 'a \<Rightarrow> (int \<times> 'q) run"
    and pop :: "'q \<Rightarrow> (int \<times> 'a \<times> 'q) run"
    and items :: "'q \<Rightarrow> 'a list"
    and inv :: "nat \<Rightarrow> nat \<Rightarrow> 'q \<Rightarrow> bool"
    and size_of :: "'a \<Rightarrow> int"
    and fits :: "nat \<Rightarrow> 'a \<Rightarrow> bool"
  assumes push_room: "inv c l q \<Longrightarrow> fits l x \<Longrightarrow> length (items q) < c \<Longrightarrow>
      \<exists>q'. push q x = Inr (size_of x, q') \<and> inv c l q' \<and> items q' = items q @ [x]"
    and push_full: "inv c l q \<Longrightarrow> fits l x \<Longrightarrow> \<not> length (items q) < c \<Longrightarrow>
      push q x = Inr (LINK_Q_OVERFLOW, q)"
    and pop_item: "inv c l q \<Longrightarrow> items q = x # xs \<Longrightarrow>
      \<exists>q'. pop q = Inr (size_of x, x, q') \<and> inv c l q' \<and> items q' = xs"
    and pop_empty: "inv c l q \<Longrightarrow> items q = [] \<Longrightarrow>
      \<exists>x q'. pop q = Inr (LINK_TIMEOUT, x, q') \<and> inv c l q' \<and> items q' = []"
begin

lemma run_refines:
  assumes "inv c l q" and "\<And>x. Push x \<in> set ops \<Longrightarrow> fits l x"
  shows "\<exists>q'. run_queue push pop q ops = Inr (fst (spec_queue size_of c (items q) ops), q')
    \<and> inv c l q' \<and> items q' = snd (spec_queue size_of c (items q) ops)"
  using assms
proof (induction ops arbitrary: q)
  case Nil
  then show ?case by simp
next
  case (Cons op ops)
  have IH: "inv c l q' \<Longrightarrow> \<exists>q''. run_queue push pop q' ops
      = Inr (fst (spec_queue size_of c (items q') ops), q'')
      \<and> inv c l q'' \<and> items q'' = snd (spec_queue size_of c (items q') ops)" for q'
    using Cons by simp
  show ?case
  proof (cases op)
    case (Push x)
    then have x: "fits l x" using Cons.prems(2) by simp
    show ?thesis
    proof (cases "length (items q) < c")
      case True
      then obtain q' where "push q x = Inr (size_of x, q')" "inv c l q'" "items q' = items q @ [x]"
        using push_room Cons.prems(1) x by blast
      then show ?thesis
        using IH [of q'] True Push by (auto split: prod.splits)
    next
      case False
      then show ?thesis
        using push_full [OF Cons.prems(1) x] IH [of q] Cons.prems(1) Push
        by (auto split: prod.splits)
    qed
  next
    case Pop
    show ?thesis
    proof (cases "items q")
      case Nil
      then obtain x q' where "pop q = Inr (LINK_TIMEOUT, x, q')" "inv c l q'" "items q' = []"
        using pop_empty Cons.prems(1) by blast
      then show ?thesis
        using IH [of q'] Nil Pop by (auto split: prod.splits)
    next
      case items: (Cons x xs)
      then obtain q' where "pop q = Inr (size_of x, x, q')" "inv c l q'" "items q' = xs"
        using pop_item Cons.prems(1) by blast
      then show ?thesis
        using IH [of q'] items Pop by (auto split: prod.splits)
    qed
  qed
qed

end

text \<open>
  The command queues: created with \<open>nIsAvailableAfterTimeout = 1\<close>, never stopped. A pop
  on an empty queue waits; here nobody pushes meanwhile and the wait times out.
\<close>

definition fix_inv :: "nat \<Rightarrow> nat \<Rightarrow> CircleQueueImp \<Rightarrow> bool" where
  "fix_inv c l q \<longleftrightarrow> ring_inv q \<and> policy q = TSQ_FIX_LENGTH \<and> nIsAvailableAfterTimeout q
     \<and> nQState q \<noteq> QUEUE_READ_ONLY_STATE \<and> nOverwriteCnt (statInfo q) = 0
     \<and> nCap q = c \<and> nItemLen q = l"

definition fix_push :: "CircleQueueImp \<Rightarrow> bytes \<Rightarrow> (int \<times> CircleQueueImp) run" where
  "fix_push q d = PushQueue None q (Some d)"

definition fix_pop :: "CircleQueueImp \<Rightarrow> (int \<times> bytes \<times> CircleQueueImp) run" where
  "fix_pop q = PopQueue (0, 0) (\<lambda>_ q'. (True, q')) q (Some (nItemLen q)) 0"

definition fix_fits :: "nat \<Rightarrow> bytes \<Rightarrow> bool" where
  "fix_fits l d \<longleftrightarrow> length d + 4 \<le> l"

lemma ring_items_fit:
  assumes "ring_inv q" and "ring_items q = x # xs"
  shows "length x + 4 \<le> nItemLen q"
proof -
  have sh: "ring_shape q" and ok: "slot_ok (ring_slot q 0)"
    using assms ring_items_Cons(1) [OF assms(2)] by (auto simp: ring_inv_def)
  have s: "nStart q < nCap q" "4 < nItemLen q"
    using sh by (auto simp: ring_shape_def)
  have slot0: "ring_slot q 0 = slot (nItemLen q) (pData q) (nStart q)"
    using s by (simp add: ring_slot_def)
  show ?thesis
    using slot_header(3) [OF ring_bound [OF sh s(1)] less_imp_le [OF s(2)]] ok
      ring_items_Cons(2) [OF assms(2)] slot0 by simp
qed

interpretation fix_queue: bounded_fifo fix_push fix_pop ring_items fix_inv
    "\<lambda>d. int (length d)" fix_fits
proof
  fix c l q x
  assume "fix_inv c l q" "fix_fits l x" "length (ring_items q) < c"
  then show "\<exists>q'. fix_push q x = Inr (int (length x), q') \<and> fix_inv c l q'
      \<and> ring_items q' = ring_items q @ [x]"
    using ringPush_ok [of q x]
    by (auto simp: fix_inv_def fix_fits_def fix_push_def PushQueue_room same_config_def)
next
  fix c l q x
  assume "fix_inv c l q" "fix_fits l x" "\<not> length (ring_items q) < c"
  then have "ring_inv q" "nLen q = nCap q" "policy q = TSQ_FIX_LENGTH"
    and "fix_inv c l q" "fix_fits l x"
    by (auto simp: fix_inv_def ring_inv_def ring_shape_def)
  then show "fix_push q x = Inr (LINK_Q_OVERFLOW, q)"
    by (simp add: fix_push_def PushQueue_full fix_inv_def fix_fits_def)
next
  fix c l q x xs
  assume q: "fix_inv c l q" and items: "ring_items q = x # xs"
  then have inv: "ring_inv q" and ne: "nLen q \<noteq> 0"
    using ring_items_Cons(1) [OF items] by (auto simp: fix_inv_def)
  have "length x \<le> nItemLen q"
    using ring_items_fit [OF inv items] by simp
  then show "\<exists>q'. fix_pop q = Inr (int (length x), x, q') \<and> fix_inv c l q' \<and> ring_items q' = xs"
    using popItem_whole [OF inv items] q ne
    by (fastforce simp: fix_pop_def PopQueue_def PopQueueWithTimeout_def fix_inv_def same_config_def)
next
  fix c l q
  assume "fix_inv c l q" and "ring_items q = []"
  then show "\<exists>x q'. fix_pop q = Inr (LINK_TIMEOUT, x, q') \<and> fix_inv c l q' \<and> ring_items q' = []"
    by (auto simp: fix_pop_def PopQueue_def PopQueueWithTimeout_def fix_inv_def ring_items_def
        ring_inv_def ring_shape_def ring_policy_def ring_slot_def)
qed

subsection \<open>A new queue\<close>

lemma LinkNewCircleQueue_ring:
  assumes new: "LinkNewCircleQueue True (Some junk) 0 0 avail pol maxLen cnt None
      = (LINK_SUCCESS, Some q)"
    and pol: "pol \<noteq> TSQ_APPEND" "pol \<noteq> TSQ_APPEND_FIX" and small: "maxLen + 4 < 2 ^ 31"
  shows "ring_inv q" and "ring_items q = []" and "nCap q = nat cnt" and "nItemLen q = nat maxLen + 4"
    and "policy q = pol" and "nIsAvailableAfterTimeout q = avail" and "nQState q = 0"
    and "nOverwriteCnt (statInfo q) = 0"
  using assms
  by (auto simp: LinkNewCircleQueue_def Let_def malloc_def ring_inv_def ring_shape_def
      ring_policy_def ring_items_def zeroStatInfo_def split: if_splits)

text \<open>
  C2: A fixed-length queue, as the threads of the uploader create it, is a bounded FIFO: any
  sequence of pushes and pops of items of the agreed size returns exactly what a list of at
  most \<open>cnt\<close> items would return, \<open>LINK_Q_OVERFLOW\<close> when it is full and \<open>LINK_TIMEOUT\<close> when
  it is empty, and no step accesses memory outside the queue's block.
\<close>

theorem queue_is_bounded_fifo:
  assumes new: "LinkNewCircleQueue True (Some junk) 0 0 True TSQ_FIX_LENGTH maxLen cnt None
      = (LINK_SUCCESS, Some q)"
    and small: "maxLen + 4 < 2 ^ 31"
    and sizes: "\<And>d. Push d \<in> set ops \<Longrightarrow> int (length d) \<le> maxLen"
  shows "\<exists>q'. run_queue fix_push fix_pop q ops
       = Inr (fst (spec_queue (\<lambda>d. int (length d)) (nat cnt) [] ops), q')
     \<and> ring_items q' = snd (spec_queue (\<lambda>d. int (length d)) (nat cnt) [] ops)"
proof -
  note n = LinkNewCircleQueue_ring [OF new _ _ small]
  have inv: "fix_inv (nat cnt) (nat maxLen + 4) q"
    using n by (auto simp: fix_inv_def)
  have "fix_fits (nat maxLen + 4) d" if "Push d \<in> set ops" for d
    using sizes [OF that] by (auto simp: fix_fits_def)
  from fix_queue.run_refines [OF inv this] show ?thesis
    using n(2) by auto
qed

theorem queue_is_bounded_fifo_witness:
  "\<exists>q q'. LinkNewCircleQueue True (Some (\<lambda>_. 0)) 0 0 True TSQ_FIX_LENGTH 3 1 None
      = (LINK_SUCCESS, Some q)
    \<and> run_queue fix_push fix_pop q [Push [7, 8], Push [9], Pop, Pop]
      = Inr ([(2, None), (LINK_Q_OVERFLOW, None), (2, Some [7, 8]), (LINK_TIMEOUT, None)], q')"
proof -
  obtain q where new: "LinkNewCircleQueue True (Some (\<lambda>_. 0)) 0 0 True TSQ_FIX_LENGTH 3 1 None
      = (LINK_SUCCESS, Some q)"
    by (simp add: LinkNewCircleQueue_def Let_def)
  let ?ops = "[Push [7, 8], Push [9], Pop, Pop] :: bytes queue_op list"
  let ?spec = "spec_queue (\<lambda>d. int (length d)) (nat 1) [] ?ops"
  have "\<exists>q'. run_queue fix_push fix_pop q ?ops = Inr (fst ?spec, q') \<and> ring_items q' = snd ?spec"
    by (rule queue_is_bounded_fifo [OF new]) auto
  then show ?thesis
    using new by (auto simp del: run_queue.simps)
qed

text \<open>Pushing a list of items one after the other.\<close>

fun push_all :: "CircleQueueImp \<Rightarrow> bytes list \<Rightarrow> CircleQueueImp run" where
  "push_all q [] = Inr q"
| "push_all q (d # ds) = and_then (PushQueue None q (Some d)) (\<lambda>(r, q'). push_all q' ds)"

definition last_n :: "nat \<Rightarrow> 'a list \<Rightarrow> 'a list" where
  "last_n n xs = drop (length xs - n) xs"

lemma last_n_append_left: "c \<le> length B \<Longrightarrow> last_n c (A @ B) = last_n c B"
  by (simp add: last_n_def)

lemma last_n_last_n: "last_n c (last_n c xs @ ys) = last_n c (xs @ ys)"
proof (cases "length xs \<le> c")
  case True
  then show ?thesis by (simp add: last_n_def)
next
  case False
  define A B where "A = take (length xs - c) xs" and "B = last_n c xs"
  have "xs = A @ B" and "length B = c"
    using False by (simp_all add: A_def B_def last_n_def)
  then show ?thesis
    using last_n_append_left [of c "B @ ys" A] by (metis B_def append_assoc le_add1 length_append)
qed

definition overwrite_inv :: "nat \<Rightarrow> nat \<Rightarrow> CircleQueueImp \<Rightarrow> bool" where
  "overwrite_inv c l q \<longleftrightarrow> ring_inv q \<and> policy q = TSQ_FIX_LENGTH_CAN_OVERWRITE
     \<and> nIsAvailableAfterTimeout q \<and> nQState q \<noteq> QUEUE_READ_ONLY_STATE
     \<and> nCap q = c \<and> nItemLen q = l"

lemma overwritePush_config:
  "overwritePush q d = Inr (r, q') \<Longrightarrow> nCap q' = nCap q \<and> nItemLen q' = nItemLen q
    \<and> policy q' = policy q \<and> nQState q' = nQState q
    \<and> nIsAvailableAfterTimeout q' = nIsAvailableAfterTimeout q"
  by (auto simp: overwritePush_def Let_def and_then_eq_Inr count_defs)

lemma PushQueue_overwrite:
  assumes inv: "overwrite_inv c l q" and fit: "length d + 4 \<le> l"
  shows "\<exists>r q'. PushQueue None q (Some d) = Inr (r, q') \<and> overwrite_inv c l q'
    \<and> ring_items q' = last_n c (ring_items q @ [d])"
proof (cases "nLen q < c")
  case True
  then show ?thesis
    using inv fit ringPush_ok [of q d]
    by (auto simp: overwrite_inv_def PushQueue_room same_config_def last_n_def)
next
  case False
  then have full: "nLen q = nCap q" and c: "0 < c"
    using inv by (auto simp: overwrite_inv_def ring_inv_def ring_shape_def)
  have "tl (ring_items q) @ [d] = last_n c (ring_items q @ [d])"
    using full c inv by (auto simp: last_n_def overwrite_inv_def drop_Suc tl_drop [symmetric])
  then show ?thesis
    using overwritePush_ok [of q d] overwritePush_config [of q d] inv fit full
    by (fastforce simp: overwrite_inv_def PushQueue_full)
qed

lemma push_all_overwrite:
  assumes "overwrite_inv c l q" and "0 < c" and "\<forall>d \<in> set ds. length d + 4 \<le> l"
  shows "\<exists>q'. push_all q ds = Inr q' \<and> overwrite_inv c l q'
    \<and> ring_items q' = last_n c (ring_items q @ ds)"
  using assms
proof (induction ds arbitrary: q)
  case Nil
  then have "length (ring_items q) \<le> c"
    by (simp add: overwrite_inv_def ring_inv_def ring_shape_def)
  then show ?case
    using Nil by (simp add: last_n_def)
next
  case (Cons d ds)
  obtain r q1 where q1: "PushQueue None q (Some d) = Inr (r, q1)" "overwrite_inv c l q1"
    "ring_items q1 = last_n c (ring_items q @ [d])"
    using PushQueue_overwrite [of c l q d] Cons.prems by auto
  have "last_n c (last_n c (ring_items q @ [d]) @ ds) = last_n c (ring_items q @ d # ds)"
    by (simp add: last_n_last_n)
  then show ?case
    using Cons.IH [OF q1(2)] Cons.prems q1 by auto
qed

text \<open>
  A queue with the overwriting policy never refuses an item: after any number of pushes it
  holds the \<open>cnt\<close> most recent items, oldest first.
\<close>

theorem overwrite_queue_keeps_latest:
  assumes new: "LinkNewCircleQueue True (Some junk) 0 0 True TSQ_FIX_LENGTH_CAN_OVERWRITE
      maxLen cnt None = (LINK_SUCCESS, Some q)"
    and small: "maxLen + 4 < 2 ^ 31"
    and sizes: "\<forall>d \<in> set ds. int (length d) \<le> maxLen"
  shows "\<exists>q'. push_all q ds = Inr q' \<and> ring_items q' = last_n (nat cnt) ds"
proof -
  note n = LinkNewCircleQueue_ring [OF new _ _ small]
  have "overwrite_inv (nat cnt) (nat maxLen + 4) q"
    using n by (simp add: overwrite_inv_def)
  moreover have "0 < nat cnt"
    using n(1,3) by (simp add: ring_inv_def ring_shape_def)
  moreover have "\<forall>d \<in> set ds. length d + 4 \<le> nat maxLen + 4"
    using sizes by auto
  ultimately show ?thesis
    using push_all_overwrite n(2) by fastforce
qed

theorem overwrite_queue_keeps_latest_witness:
  "\<exists>q q'. LinkNewCircleQueue True (Some (\<lambda>_. 0)) 0 0 True TSQ_FIX_LENGTH_CAN_OVERWRITE 3 2 None
      = (LINK_SUCCESS, Some q)
    \<and> push_all q [[1], [2, 2], [3]] = Inr q' \<and> ring_items q' = [[2, 2], [3]]"
proof -
  obtain q where new: "LinkNewCircleQueue True (Some (\<lambda>_. 0)) 0 0 True
      TSQ_FIX_LENGTH_CAN_OVERWRITE 3 2 None = (LINK_SUCCESS, Some q)"
    by (simp add: LinkNewCircleQueue_def Let_def)
  have "\<exists>q'. push_all q [[1], [2, 2], [3]] = Inr q'
      \<and> ring_items q' = last_n (nat 2) [[1], [2, 2], [3]]"
    using overwrite_queue_keeps_latest [OF new, of "[[1], [2, 2], [3]]"] by simp
  then show ?thesis
    using new by (auto simp: last_n_def)
qed

subsection \<open>The append buffer\<close>

text \<open>
  \<open>TSQ_APPEND_FIX\<close> gathers the packets of one TS file in a block of fixed size. A push that
  does not fit is refused as a whole.
\<close>

definition append_inv :: "nat \<Rightarrow> nat \<Rightarrow> CircleQueueImp \<Rightarrow> bool" where
  "append_inv c l q \<longleftrightarrow> policy q = TSQ_APPEND_FIX \<and> nCap q = c \<and> nItemLen q = l
     \<and> nLen q \<le> c \<and> c \<le> length (pData q) \<and> nIsAvailableAfterTimeout q
     \<and> nQState q \<noteq> QUEUE_READ_ONLY_STATE"

definition append_bytes :: "CircleQueueImp \<Rightarrow> bytes" where
  "append_bytes q = take (nLen q) (pData q)"

definition accept :: "nat \<Rightarrow> bytes \<Rightarrow> bytes \<Rightarrow> bytes" where
  "accept c acc d = (if length acc + length d \<le> c then acc @ d else acc)"

lemma PushQueue_append:
  assumes inv: "append_inv c l q" and fit: "length d + 4 \<le> l"
  shows "\<exists>q'. PushQueue m q (Some d)
      = Inr (if length (append_bytes q) + length d \<le> c then int (length d) else 0, q')
    \<and> append_inv c l q' \<and> append_bytes q' = accept c (append_bytes q) d"
proof (cases "nLen q + length d \<le> c")
  case True
  then have "write_at (nLen q) d (pData q) = Inr (overwrite (nLen q) d (pData q))"
    using inv by (simp add: append_inv_def mem_simps)
  moreover have "nLen q \<le> length (pData q)"
    using inv by (simp add: append_inv_def)
  ultimately show ?thesis
    using True inv fit
    by (auto simp: PushQueue_def queueAppendPush_def queueAppendCopy_def append_inv_def
        append_bytes_def accept_def count_push_def overwrite_def min_absorb1 min_absorb2)
next
  case False
  then show ?thesis
    using inv fit
    by (auto simp: PushQueue_def queueAppendPush_def append_inv_def append_bytes_def accept_def)
qed

lemma push_all_append:
  assumes "append_inv c l q" and "\<forall>d \<in> set ds. length d + 4 \<le> l"
  shows "\<exists>q'. push_all q ds = Inr q' \<and> append_inv c l q'
    \<and> append_bytes q' = foldl (accept c) (append_bytes q) ds"
  using assms
proof (induction ds arbitrary: q)
  case Nil
  then show ?case by simp
next
  case (Cons d ds)
  obtain r q1 where "PushQueue None q (Some d) = Inr (r, q1)" "append_inv c l q1"
    "append_bytes q1 = accept c (append_bytes q) d"
    using PushQueue_append [of c l q d None] Cons.prems by auto
  then show ?case
    using Cons.IH [of q1] Cons.prems(2) by auto
qed

lemma LinkNewCircleQueue_append:
  assumes new: "LinkNewCircleQueue True m 0 0 True TSQ_APPEND_FIX maxLen cnt (Some (mem, block))
      = (LINK_SUCCESS, Some q)"
    and big: "nat maxLen * nat cnt \<le> length block"
  shows "append_inv (nat maxLen * nat cnt) (nat maxLen + 4) q" and "append_bytes q = []"
  using assms by (auto simp: LinkNewCircleQueue_def Let_def append_inv_def append_bytes_def
      split: if_splits)

text \<open>Packets of one size: the buffer holds the first ones, as many as fit.\<close>

lemma foldl_accept_full:
  "c < length acc + n \<Longrightarrow> \<forall>d \<in> set ds. length d = n \<Longrightarrow> foldl (accept c) acc ds = acc"
  by (induction ds) (auto simp: accept_def)

lemma foldl_accept_equal:
  assumes "\<forall>d \<in> set ds. length d = n" and "0 < n" and "length acc \<le> c"
  shows "foldl (accept c) acc ds = acc @ concat (take ((c - length acc) div n) ds)"
  using assms
proof (induction ds arbitrary: acc)
  case Nil
  then show ?case by simp
next
  case (Cons d ds)
  show ?case
  proof (cases "length acc + n \<le> c")
    case True
    then have "(c - length acc) div n = Suc ((c - length (acc @ d)) div n)"
      using Cons.prems by (simp add: div_if [of "c - length acc"] add.commute)
    then show ?thesis
      using Cons.IH [of "acc @ d"] Cons.prems True by (simp add: accept_def)
  next
    case False
    then have "foldl (accept c) acc (d # ds) = acc"
      using Cons.prems(1) by (intro foldl_accept_full [where n = n]) auto
    moreover have "(c - length acc) div n = 0"
      using False Cons.prems(2,3) by (intro div_less) auto
    ultimately show ?thesis by simp
  qed
qed

text \<open>
  The buffer of one TS file, created over a caller's block of sufficient size, holds after
  any sequence of packet pushes the concatenation of the first packets, as many whole packets
  as its capacity has room for; no push writes outside the block, and \<open>LinkGetQueueBuffer\<close>
  returns these bytes and their length.
\<close>

theorem append_buffer_holds_whole_packets:
  assumes new: "LinkNewCircleQueue True m 0 0 True TSQ_APPEND_FIX maxLen cnt (Some (mem, block))
      = (LINK_SUCCESS, Some q)"
    and big: "nat maxLen * nat cnt \<le> length block"
    and packets: "\<forall>d \<in> set ds. length d = n" and n: "0 < n" "int n \<le> maxLen"
  shows "\<exists>q'. push_all q ds = Inr q' \<and> LinkGetQueueBuffer q' =
     (let buf = concat (take (nat maxLen * nat cnt div n) ds) in (int (length buf), Some buf))"
proof -
  let ?c = "nat maxLen * nat cnt" and ?l = "nat maxLen + 4"
  note i = LinkNewCircleQueue_append [OF new big]
  have "\<forall>d \<in> set ds. length d + 4 \<le> ?l"
    using packets n by auto
  then obtain q' where q': "push_all q ds = Inr q'" "append_inv ?c ?l q'"
    "append_bytes q' = foldl (accept ?c) [] ds"
    using push_all_append [OF i(1)] i(2) by auto
  have buf: "append_bytes q' = concat (take (?c div n) ds)"
    using q'(3) foldl_accept_equal [OF packets n(1), of "[]" ?c] by simp
  have "LinkGetQueueBuffer q' = (int (length (append_bytes q')), Some (append_bytes q'))"
    using q'(2) by (auto simp: LinkGetQueueBuffer_def append_inv_def append_bytes_def)
  then show ?thesis
    using q'(1) buf by (auto simp: Let_def)
qed

theorem append_buffer_holds_whole_packets_witness:
  "\<exists>q q'. LinkNewCircleQueue True None 0 0 True TSQ_APPEND_FIX 2 2
        (Some (\<lparr>pMem = 1, freeMem = True\<rparr>, [0, 0, 0, 0, 0])) = (LINK_SUCCESS, Some q)
    \<and> push_all q [[1, 2], [3, 4], [5, 6]] = Inr q'
    \<and> LinkGetQueueBuffer q' = (4, Some [1, 2, 3, 4])"
proof -
  obtain q where new: "LinkNewCircleQueue True None 0 0 True TSQ_APPEND_FIX 2 2
      (Some (\<lparr>pMem = 1, freeMem = True\<rparr>, [0, 0, 0, 0, 0])) = (LINK_SUCCESS, Some q)"
    by (simp add: LinkNewCircleQueue_def Let_def)
  show ?thesis
    using append_buffer_holds_whole_packets [OF new, of "[[1, 2], [3, 4], [5, 6]]" 2] new
    by (auto simp: Let_def simp del: push_all.simps)
qed

subsection \<open>Where the queue oversteps its block\<close>

text \<open>
  \<open>TSQ_APPEND\<close> grows the buffer by half its capacity, without looking at how much is
  needed: a queue created for one item of four bytes that is full accepts a second item of
  four bytes and writes it past the end of the reallocated block.
\<close>

theorem append_growth_overflows:
  "and_then (push_all (the (snd (LinkNewCircleQueue True (Some (\<lambda>_. 0)) 0 0 True TSQ_APPEND 4 1
       (None)))) [[1, 2, 3, 4]])
     (\<lambda>q. PushQueue (Some (\<lambda>_. 0)) q (Some [5, 6, 7, 8])) = Inl Out_of_bounds"
  by (simp add: LinkNewCircleQueue_def Let_def malloc_def PushQueue_def queueAppendPush_def
      queueAppendCopy_def realloc_def count_push_def zeroStatInfo_def mem_simps)

definition varlen_run :: "(int \<times> CircleQueueImp) run" where
  "varlen_run =
     (let junk = Some (\<lambda>_. 0);
          q0 = the (snd (LinkNewCircleQueue True junk 0 0 True TSQ_VAR_LENGTH 1 2 None))
      in and_then (PushQueue junk q0 (Some [1])) (\<lambda>(_, q1).
         and_then (PushQueue junk q1 (Some [2])) (\<lambda>(_, q2).
         and_then (PushQueue junk q2 (Some [3])) (\<lambda>(_, q3).
         and_then (popItem q3 1) (\<lambda>(_, _, q4).
           PushQueue junk q4 (Some [4]))))))"

text \<open>
  Growing a \<open>TSQ_VAR_LENGTH\<close> ring of capacity two or three leaves \<open>nEnd_\<close> equal to the
  new capacity. When an item is then taken and another one pushed, the push writes past the
  end of the block.
\<close>

theorem varlen_growth_overflows: "varlen_run = Inl Out_of_bounds"
  by code_simp

text \<open>
  When the data block cannot be allocated, \<open>LinkNewCircleQueue\<close> reports success all the
  same (it tests the wrong pointer), and the first push writes through the null pointer.
\<close>

theorem failed_allocation_is_missed:
  "\<exists>q. LinkNewCircleQueue True None 0 0 avail TSQ_FIX_LENGTH 8 4 None = (LINK_SUCCESS, Some q)
     \<and> PushQueue m q (Some [1, 2]) = Inl Out_of_bounds"
  by (simp add: LinkNewCircleQueue_def Let_def malloc_def PushQueue_def ringPush_def
      writeSlot_def mem_simps)

subsection \<open>Stopping and destroying a queue\<close>

text \<open>
  After \<open>StopPush\<close> a queue accepts nothing more (\<open>LINK_NO_PUSH\<close>, its items unchanged), but
  what it holds can still be taken in order; once empty, a pop returns 0 at once, without
  waiting for the condition variable.
\<close>

theorem stopped_queue_drains:
  assumes inv: "fix_inv c l q" and fit: "length d + 4 \<le> l" and big: "l \<le> n"
  shows "(\<exists>q'. PushQueue m (StopPush q) (Some d) = Inr (LINK_NO_PUSH, q')
            \<and> ring_items q' = ring_items q)
       \<and> (case ring_items q of
            [] \<Rightarrow> PopQueue now wait (StopPush q) (Some n) usec = Inr (0, [], StopPush q)
          | x # xs \<Rightarrow> (\<exists>q'. PopQueue now wait (StopPush q) (Some n) usec
                  = Inr (int (length x), x, q') \<and> ring_items q' = xs
                  \<and> nQState q' = QUEUE_READ_ONLY_STATE))"
proof -
  let ?s = "StopPush q"
  have inv_s: "ring_inv ?s" and items: "ring_items ?s = ring_items q"
    using inv by (auto simp: fix_inv_def StopPush_def stopPush_def ring_inv_def ring_shape_def
      ring_policy_def ring_slot_def ring_items_def)
  have fields: "nItemLen ?s = l" "nQState ?s = QUEUE_READ_ONLY_STATE" "nLen ?s = nLen q"
    "nOverwriteCnt (statInfo ?s) = 0"
    using inv by (auto simp: fix_inv_def StopPush_def stopPush_def)
  have push: "\<exists>q'. PushQueue m ?s (Some d) = Inr (LINK_NO_PUSH, q') \<and> ring_items q' = ring_items q"
    using fit fields items
    by (auto simp: PushQueue_def count_drop_def ring_items_def ring_slot_def)
  show ?thesis
  proof (cases "ring_items q")
    case Nil
    then have "nLen q = 0"
      using length_ring_items [of q] by simp
    then show ?thesis
      using push Nil fields by (auto simp: PopQueue_def PopQueueWithTimeout_def)
  next
    case (Cons x xs)
    then have ne: "nLen q \<noteq> 0" and fit_x: "length x \<le> n"
      using ring_items_Cons(1) ring_items_fit [OF inv_s] items fields(1) big by fastforce+
    have "PopQueue now wait ?s (Some n) usec = popItem ?s n"
      using fields ne by (auto simp: PopQueue_def PopQueueWithTimeout_def)
    then show ?thesis
      using push Cons popItem_whole [OF inv_s _ fit_x] items fields(2)
      by (auto simp: same_config_def)
  qed
qed

theorem stopped_queue_drains_witness:
  "\<exists>q q'. fix_inv 2 5 q \<and> PushQueue None (StopPush q) (Some [9]) = Inr (LINK_NO_PUSH, q')"
proof -
  obtain q where new: "LinkNewCircleQueue True (Some (\<lambda>_. 0)) 0 0 True TSQ_FIX_LENGTH 1 2 None
      = (LINK_SUCCESS, Some q)"
    by (simp add: LinkNewCircleQueue_def Let_def)
  have inv: "fix_inv 2 5 q"
    using LinkNewCircleQueue_ring [OF new] by (simp add: fix_inv_def)
  show ?thesis
    using stopped_queue_drains [OF inv, of "[9]" 5 None "(0, 0)" "\<lambda>_ q. (True, q)" 0] inv by auto
qed

fun destroy_times :: "nat \<Rightarrow> CircleQueueImp option \<Rightarrow> release list \<times> CircleQueueImp option" where
  "destroy_times 0 pq = ([], pq)"
| "destroy_times (Suc k) pq =
     (case LinkDestroyQueue pq of (_, pq', rel) \<Rightarrow>
       (case destroy_times k pq' of (rels, pq'') \<Rightarrow> (rel # rels, pq'')))"

fun acquire_times :: "nat \<Rightarrow> CircleQueueImp \<Rightarrow> CircleQueueImp" where
  "acquire_times 0 q = q"
| "acquire_times (Suc k) q = acquire_times k (LinkQueueIncRefCount q)"

definition release_of :: "CircleQueueImp \<Rightarrow> release" where
  "release_of q = (if pData q \<noteq> [] \<and> shouldFree q then Release_free
     else if freeMem (qmem q) \<and> pMem (qmem q) \<noteq> 0 then Release_callback (qmem q)
     else Release_nothing)"

lemma acquire_times_eq: "acquire_times k q = q\<lparr>nCount := nCount q + int k\<rparr>"
  by (induction k arbitrary: q) (auto simp: LinkQueueIncRefCount_def algebra_simps)

lemma destroy_times_eq:
  "nCount q = int k + 1 \<Longrightarrow>
   destroy_times (Suc k) (Some q) = (replicate k Release_nothing @ [release_of q], None)"
proof (induction k arbitrary: q)
  case 0
  then show ?case by (simp add: LinkDestroyQueue_def Let_def release_of_def)
next
  case (Suc k)
  let ?q = "q\<lparr>nCount := nCount q - 1\<rparr>"
  have "LinkDestroyQueue (Some q) = (LINK_SUCCESS, Some ?q, Release_nothing)"
    using Suc.prems by (simp add: LinkDestroyQueue_def Let_def)
  moreover have "release_of ?q = release_of q"
    by (simp add: release_of_def)
  ultimately show ?case
    using Suc.IH [of ?q] Suc.prems by (subst destroy_times.simps) simp
qed

text \<open>
  C5: A queue with one owner that is acquired \<open>k\<close> more times survives \<open>k\<close> calls of
  \<open>LinkDestroyQueue\<close>, which release nothing; the call after that releases its memory once, the
  block it allocated by \<open>free\<close>, a block of its creator through the creator's callback.
\<close>

theorem queue_memory_released_once:
  assumes "nCount q = 1"
  shows "destroy_times (Suc k) (Some (acquire_times k q))
    = (replicate k Release_nothing @ [release_of q], None)"
  using destroy_times_eq [of "acquire_times k q" k] assms
  by (simp add: acquire_times_eq release_of_def)

theorem queue_memory_released_once_witness:
  "\<exists>q. LinkNewCircleQueue True None 0 0 True TSQ_APPEND_FIX 2 2
        (Some (\<lparr>pMem = 64, freeMem = True\<rparr>, [0, 0, 0, 0])) = (LINK_SUCCESS, Some q)
    \<and> destroy_times 2 (Some (LinkQueueIncRefCount q))
      = ([Release_nothing, Release_callback \<lparr>pMem = 64, freeMem = True\<rparr>], None)"
proof -
  obtain q where q: "LinkNewCircleQueue True None 0 0 True TSQ_APPEND_FIX 2 2
      (Some (\<lparr>pMem = 64, freeMem = True\<rparr>, [0, 0, 0, 0])) = (LINK_SUCCESS, Some q)"
    and f: "nCount q = 1" "shouldFree q = False" "qmem q = \<lparr>pMem = 64, freeMem = True\<rparr>"
    by (simp add: LinkNewCircleQueue_def Let_def)
  have "destroy_times (Suc 1) (Some (acquire_times 1 q))
      = (replicate 1 Release_nothing @ [release_of q], None)"
    by (rule queue_memory_released_once [OF f(1)])
  then show ?thesis
    using q f by (auto simp: release_of_def numeral_2_eq_2 simp del: destroy_times.simps)
qed

end
