(* ===== verification/Kmp.thy ===== *)
theory Kmp
  imports Prelude
begin

section \<open>Pattern search (libtsuploader/kmp.c)\<close>

text \<open>
  The Knuth-Morris-Pratt search the muxer uses to find NAL unit start codes:
  \<open>LinkInitKmp\<close> computes the failure table, \<open>LinkFindPatternIndex\<close> looks for the first
  occurrence. Both loops are modelled as loops that might not end (\<open>None\<close>); the lemmas show
  that they do, that the table holds the longest borders of the pattern's prefixes, and that
  the search returns the first occurrence.
\<close>

subsection \<open>Model\<close>

record LinkKMP =
  pattern :: bytes
  patternSize :: int
  prefix :: "int list"
  prefixLen :: int

text \<open>The loop that fills \<open>t\<close> from \<open>pos\<close> on, \<open>count\<close> being the border it tries to extend.\<close>

partial_function (option) kmp_table ::
    "bytes \<Rightarrow> int list \<Rightarrow> nat \<Rightarrow> nat \<Rightarrow> int list option" where
  "kmp_table p t pos count =
     (if pos < length p then
        if p ! (pos - 1) = p ! count
          then kmp_table p (t[pos := int (count + 1)]) (pos + 1) (count + 1)
        else if 0 < count then kmp_table p t pos (nat (t ! count))
        else kmp_table p (t[pos := 0]) (pos + 1) count
      else Some t)"

definition LinkInitKmp :: "bytes \<Rightarrow> (int \<times> LinkKMP) option" where
  "LinkInitKmp p =
     (let kmp = \<lparr>pattern = p, patternSize = int (length p), prefix = replicate 32 0,
                 prefixLen = 0\<rparr> in
      if length p < 2 then Some (-1, kmp)
      else if 32 < length p then Some (-2, kmp)
      else case kmp_table p ((replicate 32 0)[0 := -1, 1 := 0]) 2 0 of
             None \<Rightarrow> None
           | Some t \<Rightarrow> Some (0, kmp\<lparr>prefix := t\<rparr>))"

partial_function (option) kmp_search :: "LinkKMP \<Rightarrow> bytes \<Rightarrow> nat \<Rightarrow> nat \<Rightarrow> int option" where
  "kmp_search k s m i =
     (if m + i < length s then
        if pattern k ! i = s ! (m + i) then
          if int i = patternSize k - 1 then Some (int m)
          else kmp_search k s m (i + 1)
        else
          kmp_search k s (nat (int (m + i) - prefix k ! i))
            (if -1 < prefix k ! i then nat (prefix k ! i) else 0)
      else Some (-2))"

declare kmp_table.simps [code] kmp_search.simps [code]

definition LinkFindPatternIndex :: "LinkKMP \<Rightarrow> bytes \<Rightarrow> int option" where
  "LinkFindPatternIndex k s =
     (if int (length s) < patternSize k then Some (-1) else kmp_search k s 0 0)"

subsection \<open>Borders\<close>

text \<open>
  \<open>bord p j k\<close>: the first \<open>k\<close> bytes of \<open>p\<close> are also the last \<open>k\<close> of its first \<open>j\<close>, \<open>k < j\<close>.
\<close>

definition bord :: "bytes \<Rightarrow> nat \<Rightarrow> nat \<Rightarrow> bool" where
  "bord p j k \<longleftrightarrow> k < j \<and> (\<forall>i < k. p ! i = p ! (j - k + i))"

definition longest_bord :: "bytes \<Rightarrow> nat \<Rightarrow> nat \<Rightarrow> bool" where
  "longest_bord p j k \<longleftrightarrow> bord p j k \<and> (\<forall>l. bord p j l \<longrightarrow> l \<le> k)"

lemma bord_0: "0 < j \<Longrightarrow> bord p j 0"
  by (simp add: bord_def)

lemma bord_less: "bord p j k \<Longrightarrow> k < j"
  by (simp add: bord_def)

lemma bordD: "bord p j k \<Longrightarrow> i < k \<Longrightarrow> p ! i = p ! (j - k + i)"
  by (simp add: bord_def)

lemma bord_Suc: "bord p (Suc j) (Suc k) \<longleftrightarrow> bord p j k \<and> p ! k = p ! j"
  by (auto simp: bord_def less_Suc_eq)

lemma bord_trans:
  assumes "bord p j k" and "bord p k l"
  shows "bord p j l"
  unfolding bord_def
proof (intro conjI allI impI)
  show "l < j" using assms by (simp add: bord_def)
  fix i assume i: "i < l"
  have "p ! i = p ! (k - l + i)"
    using assms(2) i by (simp add: bord_def)
  also have "\<dots> = p ! (j - k + (k - l + i))"
    using bord_less [OF assms(2)] i by (intro bordD [OF assms(1)]) arith
  also have "j - k + (k - l + i) = j - l + i"
    using assms i by (simp add: bord_def)
  finally show "p ! i = p ! (j - l + i)" .
qed

lemma bord_nested:
  assumes "bord p j k" and "bord p j l" and "l < k"
  shows "bord p k l"
  unfolding bord_def
proof (intro conjI allI impI)
  show "l < k" by (rule assms(3))
  fix i assume i: "i < l"
  have "p ! (k - l + i) = p ! (j - k + (k - l + i))"
    using assms i by (simp add: bord_def)
  also have "j - k + (k - l + i) = j - l + i"
    using assms by (simp add: bord_def)
  also have "p ! (j - l + i) = p ! i"
    using assms(2) i by (simp add: bord_def)
  finally show "p ! i = p ! (k - l + i)" by simp
qed

subsection \<open>The failure table\<close>

definition table_ok :: "bytes \<Rightarrow> int list \<Rightarrow> nat \<Rightarrow> bool" where
  "table_ok p t n \<longleftrightarrow> n \<le> length t \<and> t ! 0 = -1
     \<and> (\<forall>j. 1 \<le> j \<and> j < n \<longrightarrow> (\<exists>k. t ! j = int k \<and> longest_bord p j k))"

lemma table_okD:
  "table_ok p t n \<Longrightarrow> 0 < j \<Longrightarrow> j < n \<Longrightarrow> \<exists>k. t ! j = int k \<and> longest_bord p j k"
  by (auto simp: table_ok_def Suc_le_eq)

lemma table_ok_extend:
  assumes "table_ok p t n" and "n < length t" and "0 < n" and "longest_bord p n k"
  shows "table_ok p (t[n := int k]) (Suc n)"
  using assms by (auto simp: table_ok_def nth_list_update less_Suc_eq)

lemma kmp_table_ok:
  assumes "table_ok p t pos" and "2 \<le> pos" and "pos \<le> length p" and "length p \<le> length t"
    and "bord p (pos - 1) count" and "\<And>l. bord p pos l \<Longrightarrow> l \<le> count + 1"
  shows "\<exists>t'. kmp_table p t pos count = Some t' \<and> table_ok p t' (length p)"
  using assms
proof (induction "2 * length p - (2 * pos - count)" arbitrary: t pos count rule: less_induct)
  case less
  obtain j where j: "pos = Suc j" and "0 < j"
    using less.prems(2) by (cases pos) auto
  have bj: "bord p j count" and cj: "count < j"
    using less.prems(5) j by (auto simp: bord_def)
  show ?case
  proof (cases "pos < length p")
    case False
    then show ?thesis
      using less.prems by (simp add: kmp_table.simps)
  next
    case inside: True
    show ?thesis
    proof (cases "p ! (pos - 1) = p ! count")
      case True
      then have b: "bord p pos (count + 1)"
        using bj j by (simp add: bord_Suc)
      then have long: "longest_bord p pos (count + 1)"
        using less.prems(6) by (simp add: longest_bord_def)
      let ?t = "t[pos := int (count + 1)]"
      have "table_ok p ?t (pos + 1)"
        using table_ok_extend [OF less.prems(1) _ _ long] inside less.prems(4) j by simp
      moreover have "l \<le> count + 2" if "bord p (pos + 1) l" for l
        using that less.prems(6) by (cases l) (auto simp: bord_Suc)
      ultimately have "\<exists>t'. kmp_table p ?t (pos + 1) (count + 1) = Some t' \<and> table_ok p t' (length p)"
        using less.prems(2-4) inside b cj j by (intro less.hyps) simp_all
      then show ?thesis
        using inside True by (subst kmp_table.simps) simp
    next
      case mismatch: False
      have below: "l \<le> count" if "bord p pos l" for l
      proof (rule ccontr)
        assume "\<not> l \<le> count"
        then have "l = count + 1" using less.prems(6) [OF that] by simp
        then show False using that mismatch j by (simp add: bord_Suc)
      qed
      show ?thesis
      proof (cases "0 < count")
        case True
        then obtain c where c: "t ! count = int c" "longest_bord p count c"
          using table_okD [OF less.prems(1) True] cj j by auto
        then have bc: "bord p count c" by (simp add: longest_bord_def)
        have "bord p (pos - 1) c"
          using bord_trans [OF bj bc] j by simp
        moreover have "l \<le> c + 1" if "bord p pos l" for l
        proof (cases l)
          case (Suc l')
          then have "bord p j l'" "l' < count"
            using that below [OF that] j by (auto simp: bord_Suc)
          then show ?thesis
            using bord_nested [OF bj] c(2) Suc by (auto simp: longest_bord_def)
        qed simp
        ultimately have "\<exists>t'. kmp_table p t pos c = Some t' \<and> table_ok p t' (length p)"
          using less.prems(1-4) cj j inside bord_less [OF bc] by (intro less.hyps) simp_all
        then show ?thesis
          using inside mismatch True c(1) by (subst kmp_table.simps) simp
      next
        case False
        then have long: "longest_bord p pos 0"
          using below j by (auto simp: longest_bord_def bord_0)
        have "table_ok p (t[pos := 0]) (pos + 1)"
          using table_ok_extend [OF less.prems(1) _ _ long] inside less.prems(4) j by simp
        moreover have "l \<le> 1" if "bord p (pos + 1) l" for l
          using that below False by (cases l) (auto simp: bord_Suc)
        ultimately have "\<exists>t'. kmp_table p (t[pos := 0]) (pos + 1) 0 = Some t'
            \<and> table_ok p t' (length p)"
          using less.prems(2-4) inside j False by (intro less.hyps) (simp_all add: bord_0)
        then show ?thesis
          using inside mismatch False by (subst kmp_table.simps) simp
      qed
    qed
  qed
qed

lemma LinkInitKmp_ok:
  assumes "2 \<le> length p" and "length p \<le> 32"
  shows "\<exists>k. LinkInitKmp p = Some (0, k) \<and> pattern k = p \<and> patternSize k = int (length p)
    \<and> table_ok p (prefix k) (length p)"
proof -
  let ?t = "(replicate 32 0)[0 := -1, 1 := 0] :: int list"
  have "table_ok p ?t 2"
    by (auto simp: table_ok_def longest_bord_def bord_def less_Suc_eq numeral_2_eq_2
        intro!: exI [of _ 0])
  moreover have "l \<le> 0 + 1" if "bord p 2 l" for l
    using that by (simp add: bord_def)
  ultimately have "\<exists>t'. kmp_table p ?t 2 0 = Some t' \<and> table_ok p t' (length p)"
    using assms by (intro kmp_table_ok) (auto simp: bord_0)
  then show ?thesis
    using assms by (auto simp: LinkInitKmp_def Let_def)
qed

subsection \<open>The search\<close>

definition occurs :: "bytes \<Rightarrow> bytes \<Rightarrow> nat \<Rightarrow> bool" where
  "occurs p s m \<longleftrightarrow> m + length p \<le> length s \<and> take (length p) (drop m s) = p"

lemma occurs_nth: "occurs p s m \<longleftrightarrow> m + length p \<le> length s \<and> (\<forall>i < length p. p ! i = s ! (m + i))"
  by (auto simp: occurs_def list_eq_iff_nth_eq)

definition first_occurrence :: "bytes \<Rightarrow> bytes \<Rightarrow> int" where
  "first_occurrence p s = (if \<exists>m. occurs p s m then int (LEAST m. occurs p s m) else -2)"

lemma first_occurrenceI:
  assumes "occurs p s m" and "\<And>m'. m' < m \<Longrightarrow> \<not> occurs p s m'"
  shows "first_occurrence p s = int m"
  using assms by (auto simp: first_occurrence_def intro!: Least_equality) (meson not_le)

text \<open>A shift over a border skips no occurrence.\<close>

lemma shift_skips_nothing:
  assumes match: "\<And>j. j < i \<Longrightarrow> p ! j = s ! (m + j)" and mismatch: "p ! i \<noteq> s ! (m + i)"
    and i: "i < length p" and long: "longest_bord p i b" and m': "m \<le> m'" "m' < m + i - b"
  shows "\<not> occurs p s m'"
proof
  assume occ: "occurs p s m'"
  define d where "d = m' - m"
  have m'd: "m' = m + d" and d: "d < i - b"
    using m' by (auto simp: d_def)
  show False
  proof (cases "d = 0")
    case True
    then show False
      using occ i mismatch m'd by (auto simp: occurs_nth)
  next
    case False
    have "bord p i (i - d)"
      unfolding bord_def
    proof (intro conjI allI impI)
      show "i - d < i" using False d by simp
      fix x assume x: "x < i - d"
      have "p ! x = s ! (m + (d + x))"
        using occ x i m'd by (auto simp: occurs_nth add.assoc)
      also have "\<dots> = p ! (d + x)"
        using match [of "d + x"] x by simp
      also have "d + x = i - (i - d) + x"
        using d by simp
      finally show "p ! x = p ! (i - (i - d) + x)" .
    qed
    then show False
      using long d False by (fastforce simp: longest_bord_def)
  qed
qed

lemma kmp_search_ok:
  assumes k: "pattern k = p" "patternSize k = int (length p)" "table_ok p (prefix k) (length p)"
    and "i < length p" and "m + i \<le> length s" and "\<And>j. j < i \<Longrightarrow> p ! j = s ! (m + j)"
    and "\<And>m'. m' < m \<Longrightarrow> \<not> occurs p s m'"
  shows "kmp_search k s m i = Some (first_occurrence p s)"
  using assms(4-)
proof (induction "2 * length s - (2 * m + i)" arbitrary: m i rule: less_induct)
  case less
  show ?case
  proof (cases "m + i < length s")
    case False
    have "\<not> occurs p s m'" for m'
    proof (cases "m' < m")
      case False
      then show ?thesis
        using less.prems(1,2) \<open>\<not> m + i < length s\<close> by (auto simp: occurs_def)
    qed (rule less.prems(4))
    then show ?thesis
      using False by (subst kmp_search.simps) (simp add: first_occurrence_def)
  next
    case inside: True
    show ?thesis
    proof (cases "p ! i = s ! (m + i)")
      case True
      then have m: "p ! j = s ! (m + j)" if "j < i + 1" for j
        using that less.prems(3) by (cases "j = i") auto
      show ?thesis
      proof (cases "i + 1 = length p")
        case last: True
        then have "occurs p s m"
          using m inside by (auto simp: occurs_nth)
        then have "first_occurrence p s = int m"
          using less.prems(4) by (rule first_occurrenceI)
        then show ?thesis
          using inside True k last by (subst kmp_search.simps) auto
      next
        case False
        then have "kmp_search k s m (i + 1) = Some (first_occurrence p s)"
          using less.prems inside m by (intro less.hyps) auto
        then show ?thesis
          using inside True k False by (subst kmp_search.simps) auto
      qed
    next
      case mismatch: False
      show ?thesis
      proof (cases "i = 0")
        case True
        then have pre: "prefix k ! i = -1"
          using k(3) by (simp add: table_ok_def)
        have "\<not> occurs p s m'" if "m' < m + 1" for m'
        proof (cases "m' = m")
          case False
          then show ?thesis using that less.prems(4) by simp
        qed (use mismatch True less.prems(1) in \<open>auto simp: occurs_nth\<close>)
        then have "kmp_search k s (m + 1) 0 = Some (first_occurrence p s)"
          using less.prems inside True by (intro less.hyps) auto
        then show ?thesis
          using inside mismatch pre True k(1) by (subst kmp_search.simps) (simp add: nat_add_distrib)
      next
        case False
        then obtain b where b: "prefix k ! i = int b" "longest_bord p i b"
          using table_okD [OF k(3)] False less.prems(1) by auto
        then have bi: "b < i" and bord: "\<And>x. x < b \<Longrightarrow> p ! x = p ! (i - b + x)"
          by (auto simp: longest_bord_def bord_def)
        have "\<not> occurs p s m'" if "m' < m + i - b" for m'
        proof (cases "m' < m")
          case False
          then show ?thesis
            using shift_skips_nothing [OF less.prems(3) mismatch less.prems(1) b(2), of m'] that
            by simp
        qed (rule less.prems(4))
        moreover have "p ! x = s ! (m + i - b + x)" if "x < b" for x
        proof -
          have "p ! (i - b + x) = s ! (m + (i - b + x))"
            using that bi by (intro less.prems(3)) simp
          moreover have "m + (i - b + x) = m + i - b + x"
            using bi by simp
          ultimately show ?thesis
            using bord [OF that] by simp
        qed
        ultimately have "kmp_search k s (m + i - b) b = Some (first_occurrence p s)"
          using less.prems inside bi by (intro less.hyps) auto
        moreover have "nat (int (m + i) - int b) = m + i - b"
          using bi by simp
        ultimately show ?thesis
          using inside mismatch k(1) b(1) by (subst kmp_search.simps) simp
      qed
    qed
  qed
qed

lemma kmp_ready:
  assumes "2 \<le> length p" and "length p \<le> 32"
  obtains k where "LinkInitKmp p = Some (0, k)"
    and "\<And>s. LinkFindPatternIndex k s = Some (if length s < length p then -1 else first_occurrence p s)"
proof -
  obtain k where k: "LinkInitKmp p = Some (0, k)" "pattern k = p"
    "patternSize k = int (length p)" "table_ok p (prefix k) (length p)"
    using LinkInitKmp_ok [OF assms] by blast
  have "kmp_search k s 0 0 = Some (first_occurrence p s)" for s
    using kmp_search_ok [OF k(2-4), of 0 0 s] assms(1) by (cases p) auto
  then show ?thesis
    using k by (intro that [of k]) (simp_all add: LinkFindPatternIndex_def)
qed

text \<open>
  C6: For every pattern of 2 to 32 bytes, initialising the search and running it end, and the
  result is -1 when the text is shorter than the pattern, else the position of the pattern's
  first occurrence in the text, or -2 when there is none.
\<close>

theorem kmp_finds_first_occurrence:
  assumes "2 \<le> length p" and "length p \<le> 32"
  shows "\<exists>k. LinkInitKmp p = Some (0, k) \<and>
    LinkFindPatternIndex k s = Some (if length s < length p then -1 else first_occurrence p s)"
  using kmp_ready [OF assms] by metis

theorem kmp_finds_first_occurrence_witness:
  "\<exists>k. LinkInitKmp [0, 0, 1] = Some (0, k) \<and>
    LinkFindPatternIndex k [5, 0, 0, 0, 1, 0x67] = Some 2"
proof -
  have occ: "occurs [0, 0, 1] [5, 0, 0, 0, 1, 0x67 :: u8] 2"
    by (simp add: occurs_def)
  have "\<not> occurs [0, 0, 1] [5, 0, 0, 0, 1, 0x67 :: u8] m'" if "m' < 2" for m'
    using that by (auto simp: occurs_def less_Suc_eq numeral_2_eq_2)
  with occ have "first_occurrence [0, 0, 1] [5, 0, 0, 0, 1, 0x67 :: u8] = int 2"
    by (rule first_occurrenceI)
  then show ?thesis
    using kmp_finds_first_occurrence [of "[0, 0, 1]" "[5, 0, 0, 0, 1, 0x67]"] by simp
qed

end
