(* ===== verification/Adts.thy ===== *)
theory Adts
  imports Prelude
begin

section \<open>ADTS headers (libtsuploader/adts.c)\<close>

text \<open>
  The seven byte header that precedes every AAC frame. The C bit fields are words of their
  width, so an assignment truncates as the C assignment does. \<open>LinkConvertAdtsHeader2Char\<close>
  writes the header, the two parsers read it back.
\<close>

subsection \<open>Model\<close>

record LinkADTSFixheader =
  syncword :: "12 word"
  adts_id :: "1 word"
  layer :: "2 word"
  protection_absent :: "1 word"
  profile :: "2 word"
  sampling_frequency_index :: "4 word"
  private_bit :: "1 word"
  channel_configuration :: "3 word"
  original_copy :: "1 word"
  home :: "1 word"

record LinkADTSVariableHeader =
  copyright_identification_bit :: "1 word"
  copyright_identification_start :: "1 word"
  aac_frame_length :: "13 word"
  adts_buffer_fullness :: "11 word"
  number_of_raw_data_blocks_in_frame :: "2 word"

definition LinkInitAdtsFixedHeader :: LinkADTSFixheader where
  "LinkInitAdtsFixedHeader =
     \<lparr>syncword = 0xFFF, adts_id = 0, layer = 0, protection_absent = 1, profile = 1,
      sampling_frequency_index = 4, private_bit = 0, channel_configuration = 2,
      original_copy = 0, home = 0\<rparr>"

definition LinkInitAdtsVariableHeader :: "int \<Rightarrow> LinkADTSVariableHeader" where
  "LinkInitAdtsVariableHeader nAacLenWithoutHeader =
     \<lparr>copyright_identification_bit = 0, copyright_identification_start = 0,
      aac_frame_length = word_of_int (nAacLenWithoutHeader + 7),
      adts_buffer_fullness = 0x7ff, number_of_raw_data_blocks_in_frame = 0\<rparr>"

text \<open>Seven bytes, most significant first; reading fewer is out of bounds.\<close>

definition adts_value :: "bytes \<Rightarrow> u64 run" where
  "adts_value d =
     (case d of
        b0 # b1 # b2 # b3 # b4 # b5 # b6 # _ \<Rightarrow>
          Inr (foldl (\<lambda>acc b. push_bit 8 acc OR ucast b) (0 :: u64) [b0, b1, b2, b3, b4, b5, b6])
      | _ \<Rightarrow> Inl Out_of_bounds)"

definition LinkParseAdtsfixedHeader :: "bytes \<Rightarrow> LinkADTSFixheader run" where
  "LinkParseAdtsfixedHeader d = and_then (adts_value d) (\<lambda>adts. Inr
     \<lparr>syncword = ucast (drop_bit 44 adts),
      adts_id = ucast (drop_bit 43 adts AND 0x01),
      layer = ucast (drop_bit 41 adts AND 0x03),
      protection_absent = ucast (drop_bit 40 adts AND 0x01),
      profile = ucast (drop_bit 38 adts AND 0x03),
      sampling_frequency_index = ucast (drop_bit 34 adts AND 0x0f),
      private_bit = ucast (drop_bit 33 adts AND 0x01),
      channel_configuration = ucast (drop_bit 30 adts AND 0x07),
      original_copy = ucast (drop_bit 29 adts AND 0x01),
      home = ucast (drop_bit 28 adts AND 0x01)\<rparr>)"

definition LinkParseAdtsVariableHeader :: "bytes \<Rightarrow> LinkADTSVariableHeader run" where
  "LinkParseAdtsVariableHeader d = and_then (adts_value d) (\<lambda>adts. Inr
     \<lparr>copyright_identification_bit = ucast (drop_bit 27 adts AND 0x01),
      copyright_identification_start = ucast (drop_bit 26 adts AND 0x01),
      aac_frame_length = ucast (drop_bit 13 adts AND (2 ^ 14 - 1)),
      adts_buffer_fullness = ucast (drop_bit 2 adts AND (2 ^ 11 - 1)),
      number_of_raw_data_blocks_in_frame = ucast (adts AND 0x03)\<rparr>)"

text \<open>One step of the packing: shift the value and put a field of \<open>n\<close> bits in.\<close>

definition pack :: "nat \<Rightarrow> u64 \<Rightarrow> u64 \<Rightarrow> u64" where
  "pack n field acc = push_bit n acc OR field"

definition LinkConvertAdtsHeader2Int64 ::
    "LinkADTSFixheader \<Rightarrow> LinkADTSVariableHeader \<Rightarrow> u64" where
  "LinkConvertAdtsHeader2Int64 f v =
     pack 2 (ucast (number_of_raw_data_blocks_in_frame v) AND (2 ^ 2 - 1))
     (pack 11 (ucast (adts_buffer_fullness v) AND (2 ^ 11 - 1))
     (pack 13 (ucast (aac_frame_length v) AND (2 ^ 13 - 1))
     (pack 1 (ucast (copyright_identification_start v) AND 0x01)
     (pack 1 (ucast (copyright_identification_bit v) AND 0x01)
     (pack 1 (ucast (home f) AND 0x01)
     (pack 1 (ucast (original_copy f) AND 0x01)
     (pack 3 (ucast (channel_configuration f) AND 0x07)
     (pack 1 (ucast (private_bit f) AND 0x01)
     (pack 4 (ucast (sampling_frequency_index f) AND 0x0f)
     (pack 2 (ucast (profile f))
     (pack 1 (ucast (protection_absent f) AND 0x01)
     (pack 2 (ucast (layer f))
     (pack 1 (ucast (adts_id f))
     (ucast (syncword f)))))))))))))))"

definition LinkConvertAdtsHeader2Char ::
    "LinkADTSFixheader \<Rightarrow> LinkADTSVariableHeader \<Rightarrow> bytes" where
  "LinkConvertAdtsHeader2Char f v =
     (let value = LinkConvertAdtsHeader2Int64 f v in
      [ucast (drop_bit 48 value AND 0xff), ucast (drop_bit 40 value AND 0xff),
       ucast (drop_bit 32 value AND 0xff), ucast (drop_bit 24 value AND 0xff),
       ucast (drop_bit 16 value AND 0xff), ucast (drop_bit 8 value AND 0xff),
       ucast (value AND 0xff)])"

subsection \<open>Round trip\<close>

text \<open>
  \<open>fits k w\<close>: the value has at most \<open>k\<close> bits. Unpacking undoes packing: the low \<open>n\<close> bits are
  the field, the bits above are the rest.
\<close>

definition fits :: "nat \<Rightarrow> u64 \<Rightarrow> bool" where
  "fits k w \<longleftrightarrow> (\<forall>m. bit w m \<longrightarrow> m < k)"

named_theorems adts_simps \<open>packing and unpacking of header fields\<close>

lemma fits_pack [adts_simps]:
  "n \<le> j \<Longrightarrow> fits n field \<Longrightarrow> fits (j - n) acc \<Longrightarrow> fits j (pack n field acc)"
  by (fastforce simp: fits_def pack_def bit_or_iff bit_push_bit_iff)

lemma fits_ucast [adts_simps]: "LENGTH('a) \<le> k \<Longrightarrow> fits k (ucast (x :: 'a :: len word))"
  by (auto simp: fits_def bit_ucast_iff dest: bit_imp_le_length)

lemma drop_bit_pack [adts_simps]:
  assumes "n \<le> m" and "fits n field" and "fits (64 - n) acc"
  shows "drop_bit m (pack n field acc) = drop_bit (m - n) acc"
proof (rule bit_word_eqI)
  fix i assume "i < LENGTH(64)"
  have "\<not> bit field (m + i)" and "bit acc (m - n + i) \<longrightarrow> m - n + i < 64 - n"
    using assms by (auto simp: fits_def)
  then show "bit (drop_bit m (pack n field acc)) i = bit (drop_bit (m - n) acc) i"
    using assms(1) by (auto simp: pack_def bit_drop_bit_eq bit_or_iff bit_push_bit_iff)
qed

definition lowmask :: "nat \<Rightarrow> u64" where
  "lowmask n = mask n"

lemma ucast_pack [adts_simps]:
  assumes "n = LENGTH('a :: len)" and "n \<le> j" and "n \<le> 64"
  shows "(ucast (pack n (ucast (x :: 'a word)) acc AND lowmask j) :: 'a word) = x"
  using assms
  by (intro bit_word_eqI) (auto simp: lowmask_def pack_def bit_ucast_iff bit_or_iff
      bit_push_bit_iff bit_and_iff bit_mask_iff dest: bit_imp_le_length)

lemma ucast_and_mask [adts_simps]:
  "LENGTH('a) \<le> n \<Longrightarrow> (ucast (x :: 'a :: len word) :: u64) AND lowmask n = ucast x"
  by (rule bit_word_eqI)
     (auto simp: lowmask_def bit_ucast_iff bit_and_iff bit_mask_iff dest: bit_imp_le_length)

lemma ucast_ucast_word [adts_simps]:
  "LENGTH('a) \<le> 64 \<Longrightarrow> ucast (ucast (x :: 'a :: len word) :: u64) = x"
  by (rule bit_word_eqI) (auto simp: bit_ucast_iff dest: bit_imp_le_length)

lemma mask_numerals [adts_simps]:
  "(1 :: u64) = lowmask 1" "(3 :: u64) = lowmask 2" "(7 :: u64) = lowmask 3"
  "(15 :: u64) = lowmask 4" "(255 :: u64) = lowmask 8"
  "4 - lowmask (Suc 0) = lowmask 2" "2048 - lowmask (Suc 0) = lowmask 11"
  "8192 - lowmask (Suc 0) = lowmask 13" "16384 - lowmask (Suc 0) = lowmask 14"
  by (simp_all add: lowmask_def mask_eq_exp_minus_1)

text \<open>The seven bytes of a value of 56 bits determine it.\<close>

lemma ucast_byte: "(ucast (w AND 255 :: u64) :: u8) = ucast w"
proof -
  have "(ucast (w AND mask 8) :: u8) = ucast w"
    by (rule bit_word_eqI) (auto simp: bit_ucast_iff bit_and_iff bit_mask_iff)
  then show ?thesis by (simp add: mask_eq_exp_minus_1)
qed

lemma seven_bytes:
  assumes "fits 56 w"
  shows "foldl (\<lambda>acc b. push_bit 8 acc OR ucast b) (0 :: u64)
    [ucast (drop_bit 48 w) :: u8, ucast (drop_bit 40 w), ucast (drop_bit 32 w),
     ucast (drop_bit 24 w), ucast (drop_bit 16 w), ucast (drop_bit 8 w), ucast w] = w"
  (is "?l = w")
proof (rule bit_word_eqI)
  fix n assume n: "n < LENGTH(64)"
  have "n < 8 \<or> (8 \<le> n \<and> n < 16) \<or> (16 \<le> n \<and> n < 24) \<or> (24 \<le> n \<and> n < 32)
     \<or> (32 \<le> n \<and> n < 40) \<or> (40 \<le> n \<and> n < 48) \<or> (48 \<le> n \<and> n < 56) \<or> (56 \<le> n \<and> n < 64)"
    using n by auto
  moreover have "\<not> bit w n" if "56 \<le> n"
    using assms that by (auto simp: fits_def)
  ultimately show "bit ?l n = bit w n"
    by (elim disjE)
       (auto simp: bit_or_iff bit_push_bit_iff bit_ucast_iff bit_drop_bit_eq)
qed

lemma fits_header: "fits 56 (LinkConvertAdtsHeader2Int64 f v)"
  by (simp add: LinkConvertAdtsHeader2Int64_def adts_simps)

lemma adts_value_convert:
  "adts_value (LinkConvertAdtsHeader2Char f v) = Inr (LinkConvertAdtsHeader2Int64 f v)"
  unfolding LinkConvertAdtsHeader2Char_def Let_def adts_value_def ucast_byte
  by (simp only: list.case seven_bytes [OF fits_header])

lemma length_adts_header [simp]: "length (LinkConvertAdtsHeader2Char f v) = 7"
  by (simp add: LinkConvertAdtsHeader2Char_def Let_def)

lemma parse_adts_fixed: "LinkParseAdtsfixedHeader (LinkConvertAdtsHeader2Char f v) = Inr f"
  by (simp add: LinkParseAdtsfixedHeader_def adts_value_convert LinkConvertAdtsHeader2Int64_def adts_simps)

lemma parse_adts_variable: "LinkParseAdtsVariableHeader (LinkConvertAdtsHeader2Char f v) = Inr v"
  by (simp add: LinkParseAdtsVariableHeader_def adts_value_convert LinkConvertAdtsHeader2Int64_def adts_simps)

text \<open>
  C9: Any ADTS header written by \<open>LinkConvertAdtsHeader2Char\<close> takes seven bytes, and the two
  parsers read back exactly its fixed and its variable fields.
\<close>

theorem adts_header_roundtrip:
  "length (LinkConvertAdtsHeader2Char f v) = 7
   \<and> LinkParseAdtsfixedHeader (LinkConvertAdtsHeader2Char f v) = Inr f
   \<and> LinkParseAdtsVariableHeader (LinkConvertAdtsHeader2Char f v) = Inr v"
  by (simp add: parse_adts_fixed parse_adts_variable)

end
