(* ===== verification/Crc.thy ===== *)
theory Crc
  imports Prelude
begin

section \<open>The CRC of the program tables (libtsuploader/mpegts.c)\<close>

text \<open>
  The lookup table and \<open>crc32\<close> as the code has them; the table is then shown to hold the
  remainders of bitwise polynomial division, and \<open>crc32\<close> to be that bitwise CRC.
\<close>

definition crc_table :: "u32 list" where
  "crc_table =
    [0x00000000, 0x04c11db7, 0x09823b6e, 0x0d4326d9, 0x130476dc, 0x17c56b6b,
     0x1a864db2, 0x1e475005, 0x2608edb8, 0x22c9f00f, 0x2f8ad6d6, 0x2b4bcb61,
     0x350c9b64, 0x31cd86d3, 0x3c8ea00a, 0x384fbdbd, 0x4c11db70, 0x48d0c6c7,
     0x4593e01e, 0x4152fda9, 0x5f15adac, 0x5bd4b01b, 0x569796c2, 0x52568b75,
     0x6a1936c8, 0x6ed82b7f, 0x639b0da6, 0x675a1011, 0x791d4014, 0x7ddc5da3,
     0x709f7b7a, 0x745e66cd, 0x9823b6e0, 0x9ce2ab57, 0x91a18d8e, 0x95609039,
     0x8b27c03c, 0x8fe6dd8b, 0x82a5fb52, 0x8664e6e5, 0xbe2b5b58, 0xbaea46ef,
     0xb7a96036, 0xb3687d81, 0xad2f2d84, 0xa9ee3033, 0xa4ad16ea, 0xa06c0b5d,
     0xd4326d90, 0xd0f37027, 0xddb056fe, 0xd9714b49, 0xc7361b4c, 0xc3f706fb,
     0xceb42022, 0xca753d95, 0xf23a8028, 0xf6fb9d9f, 0xfbb8bb46, 0xff79a6f1,
     0xe13ef6f4, 0xe5ffeb43, 0xe8bccd9a, 0xec7dd02d, 0x34867077, 0x30476dc0,
     0x3d044b19, 0x39c556ae, 0x278206ab, 0x23431b1c, 0x2e003dc5, 0x2ac12072,
     0x128e9dcf, 0x164f8078, 0x1b0ca6a1, 0x1fcdbb16, 0x018aeb13, 0x054bf6a4,
     0x0808d07d, 0x0cc9cdca, 0x7897ab07, 0x7c56b6b0, 0x71159069, 0x75d48dde,
     0x6b93dddb, 0x6f52c06c, 0x6211e6b5, 0x66d0fb02, 0x5e9f46bf, 0x5a5e5b08,
     0x571d7dd1, 0x53dc6066, 0x4d9b3063, 0x495a2dd4, 0x44190b0d, 0x40d816ba,
     0xaca5c697, 0xa864db20, 0xa527fdf9, 0xa1e6e04e, 0xbfa1b04b, 0xbb60adfc,
     0xb6238b25, 0xb2e29692, 0x8aad2b2f, 0x8e6c3698, 0x832f1041, 0x87ee0df6,
     0x99a95df3, 0x9d684044, 0x902b669d, 0x94ea7b2a, 0xe0b41de7, 0xe4750050,
     0xe9362689, 0xedf73b3e, 0xf3b06b3b, 0xf771768c, 0xfa325055, 0xfef34de2,
     0xc6bcf05f, 0xc27dede8, 0xcf3ecb31, 0xcbffd686, 0xd5b88683, 0xd1799b34,
     0xdc3abded, 0xd8fba05a, 0x690ce0ee, 0x6dcdfd59, 0x608edb80, 0x644fc637,
     0x7a089632, 0x7ec98b85, 0x738aad5c, 0x774bb0eb, 0x4f040d56, 0x4bc510e1,
     0x46863638, 0x42472b8f, 0x5c007b8a, 0x58c1663d, 0x558240e4, 0x51435d53,
     0x251d3b9e, 0x21dc2629, 0x2c9f00f0, 0x285e1d47, 0x36194d42, 0x32d850f5,
     0x3f9b762c, 0x3b5a6b9b, 0x0315d626, 0x07d4cb91, 0x0a97ed48, 0x0e56f0ff,
     0x1011a0fa, 0x14d0bd4d, 0x19939b94, 0x1d528623, 0xf12f560e, 0xf5ee4bb9,
     0xf8ad6d60, 0xfc6c70d7, 0xe22b20d2, 0xe6ea3d65, 0xeba91bbc, 0xef68060b,
     0xd727bbb6, 0xd3e6a601, 0xdea580d8, 0xda649d6f, 0xc423cd6a, 0xc0e2d0dd,
     0xcda1f604, 0xc960ebb3, 0xbd3e8d7e, 0xb9ff90c9, 0xb4bcb610, 0xb07daba7,
     0xae3afba2, 0xaafbe615, 0xa7b8c0cc, 0xa379dd7b, 0x9b3660c6, 0x9ff77d71,
     0x92b45ba8, 0x9675461f, 0x8832161a, 0x8cf30bad, 0x81b02d74, 0x857130c3,
     0x5d8a9099, 0x594b8d2e, 0x5408abf7, 0x50c9b640, 0x4e8ee645, 0x4a4ffbf2,
     0x470cdd2b, 0x43cdc09c, 0x7b827d21, 0x7f436096, 0x7200464f, 0x76c15bf8,
     0x68860bfd, 0x6c47164a, 0x61043093, 0x65c52d24, 0x119b4be9, 0x155a565e,
     0x18197087, 0x1cd86d30, 0x029f3d35, 0x065e2082, 0x0b1d065b, 0x0fdc1bec,
     0x3793a651, 0x3352bbe6, 0x3e119d3f, 0x3ad08088, 0x2497d08d, 0x2056cd3a,
     0x2d15ebe3, 0x29d4f654, 0xc5a92679, 0xc1683bce, 0xcc2b1d17, 0xc8ea00a0,
     0xd6ad50a5, 0xd26c4d12, 0xdf2f6bcb, 0xdbee767c, 0xe3a1cbc1, 0xe760d676,
     0xea23f0af, 0xeee2ed18, 0xf0a5bd1d, 0xf464a0aa, 0xf9278673, 0xfde69bc4,
     0x89b8fd09, 0x8d79e0be, 0x803ac667, 0x84fbdbd0, 0x9abc8bd5, 0x9e7d9662,
     0x933eb0bb, 0x97ffad0c, 0xafb010b1, 0xab710d06, 0xa6322bdf, 0xa2f33668,
     0xbcb4666d, 0xb8757bda, 0xb5365d03, 0xb1f740b4]"

definition crc_step :: "u32 \<Rightarrow> u8 \<Rightarrow> u32" where
  "crc_step crc d = push_bit 8 crc XOR crc_table ! unat ((drop_bit 24 crc XOR ucast d) AND 0xff)"

definition crc32 :: "bytes \<Rightarrow> u32" where
  "crc32 data = foldl crc_step 0xffffffff data"

text \<open>The four bytes of a CRC as the tables carry it, most significant first.\<close>

definition crc_bytes :: "u32 \<Rightarrow> bytes" where
  "crc_bytes c = [ucast (drop_bit 24 c), ucast (drop_bit 16 c), ucast (drop_bit 8 c), ucast c]"

subsection \<open>The CRC table\<close>

text \<open>
  The reference: polynomial division bit by bit, most significant bit first, by
  \<open>0x04c11db7\<close>. \<open>crc_byte\<close> shifts eight bits out.
\<close>

definition crc_bit :: "u32 \<Rightarrow> u32" where
  "crc_bit c = (if bit c 31 then push_bit 1 c XOR 0x04c11db7 else push_bit 1 c)"

definition crc_byte :: "u32 \<Rightarrow> u32" where
  "crc_byte c = crc_bit (crc_bit (crc_bit (crc_bit (crc_bit (crc_bit (crc_bit (crc_bit c)))))))"

definition crc_ref :: "bytes \<Rightarrow> u32" where
  "crc_ref data = foldl (\<lambda>crc d. crc_byte (crc XOR push_bit 24 (ucast d))) 0xffffffff data"

fun crc_check :: "u32 \<Rightarrow> u32 list \<Rightarrow> bool" where
  "crc_check i [] = True"
| "crc_check i (e # es) = (crc_byte i = e \<and> crc_check (i + 0x1000000) es)"

lemma crc_table_checked: "crc_check 0 crc_table"
  by (simp add: crc_byte_def crc_bit_def crc_table_def)

lemma crc_check_nth:
  "crc_check i es \<Longrightarrow> n < length es \<Longrightarrow> es ! n = crc_byte (i + of_nat n * 0x1000000)"
  by (induction es arbitrary: i n) (auto simp: nth_Cons algebra_simps split: nat.splits)

lemma length_crc_table: "length crc_table = 256"
  by (simp add: crc_table_def)

lemma crc_bit_xor: "crc_bit (a XOR b) = crc_bit a XOR crc_bit b"
  by (auto simp: crc_bit_def bit_xor_iff push_bit_xor ac_simps)

lemma crc_byte_xor: "crc_byte (a XOR b) = crc_byte a XOR crc_byte b"
  by (simp add: crc_byte_def crc_bit_xor)

lemma crc_bit_low: "\<not> bit c 31 \<Longrightarrow> crc_bit c = push_bit 1 c"
  by (simp add: crc_bit_def)

lemma crc_byte_low:
  assumes "\<forall>n \<ge> 24. \<not> bit c n"
  shows "crc_byte c = push_bit 8 c"
proof -
  have "\<not> bit (push_bit k c) 31" if "k \<le> 7" for k
    using assms that by (auto simp: bit_push_bit_iff)
  then have "crc_bit (push_bit k c) = push_bit (Suc k) c" if "k \<le> 7" for k
    using that by (simp add: crc_bit_low)
  from this [of 0] this [of 1] this [of 2] this [of 3] this [of 4] this [of 5] this [of 6] this [of 7]
  show ?thesis
    by (simp add: crc_byte_def push_bit_eq_mult mult.commute)
qed

lemma crc_byte_top: "crc_byte (push_bit 24 (ucast i)) = crc_table ! unat (i :: u8)"
proof -
  have "unat i < 2 ^ LENGTH(8)" by (rule unsigned_less)
  then have "crc_table ! unat i = crc_byte (of_nat (unat i) * 0x1000000)"
    using crc_check_nth [OF crc_table_checked, of "unat i"] by (simp add: length_crc_table)
  moreover have "of_nat (unat i) * 0x1000000 = push_bit 24 (ucast i :: u32)"
    by (simp add: push_bit_eq_mult unsigned_of_nat)
  ultimately show ?thesis by simp
qed

lemma unat_ucast_byte: "unat (ucast (x :: u8) :: u32) = unat x"
proof -
  have "unat x < 2 ^ LENGTH(8)" by (rule unsigned_less)
  then show ?thesis by (simp add: unsigned_ucast_eq take_bit_nat_eq_self)
qed

lemma crc_step_ref: "crc_step crc d = crc_byte (crc XOR push_bit 24 (ucast d))"
proof -
  let ?i = "ucast (drop_bit 24 crc) XOR d :: u8"
  let ?lo = "take_bit 24 crc"
  have split: "crc XOR push_bit 24 (ucast d) = push_bit 24 (ucast ?i) XOR ?lo"
    by (rule bit_word_eqI)
       (auto simp: bit_xor_iff bit_push_bit_iff bit_ucast_iff bit_take_bit_iff bit_drop_bit_eq)
  have idx: "unat ((drop_bit 24 crc XOR ucast d) AND 0xff) = unat ?i"
  proof -
    have "(drop_bit 24 crc XOR ucast d) AND mask 8 = (ucast ?i :: u32)"
      by (rule bit_word_eqI)
         (auto simp: bit_xor_iff bit_and_iff bit_mask_iff bit_ucast_iff bit_drop_bit_eq
           dest: bit_imp_le_length)
    then show ?thesis by (simp add: mask_eq_exp_minus_1 unat_ucast_byte)
  qed
  have "crc_byte ?lo = push_bit 8 ?lo"
    by (rule crc_byte_low) (auto simp: bit_take_bit_iff)
  also have "\<dots> = push_bit 8 crc"
    by (rule bit_word_eqI) (auto simp: bit_push_bit_iff bit_take_bit_iff)
  finally have lo: "crc_byte ?lo = push_bit 8 crc" .
  show ?thesis
    unfolding crc_step_def idx split crc_byte_xor crc_byte_top lo by (rule xor.commute)
qed

text \<open>
  C8: The table-driven \<open>crc32\<close> equals the bitwise CRC with polynomial \<open>0x04c11db7\<close>, initial
  value \<open>0xffffffff\<close> and no final inversion, on every input.
\<close>

theorem crc32_is_bitwise_crc: "crc32 data = crc_ref data"
  by (simp add: crc32_def crc_ref_def crc_step_ref [abs_def])

text \<open>A receiver that runs the CRC over a section and its four CRC bytes gets zero.\<close>

lemma crc_step_own_byte:
  assumes "(ucast (drop_bit 24 crc) :: u8) = d"
  shows "crc_step crc d = push_bit 8 crc"
proof -
  have "(drop_bit 24 crc XOR ucast d) AND mask 8 = (0 :: u32)"
    using assms by (intro bit_word_eqI)
      (auto simp: bit_xor_iff bit_and_iff bit_mask_iff bit_ucast_iff bit_drop_bit_eq)
  then show ?thesis
    by (simp add: crc_step_def mask_eq_exp_minus_1 crc_table_def)
qed

lemma crc32_residue: "crc32 (data @ crc_bytes (crc32 data)) = 0"
proof -
  have "foldl crc_step c (crc_bytes c) = 0" for c
  proof -
    have s: "(ucast (drop_bit 24 (push_bit k c)) :: u8) = ucast (drop_bit (24 - k) c)"
      if "k = 0 \<or> k = 8 \<or> k = 16 \<or> k = 24" for k
      using that by (intro bit_word_eqI)
        (auto simp: bit_ucast_iff bit_drop_bit_eq bit_push_bit_iff)
    have "push_bit 32 c = 0"
      by (rule bit_word_eqI) (simp add: bit_push_bit_iff)
    then show ?thesis
      using s [of 0] s [of 8] s [of 16] s [of 24]
      by (simp add: crc_bytes_def crc_step_own_byte)
  qed
  then show ?thesis by (simp add: crc32_def)
qed

end
