(* ===== verification/MpegTs.thy ===== *)
theory MpegTs
  imports Crc
begin

section \<open>MPEG transport stream packets (libtsuploader/mpegts.c)\<close>

text \<open>
  Cutting a PES packet (header, access unit delimiter, elementary stream data) into transport
  stream packets of 188 bytes, and the program tables PAT, PMT and SDT. A
  routine that fills part of a buffer is modelled by the bytes it writes; \<open>LinkGetPESData\<close>,
  which patches its buffer in several places, keeps the buffer with checked writes. Time
  stamps are unbounded integers: the code's are 64 bit, and it reads their low 33 bits.
\<close>

subsection \<open>PES packets\<close>

datatype LinkVideoFormat = LINK_VIDEO_NONE | LINK_VIDEO_H264 | LINK_VIDEO_H265
datatype LinkAudioFormat = LINK_AUDIO_NONE | LINK_AUDIO_PCMU | LINK_AUDIO_PCMA | LINK_AUDIO_AAC

abbreviation (input) LINK_PAT_PID :: int where "LINK_PAT_PID \<equiv> 0x0000"
abbreviation (input) LINK_SDT_PID :: int where "LINK_SDT_PID \<equiv> 0x0011"
abbreviation (input) LINK_PMT_PID :: int where "LINK_PMT_PID \<equiv> 0x1000"
abbreviation (input) LINK_VIDEO_PID :: int where "LINK_VIDEO_PID \<equiv> 0x100"
abbreviation (input) LINK_AUDIO_PID :: int where "LINK_AUDIO_PID \<equiv> 0x101"
abbreviation (input) LINK_ADAPTATION_JUST_PAYLOAD :: int where "LINK_ADAPTATION_JUST_PAYLOAD \<equiv> 1"
abbreviation (input) LINK_ADAPTATION_BOTH :: int where "LINK_ADAPTATION_BOTH \<equiv> 3"

text \<open>\<open>pESData\<close> is the whole data, so \<open>nESDataLen\<close> is its length.\<close>

record LinkPES =
  pESData :: bytes
  nPos :: nat
  nStreamId :: int
  nPid :: int
  nPts :: int
  nWithPcr :: int
  nPrivate :: int
  videoFormat :: LinkVideoFormat

definition h265Aud :: bytes where "h265Aud = [0x00, 0x00, 0x00, 0x01, 0x46, 0x01, 0x50]"
definition h264Aud :: bytes where "h264Aud = [0x00, 0x00, 0x00, 0x01, 0x09, 0xF0]"

definition initPes :: "bytes \<Rightarrow> int \<Rightarrow> LinkPES" where
  "initPes data pts = \<lparr>pESData = data, nPos = 0, nStreamId = 0, nPid = 0, nPts = pts * 90,
     nWithPcr = 0, nPrivate = 0, videoFormat = LINK_VIDEO_NONE\<rparr>"

definition LinkInitVideoPES :: "LinkVideoFormat \<Rightarrow> bytes \<Rightarrow> int \<Rightarrow> LinkPES" where
  "LinkInitVideoPES fmt data pts =
     (initPes data pts)\<lparr>nStreamId := 0xE0, nWithPcr := 0, videoFormat := fmt\<rparr>"

definition LinkInitVideoPESWithPcr :: "LinkVideoFormat \<Rightarrow> bytes \<Rightarrow> int \<Rightarrow> LinkPES" where
  "LinkInitVideoPESWithPcr fmt data pts = (LinkInitVideoPES fmt data pts)\<lparr>nWithPcr := 1\<rparr>"

definition LinkInitAudioPES :: "bytes \<Rightarrow> int \<Rightarrow> LinkPES" where
  "LinkInitAudioPES data pts = (initPes data pts)\<lparr>nStreamId := 0xC0\<rparr>"

definition LinkInitPrivateTypePES :: "bytes \<Rightarrow> int \<Rightarrow> LinkPES" where
  "LinkInitPrivateTypePES data pts = (initPes data pts)\<lparr>nStreamId := 0xBD, nPrivate := 1\<rparr>"

text \<open>\<open>aud\<close> is the access unit delimiter the code puts between PES header and data.\<close>

definition aud :: "LinkVideoFormat \<Rightarrow> bytes" where
  "aud fmt = (case fmt of LINK_VIDEO_H264 \<Rightarrow> h264Aud | LINK_VIDEO_H265 \<Rightarrow> h265Aud | _ \<Rightarrow> [])"

text \<open>C's remainder has the sign of the dividend.\<close>

definition c_rem :: "int \<Rightarrow> int \<Rightarrow> int" where
  "c_rem a b = sgn a * (\<bar>a\<bar> mod \<bar>b\<bar>)"

definition writePcrBits :: "int \<Rightarrow> bytes" where
  "writePcrBits pcr =
     (let pcr_base = c_rem pcr 8589934592; pcr_ext = c_rem (pcr * 300) 300 in
      [word_of_int (drop_bit 25 pcr_base), word_of_int (drop_bit 17 pcr_base),
       word_of_int (drop_bit 9 pcr_base), word_of_int (drop_bit 1 pcr_base),
       word_of_int (push_bit 7 pcr_base OR drop_bit 8 pcr_ext OR 0x7e),
       word_of_int pcr_ext])"

definition writeAdaptationFieldJustWithPCR :: "int \<Rightarrow> bytes" where
  "writeAdaptationFieldJustWithPCR pcr =
     (let bits = writePcrBits pcr in [of_nat (length bits + 1), 0x50] @ bits)"

definition getPESHeaderJustWithPtsLen :: "LinkPES \<Rightarrow> nat" where
  "getPESHeaderJustWithPtsLen p =
     14 + (case videoFormat p of LINK_VIDEO_H264 \<Rightarrow> length h264Aud
           | LINK_VIDEO_H265 \<Rightarrow> length h265Aud | _ \<Rightarrow> 0)"

definition writePESHeaderJustWithPts :: "LinkPES \<Rightarrow> bytes run" where
  "writePESHeaderJustWithPts p =
     (let nLen = length (pESData p) + 8 + length (aud (videoFormat p));
          pts = nPts p;
          lenBytes = (if 65535 < nLen then [0, 0] else [of_nat (nLen div 256), of_nat (nLen mod 256)])
      in if 65535 < nLen \<and> \<not> (0xE0 \<le> nStreamId p \<and> nStreamId p \<le> 0xEF) then Inl Assertion_failed
         else Inr ([0, 0, 1, word_of_int (nStreamId p)] @ lenBytes @
           [0x80, 0x80, 5,
            word_of_int (0x21 OR (drop_bit 29 pts AND 0x0E)),
            word_of_int (drop_bit 22 pts AND 0xFF),
            word_of_int (0x01 OR (drop_bit 14 pts AND 0xFE)),
            word_of_int (drop_bit 7 pts AND 0xFF),
            word_of_int (0x01 OR (push_bit 1 pts AND 0xFE))] @ aud (videoFormat p)))"

subsection \<open>Transport stream packets\<close>

definition LinkSetAdaptationFieldFlag :: "bytes \<Rightarrow> int \<Rightarrow> bytes" where
  "LinkSetAdaptationFieldFlag buf f = buf[3 := buf ! 3 OR word_of_int (push_bit 4 f)]"

definition LinkWriteContinuityCounter :: "bytes \<Rightarrow> int \<Rightarrow> bytes" where
  "LinkWriteContinuityCounter buf cnt = buf[3 := buf ! 3 OR word_of_int cnt]"

definition LinkWriteTsHeader :: "bool \<Rightarrow> int \<Rightarrow> int \<Rightarrow> int \<Rightarrow> bytes" where
  "LinkWriteTsHeader unitStart cnt pid adaptation =
     (let h = [0x47, (if unitStart then 0x40 else 0) OR word_of_int (pid div 256),
               word_of_int (pid mod 256), 0]
      in LinkWriteContinuityCounter (LinkSetAdaptationFieldFlag h adaptation) cnt)"

text \<open>
  The first part of \<open>LinkGetPESData\<close>: the transport header and, for the first packet of a PES
  packet, what precedes the data. It returns the buffer, \<open>nRetLen\<close>, \<open>isPaddingBeforePesHdr\<close>
  and the outer \<open>nPesHdrLen\<close>. With a PCR the code declares a second, inner \<open>nPesHdrLen\<close>, so
  the outer one stays 0.
\<close>

definition pesPrologue :: "LinkPES \<Rightarrow> int \<Rightarrow> int \<Rightarrow> bytes \<Rightarrow> (bytes \<times> nat \<times> bool \<times> nat) run" where
  "pesPrologue p cnt pid buf =
     (if nPos p = 0 then
        and_then (write_at 0 (LinkWriteTsHeader True cnt pid LINK_ADAPTATION_JUST_PAYLOAD) buf) (\<lambda>b.
        if nWithPcr p = 1 then
          let b = LinkSetAdaptationFieldFlag b LINK_ADAPTATION_BOTH;
              ada = writeAdaptationFieldJustWithPCR (nPts p)
          in and_then (write_at 4 ada b) (\<lambda>b.
             and_then (writePESHeaderJustWithPts p) (\<lambda>hdr.
             and_then (write_at (4 + length ada) hdr b) (\<lambda>b.
               Inr (b, 4 + length ada + length hdr, False, 0))))
        else
          let hdrLen = getPESHeaderJustWithPtsLen p in
          if hdrLen + 4 + length (pESData p) < 188 then Inr (b, 4, True, hdrLen)
          else and_then (writePESHeaderJustWithPts p) (\<lambda>hdr.
               and_then (write_at 4 hdr b) (\<lambda>b. Inr (b, 4 + hdrLen, False, 0))))
      else
        and_then (write_at 0 (LinkWriteTsHeader False cnt pid LINK_ADAPTATION_JUST_PAYLOAD) buf) (\<lambda>b.
          Inr (b, 4, False, 0)))"

text \<open>
  \<open>LinkGetPESData\<close> returns 0 when the data is used up, else 188, with the buffer and the PES
  state. The lengths it subtracts from 188 never exceed it for the headers it writes.
\<close>

definition LinkGetPESData ::
    "LinkPES \<Rightarrow> int \<Rightarrow> int \<Rightarrow> bytes \<Rightarrow> nat \<Rightarrow> (int \<times> bytes \<times> LinkPES) run" where
  "LinkGetPESData p cnt pid buf nLen =
     (if nPos p = length (pESData p) then Inr (0, buf, p)
      else
        let nRemainLen = length (pESData p) - nPos p in
        and_then (pesPrologue p cnt pid buf) (\<lambda>(b, nRetLen, isPadding, nPesHdrLen).
        let nReadLen = (if nLen < nRemainLen then nLen else nRemainLen) in
        if 188 \<le> nReadLen + nRetLen + nPesHdrLen then
          let nReadLen = 188 - nRetLen in
          and_then (read_at (nPos p) nReadLen (pESData p)) (\<lambda>x.
          and_then (write_at nRetLen x b) (\<lambda>b.
          if nRetLen + nReadLen \<noteq> 188 then Inl Assertion_failed
          else Inr (188, b, p\<lparr>nPos := nPos p + nReadLen\<rparr>)))
        else
          let nRetLen = nRetLen + 2;
              nReadLen = (if 188 < nReadLen + nRetLen + nPesHdrLen
                          then 188 - nRetLen - nPesHdrLen else nReadLen);
              nAdapLen = 188 - nRetLen - nPesHdrLen - nReadLen
          in and_then (write_at (nRetLen - 2) [of_nat (nAdapLen + 1), 0x00] b) (\<lambda>b.
             let b = LinkSetAdaptationFieldFlag b LINK_ADAPTATION_BOTH in
             and_then (write_at nRetLen (replicate nAdapLen 0xff) b) (\<lambda>b.
             let nRetLen = nRetLen + nAdapLen in
             and_then (if isPadding
                       then and_then (writePESHeaderJustWithPts p) (\<lambda>hdr.
                            and_then (write_at nRetLen hdr b) (\<lambda>b. Inr (b, nRetLen + length hdr)))
                       else Inr (b, nRetLen)) (\<lambda>(b, nRetLen).
             and_then (read_at (nPos p) nReadLen (pESData p)) (\<lambda>x.
             and_then (write_at (188 - nReadLen) x b) (\<lambda>b.
             if nRetLen + nReadLen \<noteq> 188 then Inl Assertion_failed
             else Inr (188, b, p\<lparr>nPos := nPos p + nReadLen\<rparr>))))))))"

subsection \<open>Program tables\<close>

text \<open>
  Each routine returns its result (the number of bytes it claims) and the bytes it writes.
  \<open>withPointer\<close> is the pointer field a packet with a unit start carries.
\<close>

definition withPointer :: "bool \<Rightarrow> bytes" where
  "withPointer unitStart = (if unitStart then [0] else [])"

definition LinkWriteSDT :: "bool \<Rightarrow> int \<Rightarrow> int \<Rightarrow> int \<times> bytes" where
  "LinkWriteSDT unitStart cnt adaptation =
     (let hdr = LinkWriteTsHeader unitStart cnt LINK_SDT_PID adaptation @ withPointer unitStart;
          body = [0x42, 0xF0, 0x24, 0, 1, 0xC1, 0, 0, 0xff, 0x01, 0xff, 0x0, 0x1, 0xFF, 0x80, 0x13,
                  0x48, 0x11, 0x01, 0x05] @ [0x71, 0x69, 0x6e, 0x69, 0x75] @ [0x09] @
                 [0x73, 0x65, 0x72, 0x76, 0x69, 0x63, 0x65, 0x30, 0x31]
      in (39 + int (length hdr), hdr @ body @ crc_bytes (crc32 body)))"

definition LinkWritePAT :: "bool \<Rightarrow> int \<Rightarrow> int \<Rightarrow> int \<times> bytes" where
  "LinkWritePAT unitStart cnt adaptation =
     (let hdr = LinkWriteTsHeader unitStart cnt LINK_PAT_PID adaptation @ withPointer unitStart;
          body = [0, 0x80, 0x0d, 0x00, 0x01, 0xC1, 0, 0, 0, 0x01, 0xF0, 0x00]
      in (16 + int (length hdr), hdr @ body @ crc_bytes (crc32 body)))"

definition pmtVideo :: "int \<Rightarrow> bytes" where
  "pmtVideo vtype = (if vtype \<noteq> 0 then [word_of_int vtype, 0xE1, 0x00, 0xF0, 0x00] else [])"

definition pmtAudio :: "int \<Rightarrow> u8 \<Rightarrow> int \<Rightarrow> bytes" where
  "pmtAudio atype g711Type nSampleRate =
     (if atype = 0x06 then
        [word_of_int atype, 0xE1, 0x01, 0xF0, 6, 15, 4, g711Type,
         word_of_int (nSampleRate div 256), word_of_int (nSampleRate mod 256), 0]
      else if atype \<noteq> 0 then [word_of_int atype, 0xE1, 0x01, 0xF0, 0x00]
      else [])"

definition pmtBody :: "int \<Rightarrow> int \<Rightarrow> u8 \<Rightarrow> int \<Rightarrow> bytes" where
  "pmtBody vtype atype g711Type nSampleRate =
     (let es = pmtVideo vtype @ pmtAudio atype g711Type nSampleRate;
          i = 12 + length es
      in [0x02, 0x80, of_nat (i - 3 + 4), 0x00, 0x01, 0xC1, 0, 0, 0xE1, 0x00, 0xF0, 0x00] @ es)"

definition LinkWritePMT ::
    "bool \<Rightarrow> int \<Rightarrow> int \<Rightarrow> int \<Rightarrow> int \<Rightarrow> u8 \<Rightarrow> int \<Rightarrow> (int \<times> bytes) run" where
  "LinkWritePMT unitStart cnt adaptation vtype atype g711Type nSampleRate =
     (if vtype = 0 \<and> atype = 0 then Inl Assertion_failed
      else
        let hdr = LinkWriteTsHeader unitStart cnt LINK_PMT_PID adaptation @ withPointer unitStart;
            body = pmtBody vtype atype g711Type nSampleRate;
            noAOrV = (if vtype = 0 \<or> atype = 0 then -5 else 0);
            i = length body + 4
        in Inr (int i + int (length hdr) + noAOrV, hdr @ body @ crc_bytes (crc32 body)))"


subsection \<open>What a receiver reads\<close>

text \<open>
  The fields of a transport packet as ISO 13818-1 defines them. \<open>ts_payload\<close> skips the
  adaptation field when there is one; \<open>pes_pts\<close> reads the time stamp of a PES header.
\<close>

definition ts_pid :: "bytes \<Rightarrow> int" where
  "ts_pid b = uint (b ! 1 AND 0x1F) * 256 + uint (b ! 2)"

definition ts_unit_start :: "bytes \<Rightarrow> bool" where
  "ts_unit_start b = bit (b ! 1) 6"

definition ts_counter :: "bytes \<Rightarrow> int" where
  "ts_counter b = uint (b ! 3 AND 0x0F)"

definition ts_payload :: "bytes \<Rightarrow> bytes option" where
  "ts_payload b =
     (if length b \<noteq> 188 \<or> b ! 0 \<noteq> 0x47 then None
      else let ctl = drop_bit 4 (b ! 3) AND 3 in
        if ctl = 1 then Some (drop 4 b)
        else if ctl = 3 \<and> unat (b ! 4) \<le> 183 then Some (drop (5 + unat (b ! 4)) b)
        else None)"

definition pes_pts :: "bytes \<Rightarrow> int" where
  "pes_pts h =
     uint (drop_bit 1 (h ! 9) AND 7) * 2 ^ 30 + uint (h ! 10) * 2 ^ 22 +
     uint (drop_bit 1 (h ! 11)) * 2 ^ 15 + uint (h ! 12) * 2 ^ 7 + uint (drop_bit 1 (h ! 13))"

subsection \<open>Writing behind a prefix\<close>

lemma write_at_prefix:
  "length xs \<le> length B \<Longrightarrow> write_at (length A) xs (A @ B) = Inr (A @ xs @ drop (length xs) B)"
  by (simp add: write_at_def overwrite_def)

lemma write_behind:
  "k = length A \<Longrightarrow> length xs \<le> length B \<Longrightarrow>
   write_at k xs (A @ B) = Inr (A @ xs @ drop (length xs) B)"
  by (simp add: write_at_prefix)

definition ts_header :: "bool \<Rightarrow> int \<Rightarrow> int \<Rightarrow> int \<Rightarrow> bytes" where
  "ts_header unitStart cnt pid ctl =
     [0x47, (if unitStart then 0x40 else 0) OR word_of_int (pid div 256), word_of_int (pid mod 256),
      word_of_int (push_bit 4 ctl) OR word_of_int cnt]"

lemma length_ts_header [simp]: "length (ts_header u c p a) = 4"
  by (simp add: ts_header_def)

lemma LinkWriteTsHeader_eq: "LinkWriteTsHeader u cnt pid a = ts_header u cnt pid a"
  by (simp add: LinkWriteTsHeader_def LinkWriteContinuityCounter_def ts_header_def
        LinkSetAdaptationFieldFlag_def Let_def)

lemma set_flag_ts_header:
  "LinkSetAdaptationFieldFlag (ts_header u 0 p a @ r) f = ts_header u 0 p (a OR f) @ r"
  by (simp add: LinkSetAdaptationFieldFlag_def ts_header_def push_bit_or flip: of_int_or_eq)

lemma write_counter_ts_header:
  "LinkWriteContinuityCounter (ts_header u 0 p a @ r) c = ts_header u c p a @ r"
  by (simp add: LinkWriteContinuityCounter_def ts_header_def)

lemma mask_5: "(mask 5 :: u8) = 0x1F"
  by (simp add: mask_eq_exp_minus_1)

lemma high_pid_bits:
  assumes "0 \<le> pid" and "pid < 8192" and w: "w = 0x40 \<or> w = 0"
  shows "uint ((w OR word_of_int (pid div 256) :: u8) AND 0x1F) = pid div 256"
proof -
  let ?h = "pid div 256"
  have h: "0 \<le> ?h" "?h < 32" using assms by auto
  have "(w OR word_of_int ?h) AND 0x1F = (word_of_int ?h :: u8)"
  proof (rule bit_word_eqI)
    fix n assume n: "n < LENGTH(8)"
    have top: "\<not> bit ?h n" if "5 \<le> n"
    proof -
      have "?h < 2 ^ n" using h that power_increasing [of 5 n "2::int"] by simp
      then show ?thesis using h by (simp add: bit_iff_odd)
    qed
    have m: "bit (0x1F :: u8) n = (n < 5)"
      using n by (simp add: bit_mask_iff flip: mask_5)
    moreover have "\<not> bit w n" if "n < 5"
      using w that by (auto simp: less_Suc_eq numeral_eq_Suc)
    ultimately show "bit ((w OR word_of_int ?h) AND 0x1F) n = bit (word_of_int ?h :: u8) n"
      using n top by (auto simp: bit_and_iff bit_or_iff bit_word_of_int_iff not_le)
  qed
  then show ?thesis using h by (simp add: take_bit_int_eq_self unsigned_of_int)
qed

lemma ts_pid_header:
  assumes "0 \<le> pid" and "pid < 8192"
  shows "ts_pid (ts_header u c pid a @ r) = pid"
proof -
  have "uint (((if u then 0x40 else 0) OR word_of_int (pid div 256) :: u8) AND 0x1F) = pid div 256"
    by (rule high_pid_bits) (use assms in auto)
  moreover have "uint (word_of_int (pid mod 256) :: u8) = pid mod 256"
    by (simp add: unsigned_of_int take_bit_eq_mod)
  ultimately show ?thesis by (simp add: ts_pid_def ts_header_def)
qed

lemma ts_unit_start_header:
  assumes "0 \<le> pid" and "pid < 8192"
  shows "ts_unit_start (ts_header u c pid a @ r) = u"
proof -
  have "pid div 256 < 2 ^ 6" "0 \<le> pid div 256" using assms by auto
  then have "\<not> bit (pid div 256) 6" by (simp add: bit_iff_odd)
  then show ?thesis
    by (simp add: ts_unit_start_def ts_header_def bit_or_iff bit_word_of_int_iff)
qed

lemma counter_nibble:
  assumes "0 \<le> c" and "c < 16"
  shows "uint ((word_of_int (push_bit 4 a) OR word_of_int c :: u8) AND 0x0F) = c"
    and "drop_bit 4 (word_of_int (push_bit 4 a) OR word_of_int c :: u8) AND 3 = word_of_int (take_bit 2 a)"
proof -
  have top: "\<not> bit c n" if "4 \<le> n" for n
  proof -
    have "c < 2 ^ n" using assms that power_increasing [of 4 n "2::int"] by simp
    then show ?thesis using assms by (simp add: bit_iff_odd)
  qed
  have low: "bit c n \<Longrightarrow> n < 4" for n
    using top [of n] by (cases "4 \<le> n") auto
  have "(word_of_int (push_bit 4 a) OR word_of_int c) AND mask 4 = (word_of_int c :: u8)"
    by (rule bit_word_eqI)
       (auto simp: bit_and_iff bit_or_iff bit_mask_iff bit_push_bit_iff
         bit_word_of_int_iff linorder_not_le dest: low)
  then show "uint ((word_of_int (push_bit 4 a) OR word_of_int c :: u8) AND 0x0F) = c"
    using assms by (simp add: mask_eq_exp_minus_1 unsigned_of_int take_bit_int_eq_self)
  have "drop_bit 4 (word_of_int (push_bit 4 a) OR word_of_int c :: u8) AND mask 2
      = word_of_int (take_bit 2 a)"
    by (rule bit_word_eqI)
       (auto simp: bit_and_iff bit_or_iff bit_mask_iff bit_push_bit_iff bit_take_bit_iff
         bit_drop_bit_eq bit_word_of_int_iff top)
  then show "drop_bit 4 (word_of_int (push_bit 4 a) OR word_of_int c :: u8) AND 3
      = word_of_int (take_bit 2 a)"
    by (simp add: mask_eq_exp_minus_1)
qed

lemma ts_counter_header:
  "0 \<le> c \<Longrightarrow> c < 16 \<Longrightarrow> ts_counter (ts_header u c pid a @ r) = c"
  by (simp add: ts_counter_def ts_header_def counter_nibble)

lemma ts_header_nth:
  "(ts_header u c pid a @ r) ! 0 = 0x47"
  "(ts_header u c pid a @ r) ! 3 = word_of_int (push_bit 4 a) OR word_of_int c"
  "(ts_header u c pid a @ r) ! 4 = r ! 0"
  by (simp_all add: ts_header_def)

lemma drop_ts_header: "drop (4 + n) (ts_header u c pid a @ r) = drop n r"
  by simp

lemma ts_ctl:
  "0 \<le> c \<Longrightarrow> c < 16 \<Longrightarrow>
   drop_bit 4 ((ts_header u c pid a @ r) ! 3) AND 3 = word_of_int (take_bit 2 a)"
  by (simp only: ts_header_nth counter_nibble)

lemma ts_payload_plain:
  assumes "0 \<le> c" and "c < 16" and "length r = 184"
  shows "ts_payload (ts_header u c pid 1 @ r) = Some r"
  using assms drop_ts_header [of 0]
  by (simp only: ts_payload_def ts_header_nth(1) ts_ctl [OF assms(1,2)]) simp

lemma ts_payload_adapted:
  assumes "0 \<le> c" and "c < 16" and "length r = 183" and "unat n \<le> 183"
  shows "ts_payload (ts_header u c pid 3 @ n # r) = Some (drop (unat n) r)"
  using assms drop_ts_header [of "1 + unat n" _ _ _ _ "n # r"]
  by (simp only: ts_payload_def ts_header_nth(1,3) ts_ctl [OF assms(1,2)]) simp


subsection \<open>The PES header\<close>

definition pes_ok :: "LinkPES \<Rightarrow> bool" where
  "pes_ok p = (length (pESData p) + 8 + length (aud (videoFormat p)) \<le> 65535 \<or>
               0xE0 \<le> nStreamId p \<and> nStreamId p \<le> 0xEF)"

definition pes_header :: "LinkPES \<Rightarrow> bytes" where
  "pes_header p = (case writePESHeaderJustWithPts p of Inr h \<Rightarrow> h | Inl _ \<Rightarrow> [])"

lemma pes_header_written: "pes_ok p \<Longrightarrow> writePESHeaderJustWithPts p = Inr (pes_header p)"
  by (auto simp: pes_header_def writePESHeaderJustWithPts_def pes_ok_def Let_def)

lemma length_pes_header:
  "pes_ok p \<Longrightarrow> length (pes_header p) = getPESHeaderJustWithPtsLen p"
  by (auto simp: pes_header_def writePESHeaderJustWithPts_def pes_ok_def Let_def aud_def
        getPESHeaderJustWithPtsLen_def split: LinkVideoFormat.splits)

lemma pes_header_len_bounds: "14 \<le> getPESHeaderJustWithPtsLen p" "getPESHeaderJustWithPtsLen p \<le> 21"
  by (auto simp: getPESHeaderJustWithPtsLen_def h264Aud_def h265Aud_def split: LinkVideoFormat.splits)

lemma pes_header_nPos [simp]: "pes_header (p\<lparr>nPos := k\<rparr>) = pes_header p"
  by (simp add: pes_header_def writePESHeaderJustWithPts_def Let_def)

lemma pes_ok_nPos [simp]: "pes_ok (p\<lparr>nPos := k\<rparr>) = pes_ok p"
  by (simp add: pes_ok_def)

text \<open>The time stamp is cut into 3, 8, 7, 8 and 7 bits; a receiver gets its low 33 bits.\<close>

lemma pts_pieces:
  fixes pts :: int
  shows "uint (drop_bit 1 (word_of_int (0x21 OR (drop_bit 29 pts AND 0x0E)) :: u8) AND 7)
           = take_bit 3 (drop_bit 30 pts)"
    and "uint (word_of_int (drop_bit 22 pts AND 0xFF) :: u8) = take_bit 8 (drop_bit 22 pts)"
    and "uint (drop_bit 1 (word_of_int (0x01 OR (drop_bit 14 pts AND 0xFE)) :: u8))
           = take_bit 7 (drop_bit 15 pts)"
    and "uint (word_of_int (drop_bit 7 pts AND 0xFF) :: u8) = take_bit 8 (drop_bit 7 pts)"
    and "uint (drop_bit 1 (word_of_int (0x01 OR (push_bit 1 pts AND 0xFE)) :: u8))
           = take_bit 7 pts"
proof -
  have dbl: "bit (x * 2) (Suc n) = bit x n" for x :: int and n
    by (simp add: bit_Suc)
  have m7: "(7 :: u8) = mask 3" by (simp add: mask_eq_exp_minus_1)
  have m8: "(0xFF :: int) = mask 8" by (simp add: mask_eq_exp_minus_1)
  have b127: "bit (127 :: int) n = (n < 7)" for n
    using bit_mask_iff [where 'a = int, of 7 n] by (simp add: mask_eq_exp_minus_1)
  show "uint (drop_bit 1 (word_of_int (0x21 OR (drop_bit 29 pts AND 0x0E)) :: u8) AND 7)
      = take_bit 3 (drop_bit 30 pts)"
  proof (rule bit_eqI)
    fix n :: nat
    have "n = 0 \<or> n = 1 \<or> n = 2 \<or> 3 \<le> n" by auto
    then show "bit (uint (drop_bit 1 (word_of_int (0x21 OR (drop_bit 29 pts AND 0x0E)) :: u8) AND 7)) n
        = bit (take_bit 3 (drop_bit 30 pts)) n"
      unfolding m7 by (elim disjE) (simp_all add: bit_simps)
  qed
  show "uint (word_of_int (drop_bit 22 pts AND 0xFF) :: u8) = take_bit 8 (drop_bit 22 pts)"
    unfolding m8 by (rule bit_eqI) (auto simp: bit_simps)
  show "uint (drop_bit 1 (word_of_int (0x01 OR (drop_bit 14 pts AND 0xFE)) :: u8))
      = take_bit 7 (drop_bit 15 pts)"
    by (rule bit_eqI) (auto simp: bit_simps bit_1_iff b127 dbl)
  show "uint (word_of_int (drop_bit 7 pts AND 0xFF) :: u8) = take_bit 8 (drop_bit 7 pts)"
    unfolding m8 by (rule bit_eqI) (auto simp: bit_simps)
  show "uint (drop_bit 1 (word_of_int (0x01 OR (push_bit 1 pts AND 0xFE)) :: u8)) = take_bit 7 pts"
    by (rule bit_eqI) (auto simp: bit_simps bit_1_iff b127 dbl)
qed

lemma take_bit_split: "take_bit (m + n) x = take_bit m (drop_bit n x) * 2 ^ n + take_bit n (x :: int)"
proof -
  have "x mod (2 ^ n * 2 ^ m) = 2 ^ n * (x div 2 ^ n mod 2 ^ m) + x mod 2 ^ n"
    by (rule zmod_zmult2_eq) simp
  then show ?thesis
    by (simp only: take_bit_eq_mod drop_bit_eq_div power_add mult.commute)
qed

lemma pes_header_parts:
  "pes_ok p \<Longrightarrow> pes_header p =
     [0, 0, 1, word_of_int (nStreamId p)] @
     (let n = length (pESData p) + 8 + length (aud (videoFormat p)) in
      if 65535 < n then [0, 0] else [of_nat (n div 256), of_nat (n mod 256)]) @
     [0x80, 0x80, 5,
      word_of_int (0x21 OR (drop_bit 29 (nPts p) AND 0x0E)),
      word_of_int (drop_bit 22 (nPts p) AND 0xFF),
      word_of_int (0x01 OR (drop_bit 14 (nPts p) AND 0xFE)),
      word_of_int (drop_bit 7 (nPts p) AND 0xFF),
      word_of_int (0x01 OR (push_bit 1 (nPts p) AND 0xFE))] @ aud (videoFormat p)"
  by (auto simp: pes_header_def writePESHeaderJustWithPts_def pes_ok_def Let_def)

lemma pes_header_nth:
  assumes "pes_ok p"
  shows "pes_header p ! 9 = word_of_int (0x21 OR (drop_bit 29 (nPts p) AND 0x0E))"
    and "pes_header p ! 10 = word_of_int (drop_bit 22 (nPts p) AND 0xFF)"
    and "pes_header p ! 11 = word_of_int (0x01 OR (drop_bit 14 (nPts p) AND 0xFE))"
    and "pes_header p ! 12 = word_of_int (drop_bit 7 (nPts p) AND 0xFF)"
    and "pes_header p ! 13 = word_of_int (0x01 OR (push_bit 1 (nPts p) AND 0xFE))"
  using assms by (simp_all add: pes_header_parts nth_append Let_def)

text \<open>
  A receiver reads from the PES header exactly the low 33 bits of the time stamp the
  packet was made with, whatever its sign and size.
\<close>

theorem pes_pts_roundtrip:
  assumes "writePESHeaderJustWithPts p = Inr h"
  shows "pes_pts h = nPts p mod 2 ^ 33"
proof -
  have "pes_ok p" and h: "h = pes_header p"
    using assms by (auto simp: pes_ok_def writePESHeaderJustWithPts_def pes_header_def Let_def
        split: if_splits)
  then have "pes_pts h = take_bit 3 (drop_bit 30 (nPts p)) * 2 ^ 30 +
      take_bit 8 (drop_bit 22 (nPts p)) * 2 ^ 22 + take_bit 7 (drop_bit 15 (nPts p)) * 2 ^ 15 +
      take_bit 8 (drop_bit 7 (nPts p)) * 2 ^ 7 + take_bit 7 (nPts p)"
    by (simp only: pes_pts_def pes_header_nth pts_pieces)
  also have "\<dots> = take_bit 33 (nPts p)"
    using take_bit_split [of 3 30 "nPts p"] take_bit_split [of 8 22 "nPts p"]
      take_bit_split [of 7 15 "nPts p"] take_bit_split [of 8 7 "nPts p"] by simp
  finally show ?thesis by (simp add: take_bit_eq_mod)
qed

theorem pes_pts_roundtrip_witness:
  "(case writePESHeaderJustWithPts (LinkInitAudioPES [1, 2, 3] 5) of
      Inr h \<Rightarrow> pes_pts h = 450 | Inl _ \<Rightarrow> False)"
  using pes_pts_roundtrip [of "LinkInitAudioPES [1, 2, 3] 5"]
  by (simp add: LinkInitAudioPES_def initPes_def writePESHeaderJustWithPts_def aud_def)


subsection \<open>One packet\<close>

text \<open>
  \<open>pes_front p\<close> is what must still be sent before the data. \<open>pcr_fits\<close> is what the code's
  remark that a key frame is never shorter than 188 bytes is about: behind a PCR the first packet is filled
  completely.
\<close>

definition pes_front :: "LinkPES \<Rightarrow> bytes" where
  "pes_front p = (if nPos p = 0 then pes_header p else [])"

definition pcr_fits :: "LinkPES \<Rightarrow> bool" where
  "pcr_fits p = (nWithPcr p = 1 \<longrightarrow>
     176 \<le> getPESHeaderJustWithPtsLen p + length (pESData p))"

lemma length_writeAdaptationField: "length (writeAdaptationFieldJustWithPCR pcr) = 8"
  by (simp add: writeAdaptationFieldJustWithPCR_def writePcrBits_def Let_def)

lemma writeAdaptationField_Cons:
  "\<exists>r. writeAdaptationFieldJustWithPCR pcr = 7 # r \<and> length r = 7"
  by (simp add: writeAdaptationFieldJustWithPCR_def writePcrBits_def Let_def)

lemma pesPrologue_later:
  assumes "nPos p \<noteq> 0" and "length buf = 188"
  shows "pesPrologue p 0 pid buf = Inr (ts_header False 0 pid 1 @ drop 4 buf, 4, False, 0)"
  using assms by (simp add: pesPrologue_def LinkWriteTsHeader_eq write_at_def overwrite_def)

lemma pesPrologue_padding:
  assumes "nPos p = 0" and "nWithPcr p \<noteq> 1" and "length buf = 188"
    and "getPESHeaderJustWithPtsLen p + 4 + length (pESData p) < 188"
  shows "pesPrologue p 0 pid buf =
    Inr (ts_header True 0 pid 1 @ drop 4 buf, 4, True, getPESHeaderJustWithPtsLen p)"
  using assms by (simp add: pesPrologue_def LinkWriteTsHeader_eq write_at_def overwrite_def Let_def)

lemma pesPrologue_full:
  assumes "nPos p = 0" and "nWithPcr p \<noteq> 1" and "length buf = 188" and "pes_ok p"
    and "\<not> getPESHeaderJustWithPtsLen p + 4 + length (pESData p) < 188"
  shows "pesPrologue p 0 pid buf =
    Inr (ts_header True 0 pid 1 @ pes_header p @ drop (4 + getPESHeaderJustWithPtsLen p) buf,
         4 + getPESHeaderJustWithPtsLen p, False, 0)"
proof -
  have "write_at 4 (pes_header p) (ts_header True 0 pid 1 @ drop 4 buf) =
      Inr (ts_header True 0 pid 1 @ pes_header p @ drop (4 + getPESHeaderJustWithPtsLen p) buf)"
    using assms pes_header_len_bounds [of p]
    by (subst write_behind) (simp_all add: length_pes_header add.commute)
  then show ?thesis
    using assms
    by (simp add: pesPrologue_def LinkWriteTsHeader_eq pes_header_written Let_def
        write_at_def [of 0] overwrite_def)
qed

lemma pesPrologue_pcr:
  assumes "nPos p = 0" and "nWithPcr p = 1" and "length buf = 188" and "pes_ok p"
  shows "pesPrologue p 0 pid buf =
    Inr (ts_header True 0 pid 3 @ writeAdaptationFieldJustWithPCR (nPts p) @ pes_header p @
           drop (12 + getPESHeaderJustWithPtsLen p) buf,
         12 + getPESHeaderJustWithPtsLen p, False, 0)"
proof -
  let ?ada = "writeAdaptationFieldJustWithPCR (nPts p)"
  have "write_at 4 ?ada (ts_header True 0 pid 3 @ drop 4 buf) =
      Inr (ts_header True 0 pid 3 @ ?ada @ drop 12 buf)"
    using assms by (subst write_behind) (simp_all add: length_writeAdaptationField)
  moreover have "write_at 12 (pes_header p) ((ts_header True 0 pid 3 @ ?ada) @ drop 12 buf) =
      Inr ((ts_header True 0 pid 3 @ ?ada) @ pes_header p @ drop (12 + getPESHeaderJustWithPtsLen p) buf)"
    using assms pes_header_len_bounds [of p]
    by (subst write_behind) (simp_all add: length_pes_header length_writeAdaptationField add.commute)
  ultimately show ?thesis
    using assms
    by (simp add: pesPrologue_def LinkWriteTsHeader_eq pes_header_written Let_def
        write_at_def [of 0] overwrite_def set_flag_ts_header length_writeAdaptationField
        length_pes_header)
qed

text \<open>The two ways of filling the packet behind the prologue.\<close>

lemma fill_whole:
  assumes pos: "nPos p < length (pESData p)" and buf: "length A = n" "length B = 188 - n" "n \<le> 188"
    and prol: "pesPrologue p 0 pid buf = Inr (A @ B, n, pad, h)"
    and enough: "188 \<le> min 188 (length (pESData p) - nPos p) + n + h"
    and h: "h = 0"
  shows "LinkGetPESData p 0 pid buf 188 =
    Inr (188, A @ take (188 - n) (drop (nPos p) (pESData p)), p\<lparr>nPos := nPos p + (188 - n)\<rparr>)"
proof -
  have le: "nPos p + (188 - n) \<le> length (pESData p)"
    using enough h pos by auto
  let ?x = "take (188 - n) (drop (nPos p) (pESData p))"
  have "length ?x = 188 - n" using le by simp
  then have "write_at n ?x (A @ B) = Inr (A @ ?x)"
    using buf by (subst write_behind) simp_all
  moreover have "188 \<le> (if 188 < length (pESData p) - nPos p then 188 else length (pESData p) - nPos p) + n"
    using enough h by auto
  ultimately show ?thesis
    using pos le prol h buf(3)
    by (simp add: LinkGetPESData_def Let_def read_at_def)
qed

definition padded_take :: "LinkPES \<Rightarrow> nat \<Rightarrow> nat" where
  "padded_take p h = (let r = length (pESData p) - nPos p in
     if 188 < r + 6 + h then 182 - h else r)"

lemma fill_padded:
  assumes pos: "nPos p < length (pESData p)" and buf: "length B = 184"
    and prol: "pesPrologue p 0 pid buf = Inr (ts_header u 0 pid 1 @ B, 4, pad, length H)"
    and room: "length (pESData p) - nPos p + 4 + length H < 188"
    and H: "if pad then pes_ok p \<and> H = pes_header p else H = []"
    and n: "n = padded_take p (length H)" and m: "m = 182 - length H - n"
  shows "LinkGetPESData p 0 pid buf 188 =
    Inr (188, ts_header u 0 pid 3 @ [of_nat (m + 1), 0] @ replicate m 0xff @ H @
           take n (drop (nPos p) (pESData p)), p\<lparr>nPos := nPos p + n\<rparr>)"
proof -
  let ?x = "take n (drop (nPos p) (pESData p))"
  let ?r = "length (pESData p) - nPos p"
  have n_le: "n \<le> ?r" "nPos p + n \<le> length (pESData p)" and sum: "6 + m + length H + n = 188"
    using room pos by (auto simp: n m padded_take_def Let_def)
  have lx: "length ?x = n" using n_le by simp
  have w1: "write_at 4 [of_nat (m + 1), 0] (ts_header u 0 pid 1 @ B) =
      Inr (ts_header u 0 pid 1 @ [of_nat (m + 1), 0] @ drop 2 B)"
    using buf by (subst write_behind) (simp_all add: numeral_2_eq_2)
  have w2: "write_at 6 (replicate m 0xff) (ts_header u 0 pid 3 @ [of_nat (m + 1), 0] @ drop 2 B) =
      Inr (ts_header u 0 pid 3 @ [of_nat (m + 1), 0] @ replicate m 0xff @ drop (2 + m) B)"
    using buf sum write_behind [of 6 "ts_header u 0 pid 3 @ [of_nat (m + 1), 0]"
        "replicate m 0xff" "drop 2 B"] by (simp add: add.commute)
  have w3: "write_at (6 + m) H
        (ts_header u 0 pid 3 @ [of_nat (m + 1), 0] @ replicate m 0xff @ drop (2 + m) B) =
      Inr (ts_header u 0 pid 3 @ [of_nat (m + 1), 0] @ replicate m 0xff @ H @
           drop (2 + m + length H) B)"
    using buf sum write_behind [of "6 + m" "ts_header u 0 pid 3 @ [of_nat (m + 1), 0] @ replicate m 0xff"
        H "drop (2 + m) B"] by (simp add: add_ac)
  have w4: "write_at (188 - n) ?x
        (ts_header u 0 pid 3 @ [of_nat (m + 1), 0] @ replicate m 0xff @ H @ drop (2 + m + length H) B) =
      Inr (ts_header u 0 pid 3 @ [of_nat (m + 1), 0] @ replicate m 0xff @ H @ ?x)"
  proof -
    have e: "188 - n = 6 + m + length H" using sum by simp
    show ?thesis
      using buf sum lx n_le write_behind [of "6 + m + length H"
          "ts_header u 0 pid 3 @ [of_nat (m + 1), 0] @ replicate m 0xff @ H" ?x "drop (2 + m + length H) B"]
      unfolding e by (simp add: add_ac)
  qed
  have len1: "(if (188 :: nat) < ?r then 188 else ?r) = ?r"
    using room by simp
  have len2: "(if 188 < ?r + (4 + 2) + length H then 188 - (4 + 2) - length H else ?r) = n"
    by (simp add: n padded_take_def)
  have len3: "188 - (4 + 2) - length H - n = m" and len4: "4 + 2 - 2 = (4 :: nat)"
    by (simp_all add: m)
  have rd: "read_at (nPos p) n (pESData p) = Inr ?x"
    using n_le by (simp add: read_at_def)
  have fit: "6 + m + length H + n = 188" and no: "\<not> 188 \<le> ?r + 4 + length H"
    using sum room by simp_all
  show ?thesis
    unfolding LinkGetPESData_def Let_def prol len1 and_then_Inr prod.case
    unfolding len2 len3 len4 if_not_P [OF no]
    using pos w1 w2 w3 w4 rd fit H
    by (cases pad) (simp_all add: set_flag_ts_header pes_header_written)
qed

text \<open>
  \<open>packet_of\<close> says what one packet of the stream is: a transport packet of 188 bytes whose
  payload is the next part of header and data.
\<close>

definition packet_of :: "LinkPES \<Rightarrow> int \<Rightarrow> nat \<Rightarrow> bytes \<Rightarrow> bool" where
  "packet_of p pid n b =
     (\<exists>u a r. b = ts_header u 0 pid a @ r \<and> length r = 184 \<and> u = (nPos p = 0) \<and>
        (\<forall>c. 0 \<le> c \<and> c < 16 \<longrightarrow>
           ts_payload (ts_header u c pid a @ r) =
             Some (pes_front p @ take n (drop (nPos p) (pESData p)))))"

lemma packet_of_full:
  assumes "length r = 184" and "r = x" and "x = pes_front p @ take n (drop (nPos p) (pESData p))"
    and "u = (nPos p = 0)"
  shows "packet_of p pid n (ts_header u 0 pid 1 @ r)"
  unfolding packet_of_def using assms ts_payload_plain [of _ r u pid] by blast

lemma packet_of_adapted:
  assumes "length r = 183" and "unat k \<le> 183" and "u = (nPos p = 0)"
    and "drop (unat k) r = pes_front p @ take n (drop (nPos p) (pESData p))"
  shows "packet_of p pid n (ts_header u 0 pid 3 @ k # r)"
  unfolding packet_of_def using assms ts_payload_adapted [of _ r k u pid]
  by (intro exI [of _ u] exI [of _ 3] exI [of _ "k # r"]) auto

text \<open>
  \<open>pes_step\<close>: a call while data is left makes one such packet and moves on by at least one
  byte, never past the end of the data. One lemma per way through the code.
\<close>

definition pes_step :: "LinkPES \<Rightarrow> int \<Rightarrow> bytes \<Rightarrow> bool" where
  "pes_step p pid buf =
     (\<exists>b n. LinkGetPESData p 0 pid buf 188 = Inr (188, b, p\<lparr>nPos := nPos p + n\<rparr>) \<and>
        packet_of p pid n b \<and> 0 < n \<and> nPos p + n \<le> length (pESData p))"

lemma pes_step_later_full:
  assumes pos: "nPos p < length (pESData p)" and ok: "pes_ok p" "pcr_fits p" and buf: "length buf = 188"
    and later_full: "nPos p \<noteq> 0" "188 \<le> length (pESData p) - nPos p + 4"
  shows "pes_step p pid buf"
proof -
  let ?d = "pESData p"
  have "LinkGetPESData p 0 pid buf 188 = Inr (188, ts_header False 0 pid 1 @ take (188 - 4) (drop (nPos p) ?d),
      p\<lparr>nPos := nPos p + (188 - 4)\<rparr>)"
    using later_full pos buf
    by (intro fill_whole [where B = "drop 4 buf" and h = 0 and pad = False] pesPrologue_later) auto
  moreover have "packet_of p pid (188 - 4) (ts_header False 0 pid 1 @ take (188 - 4) (drop (nPos p) ?d))"
    using later_full by (intro packet_of_full) (auto simp: pes_front_def)
  moreover have "0 < 188 - (4 :: nat)" "nPos p + (188 - 4) \<le> length ?d"
    using later_full by auto
  ultimately show ?thesis unfolding pes_step_def by (intro exI conjI)
qed

lemma pes_step_later_pad:
  assumes pos: "nPos p < length (pESData p)" and ok: "pes_ok p" "pcr_fits p" and buf: "length buf = 188"
    and later_pad: "nPos p \<noteq> 0" "length (pESData p) - nPos p + 4 < 188"
  shows "pes_step p pid buf"
proof -
  let ?d = "pESData p"
  define n m where "n = padded_take p (length ([] :: bytes))" and "m = 182 - length ([] :: bytes) - n"
  have nm: "0 < n" "nPos p + n \<le> length ?d" "6 + m + n = 188"
    using later_pad pos by (auto simp: n_def m_def padded_take_def Let_def)
  have "LinkGetPESData p 0 pid buf 188 = Inr (188, ts_header False 0 pid 3 @ [of_nat (m + 1), 0] @
      replicate m 0xff @ [] @ take n (drop (nPos p) ?d), p\<lparr>nPos := nPos p + n\<rparr>)"
    using later_pad pos buf n_def m_def
    by (intro fill_padded [where B = "drop 4 buf" and pad = False]) (auto simp: pesPrologue_later)
  moreover have "packet_of p pid n (ts_header False 0 pid 3 @ [of_nat (m + 1), 0] @
      replicate m 0xff @ [] @ take n (drop (nPos p) ?d))"
    using later_pad nm
    by (simp del: of_nat_add of_nat_Suc, intro packet_of_adapted)
       (auto simp: pes_front_def unsigned_of_nat take_bit_nat_eq_self simp del: of_nat_add of_nat_Suc)
  ultimately show ?thesis unfolding pes_step_def using nm by (intro exI conjI)
qed

lemma pes_step_pcr:
  assumes pos: "nPos p < length (pESData p)" and ok: "pes_ok p" "pcr_fits p" and buf: "length buf = 188"
    and pcr: "nPos p = 0" "nWithPcr p = 1"
  shows "pes_step p pid buf"
proof -
  let ?d = "pESData p" and ?hl = "getPESHeaderJustWithPtsLen p"
  note hl = pes_header_len_bounds [of p]
  obtain r where ada: "writeAdaptationFieldJustWithPCR (nPts p) = 7 # r" "length r = 7"
    using writeAdaptationField_Cons by blast
  let ?A = "ts_header True 0 pid 3 @ writeAdaptationFieldJustWithPCR (nPts p) @ pes_header p"
  let ?n = "188 - (12 + ?hl)"
  have le: "?n \<le> length ?d" "0 < ?n"
    using pcr ok hl by (auto simp: pcr_fits_def)
  have "LinkGetPESData p 0 pid buf 188 = Inr (188, ?A @ take ?n (drop (nPos p) ?d), p\<lparr>nPos := nPos p + ?n\<rparr>)"
    using pcr pos buf ok hl le pesPrologue_pcr [OF pcr buf ok(1), of pid]
    by (intro fill_whole [where B = "drop (12 + ?hl) buf" and h = 0 and pad = False])
       (auto simp: length_pes_header length_writeAdaptationField)
  moreover have "packet_of p pid ?n (?A @ take ?n (drop (nPos p) ?d))"
    using pcr ok le ada hl packet_of_adapted [of "r @ pes_header p @ take ?n (drop (nPos p) ?d)" 7 True p ?n pid]
    by (simp add: pes_front_def length_pes_header)
  moreover have "nPos p + ?n \<le> length ?d" using pcr le by simp
  ultimately show ?thesis unfolding pes_step_def using le(2) by (intro exI conjI)
qed

lemma pes_step_first_pad:
  assumes pos: "nPos p < length (pESData p)" and ok: "pes_ok p" "pcr_fits p" and buf: "length buf = 188"
    and first_pad: "nPos p = 0" "nWithPcr p \<noteq> 1" "getPESHeaderJustWithPtsLen p + 4 + length (pESData p) < 188"
  shows "pes_step p pid buf"
proof -
  let ?d = "pESData p" and ?hl = "getPESHeaderJustWithPtsLen p" and ?H = "pes_header p"
  note hl = pes_header_len_bounds [of p]
  define n m where "n = padded_take p (length ?H)" and "m = 182 - length ?H - n"
  have lH: "length ?H = ?hl" using ok by (simp add: length_pes_header)
  have nm: "0 < n" "nPos p + n \<le> length ?d" "6 + m + length ?H + n = 188"
    using first_pad pos hl lH by (auto simp: n_def m_def padded_take_def Let_def)
  have "LinkGetPESData p 0 pid buf 188 = Inr (188, ts_header True 0 pid 3 @ [of_nat (m + 1), 0] @
      replicate m 0xff @ ?H @ take n (drop (nPos p) ?d), p\<lparr>nPos := nPos p + n\<rparr>)"
    using first_pad pos buf n_def m_def ok lH
    by (intro fill_padded [where B = "drop 4 buf" and pad = True]) (auto simp: pesPrologue_padding)
  moreover have "packet_of p pid n (ts_header True 0 pid 3 @ [of_nat (m + 1), 0] @
      replicate m 0xff @ ?H @ take n (drop (nPos p) ?d))"
    using first_pad nm
    by (simp del: of_nat_add of_nat_Suc, intro packet_of_adapted)
       (auto simp: pes_front_def unsigned_of_nat take_bit_nat_eq_self simp del: of_nat_add of_nat_Suc)
  ultimately show ?thesis unfolding pes_step_def using nm by (intro exI conjI)
qed

lemma pes_step_first_full:
  assumes pos: "nPos p < length (pESData p)" and ok: "pes_ok p" "pcr_fits p" and buf: "length buf = 188"
    and first_full: "nPos p = 0" "nWithPcr p \<noteq> 1" "\<not> getPESHeaderJustWithPtsLen p + 4 + length (pESData p) < 188"
  shows "pes_step p pid buf"
proof -
  let ?d = "pESData p" and ?hl = "getPESHeaderJustWithPtsLen p"
  note hl = pes_header_len_bounds [of p]
  let ?A = "ts_header True 0 pid 1 @ pes_header p"
  let ?n = "188 - (4 + ?hl)"
  have le: "?n \<le> length ?d" "0 < ?n"
    using first_full hl by auto
  have "LinkGetPESData p 0 pid buf 188 = Inr (188, ?A @ take ?n (drop (nPos p) ?d), p\<lparr>nPos := nPos p + ?n\<rparr>)"
    using first_full pos buf ok hl le pesPrologue_full [OF first_full(1,2) buf ok(1) first_full(3), of pid]
    by (intro fill_whole [where B = "drop (4 + ?hl) buf" and h = 0 and pad = False])
       (auto simp: length_pes_header)
  moreover have "packet_of p pid ?n (?A @ take ?n (drop (nPos p) ?d))"
    using first_full ok le hl packet_of_full [of "pes_header p @ take ?n (drop (nPos p) ?d)" _ p ?n True pid]
    by (simp add: pes_front_def length_pes_header)
  moreover have "nPos p + ?n \<le> length ?d" using first_full le by simp
  ultimately show ?thesis unfolding pes_step_def using le(2) by (intro exI conjI)
qed

lemma LinkGetPESData_step:
  assumes "nPos p < length (pESData p)" and "pes_ok p" "pcr_fits p" and "length buf = 188"
  shows "pes_step p pid buf"
proof -
  let ?d = "pESData p" and ?hl = "getPESHeaderJustWithPtsLen p"
  consider "nPos p \<noteq> 0" "188 \<le> length ?d - nPos p + 4"
    | "nPos p \<noteq> 0" "length ?d - nPos p + 4 < 188"
    | "nPos p = 0" "nWithPcr p = 1"
    | "nPos p = 0" "nWithPcr p \<noteq> 1" "?hl + 4 + length ?d < 188"
    | "nPos p = 0" "nWithPcr p \<noteq> 1" "\<not> ?hl + 4 + length ?d < 188"
    by linarith
  then show ?thesis
    using assms by cases (rule pes_step_later_full pes_step_later_pad pes_step_pcr
        pes_step_first_pad pes_step_first_full; assumption)+
qed


subsection \<open>A short frame behind a PCR\<close>

text \<open>
  The code assumes that the frame carrying the PCR is never short. When it is (say after a
  stream that begins with a small frame), the two adaptation bytes and the stuffing land
  behind the PES header, inside the payload: the receiver gets
  them as the beginning of the elementary stream data.
\<close>

theorem short_first_frame_is_stuffed:
  assumes "nPos p = 0" and "nWithPcr p = 1" and "pESData p \<noteq> []" and "pes_ok p"
    and "length buf = 188" and "m + getPESHeaderJustWithPtsLen p + length (pESData p) = 174"
  shows "\<exists>b. LinkGetPESData p 0 pid buf 188 = Inr (188, b, p\<lparr>nPos := length (pESData p)\<rparr>) \<and>
    ts_payload b = Some (pes_header p @ [of_nat (m + 1), 0] @ replicate m 0xff @ pESData p)"
proof -
  let ?d = "pESData p" and ?hl = "getPESHeaderJustWithPtsLen p" and ?H = "pes_header p"
  let ?ada = "writeAdaptationFieldJustWithPCR (nPts p)"
  let ?A = "ts_header True 0 pid 3 @ ?ada @ ?H"
  let ?B = "drop (12 + ?hl) buf"
  note hl = pes_header_len_bounds [of p]
  have lA: "length ?A = 12 + ?hl"
    using assms(4) by (simp add: length_pes_header length_writeAdaptationField)
  have w1: "write_at (12 + ?hl) [of_nat (m + 1), 0] (?A @ ?B) = Inr (?A @ [of_nat (m + 1), 0] @ drop 2 ?B)"
    using lA assms(5,6) by (subst write_behind) (simp_all add: numeral_2_eq_2)
  have w2: "write_at (14 + ?hl) (replicate m 0xff) ((?A @ [of_nat (m + 1), 0]) @ drop 2 ?B) =
      Inr ((?A @ [of_nat (m + 1), 0]) @ replicate m 0xff @ drop m (drop 2 ?B))"
    using lA assms(5,6) write_behind [of "14 + ?hl" "?A @ [of_nat (m + 1), 0]" "replicate m 0xff" "drop 2 ?B"]
    by simp
  have w3: "write_at (188 - length ?d) ?d ((?A @ [of_nat (m + 1), 0] @ replicate m 0xff) @ drop m (drop 2 ?B)) =
      Inr ((?A @ [of_nat (m + 1), 0] @ replicate m 0xff) @ ?d)"
    using lA assms(5,6) by (subst write_behind) simp_all
  have flag: "LinkSetAdaptationFieldFlag (ts_header True 0 pid 3 @ r) 3 = ts_header True 0 pid 3 @ r" for r
    by (simp add: set_flag_ts_header)
  have run: "LinkGetPESData p 0 pid buf 188 =
      Inr (188, ?A @ [of_nat (m + 1), 0] @ replicate m 0xff @ ?d, p\<lparr>nPos := length ?d\<rparr>)"
  proof -
    have len1: "(if (188 :: nat) < length ?d - nPos p then 188 else length ?d - nPos p) = length ?d"
      and no: "\<not> 188 \<le> length ?d + (12 + ?hl) + 0"
      and len2: "(if 188 < length ?d + (12 + ?hl + 2) + 0 then 188 - (12 + ?hl + 2) - 0 else length ?d) = length ?d"
      and len3: "188 - (14 + ?hl) - 0 - length ?d = m" "14 + ?hl - 2 = 12 + ?hl" and len4: "12 + ?hl + 2 = 14 + ?hl"
      and fit: "14 + ?hl + m + length ?d = 188"
      using assms by simp_all
    show ?thesis
      unfolding LinkGetPESData_def Let_def pesPrologue_pcr [OF assms(1,2,5,4)] len1 and_then_Inr prod.case
      unfolding if_not_P [OF no] len2 unfolding len4 unfolding len3
      using assms(1,3) w1 w2 w3 fit by (simp add: read_at_def flag)
  qed
  obtain r where ada: "?ada = 7 # r" "length r = 7"
    using writeAdaptationField_Cons by blast
  have "ts_payload (?A @ [of_nat (m + 1), 0] @ replicate m 0xff @ ?d) =
      Some (?H @ [of_nat (m + 1), 0] @ replicate m 0xff @ ?d)"
    using ada assms(4,6) ts_payload_adapted [of 0 "r @ ?H @ [of_nat (m + 1), 0] @ replicate m 0xff @ ?d" 7 True pid]
    by (simp add: length_pes_header)
  then show ?thesis using run by blast
qed

theorem short_first_frame_is_stuffed_witness:
  "\<exists>b p'. LinkGetPESData (LinkInitVideoPESWithPcr LINK_VIDEO_H264 [1, 2, 3] 0) 0 256 (replicate 188 0) 188 =
      Inr (188, b, p') \<and>
    ts_payload b \<noteq> Some (pes_header (LinkInitVideoPESWithPcr LINK_VIDEO_H264 [1, 2, 3] 0) @ [1, 2, 3])"
proof -
  let ?p = "LinkInitVideoPESWithPcr LINK_VIDEO_H264 [1, 2, 3] 0"
  have p: "nPos ?p = 0" "nWithPcr ?p = 1" "pESData ?p = [1, 2, 3]" "pes_ok ?p"
      "getPESHeaderJustWithPtsLen ?p = 20"
    by (simp_all add: LinkInitVideoPESWithPcr_def LinkInitVideoPES_def initPes_def pes_ok_def
        getPESHeaderJustWithPtsLen_def h264Aud_def aud_def)
  obtain b where "LinkGetPESData ?p 0 256 (replicate 188 0) 188 = Inr (188, b, ?p\<lparr>nPos := length (pESData ?p)\<rparr>)"
      "ts_payload b = Some (pes_header ?p @ [of_nat (151 + 1), 0] @ replicate 151 0xff @ pESData ?p)"
    using short_first_frame_is_stuffed [of ?p "replicate 188 0" 151 256] p by auto
  then show ?thesis using p by (intro exI conjI) auto
qed

end
