(* ===== verification/TsMux.thy ===== *)
theory TsMux
  imports MpegTs
begin

section \<open>The transport stream multiplexer (libtsuploader/tsmux.c)\<close>

text \<open>
  The multiplexer context, its continuity counters, the program tables at the start of a stream
  and the loop that cuts a frame into packets. The output callback and the key frame
  callback of \<open>LinkTsMuxerArg\<close> are arguments: \<open>out\<close> takes the callee's state and a packet and
  returns the callee's result and its new state. The mutex makes each call atomic, so a call is
  one function here.
\<close>

subsection \<open>State\<close>

record LinkTsMuxerArg =
  nAudioFormat :: LinkAudioFormat
  nAudioSampleRate :: int
  nAudioChannels :: int
  nVideoFormat :: LinkVideoFormat

record LinkKeyFrameMetaInfo =
  nTimestamp90Khz :: int
  nOffset :: nat
  nLength :: nat

type_synonym PIDCounter = "int \<times> nat"

record LinkTsMuxerContext =
  arg :: LinkTsMuxerArg
  pes :: LinkPES
  tsPacket :: bytes
  pidCounterMap :: "PIDCounter list"
  nLastPts :: u64
  isTableWrited :: bool
  nPcrFlag :: int
  nCurrentPos :: nat

type_synonym 'o packet_output = "'o \<Rightarrow> bytes \<Rightarrow> int \<times> 'o"
type_synonym 'o meta_output = "('o \<Rightarrow> LinkKeyFrameMetaInfo \<Rightarrow> 'o) option"

definition Pids :: "int list" where
  "Pids = [LINK_AUDIO_PID, LINK_VIDEO_PID, LINK_PAT_PID, LINK_PMT_PID, LINK_SDT_PID]"

text \<open>\<open>memset\<close> of the context, then the argument and the counters.\<close>

definition freshContext :: "LinkTsMuxerArg \<Rightarrow> LinkTsMuxerContext" where
  "freshContext a = \<lparr>arg = a, pes = initPes [] 0, tsPacket = replicate 188 0,
     pidCounterMap = map (\<lambda>p. (p, 0)) Pids, nLastPts = 0, isTableWrited = False,
     nPcrFlag = 0, nCurrentPos = 0\<rparr>"

text \<open>\<open>alloc\<close> and \<open>mutex_ret\<close> are the answers of \<open>malloc\<close> and \<open>pthread_mutex_init\<close>.\<close>

definition LinkNewTsMuxerContext ::
    "bool \<Rightarrow> int \<Rightarrow> LinkTsMuxerArg \<Rightarrow> int \<times> LinkTsMuxerContext option" where
  "LinkNewTsMuxerContext alloc mutex_ret pArg =
     (if \<not> alloc then (LINK_NO_MEMORY, None)
      else if mutex_ret \<noteq> 0 then (LINK_MUTEX_ERROR, None)
      else (0, Some (freshContext pArg)))"

definition LinkResetTsMuxerContext ::
    "int \<Rightarrow> LinkTsMuxerContext \<Rightarrow> int \<times> LinkTsMuxerContext option" where
  "LinkResetTsMuxerContext mutex_ret c =
     (if mutex_ret \<noteq> 0 then (LINK_MUTEX_ERROR, None)
      else (0, Some (freshContext (arg c))))"

subsection \<open>Continuity counters\<close>

fun bumpCounter :: "PIDCounter list \<Rightarrow> int \<Rightarrow> (nat \<times> PIDCounter list) run" where
  "bumpCounter [] pid = Inl Assertion_failed"
| "bumpCounter ((q, n) # m) pid =
     (if q = pid then (if n = 15 then Inr (15, (q, 0) # m) else Inr (n, (q, n + 1) # m))
      else and_then (bumpCounter m pid) (\<lambda>(k, m). Inr (k, (q, n) # m)))"

definition getPidCounter :: "LinkTsMuxerContext \<Rightarrow> int \<Rightarrow> (nat \<times> LinkTsMuxerContext) run" where
  "getPidCounter c pid =
     and_then (bumpCounter (pidCounterMap c) pid) (\<lambda>(k, m). Inr (k, c\<lparr>pidCounterMap := m\<rparr>))"

subsection \<open>Program tables\<close>

definition audioStreamType :: "LinkAudioFormat \<Rightarrow> int" where
  "audioStreamType a = (case a of LINK_AUDIO_AAC \<Rightarrow> 0x0f | LINK_AUDIO_PCMU \<Rightarrow> 0x06
     | LINK_AUDIO_PCMA \<Rightarrow> 0x06 | LINK_AUDIO_NONE \<Rightarrow> 0)"

definition g711Type :: "LinkAudioFormat \<Rightarrow> u8" where
  "g711Type a = (if a = LINK_AUDIO_PCMA then 0x61 else 0x75)"

definition videoStreamType :: "LinkVideoFormat \<Rightarrow> int" where
  "videoStreamType v = (case v of LINK_VIDEO_H264 \<Rightarrow> 0x1b | LINK_VIDEO_H265 \<Rightarrow> 0x24
     | LINK_VIDEO_NONE \<Rightarrow> 0)"

text \<open>A table goes to the start of the packet buffer; the rest, from \<open>nLen\<close> on, is set to \<open>0xff\<close>.\<close>

definition tablePacket :: "int \<times> bytes \<Rightarrow> bytes \<Rightarrow> bytes run" where
  "tablePacket t buf =
     and_then (write_at 0 (snd t) buf) (\<lambda>b.
       write_at (nat (fst t)) (replicate (188 - nat (fst t)) 0xff) b)"

definition writeTable ::
    "'o packet_output \<Rightarrow> 'o \<Rightarrow> LinkTsMuxerContext \<Rightarrow> int \<Rightarrow> ('o \<times> LinkTsMuxerContext) run" where
  "writeTable out s c pts =
     (if isTableWrited c then Inr (s, c)
      else and_then
        (if nLastPts c = 0 \<or> 300 * 90 < word_of_int pts - nLastPts c then
           and_then (getPidCounter c 0x00) (\<lambda>(cnt, c).
           and_then (tablePacket (LinkWritePAT True (int cnt) LINK_ADAPTATION_JUST_PAYLOAD) (tsPacket c)) (\<lambda>b.
           let c = c\<lparr>tsPacket := b\<rparr>; s = snd (out s b) in
           and_then (getPidCounter c 0x1000) (\<lambda>(cnt, c).
           and_then (LinkWritePMT True (int cnt) LINK_ADAPTATION_JUST_PAYLOAD
                       (videoStreamType (nVideoFormat (arg c))) (audioStreamType (nAudioFormat (arg c)))
                       (g711Type (nAudioFormat (arg c))) (nAudioSampleRate (arg c))) (\<lambda>t.
           and_then (tablePacket t (tsPacket c)) (\<lambda>b.
           let c = c\<lparr>tsPacket := b\<rparr>; s = snd (out s b) in
           Inr (s, c))))))
         else Inr (s, c))
        (\<lambda>(s, c). Inr (s, c\<lparr>isTableWrited := True, nCurrentPos := 188 * 2\<rparr>)))"

subsection \<open>Cutting a frame into packets\<close>

text \<open>
  The loop ends because \<open>nPos\<close> grows with every packet. Its result is the code to return, and
  \<open>nKeyFrameLen\<close> and \<open>ok\<close> for what follows the loop.
\<close>

lemma and_then_cong [fundef_cong]:
  "r = r' \<Longrightarrow> (\<And>x. r' = Inr x \<Longrightarrow> f x = f' x) \<Longrightarrow> and_then r f = and_then r' f'"
  by (cases r') auto

lemma pesPrologue_small:
  assumes "pesPrologue p cnt pid buf = Inr (b, n, pad, h)"
  shows "n + h \<le> 33"
proof -
  have hdr: "length x \<le> 21" if "writePESHeaderJustWithPts p = Inr x" for x
    using that pes_header_len_bounds [of p]
    by (auto simp: writePESHeaderJustWithPts_def Let_def aud_def getPESHeaderJustWithPtsLen_def
        split: if_splits LinkVideoFormat.splits)
  show ?thesis
    using assms hdr pes_header_len_bounds [of p]
    by (auto simp: pesPrologue_def and_then_eq_Inr Let_def length_writeAdaptationField split: if_splits)
qed

lemma LinkGetPESData_progress:
  assumes run: "LinkGetPESData p cnt pid buf 188 = Inr (r, b, p')" and r: "r = 188"
  shows "pESData p' = pESData p \<and> nPos p < nPos p' \<and> nPos p' \<le> length (pESData p)"
proof -
  let ?l = "length (pESData p)"
  let ?R = "if 188 < ?l - nPos p then 188 else ?l - nPos p"
  have pos: "nPos p \<noteq> ?l"
    using run r by (auto simp: LinkGetPESData_def)
  obtain b0 n pad h where pr: "pesPrologue p cnt pid buf = Inr (b0, n, pad, h)"
    using run pos by (cases "pesPrologue p cnt pid buf") (auto simp: LinkGetPESData_def Let_def)
  have small: "n + h \<le> 33"
    by (rule pesPrologue_small [OF pr])
  show ?thesis
  proof (cases "188 \<le> ?R + n + h")
    case True
    then have "p' = p\<lparr>nPos := nPos p + (188 - n)\<rparr> \<and> nPos p + (188 - n) \<le> ?l"
      using run pos pr by (auto simp: LinkGetPESData_def Let_def and_then_eq_Inr read_at_def split: if_splits)
    then show ?thesis using small by auto
  next
    case False
    define k where "k = (if 188 < ?R + (n + 2) + h then 188 - (n + 2) - h else ?R)"
    have "p' = p\<lparr>nPos := nPos p + k\<rparr> \<and> nPos p + k \<le> ?l"
      using run pos
      unfolding LinkGetPESData_def Let_def pr and_then_Inr prod.case if_not_P [OF False]
        k_def [symmetric] if_not_P [OF pos]
      by (auto simp: and_then_eq_Inr read_at_def split: if_splits)
    then show ?thesis using small pos by (auto simp: k_def split: if_splits)
  qed
qed

lemma getPidCounter_pes:
  "getPidCounter c pid = Inr (k, c') \<Longrightarrow> pes c' = pes c"
  by (auto simp: getPidCounter_def and_then_eq_Inr)

function makeTsLoop ::
    "'o packet_output \<Rightarrow> int \<Rightarrow> nat \<Rightarrow> 'o \<Rightarrow> LinkTsMuxerContext \<Rightarrow> nat \<Rightarrow> bool
      \<Rightarrow> (int \<times> 'o \<times> LinkTsMuxerContext \<times> nat \<times> bool) run" where
  "makeTsLoop out pid nKeyframePos s c nKeyFrameLen ok =
     and_then (LinkGetPESData (pes c) 0 pid (tsPacket c) 188) (\<lambda>(nReadLen, b, p).
       let c = c\<lparr>pes := p, tsPacket := b\<rparr> in
       if nReadLen = 188 then
         and_then (getPidCounter c pid) (\<lambda>(nCount, c).
         let b = LinkWriteContinuityCounter b (int nCount);
             c = c\<lparr>tsPacket := b\<rparr>;
             (nRet, s) = out s b
         in if nRet < 0 then Inr (nRet, s, c, nKeyFrameLen, ok)
            else if 0 < nRet then
              makeTsLoop out pid nKeyframePos s (c\<lparr>nCurrentPos := nCurrentPos c + 188\<rparr>) (nKeyFrameLen + 188) ok
            else
              makeTsLoop out pid nKeyframePos s (c\<lparr>nCurrentPos := nKeyframePos\<rparr>) nKeyFrameLen False)
       else Inr (0, s, c, nKeyFrameLen, ok))"
  by auto

termination makeTsLoop
  by (relation "measure (\<lambda>(out, pid, k, s, c, l, ok). length (pESData (pes c)) - nPos (pes c))")
     (auto dest!: getPidCounter_pes LinkGetPESData_progress)

declare makeTsLoop.simps [simp del]

definition makeTsPacket ::
    "'o packet_output \<Rightarrow> 'o meta_output \<Rightarrow> 'o \<Rightarrow> LinkTsMuxerContext \<Rightarrow> int \<Rightarrow> int \<Rightarrow> bool
      \<Rightarrow> (int \<times> 'o \<times> LinkTsMuxerContext) run" where
  "makeTsPacket out meta s c pid pts isKeyframe =
     (let nKeyframePos = nCurrentPos c in
      and_then (makeTsLoop out pid nKeyframePos s c 0 True) (\<lambda>(nRet, s, c, nKeyFrameLen, ok).
        if nRet < 0 then Inr (nRet, s, c)
        else if isKeyframe \<and> ok then
          let metaInfo = \<lparr>nTimestamp90Khz = pts, nOffset = nKeyframePos, nLength = nKeyFrameLen\<rparr> in
          Inr (0, (case meta of Some f \<Rightarrow> f s metaInfo | None \<Rightarrow> s), c)
        else Inr (0, s, c)))"

definition LinkMuxerAudio ::
    "'o packet_output \<Rightarrow> 'o meta_output \<Rightarrow> 'o \<Rightarrow> LinkTsMuxerContext \<Rightarrow> bytes \<Rightarrow> int
      \<Rightarrow> (int \<times> 'o \<times> LinkTsMuxerContext) run" where
  "LinkMuxerAudio out meta s c data pts =
     and_then (writeTable out s c 0) (\<lambda>(s, c).
     let c = c\<lparr>pes := (if nAudioFormat (arg c) = LINK_AUDIO_AAC then LinkInitAudioPES data pts
                       else LinkInitPrivateTypePES data pts)\<rparr> in
     makeTsPacket out meta s c LINK_AUDIO_PID (nPts (pes c)) False)"

definition LinkMuxerVideo ::
    "'o packet_output \<Rightarrow> 'o meta_output \<Rightarrow> 'o \<Rightarrow> LinkTsMuxerContext \<Rightarrow> bytes \<Rightarrow> int \<Rightarrow> bool
      \<Rightarrow> (int \<times> 'o \<times> LinkTsMuxerContext) run" where
  "LinkMuxerVideo out meta s c data pts isKeyframe =
     and_then (writeTable out s c 0) (\<lambda>(s, c).
     let fmt = nVideoFormat (arg c);
         c = (if nPcrFlag c = 0 then c\<lparr>nPcrFlag := 1, pes := LinkInitVideoPESWithPcr fmt data pts\<rparr>
              else c\<lparr>pes := LinkInitVideoPES fmt data pts\<rparr>) in
     makeTsPacket out meta s c LINK_VIDEO_PID (nPts (pes c)) isKeyframe)"


subsection \<open>A receiver of the stream\<close>

text \<open>
  \<open>tape ans\<close> is an output callback that keeps every packet it is given and answers as
  \<open>ans\<close> says, from all it has seen. \<open>demux pid ps\<close> are the PES packets a receiver of \<open>pid\<close> reassembles: a
  packet with a unit start begins a new one, any other is added to the last.
\<close>

type_synonym recording = "bytes list \<times> LinkKeyFrameMetaInfo list"

definition tape :: "(bytes list \<Rightarrow> int) \<Rightarrow> recording packet_output" where
  "tape ans s b = (ans (fst s @ [b]), (fst s @ [b], snd s))"

definition tape_meta :: "recording meta_output" where
  "tape_meta = Some (\<lambda>s m. (fst s, snd s @ [m]))"

lemma tape_eq: "tape ans (ps, ms) b = (ans (ps @ [b]), (ps @ [b], ms))"
  by (simp add: tape_def)

definition payload_of :: "bytes \<Rightarrow> bytes" where
  "payload_of b = (case ts_payload b of Some x \<Rightarrow> x | None \<Rightarrow> [])"

definition demux_step :: "int \<Rightarrow> bytes list \<Rightarrow> bytes \<Rightarrow> bytes list" where
  "demux_step pid acc b =
     (if ts_pid b \<noteq> pid then acc
      else if ts_unit_start b then acc @ [payload_of b]
      else butlast acc @ [last acc @ payload_of b])"

definition demux :: "int \<Rightarrow> bytes list \<Rightarrow> bytes list" where
  "demux pid ps = foldl (demux_step pid) [] ps"

lemma demux_append: "demux pid (ps @ qs) = foldl (demux_step pid) (demux pid ps) qs"
  by (simp add: demux_def)

lemma demux_other: "\<forall>q \<in> set qs. ts_pid q \<noteq> pid \<Longrightarrow> foldl (demux_step pid) acc qs = acc"
  by (induction qs) (auto simp: demux_step_def)

subsection \<open>Continuity counters\<close>

definition counters_of :: "int \<Rightarrow> bytes list \<Rightarrow> int list" where
  "counters_of pid ps = map ts_counter (filter (\<lambda>b. ts_pid b = pid) ps)"

definition count_mod_16 :: "nat \<Rightarrow> int list" where
  "count_mod_16 n = map (\<lambda>i. int (i mod 16)) [0..<n]"

definition cc_inv :: "PIDCounter list \<Rightarrow> bytes list \<Rightarrow> bool" where
  "cc_inv m ps = (\<forall>pid \<in> set Pids. \<exists>n.
     counters_of pid ps = count_mod_16 n \<and> map_of m pid = Some (n mod 16))"

lemma counters_of_snoc:
  "counters_of pid (ps @ [b]) = counters_of pid ps @ (if ts_pid b = pid then [ts_counter b] else [])"
  by (simp add: counters_of_def)

lemma count_mod_16_Suc: "count_mod_16 (Suc n) = count_mod_16 n @ [int (n mod 16)]"
  by (simp add: count_mod_16_def)

lemma bumpCounter_map_of:
  "map_of m pid = Some k \<Longrightarrow> k < 16 \<Longrightarrow>
   \<exists>m'. bumpCounter m pid = Inr (k, m') \<and> map_of m' = (map_of m)(pid \<mapsto> (k + 1) mod 16)"
  by (induction m pid rule: bumpCounter.induct)
     (auto simp: fun_upd_twist split: if_splits)

lemma Pids_range: "pid \<in> set Pids \<Longrightarrow> 0 \<le> pid \<and> pid < 8192"
  by (auto simp: Pids_def)

lemma getPidCounter_emit:
  assumes inv: "cc_inv (pidCounterMap c) ps" and pid: "pid \<in> set Pids"
  shows "\<exists>k m. getPidCounter c pid = Inr (k, c\<lparr>pidCounterMap := m\<rparr>) \<and> k < 16 \<and>
    (\<forall>u a r. cc_inv m (ps @ [ts_header u (int k) pid a @ r]))"
proof -
  obtain n where n: "counters_of pid ps = count_mod_16 n" "map_of (pidCounterMap c) pid = Some (n mod 16)"
    using inv pid by (auto simp: cc_inv_def)
  obtain m where m: "bumpCounter (pidCounterMap c) pid = Inr (n mod 16, m)"
      "map_of m = (map_of (pidCounterMap c))(pid \<mapsto> (n mod 16 + 1) mod 16)"
    using bumpCounter_map_of [OF n(2)] by auto
  have "cc_inv m (ps @ [ts_header u (int (n mod 16)) pid a @ r])" for u a r
    unfolding cc_inv_def
  proof
    fix q assume q: "q \<in> set Pids"
    let ?b = "ts_header u (int (n mod 16)) pid a @ r"
    have b: "ts_pid ?b = pid" "ts_counter ?b = int (n mod 16)"
      using Pids_range [OF pid] by (simp_all add: ts_pid_header ts_counter_header)
    show "\<exists>j. counters_of q (ps @ [?b]) = count_mod_16 j \<and> map_of m q = Some (j mod 16)"
    proof (cases "q = pid")
      case True
      then show ?thesis
        using n m b by (intro exI [of _ "Suc n"]) (simp add: counters_of_snoc count_mod_16_Suc mod_Suc_eq)
    next
      case False
      then show ?thesis
        using inv q m b by (auto simp: cc_inv_def counters_of_snoc)
    qed
  qed
  then show ?thesis using m by (auto simp: getPidCounter_def)
qed

subsection \<open>The program tables as packets\<close>

lemma tablePacket_header:
  assumes "length buf = 188" and "length x \<le> 184" and "4 \<le> n" and "n \<le> 188"
  shows "\<exists>r. length r = 184 \<and> tablePacket (n, ts_header u k pid a @ x) buf = Inr (ts_header u k pid a @ r)"
proof -
  let ?h = "ts_header u k pid a"
  have w: "write_at 0 (?h @ x) buf = Inr (?h @ (x @ drop (4 + length x) buf))"
    using assms by (simp add: write_at_def overwrite_def)
  obtain j where j: "nat n = length ?h + j" "4 + j \<le> 188"
    using assms by (intro that [of "nat n - 4"]) auto
  let ?r = "overwrite j (replicate (188 - nat n) 0xff) (x @ drop (4 + length x) buf)"
  have "write_at (nat n) (replicate (188 - nat n) 0xff) (?h @ (x @ drop (4 + length x) buf)) = Inr (?h @ ?r)"
    using j assms overwrite_append [of j "replicate (188 - nat n) 0xff" "x @ drop (4 + length x) buf" ?h "[]"]
    by (simp add: write_at_def)
  moreover have "length ?r = 184"
    using j assms by simp
  ultimately show ?thesis
    using w by (intro exI [of _ ?r]) (simp add: tablePacket_def)
qed

definition mux_inv :: "LinkTsMuxerArg \<Rightarrow> LinkTsMuxerContext \<Rightarrow> bytes list \<Rightarrow> bool" where
  "mux_inv a c ps = (arg c = a \<and> length (tsPacket c) = 188 \<and> nLastPts c = 0 \<and>
     cc_inv (pidCounterMap c) ps \<and> (\<not> isTableWrited c \<longrightarrow> ps = []) \<and> (\<forall>b \<in> set ps. length b = 188))"

definition has_stream :: "LinkTsMuxerArg \<Rightarrow> bool" where
  "has_stream a = (nVideoFormat a \<noteq> LINK_VIDEO_NONE \<or> nAudioFormat a \<noteq> LINK_AUDIO_NONE)"

lemma LinkWritePAT_eq: "\<exists>x. length x \<le> 184 \<and> LinkWritePAT True k 1 = (21, ts_header True k LINK_PAT_PID 1 @ x)"
  by (simp add: LinkWritePAT_def Let_def LinkWriteTsHeader_eq withPointer_def crc_bytes_def)

lemma LinkWritePMT_eq:
  assumes "has_stream a"
  shows "\<exists>x n. length x \<le> 184 \<and> 4 \<le> n \<and> n \<le> 188 \<and>
    LinkWritePMT True k 1 (videoStreamType (nVideoFormat a)) (audioStreamType (nAudioFormat a)) g f =
      Inr (n, ts_header True k LINK_PMT_PID 1 @ x)"
  using assms
  by (auto simp: LinkWritePMT_def Let_def LinkWriteTsHeader_eq withPointer_def crc_bytes_def
      has_stream_def videoStreamType_def audioStreamType_def pmtBody_def pmtVideo_def pmtAudio_def
      split: LinkVideoFormat.splits LinkAudioFormat.splits)

lemma writeTable_tape:
  assumes inv: "mux_inv a c ps" and a: "has_stream a"
  shows "\<exists>tabs c'. writeTable (tape ans) (ps, ms) c 0 = Inr ((ps @ tabs, ms), c') \<and>
    mux_inv a c' (ps @ tabs) \<and> isTableWrited c' \<and> nPcrFlag c' = nPcrFlag c \<and>
    (\<forall>q \<in> set tabs. ts_pid q = LINK_PAT_PID \<or> ts_pid q = LINK_PMT_PID) \<and>
    (if isTableWrited c then nCurrentPos c' = nCurrentPos c \<and> tabs = []
     else nCurrentPos c' = 188 * length tabs)"
proof (cases "isTableWrited c")
  case True
  then show ?thesis
    using inv by (intro exI [of _ "[]"] exI [of _ c]) (simp add: writeTable_def)
next
  case False
  obtain k m where k: "getPidCounter c LINK_PAT_PID = Inr (k, c\<lparr>pidCounterMap := m\<rparr>)" "k < 16"
      "\<And>u a r. cc_inv m (ps @ [ts_header u (int k) LINK_PAT_PID a @ r])"
    using getPidCounter_emit [of c ps LINK_PAT_PID] inv by (auto simp: mux_inv_def Pids_def)
  obtain y where y: "length y \<le> 184" "LinkWritePAT True (int k) 1 = (21, ts_header True (int k) LINK_PAT_PID 1 @ y)"
    using LinkWritePAT_eq by blast
  obtain r where r: "length r = 184"
      "tablePacket (LinkWritePAT True (int k) 1) (tsPacket c) = Inr (ts_header True (int k) LINK_PAT_PID 1 @ r)"
    using tablePacket_header [OF _ y(1), of "tsPacket c" 21 True "int k" LINK_PAT_PID 1] inv
    unfolding y(2) mux_inv_def by auto
  let ?b = "ts_header True (int k) LINK_PAT_PID 1 @ r"
  let ?c = "c\<lparr>pidCounterMap := m, tsPacket := ?b\<rparr>"
  obtain k2 m2 where k2: "getPidCounter ?c LINK_PMT_PID = Inr (k2, ?c\<lparr>pidCounterMap := m2\<rparr>)" "k2 < 16"
      "\<And>u a r. cc_inv m2 ((ps @ [?b]) @ [ts_header u (int k2) LINK_PMT_PID a @ r])"
    using getPidCounter_emit [of ?c "ps @ [?b]" LINK_PMT_PID] k(3) by (auto simp: Pids_def)
  obtain x n where x: "length x \<le> 184" "4 \<le> n" "n \<le> 188"
      "LinkWritePMT True (int k2) 1 (videoStreamType (nVideoFormat a)) (audioStreamType (nAudioFormat a))
         (g711Type (nAudioFormat a)) (nAudioSampleRate a) = Inr (n, ts_header True (int k2) LINK_PMT_PID 1 @ x)"
    using LinkWritePMT_eq [OF a] by blast
  obtain r2 where r2: "length r2 = 184"
      "tablePacket (n, ts_header True (int k2) LINK_PMT_PID 1 @ x) ?b = Inr (ts_header True (int k2) LINK_PMT_PID 1 @ r2)"
    using tablePacket_header [OF _ x(1-3), of ?b True "int k2" LINK_PMT_PID 1] r(1) by auto
  let ?b2 = "ts_header True (int k2) LINK_PMT_PID 1 @ r2"
  let ?c2 = "?c\<lparr>pidCounterMap := m2, tsPacket := ?b2, isTableWrited := True, nCurrentPos := 376\<rparr>"
  have run: "writeTable (tape ans) (ps, ms) c 0 = Inr ((ps @ [?b, ?b2], ms), ?c2)"
    using False inv k(1) r(2) k2(1) x(4) r2(2)
    by (simp add: writeTable_def mux_inv_def Let_def tape_eq)
  have "mux_inv a ?c2 (ps @ [?b, ?b2])"
    using inv k2(3) r(1) r2(1) by (simp add: mux_inv_def)
  moreover have "ts_pid ?b = LINK_PAT_PID" "ts_pid ?b2 = LINK_PMT_PID"
    by (simp_all add: ts_pid_header)
  ultimately show ?thesis
    using run False by (intro exI [of _ "[?b, ?b2]"] exI [of _ ?c2]) auto
qed


subsection \<open>One frame\<close>

text \<open>
  \<open>loop_pre\<close> is what the loop needs of the context, \<open>loop_post\<close> what it leaves: the packets
  \<open>qs\<close> it emitted belong to \<open>pid\<close> and keep the counters; unless a packet is refused the receiver gets the rest of
  the PES packet, and when all are accepted \<open>nKeyFrameLen\<close> and \<open>nCurrentPos\<close> count them.
\<close>

definition loop_pre :: "LinkTsMuxerArg \<Rightarrow> int \<Rightarrow> LinkTsMuxerContext \<Rightarrow> bytes list \<Rightarrow> bool" where
  "loop_pre a pid c ps = (mux_inv a c ps \<and> isTableWrited c \<and> pid \<in> set Pids \<and>
     pes_ok (pes c) \<and> pcr_fits (pes c) \<and> nPos (pes c) \<le> length (pESData (pes c)))"

definition rest_of :: "LinkPES \<Rightarrow> bytes list \<Rightarrow> bytes list" where
  "rest_of p acc = (if nPos p = 0 then acc @ [pes_header p @ pESData p]
     else butlast acc @ [last acc @ drop (nPos p) (pESData p)])"

definition loop_post ::
    "(bytes list \<Rightarrow> int) \<Rightarrow> LinkTsMuxerArg \<Rightarrow> int \<Rightarrow> LinkTsMuxerContext \<Rightarrow> bytes list \<Rightarrow> bytes list
      \<Rightarrow> LinkTsMuxerContext \<Rightarrow> int \<Rightarrow> nat \<Rightarrow> bool \<Rightarrow> bool" where
  "loop_post ans a pid c ps qs c' r grown ok =
     (mux_inv a c' (ps @ qs) \<and> isTableWrited c' \<and> nPcrFlag c' = nPcrFlag c \<and>
      (\<forall>q \<in> set qs. ts_pid q = pid) \<and>
      ((\<forall>x. 0 \<le> ans x) \<longrightarrow> r = 0 \<and>
        (\<forall>acc. pESData (pes c) \<noteq> [] \<and> (nPos (pes c) = 0 \<or> acc \<noteq> []) \<longrightarrow>
           foldl (demux_step pid) acc qs = rest_of (pes c) acc)) \<and>
      ((\<forall>x. 0 < ans x) \<longrightarrow> ok \<and> grown = 188 * length qs \<and>
        nCurrentPos c' = nCurrentPos c + 188 * length qs))"

lemma LinkGetPESData_end: "nPos p = length (pESData p) \<Longrightarrow> LinkGetPESData p k pid buf n = Inr (0, buf, p)"
  by (simp add: LinkGetPESData_def)

lemma demux_step_packet:
  assumes "b = ts_header u c pid x @ r" and "u = (nPos p = 0)" and "pid \<in> set Pids"
    and "ts_payload b = Some (pes_front p @ take n (drop (nPos p) (pESData p)))"
    and "0 < n" and "nPos p + n \<le> length (pESData p)" and "nPos p = 0 \<or> acc \<noteq> []"
  shows "rest_of (p\<lparr>nPos := nPos p + n\<rparr>) (demux_step pid acc b) = rest_of p acc"
    and "demux_step pid acc b \<noteq> []"
proof -
  have pid: "ts_pid b = pid" "ts_unit_start b = u"
    using assms(1) Pids_range [OF assms(3)] by (simp_all add: ts_pid_header ts_unit_start_header)
  have "payload_of b = pes_front p @ take n (drop (nPos p) (pESData p))"
    using assms(4) by (simp add: payload_of_def)
  moreover have "take n (drop k d) @ drop (k + n) d = drop k d" for k and d :: bytes
    using append_take_drop_id [of n "drop k d"] by (simp add: add.commute)
  ultimately show "rest_of (p\<lparr>nPos := nPos p + n\<rparr>) (demux_step pid acc b) = rest_of p acc"
    using pid assms(2,5,7) by (auto simp: rest_of_def demux_step_def pes_front_def)
  show "demux_step pid acc b \<noteq> []"
    using pid by (simp add: demux_step_def)
qed

lemma loop_step:
  assumes pre: "loop_pre a pid c ps" and more: "nPos (pes c) < length (pESData (pes c))"
  obtains b m n where
    "\<And>ans ms kp l ok. makeTsLoop (tape ans) pid kp (ps, ms) c l ok =
       (let nRet = ans (ps @ [b]); c' = c\<lparr>pes := (pes c)\<lparr>nPos := nPos (pes c) + n\<rparr>, pidCounterMap := m, tsPacket := b\<rparr>
        in if nRet < 0 then Inr (nRet, (ps @ [b], ms), c', l, ok)
           else if 0 < nRet then makeTsLoop (tape ans) pid kp (ps @ [b], ms) (c'\<lparr>nCurrentPos := nCurrentPos c + 188\<rparr>) (l + 188) ok
           else makeTsLoop (tape ans) pid kp (ps @ [b], ms) (c'\<lparr>nCurrentPos := kp\<rparr>) l False)"
    and "0 < n" "nPos (pes c) + n \<le> length (pESData (pes c))" "ts_pid b = pid"
    and "\<And>acc. nPos (pes c) = 0 \<or> acc \<noteq> [] \<Longrightarrow>
       rest_of ((pes c)\<lparr>nPos := nPos (pes c) + n\<rparr>) (demux_step pid acc b) = rest_of (pes c) acc \<and>
       demux_step pid acc b \<noteq> []"
    and "\<And>k. loop_pre a pid (c\<lparr>pes := (pes c)\<lparr>nPos := nPos (pes c) + n\<rparr>, pidCounterMap := m, tsPacket := b,
             nCurrentPos := k\<rparr>) (ps @ [b])"
proof -
  let ?p = "pes c"
  have inv: "cc_inv (pidCounterMap c) ps" "length (tsPacket c) = 188" and pid: "pid \<in> set Pids"
      and ok: "pes_ok ?p" "pcr_fits ?p"
    using pre by (auto simp: loop_pre_def mux_inv_def)
  obtain b0 n where get: "LinkGetPESData ?p 0 pid (tsPacket c) 188 = Inr (188, b0, ?p\<lparr>nPos := nPos ?p + n\<rparr>)"
      and pk: "packet_of ?p pid n b0" and n: "0 < n" "nPos ?p + n \<le> length (pESData ?p)"
    using LinkGetPESData_step [OF more ok inv(2), of pid] by (auto simp: pes_step_def)
  obtain u x r where b0: "b0 = ts_header u 0 pid x @ r" "length r = 184" "u = (nPos ?p = 0)"
      "\<And>k. 0 \<le> k \<Longrightarrow> k < 16 \<Longrightarrow> ts_payload (ts_header u k pid x @ r) =
         Some (pes_front ?p @ take n (drop (nPos ?p) (pESData ?p)))"
    using pk unfolding packet_of_def by blast
  let ?c = "c\<lparr>pes := ?p\<lparr>nPos := nPos ?p + n\<rparr>, tsPacket := b0\<rparr>"
  obtain k m where k: "getPidCounter ?c pid = Inr (k, ?c\<lparr>pidCounterMap := m\<rparr>)" "k < 16"
      "\<And>u a r. cc_inv m (ps @ [ts_header u (int k) pid a @ r])"
    using getPidCounter_emit [of ?c ps pid] inv pid by auto
  let ?b = "ts_header u (int k) pid x @ r"
  have run: "makeTsLoop (tape ans) pid kp (ps, ms) c l ok =
       (let nRet = ans (ps @ [?b]); c' = c\<lparr>pes := ?p\<lparr>nPos := nPos ?p + n\<rparr>, pidCounterMap := m, tsPacket := ?b\<rparr>
        in if nRet < 0 then Inr (nRet, (ps @ [?b], ms), c', l, ok)
           else if 0 < nRet then makeTsLoop (tape ans) pid kp (ps @ [?b], ms) (c'\<lparr>nCurrentPos := nCurrentPos c + 188\<rparr>) (l + 188) ok
           else makeTsLoop (tape ans) pid kp (ps @ [?b], ms) (c'\<lparr>nCurrentPos := kp\<rparr>) l False)"
    for ans ms kp l ok
    using k(1) by (subst makeTsLoop.simps) (simp add: get Let_def tape_eq b0(1) write_counter_ts_header)
  have pkt: "ts_pid ?b = pid" "ts_payload ?b = Some (pes_front ?p @ take n (drop (nPos ?p) (pESData ?p)))"
    using Pids_range [OF pid] b0(4) [of "int k"] k(2) by (simp_all add: ts_pid_header)
  show thesis
    using run n pkt demux_step_packet [OF refl b0(3) pid pkt(2) n] pre k(3) b0(2)
    by (intro that [of ?b m n]) (auto simp: loop_pre_def mux_inv_def pcr_fits_def getPESHeaderJustWithPtsLen_def)
qed


lemma loop_post_nil:
  "loop_pre a pid c ps \<Longrightarrow> nPos (pes c) = length (pESData (pes c)) \<Longrightarrow> ok \<Longrightarrow>
   loop_post ans a pid c ps [] c 0 0 ok"
  by (auto simp: loop_post_def loop_pre_def rest_of_def)

lemma loop_post_Cons:
  assumes post: "loop_post ans a pid d (ps @ [b]) qs c' r g oks" and b: "ts_pid b = pid"
    and same: "nPcrFlag d = nPcrFlag c" "pESData (pes d) = pESData (pes c)"
    and acc: "\<And>acc. nPos (pes c) = 0 \<or> acc \<noteq> [] \<Longrightarrow>
         rest_of (pes d) (demux_step pid acc b) = rest_of (pes c) acc \<and> demux_step pid acc b \<noteq> []"
    and cnt: "\<forall>x. 0 < ans x \<Longrightarrow> (oks \<longrightarrow> oks') \<and> g' = g + 188 \<and> nCurrentPos d = nCurrentPos c + 188"
  shows "loop_post ans a pid c ps (b # qs) c' r g' oks'"
proof -
  note p = post [unfolded loop_post_def same]
  have "foldl (demux_step pid) acc (b # qs) = rest_of (pes c) acc"
    if "\<forall>x. 0 \<le> ans x" "pESData (pes c) \<noteq> []" "nPos (pes c) = 0 \<or> acc \<noteq> []" for acc
    using p that acc [OF that(3)] by simp
  moreover have "oks' \<and> g' = 188 * length (b # qs) \<and> nCurrentPos c' = nCurrentPos c + 188 * length (b # qs)"
    if "\<forall>x. 0 < ans x"
    using p that cnt [OF that] by simp
  ultimately show ?thesis
    unfolding loop_post_def using p b by simp
qed

lemma makeTsLoop_tape:
  assumes "loop_pre a pid c ps"
  shows "\<exists>r qs c' l' ok'. makeTsLoop (tape ans) pid kp (ps, ms) c l ok = Inr (r, (ps @ qs, ms), c', l', ok') \<and>
    loop_post ans a pid c ps qs c' r (l' - l) (ok' \<or> \<not> ok) \<and> l \<le> l'"
  using assms
proof (induction "length (pESData (pes c)) - nPos (pes c)" arbitrary: c ps l ok rule: less_induct)
  case less
  show ?case
  proof (cases "nPos (pes c) = length (pESData (pes c))")
    case True
    have "c\<lparr>pes := pes c, tsPacket := tsPacket c\<rparr> = c" by simp
    then have "makeTsLoop (tape ans) pid kp (ps, ms) c l ok = Inr (0, (ps @ [], ms), c, l, ok)"
      by (subst makeTsLoop.simps) (simp add: LinkGetPESData_end [OF True])
    moreover have "loop_post ans a pid c ps [] c 0 (l - l) (ok \<or> \<not> ok)"
      using loop_post_nil [OF less.prems True] by simp
    ultimately show ?thesis by blast
  next
    case False
    then have more: "nPos (pes c) < length (pESData (pes c))"
      using less.prems by (simp add: loop_pre_def)
    show ?thesis
    proof (rule loop_step [OF less.prems more])
    fix b m n
    assume step: "\<And>ans ms kp l ok. makeTsLoop (tape ans) pid kp (ps, ms) c l ok =
         (let nRet = ans (ps @ [b]); c' = c\<lparr>pes := (pes c)\<lparr>nPos := nPos (pes c) + n\<rparr>, pidCounterMap := m, tsPacket := b\<rparr>
          in if nRet < 0 then Inr (nRet, (ps @ [b], ms), c', l, ok)
             else if 0 < nRet then makeTsLoop (tape ans) pid kp (ps @ [b], ms) (c'\<lparr>nCurrentPos := nCurrentPos c + 188\<rparr>) (l + 188) ok
             else makeTsLoop (tape ans) pid kp (ps @ [b], ms) (c'\<lparr>nCurrentPos := kp\<rparr>) l False)"
      and n: "0 < n" "nPos (pes c) + n \<le> length (pESData (pes c))" and b: "ts_pid b = pid"
      and acc: "\<And>acc. nPos (pes c) = 0 \<or> acc \<noteq> [] \<Longrightarrow>
         rest_of ((pes c)\<lparr>nPos := nPos (pes c) + n\<rparr>) (demux_step pid acc b) = rest_of (pes c) acc \<and>
         demux_step pid acc b \<noteq> []"
      and pre: "\<And>k. loop_pre a pid (c\<lparr>pes := (pes c)\<lparr>nPos := nPos (pes c) + n\<rparr>, pidCounterMap := m,
             tsPacket := b, nCurrentPos := k\<rparr>) (ps @ [b])"
    let ?c = "\<lambda>k. c\<lparr>pes := (pes c)\<lparr>nPos := nPos (pes c) + n\<rparr>, pidCounterMap := m, tsPacket := b, nCurrentPos := k\<rparr>"
    have IH: "\<exists>r qs c' l'' ok''. makeTsLoop (tape ans) pid kp (ps @ [b], ms) (?c k) l' ok' =
          Inr (r, ((ps @ [b]) @ qs, ms), c', l'', ok'') \<and>
        loop_post ans a pid (?c k) (ps @ [b]) qs c' r (l'' - l') (ok'' \<or> \<not> ok') \<and> l' \<le> l''" for k l' ok'
      using less.hyps [OF _ pre, of k] n more by simp
    show ?thesis
    proof (cases "ans (ps @ [b]) < 0")
      case True
      then have "\<not> (\<forall>x. 0 \<le> ans x)" "\<not> (\<forall>x. 0 < ans x)"
        using linorder_not_less less_asym by blast+
      moreover have "mux_inv a (?c (nCurrentPos c)) (ps @ [b])"
        using pre [of "nCurrentPos c"] by (simp add: loop_pre_def)
      ultimately have "loop_post ans a pid c ps [b] (?c (nCurrentPos c)) (ans (ps @ [b])) (l - l) (ok \<or> \<not> ok)"
        using less.prems b unfolding loop_post_def by (auto simp: loop_pre_def)
      then show ?thesis
        using True by (intro exI [of _ "ans (ps @ [b])"] exI [of _ "[b]"] exI [of _ "?c (nCurrentPos c)"]
            exI [of _ l] exI [of _ ok]) (simp add: step Let_def)
    next
      case False
      define k l1 ok1 where "k = (if 0 < ans (ps @ [b]) then nCurrentPos c + 188 else kp)"
        and "l1 = (if 0 < ans (ps @ [b]) then l + 188 else l)" and "ok1 = (0 < ans (ps @ [b]) \<and> ok)"
      obtain r qs c' l' ok' where rec: "makeTsLoop (tape ans) pid kp (ps @ [b], ms) (?c k) l1 ok1 =
            Inr (r, ((ps @ [b]) @ qs, ms), c', l', ok')"
          and post: "loop_post ans a pid (?c k) (ps @ [b]) qs c' r (l' - l1) (ok' \<or> \<not> ok1)" and le: "l1 \<le> l'"
        using IH by blast
      have "makeTsLoop (tape ans) pid kp (ps, ms) c l ok = Inr (r, (ps @ b # qs, ms), c', l', ok')"
        using rec False unfolding step Let_def k_def l1_def ok1_def by (cases "0 < ans (ps @ [b])") auto
      moreover have "loop_post ans a pid c ps (b # qs) c' r (l' - l) (ok' \<or> \<not> ok)"
        by (rule loop_post_Cons [OF post b]) (use acc le in \<open>auto simp: k_def l1_def ok1_def\<close>)
      moreover have "l \<le> l'" using le by (simp add: l1_def split: if_splits)
      ultimately show ?thesis by blast
    qed
    qed
  qed
qed


text \<open>\<open>frame_done\<close> is what one frame leaves, with the info sent to the key frame callback.\<close>

definition frame_done ::
    "(bytes list \<Rightarrow> int) \<Rightarrow> LinkTsMuxerArg \<Rightarrow> int \<Rightarrow> LinkTsMuxerContext \<Rightarrow> recording \<Rightarrow> bool \<Rightarrow> int
      \<Rightarrow> bytes list \<Rightarrow> int \<times> recording \<times> LinkTsMuxerContext \<Rightarrow> bool" where
  "frame_done ans a pid c s key pts qs res =
     (case (s, res) of ((ps, ms), r, (ps', ms'), c') \<Rightarrow>
      ps' = ps @ qs \<and> mux_inv a c' ps' \<and> isTableWrited c' \<and> nPcrFlag c' = nPcrFlag c \<and>
      (\<forall>q \<in> set qs. ts_pid q = pid) \<and>
      ((\<forall>x. 0 \<le> ans x) \<longrightarrow> r = 0 \<and>
        (\<forall>acc. foldl (demux_step pid) acc qs = acc @ [pes_header (pes c) @ pESData (pes c)])) \<and>
      ((\<forall>x. 0 < ans x) \<longrightarrow> nCurrentPos c' = nCurrentPos c + 188 * length qs \<and>
        ms' = ms @ (if key then [\<lparr>nTimestamp90Khz = pts, nOffset = nCurrentPos c, nLength = 188 * length qs\<rparr>] else [])))"

lemma makeTsPacket_tape:
  assumes pre: "loop_pre a pid c ps" and new: "nPos (pes c) = 0" "pESData (pes c) \<noteq> []"
  shows "\<exists>qs res. makeTsPacket (tape ans) tape_meta (ps, ms) c pid pts key = Inr res \<and>
    frame_done ans a pid c (ps, ms) key pts qs res"
proof -
  obtain r qs c' l ok where loop: "makeTsLoop (tape ans) pid (nCurrentPos c) (ps, ms) c 0 True = Inr (r, (ps @ qs, ms), c', l, ok)"
    and post: "loop_post ans a pid c ps qs c' r l ok"
    using makeTsLoop_tape [OF pre, of ans "nCurrentPos c" ms 0 True] by auto
  let ?ms = "if r < 0 \<or> \<not> (key \<and> ok) then ms
    else ms @ [\<lparr>nTimestamp90Khz = pts, nOffset = nCurrentPos c, nLength = l\<rparr>]"
  have run: "makeTsPacket (tape ans) tape_meta (ps, ms) c pid pts key = Inr (if r < 0 then r else 0, (ps @ qs, ?ms), c')"
    using loop by (simp add: makeTsPacket_def Let_def tape_meta_def)
  have acc: "foldl (demux_step pid) acc qs = acc @ [pes_header (pes c) @ pESData (pes c)]"
    if "\<forall>x. 0 \<le> ans x" for acc
    using post that new unfolding loop_post_def by (simp add: rest_of_def)
  have pos: "r = 0 \<and> ok \<and> l = 188 * length qs \<and> nCurrentPos c' = nCurrentPos c + 188 * length qs"
    if "\<forall>x. 0 < ans x"
    using post that less_imp_le unfolding loop_post_def by blast
  have zero: "r = 0" if "\<forall>x. 0 \<le> ans x"
    using post that unfolding loop_post_def by blast
  have "frame_done ans a pid c (ps, ms) key pts qs (if r < 0 then r else 0, (ps @ qs, ?ms), c')"
    unfolding frame_done_def prod.case
    using post acc pos zero unfolding loop_post_def by simp
  then show ?thesis using run by blast
qed

subsection \<open>Runs of the multiplexer\<close>

datatype mux_op = MuxAudio bytes int | MuxVideo bytes int bool

fun mux_step :: "(bytes list \<Rightarrow> int) \<Rightarrow> recording \<Rightarrow> LinkTsMuxerContext \<Rightarrow> mux_op
    \<Rightarrow> (int \<times> recording \<times> LinkTsMuxerContext) run" where
  "mux_step ans s c (MuxAudio d t) = LinkMuxerAudio (tape ans) tape_meta s c d t"
| "mux_step ans s c (MuxVideo d t k) = LinkMuxerVideo (tape ans) tape_meta s c d t k"

fun mux_run :: "(bytes list \<Rightarrow> int) \<Rightarrow> recording \<Rightarrow> LinkTsMuxerContext \<Rightarrow> mux_op list
    \<Rightarrow> (recording \<times> LinkTsMuxerContext) run" where
  "mux_run ans s c [] = Inr (s, c)"
| "mux_run ans s c (p # ops) = and_then (mux_step ans s c p) (\<lambda>(_, s, c). mux_run ans s c ops)"

text \<open>
  The frames the callers send: not empty, an audio frame within the 16 bit length of a PES
  packet, and the first video frame (the one with the PCR) long enough to fill its packet.
\<close>

fun ops_ok :: "LinkTsMuxerArg \<Rightarrow> bool \<Rightarrow> mux_op list \<Rightarrow> bool" where
  "ops_ok a first [] = True"
| "ops_ok a first (MuxAudio d t # ops) = (d \<noteq> [] \<and> length d \<le> 65527 \<and> ops_ok a first ops)"
| "ops_ok a first (MuxVideo d t k # ops) =
     (d \<noteq> [] \<and> (first \<longrightarrow> 162 \<le> length (aud (nVideoFormat a)) + length d) \<and> ops_ok a False ops)"

fun op_pes :: "LinkTsMuxerArg \<Rightarrow> mux_op \<Rightarrow> LinkPES" where
  "op_pes a (MuxAudio d t) =
     (if nAudioFormat a = LINK_AUDIO_AAC then LinkInitAudioPES d t else LinkInitPrivateTypePES d t)"
| "op_pes a (MuxVideo d t k) = LinkInitVideoPES (nVideoFormat a) d t"

definition frame_unit :: "LinkTsMuxerArg \<Rightarrow> mux_op \<Rightarrow> bytes" where
  "frame_unit a p = pes_header (op_pes a p) @ pESData (op_pes a p)"

fun op_pid :: "mux_op \<Rightarrow> int" where
  "op_pid (MuxAudio d t) = LINK_AUDIO_PID"
| "op_pid (MuxVideo d t k) = LINK_VIDEO_PID"

fun is_key :: "mux_op \<Rightarrow> bool" where
  "is_key (MuxAudio d t) = False"
| "is_key (MuxVideo d t k) = k"

fun op_pts :: "mux_op \<Rightarrow> int" where
  "op_pts (MuxAudio d t) = t"
| "op_pts (MuxVideo d t k) = t"

definition frame_slice :: "LinkKeyFrameMetaInfo \<Rightarrow> bytes list \<Rightarrow> bytes list" where
  "frame_slice m ps = take (nLength m div 188) (drop (nOffset m div 188) ps)"

text \<open>What one call adds: tables the first time, then the packets of the frame.\<close>

definition step_done ::
    "(bytes list \<Rightarrow> int) \<Rightarrow> LinkTsMuxerArg \<Rightarrow> LinkTsMuxerContext \<Rightarrow> recording \<Rightarrow> mux_op
      \<Rightarrow> bytes list \<Rightarrow> bytes list \<Rightarrow> int \<times> recording \<times> LinkTsMuxerContext \<Rightarrow> bool" where
  "step_done ans a c s p tabs qs res =
     (case (s, res) of ((ps, ms), r, (ps', ms'), c') \<Rightarrow>
      ps' = ps @ tabs @ qs \<and> mux_inv a c' ps' \<and> isTableWrited c' \<and>
      (nPcrFlag c' = 0) = (nPcrFlag c = 0 \<and> op_pid p = LINK_AUDIO_PID) \<and>
      (\<forall>q \<in> set tabs. ts_pid q = LINK_PAT_PID \<or> ts_pid q = LINK_PMT_PID) \<and>
      (\<forall>q \<in> set qs. ts_pid q = op_pid p) \<and>
      ((\<forall>x. 0 \<le> ans x) \<longrightarrow> r = 0 \<and>
        (\<forall>acc. foldl (demux_step (op_pid p)) acc qs = acc @ [frame_unit a p])) \<and>
      ((\<forall>x. 0 < ans x) \<and> (isTableWrited c \<longrightarrow> nCurrentPos c = 188 * length ps) \<longrightarrow>
        nCurrentPos c' = 188 * length ps' \<and>
        ms' = ms @ (if is_key p then [\<lparr>nTimestamp90Khz = op_pts p * 90,
          nOffset = 188 * length (ps @ tabs), nLength = 188 * length qs\<rparr>] else [])))"

lemma pes_header_pcr: "pes_header (LinkInitVideoPESWithPcr f d t) = pes_header (LinkInitVideoPES f d t)"
  by (simp add: pes_header_def writePESHeaderJustWithPts_def LinkInitVideoPESWithPcr_def Let_def)

lemma pESData_pcr: "pESData (LinkInitVideoPESWithPcr f d t) = pESData (LinkInitVideoPES f d t)"
  by (simp add: LinkInitVideoPESWithPcr_def)

lemma stream_pids: "LINK_AUDIO_PID \<in> set Pids" "LINK_VIDEO_PID \<in> set Pids"
  by (simp_all add: Pids_def)

lemma header_len_aud: "getPESHeaderJustWithPtsLen p = 14 + length (aud (videoFormat p))"
  by (simp add: getPESHeaderJustWithPtsLen_def aud_def split: LinkVideoFormat.splits)

lemma mux_step_tape:
  assumes inv: "mux_inv a c ps" and a: "has_stream a" and ok: "ops_ok a (nPcrFlag c = 0) [p]"
  shows "\<exists>tabs qs res. mux_step ans (ps, ms) c p = Inr res \<and> step_done ans a c (ps, ms) p tabs qs res"
proof -
  obtain tabs c1 where tab: "writeTable (tape ans) (ps, ms) c 0 = Inr ((ps @ tabs, ms), c1)"
    and inv1: "mux_inv a c1 (ps @ tabs)" "isTableWrited c1" "nPcrFlag c1 = nPcrFlag c"
    and pids: "\<forall>q \<in> set tabs. ts_pid q = LINK_PAT_PID \<or> ts_pid q = LINK_PMT_PID"
    and cur: "if isTableWrited c then nCurrentPos c1 = nCurrentPos c \<and> tabs = []
       else nCurrentPos c1 = 188 * length tabs"
    using writeTable_tape [OF inv a, of ans ms] by blast
  define c2 where "c2 = (case p of MuxAudio d t \<Rightarrow> c1\<lparr>pes := op_pes a p\<rparr>
    | MuxVideo d t k \<Rightarrow> (if nPcrFlag c = 0 then c1\<lparr>nPcrFlag := 1, pes := LinkInitVideoPESWithPcr (nVideoFormat a) d t\<rparr>
        else c1\<lparr>pes := op_pes a p\<rparr>))"
  have run: "mux_step ans (ps, ms) c p =
      makeTsPacket (tape ans) tape_meta (ps @ tabs, ms) c2 (op_pid p) (op_pts p * 90) (is_key p)"
    using tab inv1 by (cases p)
      (auto simp: LinkMuxerAudio_def LinkMuxerVideo_def Let_def c2_def mux_inv_def initPes_def
        LinkInitAudioPES_def LinkInitPrivateTypePES_def LinkInitVideoPES_def LinkInitVideoPESWithPcr_def)
  have pre: "loop_pre a (op_pid p) c2 (ps @ tabs)" "nPos (pes c2) = 0" "pESData (pes c2) \<noteq> []"
    using inv1 ok stream_pids by (cases p;
      auto simp: c2_def loop_pre_def mux_inv_def pes_ok_def pcr_fits_def initPes_def aud_def
        LinkInitAudioPES_def LinkInitPrivateTypePES_def LinkInitVideoPES_def LinkInitVideoPESWithPcr_def
        header_len_aud)+
  have pes: "pes_header (pes c2) @ pESData (pes c2) = frame_unit a p"
    by (cases p) (auto simp: c2_def frame_unit_def pes_header_pcr pESData_pcr)
  have c2: "nCurrentPos c2 = nCurrentPos c1" "isTableWrited c2"
      "(nPcrFlag c2 = 0) = (nPcrFlag c = 0 \<and> op_pid p = LINK_AUDIO_PID)"
    using inv1 by (cases p; auto simp: c2_def)+
  obtain qs res where res: "makeTsPacket (tape ans) tape_meta (ps @ tabs, ms) c2 (op_pid p) (op_pts p * 90) (is_key p) = Inr res"
    and fd: "frame_done ans a (op_pid p) c2 (ps @ tabs, ms) (is_key p) (op_pts p * 90) qs res"
    using makeTsPacket_tape [OF pre] by blast
  obtain r ps' ms' c' where r: "res = (r, (ps', ms'), c')"
    by (cases res) auto
  have cur2: "nCurrentPos c1 = 188 * length (ps @ tabs)" if "isTableWrited c \<longrightarrow> nCurrentPos c = 188 * length ps"
    using cur that inv by (auto simp: mux_inv_def split: if_splits)
  have "step_done ans a c (ps, ms) p tabs qs res"
    using fd pids cur2 c2(2,3) unfolding step_done_def frame_done_def r prod.case pes c2(1) by auto
  then show ?thesis using run res by auto
qed


text \<open>
  \<open>run_inv\<close> relates what has been sent, \<open>done\<close>, to what was recorded.
\<close>

definition run_inv ::
    "(bytes list \<Rightarrow> int) \<Rightarrow> LinkTsMuxerArg \<Rightarrow> mux_op list \<Rightarrow> bytes list \<Rightarrow> LinkKeyFrameMetaInfo list
      \<Rightarrow> LinkTsMuxerContext \<Rightarrow> bool" where
  "run_inv ans a sent ps ms c =
     (mux_inv a c ps \<and>
      ((\<forall>x. 0 \<le> ans x) \<longrightarrow> (\<forall>pid \<in> {LINK_VIDEO_PID, LINK_AUDIO_PID}.
         demux pid ps = map (frame_unit a) (filter (\<lambda>p. op_pid p = pid) sent))) \<and>
      ((\<forall>x. 0 < ans x) \<longrightarrow> (isTableWrited c \<longrightarrow> nCurrentPos c = 188 * length ps) \<and>
         map nTimestamp90Khz ms = map (\<lambda>p. op_pts p * 90) (filter is_key sent) \<and>
         map (\<lambda>m. demux LINK_VIDEO_PID (frame_slice m ps)) ms =
           map (\<lambda>p. [frame_unit a p]) (filter is_key sent) \<and>
         (\<forall>m \<in> set ms. nOffset m div 188 + nLength m div 188 \<le> length ps)))"

lemma op_pid_cases: "op_pid p = LINK_VIDEO_PID \<or> op_pid p = LINK_AUDIO_PID"
  by (cases p) auto

lemma key_is_video: "is_key p \<Longrightarrow> op_pid p = LINK_VIDEO_PID"
  by (cases p) auto

lemma frame_slice_append:
  "nOffset m div 188 + nLength m div 188 \<le> length ps \<Longrightarrow> frame_slice m (ps @ qs) = frame_slice m ps"
  by (simp add: frame_slice_def)

lemma step_done_demux:
  assumes sd: "step_done ans a c (ps, ms) p tabs qs res" and ans: "\<forall>x. 0 \<le> ans x"
    and pid: "pid \<in> {LINK_VIDEO_PID, LINK_AUDIO_PID}"
  shows "demux pid (ps @ tabs @ qs) = demux pid ps @ (if op_pid p = pid then [frame_unit a p] else [])"
proof -
  have tabs: "foldl (demux_step pid) acc tabs = acc" for acc
    using sd pid by (intro demux_other) (fastforce simp: step_done_def split: prod.splits)
  show ?thesis
  proof (cases "op_pid p = pid")
    case True
    then have "foldl (demux_step pid) acc qs = acc @ [frame_unit a p]" for acc
      using sd ans by (auto simp: step_done_def split: prod.splits)
    then show ?thesis using True by (simp add: demux_append tabs)
  next
    case False
    then have "foldl (demux_step pid) acc qs = acc" for acc
      using sd by (intro demux_other) (auto simp: step_done_def split: prod.splits)
    then show ?thesis using False by (simp add: demux_append tabs)
  qed
qed

lemma run_inv_step:
  assumes inv: "run_inv ans a sent ps ms c" and sd: "step_done ans a c (ps, ms) p tabs qs (r, (ps', ms'), c')"
  shows "run_inv ans a (sent @ [p]) ps' ms' c'"
proof -
  have ps': "ps' = ps @ tabs @ qs" and mi: "mux_inv a c' ps'"
    using sd by (auto simp: step_done_def)
  have dm: "demux pid ps' = map (frame_unit a) (filter (\<lambda>p. op_pid p = pid) (sent @ [p]))"
    if "\<forall>x. 0 \<le> ans x" "pid \<in> {LINK_VIDEO_PID, LINK_AUDIO_PID}" for pid
    using step_done_demux [OF sd that] inv that unfolding run_inv_def ps' by auto
  have pos: "(isTableWrited c' \<longrightarrow> nCurrentPos c' = 188 * length ps') \<and>
      map nTimestamp90Khz ms' = map (\<lambda>p. op_pts p * 90) (filter is_key (sent @ [p])) \<and>
      map (\<lambda>m. demux LINK_VIDEO_PID (frame_slice m ps')) ms' =
        map (\<lambda>p. [frame_unit a p]) (filter is_key (sent @ [p])) \<and>
      (\<forall>m \<in> set ms'. nOffset m div 188 + nLength m div 188 \<le> length ps')" if all: "\<forall>x. 0 < ans x"
  proof -
    have nn: "\<forall>x. 0 \<le> ans x" using all less_imp_le by blast
    let ?m = "\<lparr>nTimestamp90Khz = op_pts p * 90, nOffset = 188 * length (ps @ tabs), nLength = 188 * length qs\<rparr>"
    have old: "isTableWrited c \<longrightarrow> nCurrentPos c = 188 * length ps"
        "map nTimestamp90Khz ms = map (\<lambda>p. op_pts p * 90) (filter is_key sent)"
        "map (\<lambda>m. demux LINK_VIDEO_PID (frame_slice m ps)) ms = map (\<lambda>p. [frame_unit a p]) (filter is_key sent)"
        "\<forall>m \<in> set ms. nOffset m div 188 + nLength m div 188 \<le> length ps"
      using inv all by (simp_all add: run_inv_def)
    have new: "nCurrentPos c' = 188 * length ps'" "ms' = ms @ (if is_key p then [?m] else [])"
      using sd all old(1) by (simp_all add: step_done_def)
    have slices: "map (\<lambda>m. demux LINK_VIDEO_PID (frame_slice m ps')) ms =
        map (\<lambda>m. demux LINK_VIDEO_PID (frame_slice m ps)) ms"
      using old(4) by (simp add: ps' frame_slice_append)
    have "demux LINK_VIDEO_PID qs = [frame_unit a p]" if "is_key p"
      using sd nn key_is_video [OF that] by (simp add: step_done_def demux_def)
    moreover have "frame_slice ?m ps' = qs"
      by (simp add: frame_slice_def ps')
    ultimately show ?thesis
      using new old slices by (auto simp: ps')
  qed
  show ?thesis
    unfolding run_inv_def using mi dm pos by blast
qed

lemma mux_run_tape:
  assumes "run_inv ans a sent ps ms c" and "has_stream a" and "ops_ok a (nPcrFlag c = 0) ops"
  shows "\<exists>ps' ms' c'. mux_run ans (ps, ms) c ops = Inr ((ps', ms'), c') \<and>
    run_inv ans a (sent @ ops) ps' ms' c'"
  using assms
proof (induction ops arbitrary: sent ps ms c)
  case Nil
  then show ?case by simp
next
  case (Cons p ops)
  have one: "ops_ok a (nPcrFlag c = 0) [p]"
    using Cons.prems(3) by (cases p) auto
  obtain tabs qs r ps' ms' c' where st: "mux_step ans (ps, ms) c p = Inr (r, (ps', ms'), c')"
    and sd: "step_done ans a c (ps, ms) p tabs qs (r, (ps', ms'), c')"
    using mux_step_tape [OF _ Cons.prems(2) one, of ps ans ms] Cons.prems(1)
    unfolding run_inv_def by (metis prod.exhaust)
  have flag: "(nPcrFlag c' = 0) = (nPcrFlag c = 0 \<and> op_pid p = LINK_AUDIO_PID)"
    using sd by (simp add: step_done_def)
  have "ops_ok a (nPcrFlag c' = 0) ops"
    using Cons.prems(3) flag by (cases p) auto
  from Cons.IH [OF run_inv_step [OF Cons.prems(1) sd] Cons.prems(2) this]
  show ?case using st by simp
qed

lemma run_inv_fresh: "run_inv ans a [] [] [] (freshContext a)"
  by (auto simp: run_inv_def mux_inv_def freshContext_def cc_inv_def Pids_def counters_of_def
      count_mod_16_def demux_def intro: exI [of _ 0])

text \<open>
  C1: Whatever audio and video frames are multiplexed, in any order, a receiver that
  reassembles the packets of a stream gets back exactly the frames of that stream, in order:
  each as its PES header with time stamp followed by its data, byte by byte. The callback may count
  packets as accepted or not, it must only not report an error.
\<close>

theorem frames_survive_muxing:
  assumes "has_stream a" and "ops_ok a True ops" and "\<forall>x. 0 \<le> ans x"
  shows "\<exists>ps ms c. mux_run ans ([], []) (freshContext a) ops = Inr ((ps, ms), c) \<and>
    demux LINK_VIDEO_PID ps = map (frame_unit a) (filter (\<lambda>p. op_pid p = LINK_VIDEO_PID) ops) \<and>
    demux LINK_AUDIO_PID ps = map (frame_unit a) (filter (\<lambda>p. op_pid p = LINK_AUDIO_PID) ops)"
  using mux_run_tape [OF run_inv_fresh, of a ops ans] assms
  by (auto simp: run_inv_def freshContext_def)

theorem frames_survive_muxing_witness:
  "\<exists>ps ms c. mux_run (\<lambda>_. 0) ([], [])
       (freshContext \<lparr>nAudioFormat = LINK_AUDIO_AAC, nAudioSampleRate = 8000, nAudioChannels = 1,
          nVideoFormat = LINK_VIDEO_H264\<rparr>)
       [MuxAudio [1, 2, 3] 5, MuxVideo (replicate 400 7) 40 True] = Inr ((ps, ms), c) \<and>
     demux LINK_VIDEO_PID ps = [pes_header (LinkInitVideoPES LINK_VIDEO_H264 (replicate 400 7) 40) @ replicate 400 7]"
  using frames_survive_muxing [of "\<lparr>nAudioFormat = LINK_AUDIO_AAC, nAudioSampleRate = 8000,
      nAudioChannels = 1, nVideoFormat = LINK_VIDEO_H264\<rparr>"
      "[MuxAudio [1, 2, 3] 5, MuxVideo (replicate 400 7) 40 True]" "\<lambda>_. 0"]
  by (auto simp: has_stream_def frame_unit_def LinkInitVideoPES_def initPes_def simp del: mux_run.simps)

text \<open>
  C4: Over any run from a fresh context, even one whose callback reports errors, the packets of each PID carry the continuity
  counters 0, 1, 2, ... modulo 16 without a gap, table packets included.
\<close>

theorem continuity_counters_count:
  assumes "has_stream a" and "ops_ok a True ops" and "pid \<in> set Pids"
  shows "\<exists>ps ms c. mux_run ans ([], []) (freshContext a) ops = Inr ((ps, ms), c) \<and>
    counters_of pid ps = count_mod_16 (length (counters_of pid ps))"
proof -
  have len: "length (count_mod_16 n) = n" for n
    by (simp add: count_mod_16_def)
  obtain ps ms c where "mux_run ans ([], []) (freshContext a) ops = Inr ((ps, ms), c)"
      and "run_inv ans a ops ps ms c"
    using mux_run_tape [OF run_inv_fresh, of a ops ans] assms by (auto simp: freshContext_def)
  then show ?thesis
    using assms(3) len by (fastforce simp: run_inv_def mux_inv_def cc_inv_def)
qed

theorem continuity_counters_count_witness:
  "\<exists>ps ms c. mux_run (\<lambda>_. -1) ([], [])
       (freshContext \<lparr>nAudioFormat = LINK_AUDIO_PCMU, nAudioSampleRate = 8000, nAudioChannels = 1,
          nVideoFormat = LINK_VIDEO_NONE\<rparr>) [MuxAudio [1, 2, 3] 5] = Inr ((ps, ms), c) \<and>
     counters_of LINK_AUDIO_PID ps = count_mod_16 (length (counters_of LINK_AUDIO_PID ps))"
  by (rule continuity_counters_count) (auto simp: has_stream_def Pids_def)




subsection \<open>What the tables say\<close>

text \<open>
  \<open>psi_section\<close> is the section in a table packet, up to and with its CRC; \<open>pmt_streams\<close> are the
  stream types and PIDs a PMT section lists.
\<close>

definition psi_section :: "bytes \<Rightarrow> bytes" where
  "psi_section b = (let s = drop 1 (payload_of b) in take (3 + unat (s ! 2)) s)"

fun es_loop :: "bytes \<Rightarrow> (u8 \<times> int) list" where
  "es_loop (t # p1 # p0 # l1 # l0 # r) =
     (t, uint (p1 AND 0x1F) * 256 + uint p0) # es_loop (drop (unat l0) r)"
| "es_loop r = []"

definition pmt_streams :: "bytes \<Rightarrow> (u8 \<times> int) list" where
  "pmt_streams s = es_loop (take (length s - 16) (drop 12 s))"

lemma tablePacket_exact:
  "length buf = 188 \<Longrightarrow> length t \<le> 188 \<Longrightarrow> n = int (length t) \<Longrightarrow>
   tablePacket (n, t) buf = Inr (t @ replicate (188 - length t) 0xff)"
  by (simp add: tablePacket_def write_at_def overwrite_def)

lemma writeTable_fresh:
  assumes pat: "tablePacket (LinkWritePAT True 0 1) (replicate 188 0) = Inr b1"
    and pmt: "LinkWritePMT True 0 1 (videoStreamType (nVideoFormat a)) (audioStreamType (nAudioFormat a))
      (g711Type (nAudioFormat a)) (nAudioSampleRate a) = Inr t" "tablePacket t b1 = Inr b2"
  shows "\<exists>c. writeTable (tape ans) ([], []) (freshContext a) 0 = Inr (([b1, b2], []), c)"
  using assms
  by (simp add: writeTable_def freshContext_def getPidCounter_def Pids_def Let_def tape_eq)

definition pat_body :: bytes where
  "pat_body = [0, 0x80, 0x0d, 0x00, 0x01, 0xC1, 0, 0, 0, 0x01, 0xF0, 0x00]"

lemma pat_packet:
  "tablePacket (LinkWritePAT True 0 1) (replicate 188 0) =
     Inr (ts_header True 0 0 1 @ [0] @ pat_body @ crc_bytes (crc32 pat_body) @ replicate 167 0xff)"
proof -
  have "LinkWritePAT True 0 1 = (21, ts_header True 0 0 1 @ [0] @ pat_body @ crc_bytes (crc32 pat_body))"
    by (simp add: LinkWritePAT_def Let_def LinkWriteTsHeader_eq withPointer_def pat_body_def)
  then show ?thesis
    by (simp only:, subst tablePacket_exact) (simp_all add: pat_body_def crc_bytes_def)
qed

lemma table_payload:
  "length r = 183 \<Longrightarrow> payload_of (ts_header True 0 pid 1 @ [0] @ r) = 0 # r"
  using ts_payload_plain [of 0 "0 # r" True pid] by (simp add: payload_of_def)

lemma psi_section_eq:
  assumes "length (body @ crc_bytes k @ r) = 183" and "4 \<le> length body" and "3 + unat (body ! 2) = length body + 4"
  shows "psi_section (ts_header True 0 pid 1 @ [0] @ body @ crc_bytes k @ r) = body @ crc_bytes k"
proof -
  have "(body @ crc_bytes k @ r) ! 2 = body ! 2"
    using assms by (simp add: nth_append)
  then show ?thesis
    using table_payload [OF assms(1), of pid] assms by (simp add: psi_section_def Let_def crc_bytes_def)
qed

abbreviation pmt_of :: "LinkTsMuxerArg \<Rightarrow> bytes" where
  "pmt_of a \<equiv> pmtBody (videoStreamType (nVideoFormat a)) (audioStreamType (nAudioFormat a))
     (g711Type (nAudioFormat a)) (nAudioSampleRate a)"

definition both_streams :: "LinkTsMuxerArg \<Rightarrow> bool" where
  "both_streams a = (nVideoFormat a \<noteq> LINK_VIDEO_NONE \<and> nAudioFormat a \<noteq> LINK_AUDIO_NONE)"

lemma pmt_body_shape:
  assumes "both_streams a"
  shows "length (pmt_of a) \<le> 28" and "12 \<le> length (pmt_of a)"
    and "3 + unat (pmt_of a ! 2) = length (pmt_of a) + 4"
  using assms
  by (auto simp: both_streams_def videoStreamType_def audioStreamType_def pmtBody_def pmtVideo_def
      pmtAudio_def Let_def split: LinkVideoFormat.splits LinkAudioFormat.splits)

lemma pmt_body_streams:
  assumes "both_streams a"
  shows "pmt_streams (pmt_of a @ crc_bytes k) =
    [(word_of_int (videoStreamType (nVideoFormat a)), LINK_VIDEO_PID),
     (word_of_int (audioStreamType (nAudioFormat a)), LINK_AUDIO_PID)]"
  using assms
  by (auto simp: both_streams_def videoStreamType_def audioStreamType_def pmtBody_def pmtVideo_def
      pmtAudio_def Let_def pmt_streams_def crc_bytes_def
      split: LinkVideoFormat.splits LinkAudioFormat.splits)

lemma pmt_packet:
  assumes "both_streams a" and "length b = 188"
  shows "\<exists>t. LinkWritePMT True 0 1 (videoStreamType (nVideoFormat a)) (audioStreamType (nAudioFormat a))
       (g711Type (nAudioFormat a)) (nAudioSampleRate a) = Inr t \<and>
     tablePacket t b = Inr (ts_header True 0 LINK_PMT_PID 1 @ [0] @ pmt_of a @ crc_bytes (crc32 (pmt_of a)) @
       replicate (179 - length (pmt_of a)) 0xff)"
proof -
  let ?t = "ts_header True 0 LINK_PMT_PID 1 @ [0] @ pmt_of a @ crc_bytes (crc32 (pmt_of a))"
  have types: "videoStreamType (nVideoFormat a) \<noteq> 0" "audioStreamType (nAudioFormat a) \<noteq> 0"
    using assms by (auto simp: both_streams_def videoStreamType_def audioStreamType_def
        split: LinkVideoFormat.splits LinkAudioFormat.splits)
  then have "LinkWritePMT True 0 1 (videoStreamType (nVideoFormat a)) (audioStreamType (nAudioFormat a))
       (g711Type (nAudioFormat a)) (nAudioSampleRate a) = Inr (int (length ?t), ?t)"
    by (simp add: LinkWritePMT_def Let_def LinkWriteTsHeader_eq withPointer_def crc_bytes_def)
  moreover have "tablePacket (int (length ?t), ?t) b = Inr (?t @ replicate (188 - length ?t) 0xff)"
    using assms pmt_body_shape [OF assms(1)] by (intro tablePacket_exact) (simp_all add: crc_bytes_def)
  ultimately show ?thesis
    by (simp add: crc_bytes_def)
qed

text \<open>
  C7: With an audio and a video stream, the first call writes two packets whose sections are
  complete: the CRC over each section is right (running it over the section with its CRC bytes
  gives zero), the PAT points to the PMT's PID, and the PMT lists the two
  stream types of the formats with their PIDs.
\<close>

theorem program_tables_valid:
  assumes "both_streams a"
  shows "\<exists>pat pmt c. writeTable (tape ans) ([], []) (freshContext a) 0 = Inr (([pat, pmt], []), c) \<and>
    crc32 (psi_section pat) = 0 \<and> crc32 (psi_section pmt) = 0 \<and>
    ts_pid pat = LINK_PAT_PID \<and> ts_pid pmt = LINK_PMT_PID \<and>
    uint (psi_section pat ! 10 AND 0x1F) * 256 + uint (psi_section pat ! 11) = LINK_PMT_PID \<and>
    pmt_streams (psi_section pmt) =
      [(word_of_int (videoStreamType (nVideoFormat a)), LINK_VIDEO_PID),
       (word_of_int (audioStreamType (nAudioFormat a)), LINK_AUDIO_PID)]"
proof -
  let ?pat = "ts_header True 0 0 1 @ [0] @ pat_body @ crc_bytes (crc32 pat_body) @ replicate 167 0xff"
  let ?pmt = "ts_header True 0 LINK_PMT_PID 1 @ [0] @ pmt_of a @ crc_bytes (crc32 (pmt_of a)) @
       replicate (179 - length (pmt_of a)) 0xff"
  note shape = pmt_body_shape [OF assms]
  have "length ?pat = 188" by (simp add: pat_body_def crc_bytes_def)
  then obtain c where run: "writeTable (tape ans) ([], []) (freshContext a) 0 = Inr (([?pat, ?pmt], []), c)"
    using pmt_packet [OF assms] writeTable_fresh [OF pat_packet] by blast
  have "psi_section ?pat = pat_body @ crc_bytes (crc32 pat_body)"
    by (rule psi_section_eq) (simp_all add: pat_body_def crc_bytes_def)
  moreover have "psi_section ?pmt = pmt_of a @ crc_bytes (crc32 (pmt_of a))"
    using shape by (intro psi_section_eq) (simp_all add: crc_bytes_def)
  moreover have "(pat_body @ k) ! 10 = 0xF0" "(pat_body @ k) ! 11 = 0" for k
    by (simp_all add: pat_body_def)
  moreover have "ts_pid ?pat = 0" "ts_pid ?pmt = LINK_PMT_PID"
    by (simp_all add: ts_pid_header)
  ultimately show ?thesis
    using run pmt_body_streams [OF assms]
    by (intro exI [of _ ?pat] exI [of _ ?pmt] exI [of _ c]) (simp only: crc32_residue, simp)
qed

theorem program_tables_valid_witness:
  "\<exists>pat pmt c. writeTable (tape (\<lambda>_. 0)) ([], []) (freshContext \<lparr>nAudioFormat = LINK_AUDIO_PCMA,
      nAudioSampleRate = 8000, nAudioChannels = 1, nVideoFormat = LINK_VIDEO_H265\<rparr>) 0 =
      Inr (([pat, pmt], []), c) \<and>
    crc32 (psi_section pmt) = 0 \<and> pmt_streams (psi_section pmt) = [(0x24, 0x100), (0x06, 0x101)]"
  using program_tables_valid [of "\<lparr>nAudioFormat = LINK_AUDIO_PCMA, nAudioSampleRate = 8000,
      nAudioChannels = 1, nVideoFormat = LINK_VIDEO_H265\<rparr>" "\<lambda>_. 0"]
  by (auto simp: both_streams_def videoStreamType_def audioStreamType_def)


subsection \<open>A stream with one kind of frame\<close>

lemma tablePacket_short:
  "length buf = 188 \<Longrightarrow> length t = n + 5 \<Longrightarrow> length t \<le> 188 \<Longrightarrow>
   tablePacket (int n, t) buf = Inr (take n t @ replicate (188 - n) 0xff)"
  by (simp add: tablePacket_def write_at_def overwrite_def)

lemma replicate_167: "replicate 167 x = [x, x, x, x, x] @ replicate 162 x"
  by (simp add: numeral_eq_Suc)

definition video_only :: "LinkVideoFormat \<Rightarrow> LinkTsMuxerArg" where
  "video_only f = \<lparr>nAudioFormat = LINK_AUDIO_NONE, nAudioSampleRate = 0, nAudioChannels = 0,
     nVideoFormat = f\<rparr>"

text \<open>
  With a video stream alone the PMT the code sends is broken: \<open>LinkWritePMT\<close> returns five
  bytes less than it wrote, so padding the packet erases the last body byte and the
  CRC, and a receiver that checks the CRC rejects the table.
\<close>

theorem video_only_pmt_crc_wrong:
  "\<exists>pat pmt c. writeTable (tape ans) ([], []) (freshContext (video_only LINK_VIDEO_H264)) 0 =
      Inr (([pat, pmt], []), c) \<and> crc32 (psi_section pat) = 0 \<and> crc32 (psi_section pmt) \<noteq> 0"
proof -
  let ?a = "video_only LINK_VIDEO_H264"
  let ?pat = "ts_header True 0 0 1 @ [0] @ pat_body @ crc_bytes (crc32 pat_body) @ replicate 167 0xff"
  let ?body = "[0x02, 0x80, 18, 0x00, 0x01, 0xC1, 0, 0, 0xE1, 0x00, 0xF0, 0x00, 0x1b, 0xE1, 0x00, 0xF0] :: bytes"
  let ?pmt = "ts_header True 0 LINK_PMT_PID 1 @ [0] @ (?body @ [0xff]) @ crc_bytes 0xffffffff @ replicate 162 0xff"
  let ?t = "ts_header True 0 LINK_PMT_PID 1 @ [0] @ ?body @ [0] @ crc_bytes (crc32 (?body @ [0]))"
  have t: "LinkWritePMT True 0 1 (videoStreamType (nVideoFormat ?a)) (audioStreamType (nAudioFormat ?a))
      (g711Type (nAudioFormat ?a)) (nAudioSampleRate ?a) = Inr (int 21, ?t)"
    by (simp add: LinkWritePMT_def video_only_def videoStreamType_def audioStreamType_def pmtBody_def
        pmtVideo_def pmtAudio_def Let_def LinkWriteTsHeader_eq withPointer_def)
  have "length ?pat = 188" by (simp add: pat_body_def crc_bytes_def)
  then have pmt: "tablePacket (int 21, ?t) ?pat = Inr ?pmt"
    by (subst tablePacket_short) (simp_all add: crc_bytes_def ts_header_def replicate_167)
  obtain c where run: "writeTable (tape ans) ([], []) (freshContext ?a) 0 = Inr (([?pat, ?pmt], []), c)"
    using writeTable_fresh [OF pat_packet t pmt] by blast
  have "psi_section ?pat = pat_body @ crc_bytes (crc32 pat_body)"
    by (rule psi_section_eq) (simp_all add: pat_body_def crc_bytes_def)
  then have pat_ok: "crc32 (psi_section ?pat) = 0" by (simp only: crc32_residue)
  have "psi_section ?pmt = (?body @ [0xff]) @ crc_bytes 0xffffffff"
    by (rule psi_section_eq) (simp_all add: crc_bytes_def)
  then have "crc32 (psi_section ?pmt) \<noteq> 0"
    by (simp add: crc32_def crc_step_def crc_table_def crc_bytes_def)
  then show ?thesis using run pat_ok by blast
qed

end
