(* ===== verification/Base64.thy ===== *)
theory Base64
  imports Prelude
begin

section \<open>URL-safe base64 (deps/b64/urlsafe_b64.c)\<close>

text \<open>
  The encoder and decoder the uploader uses for session ids, signatures and the key frame
  table. A routine that fills a buffer is modelled by the bytes it writes; \<open>dest = None\<close>
  is a null destination, for which only the size is computed.
\<close>

datatype B64_RC = B64_RC_OK | B64_RC_INSUFFICIENT_BUFFER | B64_RC_TRUNCATED_INPUT | B64_RC_DATA_ERROR

definition b64_chars :: bytes where
  "b64_chars = [
   65, 66, 67, 68, 69, 70, 71, 72, 73, 74, 75, 76, 77, 78, 79, 80,
   81, 82, 83, 84, 85, 86, 87, 88, 89, 90, 97, 98, 99, 100, 101, 102,
   103, 104, 105, 106, 107, 108, 109, 110, 111, 112, 113, 114, 115, 116, 117, 118,
   119, 120, 121, 122, 48, 49, 50, 51, 52, 53, 54, 55, 56, 57, 45, 95]"

definition b64_indexes :: "int list" where
  "b64_indexes = [
   -1, -1, -1, -1, -1, -1, -1, -1, -1, -1, -1, -1, -1, -1, -1, -1,
   -1, -1, -1, -1, -1, -1, -1, -1, -1, -1, -1, -1, -1, -1, -1, -1,
   -1, -1, -1, -1, -1, -1, -1, -1, -1, -1, -1, 62, -1, 62, -1, 63,
   52, 53, 54, 55, 56, 57, 58, 59, 60, 61, -1, -1, -1, -1, -1, -1,
   -1, 0, 1, 2, 3, 4, 5, 6, 7, 8, 9, 10, 11, 12, 13, 14,
   15, 16, 17, 18, 19, 20, 21, 22, 23, 24, 25, -1, -1, -1, -1, 63,
   -1, 26, 27, 28, 29, 30, 31, 32, 33, 34, 35, 36, 37, 38, 39, 40,
   41, 42, 43, 44, 45, 46, 47, 48, 49, 50, 51, -1, -1, -1, -1, -1,
   -1, -1, -1, -1, -1, -1, -1, -1, -1, -1, -1, -1, -1, -1, -1, -1,
   -1, -1, -1, -1, -1, -1, -1, -1, -1, -1, -1, -1, -1, -1, -1, -1,
   -1, -1, -1, -1, -1, -1, -1, -1, -1, -1, -1, -1, -1, -1, -1, -1,
   -1, -1, -1, -1, -1, -1, -1, -1, -1, -1, -1, -1, -1, -1, -1, -1,
   -1, -1, -1, -1, -1, -1, -1, -1, -1, -1, -1, -1, -1, -1, -1, -1,
   -1, -1, -1, -1, -1, -1, -1, -1, -1, -1, -1, -1, -1, -1, -1, -1,
   -1, -1, -1, -1, -1, -1, -1, -1, -1, -1, -1, -1, -1, -1, -1, -1,
   -1, -1, -1, -1, -1, -1, -1, -1, -1, -1, -1, -1, -1, -1, -1, -1]"

subsection \<open>Encoding\<close>

definition enc_indexes :: "u8 \<Rightarrow> u8 \<Rightarrow> u8 \<Rightarrow> u8 list" where
  "enc_indexes a b c =
     [drop_bit 2 (a AND 0xfc), push_bit 4 (a AND 0x03) + drop_bit 4 (b AND 0xf0),
      push_bit 2 (b AND 0x0f) + drop_bit 6 (c AND 0xc0), c AND 0x3f]"

definition enc_chars :: "u8 \<Rightarrow> u8 \<Rightarrow> u8 \<Rightarrow> bytes" where
  "enc_chars a b c = map (\<lambda>i. b64_chars ! unat i) (enc_indexes a b c)"

text \<open>
  The loop over whole groups of three bytes: \<open>pos\<close> is \<open>p - dest\<close>, \<open>len\<close> the length of the current
  line. It returns what it wrote and the bytes left over.
\<close>

fun enc_loop :: "nat \<Rightarrow> nat \<Rightarrow> nat \<Rightarrow> nat \<Rightarrow> bytes \<Rightarrow> (bytes \<times> bytes) run" where
  "enc_loop lineLen destLen pos len (a # b # c # src) =
     (if \<exists>i \<in> set (enc_indexes a b c). 64 \<le> i then Inl Assertion_failed
      else if len + 1 = lineLen \<or> len + 2 = lineLen \<or> len + 3 = lineLen then Inl Assertion_failed
      else
        let crlf = (len + 4 = lineLen \<and> pos + 4 \<noteq> destLen) in
        and_then (enc_loop lineLen destLen (pos + 4 + (if crlf then 2 else 0))
                    (if crlf then 0 else len + 4) src) (\<lambda>(out, rest).
          Inr (enc_chars a b c @ (if crlf then [13, 10] else []) @ out, rest)))"
| "enc_loop lineLen destLen pos len rest = Inr ([], rest)"

text \<open>The overspill: the left-over bytes boosted to three, and \<open>=\<close> for the missing characters.\<close>

definition enc_tail :: "bytes \<Rightarrow> bytes" where
  "enc_tail rest =
     (case rest of [a] \<Rightarrow> take 2 (enc_chars a 0 0) @ [61, 61]
      | [a, b] \<Rightarrow> take 3 (enc_chars a b 0) @ [61]
      | _ \<Rightarrow> [])"

definition urlsafe_b64_encode_raw ::
    "bytes \<Rightarrow> nat option \<Rightarrow> nat \<Rightarrow> (B64_RC \<times> nat \<times> bytes) run" where
  "urlsafe_b64_encode_raw src dest lineLen =
     (let total = ((length src + 2) div 3) * 4;
          numLines = (total + (lineLen - 1)) div lineLen;
          total = (if 0 < lineLen then total + 2 * (if numLines = 0 then 0 else numLines - 1) else total)
      in case dest of
           None \<Rightarrow> Inr (B64_RC_OK, total, [])
         | Some destLen \<Rightarrow>
             if destLen < total then Inr (B64_RC_INSUFFICIENT_BUFFER, 0, [])
             else and_then (enc_loop lineLen destLen 0 0 src) (\<lambda>(out, rest).
                    Inr (B64_RC_OK, total, out @ enc_tail rest)))"

definition urlsafe_b64_encode :: "bytes \<Rightarrow> nat option \<Rightarrow> (nat \<times> bytes) run" where
  "urlsafe_b64_encode src dest =
     and_then (urlsafe_b64_encode_raw src dest 0) (\<lambda>(_, n, out). Inr (n, out))"

datatype line_len = LINE_LEN_USE_PARAM | LINE_LEN_64 | LINE_LEN_76 | LINE_LEN_INFINITE

definition urlsafe_b64_encode2 ::
    "bytes \<Rightarrow> nat option \<Rightarrow> line_len \<Rightarrow> int \<Rightarrow> (B64_RC \<times> nat \<times> bytes) run" where
  "urlsafe_b64_encode2 src dest flags lineLen =
     (let lineLen = (case flags of LINE_LEN_USE_PARAM \<Rightarrow> (if 0 \<le> lineLen then lineLen else 64)
        | LINE_LEN_64 \<Rightarrow> 64 | LINE_LEN_76 \<Rightarrow> 76 | LINE_LEN_INFINITE \<Rightarrow> 0)
      in if lineLen mod 4 \<noteq> 0 then Inl Assertion_failed
         else urlsafe_b64_encode_raw src dest (nat lineLen))"

subsection \<open>Decoding\<close>

record b64_flags =
  STOP_ON_UNKNOWN_CHAR :: bool
  STOP_ON_UNEXPECTED_WS :: bool

definition dec_bytes :: "u8 list \<Rightarrow> nat \<Rightarrow> bytes" where
  "dec_bytes ix numPads =
     [push_bit 2 (ix ! 0) + drop_bit 4 (ix ! 1 AND 0x30)] @
     (if numPads \<noteq> 2 then
        [push_bit 4 (ix ! 1 AND 0x0f) + drop_bit 2 (ix ! 2 AND 0x3c)] @
        (if numPads \<noteq> 1 then [push_bit 6 (ix ! 2 AND 0x03) + ix ! 3] else [])
      else [])"

text \<open>
  The loop over the characters: the indexes collected so far (\<open>currIndex\<close> is their number) and
  the padding count. It returns the bytes, or the position of the bad character.
\<close>

fun dec_loop :: "b64_flags \<Rightarrow> nat \<Rightarrow> u8 list \<Rightarrow> nat \<Rightarrow> bytes \<Rightarrow> nat + bytes" where
  "dec_loop f pos ix numPads [] = Inr []"
| "dec_loop f pos ix numPads (ch # src) =
     (let i = b64_indexes ! unat ch in
      if ch \<noteq> 61 \<and> i = -1 then
        (if ch = 32 \<or> ch = 9 \<or> ch = 8 \<or> ch = 11 then
           (if STOP_ON_UNEXPECTED_WS f then Inl pos else dec_loop f (pos + 1) ix numPads src)
         else if ch = 13 \<or> ch = 10 then dec_loop f (pos + 1) ix numPads src
         else if STOP_ON_UNKNOWN_CHAR f then Inl pos
         else dec_loop f (pos + 1) ix numPads src)
      else
        let ix = ix @ [if ch = 61 then 0 else word_of_int i];
            numPads = (if ch = 61 then numPads + 1 else 0)
        in if length ix = 4 then
             (if numPads \<noteq> 0 then Inr (dec_bytes ix numPads)
              else map_sum id ((@) (dec_bytes ix numPads)) (dec_loop f (pos + 1) [] numPads src))
           else dec_loop f (pos + 1) ix numPads src)"

definition urlsafe_b64_decode_raw ::
    "bytes \<Rightarrow> nat option \<Rightarrow> b64_flags \<Rightarrow> B64_RC \<times> nat \<times> bytes \<times> nat option" where
  "urlsafe_b64_decode_raw src dest f =
     (let maxTotal = (length src div 4 + (if length src mod 4 \<noteq> 0 then 1 else 0)) * 3
      in case dest of
           None \<Rightarrow> (B64_RC_OK, maxTotal, [], None)
         | Some destSize \<Rightarrow>
             if destSize < maxTotal then (B64_RC_INSUFFICIENT_BUFFER, 0, [], None)
             else (case dec_loop f 0 [] 0 src of
                     Inl bad \<Rightarrow> (B64_RC_DATA_ERROR, 0, [], Some bad)
                   | Inr out \<Rightarrow> (B64_RC_OK, length out, out, None)))"

definition urlsafe_b64_decode :: "bytes \<Rightarrow> nat option \<Rightarrow> nat \<times> bytes" where
  "urlsafe_b64_decode src dest =
     (case urlsafe_b64_decode_raw src dest \<lparr>STOP_ON_UNKNOWN_CHAR = False, STOP_ON_UNEXPECTED_WS = False\<rparr>
      of (_, n, out, _) \<Rightarrow> (n, out))"

definition urlsafe_b64_decode2 ::
    "bytes \<Rightarrow> nat option \<Rightarrow> b64_flags \<Rightarrow> B64_RC \<times> nat \<times> bytes \<times> nat option" where
  "urlsafe_b64_decode2 src dest f = urlsafe_b64_decode_raw src dest f"

subsection \<open>The round trip\<close>

text \<open>The two tables are inverse to each other on the 64 characters, none of which is \<open>=\<close>.\<close>

definition char_ok :: "nat \<Rightarrow> bool" where
  "char_ok i = (b64_chars ! i \<noteq> 61 \<and> b64_indexes ! unat (b64_chars ! i) = int i)"

fun all_below :: "nat \<Rightarrow> (nat \<Rightarrow> bool) \<Rightarrow> bool" where
  "all_below 0 P = True"
| "all_below (Suc n) P = (P n \<and> all_below n P)"

lemma all_below_iff: "all_below n P = (\<forall>i < n. P i)"
  by (induction n) (auto simp: less_Suc_eq)

lemma tables_checked: "all_below 64 char_ok"
  by code_simp

lemma tables_inverse:
  assumes "w < (64 :: u8)"
  shows "b64_chars ! unat w \<noteq> 61" and "b64_indexes ! unat (b64_chars ! unat w) = int (unat w)"
proof -
  have "unat w < 64" using assms by (simp add: word_less_nat_alt)
  then have "char_ok (unat w)" using tables_checked by (simp add: all_below_iff)
  then show "b64_chars ! unat w \<noteq> 61" "b64_indexes ! unat (b64_chars ! unat w) = int (unat w)"
    by (simp_all add: char_ok_def)
qed


lemma byte_index_cases:
  "n < LENGTH(8) \<Longrightarrow> n = 0 \<or> n = 1 \<or> n = 2 \<or> n = 3 \<or> n = 4 \<or> n = 5 \<or> n = 6 \<or> n = 7"
  by auto

lemma enc_indexes_or:
  "enc_indexes a b c =
     [drop_bit 2 (a AND 0xfc), push_bit 4 (a AND 0x03) OR drop_bit 4 (b AND 0xf0),
      push_bit 2 (b AND 0x0f) OR drop_bit 6 (c AND 0xc0), c AND 0x3f]"
proof -
  have "push_bit 4 (a AND 0x03) AND drop_bit 4 (b AND 0xf0) = 0"
    by (rule bit_word_eqI, drule byte_index_cases) (auto simp: bit_simps)
  moreover have "push_bit 2 (b AND 0x0f) AND drop_bit 6 (c AND 0xc0) = 0"
    by (rule bit_word_eqI, drule byte_index_cases) (auto simp: bit_simps)
  ultimately show ?thesis
    by (simp add: enc_indexes_def disjunctive_add_eq_or)
qed

lemma small_word:
  fixes w :: u8
  assumes "\<not> bit w 6" and "\<not> bit w 7"
  shows "w < 64"
proof -
  have "w = take_bit 6 w"
    by (rule bit_word_eqI, drule byte_index_cases) (use assms in \<open>auto simp: bit_take_bit_iff\<close>)
  then have "unat w = take_bit 6 (unat w)"
    by (metis unsigned_take_bit_eq)
  also have "\<dots> < 2 ^ 6" by (rule take_bit_nat_less_exp)
  finally show ?thesis by (simp add: word_less_nat_alt)
qed

lemma enc_indexes_small: "i \<in> set (enc_indexes a b c) \<Longrightarrow> i < 64"
  by (rule small_word) (auto simp: enc_indexes_or bit_simps)

text \<open>Putting the four indexes together again gives the three bytes.\<close>

lemma dec_bytes_or:
  "dec_bytes [i0, i1, i2, i3] n =
     [push_bit 2 i0 OR drop_bit 4 (i1 AND 0x30)] @
     (if n \<noteq> 2 then
        [push_bit 4 (i1 AND 0x0f) OR drop_bit 2 (i2 AND 0x3c)] @
        (if n \<noteq> 1 then [push_bit 6 (i2 AND 0x03) + i3] else [])
      else [])"
proof -
  have "push_bit 2 i0 AND drop_bit 4 (i1 AND 0x30) = 0"
    by (rule bit_word_eqI, drule byte_index_cases) (auto simp: bit_simps)
  moreover have "push_bit 4 (i1 AND 0x0f) AND drop_bit 2 (i2 AND 0x3c) = 0"
    by (rule bit_word_eqI, drule byte_index_cases) (auto simp: bit_simps)
  ultimately show ?thesis
    by (simp add: dec_bytes_def disjunctive_add_eq_or)
qed

lemma dec_enc_bytes: "dec_bytes (enc_indexes a b c) n = take (3 - (if n = 1 \<or> n = 2 then n else 0)) [a, b, c]"
proof -
  let ?i1 = "push_bit 4 (a AND 0x03) OR drop_bit 4 (b AND 0xf0)"
  let ?i2 = "push_bit 2 (b AND 0x0f) OR drop_bit 6 (c AND 0xc0)"
  have d: "push_bit 6 (?i2 AND 0x03) AND (c AND 0x3f) = 0"
    by (rule bit_word_eqI, drule byte_index_cases) (auto simp: bit_simps)
  have e1: "push_bit 2 (drop_bit 2 (a AND 0xfc)) OR drop_bit 4 (?i1 AND 0x30) = a"
    by (rule bit_word_eqI, drule byte_index_cases) (auto simp: bit_simps simp flip: numeral_2_eq_2)
  have e2: "push_bit 4 (?i1 AND 0x0f) OR drop_bit 2 (?i2 AND 0x3c) = b"
    by (rule bit_word_eqI, drule byte_index_cases) (auto simp: bit_simps simp flip: numeral_2_eq_2)
  have "push_bit 6 (?i2 AND 0x03) OR (c AND 0x3f) = c"
    by (rule bit_word_eqI, drule byte_index_cases) (auto simp: bit_simps simp flip: numeral_2_eq_2)
  then have e3: "push_bit 6 (?i2 AND 0x03) + (c AND 0x3f) = c"
    by (simp only: disjunctive_add_eq_or [OF d])
  show ?thesis
    unfolding enc_indexes_or dec_bytes_or e1 e2 e3 by simp
qed


lemma length_enc_chars: "length (enc_chars a b c) = 4"
  by (simp add: enc_chars_def enc_indexes_def)

lemma dec_index:
  assumes "w < (64 :: u8)"
  shows "b64_indexes ! unat (b64_chars ! unat w) \<noteq> -1" and "b64_chars ! unat w \<noteq> 61"
    and "(word_of_int (b64_indexes ! unat (b64_chars ! unat w)) :: u8) = w"
proof -
  have "(-1 :: int) < int (unat w)"
    by (rule less_le_trans [OF _ of_nat_0_le_iff]) simp
  then show "b64_indexes ! unat (b64_chars ! unat w) \<noteq> -1"
    unfolding tables_inverse(2) [OF assms] by (rule less_imp_neq [symmetric])
qed (simp_all add: tables_inverse [OF assms])

text \<open>Decoding a whole group, and a group that padding makes the last.\<close>

lemma dec_loop_char:
  assumes "w < (64 :: u8)" and "length ix < 3"
  shows "dec_loop f pos ix n ((b64_chars ! unat w) # src) = dec_loop f (pos + 1) (ix @ [w]) 0 src"
  using dec_index [OF assms(1)] assms(2) by (simp add: Let_def)

lemma dec_loop_char_last:
  assumes "w < (64 :: u8)" and "length ix = 3"
  shows "dec_loop f pos ix n ((b64_chars ! unat w) # src) =
    map_sum id ((@) (dec_bytes (ix @ [w]) 0)) (dec_loop f (pos + 1) [] 0 src)"
  using dec_index [OF assms(1)] assms(2) by (simp add: Let_def)

lemma dec_loop_pad: "length ix < 3 \<Longrightarrow>
   dec_loop f pos ix n (61 # src) = dec_loop f (pos + 1) (ix @ [0]) (n + 1) src"
  by (simp add: Let_def)

lemma dec_loop_pad_last: "length ix = 3 \<Longrightarrow>
   dec_loop f pos ix n (61 # src) = Inr (dec_bytes (ix @ [0]) (n + 1))"
  by (simp add: Let_def)

lemma enc_indexes_4:
  obtains i0 i1 i2 i3 where "enc_indexes a b c = [i0, i1, i2, i3]"
    "i0 < 64" "i1 < 64" "i2 < 64" "i3 < 64"
  using enc_indexes_small [of _ a b c] by (simp add: enc_indexes_def)

lemma dec_loop_group:
  "dec_loop f pos [] 0 (enc_chars a b c @ src) = map_sum id ((@) [a, b, c]) (dec_loop f (Suc (Suc (Suc (Suc pos)))) [] 0 src)"
proof -
  obtain i0 i1 i2 i3 where i: "enc_indexes a b c = [i0, i1, i2, i3]"
    "i0 < 64" "i1 < 64" "i2 < 64" "i3 < 64"
    by (rule enc_indexes_4)
  show ?thesis
    using i(2-5) dec_enc_bytes [of a b c 0] unfolding enc_chars_def i(1)
    by (simp add: dec_loop_char dec_loop_char_last del: dec_loop.simps)
qed

lemma dec_loop_tail_1: "dec_loop f pos [] 0 (take 2 (enc_chars a 0 0) @ [61, 61]) = Inr [a]"
proof -
  obtain i0 i1 i2 i3 where i: "enc_indexes a 0 0 = [i0, i1, i2, i3]"
    "i0 < 64" "i1 < 64" "i2 < 64" "i3 < 64"
    by (rule enc_indexes_4)
  have z: "i2 = 0" "i3 = 0" using i(1) by (simp_all add: enc_indexes_def)
  show ?thesis
    using i(2-5) dec_enc_bytes [of a 0 0 2] unfolding enc_chars_def i(1) z
    by (simp add: dec_loop_char dec_loop_pad dec_loop_pad_last del: dec_loop.simps flip: numeral_2_eq_2)
qed

lemma dec_loop_tail_2: "dec_loop f pos [] 0 (take 3 (enc_chars a b 0) @ [61]) = Inr [a, b]"
proof -
  obtain i0 i1 i2 i3 where i: "enc_indexes a b 0 = [i0, i1, i2, i3]"
    "i0 < 64" "i1 < 64" "i2 < 64" "i3 < 64"
    by (rule enc_indexes_4)
  have z: "i3 = 0" using i(1) by (simp add: enc_indexes_def)
  show ?thesis
    using i(2-5) dec_enc_bytes [of a b 0 1] unfolding enc_chars_def i(1) z
    by (simp add: dec_loop_char dec_loop_pad_last del: dec_loop.simps)
qed

fun enc_all :: "bytes \<Rightarrow> bytes" where
  "enc_all (a # b # c # src) = enc_chars a b c @ enc_all src"
| "enc_all rest = enc_tail rest"

lemma enc_loop_all: "\<exists>out rest. enc_loop 0 d pos len src = Inr (out, rest) \<and> out @ enc_tail rest = enc_all src"
proof (induction src arbitrary: pos len rule: enc_all.induct)
  case (1 a b c src)
  have "\<not> (\<exists>i \<in> set (enc_indexes a b c). 64 \<le> i)"
    using enc_indexes_small by (fastforce simp: not_le)
  then show ?case
    using "1.IH" [of "pos + 4" "len + 4"] by (auto simp: Let_def)
qed auto

lemma length_enc_all: "length (enc_all src) = ((length src + 2) div 3) * 4"
proof (induction src rule: enc_all.induct)
  case (1 a b c src)
  have "(length src + 5) div 3 = Suc ((length src + 2) div 3)"
    by presburger
  then show ?case using 1 by (simp add: length_enc_chars add.commute)
qed (auto simp: enc_tail_def length_enc_chars)

lemma dec_enc_all: "dec_loop f pos [] 0 (enc_all src) = Inr src"
proof (induction src arbitrary: pos rule: enc_all.induct)
  case (1 a b c src)
  then show ?case by (simp add: dec_loop_group del: dec_loop.simps)
qed (simp_all add: enc_tail_def dec_loop_tail_1 dec_loop_tail_2 del: dec_loop.simps, simp)

lemma urlsafe_b64_encode_all:
  assumes "((length src + 2) div 3) * 4 \<le> n"
  shows "urlsafe_b64_encode src (Some n) = Inr (((length src + 2) div 3) * 4, enc_all src)"
proof -
  obtain out rest where "enc_loop 0 n 0 0 src = Inr (out, rest)" "out @ enc_tail rest = enc_all src"
    using enc_loop_all by blast
  then show ?thesis
    using assms by (simp add: urlsafe_b64_encode_def urlsafe_b64_encode_raw_def Let_def)
qed

text \<open>
  C10: Encoding any bytes into a buffer of the size the encoder computes never fails, writes
  exactly that many characters, none of them outside the URL-safe alphabet, and decoding them gives the bytes back.
\<close>

theorem base64_roundtrip:
  assumes "urlsafe_b64_encode src None = Inr (n, [])" and "n \<le> m" and "length src + 2 \<le> k"
  shows "\<exists>out. urlsafe_b64_encode src (Some m) = Inr (n, out) \<and> length out = n \<and>
    urlsafe_b64_decode out (Some k) = (length src, src)"
proof -
  have n: "n = ((length src + 2) div 3) * 4"
    using assms(1) by (simp add: urlsafe_b64_encode_def urlsafe_b64_encode_raw_def Let_def)
  have len: "length (enc_all src) = n"
    by (simp add: length_enc_all n)
  have "(n div 4 + (if n mod 4 \<noteq> 0 then 1 else 0)) * 3 \<le> k"
    using assms(3) div_times_less_eq_dividend [of "length src + 2" 3] by (simp add: n)
  then have "urlsafe_b64_decode (enc_all src) (Some k) = (length src, src)"
    by (simp add: urlsafe_b64_decode_def urlsafe_b64_decode_raw_def Let_def len dec_enc_all)
  then show ?thesis
    using urlsafe_b64_encode_all [of src m] assms(2) len n by simp
qed

theorem base64_roundtrip_witness:
  "\<exists>out. urlsafe_b64_encode [1, 2, 255, 254] (Some 8) = Inr (8, out) \<and>
     urlsafe_b64_decode out (Some 6) = (4, [1, 2, 255, 254])"
  using base64_roundtrip [of "[1, 2, 255, 254]" 8 8 6]
  by (auto simp: urlsafe_b64_encode_def urlsafe_b64_encode_raw_def simp del: enc_loop.simps)

end
