(* ===== verification/Session.thy ===== *)
theory Session
  imports Base64
begin

section \<open>Sessions (base.h, tsuploader.c, tsmuxuploader.c)\<close>

text \<open>
  A session is a run of segments reported together. This theory has the session record, the
  identifier derived from its start time (\<open>LinkUpdateSessionId\<close> of tsuploader.c) and the decision,
  at each segment start, whether the session goes on (\<open>updateSegmentId\<close>, \<open>handNewSession\<close> of
  tsmuxuploader.c). Times are nanoseconds and durations milliseconds; both are
  unbounded integers here and 64 bit in the code.
\<close>

subsection \<open>State\<close>

record LinkSession =
  sessionId :: bytes
  nSessionStartTime :: int
  nTsSequenceNumber :: int
  nSessionEndTime :: int
  nLastTsEndTime :: int
  nSessionEndResonCode :: int
  isNewSessionStarted :: int
  coverStatus :: int
  segHandle :: int
  nAccSessionDuration :: int
  nAccSessionAudioDuration :: int
  nAccSessionVideoDuration :: int
  nTotalSessionAudioDuration :: int
  nTotalSessionVideoDuration :: int
  nAudioGapFromLastReport :: int
  nVideoGapFromLastReport :: int
  nTsStartTime :: int
  nTsDuration :: int

definition zeroSession :: LinkSession where
  "zeroSession = \<lparr>sessionId = replicate 21 0, nSessionStartTime = 0, nTsSequenceNumber = 0,
     nSessionEndTime = 0, nLastTsEndTime = 0, nSessionEndResonCode = 0, isNewSessionStarted = 0,
     coverStatus = 0, segHandle = 0, nAccSessionDuration = 0, nAccSessionAudioDuration = 0,
     nAccSessionVideoDuration = 0, nTotalSessionAudioDuration = 0, nTotalSessionVideoDuration = 0,
     nAudioGapFromLastReport = 0, nVideoGapFromLastReport = 0, nTsStartTime = 0, nTsDuration = 0\<rparr>"

record LinkSessionMeta =
  metaPairs :: "(bytes \<times> bytes) list"
  isOneShot :: bool

record SessionUpdateParam =
  nUpdateType :: int
  nSeqNum :: int
  updSessionId :: bytes

text \<open>
  What the multiplexing uploader keeps about the current session (\<open>uploadArgBak\<close>, \<open>sessionId\<close>,
  \<open>segmentHandle\<close>, two fields of \<open>remoteConfig\<close>), with the messages it sends: \<open>updates\<close>
  to the token thread, \<open>reports\<close> to the segment manager through \<open>LinkUpdateSegment\<close>.
\<close>

record SessionKeeper =
  nSegmentId :: int
  nSegSeqNum :: int
  nLastCheckTime :: int
  keeperSessionId :: bytes
  segmentHandle :: int
  nSessionDuration :: int
  nSessionTimeout :: int
  updates :: "SessionUpdateParam list"
  reports :: "(int \<times> LinkSession \<times> LinkSessionMeta option) list"

subsection \<open>Numbers as text\<close>

text \<open>C's integer division truncates towards zero.\<close>

definition c_div :: "int \<Rightarrow> int \<Rightarrow> int" where
  "c_div a b = sgn a * sgn b * (\<bar>a\<bar> div \<bar>b\<bar>)"

lemma c_div_pos: "0 \<le> a \<Longrightarrow> 0 < b \<Longrightarrow> c_div a b = a div b"
  by (cases "a = 0") (simp_all add: c_div_def)

fun digits :: "nat \<Rightarrow> bytes" where
  "digits n = (if n < 10 then [of_nat (48 + n)] else digits (n div 10) @ [of_nat (48 + n mod 10)])"

declare digits.simps [simp del]

definition print_int :: "int \<Rightarrow> bytes" where
  "print_int n = (if n < 0 then 45 # digits (nat (- n)) else digits (nat n))"

definition c_string :: "bytes \<Rightarrow> bytes" where
  "c_string b = takeWhile (\<lambda>x. x \<noteq> 0) b"

text \<open>\<open>"text"\<close> as bytes.\<close>

definition chars :: "string \<Rightarrow> bytes" where
  "chars s = map of_char s"

text \<open>\<open>snprintf (dst, 21, "%s", src)\<close> with its assertion that nothing is cut off.\<close>

definition copy_id :: "bytes \<Rightarrow> bytes run" where
  "copy_id src = (let s = c_string src in
     if length s < 21 then Inr (s @ replicate (21 - length s) 0) else Inl Assertion_failed)"

subsection \<open>The session identifier\<close>

text \<open>
  The loop that cuts the padding off: it looks at the last character written, so with nothing
  written (the encoder found the buffer too small) it reads in front of the buffer.
\<close>

fun strip_padding :: "nat \<Rightarrow> bytes \<Rightarrow> bytes run" where
  "strip_padding 0 b = Inl Out_of_bounds"
| "strip_padding (Suc n) b =
     (if b ! n = 61 then strip_padding n (b[n := 0]) else Inr b)"

definition LinkUpdateSessionId :: "LinkSession \<Rightarrow> int \<Rightarrow> LinkSession run" where
  "LinkUpdateSessionId s nTsStartSystime =
     (let str = print_int (c_div nTsStartSystime 1000000) in
      and_then (write_at 0 (str @ [0]) (replicate 20 0)) (\<lambda>_.
      and_then (urlsafe_b64_encode str (Some 21)) (\<lambda>(nId, out).
      and_then (write_at 0 out (sessionId s)) (\<lambda>b.
      and_then (strip_padding nId b) (\<lambda>b.
        Inr (s\<lparr>sessionId := b, nSessionStartTime := nTsStartSystime, nTsSequenceNumber := 0,
          isNewSessionStarted := 1, nAccSessionDuration := nTsDuration s,
          nAccSessionAudioDuration := nAudioGapFromLastReport s,
          nAccSessionVideoDuration := nVideoGapFromLastReport s,
          nTotalSessionAudioDuration := nAudioGapFromLastReport s,
          nTotalSessionVideoDuration := nVideoGapFromLastReport s, nSessionEndTime := 0\<rparr>))))))"

subsection \<open>Going on with a session or starting a new one\<close>

definition send_update :: "SessionUpdateParam \<Rightarrow> 'z SessionKeeper_scheme \<Rightarrow> 'z SessionKeeper_scheme" where
  "send_update u k = k\<lparr>updates := updates k @ [u]\<rparr>"

definition LinkUpdateSegment_call ::
    "int \<Rightarrow> LinkSession \<Rightarrow> LinkSessionMeta option \<Rightarrow> 'z SessionKeeper_scheme \<Rightarrow> 'z SessionKeeper_scheme" where
  "LinkUpdateSegment_call h s m k = k\<lparr>reports := reports k @ [(h, s, m)]\<rparr>"

definition handNewSession ::
    "'z SessionKeeper_scheme \<Rightarrow> LinkSession \<Rightarrow> int \<Rightarrow> int \<Rightarrow> (LinkSession \<times> 'z SessionKeeper_scheme) run" where
  "handNewSession k s nNewSessionId reason =
     (let s = s\<lparr>segHandle := segmentHandle k, nSessionEndResonCode := reason,
            nSessionEndTime := (if 0 < nLastTsEndTime s then nLastTsEndTime s else nNewSessionId)\<rparr> in
      and_then (LinkUpdateSessionId s nNewSessionId) (\<lambda>s.
      and_then (copy_id (sessionId s)) (\<lambda>sid.
        let k = send_update \<lparr>nUpdateType = 1, nSeqNum = 0, updSessionId = sid\<rparr>
                  (k\<lparr>keeperSessionId := sid\<rparr>)
        in Inr (s\<lparr>isNewSessionStarted := 0\<rparr>,
                k\<lparr>nSegmentId := nSessionStartTime s, nSegSeqNum := 0, nLastCheckTime := nNewSessionId\<rparr>))))"

text \<open>\<open>now\<close> is \<open>LinkGetCurrentNanosecond ()\<close>. The result is the report type, 0, 2 or 5.\<close>

definition updateSegmentId ::
    "int \<Rightarrow> 'z SessionKeeper_scheme \<Rightarrow> LinkSession \<Rightarrow> int \<Rightarrow> int \<Rightarrow> int
       \<Rightarrow> (int \<times> LinkSession \<times> 'z SessionKeeper_scheme) run" where
  "updateSegmentId now k s nTsStartSystime nCurSystime nCurTsDuration =
     (if nSegmentId k = 0 then
        and_then (LinkUpdateSessionId s nTsStartSystime) (\<lambda>s.
        and_then (copy_id (sessionId s)) (\<lambda>sid.
          let k = send_update \<lparr>nUpdateType = 2, nSeqNum = 0, updSessionId = sid\<rparr>
                    (k\<lparr>keeperSessionId := sid\<rparr>);
              k = LinkUpdateSegment_call (segmentHandle k) s None k;
              s = s\<lparr>isNewSessionStarted := 0\<rparr>
          in Inr (0, s, k\<lparr>nLastCheckTime := (if nCurSystime = 0 then nTsStartSystime else nCurSystime),
                          nSegmentId := nSessionStartTime s, nSegSeqNum := 0\<rparr>)))
      else if nCurSystime = 0 then
        and_then (handNewSession (k\<lparr>nLastCheckTime := now\<rparr>) s nTsStartSystime 3) (\<lambda>(s, k).
          Inr (5, s, k))
      else
        let nDuration = nCurSystime - nSegmentId k - nCurTsDuration * 1000000;
            nDiff = nSessionTimeout k * 1000000 + nCurTsDuration * 1000000;
            over = (0 < nSessionDuration k \<and> nSessionDuration k \<le> c_div nDuration 1000000);
            timeout = (0 < nSessionDuration k \<and> \<not> over \<and> 0 < nSessionTimeout k \<and>
                       nDiff \<le> nCurSystime - nLastCheckTime k);
            isSeqNumChange = (0 < nSessionDuration k \<and> \<not> over \<and> \<not> timeout \<and>
                       nSegSeqNum k < nTsSequenceNumber s);
            k = k\<lparr>nSegSeqNum := nTsSequenceNumber s, nLastCheckTime := nCurSystime\<rparr>
        in if over then
             and_then (handNewSession k s nTsStartSystime 1) (\<lambda>(s, k). Inr (5, s, k))
           else if timeout then
             and_then (handNewSession k s nTsStartSystime 2) (\<lambda>(s, k). Inr (5, s, k))
           else if isSeqNumChange then Inr (2, s\<lparr>isNewSessionStarted := 0\<rparr>, k)
           else Inr (0, s, k))"

subsection \<open>Scopes\<close>

definition resetSessionCurrentTsScope :: "LinkSession \<Rightarrow> LinkSession" where
  "resetSessionCurrentTsScope s = s\<lparr>nTsStartTime := 0\<rparr>"

definition resetSessionReportScope :: "LinkSession \<Rightarrow> LinkSession" where
  "resetSessionReportScope s = s\<lparr>nAudioGapFromLastReport := 0, nVideoGapFromLastReport := 0\<rparr>"

definition resetSessionScope :: "LinkSession \<Rightarrow> LinkSession" where
  "resetSessionScope s = (resetSessionReportScope s)
     \<lparr>nAccSessionAudioDuration := 0, nAccSessionVideoDuration := 0\<rparr>"

definition setSessionCoverStatus :: "LinkSession \<Rightarrow> int \<Rightarrow> LinkSession" where
  "setSessionCoverStatus s st =
     (if st = LINK_SUCCESS then s\<lparr>coverStatus := 0\<rparr>
      else if st = LINK_TIMEOUT then s\<lparr>coverStatus := 1\<rparr>
      else if st < 0 then s\<lparr>coverStatus := -2\<rparr>
      else if st < 1000 then s\<lparr>coverStatus := st\<rparr>
      else s)"


subsection \<open>Identifiers are unique\<close>

lemma length_digits: "10 ^ k \<le> n \<Longrightarrow> n < 10 ^ Suc k \<Longrightarrow> length (digits n) = Suc k"
proof (induction k arbitrary: n)
  case 0
  then show ?case by (simp add: digits.simps [of n])
next
  case (Suc k)
  have "10 ^ k \<le> n div 10" "n div 10 < 10 ^ Suc k"
    using Suc.prems by (auto simp: less_eq_div_iff_mult_less_eq div_less_iff_less_mult)
  moreover have "\<not> n < 10"
  proof -
    have "1 \<le> (10 :: nat) ^ k" by simp
    then show ?thesis using Suc.prems(1) by (simp only: power_Suc)
  qed
  ultimately show ?case
    using Suc.IH by (simp add: digits.simps [of n])
qed

lemma length_digits_le: "n < 10 ^ k \<Longrightarrow> 0 < k \<Longrightarrow> length (digits n) \<le> k"
proof (induction k arbitrary: n)
  case 0
  then show ?case by simp
next
  case (Suc k)
  show ?case
  proof (cases "n < 10")
    case True
    then show ?thesis by (simp add: digits.simps [of n])
  next
    case False
    then have "n div 10 < 10 ^ k" "0 < k"
      using Suc.prems by (auto simp: div_less_iff_less_mult intro!: Nat.gr0I)
    then show ?thesis
      using Suc.IH False by (simp add: digits.simps [of n])
  qed
qed

text \<open>A number with at most 19 digits, such as every 64-bit one, prints in 20 characters.\<close>

definition narrow :: "int \<Rightarrow> bool" where
  "narrow v \<longleftrightarrow> \<bar>v\<bar> < 10 ^ 19"

lemma length_print_int: "narrow v \<Longrightarrow> length (print_int v) \<le> 20"
  using length_digits_le [of "nat v" 19] length_digits_le [of "nat (- v)" 19]
  by (auto simp: narrow_def print_int_def nat_less_iff abs_less_iff)

definition digits_value :: "bytes \<Rightarrow> nat" where
  "digits_value ds = foldl (\<lambda>a d. 10 * a + (unat d - 48)) 0 ds"

lemma digits_value_digits: "digits_value (digits n) = n"
proof (induction n rule: digits.induct)
  case (1 n)
  have d: "unat (of_nat (48 + m) :: u8) = 48 + m" if "m < 10" for m
    using that by (simp add: unsigned_of_nat take_bit_nat_eq_self del: of_nat_add)
  show ?case
  proof (cases "n < 10")
    case True
    then show ?thesis using d [of n] by (simp add: digits.simps [of n] digits_value_def)
  next
    case False
    then show ?thesis
      using 1 d [of "n mod 10"] by (simp add: digits.simps [of n] digits_value_def)
  qed
qed

lemma chars_nonzero: "all_below 64 (\<lambda>i. b64_chars ! i \<noteq> 0)"
  by code_simp

lemma enc_chars_plain: "x \<in> set (enc_chars a b c) \<Longrightarrow> x \<noteq> 61 \<and> x \<noteq> 0"
proof -
  assume "x \<in> set (enc_chars a b c)"
  then obtain w where w: "w \<in> set (enc_indexes a b c)" "x = b64_chars ! unat w"
    by (auto simp: enc_chars_def)
  then have "w < 64" by (simp add: enc_indexes_small)
  moreover from this have "unat w < 64" by (simp add: word_less_nat_alt)
  ultimately show ?thesis
    using tables_inverse(1) chars_nonzero w(2) by (simp add: all_below_iff)
qed

lemma enc_all_one:
  "\<exists>body. enc_tail [a] = body @ [61, 61] \<and> body \<noteq> [] \<and> (\<forall>x \<in> set body. x \<noteq> 61 \<and> x \<noteq> 0)"
  using enc_chars_plain [of _ a 0 0] length_enc_chars [of a 0 0]
  by (intro exI [of _ "take 2 (enc_chars a 0 0)"]) (auto simp: enc_tail_def dest: in_set_takeD)

lemma enc_all_padded:
  "length s mod 3 = 1 \<Longrightarrow> \<exists>body. enc_all s = body @ [61, 61] \<and> body \<noteq> [] \<and>
     (\<forall>x \<in> set body. x \<noteq> 61 \<and> x \<noteq> 0)"
proof (induction s rule: enc_all.induct)
  case (1 a b c src)
  then have "length src mod 3 = 1" by (simp add: mod_Suc split: if_splits)
  with "1.IH" obtain body where "enc_all src = body @ [61, 61]" "\<forall>x \<in> set body. x \<noteq> 61 \<and> x \<noteq> 0"
    by blast
  then show ?case
    using enc_chars_plain [of _ a b c] length_enc_chars [of a b c]
    by (intro exI [of _ "enc_chars a b c @ body"]) auto
qed (auto simp: enc_all_one)

lemma strip_padding_two:
  assumes "body \<noteq> []" and "\<forall>x \<in> set body. x \<noteq> 61"
  shows "strip_padding (length body + 2) (body @ [61, 61] @ r) = Inr (body @ [0, 0] @ r)"
proof -
  obtain n where n: "length body = Suc n"
    using assms(1) by (cases body) auto
  have "(body @ [0, 0] @ r) ! n \<noteq> 61"
    using n assms(2) by (simp add: nth_append)
  then have stop: "strip_padding (length body) (body @ [0, 0] @ r) = Inr (body @ [0, 0] @ r)"
    by (simp add: n)
  have "strip_padding (length body + 2) (body @ [61, 61] @ r) =
      strip_padding (length body + 1) (body @ [61, 0] @ r)"
    by (simp add: nth_append list_update_append)
  also have "\<dots> = strip_padding (length body) (body @ [0, 0] @ r)"
    by (simp add: nth_append list_update_append)
  finally show ?thesis using stop by simp
qed

lemma print_ms:
  assumes "10 ^ 18 \<le> t" and "t < 2 ^ 63"
  shows "print_int (c_div t 1000000) = digits (nat (t div 1000000))"
    and "length (digits (nat (t div 1000000))) = 13"
proof -
  have r: "10 ^ 12 \<le> t div 1000000" "t div 1000000 < 10 ^ Suc 12"
    using assms by auto
  then show "print_int (c_div t 1000000) = digits (nat (t div 1000000))"
    using assms by (simp add: print_int_def c_div_pos)
  show "length (digits (nat (t div 1000000))) = 13"
    using r length_digits [of 12 "nat (t div 1000000)"] by (simp add: nat_le_iff)
qed

text \<open>The identifier of a start time: the base64 text of its milliseconds without padding.\<close>

definition id_text :: "int \<Rightarrow> bytes" where
  "id_text t = butlast (butlast (enc_all (digits (nat (t div 1000000)))))"

definition new_session :: "LinkSession \<Rightarrow> int \<Rightarrow> bytes \<Rightarrow> LinkSession" where
  "new_session s t b = s\<lparr>sessionId := b, nSessionStartTime := t, nTsSequenceNumber := 0,
     isNewSessionStarted := 1, nAccSessionDuration := nTsDuration s,
     nAccSessionAudioDuration := nAudioGapFromLastReport s,
     nAccSessionVideoDuration := nVideoGapFromLastReport s,
     nTotalSessionAudioDuration := nAudioGapFromLastReport s,
     nTotalSessionVideoDuration := nVideoGapFromLastReport s, nSessionEndTime := 0\<rparr>"

lemma LinkUpdateSessionId_ok:
  assumes t: "10 ^ 18 \<le> t" "t < 2 ^ 63" and s: "length (sessionId s) = 21"
  shows "\<exists>b. LinkUpdateSessionId s t = Inr (new_session s t b) \<and>
      length b = 21 \<and> c_string b = id_text t \<and> length (id_text t) = 18"
proof -
  let ?str = "digits (nat (t div 1000000))"
  note p = print_ms [OF t]
  obtain body where body: "enc_all ?str = body @ [61, 61]" "body \<noteq> []" "\<forall>x \<in> set body. x \<noteq> 61 \<and> x \<noteq> 0"
    using enc_all_padded [of ?str] p(2) by auto
  have len: "length body = 18"
    using length_enc_all [of ?str] p(2) body(1) by simp
  have id: "id_text t = body"
    using body(1) by (simp add: id_text_def butlast_append)
  let ?r = "drop 20 (sessionId s)"
  have w: "write_at 0 (body @ [61, 61]) (sessionId s) = Inr (body @ [61, 61] @ ?r)"
    using s len by (simp add: write_at_def overwrite_def)
  have st: "strip_padding 20 (body @ [61, 61] @ ?r) = Inr (body @ [0, 0] @ ?r)"
    using strip_padding_two [OF body(2), of ?r] body(3) len by simp
  have c: "c_string (body @ [0, 0] @ ?r) = body"
    using body(3) by (simp add: c_string_def takeWhile_append)
  have e: "urlsafe_b64_encode ?str (Some 21) = Inr (20, body @ [61, 61])"
    using urlsafe_b64_encode_all [of ?str 21] p(2) body(1) by simp
  have t0: "write_at 0 (?str @ [0]) (replicate 20 0) = Inr (overwrite 0 (?str @ [0]) (replicate 20 (0 :: u8)))"
    using p(2) by (simp add: write_at_def)
  show ?thesis
    by (rule exI [of _ "body @ [0, 0] @ ?r"])
      (use s c id len in \<open>simp add: LinkUpdateSessionId_def new_session_def Let_def p(1) t0 e w st del: append_Cons\<close>)
qed

lemma id_text_inj:
  assumes "10 ^ 18 \<le> t" "t < 2 ^ 63" "10 ^ 18 \<le> u" "u < 2 ^ 63" and "id_text t = id_text u"
  shows "t div 1000000 = u div 1000000"
proof -
  let ?d = "\<lambda>t. digits (nat (t div 1000000))"
  have full: "enc_all (?d t) = id_text t @ [61, 61]" if t: "10 ^ 18 \<le> t" "t < 2 ^ 63" for t
  proof -
    obtain body where "enc_all (?d t) = body @ [61, 61]"
      using enc_all_padded [of "?d t"] print_ms(2) [OF t] by auto
    then show ?thesis by (simp add: id_text_def butlast_append)
  qed
  have "enc_all (?d t) = enc_all (?d u)"
    using full assms by metis
  then have "?d t = ?d u"
    using dec_enc_all by (metis sum.inject(2))
  then have "nat (t div 1000000) = nat (u div 1000000)"
    by (metis digits_value_digits)
  then show ?thesis using assms by auto
qed

text \<open>
  From 2001 to 2262 (the range of a 64 bit nanosecond clock) making a session identifier never
  fails and never touches memory outside the 21 byte buffer, whatever the buffer held; it is a string of 18 characters, and
  two sessions get the same identifier only if they start in the same millisecond.
\<close>

theorem session_ids_unique:
  assumes "10 ^ 18 \<le> t" "t < 2 ^ 63" and "10 ^ 18 \<le> u" "u < 2 ^ 63"
    and "length (sessionId s) = 21" and "length (sessionId s') = 21"
  shows "\<exists>r r'. LinkUpdateSessionId s t = Inr r \<and> LinkUpdateSessionId s' u = Inr r' \<and>
    length (c_string (sessionId r)) = 18 \<and>
    (c_string (sessionId r) = c_string (sessionId r') \<longleftrightarrow> t div 1000000 = u div 1000000)"
proof -
  have "c_string b = c_string b' \<longleftrightarrow> t div 1000000 = u div 1000000"
    if "c_string b = id_text t" "c_string b' = id_text u" for b b'
    using id_text_inj [OF assms(1-4)] that by (auto simp: id_text_def)
  moreover obtain b where "LinkUpdateSessionId s t = Inr (new_session s t b)" "c_string b = id_text t"
      "length (id_text t) = 18"
    using LinkUpdateSessionId_ok [OF assms(1,2,5)] by blast
  moreover obtain b' where "LinkUpdateSessionId s' u = Inr (new_session s' u b')" "c_string b' = id_text u"
    using LinkUpdateSessionId_ok [OF assms(3,4,6)] by blast
  ultimately show ?thesis
    by (intro exI [of _ "new_session s t b"] exI [of _ "new_session s' u b'"])
      (simp add: new_session_def)
qed

theorem session_ids_unique_witness:
  "\<exists>r r'. LinkUpdateSessionId zeroSession 1600000000123456789 = Inr r \<and>
     LinkUpdateSessionId zeroSession 1600000000124000000 = Inr r' \<and>
     c_string (sessionId r) \<noteq> c_string (sessionId r')"
  using session_ids_unique [of 1600000000123456789 1600000000124000000 zeroSession zeroSession]
  by (auto simp: zeroSession_def)


subsection \<open>When a session ends\<close>

lemma copy_id_ok: "length b = 21 \<Longrightarrow> length (c_string b) = 18 \<Longrightarrow>
    \<exists>sid. copy_id b = Inr sid \<and> c_string sid = c_string b \<and> length sid = 21"
proof -
  assume b: "length b = 21" "length (c_string b) = 18"
  have "\<forall>x \<in> set (c_string b). x \<noteq> 0"
    by (auto simp: c_string_def dest: set_takeWhileD)
  then have "c_string (c_string b @ replicate 3 0) = c_string b"
    by (simp add: c_string_def [of "_ @ _"] takeWhile_append numeral_3_eq_3)
  then show ?thesis using b by (simp add: copy_id_def Let_def)
qed

text \<open>The state a new session leaves, its message to the token thread included.\<close>

definition opened :: "'z SessionKeeper_scheme \<Rightarrow> bytes \<Rightarrow> int \<Rightarrow> int \<Rightarrow> 'z SessionKeeper_scheme" where
  "opened k sid t chk = k\<lparr>keeperSessionId := sid, nSegmentId := t, nSegSeqNum := 0, nLastCheckTime := chk,
     updates := updates k @ [\<lparr>nUpdateType = 1, nSeqNum = 0, updSessionId = sid\<rparr>]\<rparr>"

lemma handNewSession_ok:
  assumes "10 ^ 18 \<le> t" "t < 2 ^ 63" "length (sessionId s) = 21"
  shows "\<exists>s' sid. handNewSession k s t reason = Inr (s', opened k sid t t) \<and>
    c_string sid = id_text t \<and> c_string (sessionId s') = id_text t \<and> length (sessionId s') = 21 \<and>
    nSessionEndResonCode s' = reason \<and> nTsSequenceNumber s' = 0 \<and> nSessionStartTime s' = t \<and>
    isNewSessionStarted s' = 0"
proof -
  let ?e = "if 0 < nLastTsEndTime s then nLastTsEndTime s else t"
  let ?s = "s\<lparr>segHandle := segmentHandle k, nSessionEndResonCode := reason, nSessionEndTime := ?e\<rparr>"
  obtain b where b: "LinkUpdateSessionId ?s t = Inr (new_session ?s t b)" "length b = 21"
      "c_string b = id_text t" "length (id_text t) = 18"
    using LinkUpdateSessionId_ok [of t ?s] assms by auto
  then obtain sid where "copy_id b = Inr sid" "c_string sid = id_text t"
    using copy_id_ok [of b] by auto
  then have "handNewSession k s t reason =
      Inr ((new_session ?s t b)\<lparr>isNewSessionStarted := 0\<rparr>, opened k sid t t)" "c_string sid = id_text t"
    using b(1) by (simp_all add: handNewSession_def Let_def new_session_def opened_def send_update_def)
  then show ?thesis
    using b by (intro exI [of _ "(new_session ?s t b)\<lparr>isNewSessionStarted := 0\<rparr>"] exI [of _ sid])
      (simp add: new_session_def)
qed

text \<open>
  C11: Once a session runs, the check at a segment boundary ends it in exactly three cases, each with its
  reason code: the caller forces it (a current time of 0, code 3), the configured session duration has
  elapsed (code 1), or the gap since the last check exceeds the timeout plus the segment's own
  duration (code 2). A new session then starts at the segment's start time with sequence number 0
  and exactly one request for a token under the new identifier. Otherwise the session and its identifier
  stay, and a segment is reported only if its sequence number has grown.
\<close>

theorem session_rollover:
  assumes "10 ^ 18 \<le> t" "t < 2 ^ 63" "length (sessionId s) = 21"
    and run: "nSegmentId k \<noteq> 0" and conf: "0 < nSessionDuration k"
    and "over = (nSessionDuration k \<le> c_div (cur - nSegmentId k - d * 1000000) 1000000)"
    and "late = (0 < nSessionTimeout k \<and> (nSessionTimeout k + d) * 1000000 \<le> cur - nLastCheckTime k)"
    and "reason = (if cur = 0 then 3 else if over then 1 else if late then 2 else 0)"
  shows "\<exists>ty s' k'. updateSegmentId now k s t cur d = Inr (ty, s', k') \<and>
    (if reason \<noteq> 0
     then ty = 5 \<and> nSessionEndResonCode s' = reason \<and> nTsSequenceNumber s' = 0 \<and>
       nSegmentId k' = t \<and> nSegSeqNum k' = 0 \<and> c_string (keeperSessionId k') = id_text t \<and>
       (\<exists>sid. c_string sid = id_text t \<and>
          updates k' = updates k @ [\<lparr>nUpdateType = 1, nSeqNum = 0, updSessionId = sid\<rparr>])
     else ty = (if nSegSeqNum k < nTsSequenceNumber s then 2 else 0) \<and> sessionId s' = sessionId s \<and>
       nSegmentId k' = nSegmentId k \<and> nSegSeqNum k' = nTsSequenceNumber s \<and>
       nLastCheckTime k' = cur \<and> keeperSessionId k' = keeperSessionId k \<and> updates k' = updates k)"
proof (cases "reason = 0")
  case True
  then show ?thesis
    using assms(4-) by (auto simp: updateSegmentId_def Let_def distrib_right split: if_splits)
next
  case False
  define k1 where "k1 = (if cur = 0 then k\<lparr>nLastCheckTime := now\<rparr>
      else k\<lparr>nSegSeqNum := nTsSequenceNumber s, nLastCheckTime := cur\<rparr>)"
  obtain s' sid where h: "handNewSession k1 s t reason = Inr (s', opened k1 sid t t)"
      "c_string sid = id_text t" "nSessionEndResonCode s' = reason" "nTsSequenceNumber s' = 0"
    using handNewSession_ok [OF assms(1-3), of k1 reason] by blast
  have "updateSegmentId now k s t cur d = Inr (5, s', opened k1 sid t t)"
    using False assms(4-) h(1)
    by (auto simp: updateSegmentId_def Let_def distrib_right k1_def split: if_splits)
  then show ?thesis
    using False h by (auto simp: opened_def k1_def)
qed

theorem session_rollover_witness:
  "\<exists>s' k'. updateSegmentId 0
      \<lparr>nSegmentId = 1600000000000000000, nSegSeqNum = 3, nLastCheckTime = 1600000600000000000,
        keeperSessionId = [], segmentHandle = 0, nSessionDuration = 600000, nSessionTimeout = 3000,
        updates = [], reports = []\<rparr> zeroSession 1600000600000000000 1600000605000000000 5000 =
      Inr (5, s', k') \<and> nSessionEndResonCode s' = 1 \<and> length (updates k') = 1"
  using session_rollover [of 1600000600000000000 zeroSession
      "\<lparr>nSegmentId = 1600000000000000000, nSegSeqNum = 3, nLastCheckTime = 1600000600000000000,
        keeperSessionId = [], segmentHandle = 0, nSessionDuration = 600000, nSessionTimeout = 3000,
        updates = [], reports = []\<rparr>" True 1600000605000000000 5000 False 1 0]
  by (auto simp: zeroSession_def c_div_def)

end
