(* ===== verification/PutBuffer.thy ===== *)
theory PutBuffer
  imports TsMux Session
begin

section \<open>The metadata of an upload (tsuploader.c: inttoBCD, linkPutBuffer)\<close>

text \<open>
  A segment is uploaded with custom metadata: the positions of its key frames, each as three packed decimal numbers of
  ten digits, in base64 (\<open>o\<close>), the duration (\<open>d\<close>), the sequence number (\<open>s\<close>) and the
  discontinuity flag (\<open>c\<close>). The code builds them in one block of 250 bytes: first the packed
  numbers, then, over them, eight pointers (8 bytes each) followed by the strings they point to. The model
  writes into the same block with every bound checked; the pointers are kept as offsets
  beside the block, and the bytes they occupy are left as they are. \<open>LinkUploadBuffer\<close> talks to the network: its
  answer is a parameter and the request it gets is part of the result.
\<close>

subsection \<open>Definitions\<close>

text \<open>
  The loop has no bound of its own: with more than ten digits the index gets below the buffer and
  the shift count below 0, both of which are faults here.
\<close>

lemma c_div_10_less: "m \<noteq> 0 \<Longrightarrow> nat \<bar>c_div m 10\<bar> < nat \<bar>m\<bar>"
  using int_div_less_self [of "\<bar>m\<bar>" 10] by (simp add: c_div_def abs_mult abs_sgn_eq nat_less_iff)

function inttoBCD_loop :: "int \<Rightarrow> int \<Rightarrow> nat \<Rightarrow> bytes \<Rightarrow> bytes run" where
  "inttoBCD_loop m n buf b =
     (if m = 0 then Inr b
      else let i = int buf + c_div (n + 1) 2 - 1 in
        if c_rem n 2 < 0 \<or> i < 0 \<or> int (length b) \<le> i then Inl Out_of_bounds
        else inttoBCD_loop (c_div m 10) (n - 1) buf
               (b[nat i := b ! nat i OR word_of_int (push_bit (nat (c_rem n 2) * 4) (c_rem m 10))]))"
  by auto
termination
  by (relation "measure (\<lambda>(m, _). nat \<bar>m\<bar>)") (simp, simp only: in_measure case_prod_conv, rule c_div_10_less)

declare inttoBCD_loop.simps [simp del]

definition inttoBCD :: "int \<Rightarrow> nat \<Rightarrow> bytes \<Rightarrow> bytes run" where
  "inttoBCD m buf b = and_then (write_at buf (replicate 5 0) b) (inttoBCD_loop m 10 buf)"

fun put_metas :: "LinkKeyFrameMetaInfo list \<Rightarrow> nat \<Rightarrow> bytes \<Rightarrow> bytes run" where
  "put_metas [] i b = Inr b"
| "put_metas (m # ms) i b =
     and_then (inttoBCD (nTimestamp90Khz m) (15 * i) b) (\<lambda>b.
     and_then (inttoBCD (int (nOffset m)) (15 * i + 5) b) (\<lambda>b.
     and_then (inttoBCD (int (nLength m)) (15 * i + 10) b) (\<lambda>b.
       put_metas ms (Suc i) b)))"

text \<open>Each string and its terminator at \<open>pCnt\<close>; the offsets are the pointers \<open>pp\<close>.\<close>

fun put_strings :: "nat \<Rightarrow> bytes list \<Rightarrow> bytes \<Rightarrow> (nat list \<times> bytes) run" where
  "put_strings pCnt [] b = Inr ([], b)"
| "put_strings pCnt (s # ss) b =
     and_then (write_at pCnt (s @ [0]) b) (\<lambda>b.
     and_then (put_strings (pCnt + length s + 1) ss b) (\<lambda>(pp, b). Inr (pCnt # pp, b)))"

record PutRequest =
  reqHost :: bytes
  reqToken :: bytes
  reqKey :: "bytes option"
  reqData :: bytes
  reqMetas :: "bytes list"
  reqMagic :: "bytes list"

text \<open>
  \<open>metaValue\<close> has 200 bytes. \<open>junk\<close> is what the block holds at first, \<open>answer\<close> the result of
  \<open>LinkUploadBuffer\<close> and the HTTP status it stores.
\<close>

definition linkPutBuffer ::
    "bytes \<Rightarrow> (PutRequest \<Rightarrow> int \<times> int) \<Rightarrow> bytes \<Rightarrow> bytes \<Rightarrow> bytes \<Rightarrow> bytes \<Rightarrow> LinkKeyFrameMetaInfo list
      \<Rightarrow> bytes list \<Rightarrow> int \<Rightarrow> int \<Rightarrow> int \<Rightarrow> (int \<times> PutRequest) run" where
  "linkPutBuffer junk answer uphost token key data metas customMagic duration seqnum isDiscontinuity =
     and_then (put_metas metas 0 junk) (\<lambda>b.
     and_then (read_at 0 (length metas * 15) b) (\<lambda>raw.
     and_then (urlsafe_b64_encode raw (Some 200)) (\<lambda>(_, metaValue).
     and_then (put_strings 64
        [[111], metaValue, [100], print_int duration, [115], print_int seqnum, [99], print_int isDiscontinuity] b) (\<lambda>(pp, b).
       let req = \<lparr>reqHost = uphost, reqToken = token,
             reqKey = (if customMagic \<noteq> [] then None else Some key), reqData = data,
             reqMetas = map (\<lambda>p. c_string (drop p b)) pp, reqMagic = customMagic\<rparr>;
           (ret, code) = answer req
       in Inr (if ret \<noteq> 0 then LINK_GHTTP_FAIL else if c_div code 100 = 2 then LINK_SUCCESS else -1, req)))))"

subsection \<open>Packed decimal numbers\<close>

fun bcd_of :: "nat \<Rightarrow> nat \<Rightarrow> bytes" where
  "bcd_of 0 m = []"
| "bcd_of (Suc j) m = bcd_of j (m div 100) @ [of_nat (m mod 10) OR push_bit 4 (of_nat (m div 10 mod 10))]"

definition bcd_value :: "bytes \<Rightarrow> nat" where
  "bcd_value = foldl (\<lambda>a x. 100 * a + 10 * unat (drop_bit 4 x) + unat (x AND 15)) 0"

lemma length_bcd_of [simp]: "length (bcd_of j m) = j"
  by (induction j arbitrary: m) auto

lemma bcd_of_0: "bcd_of j 0 = replicate j 0"
  by (induction j) (simp_all add: replicate_append_same)

lemma bcd_byte_table: "all_below 10 (\<lambda>q. all_below 10 (\<lambda>r. let x = (of_nat r :: u8) OR push_bit 4 (of_nat q) in
    10 * unat (drop_bit 4 x) + unat (x AND 15) = 10 * q + r))"
  by code_simp

lemma bcd_byte:
  assumes "q < 10" and "r < 10" and "x = of_nat r OR push_bit 4 (of_nat q)"
  shows "10 * unat (drop_bit 4 (x :: u8)) + unat (x AND 15) = 10 * q + r"
  using bcd_byte_table assms by (simp only: all_below_iff Let_def)

lemma bcd_value_bcd_of: "m < 100 ^ j \<Longrightarrow> bcd_value (bcd_of j m) = m"
proof (induction j arbitrary: m)
  case (Suc j)
  have IH: "bcd_value (bcd_of j (m div 100)) = m div 100"
    using Suc by (simp add: div_less_iff_less_mult mult.commute)
  have snoc: "bcd_value (bs @ [x]) = 100 * bcd_value bs + (10 * unat (drop_bit 4 x) + unat (x AND 15))" for bs x
    by (simp add: bcd_value_def)
  have "10 * unat (drop_bit 4 x) + unat (x AND 15) = 10 * (m div 10 mod 10) + m mod 10"
    if "x = of_nat (m mod 10) OR push_bit 4 (of_nat (m div 10 mod 10) :: u8)" for x
    by (rule bcd_byte [OF _ _ that]) simp_all
  from this [OF refl] have "bcd_value (bcd_of (Suc j) m) = 100 * (m div 100) + (10 * (m div 10 mod 10) + m mod 10)"
    unfolding bcd_of.simps snoc IH by (rule arg_cong)
  moreover have "m div 100 = m div 10 div 10"
    by (simp add: div_mult2_eq [symmetric])
  ultimately show ?case
    using mult_div_mod_eq [of 10 m] mult_div_mod_eq [of 10 "m div 10"] by linarith
qed (simp add: bcd_value_def)

lemma c_rem_pos: "0 \<le> a \<Longrightarrow> 0 < b \<Longrightarrow> c_rem a b = a mod b"
  by (cases "a = 0") (simp_all add: c_rem_def)

lemma inttoBCD_step:
  assumes "0 < m" and "1 \<le> n" and "buf + (n + 1) div 2 - 1 < length b"
  shows "inttoBCD_loop (int m) (int n) buf b =
    inttoBCD_loop (int (m div 10)) (int (n - 1)) buf (b[buf + (n + 1) div 2 - 1 :=
      b ! (buf + (n + 1) div 2 - 1) OR push_bit (n mod 2 * 4) (of_nat (m mod 10))])"
proof -
  have i: "int buf + c_div (int n + 1) 2 - 1 = int (buf + (n + 1) div 2 - 1)"
  proof -
    have "c_div (int n + 1) 2 = int ((n + 1) div 2)"
      by (subst c_div_pos) (auto simp: zdiv_int)
    then show ?thesis using assms(2) by simp
  qed
  have r: "c_rem (int n) 2 = int (n mod 2)" "c_rem (int m) 10 = int (m mod 10)" "c_div (int m) 10 = int (m div 10)"
    by (simp_all add: c_rem_pos c_div_pos zmod_int zdiv_int)
  have w: "word_of_int (push_bit k (int x)) = push_bit k (of_nat x :: u8)" for k x
    by (metis of_int_of_nat_eq of_nat_push_bit push_bit_of_nat)
  define k where "k = buf + (n + 1) div 2 - 1"
  have "int m \<noteq> 0" "\<not> (int (n mod 2) < 0 \<or> int k < 0 \<or> int (length b) \<le> int k)"
    using assms by (auto simp: k_def)
  moreover have "int n - 1 = int (n - 1)"
    using assms(2) by simp
  moreover have "nat (int (n mod 2)) = n mod 2"
    by simp
  ultimately show ?thesis
    unfolding k_def [symmetric]
    by (subst inttoBCD_loop.simps) (simp only: i [folded k_def] r Let_def w nat_int if_False)
qed

lemma inttoBCD_loop_ok:
  "m < 100 ^ j \<Longrightarrow> inttoBCD_loop (int m) (int (2 * j)) (length A) (A @ replicate j 0 @ T) = Inr (A @ bcd_of j m @ T)"
proof (induction j arbitrary: m T)
  case (Suc j)
  let ?n = "2 * Suc j"
  let ?b = "A @ replicate (Suc j) 0 @ T"
  let ?x = "of_nat (m mod 10) :: u8" and ?y = "push_bit 4 (of_nat (m div 10 mod 10)) :: u8"
  have split: "A @ replicate (Suc j) 0 @ T = A @ replicate j 0 @ 0 # T" for T :: bytes
    by (simp add: replicate_append_same [symmetric] del: replicate_append_same)
  have up: "(A @ replicate j 0 @ z # T)[length A + j := w] = A @ replicate j 0 @ w # T" for z w :: u8
    by (simp add: list_update_append)
  have at: "(replicate j 0 @ z # T) ! j = z" for z :: u8
    by (simp add: nth_append)
  show ?case
  proof (cases "m = 0")
    case True
    then show ?thesis by (simp add: inttoBCD_loop.simps bcd_of_0 del: replicate.simps bcd_of.simps)
  next
    case False
    have one: "inttoBCD_loop (int m) (int ?n) (length A) ?b =
        inttoBCD_loop (int (m div 10)) (int (?n - 1)) (length A) (A @ replicate j 0 @ ?x # T)"
      using inttoBCD_step [of m ?n "length A" "A @ replicate j 0 @ 0 # T"] False
      unfolding split by (simp add: up at)
    show ?thesis
    proof (cases "m div 10 = 0")
      case True
      then show ?thesis
        using one by (simp add: inttoBCD_loop.simps [of 0] bcd_of_0 split)
    next
      case F: False
      have two: "inttoBCD_loop (int (m div 10)) (int (?n - 1)) (length A) (A @ replicate j 0 @ ?x # T) =
          inttoBCD_loop (int (m div 100)) (int (2 * j)) (length A) (A @ replicate j 0 @ (?x OR ?y) # T)"
        using inttoBCD_step [of "m div 10" "?n - 1" "length A" "A @ replicate j 0 @ ?x # T"] F
        by (simp add: up at div_mult2_eq [symmetric] flip: of_nat_div)
      have "m div 100 < 100 ^ j" using Suc.prems by (simp add: div_less_iff_less_mult mult.commute)
      then show ?thesis
        using Suc.IH [of "m div 100" "(?x OR ?y) # T"] one two by simp
    qed
  qed
qed (simp add: inttoBCD_loop.simps)

lemma inttoBCD_ok:
  assumes "m < 10 ^ 10" and "p + 5 \<le> length b"
  shows "inttoBCD (int m) p b = Inr (overwrite p (bcd_of 5 m) b)"
proof -
  have "inttoBCD_loop (int m) (int (2 * 5)) (length (take p b)) (take p b @ replicate 5 0 @ drop (p + 5) b) =
      Inr (take p b @ bcd_of 5 m @ drop (p + 5) b)"
    by (rule inttoBCD_loop_ok) (use assms in simp)
  then show ?thesis
    using assms(2) by (simp add: inttoBCD_def mem_simps overwrite_def del: bcd_of.simps replicate.simps)
qed

subsection \<open>The block\<close>

lemma overwrite_adjacent:
  "p + length xs + length ys \<le> length b \<Longrightarrow>
   overwrite (p + length xs) ys (overwrite p xs b) = overwrite p (xs @ ys) b"
  by (simp add: overwrite_def ac_simps)

definition meta_record :: "LinkKeyFrameMetaInfo \<Rightarrow> bytes" where
  "meta_record m = bcd_of 5 (nat (nTimestamp90Khz m)) @ bcd_of 5 (nOffset m) @ bcd_of 5 (nLength m)"

definition meta_fits :: "LinkKeyFrameMetaInfo \<Rightarrow> bool" where
  "meta_fits m = (0 \<le> nTimestamp90Khz m \<and> nTimestamp90Khz m < 10 ^ 10 \<and> nOffset m < 10 ^ 10 \<and> nLength m < 10 ^ 10)"

lemma length_meta_record [simp]: "length (meta_record m) = 15"
  by (simp add: meta_record_def)

lemma length_meta_records [simp]: "length (concat (map meta_record ms)) = 15 * length ms"
  by (induction ms) auto

lemma overwrite_nil [simp]: "overwrite p [] b = b"
  by (simp add: overwrite_def)

lemma put_metas_ok:
  "\<forall>m \<in> set ms. meta_fits m \<Longrightarrow> 15 * (i + length ms) \<le> length b \<Longrightarrow>
   put_metas ms i b = Inr (overwrite (15 * i) (concat (map meta_record ms)) b)"
proof (induction ms arbitrary: i b)
  case (Cons m ms)
  have m: "nTimestamp90Khz m = int (nat (nTimestamp90Khz m))" "nat (nTimestamp90Khz m) < 10 ^ 10"
      "nOffset m < 10 ^ 10" "nLength m < 10 ^ 10"
    using Cons.prems(1) by (auto simp: meta_fits_def nat_less_iff)
  have room: "15 * i + 15 \<le> length b" "15 * (Suc i + length ms) \<le> length b"
    using Cons.prems(2) by auto
  let ?t = "bcd_of 5 (nat (nTimestamp90Khz m))" and ?o = "bcd_of 5 (nOffset m)" and ?l = "bcd_of 5 (nLength m)"
  have s: "overwrite (15 * i + 10) ?l (overwrite (15 * i + 5) ?o (overwrite (15 * i) ?t b)) =
      overwrite (15 * i) (meta_record m) b"
    using overwrite_adjacent [of "15 * i" ?t ?o b] overwrite_adjacent [of "15 * i" "?t @ ?o" ?l b] room(1)
    by (simp add: meta_record_def add.assoc del: bcd_of.simps)
  have "put_metas (m # ms) i b = put_metas ms (Suc i) (overwrite (15 * i) (meta_record m) b)"
    unfolding put_metas.simps
    by (subst m(1), subst inttoBCD_ok, use m room in simp, use room in simp, unfold and_then_Inr,
        subst inttoBCD_ok, use m room in simp, use room in simp, unfold and_then_Inr,
        subst inttoBCD_ok, use m room in simp, use room in simp, unfold and_then_Inr) (simp only: s)
  also have "\<dots> = Inr (overwrite (15 * i + length (meta_record m)) (concat (map meta_record ms))
      (overwrite (15 * i) (meta_record m) b))"
    by (subst Cons.IH) (use Cons.prems room in \<open>auto simp: add.commute\<close>)
  also have "\<dots> = Inr (overwrite (15 * i) (meta_record m @ concat (map meta_record ms)) b)"
    by (subst overwrite_adjacent) (use room in auto)
  finally show ?case by simp
qed simp

fun offsets :: "nat \<Rightarrow> bytes list \<Rightarrow> nat list" where
  "offsets p [] = []"
| "offsets p (s # ss) = p # offsets (p + length s + 1) ss"

definition terminated :: "bytes list \<Rightarrow> bytes" where
  "terminated ss = concat (map (\<lambda>s. s @ [0]) ss)"

lemma terminated_simps [simp]:
  "terminated [] = []" "terminated (s # ss) = (s @ [0]) @ terminated ss"
  by (simp_all add: terminated_def)

lemma put_strings_ok:
  "p + length (terminated ss) \<le> length b \<Longrightarrow>
   put_strings p ss b = Inr (offsets p ss, overwrite p (terminated ss) b)"
proof (induction ss arbitrary: p b)
  case (Cons s ss)
  have "overwrite (p + length (s @ [0])) (terminated ss) (overwrite p (s @ [0]) b) =
      overwrite p ((s @ [0]) @ terminated ss) b"
    by (rule overwrite_adjacent) (use Cons.prems in simp)
  moreover have "put_strings (p + length s + 1) ss (overwrite p (s @ [0]) b) =
      Inr (offsets (p + length s + 1) ss, overwrite (p + length s + 1) (terminated ss) (overwrite p (s @ [0]) b))"
    by (rule Cons.IH) (use Cons.prems in simp)
  ultimately show ?case
    using Cons.prems by (simp add: mem_simps add.assoc)
qed simp

lemma put_strings_fault:
  "length b < p + length (terminated ss) \<Longrightarrow> p \<le> length b \<Longrightarrow> put_strings p ss b = Inl Out_of_bounds"
proof (induction ss arbitrary: p b)
  case (Cons s ss)
  show ?case
  proof (cases "p + length s + 1 \<le> length b")
    case True
    have "put_strings (p + length s + 1) ss (overwrite p (s @ [0]) b) = Inl Out_of_bounds"
      by (rule Cons.IH) (use Cons.prems True in auto)
    then show ?thesis using True by (simp add: mem_simps)
  qed (simp add: mem_simps)
qed simp

lemma c_string_terminated: "0 \<notin> set s \<Longrightarrow> c_string (s @ 0 # r) = s"
  by (subst c_string_def, subst takeWhile_append2) auto

lemma read_strings:
  "drop p b = terminated ss @ r \<Longrightarrow> \<forall>s \<in> set ss. 0 \<notin> set s \<Longrightarrow> map (\<lambda>q. c_string (drop q b)) (offsets p ss) = ss"
proof (induction ss arbitrary: p)
  case (Cons s ss)
  have "drop (p + length s + 1) b = drop (length s + 1) (drop p b)"
    by (simp add: add.commute add.left_commute)
  also have "\<dots> = terminated ss @ r"
    using Cons.prems(1) by simp
  finally show ?case
    using Cons by (simp add: c_string_terminated)
qed simp

lemma digits_nonzero: "0 \<notin> set (digits n)"
proof (induction n rule: digits.induct)
  case (1 n)
  have "(of_nat (48 + m) :: u8) \<noteq> 0" if "m < 10" for m
  proof
    assume "(of_nat (48 + m) :: u8) = 0"
    then have "unat (of_nat (48 + m) :: u8) = 0" by simp
    then show False
      using that by (simp add: unsigned_of_nat take_bit_nat_eq_self del: of_nat_add)
  qed
  from this [of n] this [of "n mod 10"] 1 show ?case
    by (cases "n < 10") (simp_all add: digits.simps [of n] del: of_nat_add)
qed

lemma print_int_nonzero: "0 \<notin> set (print_int n)"
  by (simp add: print_int_def digits_nonzero)

lemma digits_nonempty: "1 \<le> length (digits n)"
  by (simp add: digits.simps [of n])

lemma print_int_nonempty: "1 \<le> length (print_int n)"
  using digits_nonempty by (simp add: print_int_def)

lemma enc_all_nonzero: "0 \<notin> set (enc_all s)"
  by (induction s rule: enc_all.induct) (auto simp: enc_tail_def dest!: enc_chars_plain in_set_takeD)

subsection \<open>What the server gets\<close>

definition meta_strings :: "LinkKeyFrameMetaInfo list \<Rightarrow> int \<Rightarrow> int \<Rightarrow> int \<Rightarrow> bytes list" where
  "meta_strings metas duration seqnum disc =
     [[111], enc_all (concat (map meta_record metas)), [100], print_int duration,
      [115], print_int seqnum, [99], print_int disc]"

lemma length_meta_strings: "length (terminated (meta_strings metas d s c)) =
    12 + 20 * length metas + length (print_int d) + length (print_int s) + length (print_int c)"
  by (simp add: meta_strings_def length_enc_all)

lemma linkPutBuffer_prefix:
  assumes "length junk = 250" and "length metas \<le> 10" and "\<forall>m \<in> set metas. meta_fits m"
  shows "\<exists>b. length b = 250 \<and> linkPutBuffer junk answer h t key data metas magic d s c =
    and_then (put_strings 64 (meta_strings metas d s c) b) (\<lambda>(pp, b).
       let req = \<lparr>reqHost = h, reqToken = t, reqKey = (if magic \<noteq> [] then None else Some key), reqData = data,
             reqMetas = map (\<lambda>p. c_string (drop p b)) pp, reqMagic = magic\<rparr>;
           (ret, code) = answer req
       in Inr (if ret \<noteq> 0 then LINK_GHTTP_FAIL else if c_div code 100 = 2 then LINK_SUCCESS else -1, req))"
proof -
  let ?raw = "concat (map meta_record metas)"
  let ?b = "overwrite 0 ?raw junk"
  have p: "put_metas metas 0 junk = Inr ?b"
    using put_metas_ok [of metas 0 junk] assms by simp
  have r: "read_at 0 (length metas * 15) ?b = Inr ?raw"
    using assms by (simp add: read_at_def overwrite_def mult.commute)
  have e: "urlsafe_b64_encode ?raw (Some 200) = Inr (((length ?raw + 2) div 3) * 4, enc_all ?raw)"
    by (rule urlsafe_b64_encode_all) (use assms(2) in simp)
  have "linkPutBuffer junk answer h t key data metas magic d s c =
    and_then (put_strings 64 (meta_strings metas d s c) ?b) (\<lambda>(pp, b).
       let req = \<lparr>reqHost = h, reqToken = t, reqKey = (if magic \<noteq> [] then None else Some key), reqData = data,
             reqMetas = map (\<lambda>p. c_string (drop p b)) pp, reqMagic = magic\<rparr>;
           (ret, code) = answer req
       in Inr (if ret \<noteq> 0 then LINK_GHTTP_FAIL else if c_div code 100 = 2 then LINK_SUCCESS else -1, req))"
    unfolding linkPutBuffer_def p and_then_Inr r e prod.case meta_strings_def [symmetric] by (rule refl)
  moreover have "length ?b = 250"
    using assms by simp
  ultimately show ?thesis by blast
qed

text \<open>A receiver's view of the \<open>o\<close> value: chunks of fifteen bytes, three numbers each.\<close>

definition bcd_records :: "bytes \<Rightarrow> (nat \<times> nat \<times> nat) list" where
  "bcd_records raw = map (\<lambda>i. let r = drop (15 * i) raw in
     (bcd_value (take 5 r), bcd_value (take 5 (drop 5 r)), bcd_value (take 5 (drop 10 r)))) [0..<length raw div 15]"

lemma drop_records: "i < length ms \<Longrightarrow>
    drop (15 * i) (concat (map meta_record ms)) = meta_record (ms ! i) @ concat (map meta_record (drop (Suc i) ms))"
proof (induction ms arbitrary: i)
  case (Cons m ms)
  then show ?case by (cases i) auto
qed simp

lemma bcd_records_ok:
  assumes "\<forall>m \<in> set ms. meta_fits m"
  shows "bcd_records (concat (map meta_record ms)) = map (\<lambda>m. (nat (nTimestamp90Khz m), nOffset m, nLength m)) ms"
proof (rule nth_equalityI)
  fix i assume "i < length (bcd_records (concat (map meta_record ms)))"
  then have i: "i < length ms" by (simp add: bcd_records_def)
  then have f: "meta_fits (ms ! i)" using assms by simp
  have "bcd_records (concat (map meta_record ms)) ! i =
      (bcd_value (bcd_of 5 (nat (nTimestamp90Khz (ms ! i)))), bcd_value (bcd_of 5 (nOffset (ms ! i))),
       bcd_value (bcd_of 5 (nLength (ms ! i))))"
    using i by (simp add: bcd_records_def Let_def drop_records meta_record_def del: drop_drop)
  also have "\<dots> = (nat (nTimestamp90Khz (ms ! i)), nOffset (ms ! i), nLength (ms ! i))"
    using f by (simp add: meta_fits_def bcd_value_bcd_of nat_less_iff)
  finally show "bcd_records (concat (map meta_record ms)) ! i =
      map (\<lambda>m. (nat (nTimestamp90Khz m), nOffset m, nLength m)) ms ! i"
    using i by simp
qed (simp add: bcd_records_def)

text \<open>
  C12: If the strings fit the 186 bytes behind the pointers, the upload carries the four named values,
  the server decodes from the first the time stamp, offset and length of every key frame, and the code returned
  is success exactly when the transfer worked and the server answered 2xx.
\<close>

theorem upload_metadata_roundtrip:
  assumes "length junk = 250" and "length metas \<le> 10" and "\<forall>m \<in> set metas. meta_fits m"
    and "20 * length metas + length (print_int d) + length (print_int s) + length (print_int c) \<le> 174"
  shows "\<exists>r req off. linkPutBuffer junk answer h t key data metas magic d s c = Inr (r, req) \<and>
    reqMetas req = [[111], off, [100], print_int d, [115], print_int s, [99], print_int c] \<and>
    (let (n, raw) = urlsafe_b64_decode off (Some 200) in
       bcd_records raw = map (\<lambda>m. (nat (nTimestamp90Khz m), nOffset m, nLength m)) metas) \<and>
    reqData req = data \<and> (reqKey req = (if magic = [] then Some key else None)) \<and>
    (r = LINK_SUCCESS \<longleftrightarrow> fst (answer req) = 0 \<and> c_div (snd (answer req)) 100 = 2)"
proof -
  let ?ss = "meta_strings metas d s c"
  let ?raw = "concat (map meta_record metas)"
  obtain b where b: "length b = 250" "linkPutBuffer junk answer h t key data metas magic d s c =
    and_then (put_strings 64 ?ss b) (\<lambda>(pp, b).
       let req = \<lparr>reqHost = h, reqToken = t, reqKey = (if magic \<noteq> [] then None else Some key), reqData = data,
             reqMetas = map (\<lambda>p. c_string (drop p b)) pp, reqMagic = magic\<rparr>;
           (ret, code) = answer req
       in Inr (if ret \<noteq> 0 then LINK_GHTTP_FAIL else if c_div code 100 = 2 then LINK_SUCCESS else -1, req))"
    using linkPutBuffer_prefix [OF assms(1-3)] by blast
  have fit: "64 + length (terminated ?ss) \<le> length b"
    using assms(4) b(1) by (simp add: length_meta_strings)
  have p: "put_strings 64 ?ss b = Inr (offsets 64 ?ss, overwrite 64 (terminated ?ss) b)"
    by (rule put_strings_ok) (rule fit)
  have "drop 64 (overwrite 64 (terminated ?ss) b) = terminated ?ss @ drop (64 + length (terminated ?ss)) b"
    using fit by (simp add: overwrite_def)
  then have m: "map (\<lambda>p. c_string (drop p (overwrite 64 (terminated ?ss) b))) (offsets 64 ?ss) = ?ss"
    by (rule read_strings) (simp add: meta_strings_def print_int_nonzero enc_all_nonzero)
  have "Suc (Suc (15 * length metas)) div 3 = 5 * length metas"
    by presburger
  then have dec: "urlsafe_b64_decode (enc_all ?raw) (Some 200) = (length ?raw, ?raw)"
    using assms(2) by (simp add: urlsafe_b64_decode_def urlsafe_b64_decode_raw_def Let_def length_enc_all dec_enc_all)
  define req where "req = \<lparr>reqHost = h, reqToken = t,
      reqKey = (if magic \<noteq> [] then None else Some key), reqData = data, reqMetas = ?ss, reqMagic = magic\<rparr>"
  then have q: "reqMetas req = ?ss" "reqData req = data" "reqKey req = (if magic = [] then Some key else None)"
    by simp_all
  obtain ret code where ans: "answer req = (ret, code)"
    by (cases "answer req")
  show ?thesis
    unfolding b(2) p and_then_Inr prod.case m Let_def req_def [symmetric]
    using bcd_records_ok [OF assms(3)] dec ans
    by (intro exI [of _ "if ret \<noteq> 0 then LINK_GHTTP_FAIL else if c_div code 100 = 2 then LINK_SUCCESS else -1"]
          exI [of _ req] exI [of _ "enc_all ?raw"])
      (simp add: q meta_strings_def)
qed

text \<open>
  With nine or ten key frames in a segment (the code keeps up to ten) the strings never fit: the
  upload always writes past the end of the block on its stack.
\<close>

theorem nine_key_frames_overflow:
  assumes "length junk = 250" and "9 \<le> length metas" "length metas \<le> 10" and "\<forall>m \<in> set metas. meta_fits m"
  shows "linkPutBuffer junk answer h t key data metas magic d s c = Inl Out_of_bounds"
proof -
  obtain b where b: "length b = 250" "linkPutBuffer junk answer h t key data metas magic d s c =
    and_then (put_strings 64 (meta_strings metas d s c) b) (\<lambda>(pp, b).
       let req = \<lparr>reqHost = h, reqToken = t, reqKey = (if magic \<noteq> [] then None else Some key), reqData = data,
             reqMetas = map (\<lambda>p. c_string (drop p b)) pp, reqMagic = magic\<rparr>;
           (ret, code) = answer req
       in Inr (if ret \<noteq> 0 then LINK_GHTTP_FAIL else if c_div code 100 = 2 then LINK_SUCCESS else -1, req))"
    using linkPutBuffer_prefix [OF assms(1,3,4)] by blast
  have "put_strings 64 (meta_strings metas d s c) b = Inl Out_of_bounds"
    using assms(2) b(1) print_int_nonempty [of d] print_int_nonempty [of s] print_int_nonempty [of c]
    by (intro put_strings_fault) (simp_all add: length_meta_strings)
  then show ?thesis using b(2) by simp
qed

theorem upload_metadata_roundtrip_witness:
  "\<exists>r req off. linkPutBuffer (replicate 250 7) (\<lambda>_. (0, 200)) [1] [2] [3] [9]
      [\<lparr>nTimestamp90Khz = 8589934591, nOffset = 564, nLength = 3760\<rparr>] [] 4990 12 0 = Inr (r, req) \<and>
    reqMetas req = [[111], off, [100], print_int 4990, [115], print_int 12, [99], print_int 0] \<and>
    (let (n, raw) = urlsafe_b64_decode off (Some 200) in bcd_records raw = [(8589934591, 564, 3760)])"
proof -
  have l: "length (print_int 4990) = 4" "length (print_int 12) = 2" "length (print_int 0) = 1"
    by (simp_all add: print_int_def digits.simps)
  show ?thesis
    using upload_metadata_roundtrip [of "replicate 250 7"
        "[\<lparr>nTimestamp90Khz = 8589934591, nOffset = 564, nLength = 3760\<rparr>]" 4990 12 0
        "\<lambda>_. (0, 200)" "[1]" "[2]" "[3]" "[9]" "[]"]
    by (auto simp: meta_fits_def l)
qed

theorem nine_key_frames_overflow_witness:
  "linkPutBuffer (replicate 250 0) (\<lambda>_. (0, 200)) [] [] [] []
     (replicate 9 \<lparr>nTimestamp90Khz = 90000, nOffset = 0, nLength = 188\<rparr>) [] 5000 1 0 = Inl Out_of_bounds"
  using nine_key_frames_overflow [of "replicate 250 0"
      "replicate 9 \<lparr>nTimestamp90Khz = 90000, nOffset = 0, nLength = 188\<rparr>" "\<lambda>_. (0, 200)" "[]" "[]" "[]" "[]" "[]" 5000 1 0]
  by (simp add: meta_fits_def)

end
