(* ===== verification/TsPool.thy ===== *)
theory TsPool
  imports CircleQueue TsMux Session
begin

section \<open>Segment buffers and commands (tsuploader.c, producer side)\<close>

text \<open>
  The segment being filled lives in a queue of its own (policy \<open>TSQ_APPEND_FIX\<close>) whose block is one of four
  slots of a pool. At the end of a segment the queue is handed over, in two commands, to the
  upload thread and to the callback thread; each destroys its reference. The model keeps the queues in a
  store indexed by their addresses, so that sharing, reference counts and use after release are
  visible. A slot is a block of its own: writing past a slot is a fault, although in memory the next slot follows.
  Each function runs under the uploader's mutex and is one step.
\<close>

subsection \<open>State\<close>

record LinkReportTimeInfo =
  tiAudioDuration :: int
  tiVideoDuration :: int
  tiMediaDuation :: int
  tiSystimestamp :: int
  tiReserved :: int

datatype LinkPlanType = LINK_PLAN_TYPE_NONE | LINK_PLAN_TYPE_MOVE | LINK_PLAN_TYPE_24 | LINK_PLAN_TYPE_BAN

text \<open>A picture to upload: the file name's buffer, the length of the name in it, and the data.\<close>

record LinkPicture =
  picFilename :: bytes
  nFilenameLen :: nat
  picBuf :: bytes

datatype TsUploaderCommand =
    LINK_TSU_UPLOAD "nat option" "LinkKeyFrameMetaInfo list option" LinkReportTimeInfo
  | LINK_TSU_QUIT
  | LINK_TSU_START_TIME LinkReportTimeInfo
  | LINK_TSU_END_TIME LinkReportTimeInfo
  | LINK_TSU_SEG_TIME LinkReportTimeInfo
  | LINK_TSU_SET_META LinkSessionMeta
  | LINK_TSU_CLR_META
  | LINK_TSU_SET_PLAN_TYPE LinkPlanType
  | LINK_TSU_PICTURE LinkPicture
  | LINK_DROP_TS "nat option" LinkReportTimeInfo

text \<open>
  \<open>pTsItem\<close> is empty while the pool is not allocated (\<open>pTsMem\<close> is null). The command queues are those of
  CircleQueue with 96 and 24 items, here as the lists they refine.
\<close>

record TsPool =
  koPolicy :: CircleQueuePolicy
  nMaxItemLen :: int
  nInitItemCount :: int
  koCap :: int
  isAdjustQueueSize :: bool
  pTsItem :: "bytes list"
  tsItemUsedFlag :: "bool list"
  tsQueues :: "nat \<Rightarrow> CircleQueueImp option"
  nextQueue :: nat
  pQueue :: "nat option"
  pUpMeta :: "LinkKeyFrameMetaInfo list option"
  pCommandQueue :: "TsUploaderCommand list"
  pTsCbQueue :: "TsUploaderCommand list"
  nTsCacheNum :: int
  nTsMaxCacheNum :: int
  nTsLastStartTime :: int

text \<open>Answers of the allocator and of pthread during one call.\<close>

record TsAlloc =
  metaOk :: bool
  poolOk :: bool
  structOk :: bool
  mutexRet :: int
  condRet :: int

subsection \<open>The pool\<close>

text \<open>\<open>allocTs\<close> returns the address of a slot, its index plus one, or null.\<close>

definition allocTs :: "bool \<Rightarrow> 'z TsPool_scheme \<Rightarrow> nat \<times> 'z TsPool_scheme" where
  "allocTs ok k =
     (if pTsItem k = [] \<and> \<not> ok then (0, k)
      else let k = (if pTsItem k = [] then k\<lparr>pTsItem := replicate 4 (replicate (nat (koCap k)) 1)\<rparr> else k)
        in case find (\<lambda>i. \<not> tsItemUsedFlag k ! i) [0..<4] of
             Some i \<Rightarrow> (Suc i, k\<lparr>tsItemUsedFlag := (tsItemUsedFlag k)[i := True]\<rparr>)
           | None \<Rightarrow> (0, k))"

text \<open>\<open>freeTs\<close> gives the slot back; \<open>b\<close> are the bytes the queue leaves in it.\<close>

definition freeTs :: "LinkQueueMem \<Rightarrow> bytes \<Rightarrow> 'z TsPool_scheme \<Rightarrow> 'z TsPool_scheme" where
  "freeTs mem b k =
     (case find (\<lambda>i. Suc i = pMem mem) [0..<4] of
        None \<Rightarrow> k
      | Some i \<Rightarrow> if \<not> tsItemUsedFlag k ! i then k
          else k\<lparr>tsItemUsedFlag := (tsItemUsedFlag k)[i := False], pTsItem := (pTsItem k)[i := b]\<rparr>)"

text \<open>\<open>LinkDestroyQueue\<close> on a queue of the store; a queue that is gone is a use after free.\<close>

definition destroyQueue :: "nat \<Rightarrow> 'z TsPool_scheme \<Rightarrow> 'z TsPool_scheme run" where
  "destroyQueue p k =
     (case tsQueues k p of
        None \<Rightarrow> Inl Double_free
      | Some q \<Rightarrow>
          (case LinkDestroyQueue (Some q) of
             (_, Some q', _) \<Rightarrow> Inr (k\<lparr>tsQueues := (tsQueues k)(p \<mapsto> q')\<rparr>)
           | (_, None, Release_callback mem) \<Rightarrow>
               Inr (freeTs mem (pData q) (k\<lparr>tsQueues := (tsQueues k)(p := None)\<rparr>))
           | (_, None, _) \<Rightarrow> Inr (k\<lparr>tsQueues := (tsQueues k)(p := None)\<rparr>)))"

text \<open>
  A new queue over a slot. When the queue cannot be made, the code passes the slot itself to \<open>freeTs\<close>
  where a \<open>LinkQueueMem\<close> is expected: the pointers it then follows are the slot's contents.
\<close>

definition allocDataQueueAndUploadMeta ::
    "TsAlloc \<Rightarrow> 'z TsPool_scheme \<Rightarrow> (int \<times> 'z TsPool_scheme) run" where
  "allocDataQueueAndUploadMeta a k =
     (if \<not> metaOk a then Inr (LINK_NO_MEMORY, k\<lparr>pUpMeta := None\<rparr>)
      else case allocTs (poolOk a) (k\<lparr>pUpMeta := Some []\<rparr>) of
        (mem, k) \<Rightarrow>
          if mem = 0 then Inr (LINK_NO_MEMORY, k\<lparr>pUpMeta := None\<rparr>)
          else let k = k\<lparr>pQueue := None\<rparr> in
            (case LinkNewCircleQueue (structOk a) None (mutexRet a) (condRet a) True (koPolicy k)
                    (nMaxItemLen k) (nInitItemCount k)
                    (Some (\<lparr>pMem = mem, freeMem = True\<rparr>, pTsItem k ! (mem - 1))) of
               (ret, Some q) \<Rightarrow> Inr (LINK_SUCCESS, k\<lparr>tsQueues := (tsQueues k)(nextQueue k \<mapsto> q),
                   pQueue := Some (nextQueue k), nextQueue := nextQueue k + 1\<rparr>)
             | (ret, None) \<Rightarrow> Inl Out_of_bounds))"

subsection \<open>Pushing commands\<close>

abbreviation (input) sizeof_TsUploaderCommand :: int where "sizeof_TsUploaderCommand \<equiv> 88"

definition pushCommand :: "TsUploaderCommand \<Rightarrow> 'z TsPool_scheme \<Rightarrow> int \<times> 'z TsPool_scheme" where
  "pushCommand c k = (if length (pCommandQueue k) < 96
     then (sizeof_TsUploaderCommand, k\<lparr>pCommandQueue := pCommandQueue k @ [c]\<rparr>) else (LINK_Q_OVERFLOW, k))"

definition pushTsCb :: "TsUploaderCommand \<Rightarrow> 'z TsPool_scheme \<Rightarrow> int \<times> 'z TsPool_scheme" where
  "pushTsCb c k = (if length (pTsCbQueue k) < 24
     then (sizeof_TsUploaderCommand, k\<lparr>pTsCbQueue := pTsCbQueue k @ [c]\<rparr>) else (LINK_Q_OVERFLOW, k))"

subsection \<open>The producer\<close>

definition streamPushData ::
    "TsAlloc \<Rightarrow> 'z TsPool_scheme \<Rightarrow> bytes \<Rightarrow> (int \<times> 'z TsPool_scheme) run" where
  "streamPushData a k d =
     and_then (if pQueue k = None then allocDataQueueAndUploadMeta a k else Inr (LINK_SUCCESS, k)) (\<lambda>(ret, k).
       if ret \<noteq> LINK_SUCCESS then Inr (ret, k)
       else case pQueue k of
           None \<Rightarrow> Inl Null_deref
         | Some p \<Rightarrow> (case tsQueues k p of
             None \<Rightarrow> Inl Double_free
           | Some q \<Rightarrow> and_then (PushQueue None q (Some d)) (\<lambda>(ret, q).
               Inr (ret, k\<lparr>tsQueues := (tsQueues k)(p \<mapsto> q)\<rparr>))))"

text \<open>
  The end of a segment. \<open>LINK_TSU_END_TIME\<close> closes the accounting of the segment, \<open>LINK_TSU_UPLOAD\<close> hands
  over its data; when the upload thread is too far behind, \<open>LINK_DROP_TS\<close> only closes the accounting. The
  callback thread gets the data in every case. The first reference is the one the queue was made with.
\<close>

definition withQueue ::
    "nat \<Rightarrow> (CircleQueueImp \<Rightarrow> CircleQueueImp) \<Rightarrow> 'z TsPool_scheme \<Rightarrow> 'z TsPool_scheme run" where
  "withQueue p f k = (case tsQueues k p of None \<Rightarrow> Inl Double_free
     | Some q \<Rightarrow> Inr (k\<lparr>tsQueues := (tsQueues k)(p \<mapsto> f q)\<rparr>))"

definition queueSegment ::
    "nat \<Rightarrow> LinkKeyFrameMetaInfo list option \<Rightarrow> LinkReportTimeInfo \<Rightarrow> 'z TsPool_scheme \<Rightarrow> bool \<times> 'z TsPool_scheme" where
  "queueSegment p meta ti k =
     (if nTsMaxCacheNum k \<le> nTsCacheNum k then (True, snd (pushCommand (LINK_DROP_TS None ti) k))
      else case pushCommand (LINK_TSU_END_TIME ti) k of (ret, k) \<Rightarrow>
        if ret \<le> 0 then (True, k)
        else case pushCommand (LINK_TSU_UPLOAD (Some p) meta ti) k of (ret, k) \<Rightarrow>
          if 0 < ret then (False, k\<lparr>nTsCacheNum := nTsCacheNum k + 1\<rparr>) else (True, k))"

definition notifyDataPrapared ::
    "TsAlloc \<Rightarrow> 'z TsPool_scheme \<Rightarrow> LinkReportTimeInfo \<Rightarrow> 'z TsPool_scheme run" where
  "notifyDataPrapared a k ti =
     (case pQueue k of
        None \<Rightarrow> Inl Null_deref
      | Some p \<Rightarrow>
          let meta = pUpMeta k; k = k\<lparr>pQueue := None, pUpMeta := None\<rparr> in
          and_then (withQueue p LinkQueueIncRefCount k) (\<lambda>k.
          let (drop, k) = queueSegment p meta ti k; ti = ti\<lparr>tiReserved := nTsLastStartTime k\<rparr> in
          and_then (if drop then withQueue p LinkQueueDecRefCount k else Inr k) (\<lambda>k.
          let (ret, k) = pushTsCb (if drop then LINK_DROP_TS (Some p) ti else LINK_TSU_UPLOAD (Some p) meta ti) k in
          and_then (if ret \<le> 0 \<and> drop then destroyQueue p k else Inr k) (\<lambda>k.
          and_then (allocDataQueueAndUploadMeta a k) (\<lambda>(_, k). Inr k)))))"

definition getUploaderStatInfo :: "'z TsPool_scheme \<Rightarrow> LinkUploaderStatInfo \<Rightarrow> LinkUploaderStatInfo run" where
  "getUploaderStatInfo k info =
     (case pQueue k of None \<Rightarrow> Inl Null_deref
      | Some p \<Rightarrow> (case tsQueues k p of None \<Rightarrow> Inl Double_free | Some q \<Rightarrow> Inr (getStatInfo q info)))"

datatype LinkUploaderTimeInfoType = LINK_SEG_TIMESTAMP | LINK_TS_START | LINK_TS_END

definition reportTimeInfo ::
    "TsAlloc \<Rightarrow> 'z TsPool_scheme \<Rightarrow> LinkReportTimeInfo \<Rightarrow> LinkUploaderTimeInfoType \<Rightarrow> 'z TsPool_scheme run" where
  "reportTimeInfo a k ti ty =
     (case ty of
        LINK_TS_START \<Rightarrow> Inr (snd (pushCommand (LINK_TSU_START_TIME ti) (k\<lparr>nTsLastStartTime := tiSystimestamp ti\<rparr>)))
      | LINK_TS_END \<Rightarrow> notifyDataPrapared a k ti
      | LINK_SEG_TIMESTAMP \<Rightarrow> Inr (snd (pushCommand (LINK_TSU_SEG_TIME ti) k)))"

text \<open>Time stamps are cut to 33 bits here.\<close>

definition LinkAppendKeyframeMetaInfo :: "'z TsPool_scheme \<Rightarrow> LinkKeyFrameMetaInfo \<Rightarrow> 'z TsPool_scheme" where
  "LinkAppendKeyframeMetaInfo k m =
     (case pUpMeta k of
        None \<Rightarrow> k
      | Some ms \<Rightarrow> if length ms < 10
          then k\<lparr>pUpMeta := Some (ms @ [m\<lparr>nTimestamp90Khz := nTimestamp90Khz m AND 0x1FFFFFFFF\<rparr>])\<rparr> else k)"

definition LinkSetTsCacheBufferInitSize :: "'z TsPool_scheme \<Rightarrow> int \<Rightarrow> bool \<Rightarrow> 'z TsPool_scheme run" where
  "LinkSetTsCacheBufferInitSize k nSize isFix =
     (if nMaxItemLen k = 0 then Inl Assertion_failed
      else Inr (k\<lparr>nInitItemCount := c_div nSize (nMaxItemLen k), isAdjustQueueSize := \<not> isFix, koCap := nSize\<rparr>))"

definition LinkSetSessionMeta :: "'z TsPool_scheme \<Rightarrow> LinkSessionMeta \<Rightarrow> LinkSessionMeta \<Rightarrow> 'z TsPool_scheme" where
  "LinkSetSessionMeta k m m2 =
     (case pushCommand (LINK_TSU_SET_META m) k of (ret, k) \<Rightarrow>
        if ret \<le> 0 then k else snd (pushTsCb (LINK_TSU_SET_META m2) k))"

definition LinkClearSessionMeta :: "'z TsPool_scheme \<Rightarrow> 'z TsPool_scheme" where
  "LinkClearSessionMeta k =
     (case pushCommand LINK_TSU_CLR_META k of (ret, k) \<Rightarrow>
        if ret \<le> 0 then k else snd (pushTsCb LINK_TSU_CLR_META k))"

text \<open>The name's buffer gets room for the session identifier; \<open>ok\<close> is the answer of \<open>malloc\<close>.\<close>

definition LinkTsUploaderPushPic :: "bool \<Rightarrow> 'z TsPool_scheme \<Rightarrow> bytes \<Rightarrow> bytes \<Rightarrow> int \<times> 'z TsPool_scheme" where
  "LinkTsUploaderPushPic ok k name buf =
     (if nTsMaxCacheNum k \<le> nTsCacheNum k then (LINK_MAX_CACHE, k)
      else if \<not> ok then (LINK_NO_MEMORY, k)
      else case pushCommand (LINK_TSU_PICTURE \<lparr>picFilename = name @ replicate 25 0,
              nFilenameLen = length name, picBuf = buf\<rparr>) k of (ret, k) \<Rightarrow>
        if ret \<le> 0 then (ret, k) else (LINK_SUCCESS, k))"

definition LinkTsUploaderSetPlanType :: "'z TsPool_scheme \<Rightarrow> LinkPlanType \<Rightarrow> 'z TsPool_scheme" where
  "LinkTsUploaderSetPlanType k p = snd (pushCommand (LINK_TSU_SET_PLAN_TYPE p) k)"

end
