(* ===== verification/TsUploader.thy ===== *)
theory TsUploader
  imports TsPool PutBuffer
begin

section \<open>The upload thread and the callback thread (tsuploader.c)\<close>

text \<open>
  The upload thread takes commands off its queue one by one: it keeps the account of
  durations of the session, asks whether the session goes on (\<open>updateSegmentId\<close>), uploads
  segments with their metadata and pictures, and reports sessions to the segment manager. The callback
  thread hands each finished segment to the application. What the thread asks of its surroundings is
  collected in a record of answers, what it sends out in lists of the state. Times and durations are unbounded
  integers (64 bit in the code).
\<close>

subsection \<open>State\<close>

datatype LinkUploadState = LINK_UPLOAD_INIT | LINK_UPLOAD_FAIL | LINK_UPLOAD_OK
datatype LinkUploadKind = LINK_UPLOAD_TS | LINK_UPLOAD_PIC | LINK_UPLOAD_SEG | LINK_UPLOAD_MOVE_SEG
datatype LinkUploadResult = LINK_UPLOAD_RESULT_OK | LINK_UPLOAD_RESULT_FAIL

record LinkMediaArg =
  nAudioFormat :: LinkAudioFormat
  nChannels :: int
  nSamplerate :: int
  nVideoFormat :: LinkVideoFormat

datatype LinkMediaType = LINK_MEDIA_AUDIO LinkAudioFormat int int | LINK_MEDIA_VIDEO LinkVideoFormat

record LinkMediaInfo =
  startTime :: int
  endTime :: int
  media :: "LinkMediaType list"
  infoSessionId :: bytes
  infoSessionMeta :: "LinkSessionMeta option"

record KodoUploader = TsPool +
  isForceSeg :: bool
  uploadState :: LinkUploadState
  nQuit :: bool
  planType :: LinkPlanType
  hasUpdater :: bool
  keeper :: SessionKeeper
  session :: LinkSession
  bakSession :: LinkSession
  reportType :: int
  isSegStartReport :: bool
  isFirstSessionPicReported :: bool
  nInternalForceSegFlag :: bool
  lastAudioDuration :: int
  lastVideoDuration :: int
  nLastSystime :: int
  nFirstSystime :: int
  nLastSystimeBak :: int
  koLastTsEndTime :: int
  nLastTsDuration :: int
  hasEndCallback :: bool
  hasOutput :: bool
  mediaArg :: LinkMediaArg
  pSessionMeta :: "LinkSessionMeta option"
  picture :: "LinkPicture option"
  lastReportAccDuration :: int
  isClr :: bool
  recvQuit :: bool
  workerCmd :: "TsUploaderCommand option"
  cbMeta :: "LinkSessionMeta option"
  cbOneShot :: bool
  cbQuit :: bool
  cbCmd :: "TsUploaderCommand option"
  puts :: "PutRequest list"
  picUploads :: "LinkPicture list"
  statistics :: "(LinkUploadKind \<times> LinkUploadResult) list"
  endUploads :: "int list"
  tsOutputs :: "(bytes \<times> LinkMediaInfo) list"

text \<open>
  Answers of one step: the clock, \<open>uploadParamCallback\<close> (its result, host, token and the
  length of the file prefix), \<open>LinkUploadPicture\<close> (its result and the code it leaves), the contents of an
  uninitialised block and the server's answer.
\<close>

record UploadEnv =
  envNow :: int
  envParam :: "int \<times> bytes \<times> bytes \<times> int"
  envPicture :: "int \<times> int"
  envJunk :: bytes
  envPut :: "PutRequest \<Rightarrow> int \<times> int"
  hasStatisticCb :: bool

subsection \<open>Accounting\<close>

definition resizeQueueSize :: "KodoUploader \<Rightarrow> int \<Rightarrow> int \<Rightarrow> KodoUploader" where
  "resizeQueueSize k nCurLen nCurTsDuration =
     (let items = (\<lambda>kb k. k\<lparr>nInitItemCount := c_div (kb * 1024) (nMaxItemLen k)\<rparr>) in
      if nCurTsDuration < 4500 then k
      else
        let k = (if 1280 * 1024 < nCurLen then items 1536 k
                 else if 896 * 1024 < nCurLen then items 1152 k
                 else if 640 * 1024 < nCurLen then items 896 k else k)
        in if nCurLen < 640 * 1024 then items 640 k
           else if nCurLen < 896 * 1024 then items 896 k
           else if nCurLen < 1152 * 1024 then items 1152 k else k)"

definition handleSessionCheck ::
    "int \<Rightarrow> KodoUploader \<Rightarrow> int \<Rightarrow> bool \<Rightarrow> int \<Rightarrow> (int \<times> KodoUploader) run" where
  "handleSessionCheck now k nSysTimestamp isForceNewSession nCurTsDuration =
     (if hasUpdater k then
        and_then (if isForceNewSession
                  then updateSegmentId now (keeper k) (session k) nSysTimestamp 0 nCurTsDuration
                  else updateSegmentId now (keeper k) (session k) (nTsStartTime (session k)) nSysTimestamp nCurTsDuration)
          (\<lambda>(ty, s, kp). Inr (ty, k\<lparr>session := s, keeper := kp\<rparr>))
      else Inr (0, k))"

definition handleSegTimeReport :: "int \<Rightarrow> KodoUploader \<Rightarrow> int \<Rightarrow> bool \<Rightarrow> KodoUploader run" where
  "handleSegTimeReport now k nCurSysTime fromInternal =
     (if fromInternal \<and> nInternalForceSegFlag k then Inr k
      else and_then (handleSessionCheck now (k\<lparr>bakSession := session k\<rparr>) nCurSysTime True 0) (\<lambda>(ty, k).
        let k = k\<lparr>reportType := ty\<rparr> in
        if fromInternal then
          let b = (bakSession k)\<lparr>nSessionEndTime := nLastTsEndTime (session k)\<rparr>
          in Inr (k\<lparr>bakSession := (if 1 < nTsSequenceNumber b
                 then b\<lparr>nTsSequenceNumber := nTsSequenceNumber b - 1\<rparr> else b)\<rparr>)
        else Inr k))"

definition handleTsStartTimeReport :: "int \<Rightarrow> KodoUploader \<Rightarrow> LinkReportTimeInfo \<Rightarrow> KodoUploader run" where
  "handleTsStartTimeReport now k ti =
     (let k = k\<lparr>session := resetSessionReportScope (session k)\<rparr>; force = isForceSeg k in
      and_then (if force then handleSegTimeReport now (k\<lparr>isForceSeg := False\<rparr>) (tiSystimestamp ti) False else Inr k) (\<lambda>k.
      let k = (if nFirstSystime k \<le> 0 then k\<lparr>nFirstSystime := tiSystimestamp ti\<rparr> else k);
          s = session k;
          s = (if nSessionStartTime s \<le> 0 then s\<lparr>nSessionStartTime := tiSystimestamp ti\<rparr> else s);
          s = s\<lparr>nTsStartTime := tiSystimestamp ti\<rparr>;
          k = k\<lparr>session := s, nLastSystime := tiSystimestamp ti, nFirstSystime := tiSystimestamp ti\<rparr>
      in and_then
          (if reportType k = 0 then
             and_then (handleSessionCheck now
                 (k\<lparr>bakSession := session k,
                    session := (session k)\<lparr>nTsSequenceNumber := nTsSequenceNumber (session k) + 1\<rparr>\<rparr>)
                 (tiSystimestamp ti) False (nLastTsDuration k)) (\<lambda>(ty, k). Inr (k\<lparr>reportType := ty\<rparr>))
           else if \<not> force then
             and_then (handleSessionCheck now k (tiSystimestamp ti) False (nLastTsDuration k)) (\<lambda>(ty, k).
               Inr (k\<lparr>reportType := reportType k OR ty\<rparr>))
           else Inr k) (\<lambda>k.
        Inr (k\<lparr>bakSession := (bakSession k)\<lparr>nSessionEndTime := nLastTsEndTime (session k)\<rparr>\<rparr>))))"

definition restoreDuration :: "KodoUploader \<Rightarrow> KodoUploader" where
  "restoreDuration k =
     (let s = session k in
      k\<lparr>session := s\<lparr>nAccSessionVideoDuration := nAccSessionVideoDuration s - lastVideoDuration k,
          nAccSessionAudioDuration := nAccSessionAudioDuration s - lastAudioDuration k,
          nVideoGapFromLastReport := nVideoGapFromLastReport s - lastVideoDuration k,
          nAudioGapFromLastReport := nAudioGapFromLastReport s - lastAudioDuration k,
          nAccSessionDuration := nAccSessionDuration s - nTsDuration s,
          nTsDuration := 0\<rparr>,
        lastVideoDuration := 0, lastAudioDuration := 0\<rparr>)"

definition handleTsEndTimeReport :: "KodoUploader \<Rightarrow> LinkReportTimeInfo \<Rightarrow> KodoUploader" where
  "handleTsEndTimeReport k ti =
     (let k = (if nFirstSystime k \<le> 0 then k\<lparr>nFirstSystime := tiSystimestamp ti\<rparr> else k);
          a = tiAudioDuration ti; v = tiVideoDuration ti; s = session k;
          d = (if (v \<le> 0 \<and> 0 < a) \<or> v < a then a else v)
      in k\<lparr>session := s\<lparr>nAccSessionVideoDuration := nAccSessionVideoDuration s + v,
             nAccSessionAudioDuration := nAccSessionAudioDuration s + a,
             nTotalSessionVideoDuration := nTotalSessionVideoDuration s + v,
             nTotalSessionAudioDuration := nTotalSessionAudioDuration s + a,
             nVideoGapFromLastReport := nVideoGapFromLastReport s + v,
             nAudioGapFromLastReport := nAudioGapFromLastReport s + a,
             nTsDuration := d,
             nAccSessionDuration := nAccSessionDuration s + d\<rparr>,
           lastAudioDuration := a, lastVideoDuration := v, nLastSystime := tiSystimestamp ti\<rparr>)"

definition checkAndSetFirstSessionPicReportedStatus :: "KodoUploader \<Rightarrow> KodoUploader" where
  "checkAndSetFirstSessionPicReportedStatus k =
     (if isFirstSessionPicReported k
      then k\<lparr>isFirstSessionPicReported := False, isSegStartReport := False\<rparr> else k)"

subsection \<open>Uploading a segment\<close>

definition statistic :: "UploadEnv \<Rightarrow> LinkUploadKind \<Rightarrow> LinkUploadResult \<Rightarrow> KodoUploader \<Rightarrow> KodoUploader" where
  "statistic e kind r k = (if hasStatisticCb e then k\<lparr>statistics := statistics k @ [(kind, r)]\<rparr> else k)"

text \<open>The picture's name gets the session identifier and a new ending; then it is uploaded and forgotten.\<close>

definition uploadPicture :: "UploadEnv \<Rightarrow> KodoUploader \<Rightarrow> (int \<times> KodoUploader) run" where
  "uploadPicture e k =
     (case picture k of
        None \<Rightarrow> Inr (1000, k)
      | Some p \<Rightarrow>
          let name = take 24 ([45] @ c_string (sessionId (session k)) @ [46, 106, 112, 103]) @ [0] in
          if nFilenameLen p < 4 then Inl Out_of_bounds
          else and_then (write_at (nFilenameLen p - 4) name (picFilename p)) (\<lambda>b.
            let (res, code) = envPicture e;
                k = k\<lparr>picUploads := picUploads k @ [p\<lparr>picFilename := b\<rparr>], picture := None\<rparr>
            in Inr (code, statistic e LINK_UPLOAD_PIC
                 (if res = 0 then LINK_UPLOAD_RESULT_OK else LINK_UPLOAD_RESULT_FAIL) k)))"

definition segment_key :: "LinkSession \<Rightarrow> int \<Rightarrow> bytes" where
  "segment_key s tsEndTime = take 255 ([116, 115, 47] @ print_int (c_div (nTsStartTime s) 1000000) @ [45] @
     print_int (c_div tsEndTime 1000000) @ [45] @ c_string (sessionId s) @ [46, 116, 115])"

definition custom_magic :: "LinkSession \<Rightarrow> int \<Rightarrow> bytes list" where
  "custom_magic s tsEndTime =
     [[120, 58, 115, 116, 97, 114, 116], take 13 (print_int (c_div (nTsStartTime s) 1000000)),
      [120, 58, 101, 110, 100], take 13 (print_int (c_div tsEndTime 1000000)),
      [120, 58, 115, 101, 115, 115, 105, 111, 110], c_string (sessionId s)]"

text \<open>
  The body of \<open>if (shouldUpload)\<close>: the picture, the parameters, the transfer. The result is whether the
  segment was uploaded and the code the picture left (1000 without one).
\<close>

definition uploadSegment ::
    "UploadEnv \<Rightarrow> bytes \<Rightarrow> LinkKeyFrameMetaInfo list option \<Rightarrow> int \<Rightarrow> int \<Rightarrow> KodoUploader
      \<Rightarrow> (bool \<times> int \<times> KodoUploader) run" where
  "uploadSegment e buf meta tsEndTime isDiscontinuity k =
     and_then (uploadPicture e k) (\<lambda>(picRet, k).
       case envParam e of (ret, upHost, uptoken, nFilePrefix) \<Rightarrow>
         if ret \<noteq> LINK_SUCCESS then Inr (False, picRet, k)
         else (case meta of
             None \<Rightarrow> Inl Null_deref
           | Some metas \<Rightarrow>
               and_then (linkPutBuffer (envJunk e) (envPut e) upHost uptoken (segment_key (session k) tsEndTime) buf metas
                   (if 0 < nFilePrefix then [] else custom_magic (session k) tsEndTime)
                   (nTsDuration (session k)) (nTsSequenceNumber (session k)) isDiscontinuity) (\<lambda>(putRet, req).
                 let ok = (putRet = LINK_SUCCESS) in
                 Inr (ok, picRet, statistic e LINK_UPLOAD_TS
                   (if ok then LINK_UPLOAD_RESULT_OK else LINK_UPLOAD_RESULT_FAIL)
                   (k\<lparr>puts := puts k @ [req], uploadState := (if ok then LINK_UPLOAD_OK else LINK_UPLOAD_FAIL)\<rparr>)))))"

definition LinkUpdateSegment :: "int \<Rightarrow> LinkSession \<Rightarrow> LinkSessionMeta option \<Rightarrow> KodoUploader \<Rightarrow> KodoUploader" where
  "LinkUpdateSegment h s m k = k\<lparr>keeper := LinkUpdateSegment_call h s m (keeper k)\<rparr>"

text \<open>The report that ends the previous session.\<close>

definition reportSessionEnd :: "int \<Rightarrow> KodoUploader \<Rightarrow> KodoUploader run" where
  "reportSessionEnd picRet k =
     (if isSegStartReport k \<and> reportType k AND 4 \<noteq> 0 then
        let k = k\<lparr>session := (session k)\<lparr>coverStatus := 1000\<rparr>\<rparr>;
            b = (bakSession k)\<lparr>isNewSessionStarted := 0, nSessionEndResonCode := nSessionEndResonCode (session k)\<rparr>
        in if nSessionEndResonCode b = 0 then Inl Assertion_failed
           else let b = (if isFirstSessionPicReported k then setSessionCoverStatus b picRet else b)
             in Inr ((LinkUpdateSegment (segHandle (session k)) b (pSessionMeta k) k)
                  \<lparr>isSegStartReport := False, bakSession := zeroSession\<rparr>)
      else Inr k)"

text \<open>The report that starts a session, with the sequence number 1, whether the upload worked or not.\<close>

definition reportSessionStart :: "int \<Rightarrow> KodoUploader \<Rightarrow> KodoUploader" where
  "reportSessionStart picRet k =
     (let s = (setSessionCoverStatus ((session k)\<lparr>isNewSessionStarted := 1\<rparr>) picRet)\<lparr>nTsSequenceNumber := 1\<rparr>
      in (LinkUpdateSegment (segHandle s) s (pSessionMeta k) k)
           \<lparr>session := s\<lparr>isNewSessionStarted := 0\<rparr>, isSegStartReport := True\<rparr>)"

definition reportSegment :: "bool \<Rightarrow> bool \<Rightarrow> int \<Rightarrow> KodoUploader \<Rightarrow> KodoUploader" where
  "reportSegment uploaded shouldReport picRet k =
     (if uploaded then
        if shouldReport then
          if reportType k AND 1 \<noteq> 0 then reportSessionStart picRet k
          else if reportType k AND 2 \<noteq> 0 then
            let s = (if isFirstSessionPicReported k then setSessionCoverStatus (session k) picRet else session k)
            in LinkUpdateSegment (segHandle s) s None (k\<lparr>session := s\<rparr>)
          else k
        else k
      else
        let k = restoreDuration k in
        if shouldReport \<and> reportType k AND 1 \<noteq> 0 then reportSessionStart picRet k else k)"

definition wantsUpload :: "KodoUploader \<Rightarrow> bool" where
  "wantsUpload k = ((pSessionMeta k \<noteq> None \<and> planType k = LINK_PLAN_TYPE_MOVE) \<or> planType k = LINK_PLAN_TYPE_24)"

text \<open>What both commands leave when they are done.\<close>

definition finishSegment :: "bool \<Rightarrow> int \<Rightarrow> KodoUploader \<Rightarrow> KodoUploader" where
  "finishSegment isDrop tsStartTime k =
     (let s = resetSessionCurrentTsScope (resetSessionReportScope (session k))
      in k\<lparr>session := s\<lparr>nSessionEndResonCode := 0\<rparr>,
           endUploads := (if hasEndCallback k then endUploads k @ [c_div tsStartTime 1000000] else endUploads k),
           pSessionMeta := (case pSessionMeta k of Some m \<Rightarrow> if isOneShot m then None else Some m | None \<Rightarrow> None),
           reportType := 0, isFirstSessionPicReported := False, nInternalForceSegFlag := False,
           nTsCacheNum := (if isDrop then nTsCacheNum k else nTsCacheNum k - 1),
           lastReportAccDuration := nAccSessionVideoDuration s\<rparr>)"

definition bufferUpload ::
    "UploadEnv \<Rightarrow> bool \<Rightarrow> nat option \<Rightarrow> LinkKeyFrameMetaInfo list option \<Rightarrow> KodoUploader \<Rightarrow> KodoUploader run" where
  "bufferUpload e isDrop pDataQueue meta k =
     (let getUploadParamOk = False;
          tsStartTime = nTsStartTime (session k);
          tsEndTime = nLastSystime k - 40 * 1000000;
          k = k\<lparr>koLastTsEndTime := tsEndTime, nLastTsDuration := nTsDuration (session k)\<rparr>
      in and_then (case pDataQueue of
             None \<Rightarrow> Inr (0, None)
           | Some p \<Rightarrow> (case tsQueues k p of None \<Rightarrow> Inl Double_free | Some q \<Rightarrow> Inr (LinkGetQueueBuffer q))) (\<lambda>(getBufDataRet, bufData).
         let should = (wantsUpload k \<and> 0 < getBufDataRet) in
         and_then (copy_id (sessionId (session k))) (\<lambda>_.
         let isDiscontinuity = (if 0 < nLastSystimeBak k \<and> getUploadParamOk \<and>
               200000000 < nFirstSystime k - nLastSystimeBak k then 1 else 0);
             k = k\<lparr>nLastSystimeBak := nLastSystime k, nFirstSystime := 0\<rparr>
         in and_then (if should then uploadSegment e (the bufData) meta tsEndTime isDiscontinuity k
                      else Inr (False, 1000, k)) (\<lambda>(uploaded, picRet, k).
            and_then (reportSessionEnd picRet k) (\<lambda>k.
            let k = k\<lparr>session := (session k)\<lparr>nLastTsEndTime := koLastTsEndTime k\<rparr>\<rparr>;
                k = reportSegment uploaded should picRet k in
            and_then (case pDataQueue of None \<Rightarrow> Inr k | Some p \<Rightarrow> destroyQueue p k) (\<lambda>k.
              Inr (finishSegment isDrop tsStartTime k)))))))"

definition handleDropTsReport :: "UploadEnv \<Rightarrow> KodoUploader \<Rightarrow> nat option \<Rightarrow> LinkReportTimeInfo \<Rightarrow> KodoUploader run" where
  "handleDropTsReport e k p ti = bufferUpload e True p None (handleTsEndTimeReport k ti)"

subsection \<open>The upload thread\<close>

definition one_shot :: "KodoUploader \<Rightarrow> bool" where
  "one_shot k = (case pSessionMeta k of Some m \<Rightarrow> isOneShot m | None \<Rightarrow> False)"

definition forceSession :: "UploadEnv \<Rightarrow> KodoUploader \<Rightarrow> int \<Rightarrow> KodoUploader run" where
  "forceSession e k t =
     and_then (handleSegTimeReport (envNow e)
         (checkAndSetFirstSessionPicReportedStatus (if one_shot k then k\<lparr>pSessionMeta := None\<rparr> else k)) t False) (\<lambda>k.
       if 0 < nAccSessionDuration (bakSession k) then
         let b = (bakSession k)\<lparr>nSessionEndTime := nLastTsEndTime (bakSession k), isNewSessionStarted := 0,
                   nSessionEndResonCode := nSessionEndResonCode (session k)\<rparr>
         in Inr ((LinkUpdateSegment (segHandle b) b (pSessionMeta k) k)
              \<lparr>isSegStartReport := False, bakSession := zeroSession\<rparr>)
       else Inr k)"

definition setMeta :: "UploadEnv \<Rightarrow> KodoUploader \<Rightarrow> LinkSessionMeta \<Rightarrow> KodoUploader run" where
  "setMeta e k m =
     (let k = (checkAndSetFirstSessionPicReportedStatus (k\<lparr>isClr := False\<rparr>))\<lparr>pSessionMeta := None\<rparr> in
      and_then (if nInternalForceSegFlag k then Inr k
                else if \<not> isForceSeg k \<and> 0 < nFirstSystime k then
                  if 0 < nTsSequenceNumber (session k)
                  then handleSegTimeReport (envNow e) k (nFirstSystime k) True else Inr k
                else Inr (k\<lparr>isForceSeg := True\<rparr>)) (\<lambda>k.
        Inr (k\<lparr>nInternalForceSegFlag := True, pSessionMeta := Some m\<rparr>)))"

definition clearMeta :: "KodoUploader \<Rightarrow> KodoUploader" where
  "clearMeta k =
     (let k = checkAndSetFirstSessionPicReportedStatus (k\<lparr>isClr := True\<rparr>);
          k = k\<lparr>pSessionMeta := map_option (\<lambda>m. m\<lparr>isOneShot := True\<rparr>) (pSessionMeta k)\<rparr>;
          k = (if \<not> nInternalForceSegFlag k \<and> 0 < nFirstSystime k then k\<lparr>isForceSeg := True\<rparr> else k)
      in k\<lparr>nInternalForceSegFlag := True\<rparr>)"

definition quitUpload :: "KodoUploader \<Rightarrow> KodoUploader" where
  "quitUpload k =
     (let k = k\<lparr>recvQuit := True\<rparr> in
      if 0 < nAccSessionDuration (session k) then
        let s = (session k)\<lparr>nSessionEndResonCode := 4, nSessionEndTime := nLastTsEndTime (session k)\<rparr>
        in LinkUpdateSegment (segHandle s) s (pSessionMeta k) (k\<lparr>session := s\<rparr>)
      else k)"

fun handleCommand :: "UploadEnv \<Rightarrow> TsUploaderCommand \<Rightarrow> KodoUploader \<Rightarrow> KodoUploader run" where
  "handleCommand e (LINK_TSU_UPLOAD p meta ti) k = bufferUpload e False p meta k"
| "handleCommand e (LINK_DROP_TS p ti) k = handleDropTsReport e k p ti"
| "handleCommand e (LINK_TSU_PICTURE p) k = Inr (k\<lparr>picture := Some p\<rparr>)"
| "handleCommand e LINK_TSU_QUIT k = Inr (quitUpload k)"
| "handleCommand e (LINK_TSU_START_TIME ti) k =
     handleTsStartTimeReport (envNow e)
       (if isClr k \<and> one_shot k then k\<lparr>pSessionMeta := None, isClr := False\<rparr> else k) ti"
| "handleCommand e (LINK_TSU_END_TIME ti) k = Inr (handleTsEndTimeReport k ti)"
| "handleCommand e (LINK_TSU_SEG_TIME ti) k = forceSession e k (tiSystimestamp ti)"
| "handleCommand e (LINK_TSU_SET_META m) k = setMeta e k m"
| "handleCommand e LINK_TSU_CLR_META k = Inr (clearMeta k)"
| "handleCommand e (LINK_TSU_SET_PLAN_TYPE p) k = Inr (k\<lparr>planType := p\<rparr>)"

text \<open>
  Before its loop the thread starts a session; each turn of the loop takes one command (\<open>pop\<close>) and works on
  it (\<open>handle\<close>); between the two the other threads run. The loop ends when the thread is told to quit and the
  last look at the queue found it empty.
\<close>

definition listenTsUpload_start :: "UploadEnv \<Rightarrow> KodoUploader \<Rightarrow> KodoUploader run" where
  "listenTsUpload_start e k =
     and_then (handleSessionCheck (envNow e) k (envNow e) True 0) (\<lambda>(_, k).
       Inr (k\<lparr>isFirstSessionPicReported := True, isSegStartReport := True, isClr := False, recvQuit := False\<rparr>))"

definition listenTsUpload_pop :: "KodoUploader \<Rightarrow> KodoUploader" where
  "listenTsUpload_pop k =
     (case pCommandQueue k of [] \<Rightarrow> k
      | c # cs \<Rightarrow> if workerCmd k = None then k\<lparr>pCommandQueue := cs, workerCmd := Some c\<rparr> else k)"

definition listenTsUpload_handle :: "UploadEnv \<Rightarrow> KodoUploader \<Rightarrow> KodoUploader run" where
  "listenTsUpload_handle e k =
     (case workerCmd k of None \<Rightarrow> Inr k | Some c \<Rightarrow> handleCommand e c (k\<lparr>workerCmd := None\<rparr>))"

definition listenTsUpload_done :: "KodoUploader \<Rightarrow> bool" where
  "listenTsUpload_done k = ((nQuit k \<or> recvQuit k) \<and> workerCmd k = None \<and> pCommandQueue k = [])"

subsection \<open>The callback thread\<close>

definition doTsOutput :: "KodoUploader \<Rightarrow> bytes option \<Rightarrow> int \<Rightarrow> int \<Rightarrow> LinkSessionMeta option \<Rightarrow> KodoUploader" where
  "doTsOutput k bufData tsStartTime tsEndTime meta =
     (case bufData of
        None \<Rightarrow> k
      | Some b \<Rightarrow>
          if \<not> hasOutput k \<or> b = [] then k
          else let a = mediaArg k;
                   audio = (if nAudioFormat a \<noteq> LINK_AUDIO_NONE
                     then [LINK_MEDIA_AUDIO (nAudioFormat a) (nChannels a) (nSamplerate a)] else []);
                   video = (if nVideoFormat a \<noteq> LINK_VIDEO_NONE then [LINK_MEDIA_VIDEO (nVideoFormat a)] else [])
               in k\<lparr>tsOutputs := tsOutputs k @ [(b, \<lparr>startTime = c_div tsStartTime 1000000,
                    endTime = c_div tsEndTime 1000000, media = audio @ video, infoSessionId = replicate 21 0,
                    infoSessionMeta = meta\<rparr>)]\<rparr>)"

definition cbSegment :: "KodoUploader \<Rightarrow> nat option \<Rightarrow> LinkReportTimeInfo \<Rightarrow> KodoUploader run" where
  "cbSegment k p ti =
     and_then (case p of
         None \<Rightarrow> Inr k
       | Some p \<Rightarrow> (case tsQueues k p of
           None \<Rightarrow> Inl Double_free
         | Some q \<Rightarrow>
             (case LinkGetQueueBuffer q of (ret, b) \<Rightarrow>
                if 0 < ret then destroyQueue p (doTsOutput k b (tiReserved ti) (tiSystimestamp ti) (cbMeta k))
                else Inr k))) (\<lambda>k.
       Inr (if cbOneShot k then k\<lparr>cbMeta := None\<rparr> else k))"

fun handleCbCommand :: "TsUploaderCommand \<Rightarrow> KodoUploader \<Rightarrow> KodoUploader run" where
  "handleCbCommand LINK_TSU_QUIT k = Inr (k\<lparr>cbQuit := True\<rparr>)"
| "handleCbCommand (LINK_DROP_TS p ti) k = cbSegment k p ti"
| "handleCbCommand (LINK_TSU_UPLOAD p meta ti) k = cbSegment k p ti"
| "handleCbCommand (LINK_TSU_SET_META m) k = Inr (k\<lparr>cbMeta := Some m, cbOneShot := False\<rparr>)"
| "handleCbCommand LINK_TSU_CLR_META k = Inr (if cbMeta k \<noteq> None then k\<lparr>cbOneShot := True\<rparr> else k)"
| "handleCbCommand _ k = Inr k"

definition tsCbWorker_pop :: "KodoUploader \<Rightarrow> KodoUploader" where
  "tsCbWorker_pop k =
     (case pTsCbQueue k of [] \<Rightarrow> k
      | c # cs \<Rightarrow> if cbCmd k = None then k\<lparr>pTsCbQueue := cs, cbCmd := Some c\<rparr> else k)"

definition tsCbWorker_handle :: "KodoUploader \<Rightarrow> KodoUploader run" where
  "tsCbWorker_handle k =
     (case cbCmd k of None \<Rightarrow> Inr k | Some c \<Rightarrow> handleCbCommand c (k\<lparr>cbCmd := None\<rparr>))"

subsection \<open>Creation and destruction\<close>

record NewUploaderEnv =
  newAlloc :: TsAlloc
  newStructOk :: bool
  cmdQueueRet :: int
  cbQueueRet :: int
  memMutexRet :: int
  uploadMutexRet :: int
  workerRet :: int
  cbWorkerRet :: int

definition freshUploader :: "bool \<Rightarrow> int \<Rightarrow> CircleQueuePolicy \<Rightarrow> int \<Rightarrow> int \<Rightarrow> SessionKeeper \<Rightarrow> KodoUploader" where
  "freshUploader updater nTsMaxSize pol itemLen itemCount kp =
     \<lparr>koPolicy = pol, nMaxItemLen = itemLen, nInitItemCount = itemCount, koCap = nTsMaxSize,
      isAdjustQueueSize = False, pTsItem = [], tsItemUsedFlag = replicate 4 False,
      tsQueues = Map.empty, nextQueue = 0, pQueue = None, pUpMeta = None, pCommandQueue = [], pTsCbQueue = [],
      nTsCacheNum = 0, nTsMaxCacheNum = 2, nTsLastStartTime = 0,
      isForceSeg = False, uploadState = LINK_UPLOAD_INIT, nQuit = False, planType = LINK_PLAN_TYPE_MOVE,
      hasUpdater = updater, keeper = kp, session = zeroSession, bakSession = zeroSession, reportType = 0,
      isSegStartReport = False, isFirstSessionPicReported = False, nInternalForceSegFlag = False,
      lastAudioDuration = 0, lastVideoDuration = 0, nLastSystime = 0, nFirstSystime = 0, nLastSystimeBak = 0,
      koLastTsEndTime = 0, nLastTsDuration = 0, hasEndCallback = False, hasOutput = False,
      mediaArg = \<lparr>nAudioFormat = LINK_AUDIO_NONE, nChannels = 0, nSamplerate = 0, nVideoFormat = LINK_VIDEO_NONE\<rparr>,
      pSessionMeta = None, picture = None, lastReportAccDuration = 0, isClr = False, recvQuit = False,
      workerCmd = None, cbMeta = None, cbOneShot = True, cbQuit = False, cbCmd = None, puts = [], picUploads = [], statistics = [],
      endUploads = [], tsOutputs = []\<rparr>"

text \<open>
  When a command queue cannot be made, the code frees the uploader and then frees a pointer it reads from
  it. On the other failures everything made so far is released and a code returned.
\<close>

definition LinkNewTsUploader ::
    "NewUploaderEnv \<Rightarrow> bool \<Rightarrow> int \<Rightarrow> CircleQueuePolicy \<Rightarrow> int \<Rightarrow> int \<Rightarrow> SessionKeeper
      \<Rightarrow> (int \<times> KodoUploader option) run" where
  "LinkNewTsUploader e updater nTsMaxSize pol itemLen itemCount kp =
     (if \<not> newStructOk e then Inr (LINK_NO_MEMORY, None)
      else and_then (allocDataQueueAndUploadMeta (newAlloc e)
               (freshUploader updater nTsMaxSize pol itemLen itemCount kp)) (\<lambda>(ret, k).
        if ret \<noteq> LINK_SUCCESS then Inr (ret, None)
        else if cmdQueueRet e \<noteq> 0 \<or> cbQueueRet e \<noteq> 0 then Inl Double_free
        else if memMutexRet e \<noteq> 0 \<or> uploadMutexRet e \<noteq> 0 then Inr (LINK_MUTEX_ERROR, None)
        else if workerRet e \<noteq> 0 \<or> cbWorkerRet e \<noteq> 0 then Inr (LINK_THREAD_ERROR, None)
        else Inr (LINK_SUCCESS, Some k)))"

definition getUploaderState :: "KodoUploader \<Rightarrow> LinkUploadState" where
  "getUploaderState k = uploadState k"

definition LinkTsUploaderSetTsEndUploadCallback :: "KodoUploader \<Rightarrow> bool \<Rightarrow> KodoUploader" where
  "LinkTsUploaderSetTsEndUploadCallback k cb = k\<lparr>hasEndCallback := cb\<rparr>"

definition LinkTsUploaderSetTsCallback :: "KodoUploader \<Rightarrow> bool \<Rightarrow> LinkMediaArg \<Rightarrow> KodoUploader" where
  "LinkTsUploaderSetTsCallback k cb a = k\<lparr>hasOutput := cb, mediaArg := a\<rparr>"

text \<open>
  \<open>LinkDestroyTsUploader\<close> asks both threads to quit (retrying while a queue is full), waits for them and
  releases what is left.
\<close>

definition requestQuit :: "KodoUploader \<Rightarrow> bool \<times> KodoUploader" where
  "requestQuit k =
     (let k = k\<lparr>nQuit := True\<rparr> in
      case pushTsCb LINK_TSU_QUIT k of (ret, k) \<Rightarrow>
        if ret \<le> 0 then (False, k)
        else case pushCommand LINK_TSU_QUIT k of (ret, k) \<Rightarrow> (0 < ret, k))"

definition releaseUploader :: "KodoUploader \<Rightarrow> KodoUploader run" where
  "releaseUploader k =
     and_then (case pQueue k of None \<Rightarrow> Inr k | Some p \<Rightarrow> destroyQueue p k) (\<lambda>k.
       Inr (k\<lparr>pQueue := None, pUpMeta := None, pSessionMeta := None, picture := None, pTsItem := []\<rparr>))"

end
