(* ===== verification/UploaderSafety.thy ===== *)
theory UploaderSafety
  imports TsUploader "HOL-Library.Multiset"
begin

section \<open>Safety of the segment uploader under interleaving\<close>

text \<open>
  Three threads share the pool of segment buffers and the queues over it: the application's (through the
  multiplexer), the upload thread and the callback thread. This theory counts the references to each queue,
  those in commands and those a thread holds, and shows that no interleaving releases a queue twice or uses one that is gone, that live
  queues never share a slot, and that the assertions of the upload thread never fail.
\<close>

subsection \<open>The pool invariant\<close>

definition queue_ok :: "nat \<Rightarrow> CircleQueueImp \<Rightarrow> bool" where
  "queue_ok L q \<longleftrightarrow> \<not> shouldFree q \<and> freeMem (qmem q) \<and> pMem (qmem q) \<in> {1..4} \<and> nItemLen q = L"

definition owned :: "nat \<Rightarrow> nat \<Rightarrow> bool list \<Rightarrow> (nat \<Rightarrow> CircleQueueImp option) \<Rightarrow> bool" where
  "owned L n fl qs \<longleftrightarrow> (\<forall>p q. qs p = Some q \<longrightarrow> p < n \<and> queue_ok L q \<and> fl ! (pMem (qmem q) - 1))"

definition apart :: "(nat \<Rightarrow> CircleQueueImp option) \<Rightarrow> bool" where
  "apart qs \<longleftrightarrow> (\<forall>p p' q q'. qs p = Some q \<longrightarrow> qs p' = Some q' \<longrightarrow> pMem (qmem q) = pMem (qmem q') \<longrightarrow> p = p')"

definition used :: "bool list \<Rightarrow> (nat \<Rightarrow> CircleQueueImp option) \<Rightarrow> bool" where
  "used fl qs \<longleftrightarrow> (\<forall>i < 4. fl ! i \<longrightarrow> (\<exists>p q. qs p = Some q \<and> pMem (qmem q) = Suc i))"

text \<open>\<open>R\<close> has one element for every reference some thread or command holds.\<close>

definition refs_ok :: "(nat \<Rightarrow> CircleQueueImp option) \<Rightarrow> nat multiset \<Rightarrow> bool" where
  "refs_ok qs R \<longleftrightarrow> (\<forall>p \<in># R. \<exists>q. qs p = Some q \<and> int (count R p) \<le> nCount q)"

definition pool_ok :: "'z TsPool_scheme \<Rightarrow> nat multiset \<Rightarrow> bool" where
  "pool_ok k R \<longleftrightarrow> length (tsItemUsedFlag k) = 4 \<and> (pTsItem k = [] \<or> length (pTsItem k) = 4) \<and>
     owned (nat (nMaxItemLen k) + 4) (nextQueue k) (tsItemUsedFlag k) (tsQueues k) \<and>
     apart (tsQueues k) \<and> used (tsItemUsedFlag k) (tsQueues k) \<and> refs_ok (tsQueues k) R"

lemma pool_ok_queue: "pool_ok k R \<Longrightarrow> p \<in># R \<Longrightarrow> \<exists>q. tsQueues k p = Some q \<and> int (count R p) \<le> nCount q"
  by (simp add: pool_ok_def refs_ok_def)

lemma refs_ok_mono:
  assumes "refs_ok qs R" and "R' \<subseteq># R"
  shows "refs_ok qs R'"
  unfolding refs_ok_def
proof
  fix p assume p: "p \<in># R'"
  then obtain q where "qs p = Some q" "int (count R p) \<le> nCount q"
    using assms mset_subset_eqD [OF assms(2)] by (auto simp: refs_ok_def)
  moreover have "count R' p \<le> count R p"
    using assms(2) by (rule mset_subset_eq_count)
  ultimately show "\<exists>q. qs p = Some q \<and> int (count R' p) \<le> nCount q" by auto
qed

lemma pool_ok_mono: "pool_ok k R \<Longrightarrow> R' \<subseteq># R \<Longrightarrow> pool_ok k R'"
  using refs_ok_mono by (auto simp: pool_ok_def)

text \<open>Changing a queue without touching its slot.\<close>

lemma same_slot_update:
  assumes "qs p = Some q" "qmem q' = qmem q" "shouldFree q' = shouldFree q" "nItemLen q' = nItemLen q"
  shows "owned L n fl qs \<Longrightarrow> owned L n fl (qs(p \<mapsto> q'))" and "apart qs \<Longrightarrow> apart (qs(p \<mapsto> q'))"
    and "used fl qs \<Longrightarrow> used fl (qs(p \<mapsto> q'))"
proof -
  show "owned L n fl qs \<Longrightarrow> owned L n fl (qs(p \<mapsto> q'))"
    using assms by (auto simp: owned_def queue_ok_def)
  show "apart qs \<Longrightarrow> apart (qs(p \<mapsto> q'))"
    using assms(1,2) unfolding apart_def by (metis fun_upd_apply option.inject)
  show "used fl qs \<Longrightarrow> used fl (qs(p \<mapsto> q'))"
    using assms(1,2) unfolding used_def by (metis fun_upd_apply option.inject)
qed

lemma refs_ok_update:
  assumes "refs_ok qs R" "\<forall>x \<in># R'. x \<noteq> p \<longrightarrow> x \<in># R \<and> count R' x \<le> count R x"
    and "int (count R' p) \<le> nCount q'"
  shows "refs_ok (qs(p \<mapsto> q')) R'"
  unfolding refs_ok_def
proof
  fix x assume x: "x \<in># R'"
  show "\<exists>q. (qs(p \<mapsto> q')) x = Some q \<and> int (count R' x) \<le> nCount q"
  proof (cases "x = p")
    case False
    then obtain q where "qs x = Some q" "int (count R x) \<le> nCount q" "count R' x \<le> count R x"
      using x assms(1,2) by (auto simp: refs_ok_def)
    then show ?thesis using False by auto
  qed (use assms(3) in simp)
qed

lemma pool_ok_update:
  assumes "pool_ok k R" "tsQueues k p = Some q"
    and "qmem q' = qmem q" "shouldFree q' = shouldFree q" "nItemLen q' = nItemLen q"
    and "\<forall>x \<in># R'. x \<noteq> p \<longrightarrow> x \<in># R \<and> count R' x \<le> count R x" "int (count R' p) \<le> nCount q'"
  shows "pool_ok (k\<lparr>tsQueues := (tsQueues k)(p \<mapsto> q')\<rparr>) R'"
  using assms(1) same_slot_update(1) [of "tsQueues k", OF assms(2-5)]
    same_slot_update(2) [of "tsQueues k", OF assms(2-5)] same_slot_update(3) [of "tsQueues k", OF assms(2-5)]
    refs_ok_update [OF _ assms(6,7)]
  by (simp add: pool_ok_def)

lemma withQueue_inc:
  assumes "pool_ok k R" "p \<in># R"
  shows "\<exists>qs. withQueue p LinkQueueIncRefCount k = Inr (k\<lparr>tsQueues := qs\<rparr>) \<and>
    pool_ok (k\<lparr>tsQueues := qs\<rparr>) (add_mset p R)"
proof -
  obtain q where q: "tsQueues k p = Some q" "int (count R p) \<le> nCount q"
    using pool_ok_queue [OF assms] by blast
  then have "pool_ok (k\<lparr>tsQueues := (tsQueues k)(p \<mapsto> LinkQueueIncRefCount q)\<rparr>) (add_mset p R)"
    by (intro pool_ok_update [OF assms(1) q(1), where q' = "LinkQueueIncRefCount q"]) (auto simp: LinkQueueIncRefCount_def)
  then show ?thesis using q by (auto simp: withQueue_def)
qed

lemma withQueue_dec:
  assumes "pool_ok k (add_mset p R)"
  shows "\<exists>qs. withQueue p LinkQueueDecRefCount k = Inr (k\<lparr>tsQueues := qs\<rparr>) \<and>
    pool_ok (k\<lparr>tsQueues := qs\<rparr>) R"
proof -
  obtain q where q: "tsQueues k p = Some q" "int (count (add_mset p R) p) \<le> nCount q"
    using pool_ok_queue [OF assms, of p] by auto
  then have "pool_ok (k\<lparr>tsQueues := (tsQueues k)(p \<mapsto> LinkQueueDecRefCount q)\<rparr>) R"
    by (intro pool_ok_update [OF assms q(1), where q' = "LinkQueueDecRefCount q"]) (auto simp: LinkQueueDecRefCount_def)
  then show ?thesis using q by (auto simp: withQueue_def)
qed

lemma find_slot: "1 \<le> m \<Longrightarrow> m \<le> 4 \<Longrightarrow> find (\<lambda>i. Suc i = m) [0..<4] = Some (m - 1)"
  by (auto simp: upt_conv_Cons numeral_eq_Suc le_Suc_eq)

lemma destroyQueue_ok:
  assumes "pool_ok k (add_mset p R)"
  shows "\<exists>qs fl it. destroyQueue p k = Inr (k\<lparr>tsQueues := qs, tsItemUsedFlag := fl, pTsItem := it\<rparr>) \<and>
    pool_ok (k\<lparr>tsQueues := qs, tsItemUsedFlag := fl, pTsItem := it\<rparr>) R"
proof -
  obtain q where q: "tsQueues k p = Some q" "int (count R p) + 1 \<le> nCount q"
    using pool_ok_queue [OF assms, of p] by auto
  show ?thesis
  proof (cases "nCount q - 1 > 0")
    case True
    let ?q = "q\<lparr>nCount := nCount q - 1\<rparr>"
    have "pool_ok (k\<lparr>tsQueues := (tsQueues k)(p \<mapsto> ?q)\<rparr>) R"
      using q by (intro pool_ok_update [OF assms q(1), where q' = ?q]) auto
    moreover have "destroyQueue p k = Inr (k\<lparr>tsQueues := (tsQueues k)(p \<mapsto> ?q)\<rparr>)"
      using q True by (simp add: destroyQueue_def LinkDestroyQueue_def)
    ultimately show ?thesis
      by (intro exI [of _ "(tsQueues k)(p \<mapsto> ?q)"] exI [of _ "tsItemUsedFlag k"] exI [of _ "pTsItem k"]) simp
  next
    case False
    let ?m = "pMem (qmem q)"
    let ?qs = "(tsQueues k)(p := None)" and ?fl = "(tsItemUsedFlag k)[?m - 1 := False]"
    let ?k = "k\<lparr>tsQueues := ?qs, tsItemUsedFlag := ?fl, pTsItem := (pTsItem k)[?m - 1 := pData q]\<rparr>"
    note I = assms [unfolded pool_ok_def]
    have m: "1 \<le> ?m" "?m \<le> 4" "\<not> shouldFree q" "freeMem (qmem q)" "tsItemUsedFlag k ! (?m - 1)"
      using I q(1) unfolding owned_def queue_ok_def by auto
    have R: "p \<notin># R" using q(2) False by (auto simp flip: count_eq_zero_iff)
    have "destroyQueue p k = Inr ?k"
      using q False m find_slot [OF m(1,2)] by (simp add: destroyQueue_def LinkDestroyQueue_def freeTs_def)
    moreover have "owned (nat (nMaxItemLen k) + 4) (nextQueue k) ?fl ?qs"
      unfolding owned_def
    proof (intro allI impI)
      fix x r assume "?qs x = Some r"
      then have x: "x \<noteq> p" "tsQueues k x = Some r" by (auto split: if_splits)
      have a: "apart (tsQueues k)" and o: "owned (nat (nMaxItemLen k) + 4) (nextQueue k) (tsItemUsedFlag k) (tsQueues k)"
        using I by auto
      have "pMem (qmem r) \<noteq> ?m"
        using a x q(1) unfolding apart_def by blast
      moreover have "x < nextQueue k" "queue_ok (nat (nMaxItemLen k) + 4) r" "tsItemUsedFlag k ! (pMem (qmem r) - 1)"
          "1 \<le> pMem (qmem r)"
        using o x(2) unfolding owned_def queue_ok_def by auto
      ultimately show "x < nextQueue k \<and> queue_ok (nat (nMaxItemLen k) + 4) r \<and> ?fl ! (pMem (qmem r) - 1)"
        using m(1) by (simp add: nth_list_update)
    qed
    moreover have "apart ?qs"
    proof -
      have "apart (tsQueues k)" using I by simp
      then show ?thesis unfolding apart_def by (metis fun_upd_apply option.distinct(1))
    qed
    moreover have "used ?fl ?qs"
      unfolding used_def
    proof (intro allI impI)
      fix i :: nat assume i: "i < 4" "?fl ! i"
      have l: "length (tsItemUsedFlag k) = 4" and u: "used (tsItemUsedFlag k) (tsQueues k)" using I by auto
      have n: "i \<noteq> ?m - 1" using i l by auto
      then have "tsItemUsedFlag k ! i" using i(2) by simp
      then obtain x r where x: "tsQueues k x = Some r" "pMem (qmem r) = Suc i"
        using u i(1) unfolding used_def by blast
      then have "x \<noteq> p" using n q(1) by auto
      then show "\<exists>p' q'. ?qs p' = Some q' \<and> pMem (qmem q') = Suc i"
        using x by (intro exI [of _ x] exI [of _ r]) simp
    qed
    moreover have "refs_ok ?qs R"
      using I R by (auto simp: refs_ok_def split: if_splits)
    ultimately show ?thesis
      using I by (intro exI [of _ ?qs] exI [of _ ?fl] exI [of _ "(pTsItem k)[?m - 1 := pData q]"])
        (auto simp: pool_ok_def)
  qed
qed

lemma find_free: "find (\<lambda>i. \<not> f i) [0..<4] = Some i \<Longrightarrow> i < 4 \<and> \<not> f i"
  by (auto simp: find_Some_iff)

lemma allocTs_ok:
  assumes "pool_ok k R" and "allocTs ok k = (mem, k')"
  shows "\<exists>it fl. k' = k\<lparr>pTsItem := it, tsItemUsedFlag := fl\<rparr> \<and>
    (if mem = 0 then pool_ok k' R
     else mem \<le> 4 \<and> length it = 4 \<and> \<not> tsItemUsedFlag k ! (mem - 1) \<and> fl = (tsItemUsedFlag k)[mem - 1 := True])"
proof -
  define it where "it = (if pTsItem k = [] then replicate 4 (replicate (nat (koCap k)) 1) else pTsItem k)"
  have I: "pool_ok (k\<lparr>pTsItem := it\<rparr>) R" "length it = 4"
    using assms(1) by (auto simp: pool_ok_def it_def)
  show ?thesis
  proof (cases "pTsItem k = [] \<and> \<not> ok")
    case True
    then have "mem = 0" "k' = k" using assms(2) by (simp_all add: allocTs_def)
    then show ?thesis using assms(1)
      by (intro exI [of _ "pTsItem k"] exI [of _ "tsItemUsedFlag k"]) simp
  next
    case False
    have k1: "(if pTsItem k = [] then k\<lparr>pTsItem := replicate 4 (replicate (nat (koCap k)) 1)\<rparr> else k) = k\<lparr>pTsItem := it\<rparr>"
      by (simp add: it_def)
    show ?thesis
    proof (cases "find (\<lambda>i. \<not> tsItemUsedFlag k ! i) [0..<4]")
      case None
      then have "mem = 0" "k' = k\<lparr>pTsItem := it\<rparr>"
        using assms(2) False unfolding allocTs_def Let_def k1 by auto
      then show ?thesis using I
        by (intro exI [of _ it] exI [of _ "tsItemUsedFlag k"]) simp
    next
      case (Some i)
      then have "mem = Suc i" "k' = k\<lparr>pTsItem := it, tsItemUsedFlag := (tsItemUsedFlag k)[i := True]\<rparr>"
        using assms(2) False unfolding allocTs_def Let_def k1 by auto
      then show ?thesis
        using find_free [OF Some] I(2)
        by (intro exI [of _ it] exI [of _ "(tsItemUsedFlag k)[i := True]"]) simp
    qed
  qed
qed

lemma pool_ok_new:
  assumes I: "pool_ok k R" and m: "1 \<le> m" "m \<le> 4" "\<not> tsItemUsedFlag k ! (m - 1)" and "length it = 4"
    and q: "qmem q = \<lparr>pMem = m, freeMem = True\<rparr>" "\<not> shouldFree q" "nItemLen q = nat (nMaxItemLen k) + 4" "nCount q = 1"
  shows "pool_ok (k\<lparr>pTsItem := it, tsItemUsedFlag := (tsItemUsedFlag k)[m - 1 := True],
      tsQueues := (tsQueues k)(nextQueue k \<mapsto> q), nextQueue := nextQueue k + 1\<rparr>) (add_mset (nextQueue k) R)"
proof -
  note J = I [unfolded pool_ok_def]
  let ?n = "nextQueue k" and ?fl = "(tsItemUsedFlag k)[m - 1 := True]" and ?L = "nat (nMaxItemLen k) + 4"
  let ?qs = "(tsQueues k)(?n \<mapsto> q)"
  have o: "owned ?L ?n (tsItemUsedFlag k) (tsQueues k)" and a: "apart (tsQueues k)"
    and u: "used (tsItemUsedFlag k) (tsQueues k)" and r: "refs_ok (tsQueues k) R"
    and l: "length (tsItemUsedFlag k) = 4"
    using J by auto
  have new: "tsQueues k ?n = None"
    using o unfolding owned_def by (metis less_irrefl option.exhaust)
  have other: "pMem (qmem x) \<noteq> m" if "tsQueues k p = Some x" for p x
    using o that m(3) unfolding owned_def by metis
  have "owned ?L (?n + 1) ?fl ?qs"
    unfolding owned_def
  proof (intro allI impI)
    fix p x assume p: "?qs p = Some x"
    show "p < ?n + 1 \<and> queue_ok ?L x \<and> ?fl ! (pMem (qmem x) - 1)"
    proof (cases "p = ?n")
      case True
      then show ?thesis using p m q l by (simp add: queue_ok_def)
    next
      case False
      then have "tsQueues k p = Some x" using p by simp
      then have "p < ?n" "queue_ok ?L x" "tsItemUsedFlag k ! (pMem (qmem x) - 1)"
        using o unfolding owned_def by blast+
      then show ?thesis using l m(2) by (cases "pMem (qmem x) - 1 = m - 1") (simp_all add: queue_ok_def)
    qed
  qed
  moreover have "apart ?qs"
    unfolding apart_def
  proof (intro allI impI)
    fix p p' x x' assume p: "?qs p = Some x" "?qs p' = Some x'" "pMem (qmem x) = pMem (qmem x')"
    show "p = p'"
    proof (cases "p = ?n \<or> p' = ?n")
      case True
      then show ?thesis using p other q(1) by (auto split: if_splits)
    next
      case False
      then show ?thesis using a p unfolding apart_def by (auto split: if_splits)
    qed
  qed
  moreover have "used ?fl ?qs"
    unfolding used_def
  proof (intro allI impI)
    fix i :: nat assume i: "i < 4" "?fl ! i"
    show "\<exists>p x. ?qs p = Some x \<and> pMem (qmem x) = Suc i"
    proof (cases "i = m - 1")
      case True
      then show ?thesis using q(1) m(1) by (intro exI [of _ ?n] exI [of _ q]) simp
    next
      case False
      then obtain p x where "tsQueues k p = Some x" "pMem (qmem x) = Suc i"
        using u i unfolding used_def by auto
      then show ?thesis using new by (intro exI [of _ p] exI [of _ x]) auto
    qed
  qed
  moreover have "refs_ok ?qs (add_mset ?n R)"
  proof -
    have "?n \<notin># R" using r new unfolding refs_ok_def by auto
    then show ?thesis using r q(4) new by (auto simp: refs_ok_def not_in_iff)
  qed
  ultimately show ?thesis
    using J assms(5) by (auto simp: pool_ok_def)
qed

lemma LinkNewCircleQueue_slot:
  "LinkNewCircleQueue st m r1 r2 av pol len cnt (Some (mem, b)) = (ret, x) \<Longrightarrow>
   (ret = LINK_SUCCESS \<longleftrightarrow> x \<noteq> None) \<and>
   (\<forall>q. x = Some q \<longrightarrow> qmem q = mem \<and> \<not> shouldFree q \<and> nItemLen q = nat len + 4 \<and> nCount q = 1)"
  unfolding LinkNewCircleQueue_def Let_def by (auto split: if_splits)

lemma alloc_ok:
  assumes "pool_ok k R"
  shows "(\<exists>f. allocDataQueueAndUploadMeta a k = Inl f \<and> f = Out_of_bounds) \<or>
    (\<exists>ret k' it fl meta qs. allocDataQueueAndUploadMeta a k = Inr (ret, k') \<and>
      (ret \<noteq> LINK_SUCCESS \<and> k' = k\<lparr>pUpMeta := meta, pTsItem := it, tsItemUsedFlag := fl\<rparr> \<and> pool_ok k' R \<or>
       ret = LINK_SUCCESS \<and> k' = k\<lparr>pUpMeta := Some [], pTsItem := it, tsItemUsedFlag := fl,
          tsQueues := qs, nextQueue := nextQueue k + 1, pQueue := Some (nextQueue k)\<rparr> \<and>
        pool_ok k' (add_mset (nextQueue k) R)))"
proof (cases "metaOk a")
  case False
  have "pool_ok (k\<lparr>pUpMeta := None\<rparr>) R" using assms by (simp add: pool_ok_def)
  then show ?thesis using False
    by (intro disjI2 exI [of _ "LINK_NO_MEMORY"] exI [of _ "k\<lparr>pUpMeta := None\<rparr>"] exI [of _ "pTsItem k"]
        exI [of _ "tsItemUsedFlag k"] exI [of _ None] exI [of _ "tsQueues k"])
      (simp add: allocDataQueueAndUploadMeta_def)
next
  case True
  let ?k0 = "k\<lparr>pUpMeta := Some []\<rparr>"
  have I0: "pool_ok ?k0 R" using assms by (simp add: pool_ok_def)
  obtain mem k1 where al: "allocTs (poolOk a) ?k0 = (mem, k1)"
    by (cases "allocTs (poolOk a) ?k0")
  obtain it fl where k1: "k1 = ?k0\<lparr>pTsItem := it, tsItemUsedFlag := fl\<rparr>" and
    c: "if mem = 0 then pool_ok k1 R else mem \<le> 4 \<and> length it = 4 \<and>
      \<not> tsItemUsedFlag ?k0 ! (mem - 1) \<and> fl = (tsItemUsedFlag ?k0)[mem - 1 := True]"
    using allocTs_ok [OF I0 al] by blast
  show ?thesis
  proof (cases "mem = 0")
    case mem: True
    have "pool_ok (k1\<lparr>pUpMeta := None\<rparr>) R" using c mem by (simp add: pool_ok_def)
    then show ?thesis using True al mem k1
      by (intro disjI2 exI [of _ "LINK_NO_MEMORY"] exI [of _ "k1\<lparr>pUpMeta := None\<rparr>"] exI [of _ it]
          exI [of _ fl] exI [of _ None] exI [of _ "tsQueues k"]) (simp add: allocDataQueueAndUploadMeta_def)
  next
    case mem: False
    let ?new = "LinkNewCircleQueue (structOk a) None (mutexRet a) (condRet a) True (koPolicy k)
        (nMaxItemLen k) (nInitItemCount k) (Some (\<lparr>pMem = mem, freeMem = True\<rparr>, it ! (mem - 1)))"
    obtain ret x where new: "?new = (ret, x)" by (cases ?new)
    note n = LinkNewCircleQueue_slot [OF new]
    show ?thesis
    proof (cases x)
      case None
      then show ?thesis using True al mem k1 new by (simp add: allocDataQueueAndUploadMeta_def)
    next
      case (Some q)
      let ?qs = "(tsQueues k)(nextQueue k \<mapsto> q)"
      let ?k' = "k\<lparr>pUpMeta := Some [], pTsItem := it, tsItemUsedFlag := fl, tsQueues := ?qs,
          nextQueue := nextQueue k + 1, pQueue := Some (nextQueue k)\<rparr>"
      have "pool_ok (k\<lparr>pTsItem := it, tsItemUsedFlag := (tsItemUsedFlag k)[mem - 1 := True],
          tsQueues := ?qs, nextQueue := nextQueue k + 1\<rparr>) (add_mset (nextQueue k) R)"
        by (rule pool_ok_new [OF assms]) (use c mem n Some in auto)
      then have "pool_ok ?k' (add_mset (nextQueue k) R)"
        using c mem by (simp add: pool_ok_def)
      moreover have "allocDataQueueAndUploadMeta a k = Inr (LINK_SUCCESS, ?k')"
        using True al mem k1 new Some n by (simp add: allocDataQueueAndUploadMeta_def)
      ultimately show ?thesis
        by (intro disjI2 exI [of _ LINK_SUCCESS] exI [of _ ?k'] exI [of _ it] exI [of _ fl]
            exI [of _ None] exI [of _ ?qs]) simp
    qed
  qed
qed

subsection \<open>References in commands\<close>

fun opt_refs :: "nat option \<Rightarrow> nat multiset" where
  "opt_refs None = {#}"
| "opt_refs (Some p) = {#p#}"

fun cmd_refs :: "TsUploaderCommand \<Rightarrow> nat multiset" where
  "cmd_refs (LINK_TSU_UPLOAD p meta ti) = opt_refs p"
| "cmd_refs (LINK_DROP_TS p ti) = opt_refs p"
| "cmd_refs _ = {#}"

fun list_refs :: "TsUploaderCommand list \<Rightarrow> nat multiset" where
  "list_refs [] = {#}"
| "list_refs (c # cs) = cmd_refs c + list_refs cs"

lemma list_refs_append [simp]: "list_refs (cs @ ds) = list_refs cs + list_refs ds"
  by (induction cs) auto

definition pool_refs :: "'z TsPool_scheme \<Rightarrow> nat multiset" where
  "pool_refs k = opt_refs (pQueue k) + list_refs (pCommandQueue k) + list_refs (pTsCbQueue k)"

text \<open>Segments waiting for the upload thread, and commands that carry key frame metadata.\<close>

fun is_upload :: "TsUploaderCommand \<Rightarrow> bool" where
  "is_upload (LINK_TSU_UPLOAD p meta ti) = True"
| "is_upload _ = False"

fun meta_ok :: "TsUploaderCommand \<Rightarrow> bool" where
  "meta_ok (LINK_TSU_UPLOAD p meta ti) = (p \<noteq> None \<and> meta \<noteq> None)"
| "meta_ok (LINK_DROP_TS p ti) = (p = None)"
| "meta_ok _ = True"

definition pending :: "TsUploaderCommand list \<Rightarrow> nat" where
  "pending cs = length (filter is_upload cs)"

text \<open>
  The invariant of the part all threads share. \<open>H\<close> are the references the two worker threads hold in hand, \<open>n\<close>
  is 1 while the upload thread has a segment in hand.
\<close>

definition shared_ok :: "'z TsPool_scheme \<Rightarrow> nat multiset \<Rightarrow> nat \<Rightarrow> bool" where
  "shared_ok k H n \<longleftrightarrow> pool_ok k (pool_refs k + H) \<and> (pQueue k \<noteq> None \<longrightarrow> pUpMeta k \<noteq> None) \<and>
     list_all meta_ok (pCommandQueue k) \<and>
     nTsCacheNum k = int (pending (pCommandQueue k) + n) \<and> nTsCacheNum k \<le> nTsMaxCacheNum k"

lemma pushCommand_cases:
  assumes "pushCommand c k = (ret, k')"
  obtains "0 < ret" "k' = k\<lparr>pCommandQueue := pCommandQueue k @ [c]\<rparr>" | "ret \<le> 0" "k' = k"
  using assms by (auto simp: pushCommand_def split: if_splits)

lemma pushTsCb_cases:
  assumes "pushTsCb c k = (ret, k')"
  obtains "0 < ret" "k' = k\<lparr>pTsCbQueue := pTsCbQueue k @ [c]\<rparr>" | "ret \<le> 0" "k' = k"
  using assms by (auto simp: pushTsCb_def split: if_splits)

lemma pool_ok_frame [simp]:
  "pool_ok (k\<lparr>pQueue := x\<rparr>) R = pool_ok k R"
  "pool_ok (k\<lparr>pUpMeta := m\<rparr>) R = pool_ok k R"
  "pool_ok (k\<lparr>pCommandQueue := cs\<rparr>) R = pool_ok k R"
  "pool_ok (k\<lparr>pTsCbQueue := cs\<rparr>) R = pool_ok k R"
  "pool_ok (k\<lparr>nTsCacheNum := n\<rparr>) R = pool_ok k R"
  "pool_ok (k\<lparr>nTsLastStartTime := n\<rparr>) R = pool_ok k R"
  by (simp_all add: pool_ok_def)

text \<open>The rest of the uploader, which the producer does not touch.\<close>

definition same_rest :: "'z TsPool_scheme \<Rightarrow> 'z TsPool_scheme \<Rightarrow> bool" where
  "same_rest k k' \<longleftrightarrow> TsPool.TsPool.more k' = TsPool.TsPool.more k \<and> nMaxItemLen k' = nMaxItemLen k \<and>
     nTsMaxCacheNum k' = nTsMaxCacheNum k"

lemma same_rest_refl [simp]: "same_rest k k"
  by (simp add: same_rest_def)

lemma same_rest_trans: "same_rest k k' \<Longrightarrow> same_rest k' k'' \<Longrightarrow> same_rest k k''"
  by (simp add: same_rest_def)

lemma shared_inc:
  assumes "shared_ok k H n" "p \<in># H"
  shows "\<exists>qs. withQueue p LinkQueueIncRefCount k = Inr (k\<lparr>tsQueues := qs\<rparr>) \<and> shared_ok (k\<lparr>tsQueues := qs\<rparr>) (add_mset p H) n"
  using withQueue_inc [of k "pool_refs k + H" p] assms by (auto simp: shared_ok_def pool_refs_def)

lemma shared_dec:
  assumes "shared_ok k (add_mset p H) n"
  shows "\<exists>qs. withQueue p LinkQueueDecRefCount k = Inr (k\<lparr>tsQueues := qs\<rparr>) \<and> shared_ok (k\<lparr>tsQueues := qs\<rparr>) H n"
  using withQueue_dec [of k p "pool_refs k + H"] assms by (auto simp: shared_ok_def pool_refs_def)

lemma shared_destroy:
  assumes "shared_ok k (add_mset p H) n"
  shows "\<exists>qs fl it. destroyQueue p k = Inr (k\<lparr>tsQueues := qs, tsItemUsedFlag := fl, pTsItem := it\<rparr>) \<and>
    shared_ok (k\<lparr>tsQueues := qs, tsItemUsedFlag := fl, pTsItem := it\<rparr>) H n"
  using destroyQueue_ok [of k p "pool_refs k + H"] assms by (auto simp: shared_ok_def pool_refs_def)

lemma shared_mono: "shared_ok k (H + X) n \<Longrightarrow> shared_ok k H n"
  using pool_ok_mono [of k "pool_refs k + (H + X)" "pool_refs k + H"] by (simp add: shared_ok_def)

lemma shared_pushCommand:
  assumes "shared_ok k (cmd_refs c + H) n" "\<not> is_upload c" "meta_ok c" "pushCommand c k = (ret, k')"
  shows "shared_ok k' H n \<and> same_rest k k' \<and> pQueue k' = pQueue k"
  using assms(4)
proof (cases rule: pushCommand_cases)
  case 1
  then show ?thesis
    using assms(1-3) by (simp add: shared_ok_def pool_refs_def pending_def same_rest_def ac_simps)
next
  case 2
  then show ?thesis using assms(1) shared_mono [of k H "cmd_refs c" n] by (simp add: add.commute)
qed

lemma shared_pushTsCb:
  assumes "shared_ok k (cmd_refs c + H) n" "pushTsCb c k = (ret, k')"
  shows "same_rest k k' \<and> pQueue k' = pQueue k \<and> shared_ok k' (if 0 < ret then H else cmd_refs c + H) n"
  using assms(2)
proof (cases rule: pushTsCb_cases)
  case 1
  then show ?thesis
    using assms(1) by (simp add: shared_ok_def pool_refs_def same_rest_def ac_simps)
qed (use assms(1) in simp)

lemma shared_queueSegment:
  assumes "shared_ok k (add_mset p H) n" "meta \<noteq> None" "queueSegment p meta ti k = (dropped, k')"
  shows "shared_ok k' (if dropped then add_mset p H else H) n \<and> same_rest k k' \<and> pQueue k' = pQueue k"
proof (cases "nTsMaxCacheNum k \<le> nTsCacheNum k")
  case True
  then have "dropped" "k' = snd (pushCommand (LINK_DROP_TS None ti) k)"
    using assms(3) by (auto simp: queueSegment_def)
  then show ?thesis
    using shared_pushCommand [of k "LINK_DROP_TS None ti" "add_mset p H" n] assms(1)
    by (cases "pushCommand (LINK_DROP_TS None ti) k") auto
next
  case False
  obtain r1 k1 where p1: "pushCommand (LINK_TSU_END_TIME ti) k = (r1, k1)"
    by (cases "pushCommand (LINK_TSU_END_TIME ti) k")
  have s1: "shared_ok k1 (add_mset p H) n" "same_rest k k1" "pQueue k1 = pQueue k"
    using shared_pushCommand [OF _ _ _ p1, of "add_mset p H" n] assms(1) by auto
  have room: "nTsCacheNum k1 < nTsMaxCacheNum k1"
    using False p1 by (auto simp: pushCommand_def split: if_splits)
  show ?thesis
  proof (cases "r1 \<le> 0")
    case True
    then show ?thesis using False p1 s1 assms(3) by (auto simp: queueSegment_def)
  next
    case r: False
    obtain r2 k2 where p2: "pushCommand (LINK_TSU_UPLOAD (Some p) meta ti) k1 = (r2, k2)"
      by (cases "pushCommand (LINK_TSU_UPLOAD (Some p) meta ti) k1")
    from p2 show ?thesis
    proof (cases rule: pushCommand_cases)
      case 1
      then have "\<not> dropped" "k' = k2\<lparr>nTsCacheNum := nTsCacheNum k2 + 1\<rparr>"
        using assms(3) False r p1 p2 by (auto simp: queueSegment_def)
      then show ?thesis
        using 1 s1 room assms(2)
        by (simp add: shared_ok_def pool_refs_def pending_def same_rest_def ac_simps)
    next
      case 2
      then have "dropped" "k' = k1"
        using assms(3) False r p1 p2 by (auto simp: queueSegment_def)
      then show ?thesis using s1 by simp
    qed
  qed
qed

lemma shared_alloc:
  assumes "shared_ok k H n" "pQueue k = None"
  shows "allocDataQueueAndUploadMeta a k = Inl Out_of_bounds \<or>
    (\<exists>ret k'. allocDataQueueAndUploadMeta a k = Inr (ret, k') \<and> shared_ok k' H n \<and> same_rest k k' \<and>
      (ret = LINK_SUCCESS \<longrightarrow> pQueue k' \<noteq> None))"
proof -
  have "pool_ok k (pool_refs k + H)" using assms(1) by (simp add: shared_ok_def)
  from alloc_ok [OF this, of a] show ?thesis
    using assms by (elim disjE exE conjE)
      (auto simp: shared_ok_def pool_refs_def same_rest_def)
qed

text \<open>
  A step of the producer: it can only fail by leaving a slot, or by ending a segment without a queue;
  it keeps the shared invariant.
\<close>

definition safe_step :: "nat multiset \<Rightarrow> nat \<Rightarrow> 'z TsPool_scheme \<Rightarrow> 'z TsPool_scheme run \<Rightarrow> bool" where
  "safe_step H n k r \<longleftrightarrow> (case r of
     Inl f \<Rightarrow> f = Out_of_bounds \<or> f = Null_deref \<and> pQueue k = None
   | Inr k' \<Rightarrow> same_rest k k' \<and> shared_ok k' H n)"

lemma notify_safe:
  assumes "shared_ok k H n"
  shows "safe_step H n k (notifyDataPrapared a k ti)"
proof (cases "pQueue k")
  case (Some p)
  let ?k = "k\<lparr>pQueue := None, pUpMeta := None\<rparr>"
  have m: "pUpMeta k \<noteq> None" using assms Some by (auto simp: shared_ok_def)
  have s0: "shared_ok ?k (add_mset p H) n" "same_rest k ?k"
    using assms Some by (auto simp: shared_ok_def pool_refs_def same_rest_def ac_simps)
  obtain qs where i: "withQueue p LinkQueueIncRefCount ?k = Inr (?k\<lparr>tsQueues := qs\<rparr>)"
      "shared_ok (?k\<lparr>tsQueues := qs\<rparr>) (add_mset p (add_mset p H)) n"
    using shared_inc [OF s0(1)] by auto
  define k1 where "k1 = ?k\<lparr>tsQueues := qs\<rparr>"
  obtain dropped k2 where qq: "queueSegment p (pUpMeta k) ti k1 = (dropped, k2)"
    by (cases "queueSegment p (pUpMeta k) ti k1")
  have s2: "shared_ok k2 (if dropped then add_mset p (add_mset p H) else add_mset p H) n" "same_rest k1 k2" "pQueue k2 = None"
    using shared_queueSegment [OF _ m qq, of "add_mset p H" n] i(2) by (auto simp: k1_def)
  obtain k3 where d: "(if dropped then withQueue p LinkQueueDecRefCount k2 else Inr k2) = Inr k3"
      "shared_ok k3 (add_mset p H) n" "same_rest k2 k3" "pQueue k3 = None"
    using s2 shared_dec [of k2 p "add_mset p H" n]
    by (cases dropped) (auto simp: same_rest_def)
  define ti' where "ti' = ti\<lparr>tiReserved := nTsLastStartTime k2\<rparr>"
  define c where "c = (if dropped then LINK_DROP_TS (Some p) ti' else LINK_TSU_UPLOAD (Some p) (pUpMeta k) ti')"
  have cr: "cmd_refs c = {#p#}" by (simp add: c_def)
  obtain ret k4 where pc: "pushTsCb c k3 = (ret, k4)" by (cases "pushTsCb c k3")
  have s4: "same_rest k3 k4" "pQueue k4 = None" "shared_ok k4 (if 0 < ret then H else add_mset p H) n"
    using shared_pushTsCb [OF _ pc, of H n] d cr by auto
  obtain k5 where e: "(if ret \<le> 0 \<and> dropped then destroyQueue p k4 else Inr k4) = Inr k5"
      "shared_ok k5 H n" "same_rest k4 k5" "pQueue k5 = None"
  proof (cases "ret \<le> 0")
    case True
    then have s: "shared_ok k4 (add_mset p H) n" using s4 by simp
    show ?thesis
    proof (cases dropped)
      case True
      then show ?thesis
        using that shared_destroy [OF s] s4(2) \<open>ret \<le> 0\<close> by (auto simp: same_rest_def)
    next
      case False
      then show ?thesis
        using that [of k4] shared_mono [of k4 H "{#p#}"] s s4(2) by simp
    qed
  next
    case False
    then show ?thesis using that [of k4] s4 by simp
  qed
  have all: "notifyDataPrapared a k ti = and_then (allocDataQueueAndUploadMeta a k5) (\<lambda>(_, k). Inr k)"
    using Some i(1) qq d(1) e(1) pc
    by (simp add: notifyDataPrapared_def Let_def k1_def ti'_def c_def cong: if_cong)
  have "same_rest k k5"
    using s0(2) s2(2) d(3) s4(1) e(3) by (simp add: same_rest_def k1_def)
  then show ?thesis
    unfolding all safe_step_def
    using shared_alloc [OF e(2,4), of a] by (auto intro: same_rest_trans)
qed (simp add: notifyDataPrapared_def safe_step_def)


subsection \<open>Session identifiers and reasons\<close>

definition id_ok :: "LinkSession \<Rightarrow> bool" where
  "id_ok s \<longleftrightarrow> length (sessionId s) = 21 \<and> sessionId s ! 20 = 0"

lemma strip_padding_cases:
  "(\<exists>b'. strip_padding n b = Inr b' \<and> length b' = length b \<and> (\<forall>i \<ge> n. b' ! i = b ! i)) \<or>
   strip_padding n b = Inl Out_of_bounds"
proof (induction n arbitrary: b)
  case (Suc n)
  show ?case
    using Suc.IH [of "b[n := 0]"] by auto
qed simp

lemma urlsafe_b64_encode_cases:
  "urlsafe_b64_encode src (Some m) = Inr (0, []) \<or>
   ((length src + 2) div 3) * 4 \<le> m \<and>
     urlsafe_b64_encode src (Some m) = Inr (((length src + 2) div 3) * 4, enc_all src)"
  using urlsafe_b64_encode_all [of src m]
  by (auto simp: urlsafe_b64_encode_def urlsafe_b64_encode_raw_def Let_def)

lemma urlsafe_b64_encode_no_fault [simp]: "urlsafe_b64_encode src (Some m) \<noteq> Inl f"
  using urlsafe_b64_encode_cases [of src m] by auto

lemma LinkUpdateSessionId_cases:
  assumes "id_ok s"
  shows "LinkUpdateSessionId s t = Inl Out_of_bounds \<or>
    (\<exists>b. LinkUpdateSessionId s t = Inr (new_session s t b) \<and> length b = 21 \<and> b ! 20 = 0)"
proof -
  let ?str = "print_int (c_div t 1000000)"
  have enc: "\<exists>n out. urlsafe_b64_encode ?str (Some 21) = Inr (n, out) \<and> n = length out \<and> n \<le> 20"
    using urlsafe_b64_encode_cases [of ?str 21] length_enc_all [of ?str]
    by (elim disjE) auto
  then obtain n out where e: "urlsafe_b64_encode ?str (Some 21) = Inr (n, out)" "n = length out" "n \<le> 20"
    by blast
  let ?b = "out @ drop (length out) (sessionId s)"
  have w: "write_at 0 out (sessionId s) = Inr ?b"
    using assms e by (simp add: write_at_def overwrite_def id_ok_def)
  have b: "length ?b = 21" "?b ! 20 = 0"
    using assms e by (auto simp: id_ok_def nth_append)
  show ?thesis
  proof (cases "write_at 0 (?str @ [0]) (replicate 20 (0 :: u8))")
    case (Inl f)
    then have "f = Out_of_bounds" by (auto simp: write_at_def split: if_splits)
    then show ?thesis using Inl by (simp add: LinkUpdateSessionId_def Let_def)
  next
    case (Inr x)
    have "LinkUpdateSessionId s t = and_then (strip_padding n ?b) (\<lambda>b. Inr (new_session s t b))"
      unfolding LinkUpdateSessionId_def Let_def Inr and_then_Inr e(1) prod.case w new_session_def by (rule refl)
    then show ?thesis
      using strip_padding_cases [of n ?b] b e(3) by (elim disjE exE conjE) auto
  qed
qed

lemma new_session_ok [simp]: "nSessionEndResonCode (new_session s t b) = nSessionEndResonCode s"
  "sessionId (new_session s t b) = b" "segHandle (new_session s t b) = segHandle s"
  by (simp_all add: new_session_def)

lemma copy_id_total: "length b = 21 \<Longrightarrow> b ! 20 = 0 \<Longrightarrow> \<exists>sid. copy_id b = Inr sid"
proof -
  assume b: "length b = 21" "b ! 20 = 0"
  then have "b = take 20 b @ [0]"
    using id_take_nth_drop [of 20 b] by simp
  then have "c_string b = c_string (take 20 b @ [0])" by simp
  also have "length \<dots> \<le> length (take 20 b)"
    by (auto simp: c_string_def takeWhile_append intro: order_trans [OF length_takeWhile_le])
  finally show ?thesis using b by (simp add: copy_id_def Let_def)
qed

text \<open>One check of the session: what it answers and what becomes of the reason code.\<close>

definition checked_ok :: "LinkSession \<Rightarrow> (int \<times> LinkSession \<times> 'z SessionKeeper_scheme) run \<Rightarrow> bool" where
  "checked_ok s r \<longleftrightarrow> (case r of
     Inl f \<Rightarrow> f = Out_of_bounds
   | Inr (ty, s', k') \<Rightarrow> id_ok s' \<and> (ty AND 4 \<noteq> 0 \<longrightarrow> nSessionEndResonCode s' \<noteq> 0) \<and>
       (nSessionEndResonCode s \<noteq> 0 \<longrightarrow> nSessionEndResonCode s' \<noteq> 0))"

lemma checked_ok_Inr [simp]:
  "checked_ok s (Inr (ty, s', k')) \<longleftrightarrow> id_ok s' \<and> (ty AND 4 \<noteq> 0 \<longrightarrow> nSessionEndResonCode s' \<noteq> 0) \<and>
     (nSessionEndResonCode s \<noteq> 0 \<longrightarrow> nSessionEndResonCode s' \<noteq> 0)"
  by (simp add: checked_ok_def)

lemma id_ok_update [simp]: "id_ok (s\<lparr>isNewSessionStarted := i\<rparr>) = id_ok s"
  by (simp add: id_ok_def)

lemma handNewSession_checked:
  assumes "id_ok s" "reason \<noteq> 0"
  shows "checked_ok s (and_then (handNewSession k s t reason) (\<lambda>(s, k). Inr (5, s, k)))"
proof -
  let ?s = "s\<lparr>segHandle := segmentHandle k, nSessionEndResonCode := reason,
      nSessionEndTime := (if 0 < nLastTsEndTime s then nLastTsEndTime s else t)\<rparr>"
  have "id_ok ?s" using assms(1) by (simp add: id_ok_def)
  from LinkUpdateSessionId_cases [OF this, of t] show ?thesis
  proof (elim disjE exE conjE)
    fix b assume b: "LinkUpdateSessionId ?s t = Inr (new_session ?s t b)" "length b = 21" "b ! 20 = 0"
    obtain sid where "copy_id b = Inr sid" using copy_id_total b by blast
    then show ?thesis
      using b assms(2) by (simp add: handNewSession_def Let_def checked_ok_def id_ok_def)
  qed (simp add: handNewSession_def Let_def checked_ok_def)
qed

lemma updateSegmentId_checked:
  assumes "id_ok s"
  shows "checked_ok s (updateSegmentId now k s t cur d)"
proof (cases "nSegmentId k = 0")
  case True
  from LinkUpdateSessionId_cases [OF assms, of t] show ?thesis
  proof (elim disjE exE conjE)
    fix b assume b: "LinkUpdateSessionId s t = Inr (new_session s t b)" "length b = 21" "b ! 20 = 0"
    obtain sid where "copy_id b = Inr sid" using copy_id_total b by blast
    then show ?thesis
      using b True by (simp add: updateSegmentId_def Let_def checked_ok_def id_ok_def)
  qed (use True in \<open>simp add: updateSegmentId_def checked_ok_def\<close>)
next
  case False
  then show ?thesis
    using assms unfolding updateSegmentId_def Let_def
    by (auto simp: handNewSession_checked [OF assms])
qed

subsection \<open>The upload thread\<close>

definition shared_part :: "KodoUploader \<Rightarrow> TsPool \<times> TsUploaderCommand option \<times> TsUploaderCommand option" where
  "shared_part k = (TsPool.TsPool.truncate k, workerCmd k, cbCmd k)"

definition sess_ok :: "KodoUploader \<Rightarrow> bool" where
  "sess_ok k \<longleftrightarrow> id_ok (session k) \<and> (reportType k AND 4 \<noteq> 0 \<longrightarrow> nSessionEndResonCode (session k) \<noteq> 0)"

text \<open>What a part of the upload thread's work does: it leaves the shared part alone and keeps the session sound.\<close>

definition worker_ok :: "KodoUploader \<Rightarrow> KodoUploader run \<Rightarrow> bool" where
  "worker_ok k r \<longleftrightarrow> (case r of Inl f \<Rightarrow> f = Out_of_bounds
     | Inr k' \<Rightarrow> shared_part k' = shared_part k \<and> sess_ok k')"

lemma worker_ok_Inl [simp]: "worker_ok k (Inl f) \<longleftrightarrow> f = Out_of_bounds"
  by (simp add: worker_ok_def)

lemma worker_ok_Inr [simp]: "worker_ok k (Inr k') \<longleftrightarrow> shared_part k' = shared_part k \<and> sess_ok k'"
  by (simp add: worker_ok_def)

lemma worker_ok_then:
  assumes "worker_ok k r" "\<And>k'. shared_part k' = shared_part k \<Longrightarrow> sess_ok k' \<Longrightarrow> worker_ok k' (f k')"
  shows "worker_ok k (and_then r f)"
proof (cases r)
  case (Inr x)
  then have x: "shared_part x = shared_part k" "sess_ok x" using assms(1) by simp_all
  then have "worker_ok x (f x)" by (rule assms(2))
  then show ?thesis using Inr x by (simp add: worker_ok_def split: sum.splits)
qed (use assms(1) in simp)

lemma worker_ok_base: "shared_part k' = shared_part k \<Longrightarrow> worker_ok k' r = worker_ok k r"
  by (cases r) simp_all

lemma sess_ok_simps [simp]:
  "sess_ok (k\<lparr>bakSession := s\<rparr>) = sess_ok k" "sess_ok (k\<lparr>keeper := kp\<rparr>) = sess_ok k"
  "sess_ok (k\<lparr>isForceSeg := b\<rparr>) = sess_ok k" "sess_ok (k\<lparr>planType := p\<rparr>) = sess_ok k"
  "sess_ok (k\<lparr>isSegStartReport := b\<rparr>) = sess_ok k" "sess_ok (k\<lparr>isFirstSessionPicReported := b\<rparr>) = sess_ok k"
  "sess_ok (k\<lparr>nInternalForceSegFlag := b\<rparr>) = sess_ok k" "sess_ok (k\<lparr>pSessionMeta := m\<rparr>) = sess_ok k"
  "sess_ok (k\<lparr>picture := pc\<rparr>) = sess_ok k" "sess_ok (k\<lparr>isClr := b\<rparr>) = sess_ok k"
  "sess_ok (k\<lparr>recvQuit := b\<rparr>) = sess_ok k" "sess_ok (k\<lparr>nLastSystimeBak := i\<rparr>) = sess_ok k"
  "sess_ok (k\<lparr>nFirstSystime := i\<rparr>) = sess_ok k" "sess_ok (k\<lparr>koLastTsEndTime := i\<rparr>) = sess_ok k"
  "sess_ok (k\<lparr>nLastTsDuration := i\<rparr>) = sess_ok k" "sess_ok (k\<lparr>workerCmd := c\<rparr>) = sess_ok k"
  by (simp_all add: sess_ok_def)

lemma shared_part_simps [simp]:
  "shared_part (k\<lparr>session := s\<rparr>) = shared_part k" "shared_part (k\<lparr>bakSession := s\<rparr>) = shared_part k"
  "shared_part (k\<lparr>keeper := kp\<rparr>) = shared_part k" "shared_part (k\<lparr>reportType := i\<rparr>) = shared_part k"
  "shared_part (k\<lparr>isForceSeg := b\<rparr>) = shared_part k" "shared_part (k\<lparr>uploadState := u\<rparr>) = shared_part k"
  "shared_part (k\<lparr>planType := p\<rparr>) = shared_part k" "shared_part (k\<lparr>isSegStartReport := b\<rparr>) = shared_part k"
  "shared_part (k\<lparr>isFirstSessionPicReported := b\<rparr>) = shared_part k"
  "shared_part (k\<lparr>nInternalForceSegFlag := b\<rparr>) = shared_part k"
  "shared_part (k\<lparr>lastAudioDuration := i\<rparr>) = shared_part k" "shared_part (k\<lparr>lastVideoDuration := i\<rparr>) = shared_part k"
  "shared_part (k\<lparr>nLastSystime := i\<rparr>) = shared_part k" "shared_part (k\<lparr>nFirstSystime := i\<rparr>) = shared_part k"
  "shared_part (k\<lparr>nLastSystimeBak := i\<rparr>) = shared_part k" "shared_part (k\<lparr>koLastTsEndTime := i\<rparr>) = shared_part k"
  "shared_part (k\<lparr>nLastTsDuration := i\<rparr>) = shared_part k" "shared_part (k\<lparr>pSessionMeta := m\<rparr>) = shared_part k"
  "shared_part (k\<lparr>picture := pc\<rparr>) = shared_part k" "shared_part (k\<lparr>lastReportAccDuration := i\<rparr>) = shared_part k"
  "shared_part (k\<lparr>isClr := b\<rparr>) = shared_part k" "shared_part (k\<lparr>recvQuit := b\<rparr>) = shared_part k"
  "shared_part (k\<lparr>nQuit := b\<rparr>) = shared_part k" "shared_part (k\<lparr>cbMeta := m\<rparr>) = shared_part k"
  "shared_part (k\<lparr>cbOneShot := b\<rparr>) = shared_part k" "shared_part (k\<lparr>cbQuit := b\<rparr>) = shared_part k"
  "shared_part (k\<lparr>puts := ps\<rparr>) = shared_part k" "shared_part (k\<lparr>picUploads := pu\<rparr>) = shared_part k"
  "shared_part (k\<lparr>statistics := st\<rparr>) = shared_part k" "shared_part (k\<lparr>endUploads := eu\<rparr>) = shared_part k"
  "shared_part (k\<lparr>tsOutputs := ts\<rparr>) = shared_part k"
  by (simp_all add: shared_part_def TsPool.TsPool.truncate_def)

lemma handleSessionCheck_ok:
  assumes "id_ok (session k)"
  shows "case handleSessionCheck now k t force d of Inl f \<Rightarrow> f = Out_of_bounds
    | Inr (ty, k') \<Rightarrow> shared_part k' = shared_part k \<and> id_ok (session k') \<and> reportType k' = reportType k \<and>
        (ty AND 4 \<noteq> 0 \<longrightarrow> nSessionEndResonCode (session k') \<noteq> 0) \<and>
        (nSessionEndResonCode (session k) \<noteq> 0 \<longrightarrow> nSessionEndResonCode (session k') \<noteq> 0)"
proof (cases "hasUpdater k")
  case True
  define u where "u = (if force then updateSegmentId now (keeper k) (session k) t 0 d
      else updateSegmentId now (keeper k) (session k) (nTsStartTime (session k)) t d)"
  have "checked_ok (session k) u" unfolding u_def by (simp add: updateSegmentId_checked [OF assms])
  then show ?thesis
    using True unfolding handleSessionCheck_def u_def [symmetric] checked_ok_def
    by (cases u) auto
qed (use assms in \<open>simp add: handleSessionCheck_def\<close>)

lemma handleSegTimeReport_ok:
  assumes "sess_ok k"
  shows "worker_ok k (handleSegTimeReport now k t b)"
proof (cases "b \<and> nInternalForceSegFlag k")
  case False
  let ?k = "k\<lparr>bakSession := session k\<rparr>"
  have "id_ok (session ?k)" using assms by (simp add: sess_ok_def)
  from handleSessionCheck_ok [OF this, of now t True 0] show ?thesis
    using False
    by (cases "handleSessionCheck now ?k t True 0")
      (auto simp: handleSegTimeReport_def Let_def sess_ok_def)
qed (use assms in \<open>simp add: handleSegTimeReport_def\<close>)

lemma or_flag: "(a OR b) AND (4 :: int) \<noteq> 0 \<Longrightarrow> a AND 4 \<noteq> 0 \<or> b AND 4 \<noteq> 0"
  by (auto simp: bit.conj_disj_distrib2)

lemma handleTsStartTimeReport_ok:
  assumes "sess_ok k"
  shows "worker_ok k (handleTsStartTimeReport now k ti)"
proof -
  let ?k = "k\<lparr>session := resetSessionReportScope (session k)\<rparr>"
  have k: "sess_ok ?k" "sess_ok (?k\<lparr>isForceSeg := False\<rparr>)"
    using assms by (simp_all add: sess_ok_def resetSessionReportScope_def id_ok_def)
  have check: "worker_ok k1 (and_then (handleSessionCheck now k2 t False d) (\<lambda>(ty, k). Inr (k\<lparr>reportType := g ty k\<rparr>)))"
    if "shared_part k2 = shared_part k1" "sess_ok k2" "\<And>ty k. g ty k = ty \<or> g ty k = reportType k OR ty"
    for k1 k2 t d g
  proof -
    have "id_ok (session k2)" using that(2) by (simp add: sess_ok_def)
    from handleSessionCheck_ok [OF this, of now t False d] show ?thesis
    proof (cases "handleSessionCheck now k2 t False d")
      case (Inr x)
      obtain ty k' where x: "x = (ty, k')" by (cases x)
      note h = handleSessionCheck_ok [OF \<open>id_ok (session k2)\<close>, of now t False d, unfolded Inr x, simplified]
      have "nSessionEndResonCode (session k') \<noteq> 0" if "g ty k' AND 4 \<noteq> 0"
      proof -
        have "ty AND 4 \<noteq> 0 \<or> reportType k2 AND 4 \<noteq> 0"
          using that h \<open>g ty k' = ty \<or> g ty k' = reportType k' OR ty\<close> or_flag by metis
        then show ?thesis using h \<open>sess_ok k2\<close> by (auto simp: sess_ok_def)
      qed
      then show ?thesis using h Inr x \<open>shared_part k2 = shared_part k1\<close> by (simp add: sess_ok_def)
    qed simp
  qed
  have fresh: "sess_ok (k\<lparr>session := s, nLastSystime := a, nFirstSystime := b\<rparr>)"
    if "sess_ok k" "id_ok s" "nSessionEndResonCode s = nSessionEndResonCode (session k)" for k s a b
    using that by (simp add: sess_ok_def)
  show ?thesis
    unfolding handleTsStartTimeReport_def Let_def
  proof (rule worker_ok_then)
    show "worker_ok k (if isForceSeg ?k then handleSegTimeReport now (?k\<lparr>isForceSeg := False\<rparr>) (tiSystimestamp ti) False
        else Inr ?k)"
      using handleSegTimeReport_ok [OF k(2), of now "tiSystimestamp ti" False] k(1)
      by (simp add: worker_ok_base [of "?k\<lparr>isForceSeg := False\<rparr>" k])
  next
    fix k1 assume k1: "shared_part k1 = shared_part k" "sess_ok k1"
    let ?k1 = "if nFirstSystime k1 \<le> 0 then k1\<lparr>nFirstSystime := tiSystimestamp ti\<rparr> else k1"
    let ?s = "(if nSessionStartTime (session ?k1) \<le> 0 then (session ?k1)\<lparr>nSessionStartTime := tiSystimestamp ti\<rparr>
        else session ?k1)\<lparr>nTsStartTime := tiSystimestamp ti\<rparr>"
    define k2 where "k2 = ?k1\<lparr>session := ?s, nLastSystime := tiSystimestamp ti, nFirstSystime := tiSystimestamp ti\<rparr>"
    have k2: "shared_part k2 = shared_part k1" "sess_ok k2"
      using k1 by (auto simp: k2_def sess_ok_def id_ok_def)
    show "worker_ok k1 (and_then
          (if reportType k2 = 0 then
             and_then (handleSessionCheck now
                 (k2\<lparr>bakSession := session k2,
                    session := (session k2)\<lparr>nTsSequenceNumber := nTsSequenceNumber (session k2) + 1\<rparr>\<rparr>)
                 (tiSystimestamp ti) False (nLastTsDuration k2)) (\<lambda>(ty, k). Inr (k\<lparr>reportType := ty\<rparr>))
           else if \<not> isForceSeg ?k then
             and_then (handleSessionCheck now k2 (tiSystimestamp ti) False (nLastTsDuration k2)) (\<lambda>(ty, k).
               Inr (k\<lparr>reportType := reportType k OR ty\<rparr>))
           else Inr k2) (\<lambda>k.
        Inr (k\<lparr>bakSession := (bakSession k)\<lparr>nSessionEndTime := nLastTsEndTime (session k)\<rparr>\<rparr>)))"
      (is "worker_ok k1 (and_then ?check ?last)")
    proof (rule worker_ok_then)
      let ?k3 = "k2\<lparr>bakSession := session k2,
          session := (session k2)\<lparr>nTsSequenceNumber := nTsSequenceNumber (session k2) + 1\<rparr>\<rparr>"
      have k3: "shared_part ?k3 = shared_part k1" "sess_ok ?k3"
        using k2 by (simp_all add: sess_ok_def id_ok_def)
      show "worker_ok k1 ?check"
        using check [OF k3, of "\<lambda>ty k. ty"] check [OF k2, of "\<lambda>ty k. reportType k OR ty"] k2 by simp
    qed (auto simp: sess_ok_def)
  qed
qed

lemma sess_ok_same:
  "sess_ok k \<Longrightarrow> sessionId (session k') = sessionId (session k) \<Longrightarrow>
   nSessionEndResonCode (session k') = nSessionEndResonCode (session k) \<Longrightarrow> reportType k' = reportType k \<Longrightarrow> sess_ok k'"
  by (simp add: sess_ok_def id_ok_def)

lemma restoreDuration_ok [simp]:
  "shared_part (restoreDuration k) = shared_part k" "sess_ok k \<Longrightarrow> sess_ok (restoreDuration k)"
  "reportType (restoreDuration k) = reportType k"
  by (auto simp: restoreDuration_def Let_def intro: sess_ok_same)

lemma handleTsEndTimeReport_ok [simp]:
  "shared_part (handleTsEndTimeReport k ti) = shared_part k" "sess_ok k \<Longrightarrow> sess_ok (handleTsEndTimeReport k ti)"
  by (auto simp: handleTsEndTimeReport_def Let_def intro: sess_ok_same)

lemma check_first_ok [simp]:
  "shared_part (checkAndSetFirstSessionPicReportedStatus k) = shared_part k"
  "sess_ok k \<Longrightarrow> sess_ok (checkAndSetFirstSessionPicReportedStatus k)"
  by (auto simp: checkAndSetFirstSessionPicReportedStatus_def)

lemma LinkUpdateSegment_ok [simp]:
  "shared_part (LinkUpdateSegment h s m k) = shared_part k" "sess_ok (LinkUpdateSegment h s m k) = sess_ok k"
  "reportType (LinkUpdateSegment h s m k) = reportType k" "session (LinkUpdateSegment h s m k) = session k"
  by (auto simp: LinkUpdateSegment_def sess_ok_def)

lemma setSessionCoverStatus_ok [simp]:
  "sessionId (setSessionCoverStatus s st) = sessionId s"
  "nSessionEndResonCode (setSessionCoverStatus s st) = nSessionEndResonCode s"
  by (simp_all add: setSessionCoverStatus_def)

lemma statistic_ok [simp]:
  "shared_part (statistic e kd r k) = shared_part k" "sess_ok (statistic e kd r k) = sess_ok k"
  by (simp_all add: statistic_def sess_ok_def)

lemma uploadPicture_ok:
  "sess_ok k \<Longrightarrow> case uploadPicture e k of Inl f \<Rightarrow> f = Out_of_bounds
     | Inr (code, k') \<Rightarrow> shared_part k' = shared_part k \<and> sess_ok k'"
  by (auto simp: uploadPicture_def Let_def write_at_def statistic_def
      intro: sess_ok_same split: option.splits prod.splits)

lemma inttoBCD_loop_fault: "inttoBCD_loop m n p b = Inl f \<Longrightarrow> f = Out_of_bounds"
proof (induction m n p b rule: inttoBCD_loop.induct)
  case (1 m n buf b)
  then show ?case
    by (subst (asm) (2) inttoBCD_loop.simps) (auto simp: Let_def split: if_splits)
qed

lemma inttoBCD_fault: "inttoBCD m p b = Inl f \<Longrightarrow> f = Out_of_bounds"
  by (auto simp: inttoBCD_def write_at_def split: if_splits dest: inttoBCD_loop_fault)

lemma and_then_fault: "and_then r g = Inl f \<Longrightarrow> r = Inl f \<or> (\<exists>x. r = Inr x \<and> g x = Inl f)"
  by (cases r) auto

lemma put_metas_fault: "put_metas ms i b = Inl f \<Longrightarrow> f = Out_of_bounds"
  by (induction ms i b rule: put_metas.induct) (auto dest!: and_then_fault inttoBCD_fault)

lemma put_strings_fault_kind: "put_strings p ss b = Inl f \<Longrightarrow> f = Out_of_bounds"
  by (induction p ss b rule: put_strings.induct)
    (auto dest!: and_then_fault simp: write_at_def split: if_splits)

lemma linkPutBuffer_fault: "linkPutBuffer junk ans h t key d ms mg du sq di = Inl f \<Longrightarrow> f = Out_of_bounds"
  unfolding linkPutBuffer_def
  by (auto dest!: and_then_fault put_metas_fault put_strings_fault_kind
      simp: read_at_def Let_def simp del: put_strings.simps split: if_splits prod.splits)

lemma uploadSegment_ok:
  assumes "sess_ok k" "meta \<noteq> None"
  shows "case uploadSegment e buf meta t d k of Inl f \<Rightarrow> f = Out_of_bounds
    | Inr (ok, code, k') \<Rightarrow> shared_part k' = shared_part k \<and> sess_ok k'"
proof (cases "uploadPicture e k")
  case (Inl f)
  then show ?thesis using uploadPicture_ok [OF assms(1), of e] by (simp add: uploadSegment_def)
next
  case (Inr x)
  obtain code k1 where x: "x = (code, k1)" by (cases x)
  have k1: "shared_part k1 = shared_part k" "sess_ok k1"
    using uploadPicture_ok [OF assms(1), of e] Inr x by auto
  obtain ret h tok pre where p: "envParam e = (ret, h, tok, pre)" by (cases "envParam e") auto
  obtain ms where m: "meta = Some ms" using assms(2) by blast
  show ?thesis
  proof (cases "linkPutBuffer (envJunk e) (envPut e) h tok (segment_key (session k1) t) buf ms
      (if 0 < pre then [] else custom_magic (session k1) t) (nTsDuration (session k1)) (nTsSequenceNumber (session k1)) d")
    case (Inl f)
    then show ?thesis using linkPutBuffer_fault [OF Inl] Inr x k1 p m by (simp add: uploadSegment_def)
  next
    case put: (Inr y)
    then show ?thesis using Inr x k1 p m
      by (cases y) (auto simp: uploadSegment_def Let_def intro: sess_ok_same)
  qed
qed

lemma reportSessionEnd_ok: "sess_ok k \<Longrightarrow> worker_ok k (reportSessionEnd c k)"
  by (auto simp: reportSessionEnd_def Let_def sess_ok_def id_ok_def)

lemma reportSessionStart_ok [simp]:
  "shared_part (reportSessionStart c k) = shared_part k" "sess_ok k \<Longrightarrow> sess_ok (reportSessionStart c k)"
  by (simp_all add: reportSessionStart_def Let_def sess_ok_def id_ok_def)

lemma reportSegment_ok [simp]:
  "shared_part (reportSegment u sh c k) = shared_part k" "sess_ok k \<Longrightarrow> sess_ok (reportSegment u sh c k)"
  by (auto simp: reportSegment_def Let_def LinkUpdateSegment_def intro: sess_ok_same)

lemma forceSession_ok:
  assumes "sess_ok k"
  shows "worker_ok k (forceSession e k t)"
  unfolding forceSession_def
proof (rule worker_ok_then)
  let ?k = "if one_shot k then k\<lparr>pSessionMeta := None\<rparr> else k"
  have "sess_ok ?k" "shared_part ?k = shared_part k"
    using assms by auto
  then show "worker_ok k (handleSegTimeReport (envNow e) (checkAndSetFirstSessionPicReportedStatus ?k) t False)"
    using handleSegTimeReport_ok [of "checkAndSetFirstSessionPicReportedStatus ?k" "envNow e" t False]
    by (simp add: worker_ok_base [of "checkAndSetFirstSessionPicReportedStatus ?k" k])
qed (simp add: Let_def)

lemma setMeta_ok:
  assumes "sess_ok k"
  shows "worker_ok k (setMeta e k m)"
  unfolding setMeta_def Let_def
proof (rule worker_ok_then)
  let ?k = "(checkAndSetFirstSessionPicReportedStatus (k\<lparr>isClr := False\<rparr>))\<lparr>pSessionMeta := None\<rparr>"
  have k: "sess_ok ?k" "shared_part ?k = shared_part k"
    using assms by auto
  then show "worker_ok k (if nInternalForceSegFlag ?k then Inr ?k
      else if \<not> isForceSeg ?k \<and> 0 < nFirstSystime ?k then
        if 0 < nTsSequenceNumber (session ?k) then handleSegTimeReport (envNow e) ?k (nFirstSystime ?k) True else Inr ?k
      else Inr (?k\<lparr>isForceSeg := True\<rparr>))"
    using handleSegTimeReport_ok [OF k(1), of "envNow e" "nFirstSystime ?k" True] k
    by (simp add: worker_ok_base [of ?k k] worker_ok_base [of "?k\<lparr>isForceSeg := True\<rparr>" k])
qed simp

lemma clearMeta_ok [simp]: "shared_part (clearMeta k) = shared_part k" "sess_ok k \<Longrightarrow> sess_ok (clearMeta k)"
  by (auto simp: clearMeta_def Let_def)

lemma quitUpload_ok [simp]: "shared_part (quitUpload k) = shared_part k" "sess_ok k \<Longrightarrow> sess_ok (quitUpload k)"
  by (auto simp: quitUpload_def Let_def sess_ok_def id_ok_def)


lemma shared_ok_part: "shared_part k' = shared_part k \<Longrightarrow> shared_ok k' H n = shared_ok k H n"
  unfolding shared_part_def TsPool.TsPool.truncate_def
  by (simp add: shared_ok_def pool_ok_def pool_refs_def)

lemma shared_part_fields:
  "shared_part k' = shared_part k \<Longrightarrow> tsQueues k' = tsQueues k \<and> workerCmd k' = workerCmd k \<and> cbCmd k' = cbCmd k"
  unfolding shared_part_def TsPool.TsPool.truncate_def by simp

text \<open>A whole command: \<open>H\<close> and \<open>n\<close> are what remains in hand when it is done.\<close>

definition handled_ok :: "nat multiset \<Rightarrow> nat \<Rightarrow> KodoUploader \<Rightarrow> KodoUploader run \<Rightarrow> bool" where
  "handled_ok H n k r \<longleftrightarrow> (case r of Inl f \<Rightarrow> f = Out_of_bounds
     | Inr k' \<Rightarrow> shared_ok k' H n \<and> sess_ok k' \<and> workerCmd k' = workerCmd k \<and> cbCmd k' = cbCmd k)"

lemma handled_ok_simps [simp]:
  "handled_ok H n k (Inl f) \<longleftrightarrow> f = Out_of_bounds"
  "handled_ok H n k (Inr k') \<longleftrightarrow> shared_ok k' H n \<and> sess_ok k' \<and> workerCmd k' = workerCmd k \<and> cbCmd k' = cbCmd k"
  by (simp_all add: handled_ok_def)

lemma handled_ok_base:
  "workerCmd k' = workerCmd k \<Longrightarrow> cbCmd k' = cbCmd k \<Longrightarrow> handled_ok H n k' r = handled_ok H n k r"
  by (cases r) simp_all

lemma worker_handled:
  assumes "worker_ok k r" "shared_ok k H n"
  shows "handled_ok H n k r"
proof (cases r)
  case (Inr x)
  then have x: "shared_part x = shared_part k" "sess_ok x" using assms(1) by simp_all
  then show ?thesis
    using Inr assms(2) shared_part_fields [OF x(1)] shared_ok_part [OF x(1)] by simp
qed (use assms(1) in simp)

lemma handled_then:
  assumes "worker_ok k r"
    and "\<And>k'. shared_part k' = shared_part k \<Longrightarrow> sess_ok k' \<Longrightarrow> handled_ok H n k' (f k')"
  shows "handled_ok H n k (and_then r f)"
proof (cases r)
  case (Inr x)
  then have x: "shared_part x = shared_part k" "sess_ok x" using assms(1) by simp_all
  then have "handled_ok H n x (f x)" by (rule assms(2))
  then show ?thesis using Inr shared_part_fields [OF x(1)] by (cases "f x") simp_all
qed (use assms(1) in simp)

lemma finishSegment_ok:
  assumes "shared_ok k H (if isDrop then n else Suc n)" "sess_ok k"
  shows "handled_ok H n k0 (Inr (finishSegment isDrop t k)) \<longleftrightarrow> workerCmd k = workerCmd k0 \<and> cbCmd k = cbCmd k0"
  using assms
  by (cases isDrop)
    (auto simp: finishSegment_def Let_def resetSessionCurrentTsScope_def resetSessionReportScope_def
      sess_ok_def id_ok_def shared_ok_def pool_ok_def pool_refs_def)

lemma sess_ok_lastEnd [simp]: "sess_ok (k\<lparr>session := (session k)\<lparr>nLastTsEndTime := t\<rparr>\<rparr>) = sess_ok k"
  by (simp add: sess_ok_def id_ok_def)

lemma bufferUpload_end:
  assumes "shared_ok k (opt_refs p + H) (if isDrop then n else Suc n)" "sess_ok k"
  shows "handled_ok H n k (and_then (reportSessionEnd code k) (\<lambda>k.
    let k = k\<lparr>session := (session k)\<lparr>nLastTsEndTime := koLastTsEndTime k\<rparr>\<rparr>;
        k = reportSegment u sh code k in
    and_then (case p of None \<Rightarrow> Inr k | Some p \<Rightarrow> destroyQueue p k) (\<lambda>k. Inr (finishSegment isDrop t k))))"
proof (rule handled_then)
  show "worker_ok k (reportSessionEnd code k)" using assms(2) by (rule reportSessionEnd_ok)
next
  fix k1 assume k1: "shared_part k1 = shared_part k" "sess_ok k1"
  define k2 where "k2 = reportSegment u sh code (k1\<lparr>session := (session k1)\<lparr>nLastTsEndTime := koLastTsEndTime k1\<rparr>\<rparr>)"
  have k2: "shared_part k2 = shared_part k1" "sess_ok k2"
    using k1 by (simp_all add: k2_def)
  have s2: "shared_ok k2 (opt_refs p + H) (if isDrop then n else Suc n)"
    using assms(1) shared_ok_part [of k2 k] k1 k2 by simp
  have f2: "workerCmd k2 = workerCmd k1" "cbCmd k2 = cbCmd k1"
    using shared_part_fields [OF k2(1)] by simp_all
  have "handled_ok H n k1 (and_then (case p of None \<Rightarrow> Inr k2 | Some p \<Rightarrow> destroyQueue p k2)
      (\<lambda>k. Inr (finishSegment isDrop t k)))"
  proof (cases p)
    case None
    then show ?thesis using finishSegment_ok [of k2 H isDrop n] s2 k2(2) f2 by simp
  next
    case (Some x)
    then have "shared_ok k2 (add_mset x H) (if isDrop then n else Suc n)" using s2 by simp
    from shared_destroy [OF this] obtain qs fl it where
      d: "destroyQueue x k2 = Inr (k2\<lparr>tsQueues := qs, tsItemUsedFlag := fl, pTsItem := it\<rparr>)"
        "shared_ok (k2\<lparr>tsQueues := qs, tsItemUsedFlag := fl, pTsItem := it\<rparr>) H (if isDrop then n else Suc n)"
      by blast
    have "sess_ok (k2\<lparr>tsQueues := qs, tsItemUsedFlag := fl, pTsItem := it\<rparr>)"
      using k2(2) by (simp add: sess_ok_def)
    then show ?thesis
      using Some d finishSegment_ok [OF d(2), of k1 t] f2 by simp
  qed
  then show "handled_ok H n k1 (let k = k1\<lparr>session := (session k1)\<lparr>nLastTsEndTime := koLastTsEndTime k1\<rparr>\<rparr>;
        k = reportSegment u sh code k in
    and_then (case p of None \<Rightarrow> Inr k | Some p \<Rightarrow> destroyQueue p k) (\<lambda>k. Inr (finishSegment isDrop t k)))"
    unfolding k2_def Let_def .
qed

lemma bufferUpload_ok:
  assumes "shared_ok k (opt_refs p + H) (if isDrop then n else Suc n)" "sess_ok k" "p \<noteq> None \<Longrightarrow> meta \<noteq> None"
  shows "handled_ok H n k (bufferUpload e isDrop p meta k)"
proof -
  define t where "t = nLastSystime k - 40 * 1000000"
  define k1 where "k1 = k\<lparr>koLastTsEndTime := t, nLastTsDuration := nTsDuration (session k)\<rparr>"
  define k2 where "k2 = k1\<lparr>nLastSystimeBak := nLastSystime k1, nFirstSystime := 0\<rparr>"
  define buf :: "(int \<times> bytes option) run" where "buf = (case p of None \<Rightarrow> Inr (0, None) | Some p \<Rightarrow>
      (case tsQueues k1 p of None \<Rightarrow> Inl Double_free | Some q \<Rightarrow> Inr (LinkGetQueueBuffer q)))"
  have k2: "shared_part k2 = shared_part k" "sess_ok k2"
    using assms(2) by (simp_all add: k1_def k2_def)
  obtain ret bd where b: "buf = Inr (ret, bd)" "p = None \<Longrightarrow> ret = 0"
  proof (cases p)
    case None
    then show ?thesis using that [of 0 None] by (simp add: buf_def)
  next
    case (Some x)
    then have "x \<in># pool_refs k + (opt_refs p + H)" by simp
    then obtain q where "tsQueues k x = Some q"
      using assms(1) pool_ok_queue [of k "pool_refs k + (opt_refs p + H)" x] unfolding shared_ok_def by blast
    then show ?thesis using that Some
      by (cases "LinkGetQueueBuffer q") (simp add: buf_def k1_def)
  qed
  have "id_ok (session k1)" using assms(2) by (simp add: k1_def sess_ok_def)
  then obtain sid where c: "copy_id (sessionId (session k1)) = Inr sid"
    using copy_id_total by (auto simp: id_ok_def)
  define sh where "sh = (wantsUpload k1 \<and> 0 < ret)"
  define up where "up = (if sh then uploadSegment e (the bd) meta t 0 k2 else Inr (False, 1000, k2))"
  have all: "bufferUpload e isDrop p meta k = and_then up (\<lambda>(uploaded, picRet, k).
      and_then (reportSessionEnd picRet k) (\<lambda>k.
      let k = k\<lparr>session := (session k)\<lparr>nLastTsEndTime := koLastTsEndTime k\<rparr>\<rparr>;
          k = reportSegment uploaded sh picRet k in
      and_then (case p of None \<Rightarrow> Inr k | Some p \<Rightarrow> destroyQueue p k) (\<lambda>k.
        Inr (finishSegment isDrop (nTsStartTime (session k1)) k))))"
    unfolding bufferUpload_def Let_def t_def [symmetric] k1_def [symmetric] buf_def [symmetric] b(1) and_then_Inr
      prod.case c sh_def up_def k2_def
    by (simp add: k1_def)
  have up_ok: "case up of Inl f \<Rightarrow> f = Out_of_bounds
      | Inr (ok, code, k') \<Rightarrow> shared_part k' = shared_part k \<and> sess_ok k'"
  proof (cases sh)
    case True
    then have "p \<noteq> None" using b(2) by (auto simp: sh_def)
    then show ?thesis
      using uploadSegment_ok [OF k2(2) assms(3), of e "the bd" t 0] True k2(1)
      by (auto simp: up_def split: sum.splits)
  qed (use k2 in \<open>simp add: up_def\<close>)
  show ?thesis
  proof (cases up)
    case (Inr x)
    obtain ok code k3 where x: "x = (ok, code, k3)" by (cases x)
    then have k3: "shared_part k3 = shared_part k" "sess_ok k3"
      using up_ok Inr by auto
    have "shared_ok k3 (opt_refs p + H) (if isDrop then n else Suc n)"
      using assms(1) shared_ok_part [OF k3(1)] by simp
    from bufferUpload_end [OF this k3(2), of code ok sh "nTsStartTime (session k1)"]
    show ?thesis
      using all Inr x shared_part_fields [OF k3(1)] handled_ok_base [of k3 k]
      by (simp del: handled_ok_simps)
  qed (use all up_ok in simp)
qed

definition in_hand :: "TsUploaderCommand \<Rightarrow> nat" where
  "in_hand c = (if is_upload c then 1 else 0)"

lemma handleCommand_ok:
  assumes "shared_ok k (cmd_refs c + H) (in_hand c)" "sess_ok k" "meta_ok c"
  shows "handled_ok H 0 k (handleCommand e c k)"
proof (cases c)
  case (LINK_TSU_UPLOAD p meta ti)
  then show ?thesis
    using bufferUpload_ok [of k p H False 0 meta e] assms by (simp add: in_hand_def)
next
  case (LINK_DROP_TS p ti)
  have "shared_ok (handleTsEndTimeReport k ti) H 0"
    using assms LINK_DROP_TS shared_ok_part [of "handleTsEndTimeReport k ti" k] by (simp add: in_hand_def)
  moreover have "workerCmd (handleTsEndTimeReport k ti) = workerCmd k" "cbCmd (handleTsEndTimeReport k ti) = cbCmd k"
    using shared_part_fields [of "handleTsEndTimeReport k ti" k] by simp_all
  ultimately show ?thesis
    using bufferUpload_ok [of "handleTsEndTimeReport k ti" None H True 0 None e] assms LINK_DROP_TS
    by (auto simp: handleDropTsReport_def handled_ok_def split: sum.splits)
next
  case (LINK_TSU_START_TIME ti)
  let ?k = "if isClr k \<and> one_shot k then k\<lparr>pSessionMeta := None, isClr := False\<rparr> else k"
  have "sess_ok ?k" "shared_part ?k = shared_part k" using assms(2) by simp_all
  then have "worker_ok k (handleTsStartTimeReport (envNow e) ?k ti)"
    using handleTsStartTimeReport_ok [of ?k "envNow e" ti] worker_ok_base [of ?k k] by simp
  then show ?thesis using assms(1) LINK_TSU_START_TIME by (simp add: worker_handled in_hand_def)
qed (use assms in \<open>auto simp: in_hand_def simp del: handled_ok_simps
      intro!: worker_handled forceSession_ok setMeta_ok\<close>)


subsection \<open>The callback thread and the packets\<close>

lemma doTsOutput_ok [simp]:
  "shared_part (doTsOutput k b t u m) = shared_part k" "sess_ok (doTsOutput k b t u m) = sess_ok k"
  by (auto simp: doTsOutput_def Let_def sess_ok_def split: option.splits)

lemma cbSegment_ok:
  assumes "shared_ok k (opt_refs p + H) n" "sess_ok k"
  shows "handled_ok H n k (cbSegment k p ti)"
proof -
  have fin: "handled_ok H n k (Inr (if cbOneShot k1 then k1\<lparr>cbMeta := None\<rparr> else k1))"
    if "shared_ok k1 H n" "sess_ok k1" "workerCmd k1 = workerCmd k" "cbCmd k1 = cbCmd k" for k1
    using that shared_ok_part [of "k1\<lparr>cbMeta := None\<rparr>" k1] by (simp add: sess_ok_def)
  show ?thesis
  proof (cases p)
    case None
    then show ?thesis using assms fin [of k] by (simp add: cbSegment_def del: handled_ok_simps)
  next
    case (Some x)
    then have "x \<in># pool_refs k + (opt_refs p + H)" by simp
    then obtain q where q: "tsQueues k x = Some q"
      using assms(1) pool_ok_queue [of k "pool_refs k + (opt_refs p + H)" x] unfolding shared_ok_def by blast
    obtain ret b where g: "LinkGetQueueBuffer q = (ret, b)" by (cases "LinkGetQueueBuffer q")
    show ?thesis
    proof (cases "0 < ret")
      case True
      define k1 where "k1 = doTsOutput k b (tiReserved ti) (tiSystimestamp ti) (cbMeta k)"
      have k1: "shared_part k1 = shared_part k" "sess_ok k1" using assms(2) by (simp_all add: k1_def)
      have "shared_ok k1 (add_mset x H) n"
        using assms(1) Some shared_ok_part [OF k1(1)] by simp
      from shared_destroy [OF this] obtain qs fl it where
        d: "destroyQueue x k1 = Inr (k1\<lparr>tsQueues := qs, tsItemUsedFlag := fl, pTsItem := it\<rparr>)"
          "shared_ok (k1\<lparr>tsQueues := qs, tsItemUsedFlag := fl, pTsItem := it\<rparr>) H n" by blast
      have "sess_ok (k1\<lparr>tsQueues := qs, tsItemUsedFlag := fl, pTsItem := it\<rparr>)"
        using k1(2) by (simp add: sess_ok_def)
      then show ?thesis
        using Some q g True d fin [OF d(2)] shared_part_fields [OF k1(1)]
        by (simp add: cbSegment_def k1_def [symmetric] del: handled_ok_simps)
    next
      case False
      then show ?thesis
        using Some q g fin [of k] assms shared_mono [of k H "{#x#}" n]
        by (simp add: cbSegment_def del: handled_ok_simps)
    qed
  qed
qed

lemma handleCbCommand_ok:
  assumes "shared_ok k (cmd_refs c + H) n" "sess_ok k"
  shows "handled_ok H n k (handleCbCommand c k)"
proof -
  have plain: "handled_ok H n k (Inr k')"
    if "shared_ok k H n" "shared_part k' = shared_part k" "sess_ok k'" for k'
    using that shared_ok_part [OF that(2)] shared_part_fields [OF that(2)] by simp
  show ?thesis
    using assms cbSegment_ok [of k] by (cases c) (auto intro!: plain simp: sess_ok_def simp del: handled_ok_simps)
qed

lemma write_at_no_assert: "write_at p xs b \<noteq> Inl Assertion_failed" "read_at p n b \<noteq> Inl Assertion_failed"
  by (simp_all add: write_at_def read_at_def)

lemma write_at_kind: "write_at p xs b = Inl f \<Longrightarrow> f = Out_of_bounds" "read_at p n b = Inl f \<Longrightarrow> f = Out_of_bounds"
  by (auto simp: write_at_def read_at_def split: if_splits)

lemma writeSlot_kind: "writeSlot L i d b = Inl f \<Longrightarrow> f = Out_of_bounds"
  by (auto simp: writeSlot_def dest!: and_then_fault dest: write_at_kind)

lemma linearize_kind: "linearize q t = Inl f \<Longrightarrow> f = Out_of_bounds"
  by (auto simp: linearize_def Let_def dest!: and_then_fault dest: write_at_kind split: if_splits)

lemma queueAppendCopy_kind: "queueAppendCopy q d = Inl f \<Longrightarrow> f = Out_of_bounds"
  by (auto simp: queueAppendCopy_def dest!: and_then_fault dest: write_at_kind)

lemma PushQueue_fault:
  assumes "PushQueue m q (Some d) = Inl f" "length d + 4 \<le> nItemLen q"
  shows "f = Out_of_bounds"
  using assms unfolding PushQueue_def
  by (auto simp: queueAppendPush_def ringPush_def overwritePush_def varPush_def Let_def
      dest!: and_then_fault dest: write_at_kind writeSlot_kind linearize_kind queueAppendCopy_kind
      split: if_splits option.splits CircleQueuePolicy.splits)

definition same_frame :: "CircleQueueImp \<Rightarrow> CircleQueueImp \<Rightarrow> bool" where
  "same_frame q q' \<longleftrightarrow> qmem q' = qmem q \<and> shouldFree q' = shouldFree q \<and> nItemLen q' = nItemLen q \<and> nCount q' = nCount q"

lemma PushQueue_frame: "PushQueue m q (Some d) = Inr (r, q') \<Longrightarrow> same_frame q q'"
  unfolding PushQueue_def
  by (auto simp: queueAppendPush_def queueAppendCopy_def ringPush_def overwritePush_def varPush_def Let_def
      same_frame_def count_defs and_then_eq_Inr split: if_splits option.splits CircleQueuePolicy.splits)

lemma push_safe:
  assumes "shared_ok k H n" "int (length d) \<le> nMaxItemLen k"
  shows "safe_step H n k (and_then (streamPushData a k d) (\<lambda>(_, k). Inr k))"
proof -
  define pre where "pre = (if pQueue k = None then allocDataQueueAndUploadMeta a k else Inr (LINK_SUCCESS, k))"
  have "pre = Inl Out_of_bounds \<or> (\<exists>ret k'. pre = Inr (ret, k') \<and> shared_ok k' H n \<and> same_rest k k' \<and>
      (ret = LINK_SUCCESS \<longrightarrow> pQueue k' \<noteq> None))"
  proof (cases "pQueue k")
    case None
    then show ?thesis using shared_alloc [OF assms(1) None, of a] by (simp add: pre_def)
  qed (use assms(1) in \<open>simp add: pre_def\<close>)
  then show ?thesis
  proof (elim disjE exE conjE)
    fix ret k' assume p: "pre = Inr (ret, k')" "shared_ok k' H n" "same_rest k k'" "ret = LINK_SUCCESS \<longrightarrow> pQueue k' \<noteq> None"
    show ?thesis
    proof (cases "ret = LINK_SUCCESS")
      case True
      then obtain x where x: "pQueue k' = Some x" using p(4) by blast
      have I: "pool_ok k' (pool_refs k' + H)" using p(2) by (simp add: shared_ok_def)
      have "x \<in># pool_refs k' + H" using x by (simp add: pool_refs_def)
      then obtain q where q: "tsQueues k' x = Some q" "int (count (pool_refs k' + H) x) \<le> nCount q"
        using pool_ok_queue [OF I] by blast
      have len: "length d + 4 \<le> nItemLen q"
        using I q(1) p(3) assms(2) unfolding pool_ok_def owned_def queue_ok_def same_rest_def by auto
      have s: "streamPushData a k d = and_then (PushQueue None q (Some d)) (\<lambda>(ret, q).
          Inr (ret, k'\<lparr>tsQueues := (tsQueues k')(x \<mapsto> q)\<rparr>))"
        using p(1) True x q(1) unfolding streamPushData_def pre_def [symmetric] by simp
      show ?thesis
      proof (cases "PushQueue None q (Some d)")
        case (Inl f)
        then show ?thesis using s PushQueue_fault [OF Inl len] by (simp add: safe_step_def)
      next
        case (Inr y)
        obtain r q' where y: "y = (r, q')" by (cases y)
        have f: "qmem q' = qmem q" "shouldFree q' = shouldFree q" "nItemLen q' = nItemLen q" "nCount q' = nCount q"
          using PushQueue_frame Inr y unfolding same_frame_def by blast+
        have "pool_ok (k'\<lparr>tsQueues := (tsQueues k')(x \<mapsto> q')\<rparr>) (pool_refs k' + H)"
          by (rule pool_ok_update [OF I q(1) f(1-3)]) (use f(4) q(2) in auto)
        then show ?thesis
          using s Inr y p(2,3)
          by (simp add: safe_step_def shared_ok_def pool_refs_def same_rest_def)
      qed
    next
      case False
      then show ?thesis
        using p unfolding streamPushData_def pre_def [symmetric] by (simp add: safe_step_def)
    qed
  qed (simp add: streamPushData_def pre_def [symmetric] safe_step_def)
qed


subsection \<open>Interleavings\<close>

text \<open>
  One step of some thread: \<open>uploader_step k r\<close> when a thread that finds the uploader in state \<open>k\<close> can do
  something with outcome \<open>r\<close>. The application's packets are at most as long as an item (188 bytes).
\<close>

inductive uploader_step :: "KodoUploader \<Rightarrow> KodoUploader run \<Rightarrow> bool" where
  push: "int (length d) \<le> nMaxItemLen k \<Longrightarrow>
     uploader_step k (and_then (streamPushData a k d) (\<lambda>(_, k). Inr k))"
| report: "uploader_step k (reportTimeInfo a k ti ty)"
| key_frame: "uploader_step k (Inr (LinkAppendKeyframeMetaInfo k m))"
| set_meta: "uploader_step k (Inr (LinkSetSessionMeta k m m2))"
| clear_meta: "uploader_step k (Inr (LinkClearSessionMeta k))"
| push_pic: "uploader_step k (Inr (snd (LinkTsUploaderPushPic ok k name buf)))"
| set_plan: "uploader_step k (Inr (LinkTsUploaderSetPlanType k p))"
| set_callback: "uploader_step k (Inr (LinkTsUploaderSetTsCallback k b ma))"
| set_end_callback: "uploader_step k (Inr (LinkTsUploaderSetTsEndUploadCallback k b))"
| ask_quit: "uploader_step k (Inr (snd (requestQuit k)))"
| upload_pop: "uploader_step k (Inr (listenTsUpload_pop k))"
| upload_handle: "uploader_step k (listenTsUpload_handle e k)"
| cb_pop: "uploader_step k (Inr (tsCbWorker_pop k))"
| cb_handle: "uploader_step k (tsCbWorker_handle k)"

inductive uploader_reach :: "KodoUploader \<Rightarrow> bool" where
  start: "LinkNewTsUploader ne upd tsMax pol itemLen itemCount kp = Inr (ret, Some k) \<Longrightarrow>
     listenTsUpload_start e k = Inr k' \<Longrightarrow> uploader_reach k'"
| step: "uploader_reach k \<Longrightarrow> uploader_step k (Inr k') \<Longrightarrow> uploader_reach k'"

text \<open>References and segments in the hands of the two worker threads.\<close>

definition hand_refs :: "KodoUploader \<Rightarrow> nat multiset" where
  "hand_refs k = list_refs (case workerCmd k of None \<Rightarrow> [] | Some c \<Rightarrow> [c]) +
     list_refs (case cbCmd k of None \<Rightarrow> [] | Some c \<Rightarrow> [c])"

definition hand_count :: "KodoUploader \<Rightarrow> nat" where
  "hand_count k = (case workerCmd k of None \<Rightarrow> 0 | Some c \<Rightarrow> in_hand c)"

definition uploader_ok :: "KodoUploader \<Rightarrow> bool" where
  "uploader_ok k \<longleftrightarrow> shared_ok k (hand_refs k) (hand_count k) \<and> sess_ok k \<and> list_all meta_ok (case workerCmd k of None \<Rightarrow> [] | Some c \<Rightarrow> [c])"

definition good_outcome :: "KodoUploader \<Rightarrow> KodoUploader run \<Rightarrow> bool" where
  "good_outcome k r \<longleftrightarrow> (case r of Inl f \<Rightarrow> f = Out_of_bounds \<or> f = Null_deref \<and> pQueue k = None | Inr k' \<Rightarrow> uploader_ok k')"

lemma more_fields:
  "TsPool.TsPool.more k' = TsPool.TsPool.more (k :: KodoUploader) \<Longrightarrow>
   workerCmd k' = workerCmd k \<and> cbCmd k' = cbCmd k \<and> session k' = session k \<and> reportType k' = reportType k"
  by (cases k; cases k') simp

lemma safe_good:
  assumes "safe_step (hand_refs k) (hand_count k) k r" "uploader_ok k"
  shows "good_outcome k r"
proof (cases r)
  case (Inr k')
  then have s: "same_rest k k'" "shared_ok k' (hand_refs k) (hand_count k)"
    using assms(1) by (simp_all add: safe_step_def)
  note f = more_fields [OF s(1) [unfolded same_rest_def, THEN conjunct1]]
  then have "hand_refs k' = hand_refs k" "hand_count k' = hand_count k" "sess_ok k' = sess_ok k"
    by (simp_all add: hand_refs_def hand_count_def sess_ok_def)
  then show ?thesis using Inr s(2) assms(2) f by (simp add: good_outcome_def uploader_ok_def)
qed (use assms(1) in \<open>simp add: safe_step_def good_outcome_def\<close>)

lemma plain_good:
  assumes "shared_part k' = shared_part k" "sess_ok k' = sess_ok k" "uploader_ok k"
  shows "good_outcome k (Inr k')"
  using assms(2,3) shared_ok_part [OF assms(1)] shared_part_fields [OF assms(1)]
  by (simp add: good_outcome_def uploader_ok_def hand_refs_def hand_count_def)

lemma safe_pushCommand:
  "shared_ok k H n \<Longrightarrow> cmd_refs c = {#} \<Longrightarrow> \<not> is_upload c \<Longrightarrow> meta_ok c \<Longrightarrow> safe_step H n k (Inr (snd (pushCommand c k)))"
  using shared_pushCommand [of k c H n] by (cases "pushCommand c k") (simp add: safe_step_def)

lemma safe_pushTsCb:
  "shared_ok k H n \<Longrightarrow> cmd_refs c = {#} \<Longrightarrow> safe_step H n k (Inr (snd (pushTsCb c k)))"
  using shared_pushTsCb [of k c H n] by (cases "pushTsCb c k") (auto simp: safe_step_def split: if_splits)

lemma safe_both:
  assumes "shared_ok k H n" "cmd_refs c = {#}" "\<not> is_upload c" "meta_ok c" "cmd_refs c' = {#}"
  shows "safe_step H n k (Inr (case pushCommand c k of (ret, k) \<Rightarrow> if ret \<le> 0 then k else snd (pushTsCb c' k)))"
proof -
  obtain r k1 where p: "pushCommand c k = (r, k1)" by (cases "pushCommand c k")
  have k1: "same_rest k k1" "shared_ok k1 H n"
    using safe_pushCommand [OF assms(1-4)] p by (simp_all add: safe_step_def)
  have k2: "same_rest k1 (snd (pushTsCb c' k1))" "shared_ok (snd (pushTsCb c' k1)) H n"
    using safe_pushTsCb [OF k1(2) assms(5)] by (simp_all add: safe_step_def)
  show ?thesis
    using p k1 k2 same_rest_trans [OF k1(1) k2(1)] by (simp add: safe_step_def)
qed

lemma report_safe:
  assumes "shared_ok k H n"
  shows "safe_step H n k (reportTimeInfo a k ti ty)"
proof (cases ty)
  case LINK_TS_START
  let ?k = "k\<lparr>nTsLastStartTime := tiSystimestamp ti\<rparr>"
  have "shared_ok ?k H n" using assms by (simp add: shared_ok_def pool_refs_def)
  from safe_pushCommand [OF this, of "LINK_TSU_START_TIME ti"] show ?thesis
    using LINK_TS_START by (simp add: reportTimeInfo_def safe_step_def same_rest_def)
next
  case LINK_SEG_TIMESTAMP
  then show ?thesis
    using safe_pushCommand [OF assms, of "LINK_TSU_SEG_TIME ti"] by (simp add: reportTimeInfo_def)
next
  case LINK_TS_END
  then show ?thesis using notify_safe [OF assms, of a ti] by (simp add: reportTimeInfo_def)
qed

lemma key_frame_safe:
  "shared_ok k H n \<Longrightarrow> safe_step H n k (Inr (LinkAppendKeyframeMetaInfo k m))"
  by (auto simp: safe_step_def LinkAppendKeyframeMetaInfo_def same_rest_def shared_ok_def pool_refs_def
      split: option.splits)

lemma pic_safe:
  "shared_ok k H n \<Longrightarrow> safe_step H n k (Inr (snd (LinkTsUploaderPushPic ok k name buf)))"
  using safe_pushCommand [of k H n "LINK_TSU_PICTURE \<lparr>picFilename = name @ replicate 25 0,
              nFilenameLen = length name, picBuf = buf\<rparr>"]
  by (auto simp: LinkTsUploaderPushPic_def safe_step_def split: prod.splits)

lemma quit_good:
  assumes "uploader_ok k"
  shows "good_outcome k (Inr (snd (requestQuit k)))"
proof -
  let ?k = "k\<lparr>nQuit := True\<rparr>"
  have ok: "uploader_ok ?k"
    using plain_good [of ?k k] assms by (simp add: good_outcome_def sess_ok_def)
  obtain r k1 where p: "pushTsCb LINK_TSU_QUIT ?k = (r, k1)" by (cases "pushTsCb LINK_TSU_QUIT ?k")
  have "good_outcome ?k (Inr (snd (pushTsCb LINK_TSU_QUIT ?k)))"
    by (rule safe_good [OF safe_pushTsCb ok]) (use ok in \<open>simp_all add: uploader_ok_def\<close>)
  then have k1: "uploader_ok k1" by (simp add: p good_outcome_def)
  have "good_outcome k1 (Inr (snd (pushCommand LINK_TSU_QUIT k1)))"
    by (rule safe_good [OF safe_pushCommand k1]) (use k1 in \<open>simp_all add: uploader_ok_def\<close>)
  then show ?thesis
    using p k1 by (auto simp: requestQuit_def Let_def good_outcome_def split: prod.splits)
qed

lemma upload_pop_good:
  assumes "uploader_ok k"
  shows "good_outcome k (Inr (listenTsUpload_pop k))"
proof (cases "pCommandQueue k")
  case (Cons c cs)
  then show ?thesis
    using assms
    by (auto simp: listenTsUpload_pop_def good_outcome_def uploader_ok_def shared_ok_def pool_ok_def pool_refs_def
        hand_refs_def hand_count_def sess_ok_def pending_def in_hand_def ac_simps)
qed (use assms in \<open>simp add: listenTsUpload_pop_def good_outcome_def\<close>)

lemma cb_pop_good:
  assumes "uploader_ok k"
  shows "good_outcome k (Inr (tsCbWorker_pop k))"
proof (cases "pTsCbQueue k")
  case (Cons c cs)
  then show ?thesis
    using assms
    by (auto simp: tsCbWorker_pop_def good_outcome_def uploader_ok_def shared_ok_def pool_ok_def pool_refs_def
        hand_refs_def hand_count_def sess_ok_def ac_simps)
qed (use assms in \<open>simp add: tsCbWorker_pop_def good_outcome_def\<close>)

lemma handled_good:
  assumes "handled_ok (hand_refs k') (hand_count k') k' r" "list_all meta_ok (case workerCmd k' of None \<Rightarrow> [] | Some c \<Rightarrow> [c])"
  shows "good_outcome k r"
  using assms by (cases r) (auto simp: good_outcome_def uploader_ok_def hand_refs_def hand_count_def)

lemma upload_handle_good:
  assumes "uploader_ok k"
  shows "good_outcome k (listenTsUpload_handle e k)"
proof (cases "workerCmd k")
  case (Some c)
  let ?k = "k\<lparr>workerCmd := None\<rparr>"
  have "shared_ok ?k (cmd_refs c + hand_refs ?k) (in_hand c)"
    using assms Some by (simp add: uploader_ok_def hand_refs_def hand_count_def shared_ok_def pool_ok_def pool_refs_def)
  moreover have "sess_ok ?k" "meta_ok c"
    using assms Some by (simp_all add: uploader_ok_def)
  ultimately have "handled_ok (hand_refs ?k) 0 ?k (handleCommand e c ?k)"
    by (rule handleCommand_ok)
  then show ?thesis
    using Some handled_good [of ?k _ k] by (simp add: listenTsUpload_handle_def hand_count_def)
qed (use assms in \<open>simp add: listenTsUpload_handle_def good_outcome_def\<close>)

lemma cb_handle_good:
  assumes "uploader_ok k"
  shows "good_outcome k (tsCbWorker_handle k)"
proof (cases "cbCmd k")
  case (Some c)
  let ?k = "k\<lparr>cbCmd := None\<rparr>"
  have "shared_ok ?k (cmd_refs c + hand_refs ?k) (hand_count ?k)"
    using assms Some by (simp add: uploader_ok_def hand_refs_def hand_count_def shared_ok_def pool_ok_def pool_refs_def ac_simps)
  moreover have "sess_ok ?k"
    using assms Some by (simp add: uploader_ok_def sess_ok_def)
  ultimately have "handled_ok (hand_refs ?k) (hand_count ?k) ?k (handleCbCommand c ?k)"
    by (rule handleCbCommand_ok)
  then show ?thesis
    using Some handled_good [of ?k _ k] assms by (simp add: tsCbWorker_handle_def uploader_ok_def)
qed (use assms in \<open>simp add: tsCbWorker_handle_def good_outcome_def\<close>)

lemma step_good: "uploader_step k r \<Longrightarrow> uploader_ok k \<Longrightarrow> good_outcome k r"
proof (induction rule: uploader_step.induct)
  case (push d k a)
  then show ?case by (auto simp: uploader_ok_def intro!: safe_good push_safe)
next
  case (report k a ti ty)
  then show ?case by (auto simp: uploader_ok_def intro!: safe_good report_safe)
next
  case (key_frame k m)
  then show ?case by (auto simp: uploader_ok_def intro!: safe_good key_frame_safe)
next
  case (set_meta k m m2)
  then show ?case unfolding LinkSetSessionMeta_def by (auto simp: uploader_ok_def intro!: safe_good safe_both)
next
  case (clear_meta k)
  then show ?case unfolding LinkClearSessionMeta_def by (auto simp: uploader_ok_def intro!: safe_good safe_both)
next
  case (push_pic k ok name buf)
  then show ?case by (auto simp: uploader_ok_def intro!: safe_good pic_safe)
next
  case (set_plan k p)
  then show ?case unfolding LinkTsUploaderSetPlanType_def by (auto simp: uploader_ok_def intro!: safe_good safe_pushCommand)
next
  case (set_callback k b ma)
  then show ?case by (intro plain_good) (simp_all add: LinkTsUploaderSetTsCallback_def shared_part_def TsPool.TsPool.truncate_def sess_ok_def)
next
  case (set_end_callback k b)
  then show ?case by (intro plain_good) (simp_all add: LinkTsUploaderSetTsEndUploadCallback_def shared_part_def TsPool.TsPool.truncate_def sess_ok_def)
qed (simp_all add: quit_good upload_pop_good upload_handle_good cb_pop_good cb_handle_good)

lemma fresh_ok:
  "shared_ok (freshUploader upd tsMax pol len cnt kp) {#} 0" "sess_ok (freshUploader upd tsMax pol len cnt kp)"
  by (simp_all add: freshUploader_def shared_ok_def pool_ok_def owned_def apart_def used_def refs_ok_def pool_refs_def
      pending_def sess_ok_def id_ok_def zeroSession_def nth_Cons')

lemma start_ok:
  assumes "LinkNewTsUploader ne upd tsMax pol itemLen itemCount kp = Inr (ret, Some k)" "listenTsUpload_start e k = Inr k'"
  shows "uploader_ok k'"
proof -
  let ?f = "freshUploader upd tsMax pol itemLen itemCount kp"
  have "allocDataQueueAndUploadMeta (newAlloc ne) ?f = Inr (LINK_SUCCESS, k)"
    using assms(1) by (auto simp: LinkNewTsUploader_def and_then_eq_Inr split: if_splits)
  then have k: "shared_ok k {#} 0" "same_rest ?f k"
    using shared_alloc [OF fresh_ok(1), of upd tsMax pol itemLen itemCount kp "newAlloc ne"]
    by (auto simp: freshUploader_def)
  have f: "workerCmd k = None" "cbCmd k = None" "sess_ok k"
    using more_fields [OF k(2) [unfolded same_rest_def, THEN conjunct1]] fresh_ok(2) [of upd tsMax pol itemLen itemCount kp]
    by (simp_all add: sess_ok_def) (simp_all add: freshUploader_def)
  obtain ty k1 where c: "handleSessionCheck (envNow e) k (envNow e) True 0 = Inr (ty, k1)"
    "k' = k1\<lparr>isFirstSessionPicReported := True, isSegStartReport := True, isClr := False, recvQuit := False\<rparr>"
    using assms(2) by (auto simp: listenTsUpload_start_def and_then_eq_Inr)
  have h: "shared_part k1 = shared_part k" "id_ok (session k1)" "reportType k1 = reportType k"
      "nSessionEndResonCode (session k) \<noteq> 0 \<longrightarrow> nSessionEndResonCode (session k1) \<noteq> 0"
    using handleSessionCheck_ok [of k "envNow e" "envNow e" True 0] f(3) c(1) by (auto simp: sess_ok_def)
  have p: "shared_part k' = shared_part k" using h(1) c(2) by simp
  have "sess_ok k'" using h f(3) c(2) by (simp add: sess_ok_def)
  then show ?thesis
    using k(1) f shared_ok_part [OF p] shared_part_fields [OF p]
    by (simp add: uploader_ok_def hand_refs_def hand_count_def)
qed

lemma reach_ok: "uploader_reach k \<Longrightarrow> uploader_ok k"
proof (induction rule: uploader_reach.induct)
  case (step k k')
  then show ?case using step_good [of k "Inr k'"] by (simp add: good_outcome_def)
qed (rule start_ok)

subsection \<open>Properties\<close>

text \<open>
  C13: However the application, the upload thread and the callback thread interleave, no step uses or
  releases a queue that is gone, no assertion fails (the reason code of an ended session is never 0, every
  identifier fits), and a null pointer is followed only when a segment ends while the last allocation
  of a buffer had failed.
\<close>

theorem uploader_steps_safe:
  assumes "uploader_reach k" and "uploader_step k r"
  shows "r \<noteq> Inl Double_free \<and> r \<noteq> Inl Assertion_failed \<and> (r = Inl Null_deref \<longrightarrow> pQueue k = None)"
  using step_good [OF assms(2) reach_ok [OF assms(1)]] by (cases r) (auto simp: good_outcome_def)

text \<open>
  In every reachable state the live queues lie in different slots of the pool, every slot marked as used belongs to
  a live queue, every queue named by a command still to be handled is alive with at least as many references as
  there are commands naming it, and no more segments wait for the upload thread than the limit of the cache.
\<close>

theorem segment_buffers_apart:
  assumes "uploader_reach k"
  shows "(\<forall>p q p' q'. tsQueues k p = Some q \<and> tsQueues k p' = Some q' \<and> p \<noteq> p' \<longrightarrow> pMem (qmem q) \<noteq> pMem (qmem q')) \<and>
    (\<forall>i < 4. tsItemUsedFlag k ! i \<longleftrightarrow> (\<exists>p q. tsQueues k p = Some q \<and> pMem (qmem q) = Suc i)) \<and>
    (\<forall>p. 0 < count (pool_refs k) p \<longrightarrow> (\<exists>q. tsQueues k p = Some q \<and> int (count (pool_refs k) p) \<le> nCount q)) \<and>
    int (pending (pCommandQueue k)) \<le> nTsMaxCacheNum k"
proof (intro conjI)
  have s: "shared_ok k (hand_refs k) (hand_count k)"
    using reach_ok [OF assms] by (simp add: uploader_ok_def)
  then have p: "pool_ok k (pool_refs k)"
    using pool_ok_mono [of k "pool_refs k + hand_refs k" "pool_refs k"] by (simp add: shared_ok_def)
  then have a: "apart (tsQueues k)" and u: "used (tsItemUsedFlag k) (tsQueues k)" and r: "refs_ok (tsQueues k) (pool_refs k)"
    and o: "owned (nat (nMaxItemLen k) + 4) (nextQueue k) (tsItemUsedFlag k) (tsQueues k)"
    by (simp_all add: pool_ok_def)
  show "\<forall>p q p' q'. tsQueues k p = Some q \<and> tsQueues k p' = Some q' \<and> p \<noteq> p' \<longrightarrow> pMem (qmem q) \<noteq> pMem (qmem q')"
    using a unfolding apart_def by blast
  have "tsItemUsedFlag k ! i" if "tsQueues k p = Some q" "pMem (qmem q) = Suc i" for p q i
    using o that unfolding owned_def by fastforce
  then show "\<forall>i < 4. tsItemUsedFlag k ! i \<longleftrightarrow> (\<exists>p q. tsQueues k p = Some q \<and> pMem (qmem q) = Suc i)"
    using u unfolding used_def by blast
  show "\<forall>p. 0 < count (pool_refs k) p \<longrightarrow> (\<exists>q. tsQueues k p = Some q \<and> int (count (pool_refs k) p) \<le> nCount q)"
    using r unfolding refs_ok_def by auto
  show "int (pending (pCommandQueue k)) \<le> nTsMaxCacheNum k"
    using s by (simp add: shared_ok_def)
qed

text \<open>A running uploader, for the witnesses: one slot of one packet, no session keeper.\<close>

definition demo_alloc :: TsAlloc where
  "demo_alloc = \<lparr>metaOk = True, poolOk = True, structOk = True, mutexRet = 0, condRet = 0\<rparr>"

definition demo_env :: NewUploaderEnv where
  "demo_env = \<lparr>newAlloc = demo_alloc, newStructOk = True, cmdQueueRet = 0, cbQueueRet = 0, memMutexRet = 0,
     uploadMutexRet = 0, workerRet = 0, cbWorkerRet = 0\<rparr>"

definition demo_keeper :: SessionKeeper where
  "demo_keeper = \<lparr>nSegmentId = 0, nSegSeqNum = 0, nLastCheckTime = 0, keeperSessionId = [], segmentHandle = 0,
     nSessionDuration = 0, nSessionTimeout = 0, updates = [], reports = []\<rparr>"

definition demo_time :: LinkReportTimeInfo where
  "demo_time = \<lparr>tiAudioDuration = 0, tiVideoDuration = 40, tiMediaDuation = 40,
     tiSystimestamp = 1600000000000000000, tiReserved = 0\<rparr>"

lemma demo_runs:
  "\<exists>k. LinkNewTsUploader demo_env False 8 TSQ_APPEND_FIX 8 1 demo_keeper = Inr (0, Some k) \<and> pQueue k = Some 0 \<and>
     listenTsUpload_start e k =
       Inr (k\<lparr>isFirstSessionPicReported := True, isSegStartReport := True, isClr := False, recvQuit := False\<rparr>)"
  by (simp add: LinkNewTsUploader_def demo_env_def demo_alloc_def allocDataQueueAndUploadMeta_def allocTs_def freshUploader_def
      LinkNewCircleQueue_def listenTsUpload_start_def handleSessionCheck_def upt_conv_Cons)

lemma demo_reach: "\<exists>k. uploader_reach k \<and> pQueue k = Some 0"
proof -
  define e where "e = \<lparr>envNow = 0, envParam = (0, [], [], 0), envPicture = (0, 0), envJunk = [], envPut = (\<lambda>_. (0, 200)),
    hasStatisticCb = False\<rparr>"
  obtain k where k: "LinkNewTsUploader demo_env False 8 TSQ_APPEND_FIX 8 1 demo_keeper = Inr (0, Some k)" "pQueue k = Some 0"
    "listenTsUpload_start e k =
       Inr (k\<lparr>isFirstSessionPicReported := True, isSegStartReport := True, isClr := False, recvQuit := False\<rparr>)"
    using demo_runs by blast
  then show ?thesis
    using uploader_reach.start [OF k(1,3)] by auto
qed

theorem uploader_steps_safe_witness:
  "\<exists>k. uploader_reach k \<and> uploader_step k (notifyDataPrapared demo_alloc k demo_time) \<and>
     notifyDataPrapared demo_alloc k demo_time \<noteq> Inl Null_deref"
proof -
  obtain k where k: "uploader_reach k" "pQueue k = Some 0" using demo_reach by blast
  have s: "uploader_step k (notifyDataPrapared demo_alloc k demo_time)"
    using uploader_step.report [of k demo_alloc demo_time LINK_TS_END] by (simp add: reportTimeInfo_def)
  then show ?thesis using uploader_steps_safe [OF k(1) s] k by auto
qed

theorem segment_buffers_apart_witness:
  "\<exists>k. uploader_reach k \<and> (\<exists>q. tsQueues k 0 = Some q \<and> 1 \<le> nCount q)"
proof -
  obtain k where k: "uploader_reach k" "pQueue k = Some 0" using demo_reach by blast
  then have c: "0 < count (pool_refs k) 0" by (simp add: pool_refs_def)
  then obtain q where "tsQueues k 0 = Some q" "int (count (pool_refs k) 0) \<le> nCount q"
    using segment_buffers_apart [OF k(1)] by blast
  moreover from this c have "1 \<le> nCount q" by linarith
  ultimately show ?thesis using k(1) by blast
qed

end
