(* ===== verification/UploadAccounting.thy ===== *)
theory UploadAccounting
  imports TsUploader
begin

section \<open>What an uploaded segment does to its session\<close>

text \<open>
  Functional properties of the two commands that close a segment: the durations they account for,
  the request they send to the server and the reports they send to the segment manager.
\<close>

subsection \<open>What the parts change\<close>

text \<open>The transfer itself changes only its own records.\<close>

definition without_transfer :: "KodoUploader \<Rightarrow> KodoUploader" where
  "without_transfer k = k\<lparr>uploadState := LINK_UPLOAD_INIT, puts := [], picUploads := [], picture := None, statistics := []\<rparr>"

definition transfer_only :: "KodoUploader \<Rightarrow> KodoUploader \<Rightarrow> bool" where
  "transfer_only k k' \<longleftrightarrow> without_transfer k' = without_transfer k"

lemma transfer_only_refl [simp]: "transfer_only k k"
  by (simp add: transfer_only_def)

lemma transfer_only_trans: "transfer_only k k' \<Longrightarrow> transfer_only k' k'' \<Longrightarrow> transfer_only k k''"
  by (simp add: transfer_only_def)

lemma transfer_only_simps [simp]:
  "transfer_only k (k'\<lparr>uploadState := u\<rparr>) = transfer_only k k'" "transfer_only k (k'\<lparr>puts := ps\<rparr>) = transfer_only k k'"
  "transfer_only k (k'\<lparr>picUploads := pu\<rparr>) = transfer_only k k'" "transfer_only k (k'\<lparr>picture := pc\<rparr>) = transfer_only k k'"
  "transfer_only k (k'\<lparr>statistics := st\<rparr>) = transfer_only k k'"
  by (simp_all add: transfer_only_def without_transfer_def)

lemma transfer_only_statistic [simp]: "transfer_only k (statistic e kd r k') = transfer_only k k'"
  "puts (statistic e kd r k') = puts k'" "uploadState (statistic e kd r k') = uploadState k'"
  by (simp_all add: statistic_def)

lemma transfer_only_fields:
  assumes "transfer_only k k'"
  shows "session k' = session k" "bakSession k' = bakSession k" "keeper k' = keeper k" "reportType k' = reportType k"
    "isSegStartReport k' = isSegStartReport k" "isFirstSessionPicReported k' = isFirstSessionPicReported k"
    "pSessionMeta k' = pSessionMeta k" "lastVideoDuration k' = lastVideoDuration k"
    "lastAudioDuration k' = lastAudioDuration k" "koLastTsEndTime k' = koLastTsEndTime k" "tsQueues k' = tsQueues k"
proof -
  show "session k' = session k" "bakSession k' = bakSession k" "keeper k' = keeper k" "reportType k' = reportType k"
    "isSegStartReport k' = isSegStartReport k" "isFirstSessionPicReported k' = isFirstSessionPicReported k"
    "pSessionMeta k' = pSessionMeta k" "lastVideoDuration k' = lastVideoDuration k"
    "lastAudioDuration k' = lastAudioDuration k" "koLastTsEndTime k' = koLastTsEndTime k" "tsQueues k' = tsQueues k"
    using arg_cong [OF assms [unfolded transfer_only_def], of session]
      arg_cong [OF assms [unfolded transfer_only_def], of bakSession]
      arg_cong [OF assms [unfolded transfer_only_def], of keeper]
      arg_cong [OF assms [unfolded transfer_only_def], of reportType]
      arg_cong [OF assms [unfolded transfer_only_def], of isSegStartReport]
      arg_cong [OF assms [unfolded transfer_only_def], of isFirstSessionPicReported]
      arg_cong [OF assms [unfolded transfer_only_def], of pSessionMeta]
      arg_cong [OF assms [unfolded transfer_only_def], of lastVideoDuration]
      arg_cong [OF assms [unfolded transfer_only_def], of lastAudioDuration]
      arg_cong [OF assms [unfolded transfer_only_def], of koLastTsEndTime]
      arg_cong [OF assms [unfolded transfer_only_def], of tsQueues]
    by (simp_all add: without_transfer_def)
qed

lemma uploadPicture_frame:
  "uploadPicture e k = Inr (code, k') \<Longrightarrow> transfer_only k k' \<and> puts k' = puts k"
  by (auto simp: uploadPicture_def Let_def case_prod_beta and_then_eq_Inr split: option.split_asm if_split_asm)

lemma linkPutBuffer_request:
  assumes "linkPutBuffer junk ans h t key d ms mg du sq di = Inr (r, req)"
  shows "reqData req = d \<and> reqMetas req ! 3 = print_int du \<and> reqMetas req ! 5 = print_int sq \<and> reqMetas req ! 7 = print_int di"
proof -
  obtain b mv pp b' where p: "put_strings 64 [[111], mv, [100], print_int du, [115], print_int sq, [99], print_int di] b = Inr (pp, b')"
    and r: "reqData req = d" "reqMetas req = map (\<lambda>p. c_string (drop p b')) pp"
    using assms by (auto simp: linkPutBuffer_def Let_def and_then_eq_Inr case_prod_beta simp del: put_strings.simps)
  let ?ss = "[[111], mv, [100], print_int du, [115], print_int sq, [99], print_int di] :: bytes list"
  have fit: "64 + length (terminated ?ss) \<le> length b"
  proof (rule ccontr)
    assume "\<not> 64 + length (terminated ?ss) \<le> length b"
    then have "put_strings 64 ?ss b = Inl Out_of_bounds \<or> length b < 64"
      using put_strings_fault [of b 64 ?ss] by (cases "64 \<le> length b") auto
    then show False using p by (auto simp: write_at_def)
  qed
  have o: "pp = offsets 64 ?ss" "b' = overwrite 64 (terminated ?ss) b"
    using put_strings_ok [OF fit] p by simp_all
  have D: "drop 64 b' = terminated ?ss @ drop (64 + length (terminated ?ss)) b"
    using fit by (simp add: o(2) overwrite_def)
  let ?tl = "[[100], print_int du, [115], print_int sq, [99], print_int di] :: bytes list"
  have "drop (67 + length mv) b' = drop (3 + length mv) (drop 64 b')"
    by (simp add: add.commute add.left_commute)
  also have "\<dots> = terminated ?tl @ drop (64 + length (terminated ?ss)) b"
    by (simp add: D numeral_3_eq_3)
  finally have "map (\<lambda>q. c_string (drop q b')) (offsets (67 + length mv) ?tl) = ?tl"
    by (rule read_strings) (simp add: print_int_nonzero)
  moreover have "reqMetas req = c_string (drop 64 b') # c_string (drop 66 b') #
      map (\<lambda>q. c_string (drop q b')) (offsets (67 + length mv) ?tl)"
    using r(2) by (simp add: o(1))
  ultimately show ?thesis
    using r(1) by simp
qed

lemma uploadSegment_frame:
  assumes "uploadSegment e buf meta t di k = Inr (ok, code, k')"
  shows "transfer_only k k' \<and>
    (puts k' = puts k \<and> \<not> ok \<or>
     (\<exists>req. puts k' = puts k @ [req] \<and> ok = (uploadState k' = LINK_UPLOAD_OK) \<and> reqData req = buf \<and>
        reqMetas req ! 3 = print_int (nTsDuration (session k)) \<and>
        reqMetas req ! 5 = print_int (nTsSequenceNumber (session k)) \<and> reqMetas req ! 7 = print_int di))"
proof -
  obtain c k1 where p: "uploadPicture e k = Inr (c, k1)"
    and u: "(case envParam e of (ret, upHost, uptoken, nFilePrefix) \<Rightarrow>
         if ret \<noteq> LINK_SUCCESS then Inr (False, c, k1)
         else (case meta of
             None \<Rightarrow> Inl Null_deref
           | Some metas \<Rightarrow>
               and_then (linkPutBuffer (envJunk e) (envPut e) upHost uptoken (segment_key (session k1) t) buf metas
                   (if 0 < nFilePrefix then [] else custom_magic (session k1) t)
                   (nTsDuration (session k1)) (nTsSequenceNumber (session k1)) di) (\<lambda>(putRet, req).
                 let ok = (putRet = LINK_SUCCESS) in
                 Inr (ok, c, statistic e LINK_UPLOAD_TS
                   (if ok then LINK_UPLOAD_RESULT_OK else LINK_UPLOAD_RESULT_FAIL)
                   (k1\<lparr>puts := puts k1 @ [req], uploadState := (if ok then LINK_UPLOAD_OK else LINK_UPLOAD_FAIL)\<rparr>))))) =
       Inr (ok, code, k')"
    using assms by (auto simp: uploadSegment_def and_then_eq_Inr)
  note f = uploadPicture_frame [OF p]
  then have s: "session k1 = session k" using transfer_only_fields(1) by blast
  have "transfer_only k1 k' \<and>
    (puts k' = puts k1 \<and> \<not> ok \<or>
     (\<exists>req. puts k' = puts k1 @ [req] \<and> ok = (uploadState k' = LINK_UPLOAD_OK) \<and> reqData req = buf \<and>
        reqMetas req ! 3 = print_int (nTsDuration (session k1)) \<and>
        reqMetas req ! 5 = print_int (nTsSequenceNumber (session k1)) \<and> reqMetas req ! 7 = print_int di))"
    using u by (cases "envParam e") (auto simp: and_then_eq_Inr Let_def dest!: linkPutBuffer_request
        split: if_split_asm option.split_asm)
  then show ?thesis
    using f s transfer_only_trans by auto
qed

text \<open>Destroying a queue touches the pool only.\<close>

lemma destroyQueue_frame:
  assumes "destroyQueue p (k :: KodoUploader) = Inr k'"
  shows "session k' = session k" "keeper k' = keeper k" "puts k' = puts k" "uploadState k' = uploadState k"
  using assms by (auto simp: destroyQueue_def LinkDestroyQueue_def freeTs_def Let_def
      split: option.split_asm option.split if_split_asm)

definition prepared :: "KodoUploader \<Rightarrow> KodoUploader" where
  "prepared k = k\<lparr>koLastTsEndTime := nLastSystime k - 40 * 1000000, nLastTsDuration := nTsDuration (session k),
     nLastSystimeBak := nLastSystime k, nFirstSystime := 0\<rparr>"

definition reported :: "bool \<Rightarrow> bool \<Rightarrow> int \<Rightarrow> KodoUploader \<Rightarrow> KodoUploader" where
  "reported ok sh code k = reportSegment ok sh code (k\<lparr>session := (session k)\<lparr>nLastTsEndTime := koLastTsEndTime k\<rparr>\<rparr>)"

definition segment_buffer :: "nat option \<Rightarrow> KodoUploader \<Rightarrow> (int \<times> bytes option) run" where
  "segment_buffer p k = (case p of None \<Rightarrow> Inr (0, None)
     | Some p \<Rightarrow> (case tsQueues k p of None \<Rightarrow> Inl Double_free | Some q \<Rightarrow> Inr (LinkGetQueueBuffer q)))"

lemma bufferUpload_eq:
  "bufferUpload e isDrop p meta k =
     and_then (segment_buffer p k) (\<lambda>(ret, bd). and_then (copy_id (sessionId (session k))) (\<lambda>_.
     and_then (if wantsUpload k \<and> 0 < ret
        then uploadSegment e (the bd) meta (nLastSystime k - 40 * 1000000) 0 (prepared k)
        else Inr (False, 1000, prepared k)) (\<lambda>(uploaded, picRet, k').
     and_then (reportSessionEnd picRet k') (\<lambda>k'.
     and_then (case p of None \<Rightarrow> Inr (reported uploaded (wantsUpload k \<and> 0 < ret) picRet k')
        | Some p \<Rightarrow> destroyQueue p (reported uploaded (wantsUpload k \<and> 0 < ret) picRet k')) (\<lambda>k'.
       Inr (finishSegment isDrop (nTsStartTime (session k)) k'))))))"
proof -
  define t where "t = nLastSystime k - 40 * 1000000"
  define k1 where "k1 = k\<lparr>koLastTsEndTime := t, nLastTsDuration := nTsDuration (session k)\<rparr>"
  have k2: "k1\<lparr>nLastSystimeBak := nLastSystime k1, nFirstSystime := 0\<rparr> = prepared k"
    by (simp add: k1_def prepared_def t_def)
  have k1: "wantsUpload k1 = wantsUpload k" "segment_buffer p k1 = segment_buffer p k" "session k1 = session k"
    unfolding k1_def segment_buffer_def by (simp_all add: wantsUpload_def cong: option.case_cong)
  show ?thesis
    unfolding bufferUpload_def Let_def t_def [symmetric] k1_def [symmetric] segment_buffer_def [symmetric] k2 k1
      reported_def by simp
qed

lemma bufferUpload_InrD:
  assumes "bufferUpload e isDrop p meta k = Inr k'"
  shows "\<exists>ok code sh k3 k4 k5.
    sh = (wantsUpload k \<and> (\<exists>x q. p = Some x \<and> tsQueues k x = Some q \<and> 0 < fst (LinkGetQueueBuffer q))) \<and>
    (if sh then (\<exists>x q ret b. p = Some x \<and> tsQueues k x = Some q \<and> LinkGetQueueBuffer q = (ret, Some b) \<and> 0 < ret \<and>
        uploadSegment e b meta (nLastSystime k - 40 * 1000000) 0 (prepared k) = Inr (ok, code, k3)) \<and> wantsUpload k
     else ok = False \<and> code = 1000 \<and> k3 = prepared k) \<and>
    reportSessionEnd code k3 = Inr k4 \<and>
    session k5 = session (reported ok sh code k4) \<and> keeper k5 = keeper (reported ok sh code k4) \<and>
    puts k5 = puts (reported ok sh code k4) \<and> uploadState k5 = uploadState (reported ok sh code k4) \<and>
    k' = finishSegment isDrop (nTsStartTime (session k)) k5"
proof -
  define up where "up = (\<lambda>sh bd. if sh then uploadSegment e (the bd) meta (nLastSystime k - 40 * 1000000) 0 (prepared k)
      else Inr (False, 1000, prepared k))"
  define fin where "fin = (\<lambda>sh (uploaded, picRet, k'). and_then (reportSessionEnd picRet k') (\<lambda>k'.
      and_then (case p of None \<Rightarrow> Inr (reported uploaded sh picRet k') | Some p \<Rightarrow> destroyQueue p (reported uploaded sh picRet k'))
        (\<lambda>k'. Inr (finishSegment isDrop (nTsStartTime (session k)) k'))))"
  have all: "bufferUpload e isDrop p meta k = and_then (segment_buffer p k) (\<lambda>(ret, bd).
      and_then (copy_id (sessionId (session k))) (\<lambda>_.
      and_then (up (wantsUpload k \<and> 0 < ret) bd) (fin (wantsUpload k \<and> 0 < ret))))"
    unfolding bufferUpload_eq up_def fin_def by simp
  obtain ret bd where b: "segment_buffer p k = Inr (ret, bd)"
    and r1: "and_then (copy_id (sessionId (session k))) (\<lambda>_.
      and_then (up (wantsUpload k \<and> 0 < ret) bd) (fin (wantsUpload k \<and> 0 < ret))) = Inr k'"
    using assms unfolding all by (cases "segment_buffer p k") auto
  define sh where "sh = (wantsUpload k \<and> 0 < ret)"
  have "and_then (up sh bd) (fin sh) = Inr k'"
    using r1 unfolding sh_def [symmetric] by (cases "copy_id (sessionId (session k))") auto
  then obtain ok code k3 where u: "up sh bd = Inr (ok, code, k3)" and r2: "fin sh (ok, code, k3) = Inr k'"
    by (cases "up sh bd") auto
  then obtain k4 where e: "reportSessionEnd code k3 = Inr k4"
    and r3: "and_then (case p of None \<Rightarrow> Inr (reported ok sh code k4) | Some p \<Rightarrow> destroyQueue p (reported ok sh code k4)) (\<lambda>k'.
              Inr (finishSegment isDrop (nTsStartTime (session k)) k')) = Inr k'"
    by (cases "reportSessionEnd code k3") (auto simp: fin_def)
  then obtain k5 where d: "(case p of None \<Rightarrow> Inr (reported ok sh code k4) | Some p \<Rightarrow> destroyQueue p (reported ok sh code k4)) = Inr k5"
    and f: "k' = finishSegment isDrop (nTsStartTime (session k)) k5"
    by (auto simp: and_then_eq_Inr)
  have k5: "session k5 = session (reported ok sh code k4)" "keeper k5 = keeper (reported ok sh code k4)"
    "puts k5 = puts (reported ok sh code k4)" "uploadState k5 = uploadState (reported ok sh code k4)"
    using d destroyQueue_frame [of _ "reported ok sh code k4" k5] by (auto split: option.split_asm)
  have "\<exists>x q b. p = Some x \<and> tsQueues k x = Some q \<and> LinkGetQueueBuffer q = (ret, Some b) \<and> bd = Some b" if "0 < ret"
    using b that by (auto simp: segment_buffer_def LinkGetQueueBuffer_def split: option.split_asm if_split_asm)
  then have "if sh then (\<exists>x q ret b. p = Some x \<and> tsQueues k x = Some q \<and> LinkGetQueueBuffer q = (ret, Some b) \<and> 0 < ret \<and>
        uploadSegment e b meta (nLastSystime k - 40 * 1000000) 0 (prepared k) = Inr (ok, code, k3)) \<and> wantsUpload k
     else ok = False \<and> code = 1000 \<and> k3 = prepared k"
    using u by (cases sh) (auto simp: sh_def up_def)
  moreover have "sh = (wantsUpload k \<and> (\<exists>x q. p = Some x \<and> tsQueues k x = Some q \<and> 0 < fst (LinkGetQueueBuffer q)))"
    using b by (auto simp: sh_def segment_buffer_def split: option.split_asm)
  ultimately show ?thesis using e k5 f by blast
qed

text \<open>The part of a session that counts durations.\<close>

definition account :: "LinkSession \<Rightarrow> int \<times> int \<times> int \<times> int \<times> int \<times> int" where
  "account s = (nAccSessionVideoDuration s, nAccSessionAudioDuration s, nAccSessionDuration s,
     nTotalSessionVideoDuration s, nTotalSessionAudioDuration s, nTsDuration s)"

lemma account_simps [simp]:
  "account (s\<lparr>coverStatus := c\<rparr>) = account s" "account (s\<lparr>nLastTsEndTime := t\<rparr>) = account s"
  "account (s\<lparr>isNewSessionStarted := i\<rparr>) = account s" "account (s\<lparr>nTsSequenceNumber := i\<rparr>) = account s"
  "account (setSessionCoverStatus s st) = account s"
  by (simp_all add: account_def setSessionCoverStatus_def)

lemma LinkUpdateSegment_simps [simp]:
  "session (LinkUpdateSegment h s m k) = session k" "puts (LinkUpdateSegment h s m k) = puts k"
  "uploadState (LinkUpdateSegment h s m k) = uploadState k" "reportType (LinkUpdateSegment h s m k) = reportType k"
  "lastVideoDuration (LinkUpdateSegment h s m k) = lastVideoDuration k"
  "lastAudioDuration (LinkUpdateSegment h s m k) = lastAudioDuration k"
  "koLastTsEndTime (LinkUpdateSegment h s m k) = koLastTsEndTime k"
  by (simp_all add: LinkUpdateSegment_def)

lemma reportSessionEnd_frame:
  "reportSessionEnd code k = Inr k' \<Longrightarrow> account (session k') = account (session k) \<and> puts k' = puts k \<and>
   uploadState k' = uploadState k \<and> lastVideoDuration k' = lastVideoDuration k \<and> lastAudioDuration k' = lastAudioDuration k"
  by (auto simp: reportSessionEnd_def Let_def split: if_split_asm)

lemma reportSessionStart_frame:
  "account (session (reportSessionStart code k)) = account (session k) \<and> puts (reportSessionStart code k) = puts k \<and>
   uploadState (reportSessionStart code k) = uploadState k"
  by (simp add: reportSessionStart_def Let_def)

lemma reported_frame:
  "account (session (reported ok sh code k)) =
     (if ok then account (session k) else account (session (restoreDuration k))) \<and>
   puts (reported ok sh code k) = puts k \<and> uploadState (reported ok sh code k) = uploadState k"
proof -
  have r: "account (session (restoreDuration (k\<lparr>session := (session k)\<lparr>nLastTsEndTime := t\<rparr>\<rparr>))) =
      account (session (restoreDuration k))" for t
    by (simp add: restoreDuration_def account_def Let_def)
  have p: "puts (restoreDuration k) = puts k" "uploadState (restoreDuration k) = uploadState k" for k
    by (simp_all add: restoreDuration_def Let_def)
  show ?thesis
    by (simp add: reported_def reportSegment_def Let_def r p reportSessionStart_frame)
qed

text \<open>
  C14: Closing a segment adds its audio and video durations, and the longer of the two as the session's,
  to the account of the session exactly when the segment was stored on the server; when the transfer failed, was
  not wanted or the segment was dropped, the account is as before. The totals grow in every case, and the
  durations of the next report start at 0.
\<close>

theorem segment_accounting:
  assumes "bufferUpload e isDrop p meta (handleTsEndTimeReport k ti) = Inr k'"
    and "stored = (puts k' \<noteq> puts k \<and> uploadState k' = LINK_UPLOAD_OK)"
  shows "nAccSessionVideoDuration (session k') = nAccSessionVideoDuration (session k) + (if stored then tiVideoDuration ti else 0) \<and>
    nAccSessionAudioDuration (session k') = nAccSessionAudioDuration (session k) + (if stored then tiAudioDuration ti else 0) \<and>
    nAccSessionDuration (session k') =
      nAccSessionDuration (session k) + (if stored then max (tiVideoDuration ti) (tiAudioDuration ti) else 0) \<and>
    nTotalSessionVideoDuration (session k') = nTotalSessionVideoDuration (session k) + tiVideoDuration ti \<and>
    nTotalSessionAudioDuration (session k') = nTotalSessionAudioDuration (session k) + tiAudioDuration ti \<and>
    nVideoGapFromLastReport (session k') = 0 \<and> nAudioGapFromLastReport (session k') = 0"
proof -
  let ?k = "handleTsEndTimeReport k ti"
  obtain ok code sh k3 k4 k5 where
    u: "if sh then (\<exists>x q ret b. p = Some x \<and> tsQueues ?k x = Some q \<and> LinkGetQueueBuffer q = (ret, Some b) \<and> 0 < ret \<and>
        uploadSegment e b meta (nLastSystime ?k - 40 * 1000000) 0 (prepared ?k) = Inr (ok, code, k3)) \<and> wantsUpload ?k
     else ok = False \<and> code = 1000 \<and> k3 = prepared ?k"
    and e: "reportSessionEnd code k3 = Inr k4"
    and k5: "session k5 = session (reported ok sh code k4)" "puts k5 = puts (reported ok sh code k4)"
      "uploadState k5 = uploadState (reported ok sh code k4)"
    and f: "k' = finishSegment isDrop (nTsStartTime (session ?k)) k5"
    using bufferUpload_InrD [OF assms(1)] by blast
  have prep: "session (prepared ?k) = session ?k" "puts (prepared ?k) = puts k"
      "lastVideoDuration (prepared ?k) = tiVideoDuration ti" "lastAudioDuration (prepared ?k) = tiAudioDuration ti"
    by (simp_all add: prepared_def handleTsEndTimeReport_def Let_def)
  have t: "transfer_only (prepared ?k) k3" "(puts k3 \<noteq> puts k \<and> uploadState k3 = LINK_UPLOAD_OK) = ok"
    using u prep(2) uploadSegment_frame [of e _ meta _ 0 "prepared ?k" ok code k3] by (cases sh; force)+
  note t3 = transfer_only_fields [OF t(1)]
  note e4 = reportSessionEnd_frame [OF e]
  have st: "stored = ok"
    using assms(2) f t(2) k5 e4 reported_frame [of ok sh code k4]
    by (simp add: finishSegment_def Let_def)
  have a4: "account (session k4) = account (session ?k)" "lastVideoDuration k4 = tiVideoDuration ti"
      "lastAudioDuration k4 = tiAudioDuration ti"
    using e4 t3 prep by simp_all
  have "account (session k') = account (session k5)"
      "nVideoGapFromLastReport (session k') = 0 \<and> nAudioGapFromLastReport (session k') = 0"
    by (simp_all add: f finishSegment_def Let_def account_def resetSessionReportScope_def resetSessionCurrentTsScope_def)
  then show ?thesis
    using reported_frame [of ok sh code k4] a4 k5(1)
    by (cases ok) (auto simp: st account_def restoreDuration_def Let_def handleTsEndTimeReport_def)
qed

text \<open>
  An upload happens only when the plan asks for it and the segment is not empty; it carries exactly the
  bytes collected for the segment, with the segment's duration and sequence number. Its discontinuity flag is
  always 0: the code computes it from a variable that is set only later.
\<close>

theorem upload_request_contents:
  assumes "bufferUpload e isDrop p meta k = Inr k'" and "puts k' \<noteq> puts k"
  shows "\<exists>req x q. puts k' = puts k @ [req] \<and> wantsUpload k \<and> p = Some x \<and> tsQueues k x = Some q \<and>
    0 < nLen q \<and> reqData req = take (nLen q) (pData q) \<and>
    reqMetas req ! 3 = print_int (nTsDuration (session k)) \<and>
    reqMetas req ! 5 = print_int (nTsSequenceNumber (session k)) \<and> reqMetas req ! 7 = print_int 0"
proof -
  obtain ok code sh k3 k4 k5 where
    u: "if sh then (\<exists>x q ret b. p = Some x \<and> tsQueues k x = Some q \<and> LinkGetQueueBuffer q = (ret, Some b) \<and> 0 < ret \<and>
        uploadSegment e b meta (nLastSystime k - 40 * 1000000) 0 (prepared k) = Inr (ok, code, k3)) \<and> wantsUpload k
     else ok = False \<and> code = 1000 \<and> k3 = prepared k"
    and e: "reportSessionEnd code k3 = Inr k4"
    and k5: "puts k5 = puts (reported ok sh code k4)"
    and f: "k' = finishSegment isDrop (nTsStartTime (session k)) k5"
    using bufferUpload_InrD [OF assms(1)] by blast
  have prep: "session (prepared k) = session k" "puts (prepared k) = puts k"
    by (simp_all add: prepared_def)
  have "puts k' = puts k3"
    using f k5 reportSessionEnd_frame [OF e] reported_frame [of ok sh code k4] by (simp add: finishSegment_def Let_def)
  then have p3: "puts k3 \<noteq> puts (prepared k)" "puts k' = puts k3" using assms(2) prep by simp_all
  then have "sh" using u by (cases sh) auto
  then obtain x q ret b where x: "p = Some x" "tsQueues k x = Some q" "LinkGetQueueBuffer q = (ret, Some b)" "0 < ret" "wantsUpload k"
    and up: "uploadSegment e b meta (nLastSystime k - 40 * 1000000) 0 (prepared k) = Inr (ok, code, k3)"
    using u by auto
  have "b = take (nLen q) (pData q)" "0 < nLen q"
    using x(3,4) by (auto simp: LinkGetQueueBuffer_def split: if_split_asm)
  then show ?thesis
    using uploadSegment_frame [OF up] p3 prep x by auto
qed

lemma reportSessionEnd_report:
  "reportSessionEnd code k = Inr k' \<Longrightarrow> isSegStartReport k \<Longrightarrow> reportType k AND 4 \<noteq> 0 \<Longrightarrow>
   nSessionEndResonCode (session k) \<noteq> 0 \<and> session k' = (session k)\<lparr>coverStatus := 1000\<rparr> \<and> pSessionMeta k' = pSessionMeta k \<and>
   reportType k' = reportType k \<and>
   (\<exists>b. reports (keeper k') = reports (keeper k) @ [(segHandle (session k), b, pSessionMeta k)] \<and>
      sessionId b = sessionId (bakSession k) \<and> nSessionEndResonCode b = nSessionEndResonCode (session k) \<and>
      isNewSessionStarted b = 0)"
  by (auto simp: reportSessionEnd_def Let_def LinkUpdateSegment_def LinkUpdateSegment_call_def setSessionCoverStatus_def
      split: if_split_asm)

lemma reported_start:
  "sh \<Longrightarrow> reportType k AND 1 \<noteq> 0 \<Longrightarrow>
   \<exists>s. reports (keeper (reported ok sh code k)) = reports (keeper k) @ [(segHandle (session k), s, pSessionMeta k)] \<and>
      sessionId s = sessionId (session k) \<and> isNewSessionStarted s = 1 \<and> nTsSequenceNumber s = 1"
  by (auto simp: reported_def reportSegment_def reportSessionStart_def LinkUpdateSegment_def LinkUpdateSegment_call_def
      setSessionCoverStatus_def restoreDuration_def Let_def)

text \<open>
  When a session has ended (report type 5) and a segment of the next one is due for upload, the segment manager gets
  two reports in this order: the end of the previous session, under its identifier and with a reason code that is not 0, and
  the start of the new session, under the new identifier and with sequence number 1; this holds whether or not the transfer
  worked.
\<close>

theorem rollover_reported_in_order:
  assumes "bufferUpload e isDrop (Some x) meta k = Inr k'" and "tsQueues k x = Some q"
    and "0 < fst (LinkGetQueueBuffer q)" "wantsUpload k" and "isSegStartReport k" "reportType k = 5"
  shows "\<exists>b s. reports (keeper k') = reports (keeper k) @
      [(segHandle (session k), b, pSessionMeta k), (segHandle (session k), s, pSessionMeta k)] \<and>
    sessionId b = sessionId (bakSession k) \<and> nSessionEndResonCode b \<noteq> 0 \<and> isNewSessionStarted b = 0 \<and>
    sessionId s = sessionId (session k) \<and> isNewSessionStarted s = 1 \<and> nTsSequenceNumber s = 1"
proof -
  obtain ok code sh k3 k4 k5 where
    sh0: "sh = (wantsUpload k \<and> (\<exists>y r. Some x = Some y \<and> tsQueues k y = Some r \<and> 0 < fst (LinkGetQueueBuffer r)))"
    and u0: "if sh then (\<exists>y q ret b. Some x = Some y \<and> tsQueues k y = Some q \<and> LinkGetQueueBuffer q = (ret, Some b) \<and> 0 < ret \<and>
        uploadSegment e b meta (nLastSystime k - 40 * 1000000) 0 (prepared k) = Inr (ok, code, k3)) \<and> wantsUpload k
     else ok = False \<and> code = 1000 \<and> k3 = prepared k"
    and e: "reportSessionEnd code k3 = Inr k4"
    and k5: "keeper k5 = keeper (reported ok sh code k4)"
    and f: "k' = finishSegment isDrop (nTsStartTime (session k)) k5"
    using bufferUpload_InrD [OF assms(1)] by blast
  have sh: "sh" using sh0 assms(2-4) by simp
  obtain b where "uploadSegment e b meta (nLastSystime k - 40 * 1000000) 0 (prepared k) = Inr (ok, code, k3)"
    using u0 sh by auto
  then have "transfer_only (prepared k) k3" using uploadSegment_frame by blast
  note t = transfer_only_fields [OF this]
  have p: "session (prepared k) = session k" "bakSession (prepared k) = bakSession k" "keeper (prepared k) = keeper k"
      "reportType (prepared k) = reportType k" "isSegStartReport (prepared k) = isSegStartReport k"
      "pSessionMeta (prepared k) = pSessionMeta k"
    by (simp_all add: prepared_def)
  obtain b where b: "nSessionEndResonCode (session k) \<noteq> 0" "session k4 = (session k)\<lparr>coverStatus := 1000\<rparr>"
      "pSessionMeta k4 = pSessionMeta k" "reportType k4 = 5"
      "reports (keeper k4) = reports (keeper k) @ [(segHandle (session k), b, pSessionMeta k)]"
      "sessionId b = sessionId (bakSession k)" "nSessionEndResonCode b = nSessionEndResonCode (session k)"
      "isNewSessionStarted b = 0"
    using reportSessionEnd_report [OF e] t p assms(5,6) by auto
  obtain s where s: "reports (keeper (reported ok sh code k4)) = reports (keeper k4) @ [(segHandle (session k4), s, pSessionMeta k4)]"
      "sessionId s = sessionId (session k4)" "isNewSessionStarted s = 1" "nTsSequenceNumber s = 1"
    using reported_start [of sh k4 ok code] sh b(4) by auto
  show ?thesis
    by (intro exI [of _ b] exI [of _ s]) (use b s k5 in \<open>simp add: f finishSegment_def Let_def\<close>)
qed

subsection \<open>Witnesses\<close>

text \<open>An uploader with one segment of four bytes in hand, at the start of its second session.\<close>

definition sample_queue :: CircleQueueImp where
  "sample_queue = \<lparr>pData = [71, 1, 2, 3, 0, 0], nCap = 6, nLen = 4, nLenInByte = 6, nStart = 0, nEnd = 0, nQState = 0,
     nItemLen = 10, policy = TSQ_APPEND_FIX, statInfo = zeroStatInfo, nIsAvailableAfterTimeout = True, nCount = 2,
     isWait = False, shouldFree = False, qmem = \<lparr>pMem = 1, freeMem = True\<rparr>\<rparr>"

definition sample_uploader :: KodoUploader where
  "sample_uploader = (freshUploader False 6 TSQ_APPEND_FIX 6 1
       \<lparr>nSegmentId = 0, nSegSeqNum = 0, nLastCheckTime = 0, keeperSessionId = [], segmentHandle = 0,
        nSessionDuration = 0, nSessionTimeout = 0, updates = [], reports = []\<rparr>)
     \<lparr>tsQueues := [0 \<mapsto> sample_queue], planType := LINK_PLAN_TYPE_24, isSegStartReport := True, reportType := 5,
      session := zeroSession\<lparr>nSessionEndResonCode := 1, nTsSequenceNumber := 3\<rparr>, nLastSystime := 1600000000000000000\<rparr>"

definition sample_env :: UploadEnv where
  "sample_env = \<lparr>envNow = 0, envParam = (0, [117], [116], 1), envPicture = (0, 0), envJunk = replicate 250 0,
     envPut = (\<lambda>_. (0, 200)), hasStatisticCb = True\<rparr>"

definition sample_time :: LinkReportTimeInfo where
  "sample_time = \<lparr>tiAudioDuration = 4960, tiVideoDuration = 5000, tiMediaDuation = 5000,
     tiSystimestamp = 1600000005000000000, tiReserved = 0\<rparr>"

definition sample_result :: "KodoUploader run" where
  "sample_result = bufferUpload sample_env False (Some 0) (Some []) (handleTsEndTimeReport sample_uploader sample_time)"

lemma sample_put:
  assumes "\<And>req. ans req = (0, 200)"
  shows "\<exists>req. linkPutBuffer (replicate 250 0) ans h t key d [] mg 5000 3 0 = Inr (0, req)"
proof -
  have l: "length (print_int 5000) = 4" "length (print_int 3) = 1" "length (print_int 0) = 1"
    by (simp_all add: print_int_def digits.simps)
  obtain b where b: "length b = 250" "linkPutBuffer (replicate 250 0) ans h t key d [] mg 5000 3 0 =
    and_then (put_strings 64 (meta_strings [] 5000 3 0) b) (\<lambda>(pp, b).
       let req = \<lparr>reqHost = h, reqToken = t, reqKey = (if mg \<noteq> [] then None else Some key), reqData = d,
             reqMetas = map (\<lambda>p. c_string (drop p b)) pp, reqMagic = mg\<rparr>;
           (ret, code) = ans req
       in Inr (if ret \<noteq> 0 then LINK_GHTTP_FAIL else if c_div code 100 = 2 then LINK_SUCCESS else -1, req))"
    using linkPutBuffer_prefix [of "replicate 250 0" "[]" ans h t key d mg 5000 3 0] by auto
  have "put_strings 64 (meta_strings [] 5000 3 0) b =
      Inr (offsets 64 (meta_strings [] 5000 3 0), overwrite 64 (terminated (meta_strings [] 5000 3 0)) b)"
    by (rule put_strings_ok) (simp add: length_meta_strings l b(1))
  then show ?thesis by (simp add: b(2) assms Let_def c_div_def)
qed

lemma sample_works: "\<exists>k. sample_result = Inr k \<and> puts k \<noteq> [] \<and> uploadState k = LINK_UPLOAD_OK"
proof -
  obtain R where R: "\<And>h t key d mg. linkPutBuffer (replicate 250 0) (\<lambda>_. (0, 200)) h t key d [] mg 5000 3 0 =
      Inr (0, R h t key d mg)"
    using sample_put [of "\<lambda>_. (0, 200)"] by metis
  define k where "k = handleTsEndTimeReport sample_uploader sample_time"
  have k: "tsQueues k 0 = Some sample_queue" "planType k = LINK_PLAN_TYPE_24" "isSegStartReport k" "reportType k = 5"
      "sessionId (session k) = replicate 21 0" "nSessionEndResonCode (session k) = 1" "nTsSequenceNumber (session k) = 3"
      "nTsDuration (session k) = 5000" "picture k = None" "puts k = []"
    by (simp_all add: k_def sample_uploader_def handleTsEndTimeReport_def sample_time_def freshUploader_def zeroSession_def)
  have id: "copy_id (replicate 21 0) = Inr (replicate 21 0)"
    by (simp add: copy_id_def c_string_def)
  have g: "LinkGetQueueBuffer sample_queue = (4, Some [71, 1, 2, 3])"
    by (simp add: sample_queue_def LinkGetQueueBuffer_def)
  have w: "wantsUpload k" using k by (simp add: wantsUpload_def)
  define k2 where "k2 = prepared k"
  have k2: "picture k2 = None" "nTsDuration (session k2) = 5000" "nTsSequenceNumber (session k2) = 3" "puts k2 = []"
     "isSegStartReport k2" "reportType k2 = 5" "nSessionEndResonCode (session k2) = 1" "tsQueues k2 0 = Some sample_queue"
    using k by (simp_all add: k2_def prepared_def)
  obtain k3 where up: "uploadSegment sample_env [71, 1, 2, 3] (Some []) (nLastSystime k - 40 * 1000000) 0 k2 = Inr (True, 1000, k3)"
    by (simp add: uploadSegment_def uploadPicture_def sample_env_def R k2 statistic_def Let_def)
  note f3 = uploadSegment_frame [OF up]
  then have t3: "transfer_only k2 k3" by simp
  note t = transfer_only_fields [OF t3]
  obtain k4 where e: "reportSessionEnd 1000 k3 = Inr k4" "tsQueues k4 0 = Some sample_queue"
    by (simp add: reportSessionEnd_def Let_def t k2 LinkUpdateSegment_def)
  have p4: "puts k4 \<noteq> []" "uploadState k4 = LINK_UPLOAD_OK"
    using f3 k2 reportSessionEnd_frame [OF e(1)] by auto
  define k5 where "k5 = reported True True 1000 k4"
  have k5: "puts k5 \<noteq> []" "uploadState k5 = LINK_UPLOAD_OK" "tsQueues k5 0 = Some sample_queue"
    using p4 e(2) reported_frame [of True True 1000 k4]
    by (simp_all add: k5_def reported_def reportSegment_def reportSessionStart_def LinkUpdateSegment_def Let_def)
  obtain k6 where d: "destroyQueue 0 k5 = Inr k6" "puts k6 = puts k5" "uploadState k6 = uploadState k5"
    using k5(3) by (simp add: destroyQueue_def LinkDestroyQueue_def sample_queue_def)
  have "bufferUpload sample_env False (Some 0) (Some []) k = Inr (finishSegment False (nTsStartTime (session k)) k6)"
    by (subst bufferUpload_eq)
      (simp add: segment_buffer_def k g id w k2_def [symmetric] up [simplified] e(1) k5_def [symmetric] d(1))
  moreover have "puts (finishSegment False t k6) \<noteq> []" "uploadState (finishSegment False t k6) = LINK_UPLOAD_OK" for t
    using d k5 by (simp_all add: finishSegment_def Let_def)
  ultimately have "\<exists>k'. bufferUpload sample_env False (Some 0) (Some []) k = Inr k' \<and> puts k' \<noteq> [] \<and> uploadState k' = LINK_UPLOAD_OK"
    by blast
  then show ?thesis by (simp add: sample_result_def k_def)
qed

theorem segment_accounting_witness:
  "\<exists>k. sample_result = Inr k \<and> nAccSessionDuration (session k) = 5000 \<and> nAccSessionAudioDuration (session k) = 4960"
proof -
  obtain k where k: "sample_result = Inr k" "puts k \<noteq> []" "uploadState k = LINK_UPLOAD_OK"
    using sample_works by blast
  then show ?thesis
    using segment_accounting [of sample_env False "Some 0" "Some []" sample_uploader sample_time k True]
    by (simp add: sample_result_def) (simp add: sample_uploader_def freshUploader_def zeroSession_def sample_time_def)
qed

theorem upload_request_contents_witness:
  "\<exists>k req. sample_result = Inr k \<and> puts k = [req] \<and> reqData req = [71, 1, 2, 3] \<and> reqMetas req ! 7 = print_int 0"
proof -
  obtain k where k: "sample_result = Inr k" "puts k \<noteq> []" using sample_works by blast
  have p: "puts (handleTsEndTimeReport sample_uploader sample_time) = []"
    "tsQueues (handleTsEndTimeReport sample_uploader sample_time) = [0 \<mapsto> sample_queue]"
    by (simp_all add: handleTsEndTimeReport_def sample_uploader_def freshUploader_def sample_time_def)
  show ?thesis
    using upload_request_contents [of sample_env False "Some 0" "Some []" "handleTsEndTimeReport sample_uploader sample_time" k] k p
    by (auto simp: sample_result_def sample_queue_def)
qed

theorem rollover_reported_in_order_witness:
  "\<exists>k r1 r2. sample_result = Inr k \<and> reports (keeper k) = [r1, r2] \<and>
     nSessionEndResonCode (fst (snd r1)) \<noteq> 0 \<and> nTsSequenceNumber (fst (snd r2)) = 1"
proof -
  obtain k where k: "sample_result = Inr k" using sample_works by blast
  have p: "tsQueues (handleTsEndTimeReport sample_uploader sample_time) 0 = Some sample_queue"
    "wantsUpload (handleTsEndTimeReport sample_uploader sample_time)"
    "isSegStartReport (handleTsEndTimeReport sample_uploader sample_time)"
    "reportType (handleTsEndTimeReport sample_uploader sample_time) = 5"
    "reports (keeper (handleTsEndTimeReport sample_uploader sample_time)) = []"
    by (simp_all add: handleTsEndTimeReport_def sample_uploader_def freshUploader_def sample_time_def wantsUpload_def)
  have g: "0 < fst (LinkGetQueueBuffer sample_queue)"
    by (simp add: sample_queue_def LinkGetQueueBuffer_def)
  from rollover_reported_in_order [OF k [unfolded sample_result_def] p(1) g p(2-4)]
  show ?thesis
    using k p(5) by (intro exI [of _ k]) (elim exE conjE, simp)
qed

end
