(* ===== verification/Sha1.thy ===== *)
theory Sha1
  imports Prelude
begin

section \<open>SHA-1 and HMAC (deps/hmac_sha1/hmac_sha1.c)\<close>

text \<open>
  The digest behind every signature of the library. The code expands the message schedule inside the 16 words of
  the block, permutes the names of its five variables instead of moving their values, and takes the message in pieces
  of any length. This theory has the code, the standard's own description of SHA-1 (FIPS 180) and HMAC (RFC 2104), and
  the proof that they agree.
\<close>

subsection \<open>One block\<close>

type_synonym sha_vars = "u32 \<times> u32 \<times> u32 \<times> u32 \<times> u32"

definition rol :: "u32 \<Rightarrow> nat \<Rightarrow> u32" where
  "rol x n = push_bit n x OR drop_bit (32 - n) x"

text \<open>The union of 64 bytes and 16 words, on a little endian machine.\<close>

definition block_words :: "bytes \<Rightarrow> u32 list" where
  "block_words b = map (\<lambda>i. bytes_word (take 4 (drop (4 * i) b))) [0..<16]"

definition blk0 :: "u32 list \<Rightarrow> nat \<Rightarrow> u32 \<times> u32 list" where
  "blk0 l i = (let x = (rol (l ! i) 24 AND 0xff00ff00) OR (rol (l ! i) 8 AND 0x00ff00ff) in (x, l[i := x]))"

definition blk :: "u32 list \<Rightarrow> nat \<Rightarrow> u32 \<times> u32 list" where
  "blk l i =
     (let x = rol (l ! ((i + 13) mod 16) XOR l ! ((i + 8) mod 16) XOR l ! ((i + 2) mod 16) XOR l ! (i mod 16)) 1
      in (x, l[i mod 16 := x]))"

text \<open>The macros, given the word that \<open>blk0\<close> or \<open>blk\<close> yields; \<open>R0\<close> and \<open>R1\<close> differ in that word only.\<close>

fun R1 :: "sha_vars \<Rightarrow> u32 \<Rightarrow> sha_vars" where
  "R1 (v, w, x, y, z) b = (v, rol w 30, x, y, z + (((w AND (x XOR y)) XOR y) + b + 0x5a827999 + rol v 5))"

fun R2 :: "sha_vars \<Rightarrow> u32 \<Rightarrow> sha_vars" where
  "R2 (v, w, x, y, z) b = (v, rol w 30, x, y, z + ((w XOR x XOR y) + b + 0x6ed9eba1 + rol v 5))"

fun R3 :: "sha_vars \<Rightarrow> u32 \<Rightarrow> sha_vars" where
  "R3 (v, w, x, y, z) b = (v, rol w 30, x, y, z + ((((w OR x) AND y) OR (w AND x)) + b + 0x8f1bbcdc + rol v 5))"

fun R4 :: "sha_vars \<Rightarrow> u32 \<Rightarrow> sha_vars" where
  "R4 (v, w, x, y, z) b = (v, rol w 30, x, y, z + ((w XOR x XOR y) + b + 0xca62c1d6 + rol v 5))"

text \<open>Each line of the unrolled loop calls its macro with the variables of the line before, moved round by one.\<close>

fun next_line :: "sha_vars \<Rightarrow> sha_vars" where
  "next_line (v, w, x, y, z) = (z, v, w, x, y)"

definition sha_line :: "nat \<Rightarrow> u32 list \<times> sha_vars \<Rightarrow> u32 list \<times> sha_vars" where
  "sha_line i s =
     (let (b, l) = (if i < 16 then blk0 (fst s) i else blk (fst s) i);
          R = (if i < 20 then R1 else if i < 40 then R2 else if i < 60 then R3 else R4)
      in (l, next_line (R (snd s) b)))"

fun sha_add :: "sha_vars \<Rightarrow> sha_vars \<Rightarrow> sha_vars" where
  "sha_add (a, b, c, d, e) (a', b', c', d', e') = (a + a', b + b', c + c', d + d', e + e')"

definition SHA1_Transform :: "sha_vars \<Rightarrow> bytes \<Rightarrow> sha_vars" where
  "SHA1_Transform state buffer = sha_add state (snd (fold sha_line [0..<80] (block_words buffer, state)))"

subsection \<open>Messages in pieces\<close>

record SHA1_CTX =
  sha_state :: sha_vars
  sha_count0 :: u32
  sha_count1 :: u32
  sha_buffer :: bytes

text \<open>The buffer is not initialised; \<open>junk\<close> is what it holds.\<close>

definition SHA1_Init :: "bytes \<Rightarrow> SHA1_CTX" where
  "SHA1_Init junk = \<lparr>sha_state = (0x67452301, 0xefcdab89, 0x98badcfe, 0x10325476, 0xc3d2e1f0),
     sha_count0 = 0, sha_count1 = 0, sha_buffer = junk\<rparr>"

text \<open>The loop over whole blocks, with the bytes it leaves.\<close>

fun sha_blocks :: "sha_vars \<Rightarrow> bytes \<Rightarrow> sha_vars \<times> bytes" where
  "sha_blocks st d =
     (if length d < 64 then (st, d) else sha_blocks (SHA1_Transform st (take 64 d)) (drop 64 d))"

declare sha_blocks.simps [simp del]

text \<open>\<open>len << 3\<close> is computed in 64 bits, the counters in 32.\<close>

definition SHA1_Update :: "SHA1_CTX \<Rightarrow> bytes \<Rightarrow> SHA1_CTX" where
  "SHA1_Update c d =
     (let len = length d;
          j = unat (drop_bit 3 (sha_count0 c) AND 63);
          bits = (of_nat len * 8 :: u64);
          c0 = sha_count0 c + ucast bits;
          c1 = (if ucast c0 < bits then sha_count1 c + 1 else sha_count1 c) + of_nat (len div 2 ^ 29);
          c = c\<lparr>sha_count0 := c0, sha_count1 := c1\<rparr>
      in if 63 < j + len then
           let i = 64 - j;
               (st, rest) = sha_blocks (SHA1_Transform (sha_state c) (take j (sha_buffer c) @ take i d)) (drop i d)
           in c\<lparr>sha_state := st, sha_buffer := overwrite 0 rest (take j (sha_buffer c) @ take i d)\<rparr>
         else c\<lparr>sha_buffer := overwrite j d (sha_buffer c)\<rparr>)"

text \<open>How far the buffer is filled, read off the counter.\<close>

definition byte_pos :: "u32 \<Rightarrow> nat" where
  "byte_pos w = take_bit 6 (drop_bit 3 (unat w))"

lemma unat_field: "unat (take_bit b (drop_bit a w)) = take_bit b (drop_bit a (unat w))" for w :: "'a::len word"
  by (simp only: unsigned_take_bit_eq unat_drop_bit_eq)

lemma field_eq: "w AND push_bit a (mask b) = push_bit a (take_bit b (drop_bit a w))" for w :: "'a::len word"
  by (rule bit_word_eqI) (auto simp: bit_and_iff bit_push_bit_iff bit_mask_iff bit_take_bit_iff bit_drop_bit_eq)

lemma byte_pos_mask: "unat (drop_bit 3 w AND 63) = byte_pos (w :: u32)"
proof -
  have "drop_bit 3 w AND 63 = take_bit 6 (drop_bit 3 w)"
    by (simp only: take_bit_eq_mask) (simp add: mask_eq_exp_minus_1)
  then show ?thesis by (simp only: byte_pos_def unat_field)
qed

lemma byte_pos_less: "byte_pos w < 64"
  by (simp add: byte_pos_def take_bit_eq_mod)

lemma byte_pos_add: "byte_pos (w + of_nat (8 * n)) = (byte_pos w + n) mod 64"
proof -
  have "unat (w + of_nat (8 * n)) = take_bit 32 (unat w + 8 * n)"
    by (simp add: unat_word_ariths unat_of_nat mod_simps take_bit_eq_mod)
  then have "byte_pos (w + of_nat (8 * n)) = take_bit 6 (drop_bit 3 (unat w + 8 * n))"
    by (simp only: byte_pos_def drop_bit_take_bit take_bit_take_bit)
  also have "\<dots> = (unat w div 8 + n) mod 64"
    by (simp add: drop_bit_eq_div take_bit_eq_mod add.commute [of _ n])
  also have "\<dots> = (unat w div 8 mod 64 + n) mod 64"
    by (simp only: mod_add_left_eq)
  finally show ?thesis
    by (simp add: byte_pos_def drop_bit_eq_div take_bit_eq_mod)
qed

lemma byte_pos_56: "w AND 504 = 448 \<longleftrightarrow> byte_pos w = 56" for w :: u32
proof -
  let ?x = "take_bit 6 (drop_bit 3 w)"
  have "w AND 504 = push_bit 3 ?x"
    using field_eq [of w 3 6] by (simp add: mask_eq_exp_minus_1)
  moreover have x: "unat ?x = byte_pos w" by (simp only: byte_pos_def unat_field)
  moreover have "unat (push_bit 3 ?x) = 8 * byte_pos w"
    using byte_pos_less [of w] x unat_mult_lem [of "8 :: u32" ?x] by (simp add: push_bit_eq_mult mult.commute)
  ultimately show ?thesis
    by (simp add: word_unat_eq_iff)
qed
lemma ucast_of_nat: "(ucast (of_nat n :: u64) :: u32) = of_nat n"
  by (simp add: word_unat_eq_iff unat_of_nat unsigned_ucast_eq unsigned_of_nat take_bit_eq_mod mod_mod_cancel)

lemma bits_of_len: "(of_nat n * 8 :: u64) = of_nat (8 * n)"
  by simp

lemma SHA1_Update_count0: "sha_count0 (SHA1_Update c d) = sha_count0 c + of_nat (8 * length d)"
  unfolding SHA1_Update_def Let_def bits_of_len ucast_of_nat by (simp add: case_prod_beta)

lemma zeros_left: "x < 64 \<Longrightarrow> (120 - x) mod 64 = (if x \<le> 56 then 56 - x else 120 - x)" for x :: nat
  by (cases "x \<le> 56") (simp_all add: le_mod_geq)

lemma zeros_left_Suc: "x < 64 \<Longrightarrow> x \<noteq> 56 \<Longrightarrow> (120 - x) mod 64 = Suc ((120 - (x + 1) mod 64) mod 64)" for x :: nat
  using zeros_left [of x] zeros_left [of "(x + 1) mod 64"] by (cases "x = 63") auto

text \<open>The zeros behind the first padding byte.\<close>

lemma sha_pad_less:
  assumes "sha_count0 c AND 504 \<noteq> 448"
  shows "(120 - byte_pos (sha_count0 (SHA1_Update c [0]))) mod 64 < (120 - byte_pos (sha_count0 c)) mod 64"
proof -
  have "byte_pos (sha_count0 (SHA1_Update c [0])) = (byte_pos (sha_count0 c) + 1) mod 64"
    using byte_pos_add [of _ 1] by (simp add: SHA1_Update_count0)
  then show ?thesis
    using assms byte_pos_less [of "sha_count0 c"] unfolding byte_pos_56 by (simp add: zeros_left_Suc)
qed

function sha_pad :: "SHA1_CTX \<Rightarrow> SHA1_CTX" where
  "sha_pad c = (if sha_count0 c AND 504 = 448 then c else sha_pad (SHA1_Update c [0]))"
  by auto
termination
  by (relation "measure (\<lambda>c. (120 - byte_pos (sha_count0 c)) mod 64)") (auto simp only: in_measure wf_measure intro: sha_pad_less)

declare sha_pad.simps [simp del]

definition be_bytes :: "u32 \<Rightarrow> bytes" where
  "be_bytes w = [ucast (drop_bit 24 w), ucast (drop_bit 16 w), ucast (drop_bit 8 w), ucast w]"

fun sha_digest :: "sha_vars \<Rightarrow> bytes" where
  "sha_digest (a, b, c, d, e) = be_bytes a @ be_bytes b @ be_bytes c @ be_bytes d @ be_bytes e"

definition SHA1_Final :: "SHA1_CTX \<Rightarrow> bytes" where
  "SHA1_Final c =
     (let finalcount = be_bytes (sha_count1 c) @ be_bytes (sha_count0 c);
          c = SHA1_Update (sha_pad (SHA1_Update c [0x80])) finalcount
      in sha_digest (sha_state c))"

subsection \<open>HMAC\<close>

text \<open>\<open>junk\<close> is what the buffers of the three contexts hold; \<open>t\<close> is the room for the result (-1 becomes \<open>SIZE_MAX\<close>).\<close>

definition sha1_of :: "bytes \<Rightarrow> bytes list \<Rightarrow> bytes" where
  "sha1_of junk ps = SHA1_Final (fold (\<lambda>p c. SHA1_Update c p) ps (SHA1_Init junk))"

definition hmac_pad :: "u8 \<Rightarrow> bytes \<Rightarrow> bytes" where
  "hmac_pad x k = map (\<lambda>b. b XOR x) k @ replicate (64 - length k) x"

definition hmac_sha1 :: "bytes \<Rightarrow> bytes \<Rightarrow> bytes \<Rightarrow> nat \<Rightarrow> int \<times> bytes" where
  "hmac_sha1 junk k d t =
     (let k = (if 64 < length k then sha1_of junk [k] else k);
          isha = sha1_of junk [hmac_pad 0x36 k, d];
          osha = sha1_of junk [hmac_pad 0x5c k, isha]
      in if t < 20 then (-1, []) else (20, osha))"

subsection \<open>The standard\<close>

definition be_word :: "bytes \<Rightarrow> nat \<Rightarrow> u32" where
  "be_word m t = bytes_word (rev (take 4 (drop (4 * t) m)))"

fun fips_W :: "bytes \<Rightarrow> nat \<Rightarrow> u32" where
  "fips_W m t =
     (if t < 16 then be_word m t
      else rol (fips_W m (t - 3) XOR fips_W m (t - 8) XOR fips_W m (t - 14) XOR fips_W m (t - 16)) 1)"

declare fips_W.simps [simp del]

definition fips_K :: "nat \<Rightarrow> u32" where
  "fips_K t = (if t < 20 then 0x5a827999 else if t < 40 then 0x6ed9eba1 else if t < 60 then 0x8f1bbcdc else 0xca62c1d6)"

definition fips_f :: "nat \<Rightarrow> u32 \<Rightarrow> u32 \<Rightarrow> u32 \<Rightarrow> u32" where
  "fips_f t x y z =
     (if t < 20 then (x AND y) XOR (NOT x AND z)
      else if 40 \<le> t \<and> t < 60 then (x AND y) XOR (x AND z) XOR (y AND z)
      else x XOR y XOR z)"

fun fips_round :: "bytes \<Rightarrow> nat \<Rightarrow> sha_vars \<Rightarrow> sha_vars" where
  "fips_round m t (a, b, c, d, e) = (rol a 5 + fips_f t b c d + e + fips_K t + fips_W m t, a, rol b 30, c, d)"

definition fips_compress :: "sha_vars \<Rightarrow> bytes \<Rightarrow> sha_vars" where
  "fips_compress h m = sha_add h (fold (fips_round m) [0..<80] h)"

fun chunks :: "bytes \<Rightarrow> bytes list" where
  "chunks m = (if length m < 64 then [] else take 64 m # chunks (drop 64 m))"

declare chunks.simps [simp del]

definition be64 :: "u64 \<Rightarrow> bytes" where
  "be64 w = map (\<lambda>i. ucast (drop_bit (8 * (7 - i)) w)) [0..<8]"

definition fips_pad :: "bytes \<Rightarrow> bytes" where
  "fips_pad m = m @ 0x80 # replicate ((119 - length m mod 64) mod 64) 0 @ be64 (of_nat (8 * length m))"

definition fips_sha1 :: "bytes \<Rightarrow> bytes" where
  "fips_sha1 m = sha_digest (fold (\<lambda>b h. fips_compress h b) (chunks (fips_pad m))
     (0x67452301, 0xefcdab89, 0x98badcfe, 0x10325476, 0xc3d2e1f0))"

definition rfc2104_hmac_sha1 :: "bytes \<Rightarrow> bytes \<Rightarrow> bytes" where
  "rfc2104_hmac_sha1 k d =
     (let k0 = (if 64 < length k then fips_sha1 k else k); k64 = k0 @ replicate (64 - length k0) 0
      in fips_sha1 (map ((XOR) 0x5c) k64 @ fips_sha1 (map ((XOR) 0x36) k64 @ d)))"

subsection \<open>One block agrees\<close>

lemma ch_eq: "z XOR x AND (y XOR z) = x AND y XOR z AND NOT x" for x :: u32
  by (rule bit_word_eqI) (auto simp: bit_simps)

lemma maj_eq: "x AND y OR z AND (x OR y) = x AND y XOR x AND z XOR y AND z" for x :: u32
  by (rule bit_word_eqI) (auto simp: bit_simps)

lemma sha_line_round:
  "snd (sha_line i (l, v)) = fips_round m i v"
  if "fst (if i < 16 then blk0 l i else blk l i) = fips_W m i" "i < 80"
proof -
  obtain a b c d e where v: "v = (a, b, c, d, e)" by (cases v)
  show ?thesis
    using that by (auto simp: sha_line_def v case_prod_beta Let_def fips_K_def fips_f_def ac_simps ch_eq maj_eq)
qed

lemma byte_ranges: "n < 32 \<Longrightarrow> n < 8 \<or> (8 \<le> n \<and> n < 16) \<or> (16 \<le> n \<and> n < 24) \<or> (24 \<le> n \<and> n < 32)" for n :: nat
  by linarith

lemma bit_bytes_word:
  "n < 32 \<Longrightarrow> bit (bytes_word [a, b, c, d]) n \<longleftrightarrow>
     (if n < 8 then bit a n else if n < 16 then bit b (n - 8) else if n < 24 then bit c (n - 16) else bit d (n - 24))"
  by (drule byte_ranges, elim disjE)
    (auto simp: bytes_word_def bit_or_iff bit_push_bit_iff bit_ucast_iff dest: bit_imp_le_length)

lemma mask_bits:
  "bit (0xff00ff00 :: u32) n \<longleftrightarrow> (8 \<le> n \<and> n < 16) \<or> (24 \<le> n \<and> n < 32)"
  "bit (0x00ff00ff :: u32) n \<longleftrightarrow> n < 8 \<or> (16 \<le> n \<and> n < 24)"
proof -
  have m: "(0xff00ff00 :: u32) = push_bit 8 (mask 8) OR push_bit 24 (mask 8)" "(0x00ff00ff :: u32) = mask 8 OR push_bit 16 (mask 8)"
    by (simp_all add: mask_eq_exp_minus_1)
  show "bit (0xff00ff00 :: u32) n \<longleftrightarrow> (8 \<le> n \<and> n < 16) \<or> (24 \<le> n \<and> n < 32)"
    "bit (0x00ff00ff :: u32) n \<longleftrightarrow> n < 8 \<or> (16 \<le> n \<and> n < 24)"
    by (auto simp only: m bit_or_iff bit_push_bit_iff bit_mask_iff; simp)+
qed

lemma bit_rol: "n < 32 \<Longrightarrow> k < 32 \<Longrightarrow> bit (rol x k) n = bit x (if k \<le> n then n - k else 32 + n - k)"
  by (auto simp: rol_def bit_or_iff bit_push_bit_iff bit_drop_bit_eq dest: bit_imp_le_length)

lemma blk0_swaps: "(rol x 24 AND 0xff00ff00) OR (rol x 8 AND 0x00ff00ff) = bytes_word [d, c, b, a]" (is "?l = _")
  if x: "x = bytes_word [a, b, c, d]"
proof (rule bit_word_eqI)
  fix n assume "n < LENGTH(32)"
  then have n: "n < 32" by simp
  show "bit ?l n = bit (bytes_word [d, c, b, a]) n"
    using byte_ranges [OF n] n
    unfolding bit_or_iff bit_and_iff mask_bits by (elim disjE conjE) (auto simp: bit_rol x bit_bytes_word)
qed

lemma four_bytes: "length b = 4 \<Longrightarrow> \<exists>w x y z. b = [w, x, y, z]"
  by (auto simp: length_Suc_conv numeral_eq_Suc)

lemma block_word:
  assumes "length m = 64" and "i < 16"
  shows "fst (blk0 (block_words m) i) = be_word m i"
proof -
  have "length (take 4 (drop (4 * i) m)) = 4" using assms by simp
  then obtain w x y z where "take 4 (drop (4 * i) m) = [w, x, y, z]" using four_bytes by blast
  then show ?thesis
    using assms(2) blk0_swaps [of _ w x y z] by (simp add: blk0_def Let_def block_words_def be_word_def)
qed

text \<open>The 16 words of the block hold the last words of the schedule.\<close>

definition sched_ok :: "bytes \<Rightarrow> nat \<Rightarrow> u32 list \<Rightarrow> bool" where
  "sched_ok m i l \<longleftrightarrow> length l = 16 \<and>
     (\<forall>t < i. i \<le> t + 16 \<longrightarrow> l ! (t mod 16) = fips_W m t) \<and>
     (\<forall>t. i \<le> t \<and> t < 16 \<longrightarrow> l ! t = block_words m ! t)"

lemma sched_word:
  assumes "sched_ok m i l" and "length m = 64"
  shows "fst (if i < 16 then blk0 l i else blk l i) = fips_W m i"
proof (cases "i < 16")
  case True
  then have "l ! i = block_words m ! i" using assms(1) by (simp add: sched_ok_def)
  then show ?thesis
    using True block_word [OF assms(2) True] by (simp add: blk0_def fips_W.simps [of m i] Let_def)
next
  case False
  have "l ! ((i + k) mod 16) = fips_W m (i + k - 16)" if "k < 16" for k
  proof -
    have "(i + k - 16) mod 16 = (i + k) mod 16" using False le_mod_geq [of 16 "i + k"] by simp
    moreover have "i + k - 16 < i" "i \<le> i + k - 16 + 16" using False that by simp_all
    ultimately show ?thesis using assms(1) unfolding sched_ok_def by metis
  qed
  from this [of 13] this [of 8] this [of 2] this [of 0] show ?thesis
    using False by (simp add: blk_def Let_def fips_W.simps [of m i])
qed

lemma sched_step:
  assumes "sched_ok m i l" and "length m = 64"
  shows "sched_ok m (Suc i) (fst (sha_line i (l, v)))"
proof -
  let ?l = "l[i mod 16 := fips_W m i]"
  have "snd (if i < 16 then blk0 l i else blk l i) = ?l"
    using sched_word [OF assms] by (auto simp: blk0_def blk_def Let_def split: if_split_asm)
  then have l: "fst (sha_line i (l, v)) = ?l"
    by (cases "i < 16") (simp_all add: sha_line_def case_prod_beta Let_def)
  have "?l ! (t mod 16) = fips_W m t" if "t < Suc i" "Suc i \<le> t + 16" for t
  proof (cases "t = i")
    case False
    then have "t mod 16 \<noteq> i mod 16"
      using that mod_eq_dvd_iff_nat [of t i 16] nat_dvd_not_less [of "i - t" 16] by auto
    then show ?thesis using assms(1) that False by (simp add: sched_ok_def)
  qed (use assms(1) in \<open>simp add: sched_ok_def\<close>)
  then show ?thesis
    using assms(1) unfolding l sched_ok_def by simp
qed

lemma rounds_agree:
  "length m = 64 \<Longrightarrow> n \<le> 80 \<Longrightarrow>
   snd (fold sha_line [0..<n] (block_words m, v)) = fold (fips_round m) [0..<n] v \<and>
   sched_ok m n (fst (fold sha_line [0..<n] (block_words m, v)))"
proof (induction n)
  case 0
  then show ?case by (simp add: sched_ok_def block_words_def)
next
  case (Suc n)
  obtain l w where lw: "fold sha_line [0..<n] (block_words m, v) = (l, w)" by (cases "fold sha_line [0..<n] (block_words m, v)")
  with Suc have "w = fold (fips_round m) [0..<n] v" "sched_ok m n l" by simp_all
  then show ?case
    using Suc.prems lw sched_word [of m n l] sched_step [of m n l w] sha_line_round [where l = l and i = n and m = m and v = w] by simp
qed

lemma SHA1_Transform_fips: "length m = 64 \<Longrightarrow> SHA1_Transform h m = fips_compress h m"
  by (simp add: SHA1_Transform_def fips_compress_def rounds_agree)

subsection \<open>Any pieces agree\<close>

abbreviation (input) sha_iv :: sha_vars where
  "sha_iv \<equiv> (0x67452301, 0xefcdab89, 0x98badcfe, 0x10325476, 0xc3d2e1f0)"

definition absorb :: "sha_vars \<Rightarrow> bytes \<Rightarrow> sha_vars" where
  "absorb h m = fold (\<lambda>b h. fips_compress h b) (chunks m) h"

lemma chunks_append: "64 dvd length a \<Longrightarrow> chunks (a @ b) = chunks a @ chunks b"
proof (induction a rule: chunks.induct)
  case (1 a)
  show ?case
  proof (cases "length a < 64")
    case True
    then have "a = []" using 1(2) nat_dvd_not_less [of "length a" 64] by auto
    then show ?thesis by (simp add: chunks.simps [of "[]"])
  next
    case False
    then show ?thesis using 1 by (simp add: chunks.simps [of "a @ b"] chunks.simps [of a])
  qed
qed

lemma absorb_append: "64 dvd length a \<Longrightarrow> absorb h (a @ b) = absorb (absorb h a) b"
  by (simp add: absorb_def chunks_append)

lemma absorb_short: "length a < 64 \<Longrightarrow> absorb h a = h"
  by (simp add: absorb_def chunks.simps [of a])

lemma absorb_block: "length a = 64 \<Longrightarrow> absorb h a = fips_compress h a"
  by (simp add: absorb_def chunks.simps [of a] chunks.simps [of "[]"])

definition tail :: "bytes \<Rightarrow> bytes" where
  "tail m = drop (length m - length m mod 64) m"

lemma length_tail [simp]: "length (tail m) = length m mod 64"
  by (simp add: tail_def)

lemma split_tail: "\<exists>a. m = a @ tail m \<and> 64 dvd length a"
  by (rule exI [of _ "take (length m - length m mod 64) m"]) (simp add: tail_def dvd_minus_mod)

lemma tail_append: "64 dvd length a \<Longrightarrow> tail (a @ b) = tail b"
  by (auto simp: tail_def mod_add_left_eq [of "length a" 64, symmetric] dvd_eq_mod_eq_0
      intro: arg_cong [where f = "\<lambda>n. drop n b"])

lemma tail_short: "length b < 64 \<Longrightarrow> tail b = b"
  by (simp add: tail_def)

lemma sha_blocks_absorb: "sha_blocks h d = (absorb h d, tail d)"
proof (induction h d rule: sha_blocks.induct)
  case (1 h d)
  show ?case
  proof (cases "length d < 64")
    case True
    then show ?thesis by (simp add: sha_blocks.simps [of h d] absorb_short tail_short)
  next
    case False
    then have "absorb h d = absorb (fips_compress h (take 64 d)) (drop 64 d)" "tail d = tail (drop 64 d)"
      using absorb_append [of "take 64 d" h "drop 64 d"] tail_append [of "take 64 d" "drop 64 d"]
      by (simp_all add: absorb_block)
    then show ?thesis
      using 1 False by (simp add: sha_blocks.simps [of h d] SHA1_Transform_fips)
  qed
qed

definition holds :: "SHA1_CTX \<Rightarrow> bytes \<Rightarrow> bool" where
  "holds c m \<longleftrightarrow> length (sha_buffer c) = 64 \<and> sha_state c = absorb sha_iv m \<and>
     take (length m mod 64) (sha_buffer c) = tail m \<and>
     sha_count0 c = of_nat (8 * length m) \<and> sha_count1 c = of_nat (8 * length m div 2 ^ 32)"

lemma holds_init: "length junk = 64 \<Longrightarrow> holds (SHA1_Init junk) []"
  by (simp add: holds_def SHA1_Init_def absorb_short tail_short)

lemma unat_widen: "unat (ucast w :: u64) = unat w" for w :: u32
  using unsigned_less [of w, where ?'a = nat] by (simp add: unsigned_ucast_eq take_bit_eq_mod)

lemma carry:
  assumes "b < 2 ^ 32"
  shows "(if ucast (of_nat (a + b) :: u32) < (of_nat b :: u64) then (of_nat (a div 2 ^ 32) + 1 :: u32) else of_nat (a div 2 ^ 32)) =
    of_nat ((a + b) div 2 ^ 32)"
proof -
  let ?N = "2 ^ 32 :: nat"
  have "unat (ucast (of_nat (a + b) :: u32) :: u64) = (a + b) mod ?N" "unat (of_nat b :: u64) = b"
    using assms unfolding unat_widen by (simp_all add: unat_of_nat del: of_nat_add)
  then have less: "ucast (of_nat (a + b) :: u32) < (of_nat b :: u64) \<longleftrightarrow> (a + b) mod ?N < b"
    by (simp add: word_less_nat_alt)
  obtain x where x: "a mod ?N = x" "x < ?N" by simp
  have "(a + b) mod ?N = (x + b) mod ?N" "(a + b) div ?N = a div ?N + (x + b) div ?N"
    using div_add1_eq [of a b ?N] assms unfolding x(1) [symmetric] by (simp_all add: mod_add_left_eq)
  then have "(a + b) div ?N = (if (a + b) mod ?N < b then a div ?N + 1 else a div ?N)"
    using x(2) assms by (cases "x + b < ?N") (simp_all add: le_mod_geq le_div_geq)
  then show ?thesis unfolding less by simp
qed

lemma holds_update:
  assumes c: "holds c m" and d: "length d < 2 ^ 29"
  shows "holds (SHA1_Update c d) (m @ d)"
proof -
  let ?j = "length m mod 64"
  obtain a where a: "m = a @ tail m" "64 dvd length a" using split_tail by blast
  have j: "unat (drop_bit 3 (sha_count0 c) AND 63) = ?j"
    using byte_pos_add [of 0 "length m"] c unfolding byte_pos_mask holds_def by (simp add: byte_pos_def)
  have k: "?j < 64" by simp
  have c0: "sha_count0 (SHA1_Update c d) = of_nat (8 * length (m @ d))"
    using c by (simp add: SHA1_Update_count0 holds_def)
  have len0: "length d div 2 ^ 29 = 0" using d by simp
  have c1: "sha_count1 (SHA1_Update c d) = of_nat (8 * length (m @ d) div 2 ^ 32)"
  proof -
    have cs: "sha_count0 c = of_nat (8 * length m)" "sha_count1 c = of_nat (8 * length m div 2 ^ 32)"
      using c by (simp_all only: holds_def)
    have "8 * length d < 2 ^ 32" using d by simp
    moreover have "sha_count1 (SHA1_Update c d) = (if ucast (sha_count0 c + of_nat (8 * length d)) < (of_nat (8 * length d) :: u64)
        then sha_count1 c + 1 else sha_count1 c)"
      unfolding SHA1_Update_def Let_def bits_of_len ucast_of_nat len0 by (simp add: case_prod_beta)
    ultimately have "sha_count1 (SHA1_Update c d) = of_nat ((8 * length m + 8 * length d) div 2 ^ 32)"
      using carry [of "8 * length d" "8 * length m"] unfolding cs of_nat_add [symmetric] by metis
    then show ?thesis by (simp only: length_append distrib_left)
  qed
  have buf: "length (sha_buffer c) = 64" "take ?j (sha_buffer c) = tail m" "sha_state c = absorb sha_iv a"
    using c a absorb_append [of a sha_iv "tail m"] by (auto simp: holds_def absorb_short)
  have "length (sha_buffer (SHA1_Update c d)) = 64 \<and> sha_state (SHA1_Update c d) = absorb sha_iv (m @ d) \<and>
      take (length (m @ d) mod 64) (sha_buffer (SHA1_Update c d)) = tail (m @ d)"
  proof (cases "63 < ?j + length d")
    case True
    let ?f = "tail m @ take (64 - ?j) d" and ?r = "drop (64 - ?j) d"
    have f: "length ?f = 64" using True by simp
    have md: "m @ d = (a @ ?f) @ ?r" using a(1) by (metis append.assoc append_take_drop_id)
    have af: "64 dvd length (a @ ?f)" using a(2) f by simp
    have u: "sha_state (SHA1_Update c d) = absorb (fips_compress (absorb sha_iv a) ?f) ?r"
        "sha_buffer (SHA1_Update c d) = overwrite 0 (tail ?r) ?f"
      using True f by (simp_all add: SHA1_Update_def Let_def j case_prod_beta buf sha_blocks_absorb SHA1_Transform_fips)
    have "absorb sha_iv (m @ d) = absorb (fips_compress (absorb sha_iv a) ?f) ?r"
      unfolding md absorb_append [OF af] absorb_append [OF a(2)] absorb_block [OF f] by (rule refl)
    moreover have "tail (m @ d) = tail ?r" unfolding md by (rule tail_append) (rule af)
    moreover have "take (length (tail ?r)) (overwrite 0 (tail ?r) ?f) = tail ?r"
      using f by (simp add: overwrite_def)
    moreover have "length (m @ d) mod 64 = length (tail ?r)"
      using calculation(2) length_tail by metis
    moreover have "length (overwrite 0 (tail ?r) ?f) = 64"
      using f by (subst length_overwrite) (simp_all add: less_imp_le)
    ultimately show ?thesis unfolding u by metis
  next
    case False
    have u: "sha_state (SHA1_Update c d) = absorb sha_iv a" "sha_buffer (SHA1_Update c d) = overwrite ?j d (sha_buffer c)"
      using False by (simp_all add: SHA1_Update_def Let_def j buf)
    have td: "length (tail m @ d) < 64" using False by simp
    have md: "m @ d = a @ (tail m @ d)" using a(1) by (metis append.assoc)
    have "absorb sha_iv (m @ d) = absorb sha_iv a" "tail (m @ d) = tail m @ d"
      unfolding md using absorb_append [OF a(2)] absorb_short [OF td] tail_append [OF a(2)] tail_short [OF td] by simp_all
    moreover have "length (m @ d) mod 64 = ?j + length d"
      using calculation(2) length_tail [of "m @ d"] by simp
    ultimately show ?thesis
      unfolding u using False buf by (simp add: overwrite_def)
  qed
  then show ?thesis using c0 c1 by (simp add: holds_def)
qed

text \<open>The padding loop appends the zeros of the standard.\<close>

lemma holds_pos: "holds c m \<Longrightarrow> byte_pos (sha_count0 c) = length m mod 64"
  using byte_pos_add [of 0 "length m"] unfolding holds_def by (simp add: byte_pos_def)

lemma holds_pad: "holds c m \<Longrightarrow> holds (sha_pad c) (m @ replicate ((120 - length m mod 64) mod 64) 0)"
proof (induction c arbitrary: m rule: sha_pad.induct)
  case (1 c)
  let ?x = "length m mod 64"
  note pos = holds_pos [OF 1(2)]
  show ?case
  proof (cases "sha_count0 c AND 504 = 448")
    case True
    then have "?x = 56" using pos by (simp add: byte_pos_56)
    then show ?thesis using 1(2) True by (simp add: sha_pad.simps [of c])
  next
    case False
    then have x: "?x \<noteq> 56" using pos by (simp add: byte_pos_56)
    have "holds (SHA1_Update c [0]) (m @ [0])" using holds_update [OF 1(2)] by simp
    moreover have "(120 - ?x) mod 64 = Suc ((120 - length (m @ [0 :: u8]) mod 64) mod 64)"
      using x zeros_left_Suc [of ?x] mod_Suc_eq [of "length m" 64] by simp
    ultimately show ?thesis
      using 1(1) [OF False, of "m @ [0]"] False by (simp add: sha_pad.simps [of c])
  qed
qed

lemma be64_split: "be64 w = be_bytes (ucast (drop_bit 32 w)) @ be_bytes (ucast w)"
proof -
  have "ucast (drop_bit (32 + n) w) = (ucast (drop_bit n (ucast (drop_bit 32 w) :: u32)) :: u8)"
    "ucast (drop_bit n w) = (ucast (drop_bit n (ucast w :: u32)) :: u8)" if "n \<le> 24" for n
    using that by (auto intro!: bit_word_eqI simp: bit_ucast_iff bit_drop_bit_eq add_ac)
  from this(1) [of 24] this(1) [of 16] this(1) [of 8] this(1) [of 0] this(2) [of 24] this(2) [of 16] this(2) [of 8] this(2) [of 0]
  show ?thesis by (simp add: be64_def be_bytes_def upt_rec)
qed

lemma high_half: "ucast (drop_bit 32 (of_nat n :: u64)) = (of_nat (n div 2 ^ 32) :: u32)"
  unfolding drop_bit_eq_div [symmetric]
  by (rule bit_word_eqI) (auto simp: bit_ucast_iff bit_drop_bit_eq bit_of_nat_iff)

lemma be64_halves: "be64 (of_nat n) = be_bytes (of_nat (n div 2 ^ 32)) @ be_bytes (of_nat n)"
  by (simp only: be64_split high_half ucast_of_nat)

lemma SHA1_Final_fips:
  assumes "holds c m"
  shows "SHA1_Final c = sha_digest (absorb sha_iv (fips_pad m))"
proof -
  let ?z = "replicate ((119 - length m mod 64) mod 64) (0 :: u8)"
  have z: "(120 - length (m @ [0x80 :: u8]) mod 64) mod 64 = (119 - length m mod 64) mod 64"
    using mod_Suc_eq [of "length m" 64, symmetric] by (cases "length m mod 64 = 63") simp_all
  have "holds (SHA1_Update c [0x80]) (m @ [0x80])" using holds_update [OF assms] by simp
  from holds_pad [OF this] have "holds (sha_pad (SHA1_Update c [0x80])) (m @ 0x80 # ?z)"
    unfolding z by simp
  from holds_update [OF this, of "be64 (of_nat (8 * length m))"]
  have "holds (SHA1_Update (sha_pad (SHA1_Update c [0x80])) (be64 (of_nat (8 * length m)))) (fips_pad m)"
    by (simp add: be64_def fips_pad_def)
  moreover have "be64 (of_nat (8 * length m)) = be_bytes (sha_count1 c) @ be_bytes (sha_count0 c)"
    using assms by (simp only: holds_def be64_halves)
  ultimately show ?thesis
    by (simp add: SHA1_Final_def Let_def holds_def)
qed

lemma holds_pieces:
  "holds c m \<Longrightarrow> \<forall>p \<in> set ps. length p < 2 ^ 29 \<Longrightarrow> holds (fold (\<lambda>p c. SHA1_Update c p) ps c) (m @ concat ps)"
  by (induction ps arbitrary: c m) (use holds_update in \<open>force simp flip: append_assoc\<close>)+

lemma sha1_of_fips:
  assumes "length junk = 64" and "\<forall>p \<in> set ps. length p < 2 ^ 29"
  shows "sha1_of junk ps = fips_sha1 (concat ps)"
  using SHA1_Final_fips [OF holds_pieces [OF holds_init [OF assms(1)] assms(2)]]
  by (simp add: sha1_of_def fips_sha1_def absorb_def)

lemma hmac_sha1_rfc2104:
  assumes "length junk = 64" and "length k < 2 ^ 29" "length d < 2 ^ 29"
  shows "hmac_sha1 junk k d t = (if 20 \<le> t then (20, rfc2104_hmac_sha1 k d) else (-1, []))"
proof -
  have p: "hmac_pad x k = map ((XOR) x) (k @ replicate (64 - length k) 0)" for x :: u8 and k
    by (simp add: hmac_pad_def xor.commute)
  have l: "length (fips_sha1 m) = 20" for m
    by (cases "fold (\<lambda>b h. fips_compress h b) (chunks (fips_pad m)) sha_iv") (simp add: fips_sha1_def be_bytes_def)
  define k0 where "k0 = (if 64 < length k then fips_sha1 k else k)"
  have k0: "(if 64 < length k then sha1_of junk [k] else k) = k0" "length k0 \<le> 64"
    using assms(1,2) by (simp_all add: k0_def l sha1_of_fips)
  have "length (hmac_pad x k0) = 64" for x using k0(2) by (simp add: hmac_pad_def)
  then show ?thesis
    unfolding hmac_sha1_def rfc2104_hmac_sha1_def k0 k0_def [symmetric] Let_def
    using assms by (simp add: sha1_of_fips l p)
qed

subsection \<open>Properties\<close>

text \<open>
  C20: SHA-1 of any message, in pieces of any lengths below 2^29 bytes, is the digest the standard defines for
  the whole message, whatever the context's buffer held before.
\<close>

theorem sha1_is_fips:
  assumes "length junk = 64" and "\<forall>p \<in> set ps. length p < 2 ^ 29"
  shows "SHA1_Final (fold (\<lambda>p c. SHA1_Update c p) ps (SHA1_Init junk)) = fips_sha1 (concat ps)"
  using sha1_of_fips [OF assms] by (simp add: sha1_of_def)

theorem sha1_is_fips_witness:
  "SHA1_Final (SHA1_Update (SHA1_Update (SHA1_Init (replicate 64 7)) [97]) [98, 99]) = fips_sha1 [97, 98, 99]"
  using sha1_is_fips [of "replicate 64 7" "[[97], [98, 99]]"] by simp

text \<open>
  The length of a piece of 2^29 bytes is counted twice: the carry is taken by comparing a 32 bit sum with
  a 64 bit number, and the high part of the length is then added once more.
\<close>

theorem sha1_counts_large_piece_twice:
  assumes "length d = 2 ^ 29"
  shows "sha_count0 (SHA1_Update (SHA1_Init junk) d) = 0 \<and> sha_count1 (SHA1_Update (SHA1_Init junk) d) = 2"
  using assms by (simp add: SHA1_Update_def Let_def case_prod_beta SHA1_Init_def)

theorem sha1_counts_large_piece_twice_witness:
  "sha_count1 (SHA1_Update (SHA1_Init (replicate 64 0)) (replicate (2 ^ 29) 0)) = 2"
  using sha1_counts_large_piece_twice [of "replicate (2 ^ 29) 0" "replicate 64 0"] by (simp only: length_replicate simp_thms)

text \<open>
  C21: The code's HMAC is the one of RFC 2104 over SHA-1 for every key and message below 2^29 bytes; with less
  than 20 bytes of room it fails without writing.
\<close>

theorem hmac_sha1_is_rfc2104:
  assumes "length junk = 64" and "length k < 2 ^ 29" "length d < 2 ^ 29"
  shows "hmac_sha1 junk k d t = (if 20 \<le> t then (20, rfc2104_hmac_sha1 k d) else (-1, []))"
  using assms by (rule hmac_sha1_rfc2104)

theorem hmac_sha1_is_rfc2104_witness:
  "hmac_sha1 (replicate 64 7) [1, 2, 3] [72, 105] 20 = (20, rfc2104_hmac_sha1 [1, 2, 3] [72, 105])"
  using hmac_sha1_is_rfc2104 [of "replicate 64 7" "[1, 2, 3]" "[72, 105]" 20] by simp

end
