(* ===== verification/MuxSimulation.thy ===== *)
theory MuxSimulation
  imports TsMux
begin

section \<open>The multiplexer and its output\<close>

text \<open>
  The multiplexer knows its output only through two callbacks. When two outputs answer alike in related states, it
  does the same over both; what holds for one output, such as the recording of TsMux, then holds for
  the other.
\<close>

lemma write_at_length: "write_at p xs b = Inr b' \<Longrightarrow> length b' = length b"
  by (auto simp: write_at_def split: if_splits)

lemma pesPrologue_length: "pesPrologue p cnt pid buf = Inr (b, n, pad, h) \<Longrightarrow> length b = length buf"
  by (auto simp: pesPrologue_def and_then_eq_Inr Let_def LinkSetAdaptationFieldFlag_def
      dest!: write_at_length split: if_splits)

lemma LinkGetPESData_length:
  assumes "LinkGetPESData p cnt pid buf n = Inr (r, b, p')"
  shows "length b = length buf"
  using assms
  by (auto simp: LinkGetPESData_def and_then_eq_Inr Let_def LinkSetAdaptationFieldFlag_def
      dest!: write_at_length pesPrologue_length split: if_splits)

lemma tablePacket_length: "tablePacket t buf = Inr b \<Longrightarrow> length b = length buf"
  by (auto simp: tablePacket_def and_then_eq_Inr dest!: write_at_length)

text \<open>The packet buffer keeps its length.\<close>

lemma makeTsLoop_length:
  "makeTsLoop out pid k s c l ok = Inr (r, s', c', l', ok') \<Longrightarrow> length (tsPacket c') = length (tsPacket c)"
proof (induction "length (pESData (pes c)) - nPos (pes c)" arbitrary: s c l ok rule: less_induct)
  case less
  note step = makeTsLoop.simps [of out pid k s c l ok]
  from less.prems obtain n b p where x: "LinkGetPESData (pes c) 0 pid (tsPacket c) 188 = Inr (n, b, p)"
    unfolding step by (auto simp: and_then_eq_Inr)
  let ?c = "c\<lparr>pes := p, tsPacket := b\<rparr>"
  have b: "length b = length (tsPacket c)"
    by (rule LinkGetPESData_length [OF x])
  show ?case
  proof (cases "n = 188")
    case False
    then show ?thesis
      using less.prems b unfolding step by (auto simp: x Let_def)
  next
    case True
    from less.prems obtain cnt c1 where y: "getPidCounter ?c pid = Inr (cnt, c1)"
      unfolding step by (auto simp: x True Let_def and_then_eq_Inr)
    have prog: "length (pESData p) - nPos p < length (pESData (pes c)) - nPos (pes c)"
      using LinkGetPESData_progress [OF x] True by auto
    define d where "d = LinkWriteContinuityCounter b (int cnt)"
    have d: "length d = length (tsPacket c)"
      using b by (simp add: d_def LinkWriteContinuityCounter_def)
    obtain q s1 where o: "out s d = (q, s1)"
      by (cases "out s d")
    have IH: "makeTsLoop out pid k s1 (c1\<lparr>tsPacket := d, nCurrentPos := j\<rparr>) l2 ok2 = Inr (r, s', c', l', ok')
        \<Longrightarrow> length (tsPacket c') = length (tsPacket c)" for j l2 ok2
      using less.hyps [of "c1\<lparr>tsPacket := d, nCurrentPos := j\<rparr>" s1 l2 ok2] prog getPidCounter_pes [OF y] d by simp
    show ?thesis
      using less.prems IH d unfolding step
      by (auto simp: x True y o Let_def d_def [symmetric] split: if_splits)
  qed
qed

lemma writeTable_length:
  assumes "writeTable out s c 0 = Inr (s', c')"
  shows "length (tsPacket c') = length (tsPacket c)"
proof (cases "isTableWrited c \<or> \<not> (nLastPts c = 0 \<or> 300 * 90 < word_of_int 0 - nLastPts c)")
  case True
  then show ?thesis
    using assms by (auto simp: writeTable_def split: if_splits)
next
  case False
  obtain k c1 b k2 c2 t2 b2 where k: "getPidCounter c 0 = Inr (k, c1)"
      "tablePacket (LinkWritePAT True (int k) LINK_ADAPTATION_JUST_PAYLOAD) (tsPacket c1) = Inr b"
      "getPidCounter (c1\<lparr>tsPacket := b\<rparr>) 0x1000 = Inr (k2, c2)"
      "tablePacket t2 (tsPacket c2) = Inr b2" "c' = c2\<lparr>tsPacket := b2, isTableWrited := True, nCurrentPos := 188 * 2\<rparr>"
    using assms False by (auto simp: writeTable_def Let_def and_then_eq_Inr)
  show ?thesis
    using tablePacket_length [OF k(2)] tablePacket_length [OF k(4)] k(1,3,5)
    by (auto simp: getPidCounter_def and_then_eq_Inr)
qed

lemma makeTsPacket_length:
  assumes "makeTsPacket out m s c pid pts key = Inr (r, s', c')"
  shows "length (tsPacket c') = length (tsPacket c)"
proof -
  obtain r0 s0 c0 l ok where "makeTsLoop out pid (nCurrentPos c) s c 0 True = Inr (r0, s0, c0, l, ok)" "c' = c0"
    using assms by (auto simp: makeTsPacket_def Let_def and_then_eq_Inr split: if_splits)
  then show ?thesis
    using makeTsLoop_length by simp
qed

lemma muxer_keeps_packet:
  "LinkMuxerVideo out m s c d t key = Inr (r, s', c') \<Longrightarrow> length (tsPacket c') = length (tsPacket c)"
  "LinkMuxerAudio out m s c d t = Inr (r, s', c') \<Longrightarrow> length (tsPacket c') = length (tsPacket c)"
  by (auto simp: LinkMuxerVideo_def LinkMuxerAudio_def Let_def and_then_eq_Inr
      dest!: makeTsPacket_length writeTable_length split: if_splits)

subsection \<open>Related results\<close>

definition same_result :: "('s \<Rightarrow> 't \<Rightarrow> bool) \<Rightarrow> ('a \<times> 's \<times> 'b) run \<Rightarrow> ('a \<times> 't \<times> 'b) run \<Rightarrow> bool" where
  "same_result R r r' = (case (r, r') of
     (Inl f, Inl f') \<Rightarrow> f = f'
   | (Inr (x, s, c), Inr (x', s', c')) \<Rightarrow> x = x' \<and> R s s' \<and> c = c'
   | _ \<Rightarrow> False)"

lemma same_result_Inr [simp]: "same_result R (Inr (x, s, c)) (Inr (x', s', c')) \<longleftrightarrow> x = x' \<and> R s s' \<and> c = c'"
  by (simp add: same_result_def)

lemma same_result_Inl [simp]: "same_result R (Inl f) (Inl f') \<longleftrightarrow> f = f'"
  by (simp add: same_result_def)

lemma same_result_cases:
  assumes "same_result R r r'"
  obtains (fault) f where "r = Inl f" "r' = Inl f"
  | (result) x s s' c where "r = Inr (x, s, c)" "r' = Inr (x, s', c)" "R s s'"
  using assms by (cases r; cases r') (auto simp: same_result_def)

lemma same_result_first:
  assumes "\<And>x. r = Inr x \<Longrightarrow> same_result R (f x) (g x)"
  shows "same_result R (and_then r f) (and_then r g)"
  using assms by (cases r) simp_all

locale output_simulation =
  fixes out :: "'s packet_output" and meta :: "'s \<Rightarrow> LinkKeyFrameMetaInfo \<Rightarrow> 's"
    and out' :: "'t packet_output" and meta' :: "'t \<Rightarrow> LinkKeyFrameMetaInfo \<Rightarrow> 't"
    and R :: "'s \<Rightarrow> 't \<Rightarrow> bool"
  assumes out_sim: "R s t \<Longrightarrow> length b = 188 \<Longrightarrow> fst (out s b) = fst (out' t b) \<and> R (snd (out s b)) (snd (out' t b))"
    and meta_sim: "R s t \<Longrightarrow> R (meta s i) (meta' t i)"
begin

lemma makeTsLoop_sim:
  assumes "R s t" and "length (tsPacket c) = 188"
  shows "same_result R (makeTsLoop out pid k s c l ok) (makeTsLoop out' pid k t c l ok)"
  using assms
proof (induction "length (pESData (pes c)) - nPos (pes c)" arbitrary: s t c l ok rule: less_induct)
  case less
  note step = makeTsLoop.simps [of out pid k s c l ok] makeTsLoop.simps [of out' pid k t c l ok]
  show ?case
  proof (cases "LinkGetPESData (pes c) 0 pid (tsPacket c) 188")
    case (Inl f)
    then show ?thesis
      unfolding step by simp
  next
    case (Inr x)
    then obtain n b p where x: "LinkGetPESData (pes c) 0 pid (tsPacket c) 188 = Inr (n, b, p)"
      by (cases x) auto
    let ?c = "c\<lparr>pes := p, tsPacket := b\<rparr>"
    show ?thesis
    proof (cases "n = 188")
      case False
      then show ?thesis
        using less.prems unfolding step by (simp add: x Let_def)
    next
      case True
      have prog: "length (pESData p) - nPos p < length (pESData (pes c)) - nPos (pes c)"
        using LinkGetPESData_progress [OF x] True by auto
      show ?thesis
      proof (cases "getPidCounter ?c pid")
        case (Inl f)
        then show ?thesis
          unfolding step by (simp add: x True Let_def)
      next
        case (Inr y)
        then obtain cnt c' where y: "getPidCounter ?c pid = Inr (cnt, c')"
          by (cases y) auto
        define d where "d = LinkWriteContinuityCounter b (int cnt)"
        have d: "length d = 188"
          using LinkGetPESData_length [OF x] less.prems(2) by (simp add: d_def LinkWriteContinuityCounter_def)
        obtain r s' t' where o: "out s d = (r, s')" "out' t d = (r, t')" "R s' t'"
          using out_sim [OF less.prems(1) d] by (cases "out s d"; cases "out' t d") auto
        have IH: "same_result R (makeTsLoop out pid k s' (c'\<lparr>tsPacket := d, nCurrentPos := j\<rparr>) l' ok')
            (makeTsLoop out' pid k t' (c'\<lparr>tsPacket := d, nCurrentPos := j\<rparr>) l' ok')" for j l' ok'
          using prog getPidCounter_pes [OF y] d o(3) by (intro less.hyps) simp_all
        show ?thesis
          using o IH unfolding step by (simp add: x y True Let_def d_def [symmetric])
      qed
    qed
  qed
qed

lemma makeTsPacket_sim:
  assumes "R s t" and "length (tsPacket c) = 188"
  shows "same_result R (makeTsPacket out (Some meta) s c pid pts key) (makeTsPacket out' (Some meta') t c pid pts key)"
proof -
  have "same_result R (makeTsLoop out pid (nCurrentPos c) s c 0 True) (makeTsLoop out' pid (nCurrentPos c) t c 0 True)"
    using assms by (rule makeTsLoop_sim)
  then show ?thesis
    by (cases rule: same_result_cases) (auto simp: makeTsPacket_def Let_def meta_sim)
qed

lemma writeTable_sim:
  assumes "R s t" and "length (tsPacket c) = 188"
  shows "(\<exists>f. writeTable out s c 0 = Inl f \<and> writeTable out' t c 0 = Inl f) \<or>
    (\<exists>s' t' c'. writeTable out s c 0 = Inr (s', c') \<and> writeTable out' t c 0 = Inr (t', c') \<and> R s' t' \<and>
       length (tsPacket c') = 188)"
proof (cases "isTableWrited c \<or> \<not> (nLastPts c = 0 \<or> 300 * 90 < word_of_int 0 - nLastPts c)")
  case True
  then show ?thesis
    using assms by (auto simp: writeTable_def)
next
  case unwritten: False
  show ?thesis
  proof (cases "getPidCounter c 0")
    case (Inl f)
    then show ?thesis
      using unwritten by (simp add: writeTable_def)
  next
    case (Inr x)
    then obtain k c1 where k: "getPidCounter c 0 = Inr (k, c1)"
      by (cases x) auto
    show ?thesis
    proof (cases "tablePacket (LinkWritePAT True (int k) LINK_ADAPTATION_JUST_PAYLOAD) (tsPacket c1)")
      case (Inl f)
      then show ?thesis
        using unwritten k by (simp add: writeTable_def)
    next
      case pat: (Inr b)
      have b: "length b = 188"
        using tablePacket_length [OF pat] k assms(2) by (auto simp: getPidCounter_def and_then_eq_Inr)
      note R1 = conjunct2 [OF out_sim [OF assms(1) b]]
      show ?thesis
      proof (cases "writeTable out s c 0")
        case (Inl f)
        then show ?thesis
          using unwritten k pat
          by (auto simp: writeTable_def Let_def and_then_def split: sum.splits)
      next
        case (Inr y)
        then obtain k2 c2 t2 b2 where k2: "getPidCounter (c1\<lparr>tsPacket := b\<rparr>) 0x1000 = Inr (k2, c2)"
            "LinkWritePMT True (int k2) LINK_ADAPTATION_JUST_PAYLOAD
               (videoStreamType (nVideoFormat (arg c2))) (audioStreamType (nAudioFormat (arg c2)))
               (g711Type (nAudioFormat (arg c2))) (nAudioSampleRate (arg c2)) = Inr t2"
            "tablePacket t2 (tsPacket c2) = Inr b2"
          using unwritten k pat by (auto simp: writeTable_def Let_def and_then_eq_Inr)
        have b2: "length b2 = 188"
          using tablePacket_length [OF k2(3)] k2(1) b by (auto simp: getPidCounter_def and_then_eq_Inr)
        show ?thesis
          using unwritten k pat k2 b2 conjunct2 [OF out_sim [OF R1 b2]]
          by (auto simp: writeTable_def Let_def)
      qed
    qed
  qed
qed

lemma LinkMuxerVideo_sim:
  assumes "R s t" and "length (tsPacket c) = 188"
  shows "same_result R (LinkMuxerVideo out (Some meta) s c d pts key) (LinkMuxerVideo out' (Some meta') t c d pts key)"
  using writeTable_sim [OF assms] by (auto simp: LinkMuxerVideo_def Let_def intro!: makeTsPacket_sim)

lemma LinkMuxerAudio_sim:
  assumes "R s t" and "length (tsPacket c) = 188"
  shows "same_result R (LinkMuxerAudio out (Some meta) s c d pts) (LinkMuxerAudio out' (Some meta') t c d pts)"
  using writeTable_sim [OF assms] by (auto simp: LinkMuxerAudio_def Let_def intro!: makeTsPacket_sim)

end

end
