(* ===== verification/FrameEntry.thy ===== *)
theory FrameEntry
  imports TsUploader Kmp Adts
begin

section \<open>Frame entry and segment cutting (tsmuxuploader.c)\<close>

text \<open>
  The application pushes audio and video frames. Before a key frame the code decides whether to close the segment
  (\<open>checkSwitch\<close>, \<open>switchTs\<close>); a frame is then multiplexed into packets that go to the uploader
  (\<open>push\<close>). The uploader is reached through function pointers, \<open>LinkTsUploader\<close> in tsuploader.h, which the
  model keeps as a record of functions, so that what is proved here holds for every uploader. Each entry
  point runs under the uploader's mutex and is one step. What a step asks of its surroundings is in \<open>FrameEnv\<close>.
\<close>

subsection \<open>The uploader's interface\<close>

record 'u LinkTsUploader =
  Push :: "'u \<Rightarrow> bytes \<Rightarrow> (int \<times> 'u) run"
  ReportTimeInfo :: "'u \<Rightarrow> LinkReportTimeInfo \<Rightarrow> LinkUploaderTimeInfoType \<Rightarrow> 'u run"
  setKeyframeMetaInfo :: "'u \<Rightarrow> LinkKeyFrameMetaInfo \<Rightarrow> 'u"

text \<open>The table \<open>LinkNewTsUploader\<close> fills in, with the callback \<open>newTsMuxContext\<close> registers.\<close>

definition kodo_ops :: "TsAlloc \<Rightarrow> KodoUploader LinkTsUploader" where
  "kodo_ops a = \<lparr>Push = streamPushData a, ReportTimeInfo = reportTimeInfo a,
     setKeyframeMetaInfo = LinkAppendKeyframeMetaInfo\<rparr>"

subsection \<open>State\<close>

definition getBufferSize :: int where "getBufferSize = 1440 * 1024"

text \<open>\<open>pFmtCtx\<close> is \<open>None\<close> once \<open>LinkResetTsMuxerContext\<close> has failed and freed the context.\<close>

record 'u FFTsMuxContext =
  pTsUploader :: 'u
  pFmtCtx :: "LinkTsMuxerContext option"
  nPrevAudioTimestamp :: int
  nPrevVideoTimestamp :: int

record 'u FFTsMuxUploader =
  pAACBuf :: "bytes option"
  pTsMuxCtx :: "'u FFTsMuxContext option"
  nFirstAudioFrameTimestamp :: int
  nLastAudioFrameTimestamp :: int
  nFirstVideoFrameTimestamp :: int
  nLastVideoFrameTimestamp :: int
  nFirstFrameTimestamp :: int
  nLastFrameTimestamp :: int
  nLastVideoFrameTsForCheck :: int
  nLastAudioFrameTsForCheck :: int
  nLastVideoFrameTsForCheckSysTime :: int
  nLastPicCallbackSystime :: int
  nKeyFrameCount :: int
  nFrameCount :: int
  avArg :: LinkMediaArg
  queueType :: CircleQueuePolicy
  isPause :: bool
  isQuit :: bool
  pVideoMeta :: "bytes option"
  nVideoMetaCap :: nat
  cfgTsDuration :: int
  argTsMaxSize :: int
  hasUpdateCb :: bool
  argKeeper :: SessionKeeper
  hasPicUploader :: bool
  captures :: "int list"

text \<open>
  The state \<open>linkNewTsMuxUploader\<close> sets up; \<open>kp\<close> holds the part of the configuration the sessions use.
\<close>

definition freshFrames :: "LinkMediaArg \<Rightarrow> int \<Rightarrow> bool \<Rightarrow> SessionKeeper \<Rightarrow> 'u FFTsMuxUploader" where
  "freshFrames av nTsMaxSize isWithPicAndSeg kp =
     \<lparr>pAACBuf = None, pTsMuxCtx = None, nFirstAudioFrameTimestamp = 0, nLastAudioFrameTimestamp = 0,
      nFirstVideoFrameTimestamp = 0, nLastVideoFrameTimestamp = 0, nFirstFrameTimestamp = -1, nLastFrameTimestamp = 0,
      nLastVideoFrameTsForCheck = 0, nLastAudioFrameTsForCheck = 0, nLastVideoFrameTsForCheckSysTime = 0,
      nLastPicCallbackSystime = 0, nKeyFrameCount = 0, nFrameCount = 0, avArg = av, queueType = TSQ_APPEND_FIX,
      isPause = False, isQuit = False, pVideoMeta = None, nVideoMetaCap = 0, cfgTsDuration = 4000,
      argTsMaxSize = (if nTsMaxSize \<le> 0 then getBufferSize else nTsMaxSize),
      hasUpdateCb = isWithPicAndSeg, argKeeper = kp, hasPicUploader = False, captures = []\<rparr>"

text \<open>Answers of one call: the clock at its three readings, the allocator, pthread, an unset field.\<close>

record FrameEnv =
  frNow :: int
  frSwitchNow :: int
  frPictureNow :: int
  frAac :: heap_answer
  frSps :: bool
  frMutex :: int
  frReserved :: int

subsection \<open>Times\<close>

definition getAacFreqIndex :: "int \<Rightarrow> int" where
  "getAacFreqIndex f =
     (if f = 96000 then 0 else if f = 88200 then 1 else if f = 64000 then 2 else if f = 48000 then 3
      else if f = 44100 then 4 else if f = 32000 then 5 else if f = 24000 then 6 else if f = 22050 then 7
      else if f = 16000 then 8 else if f = 12000 then 9 else if f = 11025 then 10 else if f = 8000 then 11
      else if f = 7350 then 12 else -1)"

definition resetTimeInfo :: "'u FFTsMuxUploader \<Rightarrow> 'u FFTsMuxUploader" where
  "resetTimeInfo m = m\<lparr>nFirstAudioFrameTimestamp := 0, nLastAudioFrameTimestamp := 0,
     nFirstVideoFrameTimestamp := 0, nLastVideoFrameTimestamp := 0, nFirstFrameTimestamp := -1, nLastFrameTimestamp := 0\<rparr>"

text \<open>The reserved field is not set here; \<open>frReserved\<close> is what it holds.\<close>

definition getLinkReportTimeInfo :: "FrameEnv \<Rightarrow> 'u FFTsMuxUploader \<Rightarrow> int \<Rightarrow> LinkReportTimeInfo" where
  "getLinkReportTimeInfo e m nSysNanotime =
     \<lparr>tiAudioDuration = nLastAudioFrameTimestamp m - nFirstAudioFrameTimestamp m,
      tiVideoDuration = nLastVideoFrameTimestamp m - nFirstVideoFrameTimestamp m,
      tiMediaDuation = nLastFrameTimestamp m - nFirstFrameTimestamp m,
      tiSystimestamp = nSysNanotime, tiReserved = frReserved e\<rparr>"

definition report ::
    "'u LinkTsUploader \<Rightarrow> 'u FFTsMuxUploader \<Rightarrow> LinkReportTimeInfo \<Rightarrow> LinkUploaderTimeInfoType \<Rightarrow> 'u FFTsMuxUploader run" where
  "report up m ti ty =
     (case pTsMuxCtx m of
        None \<Rightarrow> Inl Null_deref
      | Some x \<Rightarrow> and_then (ReportTimeInfo up (pTsUploader x) ti ty) (\<lambda>u.
          Inr (m\<lparr>pTsMuxCtx := Some (x\<lparr>pTsUploader := u\<rparr>)\<rparr>)))"

definition switchTs :: "'u LinkTsUploader \<Rightarrow> FrameEnv \<Rightarrow> 'u FFTsMuxUploader \<Rightarrow> int \<Rightarrow> 'u FFTsMuxUploader run" where
  "switchTs up e m nSysNanotime =
     (case pTsMuxCtx m of
        None \<Rightarrow> Inr m
      | Some _ \<Rightarrow>
          let nSysNanotime = (if nSysNanotime \<le> 0 then frSwitchNow e else nSysNanotime) in
          and_then (if queueType m = TSQ_APPEND_FIX \<and> 0 \<le> nFirstFrameTimestamp m
                    then report up m (getLinkReportTimeInfo e m nSysNanotime) LINK_TS_END else Inr m) (\<lambda>m.
            case pTsMuxCtx m of
              None \<Rightarrow> Inl Null_deref
            | Some x \<Rightarrow> (case pFmtCtx x of
                None \<Rightarrow> Inl Double_free
              | Some c \<Rightarrow> Inr (resetTimeInfo
                  (m\<lparr>pTsMuxCtx := Some (x\<lparr>pFmtCtx := snd (LinkResetTsMuxerContext (frMutex e) c)\<rparr>)\<rparr>)))))"

subsection \<open>One frame\<close>

text \<open>
  The multiplexer's output callback: a fault of the uploader stops everything, so it is kept in the state and the
  loop is left.
\<close>

definition writeTsPacketToMem :: "'u LinkTsUploader \<Rightarrow> 'u run packet_output" where
  "writeTsPacketToMem up s b =
     (case and_then s (\<lambda>u. Push up u b) of Inl f \<Rightarrow> (-1, Inl f) | Inr (ret, u) \<Rightarrow> (ret, Inr u))"

definition keyframeMeta :: "'u LinkTsUploader \<Rightarrow> 'u run meta_output" where
  "keyframeMeta up = Some (\<lambda>s i. and_then s (\<lambda>u. Inr (setKeyframeMetaInfo up u i)))"

definition muxFrame ::
    "'u LinkTsUploader \<Rightarrow> 'u FFTsMuxContext \<Rightarrow> bool \<Rightarrow> bytes \<Rightarrow> int \<Rightarrow> bool \<Rightarrow> (int \<times> 'u FFTsMuxContext) run" where
  "muxFrame up x isVideo d t isKey =
     (case pFmtCtx x of
        None \<Rightarrow> Inl Double_free
      | Some c \<Rightarrow>
          and_then (if isVideo
                    then LinkMuxerVideo (writeTsPacketToMem up) (keyframeMeta up) (Inr (pTsUploader x)) c d t isKey
                    else LinkMuxerAudio (writeTsPacketToMem up) (keyframeMeta up) (Inr (pTsUploader x)) c d t) (\<lambda>(ret, s, c).
          and_then s (\<lambda>u. Inr (ret, x\<lparr>pTsUploader := u, pFmtCtx := Some c\<rparr>))))"

text \<open>Whether an AAC frame comes without its ADTS header.\<close>

definition adtsMissing :: "bytes \<Rightarrow> bool run" where
  "adtsMissing d =
     (case d of
        [] \<Rightarrow> Inl Out_of_bounds
      | a # r \<Rightarrow> if a \<noteq> 0xff then Inr True
          else (case r of [] \<Rightarrow> Inl Out_of_bounds | b # _ \<Rightarrow> Inr (b AND 0xf0 \<noteq> 0xf0)))"

text \<open>
  The frame with an ADTS header in front, built in \<open>pAACBuf\<close>. The frame length is a field of 13 bits: when it
  wraps, the header's length becomes negative and the copy starts in front of the buffer.
\<close>

definition aacFrame ::
    "FrameEnv \<Rightarrow> 'u FFTsMuxUploader \<Rightarrow> bytes \<Rightarrow> (int \<times> bytes \<times> 'u FFTsMuxUploader) run" where
  "aacFrame e m d =
     (let v = LinkInitAdtsVariableHeader (int (length d));
          idx = getAacFreqIndex (nSamplerate (avArg m));
          f = LinkInitAdtsFixedHeader\<lparr>channel_configuration := word_of_int (nChannels (avArg m)),
                sampling_frequency_index := word_of_int idx\<rparr>;
          n = unat (aac_frame_length v);
          buf = (case pAACBuf m of None \<Rightarrow> malloc (frAac e) n
                 | Some b \<Rightarrow> if length b < n then malloc (frAac e) n else Some b);
          m = m\<lparr>pAACBuf := buf\<rparr>
      in case buf of
           None \<Rightarrow> Inr (LINK_NO_MEMORY, [], m)
         | Some b \<Rightarrow>
             if nChannels (avArg m) < 1 \<or> 2 < nChannels (avArg m) \<or> idx < 0 then Inr (LINK_ARG_ERROR, [], m)
             else and_then (write_at 0 (LinkConvertAdtsHeader2Char f v) b) (\<lambda>b.
               let nHeaderLen = int n - int (length d) in
               if nHeaderLen < 0 then Inl Out_of_bounds
               else and_then (write_at (nat nHeaderLen) d b) (\<lambda>b.
                 Inr (0, take n b, m\<lparr>pAACBuf := Some b\<rparr>))))"

text \<open>What follows a frame the multiplexer took.\<close>

definition frameAccepted ::
    "'u LinkTsUploader \<Rightarrow> FrameEnv \<Rightarrow> 'u FFTsMuxUploader \<Rightarrow> int \<Rightarrow> bool \<Rightarrow> int \<Rightarrow> bool \<Rightarrow> 'u FFTsMuxUploader run" where
  "frameAccepted up e m t isVideo nSysNanotime force =
     (let ti = getLinkReportTimeInfo e m nSysNanotime in
      and_then (if force then report up m ti LINK_SEG_TIMESTAMP else Inr m) (\<lambda>m.
      and_then (if nFirstFrameTimestamp m < 0
                then and_then (report up m ti LINK_TS_START) (\<lambda>m. Inr (m\<lparr>nFirstFrameTimestamp := t\<rparr>))
                else Inr m) (\<lambda>m.
      let m = m\<lparr>nLastFrameTimestamp := t\<rparr> in
      Inr (if isVideo
           then m\<lparr>nFirstVideoFrameTimestamp := (if nFirstVideoFrameTimestamp m \<le> 0 then t else nFirstVideoFrameTimestamp m),
                  nLastVideoFrameTimestamp := t\<rparr>
           else m\<lparr>nFirstAudioFrameTimestamp := (if nFirstAudioFrameTimestamp m \<le> 0 then t else nFirstAudioFrameTimestamp m),
                  nLastAudioFrameTimestamp := t\<rparr>))))"

text \<open>\<open>push\<close> waits a moment when there is no multiplexing context; under the mutex none can appear.\<close>

definition pushFrame ::
    "'u LinkTsUploader \<Rightarrow> FrameEnv \<Rightarrow> 'u FFTsMuxUploader \<Rightarrow> bytes \<Rightarrow> int \<Rightarrow> bool \<Rightarrow> bool \<Rightarrow> int \<Rightarrow> bool
      \<Rightarrow> (int \<times> 'u FFTsMuxUploader) run" where
  "pushFrame up e m d t isVideo isKey nSysNanotime force =
     (case pTsMuxCtx m of
        None \<Rightarrow> Inr (0, m)
      | Some x \<Rightarrow>
          let finish = (\<lambda>m (ret, x). let m = m\<lparr>pTsMuxCtx := Some x\<rparr> in
                if ret = 0 then and_then (frameAccepted up e m t isVideo nSysNanotime force) (\<lambda>m. Inr (ret, m))
                else Inr (ret, m))
          in if \<not> isVideo then
               if nPrevAudioTimestamp x \<noteq> 0 \<and> t - nPrevAudioTimestamp x \<le> 0 then Inr (0, m)
               else
                 let x = x\<lparr>nPrevAudioTimestamp := t\<rparr>; m = m\<lparr>pTsMuxCtx := Some x\<rparr> in
                 and_then (if LinkMediaArg.nAudioFormat (avArg m) = LINK_AUDIO_AAC then adtsMissing d else Inr False) (\<lambda>missing.
                 and_then (if missing then aacFrame e m d else Inr (0, d, m)) (\<lambda>(ret, d, m).
                   if ret \<noteq> 0 then Inr (ret, m)
                   else and_then (muxFrame up x False d t False) (finish m)))
             else if nPrevVideoTimestamp x \<noteq> 0 \<and> t - nPrevVideoTimestamp x \<le> 0 then Inr (0, m)
             else and_then (muxFrame up x True d t isKey) (\<lambda>(ret, x). finish m (ret, x\<lparr>nPrevVideoTimestamp := t\<rparr>)))"


subsection \<open>Parameter sets\<close>

text \<open>
  \<open>spsScan\<close> goes from start code to start code. The search always runs over the length of the whole frame, from
  wherever the last one ended: after the first, one that finds nothing reads past the frame. The result is the
  parameter set's place and length, from behind its start code to the next one.
\<close>

definition getNaluType :: "LinkVideoFormat \<Rightarrow> u8 \<Rightarrow> u8" where
  "getNaluType f v = (if f = LINK_VIDEO_H264 then v AND 0x1F else drop_bit 1 (v AND 0x7E))"

definition isTypeSPS :: "LinkVideoFormat \<Rightarrow> u8 \<Rightarrow> bool" where
  "isTypeSPS f v = (if f = LINK_VIDEO_H264 then v = 8 else v = 33)"

partial_function (option) spsScan ::
    "LinkKMP \<Rightarrow> LinkVideoFormat \<Rightarrow> bytes \<Rightarrow> nat \<Rightarrow> nat option \<Rightarrow> (nat \<times> int) option run option" where
  "spsScan k f d i start =
     (case LinkFindPatternIndex k (drop i d) of
        None \<Rightarrow> None
      | Some pos \<Rightarrow>
          if pos < 0 then Some (if i = 0 then Inr None else Inl Out_of_bounds)
          else let p = i + nat pos + 3 in
            if length d \<le> p then Some (Inl Out_of_bounds)
            else if isTypeSPS f (getNaluType f (d ! p)) then spsScan k f d p (Some p)
            else (case start of
                None \<Rightarrow> spsScan k f d p None
              | Some s \<Rightarrow> Some (Inr (Some (s, int p - int s - 3 - (if d ! (p - 4) = 0 then 1 else 0))))))"

declare spsScan.simps [code]

definition saveVideoMeta :: "FrameEnv \<Rightarrow> 'u FFTsMuxUploader \<Rightarrow> bytes \<Rightarrow> int \<times> 'u FFTsMuxUploader" where
  "saveVideoMeta e m sps =
     (if frSps e then (0, m\<lparr>pVideoMeta := Some sps, nVideoMetaCap := length sps + 1024\<rparr>)
      else (LINK_NO_MEMORY, m\<lparr>pVideoMeta := None\<rparr>))"

text \<open>The second result is \<open>*pIsSameAsBefore\<close>, which is 1 when the parameter sets differ.\<close>

definition compareVideoMeta :: "FrameEnv \<Rightarrow> 'u FFTsMuxUploader \<Rightarrow> bytes \<Rightarrow> int \<times> bool \<times> 'u FFTsMuxUploader" where
  "compareVideoMeta e m sps =
     (case pVideoMeta m of
        None \<Rightarrow> (case saveVideoMeta e m sps of (ret, m) \<Rightarrow> (ret, False, m))
      | Some old \<Rightarrow>
          if old = sps then (0, False, m)
          else if length sps \<le> nVideoMetaCap m then (0, True, m\<lparr>pVideoMeta := Some sps\<rparr>)
          else (case saveVideoMeta e m sps of (ret, m) \<Rightarrow> (ret, True, m)))"

definition getVideoSpsAndCompare ::
    "FrameEnv \<Rightarrow> 'u FFTsMuxUploader \<Rightarrow> bytes \<Rightarrow> (int \<times> bool \<times> 'u FFTsMuxUploader) run" where
  "getVideoSpsAndCompare e m d =
     (case LinkInitKmp [0x00, 0x00, 0x01] of
        None \<Rightarrow> Inl Diverges
      | Some (_, k) \<Rightarrow>
        if nVideoFormat (avArg m) \<noteq> LINK_VIDEO_H264 \<and> nVideoFormat (avArg m) \<noteq> LINK_VIDEO_H265
        then Inr (-2, False, m)
        else (case spsScan k (nVideoFormat (avArg m)) d 0 None of
            None \<Rightarrow> Inl Diverges
          | Some r \<Rightarrow> and_then r (\<lambda>found. case found of
              None \<Rightarrow> Inr (-1, False, m)
            | Some (s, nMetaLen) \<Rightarrow>
                if nMetaLen < 0 then Inl Out_of_bounds
                else Inr (compareVideoMeta e m (take (nat nMetaLen) (drop s d))))))"

subsection \<open>The end of a segment\<close>

definition mustSwitch :: "'u FFTsMuxUploader \<Rightarrow> int \<Rightarrow> bool \<Rightarrow> bool \<Rightarrow> bool" where
  "mustSwitch m t isSegStart changed =
     (let first = (if nFirstFrameTimestamp m < 0 then t else nFirstFrameTimestamp m) in
      (cfgTsDuration m < t - first \<and> 0 < nKeyFrameCount m) \<or> changed \<or> (isSegStart \<and> nFrameCount m \<noteq> 0))"

definition checkSwitch ::
    "'u LinkTsUploader \<Rightarrow> FrameEnv \<Rightarrow> 'u FFTsMuxUploader \<Rightarrow> int \<Rightarrow> bool \<Rightarrow> bool \<Rightarrow> int \<Rightarrow> bool \<Rightarrow> bytes
      \<Rightarrow> (int \<times> bool \<times> 'u FFTsMuxUploader) run" where
  "checkSwitch up e m t isKey isVideo nSysNanotime isSegStart d =
     and_then (if isVideo \<and> isKey then getVideoSpsAndCompare e m d else Inr (0, False, m)) (\<lambda>(ret, changed, m).
       if ret \<noteq> LINK_SUCCESS then Inr (ret, False, m)
       else if \<not> (isVideo \<and> isKey) then Inr (0, False, m)
       else and_then
         (if mustSwitch m t isSegStart changed
          then and_then (switchTs up e (m\<lparr>nKeyFrameCount := 0, nFrameCount := 0\<rparr>) nSysNanotime) (\<lambda>m.
            Inr (m\<lparr>nLastPicCallbackSystime := nSysNanotime\<rparr>))
          else Inr m) (\<lambda>m.
         Inr (0, changed, m\<lparr>nKeyFrameCount := nKeyFrameCount m + 1\<rparr>)))"

subsection \<open>Entry points\<close>

definition frameSysTime :: "FrameEnv \<Rightarrow> int \<Rightarrow> int" where
  "frameSysTime e t = (if 1548064836000 < t then t * 1000000 else frNow e)"

definition linkCapturePictureCallback :: "'u FFTsMuxUploader \<Rightarrow> int \<Rightarrow> 'u FFTsMuxUploader" where
  "linkCapturePictureCallback m t = (if hasPicUploader m then m\<lparr>captures := captures m @ [t]\<rparr> else m)"

text \<open>What both entry points do after \<open>push\<close>.\<close>

definition afterPush ::
    "'u LinkTsUploader \<Rightarrow> FrameEnv \<Rightarrow> int \<Rightarrow> int \<times> 'u FFTsMuxUploader \<Rightarrow> (int \<times> 'u FFTsMuxUploader) run" where
  "afterPush up e nSysNanotime r =
     (case r of (ret, m) \<Rightarrow>
        let m = (if ret = 0 then m\<lparr>nFrameCount := nFrameCount m + 1\<rparr> else m) in
        and_then (if ret = LINK_NO_MEMORY then switchTs up e m nSysNanotime else Inr m) (\<lambda>m. Inr (ret, m)))"

definition PushVideo ::
    "'u LinkTsUploader \<Rightarrow> FrameEnv \<Rightarrow> 'u FFTsMuxUploader \<Rightarrow> bytes \<Rightarrow> int \<Rightarrow> bool \<Rightarrow> bool \<Rightarrow> int
      \<Rightarrow> (int \<times> 'u FFTsMuxUploader) run" where
  "PushVideo up e m d t isKey isSegStart frameTime =
     (let now = frameSysTime e frameTime;
          m = m\<lparr>nLastVideoFrameTsForCheck := t, nLastVideoFrameTsForCheckSysTime := now\<rparr>
      in if isPause m then Inr (LINK_PAUSED, m)
         else if nKeyFrameCount m = 0 \<and> \<not> isKey then Inr (0, m)
         else and_then (checkSwitch up e m t isKey True now isSegStart d) (\<lambda>(ret, changed, m).
           if ret \<noteq> 0 then Inr (ret, m)
           else if nKeyFrameCount m = 0 \<and> \<not> isKey then Inr (0, m)
           else
             let m = (if nKeyFrameCount m = 1 \<and> isKey
                      then linkCapturePictureCallback
                        (if nLastPicCallbackSystime m \<le> 0 then m\<lparr>nLastPicCallbackSystime := frPictureNow e\<rparr> else m)
                        (c_div now 1000000)
                      else m)
             in and_then (pushFrame up e m d t True isKey now (changed \<or> isSegStart)) (afterPush up e now)))"

definition PushAudio ::
    "'u LinkTsUploader \<Rightarrow> FrameEnv \<Rightarrow> 'u FFTsMuxUploader \<Rightarrow> bytes \<Rightarrow> int \<Rightarrow> int \<Rightarrow> (int \<times> 'u FFTsMuxUploader) run" where
  "PushAudio up e m d t frameTime =
     (let now = frameSysTime e frameTime; m = m\<lparr>nLastAudioFrameTsForCheck := t\<rparr> in
      if isPause m then Inr (LINK_PAUSED, m)
      else and_then (checkSwitch up e m t False False now False []) (\<lambda>(ret, _, m).
        if ret \<noteq> 0 then Inr (ret, m)
        else if nKeyFrameCount m = 0 then Inr (0, m)
        else and_then (pushFrame up e m d t False False now False) (afterPush up e now)))"

text \<open>\<open>None\<close> stands for a null pointer.\<close>

definition LinkPushVideo ::
    "'u LinkTsUploader \<Rightarrow> FrameEnv \<Rightarrow> 'u FFTsMuxUploader \<Rightarrow> bytes option \<Rightarrow> int \<Rightarrow> bool \<Rightarrow> bool \<Rightarrow> int
      \<Rightarrow> (int \<times> 'u FFTsMuxUploader) run" where
  "LinkPushVideo up e m d t isKey isSegStart frameTime =
     (case d of
        None \<Rightarrow> Inr (LINK_ARG_ERROR, m)
      | Some d \<Rightarrow> if d = [] then Inr (LINK_ARG_ERROR, m) else PushVideo up e m d t isKey isSegStart frameTime)"

definition LinkPushAudio ::
    "'u LinkTsUploader \<Rightarrow> FrameEnv \<Rightarrow> 'u FFTsMuxUploader \<Rightarrow> bytes option \<Rightarrow> int \<Rightarrow> int
      \<Rightarrow> (int \<times> 'u FFTsMuxUploader) run" where
  "LinkPushAudio up e m d t frameTime =
     (case d of
        None \<Rightarrow> Inr (LINK_ARG_ERROR, m)
      | Some d \<Rightarrow> if d = [] then Inr (LINK_ARG_ERROR, m) else PushAudio up e m d t frameTime)"

definition LinkPauseUpload :: "'u LinkTsUploader \<Rightarrow> FrameEnv \<Rightarrow> 'u FFTsMuxUploader \<Rightarrow> (int \<times> 'u FFTsMuxUploader) run" where
  "LinkPauseUpload up e m =
     and_then (switchTs up e (m\<lparr>isPause := True, nKeyFrameCount := 0, nFrameCount := 0\<rparr>)
         (nLastVideoFrameTsForCheckSysTime m)) (\<lambda>m. Inr (LINK_SUCCESS, m))"

definition LinkResumeUpload :: "'u FFTsMuxUploader \<Rightarrow> int \<times> 'u FFTsMuxUploader" where
  "LinkResumeUpload m = (LINK_SUCCESS, m\<lparr>isPause := False\<rparr>)"

definition LinkFlushUploader :: "'u LinkTsUploader \<Rightarrow> FrameEnv \<Rightarrow> 'u FFTsMuxUploader \<Rightarrow> 'u FFTsMuxUploader run" where
  "LinkFlushUploader up e m =
     (if queueType m \<noteq> TSQ_APPEND_FIX then Inr m
      else and_then (switchTs up e m (nLastVideoFrameTsForCheckSysTime m)) (\<lambda>m.
        Inr (m\<lparr>nKeyFrameCount := 0, nFrameCount := 0\<rparr>)))"

text \<open>The context goes to the deferred destruction, which is the first result.\<close>

definition pushRecycle ::
    "'u LinkTsUploader \<Rightarrow> FrameEnv \<Rightarrow> 'u FFTsMuxUploader \<Rightarrow> ('u FFTsMuxContext option \<times> 'u FFTsMuxUploader) run" where
  "pushRecycle up e m =
     (case pTsMuxCtx m of
        None \<Rightarrow> Inr (None, m)
      | Some _ \<Rightarrow> and_then (switchTs up e m 0) (\<lambda>m. Inr (pTsMuxCtx m, m\<lparr>pTsMuxCtx := None\<rparr>)))"

definition LinkDestroyTsMuxUploader ::
    "'u LinkTsUploader \<Rightarrow> FrameEnv \<Rightarrow> 'u FFTsMuxUploader \<Rightarrow> ('u FFTsMuxContext option \<times> 'u FFTsMuxUploader) run" where
  "LinkDestroyTsMuxUploader up e m = pushRecycle up e (m\<lparr>isQuit := True\<rparr>)"

subsection \<open>Entry points that reach the segment uploader\<close>

record StartEnv =
  stUploader :: NewUploaderEnv
  stContext :: bool
  stMuxer :: bool
  stMutex :: int

text \<open>The uploader is set up with packets of 188 bytes; the multiplexer's output goes to it.\<close>

definition newTsMuxContext ::
    "StartEnv \<Rightarrow> KodoUploader FFTsMuxUploader \<Rightarrow> int \<Rightarrow> (int \<times> KodoUploader FFTsMuxContext option) run" where
  "newTsMuxContext e m nQBufSize =
     (if \<not> stContext e then Inr (LINK_NO_MEMORY, None)
      else and_then (LinkNewTsUploader (stUploader e) (hasUpdateCb m) (argTsMaxSize m) (queueType m) 188
               (c_div nQBufSize 188) (argKeeper m)) (\<lambda>(ret, k). case k of
          None \<Rightarrow> Inr (ret, None)
        | Some k \<Rightarrow>
            (case LinkNewTsMuxerContext (stMuxer e) (stMutex e)
                    \<lparr>LinkTsMuxerArg.nAudioFormat = LinkMediaArg.nAudioFormat (avArg m), nAudioSampleRate = nSamplerate (avArg m),
                     nAudioChannels = nChannels (avArg m), LinkTsMuxerArg.nVideoFormat = LinkMediaArg.nVideoFormat (avArg m)\<rparr> of
               (ret, None) \<Rightarrow> Inr (ret, None)
             | (_, Some c) \<Rightarrow> Inr (LINK_SUCCESS, Some \<lparr>pTsUploader = k, pFmtCtx = Some c,
                   nPrevAudioTimestamp = 0, nPrevVideoTimestamp = 0\<rparr>))))"

definition LinkTsMuxUploaderStart ::
    "StartEnv \<Rightarrow> KodoUploader FFTsMuxUploader \<Rightarrow> (int \<times> KodoUploader FFTsMuxUploader) run" where
  "LinkTsMuxUploaderStart e m =
     (if pTsMuxCtx m \<noteq> None then Inl Assertion_failed
      else let nBufsize = (if 1024 * 100 < argTsMaxSize m then argTsMaxSize m else getBufferSize) in
        and_then (newTsMuxContext e m nBufsize) (\<lambda>(ret, x). case x of
          None \<Rightarrow> Inr (ret, m)
        | Some x \<Rightarrow> Inr (ret, m\<lparr>pTsMuxCtx :=
            Some (x\<lparr>pTsUploader := LinkTsUploaderSetTsEndUploadCallback (pTsUploader x) True\<rparr>)\<rparr>)))"

definition onUploader ::
    "(KodoUploader \<Rightarrow> 'r \<times> KodoUploader) \<Rightarrow> 'r \<Rightarrow> KodoUploader FFTsMuxUploader \<Rightarrow> 'r \<times> KodoUploader FFTsMuxUploader" where
  "onUploader f r m =
     (case pTsMuxCtx m of
        None \<Rightarrow> (r, m)
      | Some x \<Rightarrow> (case f (pTsUploader x) of (r, k) \<Rightarrow> (r, m\<lparr>pTsMuxCtx := Some (x\<lparr>pTsUploader := k\<rparr>)\<rparr>)))"

definition LinkPushPicture ::
    "bool \<Rightarrow> KodoUploader FFTsMuxUploader \<Rightarrow> bytes \<Rightarrow> bytes \<Rightarrow> int \<times> KodoUploader FFTsMuxUploader" where
  "LinkPushPicture ok m name buf =
     (if \<not> hasPicUploader m then (LINK_NOT_INITED, m)
      else onUploader (\<lambda>k. LinkTsUploaderPushPic ok k name buf) LINK_NOT_INITED m)"

definition LinkUploaderSetTsOutputCallback ::
    "KodoUploader FFTsMuxUploader \<Rightarrow> bool \<Rightarrow> KodoUploader FFTsMuxUploader" where
  "LinkUploaderSetTsOutputCallback m cb =
     snd (onUploader (\<lambda>k. ((), LinkTsUploaderSetTsCallback k cb (avArg m))) () m)"

text \<open>\<open>ok2\<close> and \<open>ok3\<close> say whether the two copies of the metadata could be made.\<close>

definition LinkSetTsType ::
    "bool \<Rightarrow> bool \<Rightarrow> KodoUploader FFTsMuxUploader \<Rightarrow> LinkSessionMeta option \<Rightarrow> int \<times> KodoUploader FFTsMuxUploader" where
  "LinkSetTsType ok2 ok3 m metas =
     (case metas of
        None \<Rightarrow> (LINK_ARG_ERROR, m)
      | Some metas \<Rightarrow> onUploader (\<lambda>k. if ok2 \<and> ok3 then (LINK_SUCCESS, LinkSetSessionMeta k metas metas) else (-1, k))
          LINK_SUCCESS m)"

definition LinkClearTsType :: "KodoUploader FFTsMuxUploader \<Rightarrow> KodoUploader FFTsMuxUploader" where
  "LinkClearTsType m = snd (onUploader (\<lambda>k. ((), LinkClearSessionMeta k)) () m)"

definition LinkSetTsBuffer ::
    "KodoUploader FFTsMuxUploader \<Rightarrow> int \<Rightarrow> bool \<Rightarrow> (int \<times> KodoUploader FFTsMuxUploader) run" where
  "LinkSetTsBuffer m nSize isFix =
     (case pTsMuxCtx m of
        None \<Rightarrow> Inr (LINK_SUCCESS, m)
      | Some x \<Rightarrow> and_then (LinkSetTsCacheBufferInitSize (pTsUploader x) nSize isFix) (\<lambda>k.
          Inr (LINK_SUCCESS, m\<lparr>pTsMuxCtx := Some (x\<lparr>pTsUploader := k\<rparr>)\<rparr>)))"

text \<open>The second result says whether the uploader's mutex was given back: without a context it is not.\<close>

definition getUploaderBufferUsedSize ::
    "KodoUploader FFTsMuxUploader \<Rightarrow> LinkUploaderStatInfo \<Rightarrow> (int \<times> bool) run" where
  "getUploaderBufferUsedSize m info =
     (case pTsMuxCtx m of
        None \<Rightarrow> Inr (0, False)
      | Some x \<Rightarrow> and_then (getUploaderStatInfo (pTsUploader x) info) (\<lambda>info. Inr (nStatCap info, True)))"

end
