(* ===== verification/SegmentCutting.thy ===== *)
theory SegmentCutting
  imports FrameEntry MuxSimulation
begin

section \<open>When a segment ends\<close>

text \<open>
  Properties of the frame entry: the search for parameter sets ends on every frame, stores what it found and reads past
  frames that lack what it looks for; the reports of a segment's start and end alternate in every run.
\<close>

subsection \<open>The search for parameter sets\<close>

abbreviation (input) start_code :: bytes where "start_code \<equiv> [0x00, 0x00, 0x01]"

lemma start_code_search:
  obtains k where "LinkInitKmp start_code = Some (0, k)"
    and "\<And>s. LinkFindPatternIndex k s = Some (if length s < 3 then -1 else first_occurrence start_code s)"
  by (rule kmp_ready [of start_code]) simp_all

lemma first_occurrence_nonneg:
  assumes "0 \<le> first_occurrence p s"
  shows "occurs p s (nat (first_occurrence p s))"
  using assms by (auto simp: first_occurrence_def split: if_splits intro: LeastI)

lemma first_occurrence_none:
  assumes "first_occurrence p s < 0"
  shows "\<not> occurs p s m"
  using assms by (auto simp: first_occurrence_def split: if_splits)

lemma occurs_drop: "occurs p (drop i d) m \<Longrightarrow> i \<le> length d \<Longrightarrow> p \<noteq> [] \<Longrightarrow> occurs p d (i + m)"
  by (auto simp: occurs_def add.commute)

text \<open>One step of the search: either nothing is found, or a unit starts behind a start code.\<close>

lemma spsScan_step [consumes 2]:
  assumes k: "\<And>s. LinkFindPatternIndex k s = Some (if length s < 3 then -1 else first_occurrence start_code s)"
    and i: "i \<le> length d"
  obtains (none) "spsScan k f d i start = Some (if i = 0 then Inr None else Inl Out_of_bounds)"
      "\<And>m. \<not> occurs start_code (drop i d) m"
  | (last) p where "i + 3 \<le> p" "occurs start_code d (p - 3)" "length d \<le> p" "spsScan k f d i start = Some (Inl Out_of_bounds)"
  | (sps) p where "i + 3 \<le> p" "occurs start_code d (p - 3)" "p < length d" "isTypeSPS f (getNaluType f (d ! p))"
      "spsScan k f d i start = spsScan k f d p (Some p)"
  | (other) p where "i + 3 \<le> p" "occurs start_code d (p - 3)" "p < length d" "\<not> isTypeSPS f (getNaluType f (d ! p))"
      "spsScan k f d i start = (case start of None \<Rightarrow> spsScan k f d p None
         | Some s \<Rightarrow> Some (Inr (Some (s, int p - int s - 3 - (if d ! (p - 4) = 0 then 1 else 0)))))"
proof -
  define pos where "pos = (if length (drop i d) < 3 then -1 else first_occurrence start_code (drop i d))"
  have eq: "spsScan k f d i start = (if pos < 0 then Some (if i = 0 then Inr None else Inl Out_of_bounds)
      else let p = i + nat pos + 3 in
            if length d \<le> p then Some (Inl Out_of_bounds)
            else if isTypeSPS f (getNaluType f (d ! p)) then spsScan k f d p (Some p)
            else (case start of
                None \<Rightarrow> spsScan k f d p None
              | Some s \<Rightarrow> Some (Inr (Some (s, int p - int s - 3 - (if d ! (p - 4) = 0 then 1 else 0))))))"
    by (subst spsScan.simps) (simp add: k pos_def cong: if_cong)
  show ?thesis
  proof (cases "pos < 0")
    case True
    moreover have "\<not> occurs start_code (drop i d) m" for m
      using True first_occurrence_none [of start_code "drop i d"]
      by (auto simp: pos_def occurs_def split: if_splits)
    ultimately show ?thesis
      using eq none by simp
  next
    case False
    define p where "p = i + nat pos + 3"
    have "occurs start_code (drop i d) (nat pos)"
      using False first_occurrence_nonneg [of start_code "drop i d"] by (auto simp: pos_def split: if_splits)
    then have occ: "occurs start_code d (p - 3)"
      using occurs_drop [of start_code i d "nat pos"] i by (simp add: p_def)
    have ip: "i + 3 \<le> p"
      by (simp add: p_def)
    show ?thesis
      using False eq last [OF ip occ] sps [OF ip occ] other [OF ip occ]
      unfolding p_def [symmetric] Let_def by (cases "length d \<le> p"; cases "isTypeSPS f (getNaluType f (d ! p))") auto
  qed
qed

text \<open>What a search that ends with a parameter set has found.\<close>

definition sps_at :: "LinkVideoFormat \<Rightarrow> bytes \<Rightarrow> nat \<Rightarrow> bool" where
  "sps_at f d s \<longleftrightarrow> 3 \<le> s \<and> s < length d \<and> occurs start_code d (s - 3) \<and> isTypeSPS f (getNaluType f (d ! s))"

lemma spsScan_ends:
  assumes k: "\<And>s. LinkFindPatternIndex k s = Some (if length s < 3 then -1 else first_occurrence start_code s)"
    and "i \<le> length d" and "\<And>s. start = Some s \<Longrightarrow> sps_at f d s \<and> s \<le> i"
  shows "\<exists>r. spsScan k f d i start = Some r \<and>
    (r = Inl Out_of_bounds \<or> r = Inr None \<or>
     (\<exists>s n. r = Inr (Some (s, n)) \<and> sps_at f d s \<and> 0 \<le> n \<and> int s + n \<le> int (length d)))"
  using assms(2,3)
proof (induction "length d - i" arbitrary: i start rule: less_induct)
  case less
  from k less.prems(1) show ?case
  proof (cases rule: spsScan_step [where k = k and f = f and start = start])
    case (sps p)
    have "sps_at f d p"
      using sps by (simp add: sps_at_def)
    then show ?thesis
      using less.hyps [of p "Some p"] sps by simp
  next
    case (other p)
    show ?thesis
    proof (cases start)
      case None
      then show ?thesis
        using less.hyps [of p None] other by simp
    next
      case (Some s)
      have s: "sps_at f d s" "s \<le> i"
        using less.prems(2) [OF Some] by simp_all
      have "start_code ! 2 = d ! (s - 3 + 2)"
        using s(1) by (simp only: sps_at_def occurs_nth) (simp add: All_less_Suc)
      moreover have "s - 3 + 2 = s - 1" and "s + 3 - 4 = s - 1"
        using s(1) by (auto simp: sps_at_def)
      ultimately have "p = s + 3 \<Longrightarrow> d ! (p - 4) \<noteq> 0"
        by (metis nth_Cons_0 nth_Cons_numeral one_neq_zero nth_Cons_Suc numeral_2_eq_2)
      then show ?thesis
        using s Some other by (cases "p = s + 3") auto
    qed
  qed auto
qed


lemma getVideoSps_cases:
  obtains (fault) "getVideoSpsAndCompare e m d = Inl Out_of_bounds"
  | (none) ret where "getVideoSpsAndCompare e m d = Inr (ret, False, m)" "ret \<in> {-1, -2}"
  | (found) s n where "sps_at (LinkMediaArg.nVideoFormat (avArg m)) d s" "s + n \<le> length d"
      "getVideoSpsAndCompare e m d = Inr (compareVideoMeta e m (take n (drop s d)))"
proof -
  define f where "f = LinkMediaArg.nVideoFormat (avArg m)"
  obtain k where k: "LinkInitKmp start_code = Some (0, k)"
    "\<And>s. LinkFindPatternIndex k s = Some (if length s < 3 then -1 else first_occurrence start_code s)"
    by (rule start_code_search) blast
  obtain r where r: "spsScan k f d 0 None = Some r" and
    cases: "r = Inl Out_of_bounds \<or> r = Inr None \<or>
      (\<exists>s n. r = Inr (Some (s, n)) \<and> sps_at f d s \<and> 0 \<le> n \<and> int s + n \<le> int (length d))"
    using spsScan_ends [OF k(2), of 0 d None f] by auto
  have eq: "getVideoSpsAndCompare e m d =
      (if f \<noteq> LINK_VIDEO_H264 \<and> f \<noteq> LINK_VIDEO_H265 then Inr (-2, False, m)
       else and_then r (\<lambda>found. case found of
              None \<Rightarrow> Inr (-1, False, m)
            | Some (s, nMetaLen) \<Rightarrow>
                if nMetaLen < 0 then Inl Out_of_bounds
                else Inr (compareVideoMeta e m (take (nat nMetaLen) (drop s d)))))"
    unfolding getVideoSpsAndCompare_def k(1) option.case prod.case f_def [symmetric] r by (rule refl)
  show ?thesis
  proof (cases "f \<noteq> LINK_VIDEO_H264 \<and> f \<noteq> LINK_VIDEO_H265")
    case True
    then show ?thesis
      using eq by (intro none) auto
  next
    case False
    from cases show ?thesis
    proof (elim disjE exE conjE)
      fix s n assume s: "r = Inr (Some (s, n))" "sps_at f d s" "0 \<le> n" "int s + n \<le> int (length d)"
      have le: "s + nat n \<le> length d"
        using s by linarith
      have "getVideoSpsAndCompare e m d = Inr (compareVideoMeta e m (take (nat n) (drop s d)))"
        unfolding eq if_not_P [OF False] s(1) using s(3) by simp
      then show ?thesis
        by (rule found [OF s(2) [unfolded f_def] le])
    qed (use False eq in \<open>auto intro: fault none\<close>)
  qed
qed

text \<open>
  Looking for parameter sets ends on every frame. It faults only by reading past the frame; when it
  succeeds, what is kept is the frame's bytes from behind the parameter set's start code up to
  the next one, and a change is reported exactly when other parameter sets were kept before.
\<close>

theorem parameter_set_scan:
  "case getVideoSpsAndCompare e m d of
     Inl f \<Rightarrow> f = Out_of_bounds
   | Inr (ret, changed, m') \<Rightarrow>
       ret \<in> {0, -1, -2, LINK_NO_MEMORY} \<and>
       (ret = 0 \<longrightarrow> (\<exists>s n. sps_at (LinkMediaArg.nVideoFormat (avArg m)) d s \<and> s + n \<le> length d \<and>
          pVideoMeta m' = Some (take n (drop s d)) \<and>
          (changed \<longleftrightarrow> pVideoMeta m \<noteq> None \<and> pVideoMeta m' \<noteq> pVideoMeta m)))"
proof (cases rule: getVideoSps_cases [of e m d])
  case (found s n)
  then show ?thesis
    by (auto simp: compareVideoMeta_def saveVideoMeta_def split: option.split)
qed auto

definition h264_media :: LinkMediaArg where
  "h264_media = \<lparr>LinkMediaArg.nAudioFormat = LINK_AUDIO_PCMU, nChannels = 1, nSamplerate = 8000,
     nVideoFormat = LINK_VIDEO_H264\<rparr>"

definition someKeeper :: SessionKeeper where
  "someKeeper = \<lparr>nSegmentId = 0, nSegSeqNum = 0, nLastCheckTime = 0, keeperSessionId = [], segmentHandle = 0,
     nSessionDuration = 100000, nSessionTimeout = 3000, updates = [], reports = []\<rparr>"

definition someEnv :: FrameEnv where
  "someEnv = \<lparr>frNow = 1, frSwitchNow = 1, frPictureNow = 1, frAac = None, frSps = True, frMutex = 0, frReserved = 0\<rparr>"

definition h264_key_frame :: bytes where
  "h264_key_frame = [0, 0, 0, 1, 0x67, 1, 0, 0, 0, 1, 0x68, 2, 0, 0, 1, 0x65, 3]"

theorem parameter_set_scan_witness:
  "\<exists>m' s n. getVideoSpsAndCompare someEnv (freshFrames h264_media 0 True someKeeper :: unit FFTsMuxUploader)
       h264_key_frame = Inr (0, False, m') \<and>
     sps_at LINK_VIDEO_H264 h264_key_frame s \<and> pVideoMeta m' = Some (take n (drop s h264_key_frame))"
proof -
  let ?r = "getVideoSpsAndCompare someEnv (freshFrames h264_media 0 True someKeeper :: unit FFTsMuxUploader) h264_key_frame"
  have "case ?r of Inl _ \<Rightarrow> False | Inr (ret, ch, _) \<Rightarrow> ret = 0 \<and> \<not> ch"
    by code_simp
  then obtain m' where r: "?r = Inr (0, False, m')"
    by (auto split: sum.splits prod.splits)
  show ?thesis
    using parameter_set_scan [where e = someEnv and d = h264_key_frame
      and m = "freshFrames h264_media 0 True someKeeper :: unit FFTsMuxUploader"]
    unfolding r by (auto simp: freshFrames_def h264_media_def)
qed

text \<open>
  A key frame in which no unit that starts behind a start code is taken for parameter sets (type 8 for
  H.264) is read past its end, as soon as it has a start code.
\<close>

lemma spsScan_overread:
  assumes k: "\<And>s. LinkFindPatternIndex k s = Some (if length s < 3 then -1 else first_occurrence start_code s)"
    and "i \<le> length d" and "0 < i \<or> occurs start_code d n"
    and "\<And>m. occurs start_code d m \<Longrightarrow> m + 3 < length d \<Longrightarrow> \<not> isTypeSPS f (getNaluType f (d ! (m + 3)))"
  shows "spsScan k f d i None = Some (Inl Out_of_bounds)"
  using assms(2-)
proof (induction "length d - i" arbitrary: i rule: less_induct)
  case less
  from k less.prems(1) show ?case
  proof (cases rule: spsScan_step [where k = k and f = f and start = None])
    case none
    have "0 < i"
      using none(2) [of n] less.prems(2) by (cases i) auto
    then show ?thesis
      using none by simp
  next
    case (sps p)
    then have "p - 3 + 3 = p"
      by simp
    then show ?thesis
      using less.prems(3) [OF sps(2)] sps by simp
  next
    case (other p)
    have "spsScan k f d p None = Some (Inl Out_of_bounds)"
      using other less.prems(3) by (intro less.hyps) auto
    then show ?thesis
      using other by simp
  qed simp
qed

theorem key_frame_without_parameter_sets:
  assumes "LinkMediaArg.nVideoFormat (avArg m) \<in> {LINK_VIDEO_H264, LINK_VIDEO_H265}" and "\<not> isPause m"
    and "occurs start_code d n"
    and "\<forall>i. occurs start_code d i \<and> i + 3 < length d \<longrightarrow>
      \<not> isTypeSPS (LinkMediaArg.nVideoFormat (avArg m)) (getNaluType (LinkMediaArg.nVideoFormat (avArg m)) (d ! (i + 3)))"
  shows "PushVideo up e m d t True isSegStart frameTime = Inl Out_of_bounds"
proof -
  obtain k where k: "LinkInitKmp start_code = Some (0, k)"
    "\<And>s. LinkFindPatternIndex k s = Some (if length s < 3 then -1 else first_occurrence start_code s)"
    by (rule start_code_search) blast
  have "spsScan k (LinkMediaArg.nVideoFormat (avArg m)) d 0 None = Some (Inl Out_of_bounds)"
    using assms(3,4) by (intro spsScan_overread [OF k(2), of 0 d n]) auto
  then have "getVideoSpsAndCompare e (m\<lparr>nLastVideoFrameTsForCheck := t, nLastVideoFrameTsForCheckSysTime := s\<rparr>) d
      = Inl Out_of_bounds" for s
    using assms(1) k(1) by (auto simp: getVideoSpsAndCompare_def)
  then show ?thesis
    using assms(2) by (simp add: PushVideo_def Let_def checkSwitch_def)
qed


theorem key_frame_without_parameter_sets_witness:
  "PushVideo (kodo_ops \<lparr>metaOk = True, poolOk = True, structOk = True, mutexRet = 0, condRet = 0\<rparr>) someEnv (freshFrames h264_media 0 True someKeeper) [0, 0, 1, 0x65, 9, 9, 9] 40 True False 0 = Inl Out_of_bounds"
proof -
  have "\<not> isTypeSPS LINK_VIDEO_H264 (getNaluType LINK_VIDEO_H264 ([0, 0, 1, 0x65, 9, 9, 9 :: u8] ! (i + 3)))"
    if "i + 3 < 7" "occurs start_code [0, 0, 1, 0x65, 9, 9, 9] i" for i
  proof -
    have "i = 0 \<or> i = 1 \<or> i = 2 \<or> i = 3"
      using that(1) by auto
    then show ?thesis
      using that(2) by (auto simp: isTypeSPS_def getNaluType_def occurs_def)
  qed
  then show ?thesis
    by (intro key_frame_without_parameter_sets [where n = 0])
       (auto simp: freshFrames_def h264_media_def occurs_def)
qed


subsection \<open>An uploader that keeps a log\<close>

text \<open>
  \<open>log_ops ans\<close> keeps everything it is told in order; \<open>ans\<close> answers a push from the log and the packet, in any
  way. \<open>track\<close> follows the reports: \<open>Some True\<close> between a segment's start and its end, \<open>Some False\<close> outside,
  \<open>None\<close> once two starts or two ends have followed each other.
\<close>

datatype upl_event =
    Pushed bytes
  | KeyFrame LinkKeyFrameMetaInfo
  | Reported LinkReportTimeInfo LinkUploaderTimeInfoType

definition log_ops :: "(upl_event list \<Rightarrow> bytes \<Rightarrow> int) \<Rightarrow> upl_event list LinkTsUploader" where
  "log_ops ans = \<lparr>Push = \<lambda>l d. Inr (ans l d, l @ [Pushed d]), ReportTimeInfo = \<lambda>l ti ty. Inr (l @ [Reported ti ty]),
     setKeyframeMetaInfo = \<lambda>l i. l @ [KeyFrame i]\<rparr>"

fun track :: "bool option \<Rightarrow> upl_event \<Rightarrow> bool option" where
  "track (Some False) (Reported ti LINK_TS_START) = Some True"
| "track (Some True) (Reported ti LINK_TS_END) = Some False"
| "track p (Reported ti LINK_SEG_TIMESTAMP) = p"
| "track p (Pushed d) = p"
| "track p (KeyFrame i) = p"
| "track p e = None"

fun is_data :: "upl_event \<Rightarrow> bool" where
  "is_data (Reported ti ty) = False"
| "is_data (Pushed d) = True"
| "is_data (KeyFrame i) = True"

lemma track_data: "\<forall>e \<in> set es. is_data e \<Longrightarrow> foldl track p es = p"
proof (induction es)
  case (Cons e es)
  then show ?case
    by (cases e) auto
qed simp

text \<open>Multiplexing a frame adds data to the log and nothing else.\<close>

definition only_data :: "upl_event list \<Rightarrow> upl_event list run \<Rightarrow> upl_event list run \<Rightarrow> bool" where
  "only_data l0 s t \<longleftrightarrow> s = t \<and> (\<exists>es. s = Inr (l0 @ es) \<and> (\<forall>e \<in> set es. is_data e))"

interpretation log_sink: output_simulation "writeTsPacketToMem (log_ops ans)"
    "\<lambda>s i. and_then s (\<lambda>u. Inr (setKeyframeMetaInfo (log_ops ans) u i))"
    "writeTsPacketToMem (log_ops ans)" "\<lambda>s i. and_then s (\<lambda>u. Inr (setKeyframeMetaInfo (log_ops ans) u i))"
    "only_data l0" for ans l0
  by unfold_locales (force simp: only_data_def writeTsPacketToMem_def log_ops_def)+

definition ctx_ok :: "'u FFTsMuxContext \<Rightarrow> bool" where
  "ctx_ok x \<longleftrightarrow> (\<forall>c. pFmtCtx x = Some c \<longrightarrow> length (tsPacket c) = 188)"

lemma muxFrame_log:
  assumes run: "muxFrame (log_ops ans) x isVideo d t isKey = Inr (ret, x')" and ok: "ctx_ok x"
  shows "\<exists>es. pTsUploader x' = pTsUploader x @ es \<and> (\<forall>e \<in> set es. is_data e) \<and> ctx_ok x'"
proof -
  obtain c where c: "pFmtCtx x = Some c" "length (tsPacket c) = 188"
    using run ok by (auto simp: muxFrame_def ctx_ok_def split: option.splits)
  have R: "only_data (pTsUploader x) (Inr (pTsUploader x)) (Inr (pTsUploader x))"
    by (auto simp: only_data_def intro: exI [of _ "[]"])
  obtain s c' where m: "(if isVideo
        then LinkMuxerVideo (writeTsPacketToMem (log_ops ans)) (keyframeMeta (log_ops ans)) (Inr (pTsUploader x)) c d t isKey
        else LinkMuxerAudio (writeTsPacketToMem (log_ops ans)) (keyframeMeta (log_ops ans)) (Inr (pTsUploader x)) c d t)
      = Inr (ret, s, c')" and s: "and_then s (\<lambda>u. Inr (ret, x\<lparr>pTsUploader := u, pFmtCtx := Some c'\<rparr>)) = Inr (ret, x')"
    using run c(1) by (auto simp: muxFrame_def and_then_eq_Inr)
  have "only_data (pTsUploader x) s s"
    using m log_sink.LinkMuxerVideo_sim [OF R c(2), of ans d t isKey] log_sink.LinkMuxerAudio_sim [OF R c(2), of ans d t]
    by (auto simp: keyframeMeta_def split: if_splits)
  moreover have "length (tsPacket c') = 188"
    using m c(2) by (auto dest: muxer_keeps_packet split: if_splits)
  ultimately show ?thesis
    using s by (auto simp: only_data_def ctx_ok_def)
qed


subsection \<open>The reports of a run\<close>

definition log_of :: "upl_event list FFTsMuxUploader \<Rightarrow> upl_event list" where
  "log_of m = (case pTsMuxCtx m of None \<Rightarrow> [] | Some x \<Rightarrow> pTsUploader x)"

definition no_end :: "upl_event list \<Rightarrow> bool" where
  "no_end es \<longleftrightarrow> (\<forall>ti. Reported ti LINK_TS_END \<notin> set es)"

text \<open>A segment is open for the uploader exactly when the entry has a first time stamp.\<close>

definition entry_inv :: "upl_event list FFTsMuxUploader \<Rightarrow> bool" where
  "entry_inv m \<longleftrightarrow> queueType m = TSQ_APPEND_FIX \<and> (\<forall>x. pTsMuxCtx m = Some x \<longrightarrow>
     ctx_ok x \<and> foldl track (Some False) (pTsUploader x) = Some (0 \<le> nFirstFrameTimestamp m))"

lemma no_end_data: "\<forall>e \<in> set es. is_data e \<Longrightarrow> no_end es"
  by (force simp: no_end_def)

lemma no_end_append [simp]: "no_end (es @ es') \<longleftrightarrow> no_end es \<and> no_end es'"
  by (auto simp: no_end_def)

lemma no_end_Nil [simp]: "no_end []"
  by (simp add: no_end_def)

lemma no_end_start [simp]: "no_end [Reported ti LINK_TS_START]" "no_end [Reported ti LINK_SEG_TIMESTAMP]"
  by (simp_all add: no_end_def)

lemma report_log:
  assumes "report (log_ops ans) m ti ty = Inr m'"
  obtains x where "pTsMuxCtx m = Some x" "m' = m\<lparr>pTsMuxCtx := Some (x\<lparr>pTsUploader := pTsUploader x @ [Reported ti ty]\<rparr>)\<rparr>"
  using assms by (auto simp: report_def log_ops_def split: option.splits)

lemma freshContext_packet: "length (tsPacket (freshContext a)) = 188"
  by (simp add: freshContext_def)

lemma switchTs_log:
  assumes run: "switchTs (log_ops ans) e m t = Inr m'" and inv: "entry_inv m"
  shows "entry_inv m'" and "log_of m' = log_of m @ (if pTsMuxCtx m \<noteq> None \<and> 0 \<le> nFirstFrameTimestamp m
      then [Reported (getLinkReportTimeInfo e m (if t \<le> 0 then frSwitchNow e else t)) LINK_TS_END] else [])"
proof -
  have "entry_inv m' \<and> log_of m' = log_of m @ (if pTsMuxCtx m \<noteq> None \<and> 0 \<le> nFirstFrameTimestamp m
      then [Reported (getLinkReportTimeInfo e m (if t \<le> 0 then frSwitchNow e else t)) LINK_TS_END] else [])"
  proof (cases "pTsMuxCtx m")
    case None
    then show ?thesis
      using run inv by (simp add: switchTs_def log_of_def)
  next
    case (Some x)
    define ti where "ti = getLinkReportTimeInfo e m (if t \<le> 0 then frSwitchNow e else t)"
    define x1 where "x1 = (if 0 \<le> nFirstFrameTimestamp m then x\<lparr>pTsUploader := pTsUploader x @ [Reported ti LINK_TS_END]\<rparr> else x)"
    have rep: "(if queueType m = TSQ_APPEND_FIX \<and> 0 \<le> nFirstFrameTimestamp m
        then report (log_ops ans) m ti LINK_TS_END else Inr m) = Inr (m\<lparr>pTsMuxCtx := Some x1\<rparr>)"
      using Some inv by (auto simp: report_def log_ops_def x1_def entry_inv_def)
    obtain c where c: "pFmtCtx x1 = Some c"
      and m': "m' = resetTimeInfo (m\<lparr>pTsMuxCtx := Some (x1\<lparr>pFmtCtx := snd (LinkResetTsMuxerContext (frMutex e) c)\<rparr>)\<rparr>)"
      using run unfolding switchTs_def Some option.case Let_def ti_def [symmetric] rep and_then_Inr
      by (auto split: option.splits)
    have "foldl track (Some False) (pTsUploader x1) = Some False"
      using inv Some by (auto simp: x1_def entry_inv_def)
    then show ?thesis
      using inv Some unfolding m' ti_def [symmetric]
      by (auto simp: entry_inv_def log_of_def resetTimeInfo_def ctx_ok_def LinkResetTsMuxerContext_def
          freshContext_packet x1_def split: if_splits)
  qed
  then show "entry_inv m'" and "log_of m' = log_of m @ (if pTsMuxCtx m \<noteq> None \<and> 0 \<le> nFirstFrameTimestamp m
      then [Reported (getLinkReportTimeInfo e m (if t \<le> 0 then frSwitchNow e else t)) LINK_TS_END] else [])"
    by blast+
qed

lemma frameAccepted_log:
  assumes run: "frameAccepted (log_ops ans) e m t isVideo s force = Inr m'" and inv: "entry_inv m" and t: "0 \<le> t"
  shows "entry_inv m' \<and> (\<exists>es. log_of m' = log_of m @ es \<and> no_end es)"
proof -
  let ?ti = "getLinkReportTimeInfo e m s"
  obtain m1 m2 where m1: "(if force then report (log_ops ans) m ?ti LINK_SEG_TIMESTAMP else Inr m) = Inr m1"
    and m2: "(if nFirstFrameTimestamp m1 < 0
        then and_then (report (log_ops ans) m1 ?ti LINK_TS_START) (\<lambda>m. Inr (m\<lparr>nFirstFrameTimestamp := t\<rparr>)) else Inr m1) = Inr m2"
    and m': "pTsMuxCtx m' = pTsMuxCtx m2" "nFirstFrameTimestamp m' = nFirstFrameTimestamp m2" "queueType m' = queueType m2"
    using run by (auto simp: frameAccepted_def Let_def and_then_eq_Inr)
  have 1: "entry_inv m1 \<and> (\<exists>es. log_of m1 = log_of m @ es \<and> no_end es)"
    using m1 inv by (auto simp: entry_inv_def log_of_def ctx_ok_def elim!: report_log split: if_splits)
  have 2: "entry_inv m2 \<and> (\<exists>es. log_of m2 = log_of m1 @ es \<and> no_end es)"
    using m2 1 t by (auto simp: entry_inv_def log_of_def ctx_ok_def and_then_eq_Inr elim!: report_log split: if_splits)
  have "entry_inv m' \<longleftrightarrow> entry_inv m2" "log_of m' = log_of m2"
    using m' by (auto simp: entry_inv_def log_of_def)
  then show ?thesis
    using 1 2 by fastforce
qed


text \<open>\<open>extends_log m m'\<close>: the invariant holds and the log grew without a segment's end.\<close>

definition extends_log :: "upl_event list FFTsMuxUploader \<Rightarrow> upl_event list FFTsMuxUploader \<Rightarrow> bool" where
  "extends_log m m' \<longleftrightarrow> entry_inv m' \<and> (\<exists>es. log_of m' = log_of m @ es \<and> no_end es)"

lemma extends_log_trans: "extends_log m m' \<Longrightarrow> extends_log m' m'' \<Longrightarrow> extends_log m m''"
  by (fastforce simp: extends_log_def)

lemma extends_log_refl: "entry_inv m \<Longrightarrow> extends_log m m"
  by (auto simp: extends_log_def intro: exI [of _ "[]"])

lemma aacFrame_state: "aacFrame e m d = Inr (ret, d', m') \<Longrightarrow> \<exists>b. m' = m\<lparr>pAACBuf := b\<rparr>"
  by (auto simp: aacFrame_def Let_def and_then_eq_Inr split: option.splits if_splits)

text \<open>Changes outside the log and the invariant.\<close>

lemma same_log:
  assumes "pTsMuxCtx m' = pTsMuxCtx m" and "nFirstFrameTimestamp m' = nFirstFrameTimestamp m"
    and "queueType m' = queueType m" and "entry_inv m"
  shows "extends_log m m'"
  using assms by (auto simp: extends_log_def entry_inv_def log_of_def)

lemma muxFrame_extends:
  assumes run: "muxFrame (log_ops ans) x isVideo d t isKey = Inr (ret, x')"
    and ctx: "pTsMuxCtx m = Some x0" "pTsUploader x = pTsUploader x0" "pFmtCtx x = pFmtCtx x0"
    and x'': "pTsUploader x'' = pTsUploader x'" "pFmtCtx x'' = pFmtCtx x'" and inv: "entry_inv m"
  shows "extends_log m (m\<lparr>pTsMuxCtx := Some x''\<rparr>)"
proof -
  have "ctx_ok x"
    using ctx inv by (auto simp: entry_inv_def ctx_ok_def)
  then obtain es where "pTsUploader x' = pTsUploader x @ es" "\<forall>e \<in> set es. is_data e" "ctx_ok x'"
    using muxFrame_log [OF run] by blast
  then show ?thesis
    using ctx x'' inv by (auto simp: extends_log_def entry_inv_def log_of_def ctx_ok_def track_data no_end_data)
qed

lemma pushFrame_log:
  assumes run: "pushFrame (log_ops ans) e m d t isVideo isKey s force = Inr (ret, m')"
    and inv: "entry_inv m" and t: "0 \<le> t"
  shows "extends_log m m'"
proof (cases "pTsMuxCtx m")
  case None
  then show ?thesis
    using run inv by (simp add: pushFrame_def extends_log_refl)
next
  case (Some x)
  define finish where "finish = (\<lambda>m (ret :: int, x). let m = m\<lparr>pTsMuxCtx := Some x\<rparr> in
      if ret = 0 then and_then (frameAccepted (log_ops ans) e m t isVideo s force) (\<lambda>m. Inr (ret, m)) else Inr (ret, m))"
  have finished: "extends_log m1 m2"
    if "finish m1 (r, x1) = Inr (r', m2)" "extends_log m1 (m1\<lparr>pTsMuxCtx := Some x1\<rparr>)" for m1 m2 r r' x1
    using that frameAccepted_log [of ans e "m1\<lparr>pTsMuxCtx := Some x1\<rparr>" t isVideo s force m2] t
    by (fastforce simp: finish_def Let_def extends_log_def and_then_eq_Inr split: if_splits)
  show ?thesis
  proof (cases isVideo)
    case True
    have "m' = m \<or> (\<exists>r x1. muxFrame (log_ops ans) x True d t isKey = Inr (r, x1) \<and>
        finish m (r, x1\<lparr>nPrevVideoTimestamp := t\<rparr>) = Inr (ret, m'))"
    proof -
      have "pushFrame (log_ops ans) e m d t isVideo isKey s force =
          (if nPrevVideoTimestamp x \<noteq> 0 \<and> t - nPrevVideoTimestamp x \<le> 0 then Inr (0, m)
           else and_then (muxFrame (log_ops ans) x True d t isKey) (\<lambda>(ret, x). finish m (ret, x\<lparr>nPrevVideoTimestamp := t\<rparr>)))"
        unfolding pushFrame_def finish_def Some option.case Let_def using True by simp
      then show ?thesis
        using run by (cases "muxFrame (log_ops ans) x True d t isKey") (auto split: if_splits)
    qed
    then show ?thesis
    proof (elim disjE exE conjE)
      fix r x1
      assume mux: "muxFrame (log_ops ans) x True d t isKey = Inr (r, x1)"
        and fin: "finish m (r, x1\<lparr>nPrevVideoTimestamp := t\<rparr>) = Inr (ret, m')"
      show ?thesis
        by (intro finished [OF fin] muxFrame_extends [OF mux Some _ _ _ _ inv]) simp_all
    qed (use inv in \<open>auto intro: extends_log_refl\<close>)
  next
    case False
    let ?x = "x\<lparr>nPrevAudioTimestamp := t\<rparr>"
    let ?m = "m\<lparr>pTsMuxCtx := Some ?x\<rparr>"
    have m: "extends_log m ?m"
      using inv Some by (auto simp: extends_log_def entry_inv_def log_of_def ctx_ok_def)
    have "m' = m \<or> (\<exists>b. m' = ?m\<lparr>pAACBuf := b\<rparr>) \<or>
        (\<exists>b d1 r x1. muxFrame (log_ops ans) ?x False d1 t False = Inr (r, x1) \<and>
           finish (?m\<lparr>pAACBuf := b\<rparr>) (r, x1) = Inr (ret, m'))"
    proof (cases "nPrevAudioTimestamp x \<noteq> 0 \<and> t - nPrevAudioTimestamp x \<le> 0")
      case True
      then show ?thesis
        using run Some \<open>\<not> isVideo\<close> by (simp add: pushFrame_def Let_def)
    next
      case False
      let ?A = "if LinkMediaArg.nAudioFormat (avArg ?m) = LINK_AUDIO_AAC then adtsMissing d else Inr False"
      have eq: "pushFrame (log_ops ans) e m d t isVideo isKey s force = and_then ?A (\<lambda>missing.
          and_then (if missing then aacFrame e ?m d else Inr (0, d, ?m)) (\<lambda>(ret, d, m).
            if ret \<noteq> 0 then Inr (ret, m) else and_then (muxFrame (log_ops ans) ?x False d t False) (finish m)))"
        unfolding pushFrame_def finish_def Some option.case Let_def if_P [OF \<open>\<not> isVideo\<close>] if_not_P [OF False] by (rule refl)
      obtain missing where "and_then (if missing then aacFrame e ?m d else Inr (0, d, ?m)) (\<lambda>(ret, d, m).
          if ret \<noteq> 0 then Inr (ret, m) else and_then (muxFrame (log_ops ans) ?x False d t False) (finish m)) = Inr (ret, m')"
        using run unfolding eq and_then_eq_Inr [of ?A] by blast
      then obtain r0 d1 m1 where aac: "(if missing then aacFrame e ?m d else Inr (0, d, ?m)) = Inr (r0, d1, m1)"
        and rest: "(if r0 \<noteq> 0 then Inr (r0, m1) else and_then (muxFrame (log_ops ans) ?x False d1 t False) (finish m1))
          = Inr (ret, m')"
        by (cases "if missing then aacFrame e ?m d else Inr (0, d, ?m)") auto
      have "\<exists>b. m1 = ?m\<lparr>pAACBuf := b\<rparr>"
        using aac by (auto dest: aacFrame_state split: if_splits intro: exI [of _ "pAACBuf m"])
      then show ?thesis
        using rest by (fastforce simp: and_then_eq_Inr split: if_splits)
    qed
    then show ?thesis
    proof (elim disjE exE conjE)
      fix b assume "m' = ?m\<lparr>pAACBuf := b\<rparr>"
      then show ?thesis
        using m by (auto simp: extends_log_def entry_inv_def log_of_def)
    next
      fix b d1 r x1
      assume mux: "muxFrame (log_ops ans) ?x False d1 t False = Inr (r, x1)"
        and fin: "finish (?m\<lparr>pAACBuf := b\<rparr>) (r, x1) = Inr (ret, m')"
      have m1: "extends_log m (?m\<lparr>pAACBuf := b\<rparr>)"
        using m by (auto simp: extends_log_def entry_inv_def log_of_def)
      then have "extends_log (?m\<lparr>pAACBuf := b\<rparr>) (?m\<lparr>pAACBuf := b, pTsMuxCtx := Some x1\<rparr>)"
        using muxFrame_extends [OF mux, of "?m\<lparr>pAACBuf := b\<rparr>" ?x x1] by (simp add: extends_log_def)
      then show ?thesis
        by (intro extends_log_trans [OF m1 finished [OF fin]])
    qed (use inv in \<open>auto intro: extends_log_refl\<close>)
  qed
qed


lemma getVideoSps_state:
  assumes "getVideoSpsAndCompare e m d = Inr (ret, ch, m')"
  shows "m' = m\<lparr>pVideoMeta := pVideoMeta m', nVideoMetaCap := nVideoMetaCap m'\<rparr>"
proof (cases rule: getVideoSps_cases [of e m d])
  case (found s n)
  then show ?thesis
    using assms by (auto simp: compareVideoMeta_def saveVideoMeta_def split: option.splits if_splits)
qed (use assms in simp_all)

text \<open>The report a key frame makes when it ends a segment.\<close>

definition end_report :: "FrameEnv \<Rightarrow> upl_event list FFTsMuxUploader \<Rightarrow> int \<Rightarrow> upl_event list" where
  "end_report e m s = (if pTsMuxCtx m \<noteq> None \<and> 0 \<le> nFirstFrameTimestamp m
     then [Reported (getLinkReportTimeInfo e m (if s \<le> 0 then frSwitchNow e else s)) LINK_TS_END] else [])"

lemma checkSwitch_key:
  assumes run: "checkSwitch (log_ops ans) e m t True True s seg d = Inr (ret, ch, m')" and inv: "entry_inv m"
  obtains (failed) "entry_inv m'" "log_of m' = log_of m" "ret \<noteq> 0" "\<nexists>ch m1. getVideoSpsAndCompare e m d = Inr (0, ch, m1)"
  | (checked) m1 where "getVideoSpsAndCompare e m d = Inr (0, ch, m1)" "ret = 0" "entry_inv m'"
      "log_of m' = log_of m @ (if mustSwitch m t seg ch then end_report e m s else [])"
proof -
  obtain r0 ch0 m1 where sps: "getVideoSpsAndCompare e m d = Inr (r0, ch0, m1)"
    using run by (cases "getVideoSpsAndCompare e m d") (auto simp: checkSwitch_def)
  obtain v c where m1: "m1 = m\<lparr>pVideoMeta := v, nVideoMetaCap := c\<rparr>"
    using getVideoSps_state [OF sps] by metis
  have log1: "log_of m1 = log_of m" and inv1: "entry_inv m1"
    using inv by (simp_all add: m1 entry_inv_def log_of_def)
  show ?thesis
  proof (cases "r0 = 0")
    case False
    then show ?thesis
      using run sps log1 inv1 by (intro failed) (auto simp: checkSwitch_def)
  next
    case True
    let ?m1 = "m1\<lparr>nKeyFrameCount := 0, nFrameCount := 0\<rparr>"
    have must: "mustSwitch m1 t seg ch0 = mustSwitch m t seg ch0"
      by (simp add: m1 mustSwitch_def)
    obtain m2 where m2: "(if mustSwitch m t seg ch0 then switchTs (log_ops ans) e ?m1 s else Inr m1) = Inr m2"
      and m': "pTsMuxCtx m' = pTsMuxCtx m2" "nFirstFrameTimestamp m' = nFirstFrameTimestamp m2" "queueType m' = queueType m2"
      and ret: "ret = 0" "ch = ch0"
      using run sps True must by (auto simp: checkSwitch_def and_then_eq_Inr split: if_splits)
    have "entry_inv m2 \<and> log_of m2 = log_of m @ (if mustSwitch m t seg ch0 then end_report e m s else [])"
    proof (cases "mustSwitch m t seg ch0")
      case True
      then have sw: "switchTs (log_ops ans) e ?m1 s = Inr m2"
        using m2 by simp
      have "entry_inv ?m1"
        using inv1 by (simp add: entry_inv_def)
      from switchTs_log [OF sw this] True show ?thesis
        using log1 by (auto simp: end_report_def m1 log_of_def getLinkReportTimeInfo_def)
    qed (use m2 inv1 log1 in simp)
    then have "entry_inv m'" "log_of m' = log_of m @ (if mustSwitch m t seg ch0 then end_report e m s else [])"
      using m' by (auto simp: entry_inv_def log_of_def)
    then show ?thesis
      using sps True ret by (intro checked [of m1]) auto
  qed
qed

lemma checkSwitch_other:
  "\<not> (isVideo \<and> isKey) \<Longrightarrow> checkSwitch up e m t isKey isVideo s seg d = Inr (0, False, m)"
  by (auto simp: checkSwitch_def)

lemma afterPush_log:
  assumes run: "afterPush (log_ops ans) e s (r, m) = Inr (ret, m')" and inv: "entry_inv m"
  shows "ret = r" and "entry_inv m'" and "log_of m' = log_of m @ (if r = LINK_NO_MEMORY then end_report e m s else [])"
proof -
  let ?m = "if r = 0 then m\<lparr>nFrameCount := nFrameCount m + 1\<rparr> else m"
  have inv': "entry_inv ?m" and log: "log_of ?m = log_of m"
    using inv by (auto simp: entry_inv_def log_of_def)
  have "(if r = LINK_NO_MEMORY then switchTs (log_ops ans) e ?m s else Inr ?m) = Inr m' \<and> ret = r"
    using run unfolding afterPush_def Let_def prod.case
    by (cases "if r = LINK_NO_MEMORY then switchTs (log_ops ans) e ?m s else Inr ?m") auto
  then show "ret = r" and "entry_inv m'" and "log_of m' = log_of m @ (if r = LINK_NO_MEMORY then end_report e m s else [])"
    using switchTs_log [of ans e ?m s m'] inv' log by (auto simp: end_report_def split: if_splits)
qed

lemma entry_push:
  assumes run: "and_then (pushFrame (log_ops ans) e m d t isVideo isKey s force) (afterPush (log_ops ans) e s) = Inr (ret, m')"
    and inv: "entry_inv m" and t: "0 \<le> t"
  shows "entry_inv m' \<and> (\<exists>es. log_of m' = log_of m @ es \<and> (ret \<noteq> LINK_NO_MEMORY \<longrightarrow> no_end es))"
proof -
  obtain r m1 where p: "pushFrame (log_ops ans) e m d t isVideo isKey s force = Inr (r, m1)"
    and a: "afterPush (log_ops ans) e s (r, m1) = Inr (ret, m')"
    using run by (auto simp: and_then_eq_Inr)
  have "extends_log m m1"
    by (rule pushFrame_log [OF p inv t])
  then show ?thesis
    using afterPush_log [OF a] by (fastforce simp: extends_log_def)
qed


text \<open>What \<open>PushVideo\<close> does once \<open>checkSwitch\<close> has succeeded.\<close>

definition askPicture :: "FrameEnv \<Rightarrow> bool \<Rightarrow> int \<Rightarrow> 'u FFTsMuxUploader \<Rightarrow> 'u FFTsMuxUploader" where
  "askPicture e isKey s m = (if nKeyFrameCount m = 1 \<and> isKey
     then linkCapturePictureCallback (if nLastPicCallbackSystime m \<le> 0
            then m\<lparr>nLastPicCallbackSystime := frPictureNow e\<rparr> else m) (c_div s 1000000)
     else m)"

definition entered :: "FrameEnv \<Rightarrow> int \<Rightarrow> int \<Rightarrow> 'u FFTsMuxUploader \<Rightarrow> 'u FFTsMuxUploader" where
  "entered e t ft m = m\<lparr>nLastVideoFrameTsForCheck := t, nLastVideoFrameTsForCheckSysTime := frameSysTime e ft\<rparr>"

lemma PushVideo_eq:
  "PushVideo up e m d t isKey seg ft =
     (if isPause m then Inr (LINK_PAUSED, entered e t ft m)
      else if nKeyFrameCount m = 0 \<and> \<not> isKey then Inr (0, entered e t ft m)
      else and_then (checkSwitch up e (entered e t ft m) t isKey True (frameSysTime e ft) seg d) (\<lambda>(ret, ch, m).
        if ret \<noteq> 0 then Inr (ret, m) else if nKeyFrameCount m = 0 \<and> \<not> isKey then Inr (0, m)
        else and_then (pushFrame up e (askPicture e isKey (frameSysTime e ft) m) d t True isKey (frameSysTime e ft) (ch \<or> seg))
          (afterPush up e (frameSysTime e ft))))"
  unfolding PushVideo_def Let_def entered_def askPicture_def by simp

lemma entered_inv [simp]:
  "entry_inv (entered e t ft m) = entry_inv m" "log_of (entered e t ft m) = log_of m"
  "nKeyFrameCount (entered e t ft m) = nKeyFrameCount m"
  "mustSwitch (entered e t ft m) t' seg ch = mustSwitch m t' seg ch" "end_report e (entered e t ft m) s = end_report e m s"
  by (simp_all add: entered_def entry_inv_def log_of_def mustSwitch_def end_report_def getLinkReportTimeInfo_def)

lemma askPicture_inv [simp]:
  "entry_inv (askPicture e k s m) = entry_inv m" "log_of (askPicture e k s m) = log_of m"
  by (simp_all add: askPicture_def linkCapturePictureCallback_def entry_inv_def log_of_def)

lemma entry_video_other:
  assumes run: "PushVideo (log_ops ans) e m d t False seg ft = Inr (ret, m')" and inv: "entry_inv m" and t: "0 \<le> t"
  shows "entry_inv m' \<and> (\<exists>es. log_of m' = log_of m @ es \<and> (ret \<noteq> LINK_NO_MEMORY \<longrightarrow> no_end es))"
proof (cases "isPause m \<or> nKeyFrameCount m = 0")
  case True
  then have "m' = entered e t ft m"
    using run by (auto simp: PushVideo_eq split: if_splits)
  then show ?thesis
    using inv by (simp add: exI [of _ "[]"])
next
  case False
  then show ?thesis
    using run inv t entry_push [of ans e "askPicture e False (frameSysTime e ft) (entered e t ft m)" d t True False "frameSysTime e ft" seg ret m']
    by (simp add: PushVideo_eq checkSwitch_other)
qed

lemma entry_video_key:
  assumes run: "PushVideo (log_ops ans) e m d t True seg ft = Inr (ret, m')" and inv: "entry_inv m" and t: "0 \<le> t"
  obtains (kept) "entry_inv m'" "log_of m' = log_of m"
      "isPause m \<or> (\<nexists>ch m1. getVideoSpsAndCompare e (entered e t ft m) d = Inr (0, ch, m1))"
  | (checked) ch m1 es where "getVideoSpsAndCompare e (entered e t ft m) d = Inr (0, ch, m1)" "entry_inv m'"
      "log_of m' = log_of m @ (if mustSwitch m t seg ch then end_report e m (frameSysTime e ft) else []) @ es"
      "ret \<noteq> LINK_NO_MEMORY \<longrightarrow> no_end es"
proof (cases "isPause m")
  case True
  then have "m' = entered e t ft m"
    using run by (auto simp: PushVideo_eq split: if_splits)
  then show ?thesis
    using inv True by (intro kept) simp_all
next
  case False
  obtain r ch m2 where cs: "checkSwitch (log_ops ans) e (entered e t ft m) t True True (frameSysTime e ft) seg d = Inr (r, ch, m2)"
    using run False by (cases "checkSwitch (log_ops ans) e (entered e t ft m) t True True (frameSysTime e ft) seg d")
      (auto simp: PushVideo_eq)
  have inv0: "entry_inv (entered e t ft m)"
    using inv by simp
  from cs inv0 show ?thesis
  proof (cases rule: checkSwitch_key)
    case failed
    then show ?thesis
      using run cs False by (intro kept) (auto simp: PushVideo_eq)
  next
    case sps: (checked m1)
    have "and_then (pushFrame (log_ops ans) e (askPicture e True (frameSysTime e ft) m2) d t True True
        (frameSysTime e ft) (ch \<or> seg)) (afterPush (log_ops ans) e (frameSysTime e ft)) = Inr (ret, m')"
      using run cs False sps(2) by (simp add: PushVideo_eq)
    from entry_push [OF this _ t] sps(3) obtain es where "entry_inv m'"
        "log_of m' = log_of m2 @ es" "ret \<noteq> LINK_NO_MEMORY \<longrightarrow> no_end es"
      by auto
    then show ?thesis
      using sps(1,4) by (intro checked [of ch m1 es]) simp_all
  qed
qed


lemma entry_audio:
  assumes run: "PushAudio (log_ops ans) e m d t ft = Inr (ret, m')" and inv: "entry_inv m" and t: "0 \<le> t"
  shows "entry_inv m' \<and> (\<exists>es. log_of m' = log_of m @ es \<and> (ret \<noteq> LINK_NO_MEMORY \<longrightarrow> no_end es))"
proof -
  let ?m = "m\<lparr>nLastAudioFrameTsForCheck := t\<rparr>"
  have inv0: "entry_inv ?m" "log_of ?m = log_of m"
    using inv by (simp_all add: entry_inv_def log_of_def)
  show ?thesis
  proof (cases "isPause m \<or> nKeyFrameCount m = 0")
    case True
    then have "m' = ?m"
      using run by (auto simp: PushAudio_def Let_def checkSwitch_other split: if_splits)
    then show ?thesis
      using inv0 by (simp add: exI [of _ "[]"])
  next
    case False
    then have "and_then (pushFrame (log_ops ans) e ?m d t False False (frameSysTime e ft) False)
        (afterPush (log_ops ans) e (frameSysTime e ft)) = Inr (ret, m')"
      using run by (simp add: PushAudio_def Let_def checkSwitch_other)
    from entry_push [OF this inv0(1) t] show ?thesis
      using inv0(2) by simp
  qed
qed

subsection \<open>Runs of the entry points\<close>

inductive entry_step ::
    "(upl_event list \<Rightarrow> bytes \<Rightarrow> int) \<Rightarrow> upl_event list FFTsMuxUploader \<Rightarrow> upl_event list FFTsMuxUploader \<Rightarrow> bool"
  for ans where
    video: "PushVideo (log_ops ans) e m d t isKey seg ft = Inr (ret, m') \<Longrightarrow> 0 \<le> t \<Longrightarrow> entry_step ans m m'"
  | audio: "PushAudio (log_ops ans) e m d t ft = Inr (ret, m') \<Longrightarrow> 0 \<le> t \<Longrightarrow> entry_step ans m m'"
  | pause: "LinkPauseUpload (log_ops ans) e m = Inr (ret, m') \<Longrightarrow> entry_step ans m m'"
  | resume: "LinkResumeUpload m = (ret, m') \<Longrightarrow> entry_step ans m m'"
  | flush: "LinkFlushUploader (log_ops ans) e m = Inr m' \<Longrightarrow> entry_step ans m m'"

definition startedFrames :: "LinkTsMuxerArg \<Rightarrow> 'u \<Rightarrow> 'u FFTsMuxUploader \<Rightarrow> 'u FFTsMuxUploader" where
  "startedFrames a u m = m\<lparr>pTsMuxCtx := Some \<lparr>pTsUploader = u, pFmtCtx = Some (freshContext a),
     nPrevAudioTimestamp = 0, nPrevVideoTimestamp = 0\<rparr>\<rparr>"

lemma entry_inv_started: "entry_inv (startedFrames a [] (freshFrames av n b kp))"
  by (simp add: entry_inv_def startedFrames_def freshFrames_def ctx_ok_def freshContext_packet)

lemma entry_step_inv: "entry_step ans m m' \<Longrightarrow> entry_inv m \<Longrightarrow> entry_inv m'"
proof (induction rule: entry_step.induct)
  case (video e m d t isKey seg ft ret m')
  then show ?case
    by (cases isKey) (auto dest: entry_video_other elim: entry_video_key)
next
  case (audio e m d t ft ret m')
  then show ?case
    by (blast dest: entry_audio)
next
  case (pause e m ret m')
  then have "switchTs (log_ops ans) e (m\<lparr>isPause := True, nKeyFrameCount := 0, nFrameCount := 0\<rparr>)
      (nLastVideoFrameTsForCheckSysTime m) = Inr m'"
    by (auto simp: LinkPauseUpload_def and_then_eq_Inr)
  then show ?case
    by (rule switchTs_log(1)) (use pause(2) in \<open>simp add: entry_inv_def\<close>)
next
  case (resume m ret m')
  then show ?case
    by (auto simp: LinkResumeUpload_def entry_inv_def)
next
  case (flush e m m')
  then obtain m1 where "switchTs (log_ops ans) e m (nLastVideoFrameTsForCheckSysTime m) = Inr m1"
      "m' = m1\<lparr>nKeyFrameCount := 0, nFrameCount := 0\<rparr>"
    using flush by (auto simp: LinkFlushUploader_def entry_inv_def and_then_eq_Inr)
  then have "entry_inv m1"
    using flush(2) by (elim switchTs_log(1))
  then show ?case
    using \<open>m' = _\<close> by (simp add: entry_inv_def)
qed

text \<open>
  C16: Whatever frames are pushed and whenever uploading is paused, resumed or flushed, and whatever the uploader answers,
  it is told of the start and of the end of a segment in turn, and a segment is open exactly while the entry holds the
  time stamp of its first frame.
\<close>

theorem segment_reports_alternate:
  assumes "(entry_step ans)\<^sup>*\<^sup>* (startedFrames a [] (freshFrames av n b kp)) m"
  shows "foldl track (Some False) (log_of m) = Some (pTsMuxCtx m \<noteq> None \<and> 0 \<le> nFirstFrameTimestamp m)"
proof -
  have "entry_inv m"
    using assms by (induction rule: rtranclp_induct) (auto intro: entry_step_inv entry_inv_started)
  then show ?thesis
    by (auto simp: entry_inv_def log_of_def split: option.split)
qed

text \<open>
  C17: A key frame whose parameter sets were found ends the segment that is open exactly when that is due: the segment has
  lasted longer than configured since its first frame, the parameter sets have changed, or a new segment was asked for. The report comes before
  the frame's data, with the durations and the media time of the frames accepted since the segment began. No other frame
  ends a segment, unless the uploader is out of memory.
\<close>

theorem key_frame_ends_segment:
  assumes "queueType m = TSQ_APPEND_FIX" and "pTsMuxCtx m = Some x" and "pFmtCtx x = Some c" and "length (tsPacket c) = 188"
    and "foldl track (Some False) (pTsUploader x) = Some (0 \<le> nFirstFrameTimestamp m)" and "\<not> isPause m" and "0 \<le> t"
    and "PushVideo (log_ops ans) e m d t isKey seg ft = Inr (ret, m')"
    and "isKey \<Longrightarrow> getVideoSpsAndCompare e (entered e t ft m) d = Inr (0, ch, m1)" and "ret \<noteq> LINK_NO_MEMORY"
  shows "\<exists>es. no_end es \<and> log_of m' = log_of m @
    (if isKey \<and> 0 \<le> nFirstFrameTimestamp m \<and>
        (cfgTsDuration m < t - nFirstFrameTimestamp m \<and> 0 < nKeyFrameCount m \<or> ch \<or> seg \<and> nFrameCount m \<noteq> 0)
     then [Reported \<lparr>tiAudioDuration = nLastAudioFrameTimestamp m - nFirstAudioFrameTimestamp m,
             tiVideoDuration = nLastVideoFrameTimestamp m - nFirstVideoFrameTimestamp m,
             tiMediaDuation = nLastFrameTimestamp m - nFirstFrameTimestamp m,
             tiSystimestamp = (if frameSysTime e ft \<le> 0 then frSwitchNow e else frameSysTime e ft),
             tiReserved = frReserved e\<rparr> LINK_TS_END]
     else []) @ es"
proof -
  have inv: "entry_inv m"
    using assms by (simp add: entry_inv_def ctx_ok_def)
  show ?thesis
  proof (cases isKey)
    case False
    then show ?thesis
      using entry_video_other [of ans e m d t seg ft ret m'] assms inv by auto
  next
    case True
    have run: "PushVideo (log_ops ans) e m d t True seg ft = Inr (ret, m')"
      using assms True by simp
    from run inv assms(7) show ?thesis
    proof (cases rule: entry_video_key)
      case kept
      then show ?thesis
        using assms(6,9) True by blast
    next
      case (checked ch' m1' es)
      then show ?thesis
        using assms True by (auto simp: end_report_def mustSwitch_def getLinkReportTimeInfo_def intro!: exI [of _ es] split: if_splits)
    qed
  qed
qed


text \<open>Two witnesses: a flush, and a key frame that ends the segment that was open.\<close>

theorem segment_reports_alternate_witness:
  "\<exists>m. (entry_step (\<lambda>_ _. 188))\<^sup>*\<^sup>* (startedFrames (video_only LINK_VIDEO_H264) [] (freshFrames h264_media 0 True someKeeper)) m \<and>
     isPause m \<and> foldl track (Some False) (log_of m) = Some False"
proof -
  let ?m0 = "startedFrames (video_only LINK_VIDEO_H264) [] (freshFrames h264_media 0 True someKeeper)"
  obtain m where m: "LinkPauseUpload (log_ops (\<lambda>_ _. 188)) someEnv ?m0 = Inr (0, m)" "isPause m" "nFirstFrameTimestamp m = -1"
    by (auto simp: LinkPauseUpload_def switchTs_def startedFrames_def freshFrames_def Let_def resetTimeInfo_def)
  then have run: "(entry_step (\<lambda>_ _. 188))\<^sup>*\<^sup>* ?m0 m"
    by (intro r_into_rtranclp entry_step.pause)
  show ?thesis
    using segment_reports_alternate [OF run] run m by auto
qed


definition open_segment :: "upl_event list FFTsMuxUploader" where
  "open_segment = (freshFrames h264_media 0 True someKeeper)\<lparr>nFirstFrameTimestamp := 5, nLastFrameTimestamp := 4000,
     nKeyFrameCount := 1, pTsMuxCtx := Some
       \<lparr>pTsUploader = [Reported \<lparr>tiAudioDuration = 0, tiVideoDuration = 0, tiMediaDuation = 0, tiSystimestamp = 0,
          tiReserved = 0\<rparr> LINK_TS_START], pFmtCtx = Some (freshContext (video_only LINK_VIDEO_H264)),
        nPrevAudioTimestamp = 0, nPrevVideoTimestamp = 6000\<rparr>\<rparr>"

theorem key_frame_ends_segment_witness:
  "\<exists>m' ti. PushVideo (log_ops (\<lambda>_ _. 188)) someEnv open_segment h264_key_frame 5000 True False 0 = Inr (0, m') \<and>
     Reported ti LINK_TS_END \<in> set (log_of m') \<and> tiMediaDuation ti = 3995"
proof -
  let ?run = "PushVideo (log_ops (\<lambda>_ _. 188)) someEnv open_segment h264_key_frame 5000 True False 0"
  let ?sps = "getVideoSpsAndCompare someEnv (entered someEnv 5000 0 open_segment) h264_key_frame"
  have "case ?run of Inl _ \<Rightarrow> False | Inr (ret, _) \<Rightarrow> ret = 0"
    by code_simp
  then obtain m' where run: "?run = Inr (0, m')"
    by (auto split: sum.splits prod.splits)
  have "case ?sps of Inl _ \<Rightarrow> False | Inr (ret, ch, _) \<Rightarrow> ret = 0 \<and> \<not> ch"
    by code_simp
  then obtain m1 where sps: "?sps = Inr (0, False, m1)"
    by (auto split: sum.splits prod.splits)
  have "\<exists>x c. pTsMuxCtx open_segment = Some x \<and> pFmtCtx x = Some c \<and> length (tsPacket c) = 188 \<and>
      foldl track (Some False) (pTsUploader x) = Some True"
    by (simp add: open_segment_def freshContext_packet)
  then obtain x c where x: "pTsMuxCtx open_segment = Some x" "pFmtCtx x = Some c" "length (tsPacket c) = 188"
      "foldl track (Some False) (pTsUploader x) = Some True"
    by blast
  show ?thesis
    using key_frame_ends_segment [OF _ x(1-3) _ _ _ run sps] x(4) run
    by (force simp: open_segment_def freshFrames_def)
qed

end
