(* ===== verification/AacEntry.thy ===== *)
theory AacEntry
  imports FrameEntry
begin

section \<open>AAC frames without a header\<close>

text \<open>
  The entry puts an ADTS header in front of an AAC frame that has none. The length in that header has 13 bits, and
  the place of the frame in the buffer is computed from it.
\<close>

lemma aac_length: "unat (aac_frame_length (LinkInitAdtsVariableHeader (int n))) = (n + 7) mod 8192"
proof -
  have "word_of_int (int n + 7) = (word_of_nat (n + 7) :: 13 word)"
    by (simp add: of_nat_add)
  moreover have "unat (word_of_nat (n + 7) :: 13 word) = (n + 7) mod 8192"
    by (simp only: unat_of_nat) simp
  ultimately show ?thesis
    by (simp only: LinkInitAdtsVariableHeader_def LinkADTSVariableHeader.simps)
qed

definition aacHeader :: "LinkMediaArg \<Rightarrow> nat \<Rightarrow> bytes" where
  "aacHeader a n = LinkConvertAdtsHeader2Char
     (LinkInitAdtsFixedHeader\<lparr>channel_configuration := word_of_int (nChannels a),
        sampling_frequency_index := word_of_int (getAacFreqIndex (nSamplerate a))\<rparr>)
     (LinkInitAdtsVariableHeader (int n))"

text \<open>The frame is built in the old buffer or in a new one, which is large enough.\<close>

lemma aacFrame_eq:
  assumes "1 \<le> nChannels (avArg m)" and "nChannels (avArg m) \<le> 2" and "0 \<le> getAacFreqIndex (nSamplerate (avArg m))"
    and junk: "frAac e = Some junk" and n: "n = (length d + 7) mod 8192"
  obtains b m1 where "n \<le> length b"
    "aacFrame e m d = and_then (write_at 0 (aacHeader (avArg m) (length d)) b) (\<lambda>b.
        if int n - int (length d) < 0 then Inl Out_of_bounds
        else and_then (write_at (nat (int n - int (length d))) d b) (\<lambda>b. Inr (0, take n b, m1\<lparr>pAACBuf := Some b\<rparr>)))"
proof -
  obtain b where b: "(case pAACBuf m of None \<Rightarrow> malloc (frAac e) n
      | Some b \<Rightarrow> if length b < n then malloc (frAac e) n else Some b) = Some b" "n \<le> length b"
  proof (cases "\<exists>b. pAACBuf m = Some b \<and> n \<le> length b")
    case True
    then show ?thesis
      by (auto intro: that simp: not_less [symmetric])
  next
    case False
    then show ?thesis
      using junk by (intro that [of "map junk [0..<n]"]) (auto simp: malloc_def split: option.split)
  qed
  show ?thesis
    using assms(1-3) b by (intro that [of b "m\<lparr>pAACBuf := Some b\<rparr>"])
      (simp_all add: aacFrame_def aac_length n [symmetric] aacHeader_def)
qed

text \<open>
  C18: An AAC frame of at most 8184 bytes is given to the multiplexer behind an ADTS header that parsers
  read back with the frame's length, the channels and the sample rate of the stream. A longer frame always
  makes the entry access memory outside the buffer, because the length field wraps.
\<close>

theorem aac_frame_gets_header:
  assumes "1 \<le> nChannels (avArg m)" and "nChannels (avArg m) \<le> 2" and "0 \<le> getAacFreqIndex (nSamplerate (avArg m))"
    and "frAac e = Some junk"
  shows "if length d \<le> 8184
    then \<exists>h m' f v. aacFrame e m d = Inr (0, h @ d, m') \<and> length h = 7 \<and>
      LinkParseAdtsfixedHeader h = Inr f \<and> LinkParseAdtsVariableHeader h = Inr v \<and>
      unat (aac_frame_length v) = length (h @ d) \<and> uint (channel_configuration f) = nChannels (avArg m) \<and>
      uint (sampling_frequency_index f) = getAacFreqIndex (nSamplerate (avArg m))
    else aacFrame e m d = Inl Out_of_bounds"
proof -
  define n where "n = (length d + 7) mod 8192"
  define h where "h = aacHeader (avArg m) (length d)"
  obtain b m1 where b: "n \<le> length b" and eq: "aacFrame e m d = and_then (write_at 0 h b) (\<lambda>b.
        if int n - int (length d) < 0 then Inl Out_of_bounds
        else and_then (write_at (nat (int n - int (length d))) d b) (\<lambda>b. Inr (0, take n b, m1\<lparr>pAACBuf := Some b\<rparr>)))"
    by (rule aacFrame_eq [OF assms n_def]) (erule that, simp only: h_def)
  have h: "length h = 7"
    by (simp add: h_def aacHeader_def)
  show ?thesis
  proof (cases "length d \<le> 8184")
    case True
    then have n: "n = length d + 7"
      by (simp add: n_def)
    have w: "write_at 0 h b = Inr (overwrite 0 h b)" "write_at 7 d (overwrite 0 h b) = Inr (overwrite 7 d (overwrite 0 h b))"
      using b n h by (simp_all add: write_at_def)
    have frame: "take n (overwrite 7 d (overwrite 0 h b)) = h @ d"
      using b n h by (simp add: overwrite_def)
    have rate: "getAacFreqIndex (nSamplerate (avArg m)) < 16"
      by (simp add: getAacFreqIndex_def)
    have "uint (word_of_int (nChannels (avArg m)) :: 3 word) = nChannels (avArg m)"
      using assms(1,2) by (simp add: word_of_int_inverse [where 'a = 3])
    moreover have "uint (word_of_int (getAacFreqIndex (nSamplerate (avArg m))) :: 4 word) = getAacFreqIndex (nSamplerate (avArg m))"
      using assms(3) rate by (simp add: word_of_int_inverse [where 'a = 4])
    ultimately show ?thesis
      using True eq w frame h n aac_length [of "length d"]
      by (auto simp: h_def aacHeader_def parse_adts_fixed parse_adts_variable)
  next
    case False
    have "n < length d"
    proof (cases "length d < 8192")
      case True
      then have "n = length d + 7 - 8192"
        using False by (simp add: n_def mod_if)
      then show ?thesis using True \<open>\<not> length d \<le> 8184\<close> by linarith
    next
      case False
      then show ?thesis
        unfolding n_def by (meson linorder_not_less mod_less_divisor order_less_le_trans zero_less_numeral)
    qed
    then show ?thesis
      using False eq by (auto simp: write_at_def)
  qed
qed

theorem aac_frame_gets_header_witness:
  "\<exists>h m'. aacFrame \<lparr>frNow = 1, frSwitchNow = 1, frPictureNow = 1, frAac = Some (\<lambda>_. 0), frSps = True, frMutex = 0, frReserved = 0\<rparr>
       (freshFrames \<lparr>LinkMediaArg.nAudioFormat = LINK_AUDIO_AAC, nChannels = 1, nSamplerate = 8000,
          nVideoFormat = LINK_VIDEO_NONE\<rparr> 0 True \<lparr>nSegmentId = 0, nSegSeqNum = 0, nLastCheckTime = 0, keeperSessionId = [],
          segmentHandle = 0, nSessionDuration = 0, nSessionTimeout = 0, updates = [], reports = []\<rparr> :: unit FFTsMuxUploader) (replicate 8184 7) = Inr (0, h @ replicate 8184 7, m')"
proof -
  let ?kp = "\<lparr>nSegmentId = 0, nSegSeqNum = 0, nLastCheckTime = 0, keeperSessionId = [],
          segmentHandle = 0, nSessionDuration = 0, nSessionTimeout = 0, updates = [], reports = []\<rparr>"
  let ?m = "freshFrames \<lparr>LinkMediaArg.nAudioFormat = LINK_AUDIO_AAC, nChannels = 1, nSamplerate = 8000,
          nVideoFormat = LINK_VIDEO_NONE\<rparr> 0 True ?kp :: unit FFTsMuxUploader"
  show ?thesis
    using aac_frame_gets_header [of ?m "\<lparr>frNow = 1, frSwitchNow = 1, frPictureNow = 1, frAac = Some (\<lambda>_. 0),
        frSps = True, frMutex = 0, frReserved = 0\<rparr>" "\<lambda>_. 0" "replicate 8184 7"]
    by (auto simp: getAacFreqIndex_def freshFrames_def)
qed

end
