(* ===== verification/EndToEnd.thy ===== *)
theory EndToEnd
  imports SegmentCutting
begin

section \<open>From the entry points to the segment's buffer\<close>

text \<open>
  The multiplexer's packets end up in the queue of the segment being filled. The uploader is related to the recording
  output of TsMux, and so what TsMux shows of a recording holds for the bytes that will be uploaded.
\<close>

subsection \<open>A started uploader\<close>

text \<open>The bytes of the segment being filled, as the upload thread will read them.\<close>

definition segment_buffer :: "KodoUploader FFTsMuxUploader \<Rightarrow> bytes option" where
  "segment_buffer m = (case pTsMuxCtx m of None \<Rightarrow> None | Some x \<Rightarrow>
     (case pQueue (pTsUploader x) of None \<Rightarrow> None | Some p \<Rightarrow>
       (case tsQueues (pTsUploader x) p of None \<Rightarrow> None | Some q \<Rightarrow> snd (LinkGetQueueBuffer q))))"

definition muxer_arg :: "LinkMediaArg \<Rightarrow> LinkTsMuxerArg" where
  "muxer_arg a = \<lparr>LinkTsMuxerArg.nAudioFormat = LinkMediaArg.nAudioFormat a, nAudioSampleRate = nSamplerate a,
     nAudioChannels = nChannels a, LinkTsMuxerArg.nVideoFormat = LinkMediaArg.nVideoFormat a\<rparr>"

text \<open>\<open>fills k c bs\<close>: the segment's queue has room for \<open>c\<close> bytes and holds \<open>bs\<close>.\<close>

definition fills :: "KodoUploader \<Rightarrow> nat \<Rightarrow> bytes \<Rightarrow> bool" where
  "fills k c bs \<longleftrightarrow> (\<exists>p q. pQueue k = Some p \<and> tsQueues k p = Some q \<and> append_inv c 192 q \<and> append_bytes q = bs)"

definition segment_capacity :: "int \<Rightarrow> nat" where
  "segment_capacity n = 188 * nat ((if 102400 < n then n else 1474560) div 188)"

lemma pool_slot:
  assumes "allocTs True (freshUploader b n pol l cnt kp\<lparr>pUpMeta := Some []\<rparr>) = (mem, k)"
  shows "mem = 1" and "pTsItem k ! 0 = replicate (nat n) 1" and "koPolicy k = pol" and "nMaxItemLen k = l"
    and "nInitItemCount k = cnt" and "pUpMeta k = Some []"
  using assms by (auto simp: allocTs_def freshUploader_def upt_rec)


lemma alloc_fresh:
  assumes run: "allocDataQueueAndUploadMeta a (freshUploader b n TSQ_APPEND_FIX 188 cnt kp) = Inr (LINK_SUCCESS, k)"
  shows "\<exists>p q. pQueue k = Some p \<and> tsQueues k p = Some q \<and> pUpMeta k = Some [] \<and> nLen q = 0 \<and>
    policy q = TSQ_APPEND_FIX \<and> nCap q = nat 188 * nat cnt \<and> nItemLen q = 192 \<and> nIsAvailableAfterTimeout q \<and>
    nQState q = 0 \<and> pData q = replicate (nat n) 1"
proof -
  let ?k = "freshUploader b n TSQ_APPEND_FIX 188 cnt kp"
  have ok: "metaOk a" "poolOk a"
    using run by (auto simp: allocDataQueueAndUploadMeta_def allocTs_def freshUploader_def split: if_splits)
  obtain mem k1 where slot: "allocTs True (?k\<lparr>pUpMeta := Some []\<rparr>) = (mem, k1)"
    by (cases "allocTs True (?k\<lparr>pUpMeta := Some []\<rparr>)")
  note pool = pool_slot [OF slot]
  obtain q where q: "LinkNewCircleQueue (structOk a) None (mutexRet a) (condRet a) True TSQ_APPEND_FIX 188 cnt
      (Some (\<lparr>pMem = 1, freeMem = True\<rparr>, replicate (nat n) 1)) = (0, Some q)"
    and k: "k = k1\<lparr>tsQueues := (tsQueues k1)(nextQueue k1 \<mapsto> q), pQueue := Some (nextQueue k1), nextQueue := nextQueue k1 + 1\<rparr>"
    using run ok slot pool
    by (auto simp: allocDataQueueAndUploadMeta_def Let_def LinkNewCircleQueue_def split: if_splits)
  have "nLen q = 0 \<and> policy q = TSQ_APPEND_FIX \<and> nCap q = nat 188 * nat cnt \<and> nItemLen q = 192 \<and>
      nIsAvailableAfterTimeout q \<and> nQState q = 0 \<and> pData q = replicate (nat n) 1"
    using q by (auto simp: LinkNewCircleQueue_def Let_def split: if_splits)
  then show ?thesis
    using k pool by simp
qed

lemma new_uploader:
  assumes "LinkNewTsUploader e b n pol 188 cnt kp = Inr (0, ko)"
  shows "\<exists>k. ko = Some k \<and> allocDataQueueAndUploadMeta (newAlloc e) (freshUploader b n pol 188 cnt kp) = Inr (0, k)"
  using assms by (auto simp: LinkNewTsUploader_def and_then_eq_Inr split: if_splits)

lemma new_context:
  assumes run: "newTsMuxContext e m sz = Inr (0, xo)"
  shows "\<exists>k. xo = Some \<lparr>pTsUploader = k, pFmtCtx = Some (freshContext (muxer_arg (avArg m))), nPrevAudioTimestamp = 0,
      nPrevVideoTimestamp = 0\<rparr> \<and>
    allocDataQueueAndUploadMeta (newAlloc (stUploader e))
      (freshUploader (hasUpdateCb m) (argTsMaxSize m) (queueType m) 188 (c_div sz 188) (argKeeper m)) = Inr (0, k)"
proof -
  obtain ret ko where ko: "LinkNewTsUploader (stUploader e) (hasUpdateCb m) (argTsMaxSize m) (queueType m) 188
      (c_div sz 188) (argKeeper m) = Inr (ret, ko)"
    using run unfolding newTsMuxContext_def
    by (cases "LinkNewTsUploader (stUploader e) (hasUpdateCb m) (argTsMaxSize m) (queueType m) 188
      (c_div sz 188) (argKeeper m)") (auto split: if_splits)
  show ?thesis
  proof (cases ko)
    case None
    then show ?thesis
      using run ko new_uploader [of "stUploader e"] by (force simp: newTsMuxContext_def split: if_splits)
  next
    case (Some k)
    then have "ret = 0"
      using ko by (auto simp: LinkNewTsUploader_def and_then_eq_Inr split: if_splits)
    moreover have "xo = Some \<lparr>pTsUploader = k, pFmtCtx = Some (freshContext (muxer_arg (avArg m))), nPrevAudioTimestamp = 0,
        nPrevVideoTimestamp = 0\<rparr>"
      using run ko Some by (auto simp: newTsMuxContext_def LinkNewTsMuxerContext_def muxer_arg_def split: if_splits)
    ultimately show ?thesis
      using new_uploader [of "stUploader e" "hasUpdateCb m" "argTsMaxSize m" "queueType m" "c_div sz 188" "argKeeper m" ko]
        ko Some by auto
  qed
qed

lemma started:
  assumes "LinkTsMuxUploaderStart e (freshFrames av n b kp) = Inr (0, m)"
  obtains x p q where "m = (freshFrames av n b kp)\<lparr>pTsMuxCtx := Some x\<rparr>" "pFmtCtx x = Some (freshContext (muxer_arg av))"
    "nPrevAudioTimestamp x = 0" "nPrevVideoTimestamp x = 0"
    "pQueue (pTsUploader x) = Some p" "tsQueues (pTsUploader x) p = Some q" "pUpMeta (pTsUploader x) = Some []"
    "nLen q = 0" "policy q = TSQ_APPEND_FIX" "nCap q = segment_capacity n" "nItemLen q = 192"
    "nIsAvailableAfterTimeout q" "nQState q = 0" "pData q = replicate (nat (if n \<le> 0 then 1474560 else n)) 1"
proof -
  let ?m = "freshFrames av n b kp :: KodoUploader FFTsMuxUploader"
  let ?n = "if n \<le> 0 then 1474560 else n"
  let ?size = "if 102400 < n then n else 1474560"
  have arg: "argTsMaxSize ?m = ?n" "queueType ?m = TSQ_APPEND_FIX" "hasUpdateCb ?m = b" "argKeeper ?m = kp" "avArg ?m = av"
      "pTsMuxCtx ?m = None"
    by (simp_all add: freshFrames_def getBufferSize_def)
  have size: "(if 1024 * 100 < argTsMaxSize ?m then argTsMaxSize ?m else getBufferSize) = ?size"
    by (simp add: arg getBufferSize_def)
  obtain xo where new: "newTsMuxContext e ?m ?size = Inr (0, xo)"
    and m: "(case xo of None \<Rightarrow> Inr (0, ?m) | Some x \<Rightarrow> Inr (0, ?m\<lparr>pTsMuxCtx :=
            Some (x\<lparr>pTsUploader := LinkTsUploaderSetTsEndUploadCallback (pTsUploader x) True\<rparr>)\<rparr>)) = Inr (0, m)"
    using assms unfolding LinkTsMuxUploaderStart_def size Let_def
    by (cases "newTsMuxContext e ?m ?size") (auto simp: arg(6) split: option.splits)
  obtain k where k: "xo = Some \<lparr>pTsUploader = k, pFmtCtx = Some (freshContext (muxer_arg av)), nPrevAudioTimestamp = 0,
      nPrevVideoTimestamp = 0\<rparr>"
    and alloc: "allocDataQueueAndUploadMeta (newAlloc (stUploader e)) (freshUploader b ?n TSQ_APPEND_FIX 188 (c_div ?size 188) kp)
      = Inr (0, k)"
    using new_context [OF new] arg by auto
  have cap: "nat 188 * nat (c_div ?size 188) = segment_capacity n"
    by (simp add: segment_capacity_def c_div_def)
  show ?thesis
    using alloc_fresh [OF alloc] m unfolding k cap
    by (auto simp: LinkTsUploaderSetTsEndUploadCallback_def intro!: that)
qed


subsection \<open>The uploader as an output of the multiplexer\<close>

text \<open>
  \<open>room\<close> is how the queue answers: 188 for a packet it took, 0 for one that does not fit any more. Of the key frames' places the
  uploader keeps ten, with their time stamps cut to 33 bits.
\<close>

definition room :: "nat \<Rightarrow> bytes list \<Rightarrow> int" where
  "room c ps = (if 188 * length ps \<le> c then 188 else 0)"

definition kept_meta :: "LinkKeyFrameMetaInfo list \<Rightarrow> LinkKeyFrameMetaInfo list" where
  "kept_meta ms = map (\<lambda>m. m\<lparr>nTimestamp90Khz := nTimestamp90Khz m AND 0x1FFFFFFFF\<rparr>) (take 10 ms)"

definition kodo_rel :: "nat \<Rightarrow> KodoUploader run \<Rightarrow> recording \<Rightarrow> bool" where
  "kodo_rel c s t \<longleftrightarrow> (\<exists>k. s = Inr k \<and> fills k c (foldl (accept c) [] (fst t)) \<and>
     (\<forall>b \<in> set (fst t). length b = 188) \<and> pUpMeta k = Some (kept_meta (snd t)))"

lemma accepted_packets:
  "\<forall>b \<in> set ps. length b = 188 \<Longrightarrow> foldl (accept c) [] ps = concat (take (c div 188) ps)"
  using foldl_accept_equal [of ps 188 "[]" c] by simp

lemma length_packets: "\<forall>b \<in> set ps. length b = 188 \<Longrightarrow> length (concat ps) = 188 * length ps"
  by (induction ps) auto

lemma packet_fits:
  assumes "\<forall>b \<in> set ps. length b = 188"
  shows "length (foldl (accept c) [] ps) + 188 \<le> c \<longleftrightarrow> 188 * Suc (length ps) \<le> c"
proof -
  have "length (foldl (accept c) [] ps) = 188 * min (length ps) (c div 188)"
    using length_packets [of "take (c div 188) ps"] assms by (auto simp: accepted_packets dest: in_set_takeD)
  then show ?thesis
    by (auto simp: min_def)
qed

lemma push_packet:
  assumes "fills k c (foldl (accept c) [] ps)" and "\<forall>b \<in> set ps. length b = 188" and "length b = 188"
  shows "\<exists>k'. streamPushData a k b = Inr (room c (ps @ [b]), k') \<and> fills k' c (foldl (accept c) [] (ps @ [b])) \<and>
    pUpMeta k' = pUpMeta k"
proof -
  obtain p q where q: "pQueue k = Some p" "tsQueues k p = Some q" "append_inv c 192 q"
      "append_bytes q = foldl (accept c) [] ps"
    using assms(1) by (auto simp: fills_def)
  obtain q' where q': "PushQueue None q (Some b) = Inr (room c (ps @ [b]), q')" "append_inv c 192 q'"
      "append_bytes q' = accept c (append_bytes q) b"
    using PushQueue_append [OF q(3), of b None] assms(3) packet_fits [OF assms(2), of c] q(4)
    by (auto simp: room_def split: if_splits)
  show ?thesis
    using q q' by (auto simp: streamPushData_def fills_def)
qed

interpretation segment_sink: output_simulation "writeTsPacketToMem (kodo_ops a)"
    "\<lambda>s i. and_then s (\<lambda>u. Inr (setKeyframeMetaInfo (kodo_ops a) u i))"
    "tape (room c)" "\<lambda>s m. (fst s, snd s @ [m])" "kodo_rel c" for a c
proof unfold_locales
  fix s t and b :: bytes
  assume rel: "kodo_rel c s t" and b: "length b = 188"
  obtain k where k: "s = Inr k" "fills k c (foldl (accept c) [] (fst t))" "\<forall>b \<in> set (fst t). length b = 188"
      "pUpMeta k = Some (kept_meta (snd t))"
    using rel by (auto simp: kodo_rel_def)
  obtain k' where "streamPushData a k b = Inr (room c (fst t @ [b]), k')" "fills k' c (foldl (accept c) [] (fst t @ [b]))"
      "pUpMeta k' = pUpMeta k"
    using push_packet [OF k(2,3) b] by blast
  then show "fst (writeTsPacketToMem (kodo_ops a) s b) = fst (tape (room c) t b) \<and>
      kodo_rel c (snd (writeTsPacketToMem (kodo_ops a) s b)) (snd (tape (room c) t b))"
    using k b by (auto simp: writeTsPacketToMem_def kodo_ops_def tape_def kodo_rel_def)
next
  fix s t and i :: LinkKeyFrameMetaInfo
  assume "kodo_rel c s t"
  then show "kodo_rel c (and_then s (\<lambda>u. Inr (setKeyframeMetaInfo (kodo_ops a) u i))) (fst t, snd t @ [i])"
    by (auto simp: kodo_rel_def kodo_ops_def LinkAppendKeyframeMetaInfo_def fills_def kept_meta_def)
qed


subsection \<open>Frames of one segment\<close>

fun op_data :: "mux_op \<Rightarrow> bytes" where
  "op_data (MuxAudio d t) = d"
| "op_data (MuxVideo d t k) = d"

fun is_video :: "mux_op \<Rightarrow> bool" where
  "is_video (MuxAudio d t) = False"
| "is_video (MuxVideo d t k) = True"

fun push_frames ::
    "'u LinkTsUploader \<Rightarrow> FrameEnv \<Rightarrow> int \<Rightarrow> 'u FFTsMuxUploader \<Rightarrow> mux_op list \<Rightarrow> 'u FFTsMuxUploader run" where
  "push_frames up e s m [] = Inr m"
| "push_frames up e s m (p # ps) =
     and_then (pushFrame up e m (op_data p) (op_pts p) (is_video p) (is_key p) s False) (\<lambda>(_, m). push_frames up e s m ps)"

text \<open>
  Frames the entry takes as they are: time stamps grow in each stream, and AAC frames come with
  their header. The two numbers are the last time stamps of audio and video.
\<close>

fun plain_frames :: "LinkMediaArg \<Rightarrow> int \<Rightarrow> int \<Rightarrow> mux_op list \<Rightarrow> bool" where
  "plain_frames av a v [] = True"
| "plain_frames av a v (MuxAudio d t # ps) =
     ((a = 0 \<or> a < t) \<and> (LinkMediaArg.nAudioFormat av = LINK_AUDIO_AAC \<longrightarrow> adtsMissing d = Inr False) \<and> plain_frames av t v ps)"
| "plain_frames av a v (MuxVideo d t k # ps) = ((v = 0 \<or> v < t) \<and> plain_frames av a t ps)"

lemma muxFrame_kodo:
  assumes x: "pFmtCtx x = Some cx" and rel: "kodo_rel cap (Inr (pTsUploader x)) (ps, ms)" and len: "length (tsPacket cx) = 188"
    and step: "mux_step (room cap) (ps, ms) cx p = Inr (r, (ps', ms'), cx')"
  obtains k where "muxFrame (kodo_ops a) x (is_video p) (op_data p) (op_pts p) (is_key p) =
      Inr (r, x\<lparr>pTsUploader := k, pFmtCtx := Some cx'\<rparr>)" "kodo_rel cap (Inr k) (ps', ms')"
proof -
  have "same_result (kodo_rel cap)
      (if is_video p then LinkMuxerVideo (writeTsPacketToMem (kodo_ops a)) (keyframeMeta (kodo_ops a)) (Inr (pTsUploader x))
           cx (op_data p) (op_pts p) (is_key p)
       else LinkMuxerAudio (writeTsPacketToMem (kodo_ops a)) (keyframeMeta (kodo_ops a)) (Inr (pTsUploader x))
           cx (op_data p) (op_pts p))
      (mux_step (room cap) (ps, ms) cx p)"
    using segment_sink.LinkMuxerVideo_sim [OF rel len, of a] segment_sink.LinkMuxerAudio_sim [OF rel len, of a]
    by (cases p) (simp_all add: keyframeMeta_def tape_meta_def)
  then show ?thesis
    unfolding step
  proof (cases rule: same_result_cases)
    case (result y s s' c)
    then obtain k where "s = Inr k"
      by (auto simp: kodo_rel_def)
    then show ?thesis
      using result x by (intro that [of k]) (simp_all add: muxFrame_def)
  qed simp
qed

text \<open>What follows an accepted frame leaves the segment's queue alone.\<close>

lemma kodo_rel_command:
  "kodo_rel cap (Inr k) t \<Longrightarrow> kodo_rel cap (Inr (snd (pushCommand c (k\<lparr>nTsLastStartTime := n\<rparr>)))) t"
  by (auto simp: kodo_rel_def fills_def pushCommand_def)

lemma frameAccepted_kodo:
  assumes m: "pTsMuxCtx m = Some x" and rel: "kodo_rel cap (Inr (pTsUploader x)) t"
  obtains m' x' where "frameAccepted (kodo_ops a) e m ts isVideo s False = Inr m'" "pTsMuxCtx m' = Some x'"
    "kodo_rel cap (Inr (pTsUploader x')) t" "pFmtCtx x' = pFmtCtx x" "nPrevAudioTimestamp x' = nPrevAudioTimestamp x"
    "nPrevVideoTimestamp x' = nPrevVideoTimestamp x" "avArg m' = avArg m"
proof -
  define x' where "x' = (if nFirstFrameTimestamp m < 0
    then x\<lparr>pTsUploader := snd (pushCommand (LINK_TSU_START_TIME (getLinkReportTimeInfo e m s))
      ((pTsUploader x)\<lparr>nTsLastStartTime := tiSystimestamp (getLinkReportTimeInfo e m s)\<rparr>))\<rparr> else x)"
  have "\<exists>m'. frameAccepted (kodo_ops a) e m ts isVideo s False = Inr m' \<and> pTsMuxCtx m' = Some x' \<and> avArg m' = avArg m"
    using m by (auto simp: frameAccepted_def Let_def report_def kodo_ops_def reportTimeInfo_def x'_def)
  then show ?thesis
    using that [of _ x'] kodo_rel_command [OF rel] rel by (auto simp: x'_def)
qed

lemma pushFrame_kodo:
  assumes m: "pTsMuxCtx m = Some x" "pFmtCtx x = Some cx" and rel: "kodo_rel cap (Inr (pTsUploader x)) (ps, ms)"
    and len: "length (tsPacket cx) = 188"
    and plain: "plain_frames (avArg m) (nPrevAudioTimestamp x) (nPrevVideoTimestamp x) [p]"
    and step: "mux_step (room cap) (ps, ms) cx p = Inr (0, (ps', ms'), cx')"
  obtains m' x' where
    "pushFrame (kodo_ops a) e m (op_data p) (op_pts p) (is_video p) (is_key p) s False = Inr (0, m')"
    "pTsMuxCtx m' = Some x'" "pFmtCtx x' = Some cx'" "kodo_rel cap (Inr (pTsUploader x')) (ps', ms')" "avArg m' = avArg m"
    "nPrevAudioTimestamp x' = (if is_video p then nPrevAudioTimestamp x else op_pts p)"
    "nPrevVideoTimestamp x' = (if is_video p then op_pts p else nPrevVideoTimestamp x)"
proof (cases p)
  case (MuxVideo d t key)
  obtain k where k: "muxFrame (kodo_ops a) x True d t key = Inr (0, x\<lparr>pTsUploader := k, pFmtCtx := Some cx'\<rparr>)"
      "kodo_rel cap (Inr k) (ps', ms')"
    using muxFrame_kodo [OF m(2) rel len step, of a] MuxVideo by auto
  let ?x = "x\<lparr>pTsUploader := k, pFmtCtx := Some cx', nPrevVideoTimestamp := t\<rparr>"
  obtain m' x' where m': "frameAccepted (kodo_ops a) e (m\<lparr>pTsMuxCtx := Some ?x\<rparr>) t True s False = Inr m'"
      "pTsMuxCtx m' = Some x'" "kodo_rel cap (Inr (pTsUploader x')) (ps', ms')" "pFmtCtx x' = pFmtCtx ?x"
      "nPrevAudioTimestamp x' = nPrevAudioTimestamp ?x" "nPrevVideoTimestamp x' = nPrevVideoTimestamp ?x" "avArg m' = avArg m"
    by (rule frameAccepted_kodo [of "m\<lparr>pTsMuxCtx := Some ?x\<rparr>" ?x cap "(ps', ms')" a e t True s]) (use k in auto)
  show ?thesis
    using m' k m plain MuxVideo by (intro that [of m' x']) (auto simp: pushFrame_def Let_def)
next
  case (MuxAudio d t)
  let ?x0 = "x\<lparr>nPrevAudioTimestamp := t\<rparr>"
  obtain k where k: "muxFrame (kodo_ops a) ?x0 False d t False = Inr (0, ?x0\<lparr>pTsUploader := k, pFmtCtx := Some cx'\<rparr>)"
      "kodo_rel cap (Inr k) (ps', ms')"
    using muxFrame_kodo [of ?x0 cx cap ps ms p 0 ps' ms' cx' a] m(2) rel len step MuxAudio by auto
  let ?x = "?x0\<lparr>pTsUploader := k, pFmtCtx := Some cx'\<rparr>"
  obtain m' x' where m': "frameAccepted (kodo_ops a) e (m\<lparr>pTsMuxCtx := Some ?x\<rparr>) t False s False = Inr m'"
      "pTsMuxCtx m' = Some x'" "kodo_rel cap (Inr (pTsUploader x')) (ps', ms')" "pFmtCtx x' = pFmtCtx ?x"
      "nPrevAudioTimestamp x' = nPrevAudioTimestamp ?x" "nPrevVideoTimestamp x' = nPrevVideoTimestamp ?x" "avArg m' = avArg m"
    by (rule frameAccepted_kodo [of "m\<lparr>pTsMuxCtx := Some ?x\<rparr>" ?x cap "(ps', ms')" a e t False s]) (use k in auto)
  show ?thesis
    using m' k m plain MuxAudio by (intro that [of m' x']) (auto simp: pushFrame_def Let_def)
qed


lemma room_nonneg: "0 \<le> room c ps"
  by (simp add: room_def)

lemma push_frames_kodo:
  assumes "pTsMuxCtx m = Some x" and "pFmtCtx x = Some cx" and "kodo_rel cap (Inr (pTsUploader x)) (ps, ms)"
    and "run_inv (room cap) (muxer_arg (avArg m)) sent ps ms cx" and "has_stream (muxer_arg (avArg m))"
    and "ops_ok (muxer_arg (avArg m)) (nPcrFlag cx = 0) frames"
    and "plain_frames (avArg m) (nPrevAudioTimestamp x) (nPrevVideoTimestamp x) frames"
  shows "\<exists>m' x' ps' ms' cx'. push_frames (kodo_ops a) e s m frames = Inr m' \<and> pTsMuxCtx m' = Some x' \<and>
    kodo_rel cap (Inr (pTsUploader x')) (ps', ms') \<and>
    run_inv (room cap) (muxer_arg (avArg m)) (sent @ frames) ps' ms' cx'"
  using assms
proof (induction frames arbitrary: m x cx ps ms sent)
  case Nil
  then show ?case by auto
next
  case (Cons p frames)
  let ?A = "muxer_arg (avArg m)"
  have one: "ops_ok ?A (nPcrFlag cx = 0) [p]"
    using Cons.prems(6) by (cases p) auto
  have mi: "mux_inv ?A cx ps"
    using Cons.prems(4) by (simp add: run_inv_def)
  obtain tabs qs r ps' ms' cx' where st: "mux_step (room cap) (ps, ms) cx p = Inr (r, (ps', ms'), cx')"
    and sd: "step_done (room cap) ?A cx (ps, ms) p tabs qs (r, (ps', ms'), cx')"
    using mux_step_tape [OF mi Cons.prems(5) one, of "room cap" ms] by (metis prod.exhaust)
  have r: "r = 0"
    using sd room_nonneg by (auto simp: step_done_def)
  have len: "length (tsPacket cx) = 188"
    using mi by (simp add: mux_inv_def)
  have plain: "plain_frames (avArg m) (nPrevAudioTimestamp x) (nPrevVideoTimestamp x) [p]"
    using Cons.prems(7) by (cases p) auto
  obtain m' x' where m': "pushFrame (kodo_ops a) e m (op_data p) (op_pts p) (is_video p) (is_key p) s False = Inr (0, m')"
      "pTsMuxCtx m' = Some x'" "pFmtCtx x' = Some cx'" "kodo_rel cap (Inr (pTsUploader x')) (ps', ms')" "avArg m' = avArg m"
      "nPrevAudioTimestamp x' = (if is_video p then nPrevAudioTimestamp x else op_pts p)"
      "nPrevVideoTimestamp x' = (if is_video p then op_pts p else nPrevVideoTimestamp x)"
    by (rule pushFrame_kodo [OF Cons.prems(1-3) len plain st [unfolded r]])
  have "ops_ok ?A (nPcrFlag cx' = 0) frames"
    using Cons.prems(6) sd by (cases p) (auto simp: step_done_def)
  moreover have "plain_frames (avArg m) (nPrevAudioTimestamp x') (nPrevVideoTimestamp x') frames"
    using Cons.prems(7) m'(6,7) by (cases p) auto
  moreover have "run_inv (room cap) ?A (sent @ [p]) ps' ms' cx'"
    by (rule run_inv_step [OF Cons.prems(4) sd])
  ultimately show ?case
    using Cons.IH [OF m'(2-4), of "sent @ [p]"] m'(1,5) Cons.prems(5) by simp
qed

text \<open>
  C15: A newly started uploader is given the frames of a segment, in any interleaving of audio and video. Then the bytes that
  will be uploaded are whole transport stream packets, from the first on, as many as the
  segment's buffer has room for, and a receiver of these packets gets back exactly the frames of each stream.
\<close>

theorem segment_holds_frames:
  assumes "LinkTsMuxUploaderStart e0 (freshFrames av n b kp) = Inr (0, m0)" and "n \<le> 0 \<or> 102400 < n"
    and "has_stream (muxer_arg av)" and "ops_ok (muxer_arg av) True frames" and "plain_frames av 0 0 frames"
  shows "\<exists>m ps. push_frames (kodo_ops a) e s m0 frames = Inr m \<and>
    segment_buffer m = Some (concat (take (segment_capacity n div 188) ps)) \<and> (\<forall>p \<in> set ps. length p = 188) \<and>
    demux LINK_VIDEO_PID ps = map (frame_unit (muxer_arg av)) (filter (\<lambda>p. op_pid p = LINK_VIDEO_PID) frames) \<and>
    demux LINK_AUDIO_PID ps = map (frame_unit (muxer_arg av)) (filter (\<lambda>p. op_pid p = LINK_AUDIO_PID) frames)"
proof -
  let ?A = "muxer_arg av" and ?c = "segment_capacity n"
  obtain x p q where m0: "m0 = (freshFrames av n b kp)\<lparr>pTsMuxCtx := Some x\<rparr>" "pFmtCtx x = Some (freshContext ?A)"
    "nPrevAudioTimestamp x = 0" "nPrevVideoTimestamp x = 0"
    and q: "pQueue (pTsUploader x) = Some p" "tsQueues (pTsUploader x) p = Some q" "pUpMeta (pTsUploader x) = Some []"
    "nLen q = 0" "policy q = TSQ_APPEND_FIX" "nCap q = ?c" "nItemLen q = 192"
    "nIsAvailableAfterTimeout q" "nQState q = 0" "pData q = replicate (nat (if n \<le> 0 then 1474560 else n)) 1"
    by (rule started [OF assms(1)])
  have "?c \<le> length (pData q)"
    using assms(2) q(10) by (auto simp: segment_capacity_def)
  then have "fills (pTsUploader x) ?c []"
    using q by (auto simp: fills_def append_inv_def append_bytes_def)
  then have rel: "kodo_rel ?c (Inr (pTsUploader x)) ([], [])"
    using q(3) by (simp add: kodo_rel_def kept_meta_def)
  have av: "avArg m0 = av" and ctx: "pTsMuxCtx m0 = Some x"
    by (simp_all add: m0(1) freshFrames_def)
  have pcr: "nPcrFlag (freshContext ?A) = 0"
    by (simp add: freshContext_def)
  obtain m x' ps ms cx where run: "push_frames (kodo_ops a) e s m0 frames = Inr m" "pTsMuxCtx m = Some x'"
      "kodo_rel ?c (Inr (pTsUploader x')) (ps, ms)" "run_inv (room ?c) ?A frames ps ms cx"
    using push_frames_kodo [OF ctx m0(2) rel, of "[]" frames a e s] run_inv_fresh [of "room ?c" ?A] assms(3-5) m0(3,4) av pcr
    by auto
  then have packets: "\<forall>p \<in> set ps. length p = 188" and "fills (pTsUploader x') ?c (foldl (accept ?c) [] ps)"
    by (auto simp: kodo_rel_def)
  then have "segment_buffer m = Some (concat (take (?c div 188) ps))"
    using run(2) by (auto simp: segment_buffer_def fills_def LinkGetQueueBuffer_def append_inv_def append_bytes_def accepted_packets)
  then show ?thesis
    using run packets room_nonneg by (auto simp: run_inv_def)
qed


definition goodStart :: StartEnv where
  "goodStart = \<lparr>stUploader = \<lparr>newAlloc = \<lparr>metaOk = True, poolOk = True, structOk = True, mutexRet = 0, condRet = 0\<rparr>,
     newStructOk = True, cmdQueueRet = 0, cbQueueRet = 0, memMutexRet = 0, uploadMutexRet = 0, workerRet = 0,
     cbWorkerRet = 0\<rparr>, stContext = True, stMuxer = True, stMutex = 0\<rparr>"

definition goodAlloc :: TsAlloc where
  "goodAlloc = \<lparr>metaOk = True, poolOk = True, structOk = True, mutexRet = 0, condRet = 0\<rparr>"

lemma goodStart_works:
  assumes "n \<le> 0 \<or> 188 \<le> n"
  shows "\<exists>m0. LinkTsMuxUploaderStart goodStart (freshFrames av n b kp) = Inr (0, m0)"
  using assms
  by (auto simp: LinkTsMuxUploaderStart_def newTsMuxContext_def LinkNewTsUploader_def goodStart_def getBufferSize_def Let_def
      allocDataQueueAndUploadMeta_def allocTs_def freshUploader_def freshFrames_def LinkNewCircleQueue_def upt_rec
      LinkNewTsMuxerContext_def c_div_def split: prod.splits option.splits)

theorem segment_holds_frames_witness:
  "\<exists>m0 m ps. LinkTsMuxUploaderStart goodStart (freshFrames h264_media 0 True someKeeper) = Inr (0, m0) \<and>
     push_frames (kodo_ops goodAlloc) someEnv 1 m0 [MuxVideo (replicate 400 7) 40 True, MuxAudio [1, 2, 3] 50] = Inr m \<and>
     segment_buffer m = Some (concat (take 7843 ps)) \<and>
     demux LINK_AUDIO_PID ps = [frame_unit (muxer_arg h264_media) (MuxAudio [1, 2, 3] 50)]"
proof -
  obtain m0 where m0: "LinkTsMuxUploaderStart goodStart (freshFrames h264_media 0 True someKeeper) = Inr (0, m0)"
    using goodStart_works [of 0] by blast
  show ?thesis
    using segment_holds_frames [OF m0, of "[MuxVideo (replicate 400 7) 40 True, MuxAudio [1, 2, 3] 50]" goodAlloc someEnv 1] m0
    by (auto simp: segment_capacity_def muxer_arg_def h264_media_def has_stream_def simp del: push_frames.simps)
qed

subsection \<open>Small segment buffers\<close>

fun push_packets :: "'u LinkTsUploader \<Rightarrow> 'u \<Rightarrow> bytes list \<Rightarrow> 'u run" where
  "push_packets up u [] = Inr u"
| "push_packets up u (d # ds) = and_then (Push up u d) (\<lambda>(_, u). push_packets up u ds)"

text \<open>A queue that believes to have \<open>c\<close> bytes over a block of only \<open>l\<close>.\<close>

definition overbooked :: "KodoUploader \<Rightarrow> nat \<Rightarrow> nat \<Rightarrow> nat \<Rightarrow> bool" where
  "overbooked k c l n \<longleftrightarrow> (\<exists>p q. pQueue k = Some p \<and> tsQueues k p = Some q \<and> nLen q = n \<and> nCap q = c \<and> length (pData q) = l \<and>
     policy q = TSQ_APPEND_FIX \<and> nItemLen q = 192 \<and> nIsAvailableAfterTimeout q \<and> nQState q = 0)"

lemma push_overbooked:
  assumes "overbooked k c l n" and "length d = 188" and "n + 188 \<le> c"
  shows "if n + 188 \<le> l then \<exists>r k'. Push (kodo_ops a) k d = Inr (r, k') \<and> overbooked k' c l (n + 188)
    else Push (kodo_ops a) k d = Inl Out_of_bounds"
  using assms
  by (auto simp: overbooked_def kodo_ops_def streamPushData_def PushQueue_def queueAppendPush_def queueAppendCopy_def
      write_at_def count_push_def)

lemma push_packets_overbooked:
  assumes "overbooked k c l n" and "\<forall>d \<in> set ds. length d = 188" and "n + 188 * length ds \<le> l" and "l \<le> c"
  shows "\<exists>k'. push_packets (kodo_ops a) k ds = Inr k' \<and> overbooked k' c l (n + 188 * length ds)"
  using assms
proof (induction ds arbitrary: k n)
  case (Cons d ds)
  obtain r k' where "Push (kodo_ops a) k d = Inr (r, k')" "overbooked k' c l (n + 188)"
    using push_overbooked [OF Cons.prems(1), of d a] Cons.prems by auto
  then show ?case
    using Cons.IH [of k' "n + 188"] Cons.prems by (auto simp: algebra_simps)
qed auto

text \<open>
  C19: When the application asks for segments of at most 102400 bytes, the queue is given 1440 KB over a slot of the
  size asked for: the packet after the last that fits is written past the slot.
\<close>

theorem small_segment_buffer_overruns:
  assumes "LinkTsMuxUploaderStart e0 (freshFrames av n b kp) = Inr (0, m0)" and "pTsMuxCtx m0 = Some x"
    and "0 < n" and "n \<le> 102400" and "length ds = nat n div 188" and "\<forall>d \<in> set ds. length d = 188" and "length d = 188"
  shows "\<exists>u. push_packets (kodo_ops a) (pTsUploader x) ds = Inr u \<and> Push (kodo_ops a) u d = Inl Out_of_bounds"
proof -
  have ob: "overbooked (pTsUploader x) (188 * 7843) (nat n) 0"
    using assms(2-4) by (rule_tac started [OF assms(1)]) (auto simp: overbooked_def segment_capacity_def freshFrames_def)
  have le: "188 * length ds \<le> nat n" "nat n < 188 * length ds + 188" "nat n \<le> 188 * 7843" "188 * length ds + 188 \<le> 188 * 7843"
    using assms(3,4) by (auto simp: assms(5))
  obtain u where u: "push_packets (kodo_ops a) (pTsUploader x) ds = Inr u" "overbooked u (188 * 7843) (nat n) (188 * length ds)"
    using push_packets_overbooked [OF ob assms(6), of a] le by auto
  then show ?thesis
    using push_overbooked [OF u(2) assms(7), of a] le by auto
qed


theorem small_segment_buffer_overruns_witness:
  "\<exists>m0 x u. LinkTsMuxUploaderStart goodStart (freshFrames h264_media 1000 True someKeeper) = Inr (0, m0) \<and>
     pTsMuxCtx m0 = Some x \<and> push_packets (kodo_ops goodAlloc) (pTsUploader x) (replicate 5 (replicate 188 0)) = Inr u \<and>
     Push (kodo_ops goodAlloc) u (replicate 188 0) = Inl Out_of_bounds"
proof -
  obtain m0 where m0: "LinkTsMuxUploaderStart goodStart (freshFrames h264_media 1000 True someKeeper) = Inr (0, m0)"
    using goodStart_works [of 1000 h264_media True someKeeper] by auto
  obtain x where x: "pTsMuxCtx m0 = Some x"
    by (rule started [OF m0]) simp
  have "\<exists>u. push_packets (kodo_ops goodAlloc) (pTsUploader x) (replicate 5 (replicate 188 0)) = Inr u \<and>
      Push (kodo_ops goodAlloc) u (replicate 188 0) = Inl Out_of_bounds"
    by (rule small_segment_buffer_overruns [OF m0 x]) auto
  then show ?thesis
    using m0 x by blast
qed

end
