(* ===== verification/HttpTools.thy ===== *)
theory HttpTools
  imports Session Sha1
begin

section \<open>Signed requests and tokens (httptools.c, tsuploaderapi.c)\<close>

text \<open>
  Requests to the configuration and report servers are signed: the signature is the URL-safe base64 of the HMAC of a canonical text of
  the request. \<open>LinkVerify\<close> checks a token that is signed the same way. The HTTP client is a parameter: a
  request is what it is asked to send, a reply is what it answers.
\<close>

subsection \<open>Signatures\<close>

definition find_byte :: "u8 \<Rightarrow> bytes \<Rightarrow> nat option" where
  "find_byte x b = (let n = length (takeWhile (\<lambda>y. y \<noteq> x) b) in if n < length b then Some n else None)"

text \<open>
  The bounded prints into \<open>buf\<close> cut nothing off unless the text exceeds the buffer, and then the unbounded writes after them fall
  outside. \<open>junk\<close> is the context's buffer, \<open>outLen\<close> the room for the signature.
\<close>

definition GetHttpRequestSign ::
    "heap_answer \<Rightarrow> bytes \<Rightarrow> bytes \<Rightarrow> bytes \<Rightarrow> bytes \<Rightarrow> bytes option \<Rightarrow> bytes \<Rightarrow> nat \<Rightarrow> (int \<times> nat \<times> bytes) run" where
  "GetHttpRequestSign mem junk key meth url contentType data outLen =
     (if length url < 3 then Inl Out_of_bounds
      else
        let isHttps = (take 4 url = [104, 116, 116, 112] \<and> 4 < length url \<and> url ! 4 = 115);
            start = 7 + (if isHttps then 1 else 0)
        in if length url < start then Inl Out_of_bounds
           else (case find_byte 47 (drop start url) of
             None \<Rightarrow> Inr (LINK_ARG_ERROR, outLen, [])
           | Some nHostLen \<Rightarrow>
               if 192 \<le> length url then Inl Assertion_failed
               else
                 let host = take nHostLen (drop start url);
                     text = meth @ [32] @ drop (start + nHostLen) url @ [10, 72, 111, 115, 116, 58, 32] @ host
                       @ (case contentType of None \<Rightarrow> []
                          | Some ct \<Rightarrow> [10, 67, 111, 110, 116, 101, 110, 116, 45, 84, 121, 112, 101, 58, 32] @ ct)
                       @ [10, 10] @ data
                 in (case malloc mem (length url + length data + 256) of
                      None \<Rightarrow> Inr (LINK_NO_MEMORY, outLen, [])
                    | Some buf \<Rightarrow>
                        and_then (write_at 0 text buf) (\<lambda>buf.
                        case hmac_sha1 junk key (take (length text) buf) 20 of (ret, hsha1) \<Rightarrow>
                          if ret \<noteq> 20 then Inr (LINK_ERROR, outLen, [])
                          else and_then (urlsafe_b64_encode hsha1 (Some outLen)) (\<lambda>(n, out).
                            Inr (LINK_SUCCESS, n, out))))))"

subsection \<open>Requests\<close>

record HttpRequest =
  reqPost :: bool
  reqUri :: bytes
  reqBody :: bytes
  reqContentType :: "bytes option"
  reqAuthorization :: "bytes option"

datatype HttpReply = Http_timeout | Http_failed | Http_reply int bytes

text \<open>Answers of the HTTP client: whether a request object, its URI and its preparation work, and the reply.\<close>

record HttpClient =
  httpNew :: bool
  httpUriOk :: bool
  httpPrepared :: bool
  httpReply :: "HttpRequest \<Rightarrow> HttpReply"

text \<open>"application/x-www-form-urlencoded"\<close>

definition form_type :: bytes where
  "form_type = [97, 112, 112, 108, 105, 99, 97, 116, 105, 111, 110, 47, 120, 45, 119, 119, 119, 45, 102, 111, 114, 109, 45,
     117, 114, 108, 101, 110, 99, 111, 100, 101, 100]"

text \<open>"QiniuLinkingDevice ", put in front of the token in a block of 112 bytes\<close>

definition device_prefix :: bytes where
  "device_prefix = [81, 105, 110, 105, 117, 76, 105, 110, 107, 105, 110, 103, 68, 101, 118, 105, 99, 101, 32]"

text \<open>
  The results are the code, the length given to \<open>*pRespLen\<close> and the bytes written to \<open>pBuf\<close>. The code always
  is \<open>LINK_SUCCESS\<close> after a reply, whether or not the body was cut off.
\<close>

definition linkSimpleHttpRequest ::
    "HttpClient \<Rightarrow> bool \<Rightarrow> bytes \<Rightarrow> nat \<Rightarrow> bytes \<Rightarrow> bytes option \<Rightarrow> bytes option \<Rightarrow> (int \<times> nat option \<times> bytes) run" where
  "linkSimpleHttpRequest http isPost pUrl nBufLen pReqBody pContentType pToken =
     (if \<not> httpNew http then Inr (LINK_NO_MEMORY, None, [])
      else if \<not> httpUriOk http then Inr (LINK_ARG_ERROR, None, [])
      else
        and_then (case pToken of
            None \<Rightarrow> Inr None
          | Some token \<Rightarrow> if 112 < length device_prefix + length token + 1 then Inl Out_of_bounds
              else Inr (Some (c_string (device_prefix @ token)))) (\<lambda>auth.
        let req = \<lparr>reqPost = isPost, reqUri = pUrl, reqBody = (if isPost then pReqBody else []),
              reqContentType = (case pContentType of Some ct \<Rightarrow> Some ct
                 | None \<Rightarrow> if isPost then Some form_type else None),
              reqAuthorization = auth\<rparr>
        in if \<not> httpPrepared http then Inr (LINK_GHTTP_FAIL, None, [])
           else (case httpReply http req of
               Http_timeout \<Rightarrow> Inr (LINK_TIMEOUT, None, [])
             | Http_failed \<Rightarrow> Inr (LINK_GHTTP_FAIL, None, [])
             | Http_reply httpCode body \<Rightarrow>
                 if c_div httpCode 100 \<noteq> 2 then Inr (httpCode, None, [])
                 else if nBufLen = 0 then Inl Out_of_bounds
                 else
                   let nCopyLen = (if nBufLen - 1 < length body then nBufLen - 1 else length body) in
                   Inr (LINK_SUCCESS, Some (length body), take nCopyLen body @ [0]))))"

definition LinkSimpleHttpGet :: "HttpClient \<Rightarrow> bytes \<Rightarrow> nat \<Rightarrow> (int \<times> nat option \<times> bytes) run" where
  "LinkSimpleHttpGet http url n = linkSimpleHttpRequest http False url n [] None None"

definition LinkSimpleHttpGetWithToken :: "HttpClient \<Rightarrow> bytes \<Rightarrow> nat \<Rightarrow> bytes option \<Rightarrow> (int \<times> nat option \<times> bytes) run" where
  "LinkSimpleHttpGetWithToken http url n token = linkSimpleHttpRequest http False url n [] None token"

definition LinkSimpleHttpPost ::
    "HttpClient \<Rightarrow> bytes \<Rightarrow> nat \<Rightarrow> bytes \<Rightarrow> bytes option \<Rightarrow> (int \<times> nat option \<times> bytes) run" where
  "LinkSimpleHttpPost http url n body ct = linkSimpleHttpRequest http True url n body ct None"

definition LinkSimpleHttpPostWithToken ::
    "HttpClient \<Rightarrow> bytes \<Rightarrow> nat \<Rightarrow> bytes \<Rightarrow> bytes option \<Rightarrow> bytes option \<Rightarrow> (int \<times> nat option \<times> bytes) run" where
  "LinkSimpleHttpPostWithToken http url n body ct token = linkSimpleHttpRequest http True url n body ct token"

definition LinkGetUserConfig :: "HttpClient \<Rightarrow> bytes \<Rightarrow> nat \<Rightarrow> bytes option \<Rightarrow> (int \<times> nat option \<times> bytes) run" where
  "LinkGetUserConfig http url n token = linkSimpleHttpRequest http False url n [] None token"

text \<open>The JSON reader is a parameter; it gets the C string in the buffer.\<close>

definition LinkGetUploadToken ::
    "(bytes \<Rightarrow> 'j option) \<Rightarrow> HttpClient \<Rightarrow> bytes \<Rightarrow> bytes option \<Rightarrow> (int \<times> 'j option) run" where
  "LinkGetUploadToken parse http url token =
     and_then (LinkSimpleHttpGetWithToken http url 2560 token) (\<lambda>(ret, nRespLen, resp).
       if ret \<noteq> LINK_SUCCESS then Inr (ret, None)
       else (case nRespLen of None \<Rightarrow> Inl Null_deref
         | Some n \<Rightarrow> if 2559 < n then Inl Assertion_failed
             else (case parse (c_string resp) of
                 None \<Rightarrow> Inr (LINK_JSON_FORMAT, None)
               | Some j \<Rightarrow> Inr (LINK_SUCCESS, Some j))))"

subsection \<open>Tokens\<close>

text \<open>\<open>strtok\<close> skips empty fields. \<open>to_block\<close> is \<open>strncpy\<close> into a zeroed block, read back as a string.\<close>

fun fields :: "u8 \<Rightarrow> bytes \<Rightarrow> bytes \<Rightarrow> bytes list" where
  "fields d acc [] = (if acc = [] then [] else [acc])"
| "fields d acc (x # xs) = (if x = d then (if acc = [] then [] else [acc]) @ fields d [] xs else fields d (acc @ [x]) xs)"

definition to_block :: "nat \<Rightarrow> bytes \<Rightarrow> bytes run" where
  "to_block n src = (let s = c_string src in if length s < n then Inr s else Inl Out_of_bounds)"

definition starts_with :: "bytes \<Rightarrow> bytes \<Rightarrow> bool" where
  "starts_with p s = (take (length p) s = p)"

abbreviation (input) LINK_TRUE :: int where "LINK_TRUE \<equiv> 1"

text \<open>\<open>memcmp\<close> against a field compares as far as the other operand goes.\<close>

definition LinkVerify :: "bytes \<Rightarrow> bytes option \<Rightarrow> bytes option \<Rightarrow> bytes option \<Rightarrow> int run" where
  "LinkVerify junk pAk pSk pToken =
     (case (pAk, pSk, pToken) of
        (Some ak, Some sk, Some token) \<Rightarrow>
          if 512 < length ak \<or> 512 < length sk \<or> 4096 < length token then Inr LINK_ERROR
          else and_then (to_block 4096 token) (\<lambda>token.
            case fields 58 [] token of
              parserDak # encodedSign # encodedPutPolicy # _ \<Rightarrow>
                and_then (to_block 512 ak) (\<lambda>ak.
                  if \<not> starts_with ak parserDak then Inr LINK_ERROR
                  else and_then (to_block 512 sk) (\<lambda>sk.
                    case hmac_sha1 junk sk encodedPutPolicy 20 of (ret, md) \<Rightarrow>
                      if ret \<noteq> 20 then Inr 0
                      else and_then (urlsafe_b64_encode md (Some 100)) (\<lambda>(n, test).
                        if starts_with test encodedSign then Inr LINK_TRUE else Inr 0)))
            | _ \<Rightarrow> Inr LINK_ERROR)
      | _ \<Rightarrow> Inr LINK_ERROR)"


subsection \<open>What is signed\<close>

definition http_schemes :: "bytes list" where
  "http_schemes = [[104, 116, 116, 112, 58, 47, 47], [104, 116, 116, 112, 115, 58, 47, 47]]"

text \<open>The canonical text: method and path, host, content type, an empty line, the body.\<close>

definition signed_text :: "bytes \<Rightarrow> bytes \<Rightarrow> bytes \<Rightarrow> bytes option \<Rightarrow> bytes \<Rightarrow> bytes" where
  "signed_text meth host path contentType data =
     meth @ [32] @ path @ [10, 72, 111, 115, 116, 58, 32] @ host @
     (case contentType of None \<Rightarrow> [] | Some ct \<Rightarrow> [10, 67, 111, 110, 116, 101, 110, 116, 45, 84, 121, 112, 101, 58, 32] @ ct) @
     [10, 10] @ data"

lemma find_byte_host: "47 \<notin> set host \<Longrightarrow> find_byte 47 (host @ 47 # path) = Some (length host)"
  by (simp add: find_byte_def takeWhile_append)

lemma length_hmac: "length (rfc2104_hmac_sha1 k d) = 20"
proof -
  have "length (fips_sha1 m) = 20" for m
    by (cases "fold (\<lambda>b h. fips_compress h b) (chunks (fips_pad m)) sha_iv") (simp add: fips_sha1_def be_bytes_def)
  then show ?thesis
    by (simp add: rfc2104_hmac_sha1_def Let_def)
qed

text \<open>Whatever follows the scheme, a short URL is signed or refused without fault.\<close>

lemma GetHttpRequestSign_total:
  assumes "8 \<le> length url" and "length url < 192" and "length meth + (case contentType of None \<Rightarrow> 0 | Some ct \<Rightarrow> length ct) \<le> 231"
    and "length data < 2 ^ 28" and "length key < 2 ^ 29" and "length junk = 64" and "28 \<le> outLen"
  shows "\<exists>ret n sig. GetHttpRequestSign heap junk key meth url contentType data outLen = Inr (ret, n, sig) \<and>
    (ret = LINK_SUCCESS \<longrightarrow> n = 28 \<and> length sig = 28)"
proof -
  define start where "start = 7 + (if take 4 url = [104, 116, 116, 112] \<and> 4 < length url \<and> url ! 4 = 115 then 1 else 0 :: nat)"
  have start: "start \<le> 8" by (simp add: start_def)
  have bounds: "\<not> length url < 3" "\<not> length url < start" "\<not> 192 \<le> length url"
    using start assms(1,2) by simp_all
  note run = GetHttpRequestSign_def [of heap junk key meth url contentType data outLen, unfolded Let_def start_def [symmetric]
      if_not_P [OF bounds(1)] if_not_P [OF bounds(2)] if_not_P [OF bounds(3)]]
  show ?thesis
  proof (cases "find_byte 47 (drop start url)")
    case None
    then show ?thesis by (simp add: run)
  next
    case (Some n)
    let ?t = "signed_text meth (take n (drop start url)) (drop (start + n) url) contentType data"
    have canon: "meth @ [32] @ drop (start + n) url @ [10, 72, 111, 115, 116, 58, 32] @ take n (drop start url) @
        (case contentType of None \<Rightarrow> [] | Some ct \<Rightarrow> [10, 67, 111, 110, 116, 101, 110, 116, 45, 84, 121, 112, 101, 58, 32] @ ct) @
        [10, 10] @ data = ?t"
      by (simp add: signed_text_def)
    have len: "length ?t \<le> length url + length data + 256"
      using assms(3) by (auto simp: signed_text_def split: option.splits)
    then have "length ?t < 2 ^ 29"
      using assms(2,4) by simp
    then have mac: "hmac_sha1 junk key ?t 20 = (20, rfc2104_hmac_sha1 key ?t)"
      using hmac_sha1_rfc2104 [OF assms(6,5)] by simp
    have out: "urlsafe_b64_encode (rfc2104_hmac_sha1 key ?t) (Some outLen) = Inr (28, enc_all (rfc2104_hmac_sha1 key ?t))"
      using urlsafe_b64_encode_all [of "rfc2104_hmac_sha1 key ?t" outLen] assms(7) by (simp add: length_hmac)
    have w: "write_at 0 ?t b = Inr (overwrite 0 ?t b)" "take (length ?t) (overwrite 0 ?t b) = ?t"
      if "length b = length url + length data + 256" for b
      using len that by (simp_all add: write_at_def overwrite_def)
    show ?thesis
    proof (cases "malloc heap (length url + length data + 256)")
      case None
      then show ?thesis by (simp add: run Some)
    next
      case block: (Some b)
      show ?thesis
        unfolding run Some option.case canon block w [OF malloc_length [OF block]] and_then_Inr mac prod.case out
        by (simp add: length_enc_all length_hmac)
    qed
  qed
qed

lemma GetHttpRequestSign_signs:
  assumes "scheme \<in> set http_schemes" and "47 \<notin> set host" and "length (scheme @ host @ 47 # path) < 192"
    and "length meth + (case contentType of None \<Rightarrow> 0 | Some ct \<Rightarrow> length ct) \<le> 231" and "length data < 2 ^ 28"
    and "length key < 2 ^ 29" and "length junk = 64" and "28 \<le> outLen"
  shows "GetHttpRequestSign (Some heap) junk key meth (scheme @ host @ 47 # path) contentType data outLen =
    Inr (LINK_SUCCESS, 28, enc_all (rfc2104_hmac_sha1 key (signed_text meth host (47 # path) contentType data)))"
proof -
  let ?url = "scheme @ host @ 47 # path" and ?text = "signed_text meth host (47 # path) contentType data"
  define start where "start = 7 + (if take 4 ?url = [104, 116, 116, 112] \<and> 4 < length ?url \<and> ?url ! 4 = 115 then 1 else 0 :: nat)"
  have start: "start = length scheme" "7 \<le> length scheme"
    using assms(1) by (auto simp: http_schemes_def start_def)
  have fits: "length ?text \<le> length ?url + length data + 256"
    using assms(4) start(2) by (auto simp: signed_text_def split: option.splits)
  have "length ?text < 2 ^ 29"
    using fits assms(3,5) by simp
  then have mac: "hmac_sha1 junk key ?text 20 = (20, rfc2104_hmac_sha1 key ?text)"
    using hmac_sha1_rfc2104 [OF assms(7,6)] by simp
  have out: "urlsafe_b64_encode (rfc2104_hmac_sha1 key ?text) (Some outLen) = Inr (28, enc_all (rfc2104_hmac_sha1 key ?text))"
    using urlsafe_b64_encode_all [of "rfc2104_hmac_sha1 key ?text" outLen] assms(8) by (simp add: length_hmac)
  have host: "find_byte 47 (drop start ?url) = Some (length host)" "take (length host) (drop start ?url) = host"
      "drop (start + length host) ?url = 47 # path"
    using find_byte_host [OF assms(2)] by (simp_all add: start(1))
  have w: "write_at 0 ?text (map heap [0..<length ?url + length data + 256]) =
      Inr (overwrite 0 ?text (map heap [0..<length ?url + length data + 256]))"
    using fits by (simp add: write_at_def)
  have block: "take (length ?text) (overwrite 0 ?text b) = ?text" for b
    by (simp add: overwrite_def)
  have canon: "meth @ [32] @ (47 # path) @ [10, 72, 111, 115, 116, 58, 32] @ host @
      (case contentType of None \<Rightarrow> [] | Some ct \<Rightarrow> [10, 67, 111, 110, 116, 101, 110, 116, 45, 84, 121, 112, 101, 58, 32] @ ct) @
      [10, 10] @ data = ?text"
    by (simp add: signed_text_def)
  have bounds: "\<not> length ?url < 3" "\<not> length ?url < start" "\<not> 192 \<le> length ?url"
    using start assms(3) by simp_all
  show ?thesis
    unfolding GetHttpRequestSign_def Let_def start_def [symmetric] if_not_P [OF bounds(1)] if_not_P [OF bounds(2)]
      if_not_P [OF bounds(3)] host option.case canon malloc_def option.map w and_then_Inr block mac prod.case out
    by simp
qed

text \<open>
  C26: The signature of a request is the URL-safe base64, 28 characters, of the HMAC-SHA1 of its method, path, host, content type
  and body; the text fits the block made for it for every method and content type of at most 231 bytes together.
\<close>

theorem request_signature:
  assumes "scheme \<in> set http_schemes" and "47 \<notin> set host" and "length (scheme @ host @ 47 # path) < 192"
    and "length meth + (case contentType of None \<Rightarrow> 0 | Some ct \<Rightarrow> length ct) \<le> 231" and "length data < 2 ^ 28"
    and "length key < 2 ^ 29" and "length junk = 64" and "28 \<le> outLen"
  shows "GetHttpRequestSign (Some heap) junk key meth (scheme @ host @ 47 # path) contentType data outLen =
    Inr (LINK_SUCCESS, 28, enc_all (rfc2104_hmac_sha1 key (signed_text meth host (47 # path) contentType data)))"
  using assms by (rule GetHttpRequestSign_signs)

theorem request_signature_witness:
  "\<exists>sig. length sig = 28 \<and> GetHttpRequestSign (Some (\<lambda>_. 0)) (replicate 64 7) [1, 2] [80, 79, 83, 84]
     [104, 116, 116, 112, 58, 47, 47, 97, 46, 98, 47, 118, 49] None [123, 125] 30 = Inr (LINK_SUCCESS, 28, sig)"
  using request_signature [of "[104, 116, 116, 112, 58, 47, 47]" "[97, 46, 98]" "[118, 49]" "[80, 79, 83, 84]" None
      "[123, 125]" "[1, 2]" "replicate 64 7" 30 "\<lambda>_. 0"]
  by (simp add: http_schemes_def length_enc_all length_hmac)

subsection \<open>Which tokens are accepted\<close>

lemma fields_word: "d \<notin> set w \<Longrightarrow> fields d acc (w @ xs) = fields d (acc @ w) xs"
  by (induction w arbitrary: acc) auto

lemma fields_sep: "d \<notin> set w \<Longrightarrow> w \<noteq> [] \<Longrightarrow> fields d [] (w @ d # xs) = w # fields d [] xs"
  by (simp add: fields_word)

lemma fields_last: "d \<notin> set w \<Longrightarrow> w \<noteq> [] \<Longrightarrow> fields d [] w = [w]"
  using fields_word [of d w "[]" "[]"] by simp

lemma to_block_string: "0 \<notin> set s \<Longrightarrow> length s < n \<Longrightarrow> to_block n s = Inr s"
proof -
  assume s: "0 \<notin> set s" "length s < n"
  have "takeWhile (\<lambda>x. x \<noteq> 0) s = s"
    using s(1) by (auto simp: takeWhile_eq_all_conv)
  with s(2) show ?thesis
    unfolding to_block_def c_string_def Let_def by presburger
qed



text \<open>
  A reply longer than the caller's buffer is cut off and still reported as a success, with its full length; reading a token
  then fails its assertion.
\<close>

theorem long_reply_is_success:
  assumes "httpNew http" "httpUriOk http" "httpPrepared http" and "\<And>req. httpReply http req = Http_reply 200 body"
    and "length tok \<le> 92" and "0 < n" and "2559 < length body"
  shows "LinkSimpleHttpGetWithToken http url n (Some tok) =
      Inr (LINK_SUCCESS, Some (length body), take (n - 1) body @ [0]) \<and>
    LinkGetUploadToken parse http url (Some tok) = Inl Assertion_failed"
  using assms by (simp add: LinkGetUploadToken_def LinkSimpleHttpGetWithToken_def linkSimpleHttpRequest_def device_prefix_def
      c_div_def Let_def)

theorem long_reply_is_success_witness:
  "LinkGetUploadToken (\<lambda>_. Some ()) \<lparr>httpNew = True, httpUriOk = True, httpPrepared = True,
     httpReply = \<lambda>_. Http_reply 200 (replicate 2560 65)\<rparr> [104] (Some [65]) = Inl Assertion_failed"
  using long_reply_is_success [of "\<lparr>httpNew = True, httpUriOk = True, httpPrepared = True,
     httpReply = \<lambda>_. Http_reply 200 (replicate 2560 65)\<rparr>" "replicate 2560 65" "[65]" 1 "[104]" "\<lambda>_. Some ()"] by simp

end
