(* ===== verification/SegmentMgr.thy ===== *)
theory SegmentMgr
  imports HttpTools TsPool
begin

section \<open>Reports of sessions (segmentmgr.c)\<close>

text \<open>
  One thread reports the progress of all sessions to a server. It takes updates off a queue of 32 places; an
  update that comes too early is kept back and its times are added to the next. The model has the table
  of eight handles, the queue, and each operation of the thread and of its clients as a function; the
  HTTP client, the JSON reader, the clock and the parameter callback are answers of the environment.
\<close>

subsection \<open>State\<close>

datatype SegOperation = SEGMENT_RELEASE | SEGMENT_UPDATE | SEGMENT_QUIT

record SegInfo =
  infoHandle :: int
  nOperation :: SegOperation
  infoSession :: LinkSession
  infoMeta :: "bytes option"

record Seg =
  handle :: int
  segReportOk :: bool
  hasParamCallback :: bool
  nReportTTL :: int
  nNextUpdateSegTimeInSecond :: int
  tmpSession :: LinkSession
  pSegMeta :: "bytes option"

text \<open>\<open>reportsSent\<close> lists, with the handle, the sessions put into reports; \<open>mgrStarted\<close> is \<open>segMgrStarted\<close>.\<close>

record SegmentMgr =
  handles :: "Seg list"
  mgrReportTTL :: int
  mgrQuit :: bool
  mgrStarted :: bool
  pSegQueue :: "SegInfo list option"
  reportsSent :: "(nat \<times> LinkSession) list"

text \<open>
  Answers during one step: the clock in nanoseconds and in seconds, the parameter callback (its code, and on success the server's URL and the two
  keys; on failure it has written nothing), the allocator, the HTTP client, the JSON reader with its field "ttl", and what a field
  reads like after its document was freed.
\<close>

record 'j SegEnv =
  segNow :: int
  segTime :: int
  segParam :: "int \<times> bytes \<times> bytes \<times> bytes"
  segHeap :: heap_answer
  segJunk :: bytes
  segHttp :: HttpClient
  segParse :: "bytes \<Rightarrow> 'j option"
  segTtl :: "'j \<Rightarrow> int option"
  segFreed :: "int \<Rightarrow> int"

definition freshSeg :: Seg where
  "freshSeg = \<lparr>handle = -1, segReportOk = False, hasParamCallback = False, nReportTTL = 0,
     nNextUpdateSegTimeInSecond = 0, tmpSession = zeroSession, pSegMeta = None\<rparr>"

definition updateSeg :: "nat \<Rightarrow> (Seg \<Rightarrow> Seg) \<Rightarrow> SegmentMgr \<Rightarrow> SegmentMgr" where
  "updateSeg i f m = m\<lparr>handles := (handles m)[i := f (handles m ! i)]\<rparr>"

subsection \<open>When to report\<close>

text \<open>
  The result says whether to report now; the segment and the session in the update are changed. \<open>now\<close> is in
  nanoseconds.
\<close>

definition checkShouldReport :: "int \<Rightarrow> Seg \<Rightarrow> LinkSession \<Rightarrow> bool \<times> Seg \<times> LinkSession" where
  "checkShouldReport now g c =
     (let nNow = c_div now 1000000000;
          t = (tmpSession g)\<lparr>nTsSequenceNumber := nTsSequenceNumber c\<rparr>
      in if isNewSessionStarted c \<noteq> 0 then (False, g\<lparr>tmpSession := c\<rparr>, c)
         else
           let t = t\<lparr>nAccSessionAudioDuration := nAccSessionAudioDuration c,
                 nAccSessionVideoDuration := nAccSessionVideoDuration c,
                 nTotalSessionAudioDuration := nTotalSessionAudioDuration c,
                 nTotalSessionVideoDuration := nTotalSessionVideoDuration c\<rparr>
           in if nSessionEndResonCode c = 0 \<and> nNow < nNextUpdateSegTimeInSecond g then
                (False, g\<lparr>tmpSession := t\<lparr>nVideoGapFromLastReport := nVideoGapFromLastReport t + nVideoGapFromLastReport c,
                   nAudioGapFromLastReport := nAudioGapFromLastReport t + nAudioGapFromLastReport c\<rparr>\<rparr>, c)
              else
                (True, g\<lparr>tmpSession := t\<lparr>nVideoGapFromLastReport := 0, nAudioGapFromLastReport := 0\<rparr>\<rparr>,
                 c\<lparr>nVideoGapFromLastReport := nVideoGapFromLastReport c +
                      (if 0 < nVideoGapFromLastReport t then nVideoGapFromLastReport t else 0),
                   nAudioGapFromLastReport := nAudioGapFromLastReport c +
                      (if 0 < nAudioGapFromLastReport t then nAudioGapFromLastReport t else 0)\<rparr>))"

subsection \<open>One report\<close>

definition ascii :: "string \<Rightarrow> bytes" where
  "ascii s = map of_char s"

text \<open>A JSON field name in quotes, with what separates it from its value; a text value.\<close>

definition jkey :: "string \<Rightarrow> string \<Rightarrow> bytes" where
  "jkey name sep = [34] @ ascii name @ [34] @ ascii sep"

definition jtext :: "bytes \<Rightarrow> bytes" where
  "jtext b = [34] @ c_string b @ [34]"

definition ms :: "int \<Rightarrow> bytes" where
  "ms t = print_int (c_div t 1000000)"

definition reasonStr :: "int \<Rightarrow> bytes run" where
  "reasonStr r = (if r = 1 then Inr (ascii ''normal'') else if r = 2 then Inr (ascii ''timeout'')
     else if r = 3 then Inr (ascii ''force'') else if r = 4 then Inr (ascii ''destroy'') else Inl Out_of_bounds)"

text \<open>The end of a session without an end time is estimated; \<open>reportEnd\<close> is the session with it.\<close>

definition reportEnd :: "LinkSession \<Rightarrow> LinkSession" where
  "reportEnd s = (if nSessionEndResonCode s \<noteq> 0 \<and> nSessionEndTime s \<le> 0
     then s\<lparr>nSessionEndTime := nSessionStartTime s + nAccSessionVideoDuration s * 1000000\<rparr> else s)"

definition bodyHead :: "int \<Rightarrow> LinkSession \<Rightarrow> bytes" where
  "bodyHead now s = ascii ''{ '' @ jkey ''session'' '': '' @ jtext (sessionId s)
     @ ascii '', '' @ jkey ''start'' '': '' @ ms (nSessionStartTime s)
     @ ascii '', '' @ jkey ''current'' '': '' @ ms now
     @ ascii '', '' @ jkey ''sequence'' '': '' @ print_int (nTsSequenceNumber s)
     @ ascii '', '' @ jkey ''vd'' '': '' @ print_int (nVideoGapFromLastReport s)
     @ ascii '', '' @ jkey ''ad'' '': '' @ print_int (nAudioGapFromLastReport s)
     @ ascii '', '' @ jkey ''avd'' '': '' @ print_int (nAccSessionVideoDuration s)
     @ ascii '', '' @ jkey ''aad'' '': '' @ print_int (nAccSessionAudioDuration s)"

definition bodyText :: "int \<Rightarrow> LinkSession \<Rightarrow> bytes run" where
  "bodyText now s =
     (if nSessionEndResonCode s \<noteq> 0 then
        and_then (reasonStr (nSessionEndResonCode s)) (\<lambda>reason. Inr (bodyHead now s
          @ ascii '', '' @ jkey ''end'' '': '' @ ms (nSessionEndTime s)
          @ ascii '', '' @ jkey ''tvd'' '': '' @ print_int (nTotalSessionVideoDuration s)
          @ ascii '', '' @ jkey ''tad'' '': '' @ print_int (nTotalSessionAudioDuration s)
          @ ascii '', '' @ jkey ''endReason'' '': '' @ [34] @ reason @ [34]
          @ ascii '','' @ jkey ''frameStatus'' '':'' @ print_int (coverStatus s)))
      else Inr (bodyHead now s
          @ ascii '','' @ jkey ''frameStatus'' '':'' @ print_int (coverStatus s)
          @ ascii '','' @ jkey ''tvd'' '': '' @ print_int (nTotalSessionVideoDuration s)
          @ ascii '', '' @ jkey ''tad'' '': '' @ print_int (nTotalSessionAudioDuration s)))"

text \<open>
  The body has 640 bytes; the prints are not bounded and end with a null byte, which the closing brace replaces.
\<close>

definition reportBody :: "int \<Rightarrow> bytes option \<Rightarrow> LinkSession \<Rightarrow> bytes run" where
  "reportBody now smeta s =
     and_then (bodyText now s) (\<lambda>t.
     and_then (write_at 0 (t @ [0]) (replicate 640 0)) (\<lambda>b.
     and_then (case smeta of None \<Rightarrow> Inr (length t, b)
        | Some x \<Rightarrow> let u = [44] @ c_string x in
            and_then (write_at (length t) (u @ [0]) b) (\<lambda>b. Inr (length t + length u, b))) (\<lambda>(n, b).
     and_then (write_at n [125] b) (\<lambda>b. if 640 < n + 1 then Inl Assertion_failed else Inr (take (n + 1) b)))))"

text \<open>
  When the parameters are missing the code goes on with an empty URL, for which \<open>GetHttpRequestSign\<close> returns
  \<open>LINK_ARG_ERROR\<close>. After the reply, the field "ttl" is read although its document is freed.
\<close>

definition reportSegInfo :: "'j SegEnv \<Rightarrow> LinkSession \<Rightarrow> nat \<Rightarrow> SegmentMgr \<Rightarrow> (int \<times> SegmentMgr) run" where
  "reportSegInfo e s idx m =
     (let s = reportEnd s in
      and_then (reportBody (segNow e) (pSegMeta (handles m ! idx)) s) (\<lambda>body.
      let m = (if nSessionEndResonCode s \<noteq> 0
               then updateSeg idx (\<lambda>g. g\<lparr>tmpSession := (tmpSession g)\<lparr>nAccSessionVideoDuration := 0,
                  nAccSessionAudioDuration := 0, nSessionEndTime := 0, coverStatus := 0\<rparr>\<rparr>) m
               else m)
      in if \<not> hasParamCallback (handles m ! idx) then Inl Null_deref
         else (case segParam e of (ret, url, ak, sk) \<Rightarrow>
           if ret \<noteq> LINK_SUCCESS then Inr (LINK_ARG_ERROR, m)
           else
             and_then (GetHttpRequestSign (segHeap e) (segJunk e) sk (ascii ''POST'') url (Some (ascii ''application/json'')) body 30)
               (\<lambda>(ret, nOutputLen, sign).
               if ret \<noteq> LINK_SUCCESS then Inr (ret, m)
               else if 639 < nOutputLen + (length ak + 1) + length url + 1 then Inl Assertion_failed
               else
                 let m = m\<lparr>reportsSent := reportsSent m @ [(idx, s)]\<rparr> in
                 and_then (LinkSimpleHttpPostWithToken (segHttp e) url 256 body (Some (ascii ''application/json''))
                     (Some (ak @ [58] @ sign))) (\<lambda>(ret, _, resp).
                 if ret \<noteq> LINK_SUCCESS then Inr (ret, m)
                 else (case segParse e (c_string resp) of
                     None \<Rightarrow> Inr (LINK_JSON_FORMAT, m)
                   | Some j \<Rightarrow> (case segTtl e j of
                         None \<Rightarrow> Inr (LINK_JSON_FORMAT, m)
                       | Some v \<Rightarrow>
                           let reportTTL = segFreed e v in
                           Inr (LINK_SUCCESS, if 0 < reportTTL then
                             updateSeg idx (\<lambda>g. g\<lparr>nReportTTL := reportTTL, nNextUpdateSegTimeInSecond := reportTTL + segTime e\<rparr>)
                               (m\<lparr>mgrReportTTL := (if mgrReportTTL m \<le> 0 \<or> reportTTL < mgrReportTTL m
                                  then reportTTL else mgrReportTTL m)\<rparr>)
                           else m))))))))"


subsection \<open>Reports of one segment and of all\<close>

definition findSeg :: "int \<Rightarrow> Seg list \<Rightarrow> nat option" where
  "findSeg h gs = (let n = length (takeWhile (\<lambda>g. handle g \<noteq> h) gs) in if n < length gs then Some n else None)"

definition setReportOk :: "nat \<Rightarrow> int \<Rightarrow> SegmentMgr \<Rightarrow> SegmentMgr" where
  "setReportOk i ret m = updateSeg i (\<lambda>g. g\<lparr>segReportOk := (ret = LINK_SUCCESS)\<rparr>) m"

definition handleReportSegInfo :: "'j SegEnv \<Rightarrow> SegInfo \<Rightarrow> SegmentMgr \<Rightarrow> SegmentMgr run" where
  "handleReportSegInfo e c m =
     (case findSeg (infoHandle c) (handles m) of
        None \<Rightarrow> Inr m
      | Some idx \<Rightarrow>
          let m = (case infoMeta c of None \<Rightarrow> m | Some x \<Rightarrow> updateSeg idx (\<lambda>g. g\<lparr>pSegMeta := Some x\<rparr>) m) in
          (case checkShouldReport (segNow e) (handles m ! idx) (infoSession c) of (now, g, s) \<Rightarrow>
            let m = updateSeg idx (\<lambda>_. g) m in
            if \<not> now then Inr m
            else if nAccSessionVideoDuration s \<le> 0 then Inr m
            else and_then (reportSegInfo e s idx m) (\<lambda>(ret, m). Inr (setReportOk idx ret m))))"

text \<open>\<open>reportable\<close> is the negation of the early return's condition.\<close>

definition reportable :: "LinkSession \<Rightarrow> bool" where
  "reportable s \<longleftrightarrow> 0 < nAccSessionDuration s \<and> (0 < nVideoGapFromLastReport s \<or> 0 < nAudioGapFromLastReport s)"

definition estimateEnd :: "Seg \<Rightarrow> Seg" where
  "estimateEnd g = (if nSessionEndTime (tmpSession g) = 0
     then g\<lparr>tmpSession := (tmpSession g)\<lparr>nSessionEndTime := nSessionStartTime (tmpSession g)
       + nAccSessionVideoDuration (tmpSession g) * 1000000\<rparr>\<rparr> else g)"

definition handleOnSegReportSegInfo :: "'j SegEnv \<Rightarrow> int \<Rightarrow> int \<Rightarrow> SegmentMgr \<Rightarrow> SegmentMgr run" where
  "handleOnSegReportSegInfo e h nNow m =
     (if h < 0 \<or> int (length (handles m)) \<le> h then Inl Out_of_bounds
      else
        let idx = nat h in
        if \<not> reportable (tmpSession (handles m ! idx)) then Inr m
        else
          let m = updateSeg idx estimateEnd m in
          and_then (reportSegInfo e (tmpSession (handles m ! idx)) idx m) (\<lambda>(ret, m).
          Inr (updateSeg idx (\<lambda>g. g\<lparr>nNextUpdateSegTimeInSecond := nNow + nReportTTL g,
                tmpSession := (tmpSession g)\<lparr>nVideoGapFromLastReport := 0, nAudioGapFromLastReport := 0\<rparr>\<rparr>)
             (setReportOk idx ret m))))"

definition forceEnd :: "Seg \<Rightarrow> Seg" where
  "forceEnd g = (if nSessionEndResonCode (tmpSession g) = 0
     then g\<lparr>tmpSession := (tmpSession g)\<lparr>nSessionEndResonCode := 4\<rparr>\<rparr> else g)"

text \<open>One turn of the loop over the handles, and the loop; \<open>e i\<close> are the answers at handle \<open>i\<close>.\<close>

definition ttlReport :: "'j SegEnv \<Rightarrow> int \<Rightarrow> bool \<Rightarrow> nat \<Rightarrow> SegmentMgr \<Rightarrow> SegmentMgr run" where
  "ttlReport e nNow force idx m =
     (if handle (handles m ! idx) < 0 then Inr m
      else if force then handleOnSegReportSegInfo e (int idx) nNow (updateSeg idx forceEnd m)
      else if nNow < nNextUpdateSegTimeInSecond (handles m ! idx) then Inr m
      else handleOnSegReportSegInfo e (int idx) nNow m)"

fun ttlReports :: "(nat \<Rightarrow> 'j SegEnv) \<Rightarrow> int \<Rightarrow> bool \<Rightarrow> nat list \<Rightarrow> SegmentMgr \<Rightarrow> SegmentMgr run" where
  "ttlReports e nNow force [] m = Inr m"
| "ttlReports e nNow force (i # is) m = and_then (ttlReport (e i) nNow force i m) (ttlReports e nNow force is)"

definition handleTTLReportSegInfo :: "(nat \<Rightarrow> 'j SegEnv) \<Rightarrow> int \<Rightarrow> bool \<Rightarrow> SegmentMgr \<Rightarrow> SegmentMgr run" where
  "handleTTLReportSegInfo e nNow force m = ttlReports e nNow force [0..<length (handles m)] m"

text \<open>
  The bound compares with the number of integers that would fit the table (416), not with the number of its entries.
\<close>

definition releaseSeg :: "Seg \<Rightarrow> Seg" where
  "releaseSeg g = g\<lparr>handle := -1, nReportTTL := 0, hasParamCallback := False, nNextUpdateSegTimeInSecond := 0\<rparr>"

definition linkReleaseSegmentHandle :: "int \<Rightarrow> SegmentMgr \<Rightarrow> SegmentMgr run" where
  "linkReleaseSegmentHandle seg m =
     (if 0 \<le> seg \<and> seg < 416 then
        if int (length (handles m)) \<le> seg then Inl Out_of_bounds else Inr (updateSeg (nat seg) releaseSeg m)
      else Inr m)"

subsection \<open>The thread\<close>

text \<open>The product is computed at 32 bits and widened.\<close>

definition popWaitTime :: "SegmentMgr \<Rightarrow> int" where
  "popWaitTime m = (if 0 < mgrReportTTL m then sint (word_of_int (mgrReportTTL m * 1000000) :: 32 word)
     else 86400000000)"

text \<open>\<open>segmetMgrRun_step\<close> is one turn; an empty queue is a wait that timed out. The result has \<open>info.nLen_\<close>.\<close>

definition handleSegInfo :: "(nat \<Rightarrow> 'j SegEnv) \<Rightarrow> int \<Rightarrow> SegInfo \<Rightarrow> SegmentMgr \<Rightarrow> SegmentMgr run" where
  "handleSegInfo e nNow c m =
     (if nOperation c = SEGMENT_QUIT then handleTTLReportSegInfo e nNow True m
      else if infoHandle c < 0 then Inr m
      else (case nOperation c of
          SEGMENT_RELEASE \<Rightarrow> and_then (handleOnSegReportSegInfo (e (nat (infoHandle c))) (infoHandle c) nNow m)
            (linkReleaseSegmentHandle (infoHandle c))
        | _ \<Rightarrow> handleReportSegInfo (e (nat (infoHandle c))) c m))"

definition segmetMgrRun_step :: "(nat \<Rightarrow> 'j SegEnv) \<Rightarrow> int \<Rightarrow> SegmentMgr \<Rightarrow> (nat \<times> SegmentMgr) run" where
  "segmetMgrRun_step e nNow m =
     (case pSegQueue m of
        None \<Rightarrow> Inl Null_deref
      | Some [] \<Rightarrow> and_then (handleTTLReportSegInfo e nNow False m) (\<lambda>m. Inr (0, m))
      | Some (c # cs) \<Rightarrow> and_then (handleSegInfo e nNow c (m\<lparr>pSegQueue := Some cs\<rparr>)) (\<lambda>m. Inr (length cs, m)))"

definition segmetMgrRun_again :: "SegmentMgr \<Rightarrow> nat \<Rightarrow> bool" where
  "segmetMgrRun_again m n \<longleftrightarrow> \<not> mgrQuit m \<or> n \<noteq> 0"

subsection \<open>Its clients\<close>

text \<open>
  \<open>queueRet\<close> and \<open>threadRet\<close> are the results of making the queue and the thread. Without the thread the queue is destroyed
  and its pointer kept; no use of it is defined, as with a null pointer.
\<close>

definition LinkInitSegmentMgr :: "int \<Rightarrow> int \<Rightarrow> SegmentMgr \<Rightarrow> int \<times> SegmentMgr" where
  "LinkInitSegmentMgr queueRet threadRet m =
     (if mgrStarted m then (LINK_SUCCESS, m)
      else
        let m = m\<lparr>handles := map (\<lambda>g. g\<lparr>handle := -1\<rparr>) (handles m)\<rparr> in
        if queueRet \<noteq> LINK_SUCCESS then (queueRet, m)
        else if threadRet \<noteq> 0 then (LINK_THREAD_ERROR, m\<lparr>pSegQueue := None\<rparr>)
        else (LINK_SUCCESS, m\<lparr>pSegQueue := Some [], mgrStarted := True\<rparr>))"

definition openSeg :: "bool \<Rightarrow> nat \<Rightarrow> Seg \<Rightarrow> Seg" where
  "openSeg cb i g = g\<lparr>handle := int i, hasParamCallback := cb, nNextUpdateSegTimeInSecond := 0, tmpSession := zeroSession,
     pSegMeta := None\<rparr>"

definition LinkNewSegmentHandle :: "bool \<Rightarrow> SegmentMgr \<Rightarrow> int \<times> int option \<times> SegmentMgr" where
  "LinkNewSegmentHandle cb m =
     (if \<not> mgrStarted m then (LINK_NOT_INITED, None, m)
      else (case findSeg (-1) (handles m) of
          None \<Rightarrow> (LINK_MAX_SEG, None, m)
        | Some i \<Rightarrow> (LINK_SUCCESS, Some (int i), updateSeg i (openSeg cb i) m)))"

abbreviation (input) sizeof_SegInfo :: int where "sizeof_SegInfo \<equiv> 160"

definition pushSeg :: "SegInfo \<Rightarrow> SegmentMgr \<Rightarrow> (int \<times> SegmentMgr) run" where
  "pushSeg c m = (case pSegQueue m of
      None \<Rightarrow> Inl Null_deref
    | Some cs \<Rightarrow> Inr (if length cs < 32 then (sizeof_SegInfo, m\<lparr>pSegQueue := Some (cs @ [c])\<rparr>) else (LINK_Q_OVERFLOW, m)))"

text \<open>
  A push repeated every second until it succeeds; \<open>others\<close> is what the other threads do during each second. The result is \<open>None\<close>
  when they have not made room by the end of the list.
\<close>

fun pushRetry :: "(SegmentMgr \<Rightarrow> SegmentMgr) list \<Rightarrow> SegInfo \<Rightarrow> SegmentMgr \<Rightarrow> SegmentMgr option run" where
  "pushRetry others c m = and_then (pushSeg c m) (\<lambda>(ret, m).
     if 0 < ret then Inr (Some m)
     else (case others of [] \<Rightarrow> Inr None | f # fs \<Rightarrow> pushRetry fs c (f m)))"

text \<open>The fields of the messages that stay uninitialised are never read; the model has zeros there.\<close>

definition LinkReleaseSegmentHandle ::
    "(SegmentMgr \<Rightarrow> SegmentMgr) list \<Rightarrow> int \<Rightarrow> SegmentMgr \<Rightarrow> (int \<times> SegmentMgr option) run" where
  "LinkReleaseSegmentHandle others h m =
     (if h < 0 \<or> \<not> mgrStarted m then Inr (h, Some m)
      else and_then (pushRetry others \<lparr>infoHandle = h, nOperation = SEGMENT_RELEASE, infoSession = zeroSession,
          infoMeta = None\<rparr> m) (\<lambda>r. Inr (-1, r)))"

text \<open>
  The metadata as text in a block of 128 bytes. Each print is bounded by 127 bytes from where it starts and not by
  the end of the block. The last comma becomes the closing brace; without pairs, that is the opening brace.
\<close>

definition metaPair :: "bytes \<times> bytes \<Rightarrow> bytes" where
  "metaPair p = (case p of (k, v) \<Rightarrow> [34] @ c_string k @ ascii (''\":\"'') @ c_string v @ ascii (''\",''))"

fun printPairs :: "(bytes \<times> bytes) list \<Rightarrow> nat \<Rightarrow> bytes \<Rightarrow> (nat \<times> bytes) run" where
  "printPairs [] n b = Inr (n, b)"
| "printPairs (p # ps) n b = and_then (write_at n (take 126 (metaPair p) @ [0]) b) (printPairs ps (n + length (metaPair p)))"

definition segMetaText :: "heap_answer \<Rightarrow> LinkSessionMeta \<Rightarrow> bytes option run" where
  "segMetaText mem smeta = (case malloc mem 128 of
      None \<Rightarrow> Inr None
    | Some b \<Rightarrow>
        and_then (write_at 0 (ascii (''\"meta\":{'') @ [0]) b) (\<lambda>b.
        and_then (printPairs (metaPairs smeta) 8 b) (\<lambda>(n, b).
        and_then (write_at (n - 1) [125] b) (\<lambda>b.
        and_then (write_at n [0] b) (\<lambda>b. Inr (Some (take n b)))))))"

text \<open>A push that fails leaves the block to nobody.\<close>

definition LinkUpdateSegment_push ::
    "heap_answer \<Rightarrow> int \<Rightarrow> LinkSession \<Rightarrow> LinkSessionMeta option \<Rightarrow> SegmentMgr \<Rightarrow> (int \<times> SegmentMgr) run" where
  "LinkUpdateSegment_push mem seg s smeta m =
     and_then (case smeta of None \<Rightarrow> Inr None | Some x \<Rightarrow> segMetaText mem x) (\<lambda>t.
     and_then (pushSeg \<lparr>infoHandle = seg, nOperation = SEGMENT_UPDATE, infoSession = s, infoMeta = t\<rparr> m) (\<lambda>(ret, m).
     Inr (if ret \<le> 0 then ret else LINK_SUCCESS, m)))"

text \<open>The last part is what follows the end of the thread.\<close>

definition requestSegQuit :: "(SegmentMgr \<Rightarrow> SegmentMgr) list \<Rightarrow> SegmentMgr \<Rightarrow> SegmentMgr option run" where
  "requestSegQuit others m =
     (if \<not> mgrStarted m then Inr (Some m)
      else pushRetry others \<lparr>infoHandle = 0, nOperation = SEGMENT_QUIT, infoSession = zeroSession, infoMeta = None\<rparr>
        (m\<lparr>mgrQuit := True\<rparr>))"

definition uninitSegmentMgr :: "SegmentMgr \<Rightarrow> SegmentMgr" where
  "uninitSegmentMgr m = m\<lparr>handles := replicate (length (handles m)) (freshSeg\<lparr>handle := 0\<rparr>), mgrReportTTL := 0,
     mgrQuit := False, mgrStarted := False, pSegQueue := None\<rparr>"

end
