(* ===== verification/SegmentReports.thy ===== *)
theory SegmentReports
  imports SegmentMgr
begin

section \<open>Safety of the report thread\<close>

text \<open>
  What the thread of \<^verbatim>\<open>segmentmgr.c\<close> may rely on in every state its clients can bring it to, and what it keeps: reports fit their buffer,
  the table of handles is consistent and a callback is there whenever one is called.
\<close>

subsection \<open>The length of a report\<close>

lemma abs_c_div: "\<bar>c_div a b\<bar> \<le> \<bar>a\<bar>"
proof -
  have "\<bar>a\<bar> div \<bar>b\<bar> \<le> \<bar>a\<bar>"
    using zdiv_mono2 [of "\<bar>a\<bar>" 1 "\<bar>b\<bar>"] by (cases "b = 0") auto
  moreover have "0 \<le> \<bar>a\<bar> div \<bar>b\<bar>"
    by (simp add: div_int_pos_iff)
  ultimately show ?thesis
    by (auto simp: c_div_def abs_mult sgn_if)
qed

lemma narrow_ms: "narrow t \<Longrightarrow> length (ms t) \<le> 20"
  using abs_c_div [of t 1000000] length_print_int [of "c_div t 1000000"] by (simp add: narrow_def ms_def)

lemma length_ascii [simp]: "length (ascii s) = length s"
  by (simp add: ascii_def)

definition printed :: "LinkSession \<Rightarrow> int list" where
  "printed s = [nSessionStartTime s, nSessionEndTime s, nTsSequenceNumber s, nVideoGapFromLastReport s,
     nAudioGapFromLastReport s, nAccSessionVideoDuration s, nAccSessionAudioDuration s, nTotalSessionVideoDuration s,
     nTotalSessionAudioDuration s, coverStatus s]"

definition printable :: "LinkSession \<Rightarrow> bool" where
  "printable s \<longleftrightarrow> length (c_string (sessionId s)) \<le> 20 \<and> 0 \<le> nSessionEndResonCode s \<and> nSessionEndResonCode s \<le> 4
     \<and> (\<forall>v \<in> set (printed s). narrow v)"

lemma length_bodyHead: "printable s \<Longrightarrow> narrow now \<Longrightarrow> length (bodyHead now s) \<le> 265"
  using length_print_int [of "nTsSequenceNumber s"] length_print_int [of "nVideoGapFromLastReport s"]
    length_print_int [of "nAudioGapFromLastReport s"] length_print_int [of "nAccSessionVideoDuration s"]
    length_print_int [of "nAccSessionAudioDuration s"] narrow_ms [of "nSessionStartTime s"] narrow_ms [of now]
  by (simp add: bodyHead_def printable_def printed_def jkey_def jtext_def)

lemma bodyText_fits:
  assumes "printable s" and "narrow now"
  shows "\<exists>t. bodyText now s = Inr t \<and> length t \<le> 430"
proof -
  note h = length_bodyHead [OF assms]
  have n: "length (ms (nSessionEndTime s)) \<le> 20" "length (print_int (nTotalSessionVideoDuration s)) \<le> 20"
      "length (print_int (nTotalSessionAudioDuration s)) \<le> 20" "length (print_int (coverStatus s)) \<le> 20"
    using assms(1) by (simp_all add: printable_def printed_def narrow_ms length_print_int)
  have "nSessionEndResonCode s \<in> {0, 1, 2, 3, 4}"
    using assms(1) by (auto simp: printable_def)
  then show ?thesis
    using h n by (auto simp: bodyText_def reasonStr_def jkey_def)
qed

definition meta_fits :: "bytes option \<Rightarrow> bool" where
  "meta_fits m \<longleftrightarrow> (case m of None \<Rightarrow> True | Some x \<Rightarrow> length (c_string x) \<le> 127)"

lemma reportBody_fits:
  assumes "printable s" and "narrow now" and "meta_fits smeta"
  shows "\<exists>body. reportBody now smeta s = Inr body \<and> length body \<le> 640"
proof -
  obtain t where t: "bodyText now s = Inr t" "length t \<le> 430"
    using bodyText_fits [OF assms(1,2)] by blast
  show ?thesis
    using assms(3) t(2) by (auto simp: reportBody_def t(1) meta_fits_def write_at_ok Let_def split: option.splits)
qed


subsection \<open>What the thread relies on\<close>

text \<open>The parameters a device is given: a URL the signature accepts or refuses in order, and keys of at most 40 bytes.\<close>

definition signable :: "bytes \<Rightarrow> bool" where
  "signable url \<longleftrightarrow> 8 \<le> length url \<and> length url < 192"

definition env_ok :: "'j SegEnv \<Rightarrow> bool" where
  "env_ok e \<longleftrightarrow> narrow (segNow e) \<and> length (segJunk e) = 64 \<and> (case segParam e of (ret, url, ak, sk) \<Rightarrow>
     ret \<noteq> LINK_SUCCESS \<or> (signable url \<and> length ak \<le> 40 \<and> length sk \<le> 40))"

text \<open>
  The times of a session stay below the year 2096 in nanoseconds and its video below 126 years, so that no sum of them overflows; \<open>G\<close>
  bounds what was recorded since the last report.
\<close>

definition session_ok :: "int \<Rightarrow> LinkSession \<Rightarrow> bool" where
  "session_ok G s \<longleftrightarrow> length (c_string (sessionId s)) \<le> 20 \<and> 0 \<le> nSessionEndResonCode s \<and> nSessionEndResonCode s \<le> 4
     \<and> \<bar>nSessionStartTime s\<bar> \<le> 4 * 10 ^ 18 \<and> \<bar>nSessionEndTime s\<bar> \<le> 8 * 10 ^ 18
     \<and> 0 \<le> nAccSessionVideoDuration s \<and> nAccSessionVideoDuration s \<le> 4 * 10 ^ 12
     \<and> (\<forall>v \<in> {nAccSessionAudioDuration s, nTsSequenceNumber s, nTotalSessionVideoDuration s,
              nTotalSessionAudioDuration s, coverStatus s}. \<bar>v\<bar> < 2 ^ 63)
     \<and> \<bar>nVideoGapFromLastReport s\<bar> \<le> G \<and> \<bar>nAudioGapFromLastReport s\<bar> \<le> G"

definition seg_ok :: "int \<Rightarrow> nat \<Rightarrow> Seg \<Rightarrow> bool" where
  "seg_ok G i g \<longleftrightarrow> (if handle g = -1 then \<not> reportable (tmpSession g) else handle g = int i \<and> hasParamCallback g)
     \<and> session_ok G (tmpSession g) \<and> meta_fits (pSegMeta g)"

definition msg_ok :: "int \<Rightarrow> SegInfo \<Rightarrow> bool" where
  "msg_ok D c \<longleftrightarrow> (case nOperation c of
      SEGMENT_RELEASE \<Rightarrow> 0 \<le> infoHandle c \<and> infoHandle c < 8
    | SEGMENT_UPDATE \<Rightarrow> session_ok D (infoSession c) \<and> meta_fits (infoMeta c)
    | SEGMENT_QUIT \<Rightarrow> True)"

definition mgr_ok :: "int \<Rightarrow> int \<Rightarrow> SegmentMgr \<Rightarrow> bool" where
  "mgr_ok G D m \<longleftrightarrow> length (handles m) = 8 \<and> (\<forall>i < 8. seg_ok G i (handles m ! i)) \<and> mgrStarted m \<and>
     (case pSegQueue m of None \<Rightarrow> False | Some cs \<Rightarrow> length cs \<le> 32 \<and> (\<forall>c \<in> set cs. msg_ok D c))"

lemma session_ok_mono: "session_ok G s \<Longrightarrow> G \<le> G' \<Longrightarrow> session_ok G' s"
  by (auto simp: session_ok_def)

lemma seg_ok_mono: "seg_ok G i g \<Longrightarrow> G \<le> G' \<Longrightarrow> seg_ok G' i g"
  by (auto simp: seg_ok_def intro: session_ok_mono)

lemma mgr_ok_mono: "mgr_ok G D m \<Longrightarrow> G \<le> G' \<Longrightarrow> mgr_ok G' D m"
  by (auto simp: mgr_ok_def intro: seg_ok_mono)

lemma mgr_ok_seg: "mgr_ok G D m \<Longrightarrow> i < 8 \<Longrightarrow> seg_ok G i (handles m ! i)"
  by (simp add: mgr_ok_def)

lemma mgr_ok_updateSeg:
  "mgr_ok G D m \<Longrightarrow> i < 8 \<Longrightarrow> seg_ok G i (f (handles m ! i)) \<Longrightarrow> mgr_ok G D (updateSeg i f m)"
  by (auto simp: mgr_ok_def updateSeg_def nth_list_update)

lemma nth_updateSeg [simp]: "i < length (handles m) \<Longrightarrow> handles (updateSeg i f m) ! i = f (handles m ! i)"
  by (simp add: updateSeg_def)

lemma length_updateSeg [simp]: "length (handles (updateSeg i f m)) = length (handles m)"
  by (simp add: updateSeg_def)

lemma pSegQueue_updateSeg [simp]: "pSegQueue (updateSeg i f m) = pSegQueue m" "mgrQuit (updateSeg i f m) = mgrQuit m"
  by (simp_all add: updateSeg_def)

lemma session_ok_printable: "session_ok G s \<Longrightarrow> G < 2 ^ 63 \<Longrightarrow> printable s"
  by (auto simp: session_ok_def printable_def printed_def narrow_def)

lemma session_ok_reportEnd: "session_ok G s \<Longrightarrow> session_ok G (reportEnd s)"
  by (auto simp: session_ok_def reportEnd_def abs_le_iff)

subsection \<open>One report\<close>

lemma signature_total:
  assumes "signable url" and "length key \<le> 40" and "length data \<le> 640" and "length junk = 64"
  shows "\<exists>ret n sig. GetHttpRequestSign heap junk key (ascii ''POST'') url (Some (ascii ''application/json'')) data 30
    = Inr (ret, n, sig) \<and> (ret = LINK_SUCCESS \<longrightarrow> n = 28 \<and> length sig = 28)"
  using assms by (intro GetHttpRequestSign_total) (simp_all add: signable_def)

lemma post_total:
  "length tok \<le> 92 \<Longrightarrow> \<exists>ret n resp. LinkSimpleHttpPostWithToken http url 256 body ct (Some tok) = Inr (ret, n, resp)"
  by (auto simp: LinkSimpleHttpPostWithToken_def linkSimpleHttpRequest_def device_prefix_def Let_def split: HttpReply.splits)


text \<open>What a report changes: the time-outs, the report itself, and at the end of a session four of its fields.\<close>

definition clearEnd :: "LinkSession \<Rightarrow> Seg \<Rightarrow> Seg" where
  "clearEnd s g = (if nSessionEndResonCode s \<noteq> 0 then g\<lparr>tmpSession := (tmpSession g)\<lparr>nAccSessionVideoDuration := 0,
     nAccSessionAudioDuration := 0, nSessionEndTime := 0, coverStatus := 0\<rparr>\<rparr> else g)"

definition report_frame :: "LinkSession \<Rightarrow> nat \<Rightarrow> SegmentMgr \<Rightarrow> SegmentMgr \<Rightarrow> bool" where
  "report_frame s i m m' \<longleftrightarrow> handles m' = (handles m)[i := (clearEnd s (handles m ! i))\<lparr>nReportTTL := nReportTTL (handles m' ! i),
       nNextUpdateSegTimeInSecond := nNextUpdateSegTimeInSecond (handles m' ! i)\<rparr>] \<and>
     pSegQueue m' = pSegQueue m \<and> mgrStarted m' = mgrStarted m \<and> mgrQuit m' = mgrQuit m \<and>
     (reportsSent m' = reportsSent m \<or> reportsSent m' = reportsSent m @ [(i, reportEnd s)])"

lemma report_frame_clear:
  "i < length (handles m) \<Longrightarrow> report_frame s i m (if nSessionEndResonCode (reportEnd s) \<noteq> 0
     then updateSeg i (\<lambda>g. g\<lparr>tmpSession := (tmpSession g)\<lparr>nAccSessionVideoDuration := 0,
        nAccSessionAudioDuration := 0, nSessionEndTime := 0, coverStatus := 0\<rparr>\<rparr>) m else m)"
  by (auto simp: report_frame_def clearEnd_def updateSeg_def reportEnd_def)

lemma report_frame_sent:
  "report_frame s i m m' \<Longrightarrow> reportsSent m' = reportsSent m \<Longrightarrow>
     report_frame s i m (m'\<lparr>reportsSent := reportsSent m' @ [(i, reportEnd s)]\<rparr>)"
  by (simp add: report_frame_def)

lemma report_frame_ttl:
  assumes f: "report_frame s i m m'" and i: "i < length (handles m)"
  shows "report_frame s i m (updateSeg i (\<lambda>g. g\<lparr>nReportTTL := ttl, nNextUpdateSegTimeInSecond := nxt\<rparr>)
    (m'\<lparr>mgrReportTTL := x\<rparr>))"
proof -
  obtain a b where h: "handles m' = (handles m)[i := (clearEnd s (handles m ! i))\<lparr>nReportTTL := a,
      nNextUpdateSegTimeInSecond := b\<rparr>]"
    using f unfolding report_frame_def by blast
  have rest: "pSegQueue m' = pSegQueue m" "mgrStarted m' = mgrStarted m" "mgrQuit m' = mgrQuit m"
      "reportsSent m' = reportsSent m \<or> reportsSent m' = reportsSent m @ [(i, reportEnd s)]"
    using f unfolding report_frame_def by blast+
  show ?thesis
    unfolding report_frame_def using rest i by (simp add: updateSeg_def h)
qed

lemma report_total:
  assumes e: "env_ok e" and i: "i < length (handles m)" and cb: "hasParamCallback (handles m ! i)"
    and meta: "meta_fits (pSegMeta (handles m ! i))" and s: "session_ok G s" "G < 2 ^ 63"
  shows "\<exists>ret m'. reportSegInfo e s i m = Inr (ret, m') \<and> report_frame s i m m'"
proof -
  obtain body where body: "reportBody (segNow e) (pSegMeta (handles m ! i)) (reportEnd s) = Inr body" "length body \<le> 640"
    using reportBody_fits [OF session_ok_printable [OF session_ok_reportEnd [OF s(1)] s(2)] _ meta] e
    by (auto simp: env_ok_def)
  obtain ret url ak sk where param: "segParam e = (ret, url, ak, sk)"
    by (cases "segParam e")
  define m1 where "m1 = (if nSessionEndResonCode (reportEnd s) \<noteq> 0
     then updateSeg i (\<lambda>g. g\<lparr>tmpSession := (tmpSession g)\<lparr>nAccSessionVideoDuration := 0,
        nAccSessionAudioDuration := 0, nSessionEndTime := 0, coverStatus := 0\<rparr>\<rparr>) m else m)"
  have f1: "report_frame s i m m1"
    unfolding m1_def by (rule report_frame_clear [OF i])
  have cb1: "hasParamCallback (handles m1 ! i)"
    using cb i by (simp add: m1_def)
  note run = reportSegInfo_def [of e s i m, unfolded Let_def body(1) and_then_Inr m1_def [symmetric] param prod.case]
  show ?thesis
  proof (cases "ret = LINK_SUCCESS")
    case False
    then show ?thesis
      using f1 cb1 by (auto simp: run)
  next
    case True
    then have env: "signable url" "length ak \<le> 40" "length sk \<le> 40" "length (segJunk e) = 64"
      using e by (auto simp: env_ok_def param)
    obtain sret n sig where sign: "GetHttpRequestSign (segHeap e) (segJunk e) sk (ascii ''POST'') url
        (Some (ascii ''application/json'')) body 30 = Inr (sret, n, sig)" "sret = LINK_SUCCESS \<longrightarrow> n = 28 \<and> length sig = 28"
      using signature_total [OF env(1,3) body(2) env(4)] by blast
    show ?thesis
    proof (cases "sret = LINK_SUCCESS")
      case False
      then show ?thesis
        using f1 cb1 True by (auto simp: run sign(1))
    next
      case ok: True
      then have n: "n = 28" "length (ak @ [58] @ sig) \<le> 92" "\<not> 639 < n + (length ak + 1) + length url + 1"
        using sign(2) env(1,2) by (auto simp: signable_def)
      obtain pret rn resp where post: "LinkSimpleHttpPostWithToken (segHttp e) url 256 body (Some (ascii ''application/json''))
          (Some (ak @ 58 # sig)) = Inr (pret, rn, resp)"
        using post_total [OF n(2), simplified] by fastforce
      have f2: "report_frame s i m (m1\<lparr>reportsSent := reportsSent m1 @ [(i, reportEnd s)]\<rparr>)"
        using f1 by (intro report_frame_sent) (simp_all add: m1_def updateSeg_def)
      show ?thesis
      proof (cases "pret = LINK_SUCCESS")
        case False
        then show ?thesis
          using f2 cb1 True ok n by (auto simp: run sign(1) post)
      next
        case pok: True
        show ?thesis
          using f2 cb1 True ok n report_frame_ttl [OF f2 i]
          by (auto simp: run sign(1) post pok split: option.splits)
      qed
    qed
  qed
qed


subsection \<open>The thread's handlers\<close>

definition same_queue :: "SegmentMgr \<Rightarrow> SegmentMgr \<Rightarrow> bool" where
  "same_queue m m' \<longleftrightarrow> pSegQueue m' = pSegQueue m \<and> mgrQuit m' = mgrQuit m"

lemma same_queue_refl [simp]: "same_queue m m"
  by (simp add: same_queue_def)

lemma same_queue_updateSeg [simp]: "same_queue m (updateSeg i f m') = same_queue m m'"
    "same_queue (updateSeg i f m) m' = same_queue m m'"
  by (simp_all add: same_queue_def)

lemma same_queue_setReportOk [simp]: "same_queue m (setReportOk i ret m') = same_queue m m'"
  by (simp add: setReportOk_def)

lemma same_queue_trans: "same_queue a b \<Longrightarrow> same_queue b c \<Longrightarrow> same_queue a c"
  by (simp add: same_queue_def)

lemma report_frame_queue: "report_frame s i m m' \<Longrightarrow> same_queue m m'"
  by (simp add: report_frame_def same_queue_def)

lemma session_ok_clearEnd: "session_ok G (tmpSession g) \<Longrightarrow> session_ok G (tmpSession (clearEnd s g))"
  by (auto simp: session_ok_def clearEnd_def)

lemma seg_ok_clearEnd: "seg_ok G i g \<Longrightarrow> seg_ok G i ((clearEnd s g)\<lparr>nReportTTL := a, nNextUpdateSegTimeInSecond := b\<rparr>)"
  using session_ok_clearEnd [of G g s] by (auto simp: seg_ok_def clearEnd_def reportable_def)

lemma mgr_ok_length [simp]: "mgr_ok G D m \<Longrightarrow> length (handles m) = 8"
  by (simp add: mgr_ok_def)

lemma mgr_ok_frame:
  assumes "mgr_ok G D m" and "report_frame s i m m'" and "i < 8"
  shows "mgr_ok G D m'"
proof -
  obtain a b where h: "handles m' = (handles m)[i := (clearEnd s (handles m ! i))\<lparr>nReportTTL := a,
      nNextUpdateSegTimeInSecond := b\<rparr>]"
    using assms(2) unfolding report_frame_def by blast
  then show ?thesis
    using assms seg_ok_clearEnd [OF mgr_ok_seg [OF assms(1,3)], where s = s and a = a and b = b]
    by (auto simp: mgr_ok_def report_frame_def nth_list_update)
qed

lemma mgr_ok_open: "mgr_ok G D m \<Longrightarrow> i < 8 \<Longrightarrow> handle (handles m ! i) \<noteq> -1 \<Longrightarrow> hasParamCallback (handles m ! i)"
  using mgr_ok_seg [of G D m i] by (auto simp: seg_ok_def split: if_splits)

lemma handle_estimateEnd: "handle (estimateEnd g) = handle g" "hasParamCallback (estimateEnd g) = hasParamCallback g"
  by (simp_all add: estimateEnd_def)

lemma handleOnSeg_total:
  assumes m: "mgr_ok G D m" and i: "i < 8" and e: "env_ok e" and G: "0 \<le> G" "G < 2 ^ 63"
  shows "\<exists>m'. handleOnSegReportSegInfo e (int i) now m = Inr m' \<and> mgr_ok G D m' \<and> same_queue m m' \<and>
    \<not> reportable (tmpSession (handles m' ! i))"
proof (cases "reportable (tmpSession (handles m ! i))")
  case False
  then show ?thesis
    using m i by (auto simp: handleOnSegReportSegInfo_def)
next
  case True
  note g = mgr_ok_seg [OF m i]
  have hd: "handle (handles m ! i) = int i" "hasParamCallback (handles m ! i)" "session_ok G (tmpSession (handles m ! i))"
    using g True by (auto simp: seg_ok_def split: if_splits)
  have est: "seg_ok G i (estimateEnd (handles m ! i))"
    using g hd by (auto simp: seg_ok_def estimateEnd_def session_ok_def abs_le_iff)
  define m1 where "m1 = updateSeg i estimateEnd m"
  have m1: "mgr_ok G D m1"
    unfolding m1_def using est by (intro mgr_ok_updateSeg [OF m i])
  have g1: "handles m1 ! i = estimateEnd (handles m ! i)"
    using m i by (simp add: m1_def)
  have cb: "hasParamCallback (handles m1 ! i)" "meta_fits (pSegMeta (handles m1 ! i))" "session_ok G (tmpSession (handles m1 ! i))"
    using est hd(1,2) by (simp_all add: g1 seg_ok_def handle_estimateEnd)
  have "i < length (handles m1)"
    using m1 i by simp
  then obtain ret m2 where r: "reportSegInfo e (tmpSession (handles m1 ! i)) i m1 = Inr (ret, m2)"
      "report_frame (tmpSession (handles m1 ! i)) i m1 m2"
    using report_total [OF e _ cb G(2)] by blast
  have m2: "mgr_ok G D m2"
    by (rule mgr_ok_frame [OF m1 r(2) i])
  let ?f = "\<lambda>g. g\<lparr>nNextUpdateSegTimeInSecond := now + nReportTTL g,
      tmpSession := (tmpSession g)\<lparr>nVideoGapFromLastReport := 0, nAudioGapFromLastReport := 0\<rparr>\<rparr>"
  have m3: "mgr_ok G D (setReportOk i ret m2)"
    unfolding setReportOk_def using mgr_ok_seg [OF m2 i]
    by (intro mgr_ok_updateSeg [OF m2 i]) (simp add: seg_ok_def)
  have "mgr_ok G D (updateSeg i ?f (setReportOk i ret m2))"
    using mgr_ok_seg [OF m3 i] G by (intro mgr_ok_updateSeg [OF m3 i]) (auto simp: seg_ok_def session_ok_def reportable_def split: if_splits)
  moreover have "same_queue m m2"
    using report_frame_queue [OF r(2)] by (simp add: m1_def)
  ultimately show ?thesis
    using m m3 i True r(1) by (auto simp: handleOnSegReportSegInfo_def Let_def m1_def [symmetric] reportable_def)
qed

lemma session_ok_gaps:
  "session_ok G s \<Longrightarrow> \<bar>v\<bar> \<le> G' \<Longrightarrow> \<bar>a\<bar> \<le> G' \<Longrightarrow> session_ok G' (s\<lparr>nVideoGapFromLastReport := v, nAudioGapFromLastReport := a\<rparr>)"
  by (simp add: session_ok_def)

lemma session_ok_gap: "session_ok G s \<Longrightarrow> \<bar>nVideoGapFromLastReport s\<bar> \<le> G \<and> \<bar>nAudioGapFromLastReport s\<bar> \<le> G"
  by (simp add: session_ok_def)

text \<open>The session kept, with the update's counters.\<close>

definition keepUp :: "LinkSession \<Rightarrow> LinkSession \<Rightarrow> LinkSession" where
  "keepUp t c = t\<lparr>nTsSequenceNumber := nTsSequenceNumber c, nAccSessionAudioDuration := nAccSessionAudioDuration c,
     nAccSessionVideoDuration := nAccSessionVideoDuration c, nTotalSessionAudioDuration := nTotalSessionAudioDuration c,
     nTotalSessionVideoDuration := nTotalSessionVideoDuration c\<rparr>"

lemma session_ok_keepUp: "session_ok G t \<Longrightarrow> session_ok D c \<Longrightarrow> session_ok G (keepUp t c)"
  by (simp add: session_ok_def keepUp_def)

lemma checkShouldReport_cases:
  "checkShouldReport now g c =
    (if isNewSessionStarted c \<noteq> 0 then (False, g\<lparr>tmpSession := c\<rparr>, c)
     else if nSessionEndResonCode c = 0 \<and> c_div now 1000000000 < nNextUpdateSegTimeInSecond g then
       (False, g\<lparr>tmpSession := (keepUp (tmpSession g) c)\<lparr>
          nVideoGapFromLastReport := nVideoGapFromLastReport (tmpSession g) + nVideoGapFromLastReport c,
          nAudioGapFromLastReport := nAudioGapFromLastReport (tmpSession g) + nAudioGapFromLastReport c\<rparr>\<rparr>, c)
     else (True, g\<lparr>tmpSession := (keepUp (tmpSession g) c)\<lparr>nVideoGapFromLastReport := 0, nAudioGapFromLastReport := 0\<rparr>\<rparr>,
       c\<lparr>nVideoGapFromLastReport := nVideoGapFromLastReport c + max 0 (nVideoGapFromLastReport (tmpSession g)),
         nAudioGapFromLastReport := nAudioGapFromLastReport c + max 0 (nAudioGapFromLastReport (tmpSession g))\<rparr>))"
  by (simp add: checkShouldReport_def keepUp_def Let_def max_def)

lemma checkShouldReport_ok:
  assumes g: "session_ok G (tmpSession g)" and c: "session_ok D c" and G: "0 \<le> G" "0 \<le> D"
    and check: "checkShouldReport now g c = (b, g', c')"
  shows "session_ok (G + D) (tmpSession g') \<and> session_ok (G + D) c' \<and> handle g' = handle g \<and>
    hasParamCallback g' = hasParamCallback g \<and> pSegMeta g' = pSegMeta g"
proof -
  have m: "session_ok (G + D) c" "session_ok (G + D) (keepUp (tmpSession g) c)"
    using c g G by (auto intro: session_ok_mono session_ok_keepUp)
  show ?thesis
    using check session_ok_gap [OF g] session_ok_gap [OF c] G m
    by (auto simp: checkShouldReport_cases split: if_splits intro!: session_ok_gaps)
qed

lemma findSeg_ok: "findSeg h gs = Some i \<Longrightarrow> i < length gs \<and> handle (gs ! i) = h"
  using nth_length_takeWhile [of "\<lambda>g. handle g \<noteq> h" gs] by (auto simp: findSeg_def Let_def split: if_splits)

lemma handleReport_total:
  assumes m: "mgr_ok G D m" and e: "env_ok e" and G: "0 \<le> G" "0 \<le> D" "G + D < 2 ^ 63"
    and c: "session_ok D (infoSession c)" "meta_fits (infoMeta c)" "infoHandle c \<noteq> -1"
  shows "\<exists>m'. handleReportSegInfo e c m = Inr m' \<and> mgr_ok (G + D) D m' \<and> same_queue m m'"
proof (cases "findSeg (infoHandle c) (handles m)")
  case None
  then show ?thesis
    using mgr_ok_mono [OF m, of "G + D"] G by (auto simp: handleReportSegInfo_def)
next
  case (Some i)
  then have i: "i < 8" "handle (handles m ! i) = infoHandle c"
    using findSeg_ok [OF Some] m by auto
  define m1 where "m1 = (case infoMeta c of None \<Rightarrow> m | Some x \<Rightarrow> updateSeg i (\<lambda>g. g\<lparr>pSegMeta := Some x\<rparr>) m)"
  have "seg_ok G i ((handles m ! i)\<lparr>pSegMeta := infoMeta c\<rparr>)"
    using mgr_ok_seg [OF m i(1)] c(2) by (simp add: seg_ok_def)
  then have m1: "mgr_ok G D m1" "handle (handles m1 ! i) = infoHandle c"
    using m i by (auto simp: m1_def split: option.splits intro!: mgr_ok_updateSeg)
  obtain b g s where check: "checkShouldReport (segNow e) (handles m1 ! i) (infoSession c) = (b, g, s)"
    by (cases "checkShouldReport (segNow e) (handles m1 ! i) (infoSession c)")
  note g1 = mgr_ok_seg [OF m1(1) i(1)]
  note ck = checkShouldReport_ok [OF _ c(1) G(1,2) check]
  define m2 where "m2 = updateSeg i (\<lambda>_. g) m1"
  have gok: "seg_ok (G + D) i g" and s: "session_ok (G + D) s" and gh: "handle g \<noteq> -1"
    using g1 ck c(3) m1(2) by (auto simp: seg_ok_def)
  have m2: "mgr_ok (G + D) D m2"
    unfolding m2_def using gok G by (intro mgr_ok_updateSeg [OF mgr_ok_mono [OF m1(1)] i(1)]) auto
  have q2: "same_queue m m2"
    by (simp add: m2_def m1_def split: option.splits)
  have g2: "handles m2 ! i = g"
    using m1 i by (simp add: m2_def)
  have cb: "hasParamCallback (handles m2 ! i)" "meta_fits (pSegMeta (handles m2 ! i))"
    using gok gh by (simp_all add: g2 seg_ok_def)
  note run = handleReportSegInfo_def [of e c m, unfolded Some option.case Let_def m1_def [symmetric] check prod.case m2_def [symmetric]]
  show ?thesis
  proof (cases "b \<and> 0 < nAccSessionVideoDuration s")
    case False
    then show ?thesis
      using m2 q2 by (auto simp: run)
  next
    case True
    have "i < length (handles m2)"
      using m2 i by simp
    then obtain ret m3 where r: "reportSegInfo e s i m2 = Inr (ret, m3)" "report_frame s i m2 m3"
      using report_total [OF e _ cb s G(3)] by blast
    have m3: "mgr_ok (G + D) D m3"
      by (rule mgr_ok_frame [OF m2 r(2) i(1)])
    have "mgr_ok (G + D) D (setReportOk i ret m3)"
      unfolding setReportOk_def using mgr_ok_seg [OF m3 i(1)]
      by (intro mgr_ok_updateSeg [OF m3 i(1)]) (auto simp: seg_ok_def)
    then show ?thesis
      using True same_queue_trans [OF q2 report_frame_queue [OF r(2)]] by (auto simp: run r(1))
  qed
qed


lemma ttlReport_total:
  assumes m: "mgr_ok G D m" and i: "i < 8" and e: "env_ok e" and G: "0 \<le> G" "G < 2 ^ 63"
  shows "\<exists>m'. ttlReport e now force i m = Inr m' \<and> mgr_ok G D m' \<and> same_queue m m'"
proof (cases "handle (handles m ! i) < 0")
  case True
  then show ?thesis using m by (simp add: ttlReport_def)
next
  case False
  have "seg_ok G i (forceEnd (handles m ! i))"
    using mgr_ok_seg [OF m i] False by (auto simp: seg_ok_def forceEnd_def session_ok_def split: if_splits)
  then have "mgr_ok G D (updateSeg i forceEnd m)"
    by (intro mgr_ok_updateSeg [OF m i])
  then show ?thesis
    using handleOnSeg_total [OF _ i e G] m False by (fastforce simp: ttlReport_def)
qed

lemma ttlReports_total:
  assumes e: "\<And>i. env_ok (e i)" and G: "0 \<le> G" "G < 2 ^ 63"
  shows "mgr_ok G D m \<Longrightarrow> \<forall>i \<in> set is. i < 8 \<Longrightarrow>
    \<exists>m'. ttlReports e now force is m = Inr m' \<and> mgr_ok G D m' \<and> same_queue m m'"
proof (induction "is" arbitrary: m)
  case Nil
  then show ?case by simp
next
  case (Cons i "is")
  obtain m1 where "ttlReport (e i) now force i m = Inr m1" "mgr_ok G D m1" "same_queue m m1"
    using ttlReport_total [OF Cons.prems(1) _ e G] Cons.prems(2) by fastforce
  then show ?case
    using Cons.IH [of m1] Cons.prems(2) by (auto intro: same_queue_trans)
qed

lemma handleTTL_total:
  assumes "mgr_ok G D m" and "\<And>i. env_ok (e i)" and "0 \<le> G" "G < 2 ^ 63"
  shows "\<exists>m'. handleTTLReportSegInfo e now force m = Inr m' \<and> mgr_ok G D m' \<and> same_queue m m'"
  unfolding handleTTLReportSegInfo_def using assms by (intro ttlReports_total) auto

lemma release_total:
  assumes m: "mgr_ok G D m" and i: "i < 8" and r: "\<not> reportable (tmpSession (handles m ! i))"
  shows "\<exists>m'. linkReleaseSegmentHandle (int i) m = Inr m' \<and> mgr_ok G D m' \<and> same_queue m m'"
proof -
  have "seg_ok G i (releaseSeg (handles m ! i))"
    using mgr_ok_seg [OF m i] r by (simp add: seg_ok_def releaseSeg_def)
  then have "mgr_ok G D (updateSeg i releaseSeg m)"
    by (intro mgr_ok_updateSeg [OF m i])
  then show ?thesis
    using m i by (simp add: linkReleaseSegmentHandle_def)
qed

lemma handleSegInfo_total:
  assumes m: "mgr_ok G D m" and c: "msg_ok D c" and e: "\<And>i. env_ok (e i)" and G: "0 \<le> G" "0 \<le> D" "G + D < 2 ^ 63"
  shows "\<exists>m'. handleSegInfo e now c m = Inr m' \<and> mgr_ok (G + D) D m' \<and> same_queue m m'"
proof (cases "nOperation c")
  case SEGMENT_RELEASE
  define i where "i = nat (infoHandle c)"
  have i: "infoHandle c = int i" "i < 8"
    using c SEGMENT_RELEASE by (auto simp: msg_ok_def i_def)
  obtain m1 where m1: "handleOnSegReportSegInfo (e i) (int i) now m = Inr m1" "mgr_ok G D m1" "same_queue m m1"
      "\<not> reportable (tmpSession (handles m1 ! i))"
    using handleOnSeg_total [OF m i(2) e] G by fastforce
  obtain m2 where m2: "linkReleaseSegmentHandle (int i) m1 = Inr m2" "mgr_ok G D m2" "same_queue m1 m2"
    using release_total [OF m1(2) i(2) m1(4)] by blast
  have "mgr_ok (G + D) D m2" "same_queue m m2"
    using mgr_ok_mono [OF m2(2)] G same_queue_trans [OF m1(3) m2(3)] by simp_all
  then show ?thesis
    by (simp add: handleSegInfo_def SEGMENT_RELEASE i m1(1) m2(1))
next
  case SEGMENT_UPDATE
  have ok: "session_ok D (infoSession c)" "meta_fits (infoMeta c)"
    using c by (simp_all add: msg_ok_def SEGMENT_UPDATE)
  have idle: "mgr_ok (G + D) D m"
    using mgr_ok_mono [OF m, of "G + D"] G by simp
  show ?thesis
    using handleReport_total [OF m e [of "nat (infoHandle c)"] G ok] idle
    by (cases "infoHandle c < 0") (simp_all add: handleSegInfo_def SEGMENT_UPDATE)
next
  case SEGMENT_QUIT
  then show ?thesis
    using handleTTL_total [of "G + D" D m e now True] mgr_ok_mono [OF m, of "G + D"] e G
    by (simp add: handleSegInfo_def)
qed

lemma step_total:
  assumes m: "mgr_ok G D m" and e: "\<And>i. env_ok (e i)" and G: "0 \<le> G" "0 \<le> D" "G + D < 2 ^ 63"
  shows "\<exists>m'. segmetMgrRun_step e now m = Inr (length (the (pSegQueue m)) - 1, m') \<and> mgr_ok (G + D) D m' \<and>
    pSegQueue m' = Some (tl (the (pSegQueue m))) \<and> mgrQuit m' = mgrQuit m"
proof -
  obtain cs where q: "pSegQueue m = Some cs" and cs: "length cs \<le> 32" "\<forall>c \<in> set cs. msg_ok D c"
    using m by (auto simp: mgr_ok_def split: option.splits)
  have up: "mgr_ok (G + D) D m"
    using mgr_ok_mono [OF m, of "G + D"] G by simp
  show ?thesis
  proof (cases cs)
    case Nil
    then show ?thesis
      using handleTTL_total [OF up, of e now False] e G q by (auto simp: segmetMgrRun_step_def same_queue_def)
  next
    case (Cons c cs')
    have "mgr_ok G D (m\<lparr>pSegQueue := Some cs'\<rparr>)"
      using m cs Cons by (simp add: mgr_ok_def)
    then show ?thesis
      using handleSegInfo_total [of G D "m\<lparr>pSegQueue := Some cs'\<rparr>" c e now] e G cs Cons q
      by (auto simp: segmetMgrRun_step_def same_queue_def)
  qed
qed

end
