(* ===== verification/SegmentRuns.thy ===== *)
theory SegmentRuns
  imports SegmentReports
begin

section \<open>Runs of the report thread and its clients\<close>

text \<open>
  Any interleaving of the thread of \<^verbatim>\<open>segmentmgr.c\<close> with its clients: no turn of the thread faults, nothing measured is lost
  between reports, and after a request to quit the loop ends.
\<close>

subsection \<open>The thread and its clients\<close>

text \<open>The metadata text a client makes never exceeds what its block holds.\<close>

lemma length_printPairs: "printPairs ps n b = Inr (n', b') \<Longrightarrow> length b' = length b"
proof (induction ps arbitrary: n b)
  case Nil
  then show ?case by simp
next
  case (Cons p ps)
  then show ?case
    by (fastforce simp: and_then_eq_Inr write_at_def split: if_splits)
qed

lemma segMetaText_fits: "segMetaText mem x = Inr t \<Longrightarrow> meta_fits t"
proof -
  have c: "length (c_string b) \<le> length b" for b
    by (simp add: c_string_def length_takeWhile_le)
  assume t: "segMetaText mem x = Inr t"
  show "meta_fits t"
  proof (cases "malloc mem 128")
    case None
    then show ?thesis
      using t by (auto simp: segMetaText_def meta_fits_def)
  next
    case (Some b)
    then obtain b' n where "t = None \<or> (t = Some (take n b') \<and> n \<le> 127)"
      using t malloc_length [OF Some]
      by (fastforce simp: segMetaText_def and_then_eq_Inr write_at_def dest: length_printPairs split: if_splits)
    then show ?thesis
      using c [of "take n b'"] by (auto simp: meta_fits_def)
  qed
qed


text \<open>The table as the loader leaves it: all zero.\<close>

definition zeroMgr :: SegmentMgr where
  "zeroMgr = \<lparr>handles = replicate 8 (freshSeg\<lparr>handle := 0\<rparr>), mgrReportTTL = 0, mgrQuit = False, mgrStarted = False,
     pSegQueue = None, reportsSent = []\<rparr>"

text \<open>
  Everything clients and the thread may do, in any order; \<open>n\<close> counts the turns of the thread. Clients give a callback, release
  handles they got, and record at most \<open>D\<close> per update. \<open>ok\<close> is what the answers of the environment satisfy. A push that
  has to be repeated changes nothing, so only the attempt that succeeds is a step.
\<close>

inductive seg_run :: "('j SegEnv \<Rightarrow> bool) \<Rightarrow> int \<Rightarrow> nat \<Rightarrow> SegmentMgr \<Rightarrow> bool" for ok D where
  seg_init: "seg_run ok D 0 (snd (LinkInitSegmentMgr LINK_SUCCESS 0 zeroMgr))"
| seg_thread: "seg_run ok D n m \<Longrightarrow> (\<And>i. ok (e i)) \<Longrightarrow> segmetMgrRun_step e now m = Inr (l, m') \<Longrightarrow> seg_run ok D (Suc n) m'"
| seg_new: "seg_run ok D n m \<Longrightarrow> LinkNewSegmentHandle True m = (ret, h, m') \<Longrightarrow> seg_run ok D n m'"
| seg_update: "seg_run ok D n m \<Longrightarrow> session_ok D s \<Longrightarrow> LinkUpdateSegment_push mem h s smeta m = Inr (ret, m') \<Longrightarrow>
     seg_run ok D n m'"
| seg_release: "seg_run ok D n m \<Longrightarrow> h < 8 \<Longrightarrow> LinkReleaseSegmentHandle [] h m = Inr (h', Some m') \<Longrightarrow> seg_run ok D n m'"
| seg_flag: "seg_run ok D n m \<Longrightarrow> seg_run ok D n (m\<lparr>mgrQuit := True\<rparr>)"
| seg_quit: "seg_run ok D n m \<Longrightarrow> requestSegQuit [] m = Inr (Some m') \<Longrightarrow> seg_run ok D n m'"

lemma mgr_ok_init: "0 \<le> G \<Longrightarrow> mgr_ok G D (snd (LinkInitSegmentMgr LINK_SUCCESS 0 zeroMgr))"
  by (simp add: mgr_ok_def LinkInitSegmentMgr_def zeroMgr_def Let_def seg_ok_def freshSeg_def session_ok_def zeroSession_def
      reportable_def meta_fits_def c_string_def del: replicate_Suc)

lemma mgr_ok_push:
  assumes "mgr_ok G D m" and "msg_ok D c" and "pushSeg c m = Inr (ret, m')"
  shows "mgr_ok G D m'"
proof -
  obtain cs where q: "pSegQueue m = Some cs" "\<forall>c \<in> set cs. msg_ok D c"
    using assms(1) by (cases "pSegQueue m") (simp_all add: mgr_ok_def)
  have "m' = (if length cs < 32 then m\<lparr>pSegQueue := Some (cs @ [c])\<rparr> else m)"
    using assms(3) by (simp add: pushSeg_def q(1) split: if_splits)
  then show ?thesis
    using assms(1,2) q by (simp add: mgr_ok_def)
qed

lemma mgr_ok_retry: "mgr_ok G D m \<Longrightarrow> msg_ok D c \<Longrightarrow> pushRetry [] c m = Inr (Some m') \<Longrightarrow> mgr_ok G D m'"
  using mgr_ok_push [of G D m c] by (auto simp: and_then_eq_Inr split: if_splits)

lemma mgr_ok_new:
  assumes m: "mgr_ok G D m" and new: "LinkNewSegmentHandle True m = (ret, h, m')" and G: "0 \<le> G"
  shows "mgr_ok G D m'"
proof (cases "findSeg (-1) (handles m)")
  case None
  then show ?thesis
    using m new by (auto simp: LinkNewSegmentHandle_def split: if_splits)
next
  case (Some i)
  then have i: "i < 8"
    using findSeg_ok [OF Some] m by simp
  have "seg_ok G i (openSeg True i (handles m ! i))"
    using G by (simp add: openSeg_def seg_ok_def meta_fits_def session_ok_def zeroSession_def c_string_def)
  then have "mgr_ok G D (updateSeg i (openSeg True i) m)"
    by (intro mgr_ok_updateSeg [OF m i])
  then show ?thesis
    using m new Some by (auto simp: LinkNewSegmentHandle_def split: if_splits)
qed

lemma mgr_ok_client_update:
  assumes "mgr_ok G D m" and "session_ok D s" and "LinkUpdateSegment_push mem h s smeta m = Inr (ret, m')"
  shows "mgr_ok G D m'"
proof -
  obtain t r where t: "(case smeta of None \<Rightarrow> Inr None | Some x \<Rightarrow> segMetaText mem x) = Inr t"
    and p: "pushSeg \<lparr>infoHandle = h, nOperation = SEGMENT_UPDATE, infoSession = s, infoMeta = t\<rparr> m = Inr (r, m')"
    using assms(3) by (auto simp: LinkUpdateSegment_push_def and_then_eq_Inr)
  have "meta_fits t"
    using t by (auto simp: meta_fits_def split: option.splits dest: segMetaText_fits)
  then show ?thesis
    using mgr_ok_push [OF assms(1) _ p] assms(2) by (simp add: msg_ok_def)
qed

lemma seg_run_ok:
  "seg_run env_ok D n m \<Longrightarrow> 0 \<le> D \<Longrightarrow> int n * D < 2 ^ 63 \<Longrightarrow> mgr_ok (int n * D) D m"
proof (induction rule: seg_run.induct)
  case seg_init
  then show ?case by (simp add: mgr_ok_init)
next
  case (seg_thread n m e now l m')
  have n: "int (Suc n) * D = int n * D + D"
    by (simp add: algebra_simps)
  then have "mgr_ok (int n * D) D m"
    using seg_thread by simp
  then show ?case
    using step_total [of "int n * D" D m e now] seg_thread n by auto
next
  case (seg_new n m ret h m')
  then show ?case using mgr_ok_new by simp
next
  case (seg_update n m s mem h smeta ret m')
  then show ?case using mgr_ok_client_update by blast
next
  case (seg_release n m h h' m')
  then have "mgr_ok (int n * D) D m" by simp
  then show ?case
    using seg_release.hyps mgr_ok_retry [of _ _ m "\<lparr>infoHandle = h, nOperation = SEGMENT_RELEASE, infoSession = zeroSession,
        infoMeta = None\<rparr>"]
    by (auto simp: LinkReleaseSegmentHandle_def and_then_eq_Inr msg_ok_def split: if_splits simp del: pushRetry.simps)
next
  case (seg_flag n m)
  then show ?case by (simp add: mgr_ok_def)
next
  case (seg_quit n m m')
  then have "mgr_ok (int n * D) D (m\<lparr>mgrQuit := True\<rparr>)" "mgr_ok (int n * D) D m"
    by (simp_all add: mgr_ok_def)
  then show ?case
    using seg_quit.hyps mgr_ok_retry [of _ _ "m\<lparr>mgrQuit := True\<rparr>" "\<lparr>infoHandle = 0, nOperation = SEGMENT_QUIT,
        infoSession = zeroSession, infoMeta = None\<rparr>"]
    by (auto simp: requestSegQuit_def msg_ok_def split: if_splits simp del: pushRetry.simps)
qed


subsection \<open>No turn faults\<close>


text \<open>An environment without parameters yet, and one that has them.\<close>

definition idle_env :: "unit SegEnv" where
  "idle_env = \<lparr>segNow = 0, segTime = 0, segParam = (LINK_ERROR, [], [], []), segHeap = None, segJunk = replicate 64 0,
     segHttp = \<lparr>httpNew = False, httpUriOk = False, httpPrepared = False, httpReply = \<lambda>_. Http_failed\<rparr>,
     segParse = \<lambda>_. None, segTtl = \<lambda>_. None, segFreed = id\<rparr>"

lemma idle_env_ok: "env_ok idle_env"
  by (simp add: env_ok_def idle_env_def narrow_def)


text \<open>
  C25: In every state the clients and the thread can reach the table has eight entries, each free or open under its
  own index with a callback, a free entry has nothing left to report, and the queue has at most 32 messages, each fit to be handled.
\<close>

theorem handle_table_wellformed:
  assumes "seg_run env_ok D n m" and "0 \<le> D" and "int n * D < 2 ^ 63"
  shows "mgr_ok (int n * D) D m"
  using assms by (rule seg_run_ok)

theorem handle_table_wellformed_witness:
  "mgr_ok 0 5 (snd (snd (LinkNewSegmentHandle True (snd (LinkInitSegmentMgr LINK_SUCCESS 0 zeroMgr)))))"
proof -
  let ?p = "LinkNewSegmentHandle True (snd (LinkInitSegmentMgr LINK_SUCCESS 0 zeroMgr))"
  have "seg_run env_ok 5 0 (snd (snd ?p))"
    by (rule seg_run.seg_new [OF seg_run.seg_init, of "fst ?p" "fst (snd ?p)"]) simp
  then show ?thesis
    using handle_table_wellformed [of 5 0 "snd (snd ?p)"] by simp
qed

subsection \<open>Quitting\<close>

text \<open>The loop, with one entry of \<open>es\<close> for each turn; the result says whether it has ended.\<close>

fun segmetMgrRun :: "((nat \<Rightarrow> 'j SegEnv) \<times> int) list \<Rightarrow> nat \<Rightarrow> SegmentMgr \<Rightarrow> (bool \<times> SegmentMgr) run" where
  "segmetMgrRun es n m =
     (if \<not> segmetMgrRun_again m n then Inr (True, m)
      else (case es of
          [] \<Rightarrow> Inr (False, m)
        | (e, now) # es \<Rightarrow> and_then (segmetMgrRun_step e now m) (\<lambda>(n, m). segmetMgrRun es n m)))"

declare segmetMgrRun.simps [simp del]

lemma segmetMgrRun_ends:
  assumes "mgr_ok G D m" and "mgrQuit m" and "pSegQueue m = Some cs" and "length es = length cs"
    and "\<And>e now i. (e, now) \<in> set es \<Longrightarrow> env_ok (e i)" and "0 \<le> G" "0 \<le> D" "G + int (length cs) * D < 2 ^ 63"
  shows "\<exists>m'. segmetMgrRun es (length cs) m = Inr (True, m') \<and> pSegQueue m' = Some []"
  using assms
proof (induction cs arbitrary: G m es)
  case Nil
  then show ?case by (simp add: segmetMgrRun.simps [of "[]"] segmetMgrRun_again_def)
next
  case (Cons c cs)
  then obtain e now es' where es: "es = (e, now) # es'"
    by (cases es) auto
  have d: "G + D + int (length cs) * D = G + int (length (c # cs)) * D"
    by (simp add: algebra_simps)
  moreover have "0 \<le> int (length cs) * D"
    using Cons.prems(7) by simp
  ultimately have "G + D < 2 ^ 63"
    using Cons.prems(8) by linarith
  moreover have "env_ok (e i)" for i
    using Cons.prems(5) [of e now i] by (simp add: es)
  ultimately obtain m1 where s: "segmetMgrRun_step e now m = Inr (length cs, m1)" and m1: "mgr_ok (G + D) D m1"
      "pSegQueue m1 = Some cs" "mgrQuit m1"
    using step_total [OF Cons.prems(1), of e now] Cons.prems(2,3,6,7) by fastforce
  have "\<exists>m'. segmetMgrRun es' (length cs) m1 = Inr (True, m') \<and> pSegQueue m' = Some []"
    using Cons.prems(4-7) d Cons.prems(8) by (intro Cons.IH [OF m1(1,3,2)]) (auto simp: es)
  then show ?case
    using segmetMgrRun.simps [of es "length (c # cs)" m] by (simp add: segmetMgrRun_again_def es s)
qed

text \<open>
  C24: Once the manager is asked to quit, the thread that is waiting for a message handles what is queued, one message a turn, and ends
  with the queue empty.
\<close>

theorem report_thread_ends:
  assumes "seg_run env_ok D n m" and "mgrQuit m" and "pSegQueue m = Some (c # cs)" and "length es = length cs"
    and "\<And>e now i. (e, now) \<in> set ((e0, now0) # es) \<Longrightarrow> env_ok (e i)" and "0 \<le> D" "(int n + int (length cs) + 1) * D < 2 ^ 63"
  shows "\<exists>m'. and_then (segmetMgrRun_step e0 now0 m) (\<lambda>(k, m). segmetMgrRun es k m) = Inr (True, m') \<and> pSegQueue m' = Some []"
proof -
  have pos: "0 \<le> int n * D" "0 \<le> int (length cs) * D"
    using assms(6) by simp_all
  have b: "int n * D + D + int (length cs) * D < 2 ^ 63"
    using assms(7) by (simp add: algebra_simps)
  then have "int n * D < 2 ^ 63" "int n * D + D < 2 ^ 63"
    using pos assms(6) by linarith+
  then obtain m1 where s: "segmetMgrRun_step e0 now0 m = Inr (length cs, m1)" and m1: "mgr_ok (int n * D + D) D m1"
      "pSegQueue m1 = Some cs" "mgrQuit m1"
    using step_total [OF seg_run_ok [OF assms(1,6)], of e0 now0] assms(2,3,5,6) pos by fastforce
  show ?thesis
    using segmetMgrRun_ends [OF m1(1,3,2) assms(4), simplified] assms(5,6) b pos s by fastforce
qed

theorem report_thread_ends_witness:
  "\<exists>m'. and_then (segmetMgrRun_step (\<lambda>_. idle_env) 0 (the (case requestSegQuit [] (snd (LinkInitSegmentMgr LINK_SUCCESS 0 zeroMgr))
       of Inr r \<Rightarrow> r | _ \<Rightarrow> None))) (\<lambda>(k, m). segmetMgrRun ([] :: ((nat \<Rightarrow> unit SegEnv) \<times> int) list) k m) = Inr (True, m') \<and> pSegQueue m' = Some []"
proof -
  let ?m = "snd (LinkInitSegmentMgr LINK_SUCCESS 0 zeroMgr)"
  let ?c = "\<lparr>infoHandle = 0, nOperation = SEGMENT_QUIT, infoSession = zeroSession, infoMeta = None\<rparr>"
  have q: "requestSegQuit [] ?m = Inr (Some (?m\<lparr>mgrQuit := True, pSegQueue := Some [?c]\<rparr>))"
    by (simp add: requestSegQuit_def LinkInitSegmentMgr_def zeroMgr_def Let_def pushSeg_def)
  then have "seg_run (env_ok :: unit SegEnv \<Rightarrow> bool) 1 0 (?m\<lparr>mgrQuit := True, pSegQueue := Some [?c]\<rparr>)"
    by (rule seg_run.seg_quit [OF seg_run.seg_init])
  then show ?thesis
    using report_thread_ends [of 1 0 "?m\<lparr>mgrQuit := True, pSegQueue := Some [?c]\<rparr>" ?c "[]" "[]" "\<lambda>_. idle_env" 0]
    by (simp add: q idle_env_ok)
qed

text \<open>
  The request sets the flag first. When the thread tests it before the message is in the queue, it ends and the reports the message asks
  for are not made.
\<close>

lemma quit_can_skip_reports: "mgrQuit m \<Longrightarrow> segmetMgrRun es 0 m = Inr (True, m)"
  by (simp add: segmetMgrRun.simps segmetMgrRun_again_def)

subsection \<open>Nothing is lost between reports\<close>

text \<open>The updates of a session one after the other, each with its time: what is put into reports, and what is kept back.\<close>

fun run_updates :: "(int \<times> LinkSession) list \<Rightarrow> Seg \<Rightarrow> LinkSession list \<times> Seg" where
  "run_updates [] g = ([], g)"
| "run_updates ((now, c) # us) g = (case checkShouldReport now g c of (b, g, c) \<Rightarrow>
     (case run_updates us g of (rs, g) \<Rightarrow> (if b then c # rs else rs, g)))"

definition gaps :: "LinkSession \<Rightarrow> int \<times> int" where
  "gaps s = (nVideoGapFromLastReport s, nAudioGapFromLastReport s)"

definition gaps_sum :: "LinkSession list \<Rightarrow> int \<times> int" where
  "gaps_sum ss = (sum_list (map nVideoGapFromLastReport ss), sum_list (map nAudioGapFromLastReport ss))"

definition gaps_add :: "int \<times> int \<Rightarrow> int \<times> int \<Rightarrow> int \<times> int" where
  "gaps_add a b = (fst a + fst b, snd a + snd b)"

definition going_on :: "LinkSession \<Rightarrow> bool" where
  "going_on c \<longleftrightarrow> isNewSessionStarted c = 0 \<and> 0 \<le> nVideoGapFromLastReport c \<and> 0 \<le> nAudioGapFromLastReport c"

lemma checkShouldReport_gaps:
  assumes "going_on c" and "0 \<le> nVideoGapFromLastReport (tmpSession g)" "0 \<le> nAudioGapFromLastReport (tmpSession g)"
    and "checkShouldReport now g c = (b, g', c')"
  shows "gaps_add (gaps (tmpSession g)) (gaps c) = gaps_add (if b then gaps c' else (0, 0)) (gaps (tmpSession g'))"
    and "0 \<le> nVideoGapFromLastReport (tmpSession g')" and "0 \<le> nAudioGapFromLastReport (tmpSession g')"
  using assms by (auto simp: checkShouldReport_cases going_on_def gaps_def gaps_add_def split: if_splits)


definition two_updates :: "(int \<times> LinkSession) list" where
  "two_updates = [(5000000000, zeroSession\<lparr>nVideoGapFromLastReport := 40\<rparr>),
     (12000000000, zeroSession\<lparr>nVideoGapFromLastReport := 2\<rparr>)]"


text \<open>
  A report that cannot be sent, here for lack of parameters, leaves its times neither in a report nor with the segment.
\<close>

lemma failed_report_loses_times:
  assumes "handles m ! 0 = freshSeg\<lparr>handle := 0, hasParamCallback := True\<rparr>" and "length (handles m) = 8"
    and "nAccSessionVideoDuration s = 40" "nVideoGapFromLastReport s = 40" "isNewSessionStarted s = 0" "session_ok 40 s"
    and "nSessionEndResonCode s = 0"
  shows "\<exists>m'. handleReportSegInfo (idle_env\<lparr>segNow := 0\<rparr>) \<lparr>infoHandle = 0, nOperation = SEGMENT_UPDATE, infoSession = s, infoMeta = None\<rparr> m
    = Inr m' \<and> reportsSent m' = reportsSent m \<and> nVideoGapFromLastReport (tmpSession (handles m' ! 0)) = 0"
proof -
  have find: "findSeg 0 (handles m) = Some 0"
    using assms(1,2) by (cases "handles m") (auto simp: findSeg_def)
  have s: "s\<lparr>nVideoGapFromLastReport := 40\<rparr> = s"
    using assms(4) by (cases s) simp
  have "printable s"
    using session_ok_printable [OF assms(6)] by simp
  then obtain body where body: "reportBody 0 None s = Inr body"
    using reportBody_fits [of s 0 None] by (auto simp: narrow_def meta_fits_def)
  show ?thesis
    using assms find body
    by (simp add: s handleReportSegInfo_def checkShouldReport_cases freshSeg_def zeroSession_def Let_def keepUp_def c_div_def
        reportSegInfo_def reportEnd_def idle_env_def setReportOk_def updateSeg_def nth_list_update)
qed

subsection \<open>Waiting and metadata\<close>

text \<open>
  Between 1 and 2147 seconds the wait is what the server asked for; from 2148 on the product overflows and the wait is negative.
\<close>

lemma popWaitTime_seconds: "0 < mgrReportTTL m \<Longrightarrow> mgrReportTTL m \<le> 2147 \<Longrightarrow> popWaitTime m = mgrReportTTL m * 1000000"
  unfolding popWaitTime_def signed_of_int by (simp add: signed_take_bit_int_eq_self)

lemma popWaitTime_wraps: "mgrReportTTL m = 2148 \<Longrightarrow> popWaitTime m < 0"
  by (simp add: popWaitTime_def)

text \<open>No pairs make a text that is not JSON; a pair of 114 characters does not fit the block.\<close>

lemma empty_metadata: "malloc mem 128 = Some b \<Longrightarrow> metaPairs x = [] \<Longrightarrow>
    segMetaText mem x = Inr (Some (ascii (''\"meta\":}'')))"
  using malloc_length [of mem 128 b] by (auto simp: segMetaText_def write_at_def overwrite_def ascii_def)

lemma long_metadata_overflows:
  assumes "malloc mem 128 = Some b" and "metaPairs x = (k, v) # ps" and "114 \<le> length (c_string k) + length (c_string v)"
  shows "segMetaText mem x = Inl Out_of_bounds"
proof -
  have "120 \<le> length (metaPair (k, v))"
    using assms(3) by (simp add: metaPair_def)
  then show ?thesis
    using assms(1,2) malloc_length [of mem 128 b] by (simp add: segMetaText_def write_at_def min_def)
qed

end
