(* ===== verification/TokenConfig.thy ===== *)
theory TokenConfig
  imports HttpTools
begin

section \<open>Tokens and remote configuration (tsmuxuploader.c)\<close>

text \<open>
  One thread per uploader fetches the configuration of the device and the tokens uploads need, tries again with growing delays, and
  hands both to the upload and report threads through \<open>uploadParamCallback\<close>. The HTTP client, the JSON reader, the clock and
  the allocator are answers of the environment.
\<close>

subsection \<open>State\<close>

text \<open>A null pointer is \<open>None\<close>.\<close>

record Buffer =
  bufData :: "bytes option"
  bufLen :: int
  bufCap :: int

definition noBuffer :: Buffer where
  "noBuffer = \<lparr>bufData = None, bufLen = 0, bufCap = 0\<rparr>"

record Token =
  pToken :: Buffer
  pFrameToken :: Buffer
  pTsToken :: Buffer
  pFnamePrefix :: Buffer
  isCompatableMode :: bool

record RemoteConfig =
  updateConfigInterval :: int
  rcTsDuration :: int
  rcSessionDuration :: int
  rcSessionTimeout :: int
  mgrTokenRequestUrl :: Buffer
  upTokenRequestUrl :: Buffer
  upHostUrl :: Buffer
  isValid :: bool
  rcPlanType :: int

datatype LinkCloudStorageState = LinkCloudStorageStateNone | LinkCloudStorageStateOn | LinkCloudStorageStateOff

text \<open>
  The part of \<open>FFTsMuxUploader\<close> the thread and \<open>uploadParamCallback\<close> share. \<open>hasTsUploader\<close> says whether there is a segment
  uploader; \<open>planTypes\<close> lists the plans it was given, \<open>cloudStates\<close> the calls of the application's callback.
\<close>

record TokenState =
  token :: Token
  remoteConfig :: RemoteConfig
  tmpRemoteConfig :: RemoteConfig
  deviceAk :: bytes
  deviceSk :: bytes
  pConfigRequestUrl :: bytes
  muxSessionId :: bytes
  muxSegSeqNum :: int
  muxIsQuit :: bool
  hasTsUploader :: bool
  planTypes :: "int list"
  hasCloudStateCb :: bool
  cloudStorageState :: LinkCloudStorageState
  cloudStates :: "LinkCloudStorageState list"
  pUpdateQueue :: "SessionUpdateParam list"

text \<open>As \<open>linkNewTsMuxUploader\<close> makes it.\<close>

definition freshConfig :: RemoteConfig where
  "freshConfig = \<lparr>updateConfigInterval = 0, rcTsDuration = 0, rcSessionDuration = 0, rcSessionTimeout = 0,
     mgrTokenRequestUrl = noBuffer, upTokenRequestUrl = noBuffer, upHostUrl = noBuffer, isValid = False, rcPlanType = 0\<rparr>"

definition freshTokenState :: "bytes \<Rightarrow> bytes \<Rightarrow> bytes \<Rightarrow> TokenState" where
  "freshTokenState ak sk url = \<lparr>token = \<lparr>pToken = noBuffer, pFrameToken = noBuffer, pTsToken = noBuffer, pFnamePrefix = noBuffer,
       isCompatableMode = False\<rparr>,
     remoteConfig = freshConfig\<lparr>rcSessionDuration := 100000, rcTsDuration := 4000, rcSessionTimeout := 3000\<rparr>,
     tmpRemoteConfig = freshConfig, deviceAk = ak, deviceSk = sk, pConfigRequestUrl = url, muxSessionId = replicate 21 0,
     muxSegSeqNum = 0, muxIsQuit = False, hasTsUploader = False, planTypes = [], hasCloudStateCb = False,
     cloudStorageState = LinkCloudStorageStateNone, cloudStates = [], pUpdateQueue = []\<rparr>"

text \<open>
  Answers of the environment for one turn: the clock after the configuration and after the token request, in nanoseconds, the
  allocator (by call), the HTTP client for both requests, the JSON reader with access to a field, a number and a text, the serial
  number of the device, and an uninitialised block of the signature.
\<close>

record 'j TokenEnv =
  tkConfigTime :: int
  tkTokenTime :: int
  tkHeap :: "nat \<Rightarrow> heap_answer"
  tkConfigHttp :: HttpClient
  tkTokenHttp :: HttpClient
  tkParse :: "bytes \<Rightarrow> 'j option"
  tkItem :: "'j \<Rightarrow> string \<Rightarrow> 'j option"
  tkInt :: "'j \<Rightarrow> int"
  tkString :: "'j \<Rightarrow> bytes option"
  tkSn :: bytes
  tkJunk :: bytes

definition c_int :: "int \<Rightarrow> int" where
  "c_int x = sint (word_of_int x :: 32 word)"

subsection \<open>Fields of a reply\<close>

definition getJsonString :: "'j TokenEnv \<Rightarrow> nat \<Rightarrow> Buffer \<Rightarrow> string \<Rightarrow> 'j \<Rightarrow> (int \<times> Buffer) run" where
  "getJsonString e k buf field j =
     (case tkItem e j field of
        None \<Rightarrow> Inr (LINK_JSON_FORMAT, buf)
      | Some node \<Rightarrow> (case tkString e node of
            None \<Rightarrow> Inl Null_deref
          | Some v \<Rightarrow>
              let s = c_string v; n = length s in
              if int n + 1 \<le> bufCap buf then
                (case bufData buf of
                   None \<Rightarrow> Inl Null_deref
                 | Some b \<Rightarrow> and_then (write_at 0 (s @ [0]) b) (\<lambda>b. Inr (LINK_SUCCESS, buf\<lparr>bufData := Some b, bufLen := int n\<rparr>)))
              else (case malloc (tkHeap e k) (n + 257) of
                  None \<Rightarrow> Inr (LINK_NO_MEMORY, buf)
                | Some b \<Rightarrow> and_then (write_at 0 (s @ [0]) b) (\<lambda>b.
                    Inr (LINK_SUCCESS, \<lparr>bufData = Some b, bufLen = int n, bufCap = int n + 257\<rparr>)))))"

text \<open>The capacities stay.\<close>

definition freeRemoteConfig :: "RemoteConfig \<Rightarrow> RemoteConfig" where
  "freeRemoteConfig rc = rc\<lparr>upHostUrl := (upHostUrl rc)\<lparr>bufData := None\<rparr>,
     mgrTokenRequestUrl := (mgrTokenRequestUrl rc)\<lparr>bufData := None\<rparr>,
     upTokenRequestUrl := (upTokenRequestUrl rc)\<lparr>bufData := None\<rparr>\<rparr>"

definition intField :: "'j TokenEnv \<Rightarrow> 'j \<Rightarrow> string \<Rightarrow> int \<Rightarrow> int" where
  "intField e j field x = (case tkItem e j field of None \<Rightarrow> x | Some node \<Rightarrow> tkInt e node)"

text \<open>The times of a configuration, in milliseconds; the products are computed at 32 bits.\<close>

definition configTimes :: "'j TokenEnv \<Rightarrow> 'j \<Rightarrow> RemoteConfig \<Rightarrow> RemoteConfig" where
  "configTimes e seg rc =
     (let ts = (case tkItem e seg ''tsDuration'' of None \<Rightarrow> rcTsDuration rc | Some node \<Rightarrow> c_int (tkInt e node * 1000));
          sd = (case tkItem e seg ''sessionDuration'' of None \<Rightarrow> rcSessionDuration rc | Some node \<Rightarrow> c_int (tkInt e node * 1000));
          st = (case tkItem e seg ''sessionTimeout'' of None \<Rightarrow> rcSessionTimeout rc | Some node \<Rightarrow> c_int (tkInt e node * 1000))
      in rc\<lparr>rcTsDuration := (if ts < 4000 \<or> 15000 < ts then 4000 else ts), rcSessionDuration := sd,
           rcSessionTimeout := (if st < 1000 then 3000 else st)\<rparr>)"

text \<open>The three addresses of the "segment" object; the flag says whether memory sufficed.\<close>

definition configUrls :: "'j TokenEnv \<Rightarrow> 'j \<Rightarrow> RemoteConfig \<Rightarrow> (bool \<times> RemoteConfig) run" where
  "configUrls e seg rc =
     and_then (getJsonString e 0 (upHostUrl rc) ''uploadUrl'' seg) (\<lambda>(ret, b).
     let rc = rc\<lparr>upHostUrl := b\<rparr> in
     if ret = LINK_NO_MEMORY then Inr (False, rc)
     else and_then (getJsonString e 1 (upTokenRequestUrl rc) ''uploadTokenRequestUrl'' seg) (\<lambda>(ret, b).
     let rc = rc\<lparr>upTokenRequestUrl := b\<rparr> in
     if ret = LINK_NO_MEMORY then Inr (False, rc)
     else and_then (getJsonString e 2 (mgrTokenRequestUrl rc) ''segmentReportUrl'' seg) (\<lambda>(ret, b).
     Inr (ret \<noteq> LINK_NO_MEMORY, rc\<lparr>mgrTokenRequestUrl := b\<rparr>))))"

text \<open>
  From the parsed reply on. The results are the code, the interval if it was read, and the new \<open>tmpRemoteConfig\<close>; that the
  interval was read is \<open>*isTtlGet\<close>.
\<close>

definition readConfig :: "'j TokenEnv \<Rightarrow> 'j \<Rightarrow> RemoteConfig \<Rightarrow> (int \<times> int option \<times> RemoteConfig) run" where
  "readConfig e j rc =
     (case tkItem e j ''ttl'' of
        None \<Rightarrow> Inr (LINK_JSON_FORMAT, None, rc)
      | Some node \<Rightarrow>
          let ttl = tkInt e node; rc = rc\<lparr>updateConfigInterval := ttl\<rparr> in
          (case tkItem e j ''segment'' of
             None \<Rightarrow> Inr (LINK_JSON_FORMAT, Some ttl, rc)
           | Some seg \<Rightarrow>
               and_then (configUrls e seg (rc\<lparr>rcPlanType := intField e seg ''uploadMode'' (rcPlanType rc)\<rparr>)) (\<lambda>(ok, rc).
               if \<not> ok then Inr (LINK_NO_MEMORY, Some ttl, freeRemoteConfig rc)
               else Inr (LINK_SUCCESS, Some ttl, configTimes e seg rc))))"

text \<open>The request is put together in a block of 2048 bytes, which then receives the reply.\<close>

definition getRemoteConfig :: "'j TokenEnv \<Rightarrow> TokenState \<Rightarrow> (int \<times> int option \<times> TokenState) run" where
  "getRemoteConfig e t =
     (let url = pConfigRequestUrl t @ chars ''?sn='' @ c_string (tkSn e) in
      if 2048 \<le> length url then Inl Out_of_bounds
      else
        and_then (GetHttpRequestSign (tkHeap e 3) (tkJunk e) (deviceSk t) (chars ''GET'') url None [] 30) (\<lambda>(ret, _, sign).
        if ret \<noteq> LINK_SUCCESS then Inr (ret, None, t)
        else and_then (LinkGetUserConfig (tkConfigHttp e) url 2048 (Some (deviceAk t @ [58] @ sign))) (\<lambda>(ret, _, resp).
          if ret \<noteq> LINK_SUCCESS then Inr (ret, None, t)
          else (case tkParse e (c_string resp) of
              None \<Rightarrow> Inr (LINK_JSON_FORMAT, None, t)
            | Some j \<Rightarrow> and_then (readConfig e j (tmpRemoteConfig t)) (\<lambda>(ret, ttl, rc).
                Inr (ret, ttl, t\<lparr>tmpRemoteConfig := rc\<rparr>))))))"

subsection \<open>Taking a configuration over\<close>

text \<open>The two configurations are swapped, so that the next one is read over the last but one.\<close>

definition updateRemoteConfig :: "TokenState \<Rightarrow> TokenState" where
  "updateRemoteConfig t =
     (let t = (if rcPlanType (tmpRemoteConfig t) \<noteq> rcPlanType (remoteConfig t) \<and> hasTsUploader t
               then t\<lparr>planTypes := planTypes t @ [rcPlanType (tmpRemoteConfig t)]\<rparr> else t)
      in t\<lparr>remoteConfig := (tmpRemoteConfig t)\<lparr>isValid := True\<rparr>, tmpRemoteConfig := remoteConfig t\<rparr>)"

definition setRemoteConfigInvalid :: "TokenState \<Rightarrow> TokenState" where
  "setRemoteConfigInvalid t = t\<lparr>remoteConfig := (remoteConfig t)\<lparr>isValid := False\<rparr>\<rparr>"

definition LinkSetCloudStorageStateCallback :: "bool \<Rightarrow> TokenState \<Rightarrow> TokenState" where
  "LinkSetCloudStorageStateCallback cb t = t\<lparr>hasCloudStateCb := cb\<rparr>"

definition doCloudStorageStateCallback :: "LinkCloudStorageState \<Rightarrow> TokenState \<Rightarrow> TokenState" where
  "doCloudStorageStateCallback s t =
     (let t = (if hasCloudStateCb t \<and> (cloudStorageState t = LinkCloudStorageStateNone \<or> cloudStorageState t \<noteq> s)
               then t\<lparr>cloudStates := cloudStates t @ [s]\<rparr> else t)
      in t\<lparr>cloudStorageState := s\<rparr>)"

subsection \<open>Tokens\<close>

definition setToken :: "Buffer \<Rightarrow> Buffer \<Rightarrow> Buffer \<Rightarrow> Buffer \<Rightarrow> bool \<Rightarrow> TokenState \<Rightarrow> TokenState" where
  "setToken tok ttok ftok prefix cm t = t\<lparr>token := \<lparr>pToken = tok, pFrameToken = ftok, pTsToken = ttok,
     pFnamePrefix = prefix, isCompatableMode = cm\<rparr>\<rparr>"

text \<open>A trailing slash is taken off the prefix. The block is never null here; an empty prefix is read at index -1.\<close>

definition cutSlash :: "Buffer \<Rightarrow> Buffer run" where
  "cutSlash b = (case bufData b of
      None \<Rightarrow> Inr b
    | Some x \<Rightarrow>
        if bufLen b < 1 \<or> int (length x) < bufLen b then Inl Out_of_bounds
        else let i = nat (bufLen b - 1) in
          Inr (if x ! i = 47 then b\<lparr>bufData := Some (x[i := 0]), bufLen := bufLen b - 1\<rparr> else b))"

text \<open>From the parsed reply on; \<open>buf\<close> and \<open>prefix\<close> are the two blocks made first. The code always is success once the ttl was found.\<close>

definition readTokens :: "'j TokenEnv \<Rightarrow> 'j \<Rightarrow> Buffer \<Rightarrow> Buffer \<Rightarrow> TokenState \<Rightarrow> TokenState run" where
  "readTokens e j buf prefix t =
     and_then (getJsonString e 6 noBuffer ''tsToken'' j) (\<lambda>(getTs, ttok).
     and_then (getJsonString e 7 noBuffer ''frameToken'' j) (\<lambda>(getFrame, ftok).
     let cm = (getTs \<noteq> LINK_SUCCESS \<or> getFrame \<noteq> LINK_SUCCESS) in
     and_then (getJsonString e 8 buf ''token'' j) (\<lambda>(ret, tok).
     if ret = LINK_NO_MEMORY \<and> cm then Inr t
     else and_then (getJsonString e 9 prefix ''fnamePrefix'' j) (\<lambda>(ret, prefix).
     if ret = LINK_NO_MEMORY \<and> cm then Inr t
     else and_then (cutSlash prefix) (\<lambda>prefix. Inr (setToken tok ttok ftok prefix cm t))))))"

definition tokenUrl :: "bytes \<Rightarrow> SessionUpdateParam \<Rightarrow> bytes" where
  "tokenUrl url p = c_string url @ chars ''?session='' @ c_string (updSessionId p) @ chars ''&sequence='' @ print_int (nSeqNum p)"

text \<open>
  The results are the code and the deadline, if one was read. The second block is used before it is tested for null, and a null
  address is printed.
\<close>

definition updateToken :: "'j TokenEnv \<Rightarrow> SessionUpdateParam \<Rightarrow> TokenState \<Rightarrow> (int \<times> int option \<times> TokenState) run" where
  "updateToken e p t =
     (case malloc (tkHeap e 4) 1024 of
        None \<Rightarrow> Inr (LINK_NO_MEMORY, None, t)
      | Some _ \<Rightarrow> (case malloc (tkHeap e 5) 256 of
          None \<Rightarrow> Inl Null_deref
        | Some _ \<Rightarrow> (case bufData (upTokenRequestUrl (remoteConfig t)) of
            None \<Rightarrow> Inl Null_deref
          | Some u \<Rightarrow>
              let url = tokenUrl u p in
              if 1024 \<le> length url then Inl Out_of_bounds
              else
                and_then (GetHttpRequestSign (tkHeap e 10) (tkJunk e) (deviceSk t) (chars ''GET'') url None [] 30) (\<lambda>(ret, _, sign).
                if ret \<noteq> LINK_SUCCESS then Inr (ret, None, t)
                else
                  let tok = deviceAk t @ [58] @ sign in
                  and_then (LinkGetUploadToken (tkParse e) (tkTokenHttp e) url (Some tok)) (\<lambda>(ret, j).
                  if ret \<noteq> LINK_SUCCESS then Inr (ret, None, t)
                  else (case j of
                      None \<Rightarrow> Inl Null_deref
                    | Some j \<Rightarrow> (case tkItem e j ''ttl'' of
                        None \<Rightarrow> Inr (LINK_JSON_FORMAT, None, t)
                      | Some node \<Rightarrow>
                          and_then (write_at 0 (url @ [0] @ tok) (replicate 1024 0)) (\<lambda>b.
                          and_then (readTokens e j \<lparr>bufData = Some b, bufLen = 0, bufCap = 1024\<rparr>
                             \<lparr>bufData = Some (replicate 256 0), bufLen = 0, bufCap = 256\<rparr> t) (\<lambda>t.
                          Inr (LINK_SUCCESS, Some (tkInt e node), t))))))))))"

subsection \<open>The thread\<close>

record TokenLoop =
  rcSleepUntilTime :: int
  nNextTryRcTime :: int
  shouldUpdateRc :: bool
  tokenSleepUntilTime :: int
  nNextTryTokenTime :: int
  shouldUpdateToken :: bool
  sessionIdBak :: bytes

definition startLoop :: TokenLoop where
  "startLoop = \<lparr>rcSleepUntilTime = 2147483647, nNextTryRcTime = 1, shouldUpdateRc = False, tokenSleepUntilTime = 2147483647,
     nNextTryTokenTime = 1, shouldUpdateToken = False, sessionIdBak = replicate 21 0\<rparr>"

definition in_seconds :: "int \<Rightarrow> int" where
  "in_seconds t = c_int (c_div t 1000000000)"

text \<open>How long to wait for a message, and whether the end of the wait is for the configuration.\<close>

definition waitFor :: "int \<Rightarrow> TokenLoop \<Rightarrow> int \<times> bool" where
  "waitFor now l =
     (let nWaitRc = rcSleepUntilTime l - now; nWaitToken = tokenSleepUntilTime l - now;
          forToken = (\<not> shouldUpdateRc l \<and> shouldUpdateToken l \<and> 0 < nWaitToken \<and> nWaitToken < nWaitRc);
          nWait = (if forToken then nWaitToken else nWaitRc)
      in (if nWait < 0 then 0 else nWait, \<not> forToken))"

definition configFailed :: "int \<Rightarrow> TokenLoop \<Rightarrow> TokenLoop" where
  "configFailed now l =
     (let next = (if 16 < nNextTryRcTime l then 16 else nNextTryRcTime l) in
      l\<lparr>rcSleepUntilTime := now + next, nNextTryRcTime := next * 2, shouldUpdateRc := True, shouldUpdateToken := False,
        nNextTryTokenTime := 1\<rparr>)"

definition configDone :: "int \<Rightarrow> int \<Rightarrow> TokenLoop \<Rightarrow> TokenLoop" where
  "configDone now interval l = l\<lparr>nNextTryRcTime := 1, shouldUpdateRc := False, shouldUpdateToken := False, nNextTryTokenTime := 1,
     rcSleepUntilTime := (if 1544756657 < interval then interval else now + interval)\<rparr>"

text \<open>The configuration part of a turn; the flag says whether to go on to the token.\<close>

definition configStep :: "'j TokenEnv \<Rightarrow> TokenLoop \<Rightarrow> TokenState \<Rightarrow> (bool \<times> TokenLoop \<times> TokenState) run" where
  "configStep e l t =
     and_then (getRemoteConfig e t) (\<lambda>(ret, ttl, t).
       let now = in_seconds (tkConfigTime e);
           t = doCloudStorageStateCallback (if ret = LINK_SUCCESS then LinkCloudStorageStateOn else LinkCloudStorageStateOff) t
       in if ret \<noteq> LINK_SUCCESS then
            Inr (False, configFailed now l, if ttl \<noteq> None then setRemoteConfigInvalid t else t)
          else Inr (True, configDone now (case ttl of None \<Rightarrow> 0 | Some i \<Rightarrow> i) l, updateRemoteConfig t))"

definition tokenFailed :: "int \<Rightarrow> TokenLoop \<Rightarrow> TokenLoop" where
  "tokenFailed now l =
     (let next = (if 16 < nNextTryTokenTime l then 16 else nNextTryTokenTime l) in
      l\<lparr>tokenSleepUntilTime := now + next, shouldUpdateToken := True, nNextTryTokenTime := next * 2\<rparr>)"

definition tokenStep :: "'j TokenEnv \<Rightarrow> SessionUpdateParam \<Rightarrow> TokenLoop \<Rightarrow> TokenState \<Rightarrow> (TokenLoop \<times> TokenState) run" where
  "tokenStep e p l t =
     (let p = (if updSessionId p ! 0 = 0 then p\<lparr>updSessionId := sessionIdBak l\<rparr> else p) in
      and_then (updateToken e (p\<lparr>nSeqNum := muxSegSeqNum t\<rparr>) t) (\<lambda>(ret, ttl, t).
      let l = (case ttl of None \<Rightarrow> l | Some d \<Rightarrow> l\<lparr>tokenSleepUntilTime := d\<rparr>) in
      if ret \<noteq> LINK_SUCCESS then Inr (tokenFailed (in_seconds (tkTokenTime e)) l, t)
      else Inr (l\<lparr>nNextTryTokenTime := 1, shouldUpdateToken := False\<rparr>, t)))"

text \<open>
  A turn after \<open>PopWithTimeout\<close> has returned \<open>ret\<close> and \<open>p\<close> (all zero after a time-out); \<open>rcTimeout\<close> comes from \<open>waitFor\<close>.
\<close>

definition zeroUpdate :: SessionUpdateParam where
  "zeroUpdate = \<lparr>nUpdateType = 0, nSeqNum = 0, updSessionId = replicate 21 0\<rparr>"

definition handleUpdate ::
    "'j TokenEnv \<Rightarrow> int \<Rightarrow> SessionUpdateParam \<Rightarrow> bool \<Rightarrow> TokenLoop \<Rightarrow> TokenState \<Rightarrow> (TokenLoop \<times> TokenState) run" where
  "handleUpdate e ret p rcTimeout l t =
     (if ret < 0 \<and> ret \<noteq> LINK_TIMEOUT then Inr (l, t)
      else
        let timedOut = (ret \<le> 0) in
        if nUpdateType p = 3 then Inr (l, t)
        else
          let l = (if updSessionId p ! 0 \<noteq> 0 then l\<lparr>sessionIdBak := updSessionId p\<rparr> else l) in
          if nUpdateType p = 2 \<or> shouldUpdateRc l \<or> (timedOut \<and> rcTimeout) then
            and_then (configStep e l t) (\<lambda>(go, l, t). if go then tokenStep e p l t else Inr (l, t))
          else if nUpdateType p = 1 \<or> shouldUpdateToken l then tokenStep e p l t
          else Inr (l, t))"

abbreviation (input) sizeof_SessionUpdateParam :: int where "sizeof_SessionUpdateParam \<equiv> 40"

text \<open>One turn; an empty queue is a wait that timed out. \<open>now\<close> is the clock at its start. The first result is \<open>info.nLen_\<close>.\<close>

definition tokenTurn :: "'j TokenEnv \<Rightarrow> int \<Rightarrow> TokenLoop \<times> TokenState \<Rightarrow> (nat \<times> TokenLoop \<times> TokenState) run" where
  "tokenTurn e now s = (case s of (l, t) \<Rightarrow>
     (case waitFor (in_seconds now) l of (_, rcTimeout) \<Rightarrow>
       (case pUpdateQueue t of
          [] \<Rightarrow> and_then (handleUpdate e LINK_TIMEOUT zeroUpdate rcTimeout l t) (\<lambda>s. Inr (0, s))
        | p # ps \<Rightarrow> and_then (handleUpdate e sizeof_SessionUpdateParam p rcTimeout l (t\<lparr>pUpdateQueue := ps\<rparr>)) (\<lambda>s. Inr (length ps, s)))))"

definition tokenAgain :: "TokenState \<Rightarrow> nat \<Rightarrow> bool" where
  "tokenAgain t n \<longleftrightarrow> \<not> muxIsQuit t \<or> n \<noteq> 0"

definition pushUpdate :: "SessionUpdateParam \<Rightarrow> TokenState \<Rightarrow> int \<times> TokenState" where
  "pushUpdate p t = (if length (pUpdateQueue t) < 50
     then (sizeof_SessionUpdateParam, t\<lparr>pUpdateQueue := pUpdateQueue t @ [p]\<rparr>) else (LINK_Q_OVERFLOW, t))"

text \<open>\<open>queueRet\<close> and \<open>threadRet\<close> are the results of making the queue and the thread; the flag says whether the queue is there.\<close>

definition linkTsMuxUploaderTokenThreadStart :: "int \<Rightarrow> int \<Rightarrow> TokenState \<Rightarrow> int \<times> bool \<times> TokenState" where
  "linkTsMuxUploaderTokenThreadStart queueRet threadRet t =
     (if queueRet \<noteq> 0 then (queueRet, False, t)
      else if threadRet \<noteq> 0 then (LINK_THREAD_ERROR, False, t)
      else (LINK_SUCCESS, True, t\<lparr>pUpdateQueue := []\<rparr>))"

subsection \<open>Parameters of a request\<close>

datatype LinkUploadCbType =
    LINK_UPLOAD_CB_GETPARAM | LINK_UPLOAD_CB_UPREMOTECONFIG | LINK_UPLOAD_CB_GETFRAMEPARAM | LINK_UPLOAD_CB_GETTSPARAM

record LinkUploadParam =
  pTokenBuf :: "bytes option"
  nTokenBufLen :: int
  pUpHost :: "bytes option"
  nUpHostLen :: int
  pSegUrl :: "bytes option"
  nSegUrlLen :: int
  paramSessionId :: bytes
  pAk :: "bytes option"
  nAkLen :: int
  pSk :: "bytes option"
  nSkLen :: int
  pFilePrefix :: "bytes option"
  nFilePrefix :: int

text \<open>
  One parameter: nothing when the caller gave no block; a refusal when it is too small; else the block with the text and a null byte,
  and the length of the text.
\<close>

datatype given = Nothing_asked | Too_small | Given bytes int

definition giveText :: "Buffer \<Rightarrow> bytes option \<Rightarrow> int \<Rightarrow> given run" where
  "giveText src dst cap =
     (case dst of
        None \<Rightarrow> Inr Nothing_asked
      | Some d \<Rightarrow>
          if cap - 1 < bufLen src then Inr Too_small
          else
            and_then (case bufData src of
                None \<Rightarrow> if bufLen src = 0 then Inr [] else Inl Null_deref
              | Some b \<Rightarrow> if bufLen src < 0 then Inl Out_of_bounds else read_at 0 (nat (bufLen src)) b) (\<lambda>x.
            and_then (write_at 0 (x @ [0]) d) (\<lambda>d. Inr (Given d (bufLen src)))))"

definition afterGiven :: "given run \<Rightarrow> LinkUploadParam \<Rightarrow> (bytes \<Rightarrow> int \<Rightarrow> LinkUploadParam) \<Rightarrow>
    (LinkUploadParam \<Rightarrow> (int \<times> LinkUploadParam) run) \<Rightarrow> (int \<times> LinkUploadParam) run" where
  "afterGiven r p store f = and_then r (\<lambda>g. case g of
     Nothing_asked \<Rightarrow> f p | Too_small \<Rightarrow> Inr (LINK_BUFFER_IS_SMALL, p) | Given d n \<Rightarrow> f (store d n))"

definition stringBuffer :: "bytes \<Rightarrow> Buffer" where
  "stringBuffer s = \<lparr>bufData = Some (s @ [0]), bufLen = int (length s), bufCap = int (length s) + 1\<rparr>"

text \<open>Which token the request gets: by its kind, or the common one for a server that gives only that.\<close>

definition sourceToken :: "LinkUploadCbType \<Rightarrow> Token \<Rightarrow> Buffer" where
  "sourceToken ty k = (if isCompatableMode k then pToken k
     else if ty = LINK_UPLOAD_CB_GETFRAMEPARAM then pFrameToken k else pTsToken k)"

definition paramsReady :: "TokenState \<Rightarrow> bool" where
  "paramsReady t \<longleftrightarrow> isValid (remoteConfig t) \<and>
     (if isCompatableMode (token t) then bufData (pToken (token t)) \<noteq> None
      else bufData (pTsToken (token t)) \<noteq> None \<and> bufData (pFrameToken (token t)) \<noteq> None)"

definition uploadParamCallback :: "TokenState \<Rightarrow> LinkUploadParam \<Rightarrow> LinkUploadCbType \<Rightarrow> (int \<times> LinkUploadParam) run" where
  "uploadParamCallback t p ty =
     (if \<not> paramsReady t then Inr (LINK_NOT_INITED, p)
      else
        let src = sourceToken ty (token t) in
        let p = (if paramSessionId p ! 0 = 0
                 then p\<lparr>paramSessionId := overwrite 0 (take 20 (c_string (muxSessionId t)) @ [0]) (paramSessionId p)\<rparr> else p) in
        afterGiven (giveText src (pTokenBuf p) (nTokenBufLen p)) p (\<lambda>d n. p\<lparr>pTokenBuf := Some d, nTokenBufLen := n\<rparr>) (\<lambda>p.
        afterGiven (if isCompatableMode (token t) then giveText (pFnamePrefix (token t)) (pFilePrefix p) (nFilePrefix p) else Inr Nothing_asked)
          p (\<lambda>d n. p\<lparr>pFilePrefix := Some d, nFilePrefix := n\<rparr>) (\<lambda>p.
        let p = (if isCompatableMode (token t) then p else p\<lparr>nFilePrefix := 0\<rparr>) in
        afterGiven (giveText (upHostUrl (remoteConfig t)) (pUpHost p) (nUpHostLen p)) p (\<lambda>d n. p\<lparr>pUpHost := Some d, nUpHostLen := n\<rparr>) (\<lambda>p.
        afterGiven (giveText (mgrTokenRequestUrl (remoteConfig t)) (pSegUrl p) (nSegUrlLen p)) p
          (\<lambda>d n. p\<lparr>pSegUrl := Some d, nSegUrlLen := n\<rparr>) (\<lambda>p.
        afterGiven (if pAk p \<noteq> None \<and> 41 \<le> length (deviceAk t) then Inl Assertion_failed else giveText (stringBuffer (deviceAk t)) (pAk p) (nAkLen p))
          p (\<lambda>d n. p\<lparr>pAk := Some d, nAkLen := n\<rparr>) (\<lambda>p.
        afterGiven (if pSk p \<noteq> None \<and> 41 \<le> length (deviceSk t) then Inl Assertion_failed else giveText (stringBuffer (deviceSk t)) (pSk p) (nSkLen p))
          p (\<lambda>d n. p\<lparr>pSk := Some d, nSkLen := n\<rparr>) (\<lambda>p.
        Inr (LINK_SUCCESS, p\<lparr>nTokenBufLen := bufLen src\<rparr>))))))))"

end
