(* ===== verification/TokenSafety.thy ===== *)
theory TokenSafety
  imports TokenConfig
begin

section \<open>Safety and retries of the token thread\<close>

text \<open>
  What a turn of the token thread relies on and keeps: a token is requested only after a configuration gave the address to request it
  from, so the thread never uses a null address; failed requests are repeated after delays that double up to sixteen seconds.
\<close>

subsection \<open>The environment\<close>

text \<open>
  Documents of the server: every text field holds a text; a configuration that has a "segment" has an address for tokens; a
  token document has a file name prefix. Replies fit their buffers. Without a prefix the code reads in front of its block, and with
  a full heap it writes through null (\<open>missing_prefix_faults\<close> and \<open>no_memory_then_crash\<close> below).
\<close>

definition url_ok :: "bytes \<Rightarrow> bool" where
  "url_ok u \<longleftrightarrow> 8 \<le> length u \<and> length u \<le> 120"

definition text_fields :: "string set" where
  "text_fields = {''uploadUrl'', ''uploadTokenRequestUrl'', ''segmentReportUrl'', ''tsToken'', ''frameToken'', ''token'', ''fnamePrefix''}"

lemma text_fields_in [simp]: "''uploadUrl'' \<in> text_fields" "''uploadTokenRequestUrl'' \<in> text_fields"
    "''segmentReportUrl'' \<in> text_fields" "''tsToken'' \<in> text_fields" "''frameToken'' \<in> text_fields"
    "''token'' \<in> text_fields" "''fnamePrefix'' \<in> text_fields"
  by (simp_all add: text_fields_def)

definition texts_ok :: "'j TokenEnv \<Rightarrow> bool" where
  "texts_ok e \<longleftrightarrow> (\<forall>j node. \<forall>f \<in> text_fields.
     tkItem e j f = Some node \<longrightarrow> tkString e node \<noteq> None)"

definition config_doc_ok :: "'j TokenEnv \<Rightarrow> 'j \<Rightarrow> bool" where
  "config_doc_ok e j \<longleftrightarrow> (\<forall>seg. tkItem e j ''segment'' = Some seg \<longrightarrow>
     (\<exists>node u. tkItem e seg ''uploadTokenRequestUrl'' = Some node \<and> tkString e node = Some u \<and> url_ok (c_string u)))"

definition token_doc_ok :: "'j TokenEnv \<Rightarrow> 'j \<Rightarrow> bool" where
  "token_doc_ok e j \<longleftrightarrow> (\<exists>node p. tkItem e j ''fnamePrefix'' = Some node \<and> tkString e node = Some p \<and> c_string p \<noteq> [])"

definition tk_env_ok :: "'j TokenEnv \<Rightarrow> bool" where
  "tk_env_ok e \<longleftrightarrow> (\<forall>k. tkHeap e k \<noteq> None) \<and> length (tkJunk e) = 64 \<and> length (c_string (tkSn e)) \<le> 31 \<and> texts_ok e \<and>
     (\<forall>req c body. httpReply (tkConfigHttp e) req = Http_reply c body \<longrightarrow> 100 \<le> c \<and>
        (\<forall>j. tkParse e (c_string (take 2047 body @ [0])) = Some j \<longrightarrow> config_doc_ok e j)) \<and>
     (\<forall>req c body. httpReply (tkTokenHttp e) req = Http_reply c body \<longrightarrow> 100 \<le> c \<and> length body \<le> 2559 \<and>
        (\<forall>j. tkParse e (c_string (body @ [0])) = Some j \<longrightarrow> token_doc_ok e j))"

subsection \<open>Buffers\<close>

definition buffer_ok :: "Buffer \<Rightarrow> bool" where
  "buffer_ok b \<longleftrightarrow> (case bufData b of None \<Rightarrow> bufLen b = 0 \<and> bufCap b = 0
     | Some x \<Rightarrow> bufCap b = int (length x) \<and> 0 \<le> bufLen b \<and> bufLen b < bufCap b)"

lemma noBuffer_ok [simp]: "buffer_ok noBuffer"
  by (simp add: buffer_ok_def noBuffer_def)

lemma overwrite_string: "length s < length b \<Longrightarrow> 0 \<notin> set s \<Longrightarrow> c_string (overwrite 0 (s @ [0]) b) = s"
  unfolding c_string_def overwrite_def by (simp, subst takeWhile_append2) auto

lemma c_string_plain: "0 \<notin> set (c_string s)"
  by (auto simp: c_string_def dest: set_takeWhileD)

text \<open>A text field is stored, or absent and the buffer as it was.\<close>

definition stored :: "'j TokenEnv \<Rightarrow> string \<Rightarrow> 'j \<Rightarrow> int \<Rightarrow> Buffer \<Rightarrow> Buffer \<Rightarrow> bool" where
  "stored e f j ret b b' \<longleftrightarrow> (case tkItem e j f of
      None \<Rightarrow> ret = LINK_JSON_FORMAT \<and> b' = b
    | Some node \<Rightarrow> ret = LINK_SUCCESS \<and> (\<exists>x. bufData b' = Some x \<and> c_string x = c_string (the (tkString e node))
         \<and> bufLen b' = int (length (c_string x)) \<and> x \<noteq> []))"

lemma texts_okD: "texts_ok e \<Longrightarrow> f \<in> text_fields \<Longrightarrow>
    tkItem e j f = Some node \<Longrightarrow> tkString e node \<noteq> None"
  unfolding texts_ok_def by blast

lemma getJsonString_total:
  assumes "buffer_ok b" and "tkHeap e k \<noteq> None" and "texts_ok e" and "f \<in> text_fields"
  shows "\<exists>ret b'. getJsonString e k b f j = Inr (ret, b') \<and> buffer_ok b' \<and> stored e f j ret b b'"
proof (cases "tkItem e j f")
  case None
  then show ?thesis using assms(1) by (simp add: getJsonString_def stored_def)
next
  case (Some node)
  then obtain v where v: "tkString e node = Some v" using texts_okD [OF assms(3,4)] by blast
  let ?s = "c_string v"
  have wr: "write_at 0 (?s @ [0]) x = Inr (overwrite 0 (?s @ [0]) x)" "c_string (overwrite 0 (?s @ [0]) x) = ?s"
    if "length ?s < length x" for x
    using that c_string_plain [of v] by (simp_all add: write_at_def overwrite_string)
  show ?thesis
  proof (cases "int (length ?s) + 1 \<le> bufCap b")
    case True
    then obtain x where x: "bufData b = Some x" "length ?s < length x" "bufCap b = int (length x)"
      using assms(1) by (auto simp: buffer_ok_def split: option.splits)
    show ?thesis
      using True x wr [OF x(2)]
      by (auto simp: getJsonString_def Some v Let_def stored_def buffer_ok_def overwrite_def)
  next
    case False
    obtain x where x: "malloc (tkHeap e k) (length ?s + 257) = Some x"
      using assms(2) by (auto simp: malloc_def)
    then have len: "length x = length ?s + 257" by (rule malloc_length)
    show ?thesis
      using False x wr [of x] len
      by (auto simp: getJsonString_def Some v Let_def stored_def buffer_ok_def overwrite_def)
  qed
qed

subsection \<open>The configuration\<close>

definition config_ok :: "RemoteConfig \<Rightarrow> bool" where
  "config_ok rc \<longleftrightarrow> buffer_ok (upHostUrl rc) \<and> buffer_ok (upTokenRequestUrl rc) \<and> buffer_ok (mgrTokenRequestUrl rc)"

definition times_ok :: "RemoteConfig \<Rightarrow> bool" where
  "times_ok rc \<longleftrightarrow> 4000 \<le> rcTsDuration rc \<and> rcTsDuration rc \<le> 15000 \<and> 1000 \<le> rcSessionTimeout rc"

definition address_ok :: "RemoteConfig \<Rightarrow> bool" where
  "address_ok rc \<longleftrightarrow> (case bufData (upTokenRequestUrl rc) of None \<Rightarrow> False | Some x \<Rightarrow> url_ok (c_string x))"

lemma stored_ret: "stored e f j ret b b' \<Longrightarrow> ret \<noteq> LINK_NO_MEMORY"
  by (auto simp: stored_def split: option.splits)

lemma configUrls_total:
  assumes rc: "config_ok rc" and heap: "\<And>k. tkHeap e k \<noteq> None" and texts: "texts_ok e"
    and addr: "tkItem e seg ''uploadTokenRequestUrl'' = Some node" "tkString e node = Some u" "url_ok (c_string u)"
  shows "\<exists>rc'. configUrls e seg rc = Inr (True, rc') \<and> config_ok rc' \<and> address_ok rc'"
proof -
  have b: "buffer_ok (upHostUrl rc)" "buffer_ok (upTokenRequestUrl rc)" "buffer_ok (mgrTokenRequestUrl rc)"
    using rc by (simp_all add: config_ok_def)
  obtain r0 b0 where r0: "getJsonString e 0 (upHostUrl rc) ''uploadUrl'' seg = Inr (r0, b0)" "buffer_ok b0"
      "stored e ''uploadUrl'' seg r0 (upHostUrl rc) b0"
    using getJsonString_total [OF b(1) heap [of 0] texts, of "''uploadUrl''" seg] by auto
  obtain r1 b1 where r1: "getJsonString e 1 (upTokenRequestUrl rc) ''uploadTokenRequestUrl'' seg = Inr (r1, b1)" "buffer_ok b1"
      "stored e ''uploadTokenRequestUrl'' seg r1 (upTokenRequestUrl rc) b1"
    using getJsonString_total [OF b(2) heap [of 1] texts, of "''uploadTokenRequestUrl''" seg] by auto
  obtain r2 b2 where r2: "getJsonString e 2 (mgrTokenRequestUrl rc) ''segmentReportUrl'' seg = Inr (r2, b2)" "buffer_ok b2"
      "stored e ''segmentReportUrl'' seg r2 (mgrTokenRequestUrl rc) b2"
    using getJsonString_total [OF b(3) heap [of 2] texts, of "''segmentReportUrl''" seg] by auto
  have "url_ok (c_string (the (bufData b1)))" "bufData b1 \<noteq> None"
    using r1(3) addr by (auto simp: stored_def)
  then show ?thesis
    using stored_ret [OF r0(3)] stored_ret [OF r1(3)] stored_ret [OF r2(3)] r0(1,2) r1(1,2) r2(1,2)
    by (auto simp: configUrls_def config_ok_def address_ok_def Let_def)
qed

lemma configTimes_ok: "times_ok (configTimes e seg rc)" "config_ok (configTimes e seg rc) = config_ok rc"
    "address_ok (configTimes e seg rc) = address_ok rc"
  by (simp_all add: times_ok_def configTimes_def Let_def config_ok_def address_ok_def)

lemma readConfig_total:
  assumes rc: "config_ok rc" and heap: "\<And>k. tkHeap e k \<noteq> None" and texts: "texts_ok e" and doc: "config_doc_ok e j"
  shows "\<exists>ret ttl rc'. readConfig e j rc = Inr (ret, ttl, rc') \<and> config_ok rc' \<and>
    (ret = LINK_SUCCESS \<longrightarrow> times_ok rc' \<and> address_ok rc') \<and>
    (tkItem e j ''ttl'' \<noteq> None \<and> tkItem e j ''segment'' \<noteq> None \<longrightarrow> ret = LINK_SUCCESS)"
proof (cases "tkItem e j ''ttl''")
  case None
  then show ?thesis using rc by (simp add: readConfig_def)
next
  case ttl: (Some node)
  show ?thesis
  proof (cases "tkItem e j ''segment''")
    case None
    then show ?thesis using rc ttl by (simp add: readConfig_def config_ok_def Let_def)
  next
    case (Some seg)
    then obtain n u where u: "tkItem e seg ''uploadTokenRequestUrl'' = Some n" "tkString e n = Some u" "url_ok (c_string u)"
      using doc by (auto simp: config_doc_ok_def)
    let ?rc = "rc\<lparr>updateConfigInterval := tkInt e node, rcPlanType := intField e seg ''uploadMode'' (rcPlanType rc)\<rparr>"
    have "config_ok ?rc" using rc by (simp add: config_ok_def)
    then obtain rc' where "configUrls e seg ?rc = Inr (True, rc')" "config_ok rc'" "address_ok rc'"
      using configUrls_total [OF _ heap texts u] by blast
    then show ?thesis
      using ttl Some configTimes_ok [of e seg rc'] by (simp add: readConfig_def Let_def)
  qed
qed


subsection \<open>Requests\<close>

definition device_ok :: "TokenState \<Rightarrow> bool" where
  "device_ok t \<longleftrightarrow> length (deviceAk t) \<le> 40 \<and> length (deviceSk t) \<le> 40 \<and> 8 \<le> length (pConfigRequestUrl t)
     \<and> length (pConfigRequestUrl t) \<le> 150 \<and> narrow (muxSegSeqNum t)"

lemma get_signature:
  assumes "8 \<le> length url" and "length url < 192" and "length key \<le> 40" and "length junk = 64"
  shows "\<exists>ret n sig. GetHttpRequestSign heap junk key (chars ''GET'') url None [] 30 = Inr (ret, n, sig) \<and>
    (ret = LINK_SUCCESS \<longrightarrow> n = 28 \<and> length sig = 28)"
  using assms by (intro GetHttpRequestSign_total) (simp_all add: chars_def)

text \<open>A request with a token of ordinary length: an error code, or the reply's body up to the size of the block.\<close>

lemma get_request:
  assumes tok: "length tok \<le> 92" and n: "0 < n" and codes: "\<And>req c body. httpReply http req = Http_reply c body \<Longrightarrow> 100 \<le> c"
  shows "\<exists>ret len resp. linkSimpleHttpRequest http False url n [] None (Some tok) = Inr (ret, len, resp) \<and>
    (ret = LINK_SUCCESS \<longrightarrow> (\<exists>req c body. httpReply http req = Http_reply c body \<and> len = Some (length body)
        \<and> resp = take (n - 1) body @ [0]))"
proof -
  define req where "req = \<lparr>reqPost = False, reqUri = url, reqBody = [], reqContentType = None,
      reqAuthorization = Some (c_string (device_prefix @ tok))\<rparr>"
  have fits: "\<not> 112 < length device_prefix + length tok + 1"
    using tok by (simp add: device_prefix_def)
  note run = linkSimpleHttpRequest_def [of http False url n "[]" None "Some tok", unfolded option.case if_not_P [OF fits] and_then_Inr
      Let_def, simplified]
  show ?thesis
  proof (cases "httpNew http \<and> httpUriOk http \<and> httpPrepared http")
    case False
    then show ?thesis by (auto simp: run)
  next
    case True
    show ?thesis
    proof (cases "httpReply http req")
      case (Http_reply c body)
      have "take (if n - 1 < length body then n - 1 else length body) body = take (n - 1) body"
        by auto
      then show ?thesis
        using True Http_reply [unfolded req_def] codes [OF Http_reply] n by (auto simp: run)
    qed (use True in \<open>auto simp: run req_def\<close>)
  qed
qed

lemma getRemoteConfig_total:
  assumes t: "device_ok t" "config_ok (tmpRemoteConfig t)" and e: "tk_env_ok e"
  shows "\<exists>ret ttl rc. getRemoteConfig e t = Inr (ret, ttl, t\<lparr>tmpRemoteConfig := rc\<rparr>) \<and> config_ok rc \<and>
    (ret = LINK_SUCCESS \<longrightarrow> times_ok rc \<and> address_ok rc)"
proof -
  let ?url = "pConfigRequestUrl t @ chars ''?sn='' @ c_string (tkSn e)"
  have len: "8 \<le> length ?url" "length ?url < 192"
    using t(1) e by (auto simp: device_ok_def tk_env_ok_def chars_def)
  obtain sret n sig where sign: "GetHttpRequestSign (tkHeap e 3) (tkJunk e) (deviceSk t) (chars ''GET'') ?url None [] 30 = Inr (sret, n, sig)"
      "sret = LINK_SUCCESS \<longrightarrow> n = 28 \<and> length sig = 28"
    using get_signature [OF len, of "deviceSk t" "tkJunk e" "tkHeap e 3"] t(1) e by (auto simp: device_ok_def tk_env_ok_def)
  have nb: "\<not> 2048 \<le> length ?url" using len by simp
  note run = getRemoteConfig_def [of e t, unfolded Let_def if_not_P [OF nb] sign(1) and_then_Inr prod.case]
  have same: "t\<lparr>tmpRemoteConfig := tmpRemoteConfig t\<rparr> = t" by simp
  show ?thesis
  proof (cases "sret = LINK_SUCCESS")
    case False
    then show ?thesis using t(2) same by (auto simp: run intro!: exI [of _ "tmpRemoteConfig t"])
  next
    case ok: True
    let ?tok = "deviceAk t @ [58] @ sig"
    have "length ?tok \<le> 92" using ok sign(2) t(1) by (simp add: device_ok_def)
    moreover have "100 \<le> c" if "httpReply (tkConfigHttp e) req = Http_reply c body" for req c body
      using e that unfolding tk_env_ok_def by blast
    ultimately obtain ret rn resp where req: "LinkGetUserConfig (tkConfigHttp e) ?url 2048 (Some ?tok) = Inr (ret, rn, resp)"
        and ans: "ret = LINK_SUCCESS \<longrightarrow> (\<exists>req c body. httpReply (tkConfigHttp e) req = Http_reply c body \<and> resp = take 2047 body @ [0])"
      using get_request [of ?tok 2048 "tkConfigHttp e" ?url] by (fastforce simp: LinkGetUserConfig_def)
    have sok: "\<not> sret \<noteq> LINK_SUCCESS" using ok by simp
    note run' = run [unfolded if_not_P [OF sok] req and_then_Inr prod.case]
    show ?thesis
    proof (cases "ret = LINK_SUCCESS \<and> tkParse e (c_string resp) \<noteq> None")
      case False
      then show ?thesis using t(2) same by (auto simp: run' intro!: exI [of _ "tmpRemoteConfig t"])
    next
      case True
      then obtain j where j: "tkParse e (c_string resp) = Some j" by blast
      then have doc: "config_doc_ok e j"
        using e ans True unfolding tk_env_ok_def by blast
      have heap: "tkHeap e k \<noteq> None" and texts: "texts_ok e" for k
        using e by (simp_all add: tk_env_ok_def)
      obtain rret ttl rc where "readConfig e j (tmpRemoteConfig t) = Inr (rret, ttl, rc)" "config_ok rc"
          "rret = LINK_SUCCESS \<longrightarrow> times_ok rc \<and> address_ok rc"
        using readConfig_total [OF t(2) heap texts doc] by blast
      then show ?thesis using True by (auto simp: run' j)
    qed
  qed
qed


lemma cutSlash_total: "buffer_ok b \<Longrightarrow> 1 \<le> bufLen b \<Longrightarrow> \<exists>b'. cutSlash b = Inr b'"
  by (auto simp: cutSlash_def buffer_ok_def Let_def split: option.splits)

lemma readTokens_total:
  assumes b: "buffer_ok buf" "buffer_ok prefix" and e: "tk_env_ok e" and doc: "token_doc_ok e j"
  shows "\<exists>k. readTokens e j buf prefix t = Inr (t\<lparr>token := k\<rparr>)"
proof -
  have heap: "tkHeap e k \<noteq> None" and texts: "texts_ok e" for k
    using e by (simp_all add: tk_env_ok_def)
  obtain r0 b0 where r0: "getJsonString e 6 noBuffer ''tsToken'' j = Inr (r0, b0)"
    using getJsonString_total [OF noBuffer_ok heap [of 6] texts, of "''tsToken''" j] by auto
  obtain r1 b1 where r1: "getJsonString e 7 noBuffer ''frameToken'' j = Inr (r1, b1)"
    using getJsonString_total [OF noBuffer_ok heap [of 7] texts, of "''frameToken''" j] by auto
  obtain r2 b2 where r2: "getJsonString e 8 buf ''token'' j = Inr (r2, b2)" "r2 \<noteq> LINK_NO_MEMORY"
    using getJsonString_total [OF b(1) heap [of 8] texts, of "''token''" j] stored_ret by fastforce
  obtain r3 b3 where r3: "getJsonString e 9 prefix ''fnamePrefix'' j = Inr (r3, b3)" "buffer_ok b3"
      "stored e ''fnamePrefix'' j r3 prefix b3"
    using getJsonString_total [OF b(2) heap [of 9] texts, of "''fnamePrefix''" j] by auto
  obtain node p where p: "tkItem e j ''fnamePrefix'' = Some node" "tkString e node = Some p" "c_string p \<noteq> []"
    using doc by (auto simp: token_doc_ok_def)
  then have "1 \<le> bufLen b3"
    using r3(3) by (auto simp: stored_def Suc_le_eq)
  then obtain b4 where b4: "cutSlash b3 = Inr b4"
    using cutSlash_total [OF r3(2)] by blast
  show ?thesis
    using r2(2) stored_ret [OF r3(3)] by (simp add: readTokens_def r0 r1 r2(1) r3(1) b4 Let_def setToken_def) blast
qed

lemma length_c_string: "length (c_string b) \<le> length b"
  by (simp add: c_string_def length_takeWhile_le)

lemma tokenUrl_length:
  assumes "url_ok (c_string x)" and "length (c_string (updSessionId p)) \<le> 20" and "narrow (nSeqNum p)"
  shows "8 \<le> length (tokenUrl x p)" and "length (tokenUrl x p) < 192"
proof -
  have "length (print_int (nSeqNum p)) \<le> 20"
    using assms(3) by (rule length_print_int)
  then show "8 \<le> length (tokenUrl x p)" "length (tokenUrl x p) < 192"
    using assms(1,2) by (simp_all add: tokenUrl_def url_ok_def chars_def)
qed

lemma updateToken_total:
  assumes t: "device_ok t" "address_ok (remoteConfig t)" and e: "tk_env_ok e"
    and p: "length (c_string (updSessionId p)) \<le> 20" "narrow (nSeqNum p)"
  shows "\<exists>ret ttl k. updateToken e p t = Inr (ret, ttl, t\<lparr>token := k\<rparr>)"
proof -
  have heap: "tkHeap e k \<noteq> None" for k
    using e by (simp add: tk_env_ok_def)
  obtain m4 m5 where m: "malloc (tkHeap e 4) 1024 = Some m4" "malloc (tkHeap e 5) 256 = Some m5"
    using heap [of 4] heap [of 5] by (auto simp: malloc_def)
  obtain x where x: "bufData (upTokenRequestUrl (remoteConfig t)) = Some x" "url_ok (c_string x)"
    using t(2) by (auto simp: address_ok_def split: option.splits)
  let ?url = "tokenUrl x p"
  note len = tokenUrl_length [OF x(2) p]
  obtain sret n sig where sign: "GetHttpRequestSign (tkHeap e 10) (tkJunk e) (deviceSk t) (chars ''GET'') ?url None [] 30 = Inr (sret, n, sig)"
      "sret = LINK_SUCCESS \<longrightarrow> n = 28 \<and> length sig = 28"
    using get_signature [OF len, of "deviceSk t" "tkJunk e" "tkHeap e 10"] t(1) e by (auto simp: device_ok_def tk_env_ok_def)
  have nb: "\<not> 1024 \<le> length ?url" using len by simp
  note run = updateToken_def [of e p t, unfolded m x(1) option.case Let_def if_not_P [OF nb] sign(1) and_then_Inr prod.case]
  have same: "t\<lparr>token := token t\<rparr> = t" by simp
  show ?thesis
  proof (cases "sret = LINK_SUCCESS")
    case False
    then show ?thesis using same by (auto simp: run intro!: exI [of _ "token t"])
  next
    case ok: True
    let ?tok = "deviceAk t @ [58] @ sig"
    have tok: "length ?tok \<le> 92" using ok sign(2) t(1) by (simp add: device_ok_def)
    have replies: "100 \<le> c" "length body \<le> 2559"
        "tkParse e (c_string (body @ [0])) = Some j \<longrightarrow> token_doc_ok e j"
      if "httpReply (tkTokenHttp e) req = Http_reply c body" for req c body j
      using e that unfolding tk_env_ok_def by blast+
    obtain ret rn resp where req: "LinkSimpleHttpGetWithToken (tkTokenHttp e) ?url 2560 (Some ?tok) = Inr (ret, rn, resp)"
        and ans: "ret = LINK_SUCCESS \<longrightarrow> (\<exists>req c body. httpReply (tkTokenHttp e) req = Http_reply c body \<and> rn = Some (length body)
          \<and> resp = take 2559 body @ [0])"
      using get_request [of ?tok 2560 "tkTokenHttp e" ?url] tok replies(1) by (fastforce simp: LinkSimpleHttpGetWithToken_def)
    have sok: "\<not> sret \<noteq> LINK_SUCCESS" using ok by simp
    note run' = run [unfolded if_not_P [OF sok] LinkGetUploadToken_def req and_then_Inr prod.case]
    show ?thesis
    proof (cases "ret = LINK_SUCCESS")
      case False
      then show ?thesis using same by (auto simp: run' intro!: exI [of _ "token t"])
    next
      case True
      then obtain req c body where body: "httpReply (tkTokenHttp e) req = Http_reply c body" "rn = Some (length body)"
          "resp = body @ [0]"
        using ans replies(2) by fastforce
      have nl: "\<not> 2559 < length body" using replies(2) [OF body(1)] by simp
      show ?thesis
      proof (cases "tkParse e (c_string resp)")
        case None
        then show ?thesis using same True nl by (auto simp: run' body(2) intro!: exI [of _ "token t"])
      next
        case (Some j)
        then have doc: "token_doc_ok e j" using replies(3) [OF body(1)] body(3) by simp
        have w: "write_at 0 (?url @ [0] @ ?tok) (replicate 1024 0) = Inr (overwrite 0 (?url @ [0] @ ?tok) (replicate 1024 0))"
            "length (overwrite 0 (?url @ [0] @ ?tok) (replicate 1024 0)) = 1024"
          using len tok by (simp_all add: write_at_def)
        obtain k where k: "readTokens e j \<lparr>bufData = Some (overwrite 0 (?url @ [0] @ ?tok) (replicate 1024 0)), bufLen = 0, bufCap = 1024\<rparr>
            \<lparr>bufData = Some (replicate 256 0), bufLen = 0, bufCap = 256\<rparr> t = Inr (t\<lparr>token := k\<rparr>)"
          using readTokens_total [OF _ _ e doc, of "\<lparr>bufData = Some (overwrite 0 (?url @ [0] @ ?tok) (replicate 1024 0)), bufLen = 0, bufCap = 1024\<rparr>"
            "\<lparr>bufData = Some (replicate 256 0), bufLen = 0, bufCap = 256\<rparr>" t] w(2) by (auto simp: buffer_ok_def)
        have rok: "\<not> ret \<noteq> LINK_SUCCESS" using True by simp
        have run'': "updateToken e p t = (case tkItem e j ''ttl'' of None \<Rightarrow> Inr (LINK_JSON_FORMAT, None, t)
            | Some node \<Rightarrow> Inr (LINK_SUCCESS, Some (tkInt e node), t\<lparr>token := k\<rparr>))"
          unfolding run' if_not_P [OF rok] body(2) option.case if_not_P [OF nl] Some and_then_Inr prod.case w(1) k by simp
        show ?thesis
        proof (cases "tkItem e j ''ttl''")
          case None
          then show ?thesis using same by (auto simp: run'' intro!: exI [of _ "token t"])
        qed (auto simp: run'')
      qed
    qed
  qed
qed


subsection \<open>One turn\<close>

text \<open>
  An address for tokens is there, or a configuration is still due, or the queue begins with the request for the first one.
\<close>

definition msg_fine :: "SessionUpdateParam \<Rightarrow> bool" where
  "msg_fine p \<longleftrightarrow> length (c_string (updSessionId p)) \<le> 20"

definition first_config :: "SessionUpdateParam list \<Rightarrow> bool" where
  "first_config ps \<longleftrightarrow> (case ps of [] \<Rightarrow> False | p # _ \<Rightarrow> nUpdateType p = 2)"

definition tok_ready :: "TokenLoop \<Rightarrow> TokenState \<Rightarrow> bool" where
  "tok_ready l t \<longleftrightarrow> (address_ok (remoteConfig t) \<and> times_ok (remoteConfig t)) \<or> shouldUpdateRc l
     \<or> (\<not> shouldUpdateToken l \<and> first_config (pUpdateQueue t))"

definition tok_inv :: "TokenLoop \<times> TokenState \<Rightarrow> bool" where
  "tok_inv s \<longleftrightarrow> (case s of (l, t) \<Rightarrow> device_ok t \<and> config_ok (remoteConfig t) \<and> config_ok (tmpRemoteConfig t) \<and> tok_ready l t
     \<and> (isValid (remoteConfig t) \<longrightarrow> address_ok (remoteConfig t) \<and> times_ok (remoteConfig t))
     \<and> (\<forall>p \<in> set (pUpdateQueue t). msg_fine p) \<and> length (c_string (sessionIdBak l)) \<le> 20)"

text \<open>Fields a turn does not touch.\<close>

lemma device_ok_more [simp]: "device_ok (t\<lparr>tmpRemoteConfig := a\<rparr>) = device_ok t" "device_ok (t\<lparr>remoteConfig := a\<rparr>) = device_ok t"
    "device_ok (t\<lparr>token := k\<rparr>) = device_ok t" "device_ok (t\<lparr>planTypes := x\<rparr>) = device_ok t"
    "device_ok (t\<lparr>cloudStates := y\<rparr>) = device_ok t" "device_ok (t\<lparr>cloudStorageState := z\<rparr>) = device_ok t"
    "device_ok (t\<lparr>pUpdateQueue := q\<rparr>) = device_ok t" "device_ok (t\<lparr>muxIsQuit := b\<rparr>) = device_ok t"
  by (simp_all add: device_ok_def)

lemma config_ok_valid [simp]: "config_ok (rc\<lparr>isValid := b\<rparr>) = config_ok rc" "address_ok (rc\<lparr>isValid := b\<rparr>) = address_ok rc"
    "times_ok (rc\<lparr>isValid := b\<rparr>) = times_ok rc"
  by (simp_all add: config_ok_def address_ok_def times_ok_def)

lemma tokenStep_total:
  assumes t: "device_ok t" "address_ok (remoteConfig t)" and e: "tk_env_ok e"
    and p: "msg_fine p" "length (c_string (sessionIdBak l)) \<le> 20"
  shows "\<exists>l' k. tokenStep e p l t = Inr (l', t\<lparr>token := k\<rparr>) \<and> sessionIdBak l' = sessionIdBak l \<and> shouldUpdateRc l' = shouldUpdateRc l"
proof -
  let ?p = "(if updSessionId p ! 0 = 0 then p\<lparr>updSessionId := sessionIdBak l\<rparr> else p)\<lparr>nSeqNum := muxSegSeqNum t\<rparr>"
  have "length (c_string (updSessionId ?p)) \<le> 20" "narrow (nSeqNum ?p)"
    using p t(1) by (simp_all add: msg_fine_def device_ok_def)
  from updateToken_total [OF t e this] obtain ret ttl k where u: "updateToken e ?p t = Inr (ret, ttl, t\<lparr>token := k\<rparr>)"
    by blast
  show ?thesis
    unfolding tokenStep_def Let_def u and_then_Inr prod.case
    by (cases "ret = LINK_SUCCESS") (auto simp: tokenFailed_def Let_def split: option.splits)
qed

lemma configStep_total:
  assumes t: "device_ok t" "config_ok (tmpRemoteConfig t)" "config_ok (remoteConfig t)"
    and v: "isValid (remoteConfig t) \<longrightarrow> address_ok (remoteConfig t) \<and> times_ok (remoteConfig t)" and e: "tk_env_ok e"
  shows "\<exists>go l' t'. configStep e l t = Inr (go, l', t') \<and> device_ok t' \<and> config_ok (tmpRemoteConfig t') \<and> config_ok (remoteConfig t')
    \<and> (isValid (remoteConfig t') \<longrightarrow> address_ok (remoteConfig t') \<and> times_ok (remoteConfig t'))
    \<and> (if go then isValid (remoteConfig t') \<and> address_ok (remoteConfig t') \<and> times_ok (remoteConfig t') else shouldUpdateRc l')
    \<and> pUpdateQueue t' = pUpdateQueue t \<and> sessionIdBak l' = sessionIdBak l \<and> muxIsQuit t' = muxIsQuit t"
proof -
  obtain ret ttl rc where g: "getRemoteConfig e t = Inr (ret, ttl, t\<lparr>tmpRemoteConfig := rc\<rparr>)" "config_ok rc"
      "ret = LINK_SUCCESS \<longrightarrow> times_ok rc \<and> address_ok rc"
    using getRemoteConfig_total [OF t(1,2) e] by blast
  show ?thesis
    unfolding configStep_def g(1) and_then_Inr prod.case Let_def
    using g(2,3) t v
    by (cases "ret = LINK_SUCCESS") (simp_all add: doCloudStorageStateCallback_def updateRemoteConfig_def setRemoteConfigInvalid_def
        configFailed_def configDone_def Let_def ex_bool_eq)
qed

lemma handleUpdate_total:
  assumes t: "device_ok t" "config_ok (tmpRemoteConfig t)" "config_ok (remoteConfig t)"
    and v: "isValid (remoteConfig t) \<longrightarrow> address_ok (remoteConfig t) \<and> times_ok (remoteConfig t)"
    and r: "address_ok (remoteConfig t) \<and> times_ok (remoteConfig t) \<or> shouldUpdateRc l \<or> nUpdateType p = 2"
    and p: "msg_fine p" "length (c_string (sessionIdBak l)) \<le> 20" and e: "tk_env_ok e" and ret: "ret = LINK_TIMEOUT \<or> 0 < ret"
  shows "\<exists>l' t'. handleUpdate e ret p rct l t = Inr (l', t') \<and> device_ok t' \<and> config_ok (tmpRemoteConfig t') \<and> config_ok (remoteConfig t')
    \<and> (isValid (remoteConfig t') \<longrightarrow> address_ok (remoteConfig t') \<and> times_ok (remoteConfig t'))
    \<and> (address_ok (remoteConfig t') \<and> times_ok (remoteConfig t') \<or> shouldUpdateRc l')
    \<and> pUpdateQueue t' = pUpdateQueue t \<and> length (c_string (sessionIdBak l')) \<le> 20 \<and> muxIsQuit t' = muxIsQuit t"
proof (cases "nUpdateType p = 3")
  case True
  then show ?thesis using assms by (auto simp: handleUpdate_def)
next
  case False
  define l1 where "l1 = (if updSessionId p ! 0 \<noteq> 0 then l\<lparr>sessionIdBak := updSessionId p\<rparr> else l)"
  have l1: "length (c_string (sessionIdBak l1)) \<le> 20" "shouldUpdateRc l1 = shouldUpdateRc l" "shouldUpdateToken l1 = shouldUpdateToken l"
    using p by (simp_all add: l1_def msg_fine_def)
  have nret: "\<not> (ret < 0 \<and> ret \<noteq> LINK_TIMEOUT)" using ret by auto
  note run = handleUpdate_def [of e ret p rct l t, unfolded Let_def if_not_P [OF nret] if_not_P [OF False] l1_def [symmetric]]
  show ?thesis
  proof (cases "nUpdateType p = 2 \<or> shouldUpdateRc l1 \<or> ret \<le> 0 \<and> rct")
    case True
    obtain go l2 t2 where c: "configStep e l1 t = Inr (go, l2, t2)" "device_ok t2" "config_ok (tmpRemoteConfig t2)"
        "config_ok (remoteConfig t2)" "isValid (remoteConfig t2) \<longrightarrow> address_ok (remoteConfig t2) \<and> times_ok (remoteConfig t2)"
        "if go then isValid (remoteConfig t2) \<and> address_ok (remoteConfig t2) \<and> times_ok (remoteConfig t2) else shouldUpdateRc l2"
        "pUpdateQueue t2 = pUpdateQueue t" "sessionIdBak l2 = sessionIdBak l1" "muxIsQuit t2 = muxIsQuit t"
      using configStep_total [OF t v e, of l1] by blast
    show ?thesis
    proof (cases go)
      case go: True
      then obtain l3 k where "tokenStep e p l2 t2 = Inr (l3, t2\<lparr>token := k\<rparr>)" "sessionIdBak l3 = sessionIdBak l2"
        using tokenStep_total [OF c(2) _ e p(1), of l2] c(6,8) l1(1) by auto
      then show ?thesis using True go c l1(1) by (simp add: run)
    next
      case False
      then show ?thesis using True c l1(1) by (simp add: run)
    qed
  next
    case False
    then have ready: "address_ok (remoteConfig t) \<and> times_ok (remoteConfig t)"
      using r l1(2) by blast
    obtain l3 k where "tokenStep e p l1 t = Inr (l3, t\<lparr>token := k\<rparr>)" "sessionIdBak l3 = sessionIdBak l1"
      using tokenStep_total [OF t(1) _ e p(1) l1(1)] ready by auto
    then show ?thesis using False t v l1(1) ready by (auto simp: run)
  qed
qed

lemma tokenTurn_total:
  assumes inv: "tok_inv (l, t)" and e: "tk_env_ok e"
  shows "\<exists>l' t'. tokenTurn e now (l, t) = Inr (length (pUpdateQueue t) - 1, l', t') \<and> tok_inv (l', t') \<and>
    pUpdateQueue t' = tl (pUpdateQueue t) \<and> muxIsQuit t' = muxIsQuit t"
proof -
  obtain w rct where w: "waitFor (in_seconds now) l = (w, rct)"
    by (cases "waitFor (in_seconds now) l")
  have t: "device_ok t" "config_ok (tmpRemoteConfig t)" "config_ok (remoteConfig t)"
      "isValid (remoteConfig t) \<longrightarrow> address_ok (remoteConfig t) \<and> times_ok (remoteConfig t)" "tok_ready l t"
      "\<forall>p \<in> set (pUpdateQueue t). msg_fine p" "length (c_string (sessionIdBak l)) \<le> 20"
    using inv by (simp_all add: tok_inv_def)
  show ?thesis
  proof (cases "pUpdateQueue t")
    case Nil
    have z: "msg_fine zeroUpdate" "nUpdateType zeroUpdate \<noteq> 2"
      by (simp_all add: msg_fine_def zeroUpdate_def c_string_def)
    have "address_ok (remoteConfig t) \<and> times_ok (remoteConfig t) \<or> shouldUpdateRc l \<or> nUpdateType zeroUpdate = 2"
      using t(5) Nil by (auto simp: tok_ready_def first_config_def)
    from handleUpdate_total [OF t(1-4) this z(1) t(7) e, of LINK_TIMEOUT rct] show ?thesis
      using Nil by (auto simp: tokenTurn_def w tok_inv_def tok_ready_def)
  next
    case (Cons p ps)
    let ?t = "t\<lparr>pUpdateQueue := ps\<rparr>"
    have u: "device_ok ?t" "config_ok (tmpRemoteConfig ?t)" "config_ok (remoteConfig ?t)"
        "isValid (remoteConfig ?t) \<longrightarrow> address_ok (remoteConfig ?t) \<and> times_ok (remoteConfig ?t)"
      using t(1-4) by simp_all
    have "address_ok (remoteConfig ?t) \<and> times_ok (remoteConfig ?t) \<or> shouldUpdateRc l \<or> nUpdateType p = 2"
      using t(5) Cons by (auto simp: tok_ready_def first_config_def)
    moreover have "msg_fine p" using t(6) Cons by simp
    ultimately show ?thesis
      using handleUpdate_total [OF u _ _ t(7) e, of p sizeof_SessionUpdateParam rct] t(6) Cons
      by (auto simp: tokenTurn_def w tok_inv_def tok_ready_def)
  qed
qed


subsection \<open>Runs\<close>

text \<open>
  The thread with those who send it messages: the first message asks for the configuration (\<open>updateSegmentId\<close> sends it when the first
  segment starts); the sequence number is the upload thread's.
\<close>

inductive tok_run :: "('j TokenEnv \<Rightarrow> bool) \<Rightarrow> TokenLoop \<times> TokenState \<Rightarrow> bool" for ok where
  tok_start: "length ak \<le> 40 \<Longrightarrow> length sk \<le> 40 \<Longrightarrow> 8 \<le> length url \<Longrightarrow> length url \<le> 150 \<Longrightarrow> nUpdateType p = 2 \<Longrightarrow> msg_fine p \<Longrightarrow>
     tok_run ok (startLoop, snd (pushUpdate p (freshTokenState ak sk url)))"
| tok_turn: "tok_run ok s \<Longrightarrow> ok e \<Longrightarrow> tokenTurn e now s = Inr (n, s') \<Longrightarrow> tok_run ok s'"
| tok_push: "tok_run ok (l, t) \<Longrightarrow> msg_fine p \<Longrightarrow> tok_run ok (l, snd (pushUpdate p t))"
| tok_number: "tok_run ok (l, t) \<Longrightarrow> narrow n \<Longrightarrow> tok_run ok (l, t\<lparr>muxSegSeqNum := n\<rparr>)"
| tok_quit: "tok_run ok (l, t) \<Longrightarrow> tok_run ok (l, t\<lparr>muxIsQuit := True\<rparr>)"

lemma tok_inv_push: "tok_inv (l, t) \<Longrightarrow> msg_fine p \<Longrightarrow> tok_inv (l, snd (pushUpdate p t))"
  by (auto simp: tok_inv_def pushUpdate_def tok_ready_def first_config_def split: list.splits)

lemma tok_run_inv: "tok_run tk_env_ok s \<Longrightarrow> tok_inv s"
proof (induction rule: tok_run.induct)
  case (tok_start ak sk url p)
  then show ?case
    by (simp add: tok_inv_def pushUpdate_def freshTokenState_def device_ok_def narrow_def config_ok_def freshConfig_def tok_ready_def
        first_config_def startLoop_def c_string_def)
next
  case (tok_turn s e now n s')
  then show ?case
    using tokenTurn_total [of "fst s" "snd s" e now] by (cases s') auto
next
  case (tok_push l t p)
  then show ?case by (simp add: tok_inv_push)
next
  case (tok_number l t n)
  then show ?case by (simp add: tok_inv_def device_ok_def tok_ready_def)
next
  case (tok_quit l t)
  then show ?case by (simp add: tok_inv_def tok_ready_def)
qed



text \<open>A server whose documents are lists of fields: every field is there, numbers are 60.\<close>

definition sample_url :: bytes where
  "sample_url = chars ''http://a.b/token''"

definition sample_env :: "string TokenEnv" where
  "sample_env = \<lparr>tkConfigTime = 2000000000, tkTokenTime = 3000000000, tkHeap = \<lambda>_. Some (\<lambda>_. 0),
     tkConfigHttp = \<lparr>httpNew = True, httpUriOk = True, httpPrepared = True, httpReply = \<lambda>_. Http_reply 200 [123, 125]\<rparr>,
     tkTokenHttp = \<lparr>httpNew = True, httpUriOk = True, httpPrepared = True, httpReply = \<lambda>_. Http_reply 200 [123, 125]\<rparr>,
     tkParse = \<lambda>_. Some ''root'', tkItem = \<lambda>_ f. Some f, tkInt = \<lambda>_. 10, tkString = \<lambda>_. Some sample_url,
     tkSn = [49, 50], tkJunk = replicate 64 0\<rparr>"

lemma sample_env_ok: "tk_env_ok sample_env"
proof -
  have u: "c_string sample_url = sample_url"
    by (simp add: sample_url_def chars_def c_string_def)
  show ?thesis
    unfolding tk_env_ok_def
    by (simp add: sample_env_def texts_ok_def config_doc_ok_def token_doc_ok_def url_ok_def u c_string_def [of "[49, 50]"]
        del: replicate_Suc) (simp add: sample_url_def chars_def)
qed

definition sample_state :: TokenState where
  "sample_state = snd (pushUpdate \<lparr>nUpdateType = 2, nSeqNum = 0, updSessionId = replicate 21 0\<rparr> (freshTokenState [65] [66] sample_url))"

lemma sample_run: "tok_run ok (startLoop, sample_state)"
  unfolding sample_state_def by (rule tok_start) (simp_all add: sample_url_def chars_def msg_fine_def c_string_def)



text \<open>In the sample, the first turn gets a configuration.\<close>

lemma sample_config:
  "\<exists>ttl rc. getRemoteConfig sample_env (sample_state\<lparr>pUpdateQueue := []\<rparr>) =
     Inr (LINK_SUCCESS, ttl, sample_state\<lparr>pUpdateQueue := [], tmpRemoteConfig := rc\<rparr>)"
proof -
  let ?t = "sample_state\<lparr>pUpdateQueue := []\<rparr>"
  have st: "pConfigRequestUrl ?t = sample_url" "deviceSk ?t = [66]" "deviceAk ?t = [65]" "config_ok (tmpRemoteConfig ?t)"
    by (simp_all add: sample_state_def pushUpdate_def freshTokenState_def freshConfig_def config_ok_def)
  have sn: "c_string (tkSn sample_env) = [49, 50]"
    by (simp add: sample_env_def c_string_def)
  let ?url = "sample_url @ chars ''?sn='' @ [49, 50]"
  have len: "length ?url = 22"
    by (simp add: sample_url_def chars_def)
  have url: "?url = [104, 116, 116, 112, 58, 47, 47] @ [97, 46, 98] @ 47 # [116, 111, 107, 101, 110, 63, 115, 110, 61, 49, 50]"
    by (simp add: sample_url_def chars_def)
  define sig where "sig = enc_all (rfc2104_hmac_sha1 [66] (signed_text (chars ''GET'') [97, 46, 98]
      (47 # [116, 111, 107, 101, 110, 63, 115, 110, 61, 49, 50]) None []))"
  have sign: "GetHttpRequestSign (Some (\<lambda>_. 0)) (replicate 64 0) [66] (chars ''GET'') ?url None [] 30 = Inr (LINK_SUCCESS, 28, sig)"
    unfolding url sig_def by (rule GetHttpRequestSign_signs) (simp_all add: http_schemes_def chars_def)
  have siglen: "length sig = 28"
    by (simp add: sig_def length_enc_all length_hmac)
  have req: "\<exists>n resp. LinkGetUserConfig (tkConfigHttp sample_env) ?url 2048 (Some ([65] @ [58] @ sig)) = Inr (LINK_SUCCESS, n, resp)"
    by (simp add: LinkGetUserConfig_def linkSimpleHttpRequest_def sample_env_def device_prefix_def siglen c_div_def Let_def)
  obtain n resp where r: "LinkGetUserConfig (tkConfigHttp sample_env) ?url 2048 (Some ([65] @ [58] @ sig)) = Inr (LINK_SUCCESS, n, resp)"
    using req by blast
  have doc: "tkParse sample_env x = Some ''root''" "tkHeap sample_env k = Some (\<lambda>_. 0)" "tkJunk sample_env = replicate 64 0" for x k
    by (simp_all add: sample_env_def)
  have "config_doc_ok sample_env ''root''" "texts_ok sample_env"
    using sample_env_ok by (auto simp: tk_env_ok_def sample_env_def)
  then obtain ret ttl rc where rd: "readConfig sample_env ''root'' (tmpRemoteConfig ?t) = Inr (ret, ttl, rc)" "ret = LINK_SUCCESS"
    using readConfig_total [OF st(4), of sample_env "''root''"] doc(2) by (auto simp: sample_env_def)
  have nb: "\<not> 2048 \<le> length ?url" using len by simp
  show ?thesis
    unfolding getRemoteConfig_def st(1-3) sn Let_def if_not_P [OF nb] doc sign and_then_Inr prod.case
    using r rd by simp blast
qed



subsection \<open>Retries\<close>

text \<open>Turns one after the other, each with the answers and the clock it starts with.\<close>

fun token_turns :: "('j TokenEnv \<times> int) list \<Rightarrow> TokenLoop \<times> TokenState \<Rightarrow> (TokenLoop \<times> TokenState) run" where
  "token_turns [] s = Inr s"
| "token_turns ((e, now) # es) s = and_then (tokenTurn e now s) (\<lambda>(_, s). token_turns es s)"

definition unreachable :: "'j TokenEnv \<Rightarrow> bool" where
  "unreachable e \<longleftrightarrow> (\<forall>req c body. httpReply (tkConfigHttp e) req \<noteq> Http_reply c body)"

lemma get_needs_reply: "LinkGetUserConfig http url n tok = Inr (LINK_SUCCESS, r) \<Longrightarrow> \<exists>req c body. httpReply http req = Http_reply c body"
  by (auto simp: LinkGetUserConfig_def linkSimpleHttpRequest_def and_then_eq_Inr Let_def split: if_split_asm HttpReply.split_asm)

lemma config_needs_reply:
  assumes "getRemoteConfig e t = Inr (LINK_SUCCESS, r)"
  shows "\<exists>req c body. httpReply (tkConfigHttp e) req = Http_reply c body"
proof -
  obtain url tok ret n resp where g: "LinkGetUserConfig (tkConfigHttp e) url 2048 tok = Inr (ret, n, resp)"
      "ret = LINK_SUCCESS"
    using assms by (auto simp: getRemoteConfig_def and_then_eq_Inr Let_def split: if_split_asm)
  then show ?thesis
    using get_needs_reply by blast
qed

lemma unreachable_turn:
  assumes inv: "tok_inv (l, t)" and e: "tk_env_ok e" "unreachable e" and l: "shouldUpdateRc l" "pUpdateQueue t = []"
  shows "\<exists>t' b. tokenTurn e now (l, t) = Inr (0, (configFailed (in_seconds (tkConfigTime e)) l), t') \<and>
    tok_inv (configFailed (in_seconds (tkConfigTime e)) l, t') \<and> pUpdateQueue t' = []"
proof -
  have t: "device_ok t" "config_ok (tmpRemoteConfig t)"
    using inv by (simp_all add: tok_inv_def)
  obtain ret ttl rc where g: "getRemoteConfig e t = Inr (ret, ttl, t\<lparr>tmpRemoteConfig := rc\<rparr>)"
    using getRemoteConfig_total [OF t e(1)] by blast
  have "ret \<noteq> LINK_SUCCESS"
    using config_needs_reply e(2) g unfolding unreachable_def by blast
  then have "\<exists>t'. tokenTurn e now (l, t) = Inr (0, (configFailed (in_seconds (tkConfigTime e)) l), t')"
    using l by (auto simp: tokenTurn_def handleUpdate_def zeroUpdate_def configStep_def g Let_def split: prod.split)
  then show ?thesis
    using tokenTurn_total [OF inv e(1), of now] l(2) by auto
qed

lemma configFailed_next: "nNextTryRcTime (configFailed now l) = 2 * min (nNextTryRcTime l) 16"
    "rcSleepUntilTime (configFailed now l) = now + min (nNextTryRcTime l) 16" "shouldUpdateRc (configFailed now l)"
  by (simp_all add: configFailed_def Let_def)

lemma unreachable_turns:
  assumes "tok_inv (l, t)" and "shouldUpdateRc l" "pUpdateQueue t = []" "1 \<le> nNextTryRcTime l"
    and "\<forall>x \<in> set es. tk_env_ok (fst x) \<and> unreachable (fst x)" and "es \<noteq> []"
  shows "\<exists>l' t'. token_turns es (l, t) = Inr (l', t') \<and> shouldUpdateRc l' \<and> rcSleepUntilTime l' =
    in_seconds (tkConfigTime (fst (last es))) + min (nNextTryRcTime l * 2 ^ (length es - 1)) 16"
  using assms
proof (induction es arbitrary: l t)
  case Nil
  then show ?case by simp
next
  case (Cons x es)
  obtain e now where x: "x = (e, now)" by (cases x)
  let ?l = "configFailed (in_seconds (tkConfigTime e)) l"
  obtain t' where turn: "tokenTurn e now (l, t) = Inr (0, ?l, t')" "tok_inv (?l, t')" "pUpdateQueue t' = []"
    using unreachable_turn [OF Cons.prems(1) _ _ Cons.prems(2,3), of e now] Cons.prems(5) by (auto simp: x)
  show ?case
  proof (cases "es = []")
    case True
    then show ?thesis
      using configFailed_next turn(1) by (simp add: x)
  next
    case False
    then obtain n where n: "length es = Suc n" by (cases es) auto
    have "min (2 * min (nNextTryRcTime l) 16 * 2 ^ n) 16 = min (nNextTryRcTime l * 2 ^ Suc n) (16 :: int)"
    proof (cases "nNextTryRcTime l \<le> 16")
      case big: False
      have p: "(1 :: int) \<le> 2 ^ n" by simp
      have "16 * 1 \<le> nNextTryRcTime l * 2 ^ n"
        using big p by (intro mult_mono) auto
      then have a: "16 \<le> nNextTryRcTime l * 2 ^ Suc n" by simp
      have "min (nNextTryRcTime l) 16 = 16" using big by simp
      moreover have "16 \<le> 32 * (2 :: int) ^ n" using p by linarith
      ultimately have b: "16 \<le> 2 * min (nNextTryRcTime l) 16 * 2 ^ n" by (simp only:)
      show ?thesis
        by (simp only: min_absorb2 [OF a] min_absorb2 [OF b])
    qed (simp add: min_def algebra_simps)
    moreover have "1 \<le> nNextTryRcTime ?l"
      using Cons.prems(4) by (simp add: configFailed_next)
    ultimately show ?thesis
      using Cons.IH [OF turn(2) configFailed_next(3) turn(3) _ _ False] Cons.prems(5) False turn(1)
      by (auto simp: x n configFailed_next(1))
  qed
qed

text \<open>
  While the configuration server cannot be reached, the thread asks again after each wait, and the waits double up to sixteen seconds.
\<close>

theorem retry_delays:
  assumes "tok_run tk_env_ok (l, t)" and "shouldUpdateRc l" "pUpdateQueue t = []" "1 \<le> nNextTryRcTime l"
    and "\<forall>x \<in> set es. tk_env_ok (fst x) \<and> unreachable (fst x)" and "es \<noteq> []"
  shows "\<exists>l' t'. token_turns es (l, t) = Inr (l', t') \<and>
    waitFor (in_seconds (tkConfigTime (fst (last es)))) l' = (min (nNextTryRcTime l * 2 ^ (length es - 1)) 16, True)"
proof -
  obtain l' t' where r: "token_turns es (l, t) = Inr (l', t')" "shouldUpdateRc l'" "rcSleepUntilTime l' =
      in_seconds (tkConfigTime (fst (last es))) + min (nNextTryRcTime l * 2 ^ (length es - 1)) 16"
    using unreachable_turns [OF tok_run_inv [OF assms(1)] assms(2-6)] by blast
  have "0 \<le> nNextTryRcTime l * 2 ^ (length es - 1)"
    using assms(4) by simp
  then have "\<not> min (nNextTryRcTime l * 2 ^ (length es - 1)) 16 < 0"
    by linarith
  then have "waitFor (in_seconds (tkConfigTime (fst (last es)))) l' = (min (nNextTryRcTime l * 2 ^ (length es - 1)) 16, True)"
    using r(2,3) by (simp add: waitFor_def Let_def)
  then show ?thesis using r(1) by blast
qed

definition down_env :: "string TokenEnv" where
  "down_env = sample_env\<lparr>tkConfigHttp := \<lparr>httpNew = True, httpUriOk = True, httpPrepared = True, httpReply = \<lambda>_. Http_timeout\<rparr>\<rparr>"

lemma down_env_ok: "tk_env_ok down_env" "unreachable down_env"
proof -
  have "texts_ok down_env = texts_ok sample_env" "token_doc_ok down_env j = token_doc_ok sample_env j" for j
    by (simp_all add: down_env_def texts_ok_def token_doc_ok_def)
  then show "tk_env_ok down_env"
    using sample_env_ok by (simp add: tk_env_ok_def) (simp add: down_env_def)
  show "unreachable down_env"
    by (simp add: unreachable_def down_env_def)
qed

theorem retry_delays_witness:
  "\<exists>l t l' t'. tokenTurn down_env 0 (startLoop, sample_state) = Inr (0, l, t) \<and> token_turns (replicate 3 (down_env, 0)) (l, t) = Inr (l', t')
     \<and> waitFor 2 l' = (8, True)"
proof -
  have now: "in_seconds (tkConfigTime down_env) = 2"
    by (simp add: in_seconds_def down_env_def sample_env_def c_div_def c_int_def)
  have q: "pUpdateQueue sample_state = [\<lparr>nUpdateType = 2, nSeqNum = 0, updSessionId = replicate 21 0\<rparr>]"
    by (simp add: sample_state_def pushUpdate_def freshTokenState_def)
  let ?t = "sample_state\<lparr>pUpdateQueue := []\<rparr>"
  have inv: "device_ok ?t" "config_ok (tmpRemoteConfig ?t)"
    using tok_run_inv [OF sample_run] by (simp_all add: tok_inv_def)
  obtain ret ttl rc where g: "getRemoteConfig down_env ?t = Inr (ret, ttl, ?t\<lparr>tmpRemoteConfig := rc\<rparr>)"
    using getRemoteConfig_total [OF inv down_env_ok(1)] by blast
  have "ret \<noteq> LINK_SUCCESS"
    using config_needs_reply down_env_ok(2) g unfolding unreachable_def by blast
  then obtain t where turn: "tokenTurn down_env 0 (startLoop, sample_state) = Inr (0, configFailed 2 startLoop, t)" "pUpdateQueue t = []"
    by (simp add: tokenTurn_def q handleUpdate_def configStep_def g Let_def now doCloudStorageStateCallback_def setRemoteConfigInvalid_def
        split: prod.split)
  have "tok_run (tk_env_ok :: string TokenEnv \<Rightarrow> bool) (configFailed 2 startLoop, t)"
    by (rule tok_run.tok_turn [where ok = tk_env_ok, OF sample_run down_env_ok(1) turn(1)])
  then obtain l' t' where "token_turns (replicate 3 (down_env, 0)) (configFailed 2 startLoop, t) = Inr (l', t')"
      "waitFor (in_seconds (tkConfigTime (fst (last (replicate 3 (down_env, 0 :: int)))))) l' =
        (min (nNextTryRcTime (configFailed 2 startLoop) * 2 ^ (length (replicate 3 (down_env, 0 :: int)) - 1)) 16, True)"
    using retry_delays [of "configFailed 2 startLoop" t "replicate 3 (down_env, 0)"] turn(2) down_env_ok
    by (auto simp: configFailed_next startLoop_def)
  then show ?thesis
    using turn(1) by (auto simp: now configFailed_next startLoop_def)
qed

subsection \<open>What can go wrong\<close>

text \<open>Once a token was fetched, its deadline plays no part in the wait.\<close>

lemma token_deadline_unused: "\<not> shouldUpdateToken l \<Longrightarrow> waitFor now (l\<lparr>tokenSleepUntilTime := d\<rparr>) = waitFor now l"
  by (simp add: waitFor_def)

text \<open>A token document without a prefix is read in front of the prefix block.\<close>

lemma missing_prefix_faults:
  assumes "tkItem e j ''fnamePrefix'' = None" and "tkItem e j ''tsToken'' = None" "tkItem e j ''frameToken'' = None" "tkItem e j ''token'' = None"
  shows "readTokens e j buf \<lparr>bufData = Some (replicate 256 0), bufLen = 0, bufCap = 256\<rparr> t = Inl Out_of_bounds"
  using assms by (simp add: readTokens_def getJsonString_def cutSlash_def)

text \<open>A configuration freed for lack of memory keeps its capacities; the next one is written through null.\<close>

lemma no_memory_then_crash:
  assumes "tkItem e j f = Some node" and "tkString e node = Some v" and "int (length (c_string v)) < bufCap (upHostUrl rc)"
  shows "getJsonString e k (upHostUrl (freeRemoteConfig rc)) f j = Inl Null_deref"
  using assms by (simp add: getJsonString_def freeRemoteConfig_def Let_def)

text \<open>A field the server leaves out keeps the value of the last configuration but one, since the two are swapped.\<close>

lemma missing_field_is_stale:
  assumes "tkItem e seg ''segmentReportUrl'' = None" and "configUrls e seg rc = Inr (True, rc')"
  shows "mgrTokenRequestUrl rc' = mgrTokenRequestUrl rc"
  using assms by (auto simp: configUrls_def and_then_eq_Inr Let_def getJsonString_def [of e 2] split: if_split_asm)

lemma swapped_configs: "tmpRemoteConfig (updateRemoteConfig t) = remoteConfig t"
  by (simp add: updateRemoteConfig_def Let_def)

end
