(* ===== verification/ReportParams.thy ===== *)
theory ReportParams
  imports SegmentRuns TokenSafety
begin

section \<open>The report thread with the token thread\<close>

text \<open>
  The report thread calls \<open>uploadParamCallback\<close> for the server's address and the keys. Here the callback is the model's own, on
  any state the token thread can reach, and what \<open>SegmentRuns\<close> assumes of the callback is proved of it.
\<close>

subsection \<open>The call\<close>

text \<open>The parameter block \<open>reportSegInfo\<close> prepares.\<close>

definition reportParam :: LinkUploadParam where
  "reportParam = \<lparr>pTokenBuf = None, nTokenBufLen = 0, pUpHost = None, nUpHostLen = 0, pSegUrl = Some (replicate 640 0), nSegUrlLen = 640,
     paramSessionId = replicate 21 0, pAk = Some (replicate 41 0), nAkLen = 41, pSk = Some (replicate 41 0), nSkLen = 41,
     pFilePrefix = None, nFilePrefix = 0\<rparr>"

text \<open>What it reads from the block afterwards.\<close>

definition block_of :: "bytes option \<Rightarrow> bytes" where
  "block_of b = (case b of None \<Rightarrow> [] | Some x \<Rightarrow> x)"

definition reportParams :: "TokenState \<Rightarrow> (int \<times> bytes \<times> bytes \<times> bytes) run" where
  "reportParams t = and_then (uploadParamCallback t reportParam LINK_UPLOAD_CB_GETPARAM) (\<lambda>(ret, p).
     Inr (ret, take (nat (nSegUrlLen p)) (block_of (pSegUrl p)), c_string (block_of (pAk p)), c_string (block_of (pSk p))))"

definition buffer_text :: "Buffer \<Rightarrow> bytes" where
  "buffer_text b = take (nat (bufLen b)) (block_of (bufData b))"

lemma giveText_ok:
  assumes "buffer_ok b" and "int (length d) = cap"
  shows "giveText b (Some d) cap = Inr (if cap - 1 < bufLen b then Too_small
    else Given (overwrite 0 (buffer_text b @ [0]) d) (bufLen b))"
proof (cases "cap - 1 < bufLen b")
  case False
  then show ?thesis
    using assms by (auto simp: giveText_def buffer_ok_def buffer_text_def block_of_def read_at_def write_at_def split: option.splits)
qed (simp add: giveText_def)

lemma giveText_none [simp]: "giveText b None cap = Inr Nothing_asked"
  by (simp add: giveText_def)

lemma length_buffer_text: "buffer_ok b \<Longrightarrow> int (length (buffer_text b)) = bufLen b"
  by (auto simp: buffer_ok_def buffer_text_def block_of_def split: option.splits)

lemma stringBuffer_ok [simp]: "buffer_ok (stringBuffer s)" "bufLen (stringBuffer s) = int (length s)"
  by (simp_all add: buffer_ok_def stringBuffer_def)

lemma buffer_text_string [simp]: "buffer_text (stringBuffer s) = s"
  by (simp add: buffer_text_def stringBuffer_def block_of_def)

lemma reportParams_ready:
  assumes "paramsReady t" and "config_ok (remoteConfig t)" and "device_ok t" and "bufLen (mgrTokenRequestUrl (remoteConfig t)) < 640"
  shows "\<exists>ak sk. reportParams t = Inr (LINK_SUCCESS, buffer_text (mgrTokenRequestUrl (remoteConfig t)), ak, sk) \<and>
    length ak \<le> 40 \<and> length sk \<le> 40"
proof -
  have b: "buffer_ok (mgrTokenRequestUrl (remoteConfig t))"
    using assms(2) by (simp add: config_ok_def)
  have len: "\<not> 41 \<le> length (deviceAk t)" "\<not> 41 \<le> length (deviceSk t)"
    using assms(3) by (auto simp: device_ok_def)
  have "length (c_string (s @ 0 # r)) \<le> length s" for s r :: bytes
    by (induction s) (simp_all add: c_string_def)
  then have cs: "length (c_string (overwrite 0 (s @ [0]) d)) \<le> length s" for s d :: bytes
    by (simp add: overwrite_def)
  note g = giveText_ok [OF b, of "replicate 640 0" 640] giveText_ok [OF stringBuffer_ok(1), of "replicate 41 0" 41]
  have t: "take (length s) (overwrite 0 (s @ [0]) d) = s" for s d :: bytes
    by (simp add: overwrite_def)
  have u: "nat (bufLen (mgrTokenRequestUrl (remoteConfig t))) = length (buffer_text (mgrTokenRequestUrl (remoteConfig t)))"
    using length_buffer_text [OF b] by simp
  have k: "length (c_string (overwrite 0 (deviceAk t @ [0]) (replicate 41 0))) \<le> 40"
      "length (c_string (overwrite 0 (deviceSk t @ [0]) (replicate 41 0))) \<le> 40"
    using cs [of "deviceAk t" "replicate 41 0"] cs [of "deviceSk t" "replicate 41 0"] len by linarith+
  show ?thesis
    using assms(1,4) len k
    by (auto simp: reportParams_def uploadParamCallback_def afterGiven_def reportParam_def g u t block_of_def Let_def order_trans
        simp del: replicate_Suc)
qed


subsection \<open>Both threads together\<close>

text \<open>The answers of a turn of the report thread, with the parameters the token thread's state gives.\<close>

definition with_params :: "TokenState \<Rightarrow> 'j SegEnv \<Rightarrow> 'j SegEnv" where
  "with_params t e = (case reportParams t of Inl _ \<Rightarrow> e | Inr r \<Rightarrow> e\<lparr>segParam := r\<rparr>)"

definition report_address_ok :: "TokenState \<Rightarrow> bool" where
  "report_address_ok t \<longleftrightarrow> signable (buffer_text (mgrTokenRequestUrl (remoteConfig t)))"

lemma reportParams_total:
  assumes t: "config_ok (remoteConfig t)" "device_ok t" "paramsReady t \<Longrightarrow> report_address_ok t"
    and e: "narrow (segNow e)" "length (segJunk e) = 64"
  shows "(\<exists>r. reportParams t = Inr r) \<and> env_ok (with_params t e)"
proof (cases "paramsReady t")
  case False
  then show ?thesis
    using e by (simp add: reportParams_def uploadParamCallback_def with_params_def env_ok_def)
next
  case True
  have b: "buffer_ok (mgrTokenRequestUrl (remoteConfig t))"
    using t(1) by (simp add: config_ok_def)
  have s: "signable (buffer_text (mgrTokenRequestUrl (remoteConfig t)))"
    using t(3) [OF True] by (simp add: report_address_ok_def)
  then have "bufLen (mgrTokenRequestUrl (remoteConfig t)) < 640"
    using length_buffer_text [OF b] by (simp add: signable_def)
  then obtain ak sk where "reportParams t = Inr (LINK_SUCCESS, buffer_text (mgrTokenRequestUrl (remoteConfig t)), ak, sk)"
      "length ak \<le> 40" "length sk \<le> 40"
    using reportParams_ready [OF True t(1,2)] by blast
  then show ?thesis
    using e s by (simp add: with_params_def env_ok_def)
qed



end
