(* ===== verification/MessageQueue.thy ===== *)
theory MessageQueue
  imports CircleQueue "HOL-Library.Signed_Division"
begin

section \<open>The message queue of the MQTT client (libmqtt/queue.c)\<close>

text \<open>
  The queue between the network thread of the MQTT client and the threads that handle
  remote commands and log lines. It holds pointers to messages; when it is full the oldest
  message is lost. \<open>'m\<close> is the type of the pointers. The mutexes make every operation atomic;
  what other threads do while an operation waits is an argument of it.
\<close>

record 'm MessageQueue =
  pAlloc :: "'m list"
  nNextIn :: int
  nNextOut :: int
  nCapacity :: int
  nSize :: int
  bIsValid :: bool

text \<open>
  \<open>sizeof(Message * )\<close> is 8; the product is computed in a \<open>size_t\<close>, and the capacity is
  narrowed to an \<open>int\<close>. \<open>structOk\<close> says whether the first allocation succeeds, \<open>m\<close> answers the
  second.
\<close>

definition CreateMessageQueue ::
    "bool \<Rightarrow> (nat \<Rightarrow> 'm) option \<Rightarrow> nat \<Rightarrow> 'm MessageQueue option" where
  "CreateMessageQueue structOk m nLength =
     (if \<not> structOk then None
      else (case m of
          None \<Rightarrow> None
        | Some junk \<Rightarrow> Some \<lparr>pAlloc = map junk [0..<(8 * nLength mod 2 ^ 64) div 8],
              nNextIn = 0, nNextOut = 0, nCapacity = signed_take_bit 31 (int nLength),
              nSize = 0, bIsValid = True\<rparr>))"

text \<open>The pointer array at a C index, and the step of an index round the array.\<close>

definition slotAt :: "'m list \<Rightarrow> int \<Rightarrow> 'm run" where
  "slotAt a i = (if 0 \<le> i \<and> nat i < length a then Inr (a ! nat i) else Inl Out_of_bounds)"

definition nextIndex :: "int \<Rightarrow> int \<Rightarrow> int run" where
  "nextIndex i c = (if c = 0 then Inl Division_by_zero else Inr ((i + 1) smod c))"

definition SendMessage :: "'m MessageQueue option \<Rightarrow> 'm \<Rightarrow> 'm MessageQueue option run" where
  "SendMessage pQueue pMessage =
     (case pQueue of
        None \<Rightarrow> Inr None
      | Some q \<Rightarrow>
          if nNextIn q < 0 then Inl Out_of_bounds
          else and_then (write_at (nat (nNextIn q)) [pMessage] (pAlloc q)) (\<lambda>a.
          and_then (nextIndex (nNextIn q) (nCapacity q)) (\<lambda>nextIn.
          let q1 = q\<lparr>pAlloc := a, nNextIn := nextIn, nSize := nSize q + 1\<rparr> in
          if nCapacity q1 < nSize q1 then
            and_then (nextIndex (nNextOut q1) (nCapacity q1)) (\<lambda>nextOut.
              Inr (Some (q1\<lparr>nNextOut := nextOut, nSize := nCapacity q1\<rparr>)))
          else Inr (Some q1))))"

text \<open>Taking the oldest message, the tail of both receiving functions.\<close>

definition takeMessage :: "'m MessageQueue \<Rightarrow> ('m option \<times> 'm MessageQueue) run" where
  "takeMessage q =
     and_then (slotAt (pAlloc q) (nNextOut q)) (\<lambda>msg.
     and_then (nextIndex (nNextOut q) (nCapacity q)) (\<lambda>nextOut.
       Inr (Some msg, q\<lparr>nNextOut := nextOut, nSize := nSize q - 1\<rparr>)))"

text \<open>
  \<open>ReceiveMessage\<close> waits as long as the queue is empty and valid. \<open>wakes\<close> are the states in
  which the queue is found at the successive returns of \<open>pthread_cond_wait\<close>; the result
  \<open>None\<close> means that the function still waits after the last of them.
\<close>

fun receiveLoop ::
    "'m MessageQueue \<Rightarrow> 'm MessageQueue list \<Rightarrow> ('m option \<times> 'm MessageQueue) run option" where
  "receiveLoop q wakes =
     (if nSize q = 0 then
        if \<not> bIsValid q then Some (Inr (None, q))
        else (case wakes of [] \<Rightarrow> None | q' # wakes' \<Rightarrow> receiveLoop q' wakes')
      else Some (takeMessage q))"

declare receiveLoop.simps [simp del]

definition ReceiveMessage ::
    "'m MessageQueue option \<Rightarrow> 'm MessageQueue list
       \<Rightarrow> ('m option \<times> 'm MessageQueue option) run option" where
  "ReceiveMessage pQueue wakes =
     (case pQueue of
        None \<Rightarrow> Some (Inr (None, None))
      | Some q \<Rightarrow> map_option (\<lambda>r. and_then r (\<lambda>(msg, q'). Inr (msg, Some q')))
          (receiveLoop q wakes))"

text \<open>
  The point in time until which \<open>ReceiveMessageTimeout\<close> waits, as the pair \<open>(tv_sec, tv_nsec)\<close>.
  \<open>_nMilliSec * 1000\<close> is a product of two \<open>int\<close>s, the sum with the \<open>long\<close> \<open>tv_usec\<close> is a
  \<open>long\<close>, and both results are narrowed to \<open>int\<close>.
\<close>

definition receiveDeadline :: "int \<times> int \<Rightarrow> int \<Rightarrow> int \<times> int" where
  "receiveDeadline now nMilliSec =
     (let us = snd now + signed_take_bit 31 (nMilliSec * 1000) in
       (signed_take_bit 31 (us sdiv 1000000 + fst now),
        signed_take_bit 31 ((us smod 1000000) * 1000)))"

text \<open>
  \<open>wait\<close> gives, for a deadline and the queue left to the others, whether
  \<open>pthread_cond_timedwait\<close> returned \<open>ETIMEDOUT\<close> and the queue it came back to.
\<close>

definition ReceiveMessageTimeout ::
    "int \<times> int \<Rightarrow> (int \<times> int \<Rightarrow> 'm MessageQueue \<Rightarrow> bool \<times> 'm MessageQueue)
       \<Rightarrow> 'm MessageQueue option \<Rightarrow> int \<Rightarrow> ('m option \<times> 'm MessageQueue option) run" where
  "ReceiveMessageTimeout now wait pQueue nMilliSec =
     (case pQueue of
        None \<Rightarrow> Inr (None, None)
      | Some q \<Rightarrow>
          (case (if nSize q = 0 then
                   (case wait (receiveDeadline now nMilliSec) q of (timedout, q') \<Rightarrow>
                      (\<not> bIsValid q' \<or> timedout, q'))
                 else (False, q)) of
             (giveUp, q') \<Rightarrow>
               if giveUp \<or> nSize q' = 0 then Inr (None, Some q')
               else and_then (takeMessage q') (\<lambda>(msg, q''). Inr (msg, Some q''))))"

text \<open>
  \<open>DestroyMessageQueue\<close> first marks the queue invalid and wakes the receiver, then waits
  until the receiver has left, then releases the array and the queue. The messages still
  in the queue are not released.
\<close>

definition destroyMark :: "'m MessageQueue option \<Rightarrow> 'm MessageQueue option" where
  "destroyMark pQueue = map_option (\<lambda>q. q\<lparr>bIsValid := False\<rparr>) pQueue"

datatype 'm queue_release = Free_array "'m list" | Free_queue

definition DestroyMessageQueue ::
    "'m MessageQueue option \<Rightarrow> 'm MessageQueue option \<times> 'm queue_release list" where
  "DestroyMessageQueue pQueue =
     (case destroyMark pQueue of
        None \<Rightarrow> (None, [])
      | Some q \<Rightarrow> (None, (if pAlloc q = [] then [] else [Free_array (pAlloc q)]) @ [Free_queue]))"

subsection \<open>The contract: a FIFO that loses its oldest items\<close>

text \<open>
  What a sender and a receiver rely on: sending never fails, and the queue holds the last
  \<open>c\<close> of the items sent and not yet received, in the order of sending. Both this queue and
  the overwriting policy of the uploader's circular queue keep the contract.
\<close>

fun run_latest ::
    "('q \<Rightarrow> 'a \<Rightarrow> 'q run) \<Rightarrow> ('q \<Rightarrow> ('a option \<times> 'q) run) \<Rightarrow> 'q \<Rightarrow> 'a queue_op list
       \<Rightarrow> ('a option list \<times> 'q) run" where
  "run_latest send recv q [] = Inr ([], q)"
| "run_latest send recv q (Push x # ops) =
     and_then (send q x) (\<lambda>q'. run_latest send recv q' ops)"
| "run_latest send recv q (Pop # ops) =
     and_then (recv q) (\<lambda>(x, q').
     and_then (run_latest send recv q' ops) (\<lambda>(rs, q''). Inr (x # rs, q'')))"

fun spec_latest :: "nat \<Rightarrow> 'a list \<Rightarrow> 'a queue_op list \<Rightarrow> 'a option list \<times> 'a list" where
  "spec_latest c xs [] = ([], xs)"
| "spec_latest c xs (Push x # ops) = spec_latest c (last_n c (xs @ [x])) ops"
| "spec_latest c [] (Pop # ops) =
     (case spec_latest c [] ops of (rs, ys) \<Rightarrow> (None # rs, ys))"
| "spec_latest c (x # xs) (Pop # ops) =
     (case spec_latest c xs ops of (rs, ys) \<Rightarrow> (Some x # rs, ys))"

locale overwriting_fifo =
  fixes send :: "'q \<Rightarrow> 'a \<Rightarrow> 'q run"
    and recv :: "'q \<Rightarrow> ('a option \<times> 'q) run"
    and items :: "'q \<Rightarrow> 'a list"
    and inv :: "nat \<Rightarrow> nat \<Rightarrow> 'q \<Rightarrow> bool"
    and fits :: "nat \<Rightarrow> 'a \<Rightarrow> bool"
  assumes send_item: "inv c l q \<Longrightarrow> fits l x \<Longrightarrow>
      \<exists>q'. send q x = Inr q' \<and> inv c l q' \<and> items q' = last_n c (items q @ [x])"
    and recv_item: "inv c l q \<Longrightarrow> items q = x # xs \<Longrightarrow>
      \<exists>q'. recv q = Inr (Some x, q') \<and> inv c l q' \<and> items q' = xs"
    and recv_empty: "inv c l q \<Longrightarrow> items q = [] \<Longrightarrow>
      \<exists>q'. recv q = Inr (None, q') \<and> inv c l q' \<and> items q' = []"
begin

lemma run_refines:
  assumes "inv c l q" and "\<And>x. Push x \<in> set ops \<Longrightarrow> fits l x"
  shows "\<exists>q'. run_latest send recv q ops = Inr (fst (spec_latest c (items q) ops), q')
    \<and> inv c l q' \<and> items q' = snd (spec_latest c (items q) ops)"
  using assms
proof (induction ops arbitrary: q)
  case Nil
  then show ?case by simp
next
  case (Cons op ops)
  have IH: "inv c l q' \<Longrightarrow> \<exists>q''. run_latest send recv q' ops
      = Inr (fst (spec_latest c (items q') ops), q'')
      \<and> inv c l q'' \<and> items q'' = snd (spec_latest c (items q') ops)" for q'
    using Cons by simp
  show ?case
  proof (cases op)
    case (Push x)
    then obtain q' where "send q x = Inr q'" "inv c l q'" "items q' = last_n c (items q @ [x])"
      using send_item [OF Cons.prems(1)] Cons.prems(2) by force
    then show ?thesis
      using IH [of q'] Push by simp
  next
    case Pop
    show ?thesis
    proof (cases "items q")
      case Nil
      then obtain q' where "recv q = Inr (None, q')" "inv c l q'" "items q' = []"
        using recv_empty [OF Cons.prems(1)] by blast
      then show ?thesis
        using IH [of q'] Nil Pop by (auto split: prod.splits)
    next
      case items: (Cons x xs)
      then obtain q' where "recv q = Inr (Some x, q')" "inv c l q'" "items q' = xs"
        using recv_item [OF Cons.prems(1)] by blast
      then show ?thesis
        using IH [of q'] items Pop by (auto split: prod.splits)
    qed
  qed
qed

lemma spec_pushes: "spec_latest c xs (map Push ys) = ([], last_n c (xs @ ys))"
  if "length xs \<le> c"
  using that
proof (induction ys arbitrary: xs)
  case Nil
  then show ?case by (simp add: last_n_def)
next
  case (Cons y ys)
  have "length (last_n c (xs @ [y])) \<le> c"
    by (simp add: last_n_def)
  with Cons.IH show ?case
    by (simp add: last_n_last_n)
qed

end

subsection \<open>The queue keeps the contract\<close>

definition mq_inv :: "nat \<Rightarrow> 'm MessageQueue \<Rightarrow> bool" where
  "mq_inv c q \<longleftrightarrow> 0 < c \<and> length (pAlloc q) = c \<and> nCapacity q = int c
     \<and> 0 \<le> nNextOut q \<and> nNextOut q < int c \<and> 0 \<le> nSize q \<and> nSize q \<le> int c
     \<and> nNextIn q = (nNextOut q + nSize q) mod int c"

definition mq_items :: "'m MessageQueue \<Rightarrow> 'm list" where
  "mq_items q = map (\<lambda>k. pAlloc q ! ((nat (nNextOut q) + k) mod length (pAlloc q)))
     [0..<nat (nSize q)]"

lemma mq_ring:
  assumes "mq_inv c q"
  obtains out n where "nNextOut q = int out" "nSize q = int n" "nCapacity q = int c"
    "length (pAlloc q) = c" "out < c" "n \<le> c" "nNextIn q = int ((out + n) mod c)"
proof
  show "nNextOut q = int (nat (nNextOut q))" "nSize q = int (nat (nSize q))"
    "nCapacity q = int c" "length (pAlloc q) = c" "nat (nNextOut q) < c" "nat (nSize q) \<le> c"
    using assms by (auto simp: mq_inv_def)
  show "nNextIn q = int ((nat (nNextOut q) + nat (nSize q)) mod c)"
    using assms by (auto simp: mq_inv_def zmod_int)
qed

lemma nextIndex_ok: "0 < c \<Longrightarrow> nextIndex (int i) (int c) = Inr (int (Suc i mod c))"
  by (simp add: nextIndex_def signed_modulo_int_def sgn_if zmod_int add.commute)

lemma mq_items_simps:
  assumes "nNextOut q = int out" "nSize q = int n" "length (pAlloc q) = c"
  shows "mq_items q = map (\<lambda>k. pAlloc q ! ((out + k) mod c)) [0..<n]"
  using assms by (simp add: mq_items_def)

lemma ring_update:
  assumes "n < c"
  shows "map (\<lambda>k. a[(out + n) mod c := x] ! ((out + k) mod c)) [0..<n]
    = map (\<lambda>k. a ! ((out + k) mod c)) [0..<n]"
proof (intro map_cong refl)
  fix k
  assume "k \<in> set [0..<n]"
  then have "(out + k) mod c \<noteq> (out + n) mod c"
    using ring_index_distinct [OF _ assms] by simp
  then show "a[(out + n) mod c := x] ! ((out + k) mod c) = a ! ((out + k) mod c)"
    by (metis nth_list_update_neq)
qed

lemma last_n_full: "length xs = c \<Longrightarrow> 0 < c \<Longrightarrow> last_n c (xs @ [x]) = tl xs @ [x]"
  by (cases xs) (auto simp: last_n_def)

lemma SendMessage_latest:
  assumes inv: "mq_inv c q"
  shows "\<exists>q'. SendMessage (Some q) x = Inr (Some q') \<and> mq_inv c q'
    \<and> mq_items q' = last_n c (mq_items q @ [x]) \<and> bIsValid q' = bIsValid q"
proof -
  obtain out n where q: "nNextOut q = int out" "nSize q = int n" "nCapacity q = int c"
    "length (pAlloc q) = c" "out < c" "n \<le> c" "nNextIn q = int ((out + n) mod c)"
    using mq_ring [OF inv] by blast
  have c: "0 < c" using q(5) by simp
  let ?e = "(out + n) mod c"
  let ?a = "(pAlloc q)[?e := x]"
  have e: "?e < c" using c by simp
  have w: "write_at ?e [x] (pAlloc q) = Inr ?a"
    using e q(4) by (simp add: write_at_def overwrite_def upd_conv_take_nth_drop)
  have idx: "nextIndex (int ?e) (int c) = Inr (int ((out + Suc n) mod c))"
    using nextIndex_ok [OF c, of ?e] by (simp add: mod_Suc_eq)
  show ?thesis
  proof (cases "n < c")
    case True
    define q' where "q' = q\<lparr>pAlloc := ?a, nNextIn := int ((out + Suc n) mod c),
      nSize := int n + 1\<rparr>"
    have run: "SendMessage (Some q) x = Inr (Some q')"
      using True by (simp add: SendMessage_def q w idx q'_def)
    have inv': "mq_inv c q'"
      using True q by (simp add: mq_inv_def q'_def zmod_int ac_simps)
    have "mq_items q' = map (\<lambda>k. ?a ! ((out + k) mod c)) [0..<Suc n]"
      using mq_items_simps [of q' out "Suc n" c] by (simp add: q'_def q del: upt_Suc)
    also have "\<dots> = mq_items q @ [x]"
      using ring_update [OF True] e q(4) by (simp add: mq_items_simps [OF q(1,2,4)])
    also have "\<dots> = last_n c (mq_items q @ [x])"
      using True by (simp add: last_n_def mq_items_simps [OF q(1,2,4)])
    finally show ?thesis
      using run inv' by (auto simp: q'_def)
  next
    case False
    then have n: "n = c" "?e = out" using q(5,6) by simp_all
    define q' where "q' = q\<lparr>pAlloc := ?a, nNextIn := int (Suc out mod c), nSize := int c,
      nNextOut := int (Suc out mod c)\<rparr>"
    have idx': "nextIndex (int out) (int c) = Inr (int (Suc out mod c))"
      by (rule nextIndex_ok [OF c])
    have run: "SendMessage (Some q) x = Inr (Some q')"
      using w by (simp add: SendMessage_def q n idx' q'_def)
    have inv': "mq_inv c q'"
      using c q by (simp add: mq_inv_def q'_def zmod_int)
    obtain d where d: "c = Suc d" using c by (cases c) auto
    have "mq_items q' = map (\<lambda>k. ?a ! ((Suc out mod c + k) mod c)) [0..<c]"
      using mq_items_simps [of q' "Suc out mod c" c c] by (simp add: q'_def q)
    also have "\<dots> = map (\<lambda>k. ?a ! ((out + Suc k) mod c)) [0..<c]"
      by (simp add: mod_add_left_eq)
    also have "\<dots> = map (\<lambda>k. pAlloc q ! ((out + Suc k) mod c)) [0..<d] @ [x]"
    proof -
      have "?a ! ((out + Suc k) mod c) = pAlloc q ! ((out + Suc k) mod c)" if "k < d" for k
      proof -
        have "(out + Suc k) mod c \<noteq> out"
          using ring_index_distinct [of 0 "Suc k" c out] that d q(5) by simp
        then show ?thesis by (simp only: n(2)) (metis nth_list_update_neq)
      qed
      moreover have "?a ! ((out + Suc d) mod c) = x"
        using n q(4,5) d by simp
      ultimately show ?thesis
        using d by simp
    qed
    also have "\<dots> = tl (mq_items q) @ [x]"
      by (simp add: mq_items_simps [OF q(1,2,4)] n(1) d map_upt_Suc del: upt_Suc)
    also have "\<dots> = last_n c (mq_items q @ [x])"
      by (rule last_n_full [symmetric]) (simp_all add: mq_items_simps [OF q(1,2,4)] n(1) c)
    finally show ?thesis
      using run inv' by (auto simp: q'_def)
  qed
qed

lemma takeMessage_oldest:
  assumes inv: "mq_inv c q" and items: "mq_items q = x # xs"
  shows "\<exists>q'. takeMessage q = Inr (Some x, q') \<and> mq_inv c q' \<and> mq_items q' = xs
    \<and> bIsValid q' = bIsValid q"
proof -
  obtain out n where q: "nNextOut q = int out" "nSize q = int n" "nCapacity q = int c"
    "length (pAlloc q) = c" "out < c" "n \<le> c" "nNextIn q = int ((out + n) mod c)"
    using mq_ring [OF inv] by blast
  have c: "0 < c" using q(5) by simp
  note it = items [unfolded mq_items_simps [OF q(1,2,4)]]
  obtain m where n: "n = Suc m" using it by (cases n) auto
  have x: "x = pAlloc q ! out" and xs: "xs = map (\<lambda>k. pAlloc q ! ((out + Suc k) mod c)) [0..<m]"
    using it q(5) by (simp_all add: n map_upt_Suc del: upt_Suc)
  define q' where "q' = q\<lparr>nNextOut := int (Suc out mod c), nSize := int m\<rparr>"
  have run: "takeMessage q = Inr (Some x, q')"
    by (simp add: takeMessage_def slotAt_def q nextIndex_ok [OF c] x q'_def n)
  have "mq_inv c q'"
    using c q by (simp add: mq_inv_def q'_def n zmod_int mod_simps ac_simps)
  moreover have "mq_items q' = xs"
    by (simp add: xs q'_def q mq_items_def mod_add_left_eq)
  ultimately show ?thesis
    using run by (auto simp: q'_def)
qed

lemma CreateMessageQueue_new:
  assumes "CreateMessageQueue True (Some junk) n = Some q" and "0 < n" and "n < 2 ^ 31"
  shows "mq_inv n q" and "mq_items q = []" and "bIsValid q"
  using assms
  by (auto simp: CreateMessageQueue_def mq_inv_def mq_items_def signed_take_bit_int_eq_self)

text \<open>The operations as the contract names them; the receiver waits and nobody sends meanwhile.\<close>

definition mq_send :: "'m MessageQueue \<Rightarrow> 'm \<Rightarrow> 'm MessageQueue run" where
  "mq_send q x = and_then (SendMessage (Some q) x)
     (\<lambda>r. case r of None \<Rightarrow> Inl Null_deref | Some q' \<Rightarrow> Inr q')"

definition mq_recv ::
    "int \<times> int \<Rightarrow> int \<Rightarrow> 'm MessageQueue \<Rightarrow> ('m option \<times> 'm MessageQueue) run" where
  "mq_recv now ms q = and_then (ReceiveMessageTimeout now (\<lambda>_ q'. (True, q')) (Some q) ms)
     (\<lambda>(x, r). case r of None \<Rightarrow> Inl Null_deref | Some q' \<Rightarrow> Inr (x, q'))"

lemma mq_items_Nil: "mq_inv c q \<Longrightarrow> mq_items q = [] \<longleftrightarrow> nSize q = 0"
  by (auto simp: mq_items_def mq_inv_def)

interpretation mq: overwriting_fifo mq_send "mq_recv now ms" mq_items "\<lambda>c _. mq_inv c"
    "\<lambda>_ _. True" for now ms
proof
  fix c l q x
  assume "mq_inv c q"
  then show "\<exists>q'. mq_send q x = Inr q' \<and> mq_inv c q'
      \<and> mq_items q' = last_n c (mq_items q @ [x])"
    using SendMessage_latest [of c q x] by (auto simp: mq_send_def)
next
  fix c l q x xs
  assume q: "mq_inv c q" "mq_items q = x # xs"
  then have "nSize q \<noteq> 0"
    using mq_items_Nil [OF q(1)] by simp
  then show "\<exists>q'. mq_recv now ms q = Inr (Some x, q') \<and> mq_inv c q' \<and> mq_items q' = xs"
    using takeMessage_oldest [OF q] by (auto simp: mq_recv_def ReceiveMessageTimeout_def)
next
  fix c l q
  assume q: "mq_inv c q" "mq_items q = []"
  then have "nSize q = 0"
    using mq_items_Nil [OF q(1)] by simp
  then show "\<exists>q'. mq_recv now ms q = Inr (None, q') \<and> mq_inv c q' \<and> mq_items q' = []"
    using q by (simp add: mq_recv_def ReceiveMessageTimeout_def)
qed

text \<open>
  The circular queue of the uploader under \<open>TSQ_FIX_LENGTH_CAN_OVERWRITE\<close> keeps the same
  contract when nothing was lost before (after an overwrite \<open>PopQueue\<close> only reports it).
  Its receiver is the part of \<open>PopQueueWithTimeout\<close> after the wait.
\<close>

definition over_send :: "CircleQueueImp \<Rightarrow> bytes \<Rightarrow> CircleQueueImp run" where
  "over_send q d = and_then (PushQueue None q (Some d)) (\<lambda>(_, q'). Inr q')"

definition over_recv :: "CircleQueueImp \<Rightarrow> (bytes option \<times> CircleQueueImp) run" where
  "over_recv q = and_then (PopQueueWithTimeout (0, 0) (\<lambda>_ q'. (True, q')) q (Some (nItemLen q)) 0)
     (\<lambda>(r, x, q'). Inr (if r = LINK_TIMEOUT then None else Some x, q'))"

interpretation over: overwriting_fifo over_send over_recv ring_items overwrite_inv fix_fits
proof
  fix c l q x
  assume "overwrite_inv c l q" "fix_fits l x"
  then show "\<exists>q'. over_send q x = Inr q' \<and> overwrite_inv c l q'
      \<and> ring_items q' = last_n c (ring_items q @ [x])"
    using PushQueue_overwrite [of c l q x] by (auto simp: over_send_def fix_fits_def)
next
  fix c l q x xs
  assume q: "overwrite_inv c l q" and items: "ring_items q = x # xs"
  then have inv: "ring_inv q" and ne: "nLen q \<noteq> 0"
    using ring_items_Cons(1) [OF items] by (auto simp: overwrite_inv_def)
  have "length x \<le> nItemLen q"
    using ring_items_fit [OF inv items] by simp
  then show "\<exists>q'. over_recv q = Inr (Some x, q') \<and> overwrite_inv c l q' \<and> ring_items q' = xs"
    using popItem_whole [OF inv items] q ne
    by (fastforce simp: over_recv_def PopQueueWithTimeout_def overwrite_inv_def same_config_def)
next
  fix c l q
  assume "overwrite_inv c l q" and "ring_items q = []"
  then show "\<exists>q'. over_recv q = Inr (None, q') \<and> overwrite_inv c l q' \<and> ring_items q' = []"
    by (auto simp: over_recv_def PopQueueWithTimeout_def overwrite_inv_def ring_items_def
        ring_inv_def ring_shape_def ring_policy_def ring_slot_def)
qed

text \<open>
  C34: A message queue of \<open>n\<close> places behaves, for every sequence of sends and receives, as a
  list of which only the last \<open>n\<close> messages are kept: sending never fails nor blocks, the
  oldest message makes room for the newest, and what is received comes in the order of
  sending. No access leaves the array.
\<close>

theorem message_queue_keeps_latest:
  assumes new: "CreateMessageQueue True (Some junk) n = Some q" and n: "0 < n" "n < 2 ^ 31"
  shows "\<exists>q'. run_latest mq_send (mq_recv now ms) q ops = Inr (fst (spec_latest n [] ops), q')
     \<and> mq_items q' = snd (spec_latest n [] ops)"
  using mq.run_refines [OF CreateMessageQueue_new(1) [OF new n], of ops now ms]
    CreateMessageQueue_new(2) [OF new n] by auto

theorem message_queue_keeps_latest_witness:
  "\<exists>q q'. CreateMessageQueue True (Some (\<lambda>_. 0)) 2 = Some q
    \<and> run_latest mq_send (mq_recv (0, 0) 1000) q [Push 1, Push 2, Push (3 :: nat), Pop, Pop, Pop]
      = Inr ([Some 2, Some 3, None], q')"
proof -
  obtain q :: "nat MessageQueue"
    where new: "CreateMessageQueue True (Some (\<lambda>_. 0)) 2 = Some q"
    by (simp add: CreateMessageQueue_def)
  let ?ops = "[Push 1, Push 2, Push (3 :: nat), Pop, Pop, Pop]"
  have spec: "spec_latest 2 [] ?ops = ([Some 2, Some 3, None], [])"
    by (simp add: last_n_def)
  show ?thesis
    using message_queue_keeps_latest [OF new, of "(0, 0)" 1000 ?ops] new
    unfolding spec by auto
qed

text \<open>With the circular queue the statement is the same; here for pushes alone.\<close>

lemma overwriting_ring_keeps_latest:
  assumes new: "LinkNewCircleQueue True (Some junk) 0 0 True TSQ_FIX_LENGTH_CAN_OVERWRITE maxLen cnt None
      = (LINK_SUCCESS, Some q)"
    and small: "maxLen + 4 < 2 ^ 31"
    and sizes: "\<And>d. Push d \<in> set ops \<Longrightarrow> int (length d) \<le> maxLen"
  shows "\<exists>q'. run_latest over_send over_recv q ops = Inr (fst (spec_latest (nat cnt) [] ops), q')
     \<and> ring_items q' = snd (spec_latest (nat cnt) [] ops)"
proof -
  note n = LinkNewCircleQueue_ring [OF new _ _ small]
  have inv: "overwrite_inv (nat cnt) (nat maxLen + 4) q"
    using n by (simp add: overwrite_inv_def)
  have "fix_fits (nat maxLen + 4) d" if "Push d \<in> set ops" for d
    using sizes [OF that] by (auto simp: fix_fits_def)
  from over.run_refines [OF inv this] show ?thesis
    using n(2) by auto
qed

subsection \<open>Waiting and the end of the queue\<close>

text \<open>
  A receiver that waits for ever returns only with a message, or empty-handed from a queue
  marked for destruction: it is still waiting exactly as long as every state it woke up to
  was empty and valid.
\<close>

lemma receiveLoop_waits:
  "receiveLoop q wakes = None \<longleftrightarrow> (\<forall>s \<in> set (q # wakes). nSize s = 0 \<and> bIsValid s)"
proof (induction wakes arbitrary: q)
  case Nil
  then show ?case by (simp add: receiveLoop.simps)
next
  case (Cons q' wakes)
  then show ?case by (simp add: receiveLoop.simps [of q])
qed

lemma receiveLoop_returns:
  assumes "receiveLoop q wakes = Some r"
  shows "\<exists>s \<in> set (q # wakes).
    (nSize s = 0 \<and> \<not> bIsValid s \<and> r = Inr (None, s)) \<or> (nSize s \<noteq> 0 \<and> r = takeMessage s)"
  using assms
proof (induction wakes arbitrary: q)
  case Nil
  then show ?case by (auto simp: receiveLoop.simps [of q] split: if_splits)
next
  case (Cons q' wakes)
  then show ?case by (auto simp: receiveLoop.simps [of q] split: if_splits)
qed

lemma marked_queue_releases_receiver:
  assumes "destroyMark (Some s) = Some s'" and "nSize s = 0"
  shows "receiveLoop s' wakes = Some (Inr (None, s'))"
  using assms by (auto simp: destroyMark_def receiveLoop.simps [of s'])

text \<open>
  The deadline of a timed receive is the present plus the time-out, in a form
  \<open>pthread_cond_timedwait\<close> accepts, as long as the time-out is below 35 minutes. A longer
  one overflows the \<open>int\<close> product and the deadline is in the past.
\<close>

lemma receiveDeadline_exact:
  assumes now: "0 \<le> s" "s < 2 ^ 31 - 2150" "0 \<le> us" "us < 1000000"
    and ms: "0 \<le> ms" "ms \<le> 2147483"
  shows "case receiveDeadline (s, us) ms of (sec, nsec) \<Rightarrow>
    sec * 1000000000 + nsec = s * 1000000000 + us * 1000 + ms * 1000000
    \<and> 0 \<le> nsec \<and> nsec < 1000000000"
proof -
  have stb: "signed_take_bit 31 x = x" if "0 \<le> x" "x < 2 ^ 31" for x :: int
    using that by (simp add: signed_take_bit_int_eq_self)
  let ?u = "us + ms * 1000"
  have d: "?u sdiv 1000000 = ?u div 1000000" "?u smod 1000000 = ?u mod 1000000"
    using assms by (simp_all add: signed_divide_int_def signed_modulo_int_def sgn_if)
  have scale: "(d + s) * 1000000000 + m * 1000 = s * 1000000000 + us * 1000 + ms * 1000000
      \<and> 0 \<le> m * 1000 \<and> m * 1000 < 1000000000"
    if "d * 1000000 + m = us + ms * 1000" "0 \<le> m" "m < 1000000" for d m :: int
    using that by auto
  have "?u div 1000000 \<le> 2148" "0 \<le> ?u div 1000000"
    using assms by auto
  then have "receiveDeadline (s, us) ms = (?u div 1000000 + s, ?u mod 1000000 * 1000)"
    using assms by (simp add: receiveDeadline_def Let_def stb d)
  moreover have "?u div 1000000 * 1000000 + ?u mod 1000000 = ?u"
    "0 \<le> ?u mod 1000000" "?u mod 1000000 < 1000000"
    by simp_all
  ultimately show ?thesis
    using scale by (simp only: prod.case)
qed

lemma long_receive_does_not_wait:
  "receiveDeadline (1700000000, 0) 2147484 = (1699997853, -483296000)"
  by (simp add: receiveDeadline_def)

end
