(* ===== verification/Recycle.thy ===== *)
theory Recycle
  imports CircleQueue
begin

section \<open>Deferred destruction (libtsuploader/resource.c)\<close>

text \<open>
  Destroying an uploader waits for its threads, so the library does not do it in the thread
  of the application: the object, which starts with the function to call on it, is pushed to
  a queue, and the thread \<open>recycle\<close> takes the objects out and calls their functions. The
  queue is the circular queue of \<^verbatim>\<open>queue.c\<close> and holds addresses of eight bytes.

  The steps of the thread and of its clients are interleaved by \<open>recycle_step\<close>; the
  statement blocks between two accesses to the queue or to \<open>nQuit_\<close> are the steps.
\<close>

record ResourceMgr =
  pMgrQueue :: "CircleQueueImp option"
  nQuit :: bool
  nIsStarted :: bool

definition manager0 :: ResourceMgr where
  "manager0 = \<lparr>pMgrQueue = None, nQuit = False, nIsStarted = False\<rparr>"

text \<open>An address as it lies in memory, and back.\<close>

definition ptr_bytes :: "u64 \<Rightarrow> bytes" where
  "ptr_bytes p = map (\<lambda>i. ucast (drop_bit (8 * i) p)) [0..<8]"

definition bytes_ptr :: "bytes \<Rightarrow> u64" where
  "bytes_ptr bs = foldr (\<lambda>b acc. push_bit 8 acc OR ucast b) bs 0"

lemma length_ptr_bytes [simp]: "length (ptr_bytes p) = 8"
  by (simp add: ptr_bytes_def)

lemma bit_bytes_ptr:
  "n < 64 \<Longrightarrow> bit (bytes_ptr bs) n \<longleftrightarrow> n div 8 < length bs \<and> bit (bs ! (n div 8)) (n mod 8)"
proof (induction bs arbitrary: n)
  case Nil
  then show ?case by (simp add: bytes_ptr_def)
next
  case (Cons b bs)
  have step: "bytes_ptr (b # bs) = push_bit 8 (bytes_ptr bs) OR ucast b"
    by (simp add: bytes_ptr_def)
  show ?case
  proof (cases "n < 8")
    case True
    then show ?thesis
      using Cons.prems by (simp add: step bit_or_iff bit_push_bit_iff bit_ucast_iff)
  next
    case False
    then obtain m where m: "n = m + 8"
      by (metis add.commute le_add_diff_inverse linorder_not_less)
    have div: "(m + 8) div 8 = Suc (m div 8)" by simp
    have "bit (bytes_ptr (b # bs)) n = bit (bytes_ptr bs) m"
      using False Cons.prems m
      by (auto simp: step bit_or_iff bit_push_bit_iff bit_ucast_iff dest: bit_imp_le_length)
    also have "\<dots> = (m div 8 < length bs \<and> bit (bs ! (m div 8)) (m mod 8))"
      using Cons.IH [of m] Cons.prems m by simp
    finally show ?thesis
      using m by (simp add: div)
  qed
qed

lemma bytes_ptr_ptr_bytes [simp]: "bytes_ptr (ptr_bytes p) = p"
proof (rule bit_word_eqI)
  fix n
  assume "n < LENGTH(64)"
  then have "n < 64" "n div 8 < 8" "n mod 8 < 8" by auto
  then show "bit (bytes_ptr (ptr_bytes p)) n = bit p n"
    by (simp add: bit_bytes_ptr ptr_bytes_def bit_ucast_iff bit_drop_bit_eq)
qed

subsection \<open>The interface\<close>

definition LinkPushFunction :: "ResourceMgr \<Rightarrow> u64 \<Rightarrow> (int \<times> ResourceMgr) run" where
  "LinkPushFunction m pAsync =
     (if \<not> nIsStarted m then Inr (-1, m)
      else (case pMgrQueue m of
          None \<Rightarrow> Inl Null_deref
        | Some q \<Rightarrow> and_then (PushQueue None q (Some (ptr_bytes pAsync)))
            (\<lambda>(ret, q'). Inr (ret, m\<lparr>pMgrQueue := Some q'\<rparr>))))"

text \<open>
  The arguments of \<open>LinkStartMgr\<close> are the answers of the allocator, of the initialisation of
  mutex and condition variable, and of \<open>pthread_create\<close>; the last component of the result
  says whether a thread was created.
\<close>

definition LinkStartMgr ::
    "bool \<Rightarrow> heap_answer \<Rightarrow> int \<Rightarrow> int \<Rightarrow> int \<Rightarrow> ResourceMgr \<Rightarrow> int \<times> ResourceMgr \<times> bool" where
  "LinkStartMgr structOk mem mutexRet condRet createRet m =
     (if nIsStarted m then (LINK_SUCCESS, m, False)
      else
        (case LinkNewCircleQueue structOk mem mutexRet condRet True TSQ_FIX_LENGTH 8 100 None of
           (ret, queue) \<Rightarrow>
             if ret \<noteq> 0 then (ret, m, False)
             else if createRet \<noteq> 0
               then (LINK_THREAD_ERROR, m\<lparr>pMgrQueue := queue, nIsStarted := False\<rparr>, False)
             else (LINK_SUCCESS, m\<lparr>pMgrQueue := queue, nIsStarted := True\<rparr>, True)))"

text \<open>\<open>LinkStopMgr\<close> up to \<open>pthread_join\<close>, in its two accesses to shared state, and after it.\<close>

definition stopMgr_quit :: "ResourceMgr \<Rightarrow> ResourceMgr" where
  "stopMgr_quit m = m\<lparr>nQuit := True\<rparr>"

definition stopMgr_notify :: "ResourceMgr \<Rightarrow> ResourceMgr run" where
  "stopMgr_notify m =
     (if nIsStarted m then and_then (LinkPushFunction m 0) (\<lambda>(_, m'). Inr m') else Inr m)"

definition stopMgr_joined :: "ResourceMgr \<Rightarrow> ResourceMgr" where
  "stopMgr_joined m =
     (if nIsStarted m
        then m\<lparr>nIsStarted := False, pMgrQueue := fst (snd (LinkDestroyQueue (pMgrQueue m)))\<rparr>
      else m)"

subsection \<open>The thread\<close>

text \<open>
  Where the thread is: before its first statement, at the loop condition with the length it
  read last, before the pop, in the function of an object, or at its end.
\<close>

datatype recycler = Starting | Checking int | Popping | Calling u64 | Gone

definition mgrLen :: "ResourceMgr \<Rightarrow> int run" where
  "mgrLen m = (case pMgrQueue m of None \<Rightarrow> Inl Null_deref
     | Some q \<Rightarrow> Inr (nStatLen (getStatInfo q zeroStatInfo)))"

definition recycle_check :: "ResourceMgr \<Rightarrow> int \<Rightarrow> recycler" where
  "recycle_check m infoLen = (if \<not> nQuit m \<or> infoLen \<noteq> 0 then Popping else Gone)"

text \<open>
  One pop, with the \<open>GetStatInfo\<close> after it. On an empty queue it waits up to a day; \<open>timedout\<close>
  says whether the wait ends by the time-out or for another reason. A push during the wait
  is a push before the pop.
\<close>

definition recycle_pop :: "int \<times> int \<Rightarrow> bool \<Rightarrow> ResourceMgr \<Rightarrow> (recycler \<times> ResourceMgr) run" where
  "recycle_pop now timedout m =
     (case pMgrQueue m of
        None \<Rightarrow> Inl Null_deref
      | Some q \<Rightarrow>
          and_then (PopQueueWithTimeout now (\<lambda>_ q'. (timedout, q')) q (Some 8)
              (24 * 60 * 60 * 1000000)) (\<lambda>(ret, out, q').
          let m' = m\<lparr>pMgrQueue := Some q'\<rparr>; pAsync = bytes_ptr out in
          and_then (mgrLen m') (\<lambda>infoLen.
            Inr (if ret = LINK_TIMEOUT then Checking infoLen
                 else if ret = 8 \<and> pAsync \<noteq> 0 then Calling pAsync
                 else Checking infoLen, m'))))"

subsection \<open>Runs\<close>

datatype stop_stage = Not_stopping | Quit_set | Notified | Stopped

record RecycleSys =
  mgr :: ResourceMgr
  thread :: recycler
  stage :: stop_stage
  accepted :: "u64 list"
  called :: "u64 list"

text \<open>
  Anybody may push, also a function the thread is just calling (the destruction of an
  uploader pushes its picture uploader). One client stops the manager.
\<close>

inductive recycle_step :: "RecycleSys \<Rightarrow> RecycleSys \<Rightarrow> bool" where
  push: "LinkPushFunction (mgr s) p = Inr (ret, m') \<Longrightarrow> p \<noteq> 0 \<Longrightarrow>
    recycle_step s (s\<lparr>mgr := m',
      accepted := (if 0 < ret then accepted s @ [p] else accepted s)\<rparr>)"
| start: "thread s = Starting \<Longrightarrow> mgrLen (mgr s) = Inr n \<Longrightarrow>
    recycle_step s (s\<lparr>thread := Checking n\<rparr>)"
| check: "thread s = Checking n \<Longrightarrow>
    recycle_step s (s\<lparr>thread := recycle_check (mgr s) n\<rparr>)"
| pop: "thread s = Popping \<Longrightarrow> recycle_pop now timedout (mgr s) = Inr (t', m') \<Longrightarrow>
    recycle_step s (s\<lparr>mgr := m', thread := t'\<rparr>)"
| return: "thread s = Calling p \<Longrightarrow> mgrLen (mgr s) = Inr n \<Longrightarrow>
    recycle_step s (s\<lparr>thread := Checking n, called := called s @ [p]\<rparr>)"
| quit: "stage s = Not_stopping \<Longrightarrow>
    recycle_step s (s\<lparr>mgr := stopMgr_quit (mgr s), stage := Quit_set\<rparr>)"
| notify: "stage s = Quit_set \<Longrightarrow> stopMgr_notify (mgr s) = Inr m' \<Longrightarrow>
    recycle_step s (s\<lparr>mgr := m', stage := Notified\<rparr>)"
| joined: "stage s = Notified \<Longrightarrow> thread s = Gone \<Longrightarrow>
    recycle_step s (s\<lparr>mgr := stopMgr_joined (mgr s), stage := Stopped\<rparr>)"

inductive recycle_reach :: "RecycleSys \<Rightarrow> bool" where
  started: "LinkStartMgr True (Some junk) 0 0 0 manager0 = (LINK_SUCCESS, m, True) \<Longrightarrow>
    recycle_reach \<lparr>mgr = m, thread = Starting, stage = Not_stopping, accepted = [], called = []\<rparr>"
| step: "recycle_reach s \<Longrightarrow> recycle_step s s' \<Longrightarrow> recycle_reach s'"

text \<open>The objects in the queue and in the hands of the thread.\<close>

definition queued :: "RecycleSys \<Rightarrow> u64 list" where
  "queued s = (case pMgrQueue (mgr s) of None \<Rightarrow> [] | Some q \<Rightarrow> map bytes_ptr (ring_items q))"

definition in_call :: "recycler \<Rightarrow> u64 list" where
  "in_call t = (case t of Calling p \<Rightarrow> [p] | _ \<Rightarrow> [])"

subsection \<open>What the queue operations do\<close>

definition addresses :: "CircleQueueImp \<Rightarrow> u64 list" where
  "addresses q = map bytes_ptr (ring_items q)"

definition mgr_queue :: "CircleQueueImp \<Rightarrow> bool" where
  "mgr_queue q \<longleftrightarrow> fix_inv 100 12 q \<and> (\<forall>d \<in> set (ring_items q). length d = 8)"

lemma mgr_queue_length: "mgr_queue q \<Longrightarrow> length (addresses q) = nLen q"
  by (simp add: addresses_def)

lemma push_address:
  assumes "mgr_queue q"
  obtains ret q' where "PushQueue None q (Some (ptr_bytes p)) = Inr (ret, q')" "mgr_queue q'"
    "addresses q' = (if 0 < ret then addresses q @ [p] else addresses q)"
    "nLen q \<le> nLen q'" "nLen q' \<noteq> 0"
proof (cases "length (ring_items q) < 100")
  case True
  obtain q' where q': "fix_push q (ptr_bytes p) = Inr (8, q')" "fix_inv 100 12 q'"
    "ring_items q' = ring_items q @ [ptr_bytes p]"
    using fix_queue.push_room [of 100 12 q "ptr_bytes p"] True assms
    by (auto simp: mgr_queue_def fix_fits_def)
  have "mgr_queue q'" using assms q' by (auto simp: mgr_queue_def)
  moreover have "nLen q' = Suc (nLen q)"
    using q'(3) by (metis length_append_singleton length_ring_items)
  ultimately show thesis
    using that [of 8 q'] q' by (simp add: fix_push_def addresses_def)
next
  case False
  then have "fix_push q (ptr_bytes p) = Inr (LINK_Q_OVERFLOW, q)"
    using fix_queue.push_full [of 100 12 q "ptr_bytes p"] assms
    by (simp add: mgr_queue_def fix_fits_def)
  then show thesis
    using that [of LINK_Q_OVERFLOW q] assms False by (simp add: fix_push_def)
qed

lemma pop_address:
  assumes q: "mgr_queue q" and ne: "nLen q \<noteq> 0"
  obtains out q' where "PopQueueWithTimeout now w q (Some 8) us = Inr (8, out, q')"
    "addresses q = bytes_ptr out # addresses q'" "mgr_queue q'" "nLen q = Suc (nLen q')"
proof -
  obtain x xs where items: "ring_items q = x # xs"
    using ne length_ring_items [of q] by (cases "ring_items q") auto
  have inv: "fix_inv 100 12 q" "ring_inv q" and x: "length x = 8"
    using q items by (auto simp: mgr_queue_def fix_inv_def)
  obtain q' where q': "popItem q 8 = Inr (8, x, q')" "ring_inv q'" "ring_items q' = xs"
    "same_config q q'"
    using popItem_whole [OF inv(2) items, of 8] x by auto
  have "PopQueueWithTimeout now w q (Some 8) us = Inr (8, x, q')"
    using inv(1) ne q'(1) by (simp add: PopQueueWithTimeout_def fix_inv_def)
  moreover have "mgr_queue q'"
    using q inv(1) q' items by (auto simp: mgr_queue_def fix_inv_def same_config_def)
  moreover have "nLen q = Suc (nLen q')"
    using items q'(3) by (metis length_Cons length_ring_items)
  ultimately show thesis
    using that items q'(3) by (simp add: addresses_def)
qed

lemma pop_nothing:
  assumes q: "mgr_queue q" and ne: "nLen q = 0"
  obtains ret q' where
    "PopQueueWithTimeout now (\<lambda>_ q'. (timedout, q')) q (Some 8) us = Inr (ret, [], q')"
    "ret \<noteq> 8" "mgr_queue q'" "nLen q' = 0" "addresses q' = []"
proof -
  have inv: "fix_inv 100 12 q" "ring_items q = []"
    using q ne by (simp_all add: mgr_queue_def ring_items_def)
  define q' where "q' = (if timedout then q\<lparr>isWait := False, nQState := QUEUE_TIMEOUT_STATE\<rparr>
    else q\<lparr>isWait := False\<rparr>)"
  have inv': "ring_items q' = []" "fix_inv 100 12 q'"
    using inv by (auto simp: q'_def fix_inv_def ring_items_def ring_inv_def ring_shape_def
        ring_policy_def ring_slot_def)
  moreover have "PopQueueWithTimeout now (\<lambda>_ q'. (timedout, q')) q (Some 8) us
      = Inr (if timedout then LINK_TIMEOUT else 0, [], q')"
    using inv(1) ne by (simp add: PopQueueWithTimeout_def fix_inv_def q'_def)
  moreover have "nLen q' = 0"
    using ne by (simp add: q'_def)
  ultimately show thesis
    using that by (simp add: mgr_queue_def addresses_def)
qed

subsection \<open>The invariant\<close>

definition live_inv :: "RecycleSys \<Rightarrow> CircleQueueImp \<Rightarrow> bool" where
  "live_inv s q \<longleftrightarrow> pMgrQueue (mgr s) = Some q \<and> mgr_queue q \<and> nIsStarted (mgr s)
     \<and> nQuit (mgr s) = (stage s \<noteq> Not_stopping)
     \<and> accepted s = called s @ in_call (thread s) @ filter (\<lambda>p. p \<noteq> 0) (addresses q)
     \<and> (\<forall>n. thread s = Checking n \<longrightarrow> 0 \<le> n \<and> n \<le> int (nLen q))
     \<and> (thread s = Popping \<and> stage s = Notified \<longrightarrow> nLen q \<noteq> 0)"

definition recycle_inv :: "RecycleSys \<Rightarrow> bool" where
  "recycle_inv s \<longleftrightarrow> (if stage s = Stopped
     then thread s = Gone \<and> \<not> nIsStarted (mgr s) \<and> (\<exists>rest. accepted s = called s @ rest)
     else \<exists>q. live_inv s q)"

lemma mgrLen_live: "live_inv s q \<Longrightarrow> mgrLen (mgr s) = Inr (int (nLen q))"
  by (simp add: live_inv_def mgrLen_def getStatInfo_def)

lemma LinkPushFunction_live:
  assumes "live_inv s q"
  obtains ret q' where "LinkPushFunction (mgr s) p = Inr (ret, (mgr s)\<lparr>pMgrQueue := Some q'\<rparr>)"
    "mgr_queue q'" "addresses q' = (if 0 < ret then addresses q @ [p] else addresses q)"
    "nLen q \<le> nLen q'" "nLen q' \<noteq> 0"
proof -
  have q: "mgr_queue q" "pMgrQueue (mgr s) = Some q" "nIsStarted (mgr s)"
    using assms by (simp_all add: live_inv_def)
  obtain ret q' where r: "PushQueue None q (Some (ptr_bytes p)) = Inr (ret, q')" "mgr_queue q'"
    "addresses q' = (if 0 < ret then addresses q @ [p] else addresses q)"
    "nLen q \<le> nLen q'" "nLen q' \<noteq> 0"
    using push_address [OF q(1)] by blast
  have "LinkPushFunction (mgr s) p = Inr (ret, (mgr s)\<lparr>pMgrQueue := Some q'\<rparr>)"
    by (simp add: LinkPushFunction_def q r(1))
  then show thesis
    using that r(2-) by blast
qed

lemma recycle_pop_live:
  assumes "live_inv s q"
  obtains t' q' where "recycle_pop now timedout (mgr s) = Inr (t', (mgr s)\<lparr>pMgrQueue := Some q'\<rparr>)"
    "mgr_queue q'" "in_call t' @ filter (\<lambda>p. p \<noteq> 0) (addresses q')
      = filter (\<lambda>p. p \<noteq> 0) (addresses q)"
    "t' = Checking (int (nLen q')) \<or> (\<exists>p. t' = Calling p)"
    "nLen q' = nLen q - 1"
proof (cases "nLen q = 0")
  case True
  have q: "mgr_queue q" "pMgrQueue (mgr s) = Some q"
    using assms by (simp_all add: live_inv_def)
  obtain ret q' where r:
    "PopQueueWithTimeout now (\<lambda>_ q'. (timedout, q')) q (Some 8) (24 * 60 * 60 * 1000000)
      = Inr (ret, [], q')" "ret \<noteq> 8" "mgr_queue q'" "nLen q' = 0" "addresses q' = []"
    using pop_nothing [OF q(1) True] by blast
  have "recycle_pop now timedout (mgr s)
      = Inr (Checking (int (nLen q')), (mgr s)\<lparr>pMgrQueue := Some q'\<rparr>)"
    using q(2) r(1,2) by (simp add: recycle_pop_def mgrLen_def getStatInfo_def Let_def)
  then show thesis
    using that [of "Checking (int (nLen q'))" q'] r True mgr_queue_length [OF q(1)]
    by (simp add: in_call_def)
next
  case False
  have q: "mgr_queue q" "pMgrQueue (mgr s) = Some q"
    using assms by (simp_all add: live_inv_def)
  obtain out q' where r:
    "PopQueueWithTimeout now (\<lambda>_ q'. (timedout, q')) q (Some 8) (24 * 60 * 60 * 1000000)
      = Inr (8, out, q')"
    "addresses q = bytes_ptr out # addresses q'" "mgr_queue q'" "nLen q = Suc (nLen q')"
    using pop_address [OF q(1) False] by blast
  let ?t = "if bytes_ptr out \<noteq> 0 then Calling (bytes_ptr out) else Checking (int (nLen q'))"
  have "recycle_pop now timedout (mgr s) = Inr (?t, (mgr s)\<lparr>pMgrQueue := Some q'\<rparr>)"
    using q(2) r(1) by (simp add: recycle_pop_def mgrLen_def getStatInfo_def Let_def)
  then show thesis
  proof (rule that)
    show "mgr_queue q'" by (rule r(3))
    show "in_call ?t @ filter (\<lambda>p. p \<noteq> 0) (addresses q') = filter (\<lambda>p. p \<noteq> 0) (addresses q)"
      by (simp add: r(2) in_call_def)
    show "?t = Checking (int (nLen q')) \<or> (\<exists>p. ?t = Calling p)" by simp
    show "nLen q' = nLen q - 1" using r(4) by simp
  qed
qed

inductive_cases recycle_stepE: "recycle_step s s'"

lemma recycle_inv_started:
  assumes "LinkStartMgr True (Some junk) 0 0 0 manager0 = (LINK_SUCCESS, m, True)"
  shows "recycle_inv \<lparr>mgr = m, thread = Starting, stage = Not_stopping, accepted = [], called = []\<rparr>"
proof -
  obtain q where new: "LinkNewCircleQueue True (Some junk) 0 0 True TSQ_FIX_LENGTH 8 100 None
      = (LINK_SUCCESS, Some q)"
    by (simp add: LinkNewCircleQueue_def)
  note n = LinkNewCircleQueue_ring [OF new]
  have "m = \<lparr>pMgrQueue = Some q, nQuit = False, nIsStarted = True\<rparr>"
    using assms new by (simp add: LinkStartMgr_def manager0_def)
  moreover have "mgr_queue q"
    using n by (simp add: mgr_queue_def fix_inv_def)
  ultimately have "live_inv \<lparr>mgr = m, thread = Starting, stage = Not_stopping, accepted = [],
      called = []\<rparr> q"
    using n by (simp add: live_inv_def addresses_def in_call_def)
  then show ?thesis
    by (auto simp: recycle_inv_def)
qed

lemma recycle_inv_live:
  assumes "stage s \<noteq> Stopped" and "recycle_inv s"
  obtains q where "live_inv s q"
  using assms by (auto simp: recycle_inv_def)

lemma recycle_inv_step:
  assumes inv: "recycle_inv s" and step: "recycle_step s s'"
  shows "recycle_inv s'"
proof (cases "stage s = Stopped")
  case True
  then show ?thesis
    using step inv
    by (cases rule: recycle_stepE) (auto simp: recycle_inv_def LinkPushFunction_def)
next
  case False
  then obtain q where live: "live_inv s q" using inv by (rule recycle_inv_live)
  note len = mgrLen_live [OF live]
  show ?thesis
    using step
  proof (cases rule: recycle_step.cases)
    case (push p ret m')
    obtain r q' where "LinkPushFunction (mgr s) p = Inr (r, (mgr s)\<lparr>pMgrQueue := Some q'\<rparr>)"
      "mgr_queue q'" "addresses q' = (if 0 < r then addresses q @ [p] else addresses q)"
      "nLen q \<le> nLen q'" "nLen q' \<noteq> 0"
      using LinkPushFunction_live [OF live] by blast
    moreover from this push have "r = ret" "m' = (mgr s)\<lparr>pMgrQueue := Some q'\<rparr>" by simp_all
    ultimately have "live_inv s' q'"
      using live push(1,3) by (auto simp: live_inv_def)
    then show ?thesis
      using False push by (auto simp: recycle_inv_def)
  next
    case (start n)
    then have "live_inv s' q" using live len by (auto simp: live_inv_def in_call_def)
    then show ?thesis using False start by (auto simp: recycle_inv_def)
  next
    case (check n)
    then have "live_inv s' q"
      using live by (auto simp: live_inv_def recycle_check_def in_call_def)
    then show ?thesis using False check by (auto simp: recycle_inv_def)
  next
    case (pop now timedout t' m')
    obtain u q' where r: "recycle_pop now timedout (mgr s) = Inr (u, (mgr s)\<lparr>pMgrQueue := Some q'\<rparr>)"
      "mgr_queue q'" "in_call u @ filter (\<lambda>p. p \<noteq> 0) (addresses q')
        = filter (\<lambda>p. p \<noteq> 0) (addresses q)"
      "u = Checking (int (nLen q')) \<or> (\<exists>p. u = Calling p)" "nLen q' = nLen q - 1"
      by (rule recycle_pop_live [OF live])
    then have eqs: "t' = u" "m' = (mgr s)\<lparr>pMgrQueue := Some q'\<rparr>"
      using pop by simp_all
    have acc: "accepted s = called s @ filter (\<lambda>p. p \<noteq> 0) (addresses q)"
      using live pop(2) by (simp add: live_inv_def in_call_def)
    have "live_inv s' q'"
      using live r(2-4) acc by (auto simp: live_inv_def pop(1) eqs)
    then show ?thesis using False pop(1) by (auto simp: recycle_inv_def)
  next
    case (return p n)
    then have "live_inv s' q" using live len by (auto simp: live_inv_def in_call_def)
    then show ?thesis using False return by (auto simp: recycle_inv_def)
  next
    case quit
    then have "live_inv s' q" using live by (auto simp: live_inv_def stopMgr_quit_def)
    then show ?thesis using quit by (auto simp: recycle_inv_def)
  next
    case (notify m')
    obtain r q' where "LinkPushFunction (mgr s) 0 = Inr (r, (mgr s)\<lparr>pMgrQueue := Some q'\<rparr>)"
      "mgr_queue q'" "addresses q' = (if 0 < r then addresses q @ [0] else addresses q)"
      "nLen q \<le> nLen q'" "nLen q' \<noteq> 0"
      using LinkPushFunction_live [OF live] by blast
    moreover from this notify live have "m' = (mgr s)\<lparr>pMgrQueue := Some q'\<rparr>"
      by (simp add: stopMgr_notify_def live_inv_def)
    ultimately have "live_inv s' q'"
      using live notify(1,2) by (auto simp: live_inv_def)
    then show ?thesis using notify by (auto simp: recycle_inv_def)
  next
    case joined
    then show ?thesis
      using live by (auto simp: recycle_inv_def live_inv_def stopMgr_joined_def in_call_def)
  qed
qed

lemma recycle_inv_reach: "recycle_reach s \<Longrightarrow> recycle_inv s"
  by (induction rule: recycle_reach.induct)
    (auto intro: recycle_inv_started recycle_inv_step)

subsection \<open>Properties\<close>

text \<open>
  C31: Every object that \<open>LinkPushFunction\<close> accepted has its function called at most once and
  in the order of the pushes: at any moment the accepted objects are those already called,
  the one being called, and, as long as the queue exists, exactly those still in the queue.
\<close>

theorem functions_called_in_order:
  assumes "recycle_reach s"
  shows "\<exists>rest. accepted s = called s @ in_call (thread s) @ rest
     \<and> (stage s \<noteq> Stopped \<longrightarrow> rest = filter (\<lambda>p. p \<noteq> 0) (queued s))"
  using recycle_inv_reach [OF assms]
  by (auto simp: recycle_inv_def live_inv_def queued_def addresses_def in_call_def
      split: if_splits)

text \<open>No step of the thread or of a client faults before the manager has stopped.\<close>

lemma recycler_never_faults:
  assumes "recycle_reach s" and "stage s \<noteq> Stopped"
  shows "\<exists>r m'. LinkPushFunction (mgr s) p = Inr (r, m')"
    and "\<exists>t m'. recycle_pop now timedout (mgr s) = Inr (t, m')"
    and "\<exists>n. mgrLen (mgr s) = Inr n" and "\<exists>m'. stopMgr_notify (mgr s) = Inr m'"
proof -
  obtain q where live: "live_inv s q"
    using recycle_inv_live [OF assms(2) recycle_inv_reach [OF assms(1)]] .
  show push: "\<exists>r m'. LinkPushFunction (mgr s) p = Inr (r, m')" for p
    by (rule LinkPushFunction_live [OF live, of p]) blast
  show "\<exists>t m'. recycle_pop now timedout (mgr s) = Inr (t, m')"
    by (rule recycle_pop_live [OF live, of now timedout]) blast
  show "\<exists>n. mgrLen (mgr s) = Inr n"
    using mgrLen_live [OF live] by blast
  show "\<exists>m'. stopMgr_notify (mgr s) = Inr m'"
    using push [of 0] by (auto simp: stopMgr_notify_def)
qed

text \<open>
  The thread on its own: the turn it takes when nobody else acts. A called function that
  pushes nothing leaves the queue alone.
\<close>

definition recycler_turn :: "RecycleSys \<Rightarrow> RecycleSys run" where
  "recycler_turn s =
     (case thread s of
        Starting \<Rightarrow> and_then (mgrLen (mgr s)) (\<lambda>n. Inr (s\<lparr>thread := Checking n\<rparr>))
      | Checking n \<Rightarrow> Inr (s\<lparr>thread := recycle_check (mgr s) n\<rparr>)
      | Popping \<Rightarrow> and_then (recycle_pop (0, 0) False (mgr s))
          (\<lambda>(t', m'). Inr (s\<lparr>mgr := m', thread := t'\<rparr>))
      | Calling p \<Rightarrow> and_then (mgrLen (mgr s))
          (\<lambda>n. Inr (s\<lparr>thread := Checking n, called := called s @ [p]\<rparr>))
      | Gone \<Rightarrow> Inr s)"

primrec recycler_turns :: "nat \<Rightarrow> RecycleSys \<Rightarrow> RecycleSys run" where
  "recycler_turns 0 s = Inr s"
| "recycler_turns (Suc n) s = and_then (recycler_turn s) (recycler_turns n)"

definition turns_left :: "RecycleSys \<Rightarrow> nat" where
  "turns_left s = 3 * length (queued s) + (case thread s of
     Starting \<Rightarrow> 2 | Checking n \<Rightarrow> 1 | Popping \<Rightarrow> 0 | Calling p \<Rightarrow> 2 | Gone \<Rightarrow> 0)"

lemma live_turns_left:
  "live_inv s q \<Longrightarrow> turns_left s = 3 * nLen q + (case thread s of
     Starting \<Rightarrow> 2 | Checking n \<Rightarrow> 1 | Popping \<Rightarrow> 0 | Calling p \<Rightarrow> 2 | Gone \<Rightarrow> 0)"
  by (simp add: live_inv_def turns_left_def queued_def)

lemma recycler_turn_step:
  assumes live: "live_inv s q" and st: "stage s = Notified" and "thread s \<noteq> Gone"
  shows "\<exists>s'. recycler_turn s = Inr s' \<and> recycle_step s s' \<and> turns_left s' < turns_left s
    \<and> stage s' = Notified"
proof (cases "thread s")
  case Starting
  then show ?thesis
    using mgrLen_live [OF live] st
    by (auto simp: recycler_turn_def turns_left_def queued_def intro: recycle_step.start)
next
  case (Checking n)
  then show ?thesis
    using st recycle_step.check [OF Checking]
    by (auto simp: recycler_turn_def turns_left_def queued_def recycle_check_def)
next
  case Popping
  obtain t' q' where r: "recycle_pop (0, 0) False (mgr s) = Inr (t', (mgr s)\<lparr>pMgrQueue := Some q'\<rparr>)"
    "t' = Checking (int (nLen q')) \<or> (\<exists>p. t' = Calling p)" "nLen q' = nLen q - 1"
    by (rule recycle_pop_live [OF live, of "(0, 0)" False])
  let ?s = "s\<lparr>mgr := (mgr s)\<lparr>pMgrQueue := Some q'\<rparr>, thread := t'\<rparr>"
  have "nLen q \<noteq> 0"
    using live Popping st by (simp add: live_inv_def)
  then have "turns_left ?s < turns_left s"
    using live_turns_left [OF live] r(2,3) Popping by (auto simp: turns_left_def queued_def)
  moreover have "recycler_turn s = Inr ?s"
    using Popping r(1) by (simp add: recycler_turn_def)
  ultimately show ?thesis
    using recycle_step.pop [OF Popping r(1)] st by auto
next
  case (Calling p)
  then show ?thesis
    using mgrLen_live [OF live] st
    by (auto simp: recycler_turn_def turns_left_def queued_def intro: recycle_step.return)
next
  case Gone
  then show ?thesis using assms(3) by simp
qed

text \<open>
  C32: Once \<open>LinkStopMgr\<close> has set \<open>nQuit_\<close> and pushed its empty object, the thread ends, so that
  the join returns: left to itself it takes at most three turns for each object in the queue
  and two more, and never waits for the queue. Before that it calls the functions it takes out.
\<close>

theorem recycler_ends:
  assumes "recycle_reach s" and "stage s = Notified"
  shows "\<exists>n s'. n \<le> 3 * length (queued s) + 2 \<and> recycler_turns n s = Inr s'
     \<and> recycle_reach s' \<and> thread s' = Gone"
proof -
  have "\<exists>n s'. n \<le> turns_left s \<and> recycler_turns n s = Inr s' \<and> recycle_reach s'
      \<and> thread s' = Gone"
    using assms
  proof (induction "turns_left s" arbitrary: s rule: less_induct)
    case less
    show ?case
    proof (cases "thread s = Gone")
      case True
      then show ?thesis
        using less.prems(1) by (intro exI [of _ 0] exI [of _ s]) simp
    next
      case False
      have "stage s \<noteq> Stopped" using less.prems(2) by simp
      then obtain q where "live_inv s q"
        using recycle_inv_live recycle_inv_reach [OF less.prems(1)] by blast
      then obtain s1 where s1: "recycler_turn s = Inr s1" "recycle_step s s1"
        "turns_left s1 < turns_left s" "stage s1 = Notified"
        using recycler_turn_step less.prems(2) False by blast
      obtain n s' where "n \<le> turns_left s1" "recycler_turns n s1 = Inr s'" "recycle_reach s'"
        "thread s' = Gone"
        using less.hyps [OF s1(3) recycle_reach.step [OF less.prems(1) s1(2)] s1(4)] by blast
      then show ?thesis
        using s1(1,3) by (intro exI [of _ "Suc n"] exI [of _ s']) simp
    qed
  qed
  moreover have "turns_left s \<le> 3 * length (queued s) + 2"
    by (simp add: turns_left_def split: recycler.split)
  ultimately show ?thesis
    using order_trans by blast
qed

subsection \<open>A run, and what it shows\<close>

lemma started_system:
  obtains s q where "recycle_reach s" "thread s = Starting" "stage s = Not_stopping"
    "accepted s = []" "called s = []" "live_inv s q" "nLen q = 0"
proof -
  obtain m where m: "LinkStartMgr True (Some (\<lambda>_. 0)) 0 0 0 manager0 = (LINK_SUCCESS, m, True)"
    by (simp add: LinkStartMgr_def LinkNewCircleQueue_def manager0_def)
  let ?s = "\<lparr>mgr = m, thread = Starting, stage = Not_stopping, accepted = [], called = []\<rparr>"
  have reach: "recycle_reach ?s" by (rule recycle_reach.started [OF m])
  obtain q where live: "live_inv ?s q"
    using recycle_inv_live [OF _ recycle_inv_reach [OF reach]] by auto
  have "nLen q = 0"
    using live m by (auto simp: live_inv_def LinkStartMgr_def LinkNewCircleQueue_def manager0_def)
  then show thesis
    using that [OF reach _ _ _ _ live] by simp
qed

lemma push_accepted:
  assumes "recycle_reach s" and live: "live_inv s q" and "nLen q = 0" "p \<noteq> 0" "stage s \<noteq> Stopped"
  obtains s' q' where "recycle_reach s'" "live_inv s' q'" "accepted s' = accepted s @ [p]"
    "thread s' = thread s" "stage s' = stage s" "called s' = called s"
proof -
  obtain ret q' where r: "LinkPushFunction (mgr s) p = Inr (ret, (mgr s)\<lparr>pMgrQueue := Some q'\<rparr>)"
    "mgr_queue q'" "addresses q' = (if 0 < ret then addresses q @ [p] else addresses q)"
    "nLen q' \<noteq> 0"
    by (rule LinkPushFunction_live [OF live, of p])
  have "0 < ret"
    using r(2-4) mgr_queue_length [of q'] mgr_queue_length [of q] assms(3) live
    by (auto simp: live_inv_def split: if_splits)
  let ?s = "s\<lparr>mgr := (mgr s)\<lparr>pMgrQueue := Some q'\<rparr>, accepted := accepted s @ [p]\<rparr>"
  have reach: "recycle_reach ?s"
    using recycle_reach.step [OF assms(1) recycle_step.push [OF r(1) assms(4)]] \<open>0 < ret\<close> by simp
  moreover obtain q'' where "live_inv ?s q''"
    using recycle_inv_live [OF _ recycle_inv_reach [OF reach]] assms(5) by auto
  ultimately show thesis
    using that [of ?s q''] by simp
qed

text \<open>
  The loop condition looks at the length read before: an object pushed after the last
  \<open>GetStatInfo\<close> and before \<open>nQuit_\<close> is set stays in the queue when the thread ends.
\<close>

lemma stop_can_skip_functions:
  assumes "p \<noteq> 0"
  shows "\<exists>s. recycle_reach s \<and> thread s = Gone \<and> accepted s = [p] \<and> called s = []"
proof -
  obtain s q where s: "recycle_reach s" "thread s = Starting" "stage s = Not_stopping"
    "accepted s = []" "called s = []" "live_inv s q" "nLen q = 0"
    by (rule started_system)
  let ?s1 = "s\<lparr>thread := Checking 0\<rparr>"
  have step1: "recycle_step s ?s1"
    using recycle_step.start [OF s(2)] mgrLen_live [OF s(6)] s(7) by simp
  have r1: "recycle_reach ?s1" by (rule recycle_reach.step [OF s(1) step1])
  have live1: "live_inv ?s1 q"
    using s by (simp add: live_inv_def in_call_def)
  obtain s2 q2 where s2: "recycle_reach s2" "accepted s2 = accepted ?s1 @ [p]"
    "thread s2 = thread ?s1" "stage s2 = stage ?s1" "called s2 = called ?s1"
    by (rule push_accepted [OF r1 live1 s(7) assms]) (simp_all add: s(3))
  let ?s3 = "s2\<lparr>mgr := stopMgr_quit (mgr s2), stage := Quit_set\<rparr>"
  have r3: "recycle_reach ?s3"
    using recycle_reach.step [OF s2(1) recycle_step.quit] s2(4) s(3) by simp
  have "recycle_reach (?s3\<lparr>thread := recycle_check (mgr ?s3) 0\<rparr>)"
    using recycle_reach.step [OF r3 recycle_step.check [of ?s3 0]] s2(3) by simp
  moreover have "recycle_check (mgr ?s3) 0 = Gone"
    by (simp add: recycle_check_def stopMgr_quit_def)
  ultimately show ?thesis
    using s2(2,5) s(4,5) by (intro exI [of _ "?s3\<lparr>thread := recycle_check (mgr ?s3) 0\<rparr>"]) simp
qed

theorem functions_called_in_order_witness:
  "\<exists>s rest. recycle_reach s \<and> accepted s = [4096] \<and> called s = [] \<and> thread s = Gone
    \<and> accepted s = called s @ in_call (thread s) @ rest"
proof -
  obtain s where s: "recycle_reach s" "thread s = Gone" "accepted s = [4096]" "called s = []"
    using stop_can_skip_functions [of 4096] by auto
  show ?thesis
    using functions_called_in_order [OF s(1)] s by blast
qed

theorem recycler_ends_witness:
  "\<exists>s n s'. recycle_reach s \<and> stage s = Notified \<and> recycler_turns n s = Inr s'
    \<and> thread s' = Gone"
proof -
  obtain s q where s: "recycle_reach s" "thread s = Starting" "stage s = Not_stopping"
    "accepted s = []" "called s = []" "live_inv s q" "nLen q = 0"
    by (rule started_system)
  let ?s1 = "s\<lparr>mgr := stopMgr_quit (mgr s), stage := Quit_set\<rparr>"
  have r1: "recycle_reach ?s1"
    by (rule recycle_reach.step [OF s(1) recycle_step.quit [OF s(3)]])
  obtain m' where m': "stopMgr_notify (mgr ?s1) = Inr m'"
    using recycler_never_faults(4) [OF r1] by auto
  let ?s2 = "?s1\<lparr>mgr := m', stage := Notified\<rparr>"
  have r2: "recycle_reach ?s2"
    by (rule recycle_reach.step [OF r1 recycle_step.notify [OF _ m']]) simp
  show ?thesis
    using recycler_ends [OF r2] r2 by (intro exI [of _ ?s2]) auto
qed

subsection \<open>Initialisation and clean-up of the library (tsuploaderapi.c)\<close>

text \<open>
  \<open>nProcStatus\<close> is 0, 1 after \<open>LinkInit\<close>, 2 after \<open>LinkCleanup\<close>. \<open>timeRet\<close> is the result of
  \<open>LinkInitTime\<close> and \<open>startMgr\<close> the call of \<open>LinkStartMgr\<close> with the answers of the system.
\<close>

record LinkLibrary =
  nProcStatus :: int
  resources :: ResourceMgr

definition LinkInit ::
    "int \<Rightarrow> (ResourceMgr \<Rightarrow> int \<times> ResourceMgr \<times> bool) \<Rightarrow> LinkLibrary \<Rightarrow> int \<times> LinkLibrary" where
  "LinkInit timeRet startMgr lib =
     (if nProcStatus lib \<noteq> 0 then (LINK_SUCCESS, lib)
      else if timeRet \<noteq> 0 then (-2300, lib)
      else (case startMgr (resources lib) of
         (ret, m, _) \<Rightarrow>
           if ret \<noteq> 0 then (ret, lib\<lparr>resources := m\<rparr>)
           else (LINK_SUCCESS, lib\<lparr>resources := m, nProcStatus := 1\<rparr>)))"

definition LinkIsProcStatusQuit :: "LinkLibrary \<Rightarrow> int" where
  "LinkIsProcStatusQuit lib = (if nProcStatus lib = 2 then 1 else 0)"

text \<open>
  \<open>LinkCleanup\<close>; \<open>stopMgr\<close> is the effect of \<open>LinkStopMgr\<close>, and the result says whether the
  other parts (segment manager, MQTT client) are cleaned up after it.
\<close>

definition LinkCleanup ::
    "(ResourceMgr \<Rightarrow> ResourceMgr) \<Rightarrow> LinkLibrary \<Rightarrow> bool \<times> LinkLibrary" where
  "LinkCleanup stopMgr lib =
     (if nProcStatus lib \<noteq> 1 then (False, lib)
      else (True, lib\<lparr>nProcStatus := 2, resources := stopMgr (resources lib)\<rparr>))"

text \<open>
  After a clean-up the library cannot be used again: \<open>LinkInit\<close> reports success and starts
  nothing, and every object pushed for destruction is refused, so it is never destroyed.
  Nor would a restarted thread do anything, since \<open>nQuit_\<close> stays set.
\<close>

lemma init_after_cleanup_starts_nothing:
  assumes "LinkCleanup (stopMgr_joined \<circ> stopMgr_quit) lib = (True, lib')"
    and "nIsStarted (resources lib)"
  shows "LinkInit timeRet startMgr lib' = (LINK_SUCCESS, lib')"
    and "LinkPushFunction (resources lib') p = Inr (-1, resources lib')"
    and "recycle_check (resources lib') 0 = Gone"
  using assms
  by (auto simp: LinkCleanup_def LinkInit_def LinkPushFunction_def stopMgr_joined_def
      stopMgr_quit_def recycle_check_def split: if_splits)

end
