(* ===== verification/PicUploader.thy ===== *)
theory PicUploader
  imports TokenConfig TsUploader
begin

section \<open>Pictures (libtsuploader/picuploader.c)\<close>

text \<open>
  A picture shows what a segment begins with. When a segment starts, the upload thread asks the
  picture uploader's own thread, by a signal in a queue, to have the application take one; the
  application hands the picture over with \<open>LinkPushPicture\<close>, and the upload thread uploads it
  with the next segment by \<open>LinkUploadPicture\<close>. The thread could also upload pictures put in its
  queue, an entry nothing in the library calls.

  The signals are copied through a \<open>TSQ_FIX_LENGTH\<close> queue of 64 places, which is the list of
  signals in it (see \<open>CircleQueue.queue_is_bounded_fifo\<close>).
\<close>

datatype LinkPicUploadSignalType =
    LinkPicUploadSignalIgnore
  | LinkPicUploadSignalStop
  | LinkPicUploadGetPicSignalCallback
  | LinkPicUploadSignalUpload

record LinkPicUploadSignal =
  signalType :: LinkPicUploadSignalType
  sigData :: bytes
  sigDataLen :: int
  sigTimestamp :: int
  sigFileName :: "bytes option"

definition zeroSignal :: LinkPicUploadSignal where
  "zeroSignal = \<lparr>signalType = LinkPicUploadSignalIgnore, sigData = [], sigDataLen = 0,
     sigTimestamp = 0, sigFileName = None\<rparr>"

text \<open>
  The uploader. \<open>hasGetPic\<close> and \<open>hasStatistic\<close> say whether the application gave the callbacks;
  \<open>asked\<close> lists the names of the pictures asked for, \<open>picRefused\<close> the blocks released for want
  of room in the queue.
\<close>

record PicUploader =
  picSignals :: "LinkPicUploadSignal list"
  picQuit :: bool
  nPicCount :: int
  hasGetPic :: bool
  hasStatistic :: bool
  asked :: "(bytes \<times> int) list"
  picRefused :: nat

definition sizeof_PicSignal :: int where
  "sizeof_PicSignal = 64"

definition pushSignal :: "LinkPicUploadSignal \<Rightarrow> PicUploader \<Rightarrow> int \<times> PicUploader" where
  "pushSignal sig p =
     (if length (picSignals p) < 64 then (sizeof_PicSignal, p\<lparr>picSignals := picSignals p @ [sig]\<rparr>)
      else (LINK_Q_OVERFLOW, p))"

text \<open>\<open>newQueue\<close> and \<open>createRet\<close> are the results of \<open>LinkNewCircleQueue\<close> and \<open>pthread_create\<close>.\<close>

definition LinkNewPictureUploader ::
    "bool \<Rightarrow> int \<Rightarrow> int \<Rightarrow> bool \<Rightarrow> bool \<Rightarrow> int \<times> PicUploader option" where
  "LinkNewPictureUploader allocOk newQueue createRet getPic statCb =
     (if \<not> allocOk then (LINK_NO_MEMORY, None)
      else if newQueue \<noteq> 0 then (newQueue, None)
      else if createRet \<noteq> 0 then (LINK_THREAD_ERROR, None)
      else (LINK_SUCCESS, Some \<lparr>picSignals = [], picQuit = False, nPicCount = 0,
         hasGetPic = getPic, hasStatistic = statCb, asked = [], picRefused = 0\<rparr>))"

subsection \<open>Sending signals\<close>

definition LinkSendItIsTimeToCaptureSignal :: "PicUploader \<Rightarrow> int \<Rightarrow> int \<times> PicUploader" where
  "LinkSendItIsTimeToCaptureSignal p nSysTimestamp =
     pushSignal (zeroSignal\<lparr>signalType := LinkPicUploadGetPicSignalCallback,
       sigTimestamp := nSysTimestamp\<rparr>) p"

text \<open>
  The name and the picture are copied into one new block. When the queue is full the block is
  released; the result is \<open>LINK_SUCCESS\<close> all the same.
\<close>

definition LinkSendUploadPictureToPictureUploader ::
    "heap_answer \<Rightarrow> PicUploader \<Rightarrow> bytes \<Rightarrow> nat \<Rightarrow> bytes \<Rightarrow> nat \<Rightarrow> (int \<times> PicUploader) run" where
  "LinkSendUploadPictureToPictureUploader mem p name nameLen buf bufferLen =
     (case malloc mem (nameLen + 1 + bufferLen) of
        None \<Rightarrow> Inr (LINK_NO_MEMORY, p)
      | Some block \<Rightarrow>
          and_then (read_at 0 nameLen name) (\<lambda>nm.
          and_then (read_at 0 bufferLen buf) (\<lambda>data.
          and_then (write_at 0 (nm @ [0] @ data) block) (\<lambda>block.
          case pushSignal (zeroSignal\<lparr>signalType := LinkPicUploadSignalUpload,
              sigDataLen := int bufferLen, sigFileName := Some block,
              sigData := drop (nameLen + 1) block\<rparr>) p of
            (ret, p') \<Rightarrow>
              Inr (LINK_SUCCESS, if ret \<le> 0 then p'\<lparr>picRefused := picRefused p' + 1\<rparr> else p')))))"

definition LinkSendPictureToPictureUploader :: "PicUploader \<Rightarrow> LinkPicture \<Rightarrow> int \<times> PicUploader" where
  "LinkSendPictureToPictureUploader p pic =
     (LINK_SUCCESS, snd (pushSignal (zeroSignal\<lparr>signalType := LinkPicUploadSignalUpload,
        sigDataLen := int (length (picBuf pic)), sigFileName := Some (picFilename pic),
        sigData := picBuf pic\<rparr>) p))"

subsection \<open>Uploading one picture\<close>

text \<open>
  What a picture is sent with: its bytes, the host, the token, the key (none lets the server
  choose it by the fields) and the custom fields.
\<close>

record PicPut =
  ppData :: bytes
  ppHost :: bytes
  ppToken :: bytes
  ppKey :: "bytes option"
  ppMagic :: "bytes list"

text \<open>
  Answers of the environment: the parameter callback (by attempt), and the transfer with its
  result, whether it timed out and the HTTP code.
\<close>

record PicEnv =
  peParam :: "nat \<Rightarrow> LinkUploadParam \<Rightarrow> (int \<times> LinkUploadParam) run"
  pePut :: "PicPut \<Rightarrow> int \<times> bool \<times> int"

definition picParam :: LinkUploadParam where
  "picParam = \<lparr>pTokenBuf = Some (replicate 1024 0), nTokenBufLen = 1024,
     pUpHost = Some (replicate 192 0), nUpHostLen = 192, pSegUrl = None, nSegUrlLen = 0,
     paramSessionId = replicate 21 0, pAk = None, nAkLen = 0, pSk = None, nSkLen = 0,
     pFilePrefix = Some (replicate 560 0), nFilePrefix = 560\<rparr>"

definition blockText :: "bytes option \<Rightarrow> bytes" where
  "blockText b = (case b of None \<Rightarrow> [] | Some x \<Rightarrow> c_string x)"

text \<open>The part of the name after the last slash.\<close>

definition lastPart :: "bytes \<Rightarrow> bytes" where
  "lastPart name = rev (takeWhile (\<lambda>c. c \<noteq> 47) (rev name))"

text \<open>The name up to a character, and what follows it; the code ends the first part in place.\<close>

definition splitAt :: "u8 \<Rightarrow> bytes \<Rightarrow> (bytes \<times> bytes) option" where
  "splitAt c s = (case dropWhile (\<lambda>x. x \<noteq> c) s of
     [] \<Rightarrow> None | _ # rest \<Rightarrow> Some (takeWhile (\<lambda>x. x \<noteq> c) s, rest))"

text \<open>
  The outcome: the assignment to \<open>nRetCode\<close>, the transfer made, the result given to the
  statistics, and whether the block with the name was released.
\<close>

record PicOutcome =
  poRet :: "int option"
  poPut :: "PicPut option"
  poStat :: "LinkUploadResult option"
  poFreed :: bool

definition noOutcome :: PicOutcome where
  "noOutcome = \<lparr>poRet = None, poPut = None, poStat = None, poFreed = True\<rparr>"

text \<open>
  From the file name on. Every path assigns to \<open>upParam->nRetCode\<close>, also when the caller gave a
  null \<open>upParam\<close>.
\<close>

definition setRet :: "bool \<Rightarrow> int \<Rightarrow> PicOutcome \<Rightarrow> PicOutcome run" where
  "setRet hasUpParam code out = (if hasUpParam then Inr (out\<lparr>poRet := Some code\<rparr>) else Inl Null_deref)"

definition sendPicture ::
    "PicEnv \<Rightarrow> bool \<Rightarrow> bool \<Rightarrow> bytes \<Rightarrow> LinkPicUploadSignal \<Rightarrow> LinkUploadParam \<Rightarrow> PicOutcome run" where
  "sendPicture e hasUpParam statCb name sig param =
     (let file = lastPart (c_string name);
          prefix = nat (nFilePrefix param);
          suffix = [47, 102, 114, 97, 109, 101, 47] @ file;
          keyLen = prefix + length suffix
      in if nFilePrefix param < 0 \<or> 560 < nFilePrefix param then Inl Out_of_bounds
         else if 560 \<le> keyLen then Inl Assertion_failed
         else
           let key = c_string (take prefix (case pFilePrefix param of None \<Rightarrow> [] | Some b \<Rightarrow> b) @ suffix)
           in (case splitAt 45 file of
                None \<Rightarrow> setRet hasUpParam (-11) noOutcome
              | Some (start, rest) \<Rightarrow>
                 (case splitAt 46 rest of
                    None \<Rightarrow> setRet hasUpParam (-12) noOutcome
                  | Some (sid, _) \<Rightarrow>
                      let put = \<lparr>ppData = take (nat (sigDataLen sig)) (sigData sig),
                            ppHost = blockText (pUpHost param), ppToken = blockText (pTokenBuf param),
                            ppKey = (if prefix = 0 then None else Some key),
                            ppMagic = (if prefix = 0
                              then [chars ''x:start'', start, chars ''x:session'', sid] else [])\<rparr>
                      in (case pePut e put of (ret, timedout, code) \<Rightarrow>
                           and_then (setRet hasUpParam
                               (if ret \<noteq> 0 then (if timedout then LINK_TIMEOUT else ret)
                                else if code = 200 then LINK_SUCCESS else code)
                               (noOutcome\<lparr>poPut := Some put\<rparr>)) (\<lambda>out.
                           Inr (if statCb
                             then out\<lparr>poStat := Some (if ret = 0 \<and> code = 200
                               then LINK_UPLOAD_RESULT_OK else LINK_UPLOAD_RESULT_FAIL)\<rparr>
                             else out))))))"

text \<open>
  The parameters. With a null \<open>upParam\<close> they come from the uploader's own callback; before the
  first picture it waits three seconds and asks once more.
\<close>

definition uploadPicture_listen ::
    "PicEnv \<Rightarrow> LinkPicUploadSignal \<Rightarrow> bytes \<Rightarrow> PicUploader \<Rightarrow> (PicOutcome \<times> PicUploader) run" where
  "uploadPicture_listen e sig name p =
     (let send = (\<lambda>param p. and_then (sendPicture e False (hasStatistic p) name sig param)
                     (\<lambda>out. Inr (out, p)))
      in and_then (peParam e 0 picParam) (\<lambda>(ret, param).
           if ret = LINK_SUCCESS then send param (p\<lparr>nPicCount := nPicCount p + 1\<rparr>)
           else if nPicCount p \<noteq> 0 then Inr (noOutcome, p)
           else
             let p = p\<lparr>nPicCount := 1\<rparr> in
             and_then (peParam e 1 param) (\<lambda>(ret, param).
               if ret = LINK_SUCCESS then send param p else Inr (noOutcome, p))))"

definition uploadPicture_given ::
    "PicEnv \<Rightarrow> bool \<Rightarrow> LinkPicUploadSignal \<Rightarrow> bytes \<Rightarrow> PicOutcome run" where
  "uploadPicture_given e statCb sig name =
     and_then (peParam e 0 picParam) (\<lambda>(ret, param).
       if ret \<noteq> LINK_SUCCESS then Inr (noOutcome\<lparr>poRet := Some ret\<rparr>)
       else sendPicture e True statCb name sig param)"

text \<open>
  \<open>LinkUploadPicture\<close>: the caller of a picture learns the outcome from \<open>nRetCode\<close> only; the
  function itself always succeeds.
\<close>

definition LinkUploadPicture ::
    "PicEnv \<Rightarrow> bool \<Rightarrow> bool \<Rightarrow> LinkPicture option \<Rightarrow> (int \<times> PicOutcome) run" where
  "LinkUploadPicture e hasUpParam statCb pic =
     (case pic of
        None \<Rightarrow> Inr (LINK_ARG_ERROR, noOutcome\<lparr>poFreed := False\<rparr>)
      | Some pc \<Rightarrow>
          if \<not> hasUpParam then Inr (LINK_ARG_ERROR, noOutcome\<lparr>poFreed := False\<rparr>)
          else and_then (uploadPicture_given e statCb
              (zeroSignal\<lparr>sigDataLen := int (length (picBuf pc)), sigData := picBuf pc,
                 sigFileName := Some (picFilename pc)\<rparr>) (picFilename pc))
            (\<lambda>out. Inr (LINK_SUCCESS, out)))"

subsection \<open>The thread\<close>

datatype pic_next = Pic_again | Pic_ended

text \<open>One turn of \<open>listenPicUpload\<close> with a signal at the head of the queue.\<close>

definition handleSignal ::
    "PicEnv \<Rightarrow> LinkPicUploadSignal \<Rightarrow> PicUploader \<Rightarrow> (pic_next \<times> PicUploader) run" where
  "handleSignal e sig p =
     (case signalType sig of
        LinkPicUploadSignalIgnore \<Rightarrow> Inr (Pic_again, p)
      | LinkPicUploadSignalStop \<Rightarrow> Inr (Pic_ended, p)
      | LinkPicUploadSignalUpload \<Rightarrow>
          (case sigFileName sig of
             None \<Rightarrow> Inr (Pic_again, p)
           | Some name \<Rightarrow> and_then (uploadPicture_listen e sig name p) (\<lambda>(_, p). Inr (Pic_again, p)))
      | LinkPicUploadGetPicSignalCallback \<Rightarrow>
          let text = print_int (sigTimestamp sig) @ chars ''.jpg'' in
          Inr (Pic_again, if hasGetPic p
            then p\<lparr>asked := asked p @ [(take 63 text, int (length text))]\<rparr> else p))"

text \<open>
  The loop condition with the length read after the last pop, then one pop. On an empty queue the
  pop waits; nothing changes when the wait ends by its time-out.
\<close>

definition listenPicUpload ::
    "PicEnv \<Rightarrow> int \<Rightarrow> PicUploader \<Rightarrow> (pic_next \<times> int \<times> PicUploader) run" where
  "listenPicUpload e infoLen p =
     (if picQuit p \<and> infoLen = 0 then Inr (Pic_ended, infoLen, p)
      else (case picSignals p of
          [] \<Rightarrow> Inr (Pic_again, 0, p)
        | sig # rest \<Rightarrow>
            and_then (handleSignal e sig (p\<lparr>picSignals := rest\<rparr>)) (\<lambda>(nxt, p').
              Inr (nxt, int (length rest), p'))))"

text \<open>
  \<open>waitUploadMgrThread\<close>, called by the recycling thread: it sets the mark, pushes the stop signal
  until there is room, waits for the thread and releases the uploader.
\<close>

definition waitUpload_quit :: "PicUploader \<Rightarrow> PicUploader" where
  "waitUpload_quit p = p\<lparr>picQuit := True\<rparr>"

definition waitUpload_notify :: "PicUploader \<Rightarrow> bool \<times> PicUploader" where
  "waitUpload_notify p =
     (case pushSignal (zeroSignal\<lparr>signalType := LinkPicUploadSignalStop\<rparr>) p of
        (ret, p') \<Rightarrow> (0 < ret, p'))"

definition LinkDestroyPictureUploader ::
    "(u64 \<Rightarrow> int) \<Rightarrow> u64 option \<Rightarrow> int option \<times> u64 option" where
  "LinkDestroyPictureUploader pushFunction pPicUploader =
     (case pPicUploader of
        None \<Rightarrow> (None, None)
      | Some a \<Rightarrow> (Some (pushFunction a), None))"

subsection \<open>Errors\<close>

text \<open>
  Uploading from the thread's own queue: every path that has found parameters writes through
  the null \<open>upParam\<close>.
\<close>

lemma setRet_null [simp]: "setRet False c out = Inl Null_deref"
  by (simp add: setRet_def)

lemma sendPicture_null: "\<exists>f. sendPicture e False st name sig param = Inl f"
  by (auto simp: sendPicture_def Let_def split: option.splits prod.splits)

lemma queued_picture_dereferences_null:
  assumes "peParam e 0 picParam = Inr (LINK_SUCCESS, param)" and "nFilePrefix param = 0"
    and "length name < 552" and "signalType sig = LinkPicUploadSignalUpload"
    and "sigFileName sig = Some name"
  shows "handleSignal e sig p = Inl Null_deref"
proof -
  have "length (lastPart (c_string name)) \<le> length (c_string name)"
    by (simp add: lastPart_def length_takeWhile_le order_trans [OF length_takeWhile_le])
  also have "\<dots> \<le> length name"
    by (simp add: c_string_def length_takeWhile_le)
  finally have "length (lastPart (c_string name)) < 552"
    using assms(3) by simp
  then have "sendPicture e False st name sig param = Inl Null_deref" for st
    using assms(2) by (auto simp: sendPicture_def Let_def split: option.splits prod.splits)
  then show ?thesis
    using assms by (simp add: handleSignal_def uploadPicture_listen_def Let_def)
qed

text \<open>\<open>LinkUploadPicture\<close> reports success whatever became of the picture.\<close>

lemma failed_picture_is_success:
  "LinkUploadPicture e True st (Some pc) = Inr (r, out) \<Longrightarrow> r = LINK_SUCCESS"
  by (auto simp: LinkUploadPicture_def and_then_eq_Inr)

text \<open>A name that does not fit the key block aborts the program.\<close>

lemma long_picture_name_aborts:
  assumes "peParam e 0 picParam = Inr (LINK_SUCCESS, param)" and "nFilePrefix param = 0"
    and "c_string name = replicate 553 65"
  shows "uploadPicture_given e st sig name = Inl Assertion_failed"
proof -
  have "length (lastPart (c_string name)) = 553"
    by (simp only: assms(3)) (simp add: lastPart_def del: replicate_Suc)
  then show ?thesis
    using assms by (simp add: uploadPicture_given_def sendPicture_def Let_def)
qed

text \<open>A picture that finds the queue full is dropped and reported as sent.\<close>

lemma refused_picture_is_success:
  assumes "length (picSignals p) = 64" and "nameLen \<le> length name" and "bufferLen \<le> length buf"
  shows "LinkSendUploadPictureToPictureUploader (Some junk) p name nameLen buf bufferLen
    = Inr (LINK_SUCCESS, p\<lparr>picRefused := picRefused p + 1\<rparr>)"
  using assms
  by (simp add: LinkSendUploadPictureToPictureUploader_def malloc_def read_at_def write_at_def
      pushSignal_def)

subsection \<open>Runs\<close>

text \<open>
  The thread with the upload thread, which sends capture signals, and the recycling thread, which
  stops it. \<open>wanted\<close> are the times of the accepted capture signals. Pictures are not put in the
  queue: nothing in the library does.
\<close>

record PicSys =
  pic :: PicUploader
  picInfo :: int
  picEnded :: bool
  wanted :: "int list"

definition capture_of :: "LinkPicUploadSignal \<Rightarrow> int list" where
  "capture_of sig = (if signalType sig = LinkPicUploadGetPicSignalCallback then [sigTimestamp sig] else [])"

definition captures :: "PicUploader \<Rightarrow> int list" where
  "captures p = concat (map capture_of (picSignals p))"

definition picture_name :: "int \<Rightarrow> bytes \<times> int" where
  "picture_name t = (let text = print_int t @ chars ''.jpg'' in (text, int (length text)))"

inductive pic_step :: "PicSys \<Rightarrow> PicSys \<Rightarrow> bool" where
  capture: "narrow t \<Longrightarrow> LinkSendItIsTimeToCaptureSignal (pic s) t = (ret, p') \<Longrightarrow>
    pic_step s (s\<lparr>pic := p', wanted := (if 0 < ret then wanted s @ [t] else wanted s)\<rparr>)"
| turn: "\<not> picEnded s \<Longrightarrow> listenPicUpload e (picInfo s) (pic s) = Inr (nxt, info, p') \<Longrightarrow>
    pic_step s (s\<lparr>pic := p', picInfo := info, picEnded := (nxt = Pic_ended)\<rparr>)"
| quit: "pic_step s (s\<lparr>pic := waitUpload_quit (pic s)\<rparr>)"
| notify: "picQuit (pic s) \<Longrightarrow> pic_step s (s\<lparr>pic := snd (waitUpload_notify (pic s))\<rparr>)"

inductive pic_reach :: "PicSys \<Rightarrow> bool" where
  started: "LinkNewPictureUploader True 0 0 True st = (LINK_SUCCESS, Some p) \<Longrightarrow>
    pic_reach \<lparr>pic = p, picInfo = i, picEnded = False, wanted = []\<rparr>"
| step: "pic_reach s \<Longrightarrow> pic_step s s' \<Longrightarrow> pic_reach s'"

definition signal_ok :: "LinkPicUploadSignal \<Rightarrow> bool" where
  "signal_ok sig \<longleftrightarrow> signalType sig \<noteq> LinkPicUploadSignalUpload
     \<and> (signalType sig = LinkPicUploadGetPicSignalCallback \<longrightarrow> narrow (sigTimestamp sig))"

definition pic_inv :: "PicSys \<Rightarrow> bool" where
  "pic_inv s \<longleftrightarrow> hasGetPic (pic s) \<and> (\<forall>sig \<in> set (picSignals (pic s)). signal_ok sig)
     \<and> (\<exists>served. asked (pic s) = map picture_name served
          \<and> wanted s = served @ captures (pic s))"

lemma pushSignal_captures:
  "captures (snd (pushSignal sig p))
    = (if 0 < fst (pushSignal sig p) then captures p @ capture_of sig else captures p)"
  by (simp add: pushSignal_def captures_def sizeof_PicSignal_def)

lemma pushSignal_fields [simp]:
  "asked (snd (pushSignal sig p)) = asked p" "hasGetPic (snd (pushSignal sig p)) = hasGetPic p"
  by (simp_all add: pushSignal_def)

lemma pushSignal_ok:
  "\<forall>x \<in> set (picSignals p). signal_ok x \<Longrightarrow> signal_ok sig \<Longrightarrow>
    \<forall>x \<in> set (picSignals (snd (pushSignal sig p))). signal_ok x"
  by (auto simp: pushSignal_def)

lemma length_picture_name: "narrow t \<Longrightarrow> length (print_int t @ chars ''.jpg'') \<le> 24"
  using length_print_int [of t] by (simp add: chars_def)

lemma handleSignal_capture:
  assumes "signal_ok sig" and "hasGetPic p"
    and "handleSignal e sig p = Inr (nxt, p')"
  shows "p' = p\<lparr>asked := asked p @ map picture_name (capture_of sig)\<rparr>"
proof (cases "signalType sig = LinkPicUploadGetPicSignalCallback")
  case True
  then have "take 63 (print_int (sigTimestamp sig) @ chars ''.jpg'')
      = print_int (sigTimestamp sig) @ chars ''.jpg''"
    using True assms(1) length_picture_name [of "sigTimestamp sig"]
    by (intro take_all) (simp add: signal_ok_def)
  then show ?thesis
    using assms True by (simp add: handleSignal_def Let_def capture_of_def picture_name_def)
next
  case False
  then show ?thesis
    using assms by (cases "signalType sig") (auto simp: handleSignal_def capture_of_def signal_ok_def)
qed

lemma pic_inv_step:
  assumes inv: "pic_inv s" and step: "pic_step s s'"
  shows "pic_inv s'"
  using step
proof (cases rule: pic_step.cases)
  case (capture t ret p')
  let ?sig = "zeroSignal\<lparr>signalType := LinkPicUploadGetPicSignalCallback, sigTimestamp := t\<rparr>"
  have p': "p' = snd (pushSignal ?sig (pic s))" "ret = fst (pushSignal ?sig (pic s))"
    using capture(3) by (simp_all add: LinkSendItIsTimeToCaptureSignal_def)
  obtain served where served: "asked (pic s) = map picture_name served"
    "wanted s = served @ captures (pic s)"
    using inv by (auto simp: pic_inv_def)
  have "wanted s' = served @ captures p'"
    using served(2) by (simp add: capture(1) p' pushSignal_captures capture_of_def)
  then show ?thesis
    using inv served(1) capture(2) pushSignal_ok [of "pic s" ?sig]
    by (auto simp: pic_inv_def capture(1) p' signal_ok_def [of ?sig])
next
  case (turn e nxt info p')
  show ?thesis
  proof (cases "(picQuit (pic s) \<and> picInfo s = 0) \<or> picSignals (pic s) = []")
    case True
    then have "p' = pic s"
      using turn(3) by (auto simp: listenPicUpload_def split: if_splits list.splits)
    then show ?thesis using inv by (simp add: pic_inv_def turn(1))
  next
    case False
    then obtain sig rest where sigs: "picSignals (pic s) = sig # rest"
      by (cases "picSignals (pic s)") auto
    let ?p = "(pic s)\<lparr>picSignals := rest\<rparr>"
    have h: "handleSignal e sig ?p = Inr (nxt, p')"
      using turn(3) False sigs by (auto simp: listenPicUpload_def and_then_eq_Inr)
    have p': "p' = ?p\<lparr>asked := asked ?p @ map picture_name (capture_of sig)\<rparr>"
      using inv sigs handleSignal_capture [OF _ _ h] by (simp add: pic_inv_def)
    obtain served where served: "asked (pic s) = map picture_name served"
      "wanted s = served @ captures (pic s)"
      using inv by (auto simp: pic_inv_def)
    have "asked p' = map picture_name (served @ capture_of sig)"
      "wanted s' = (served @ capture_of sig) @ captures p'"
      using served sigs by (simp_all add: turn(1) p' captures_def)
    then show ?thesis
      using inv sigs by (auto simp: pic_inv_def turn(1) p')
  qed
next
  case quit
  then show ?thesis using inv by (simp add: pic_inv_def waitUpload_quit_def captures_def)
next
  case notify
  let ?sig = "zeroSignal\<lparr>signalType := LinkPicUploadSignalStop\<rparr>"
  have p': "snd (waitUpload_notify (pic s)) = snd (pushSignal ?sig (pic s))"
    by (simp add: waitUpload_notify_def split: prod.split)
  show ?thesis
    using inv pushSignal_ok [of "pic s" ?sig]
    by (auto simp: pic_inv_def notify(1) p' pushSignal_captures capture_of_def signal_ok_def [of ?sig])
qed

lemma pic_inv_reach: "pic_reach s \<Longrightarrow> pic_inv s"
proof (induction rule: pic_reach.induct)
  case (started st p i)
  then show ?case
    by (auto simp: pic_inv_def LinkNewPictureUploader_def captures_def)
next
  case (step s s')
  then show ?case using pic_inv_step by blast
qed

text \<open>
  For every capture signal the queue accepted, the application is asked exactly once, in
  the order of the signals, for a picture with the signal's time as its name: what was accepted
  is what was asked for and then what still waits in the queue.
\<close>

theorem pictures_asked_in_order:
  assumes "pic_reach s"
  shows "\<exists>served. asked (pic s) = map picture_name served \<and> wanted s = served @ captures (pic s)"
  using pic_inv_reach [OF assms] by (simp add: pic_inv_def)

theorem pictures_asked_in_order_witness:
  "\<exists>s served. pic_reach s \<and> asked (pic s) = [picture_name 1700] \<and> wanted s = [1700, 1800]
    \<and> asked (pic s) = map picture_name served \<and> wanted s = served @ captures (pic s)"
proof -
  let ?p0 = "\<lparr>picSignals = [], picQuit = False, nPicCount = 0, hasGetPic = True,
    hasStatistic = False, asked = [], picRefused = 0\<rparr>"
  let ?sig = "\<lambda>t. zeroSignal\<lparr>signalType := LinkPicUploadGetPicSignalCallback, sigTimestamp := t\<rparr>"
  let ?s0 = "\<lparr>pic = ?p0, picInfo = 0, picEnded = False, wanted = []\<rparr>"
  let ?s1 = "?s0\<lparr>pic := ?p0\<lparr>picSignals := [?sig 1700]\<rparr>, wanted := [1700]\<rparr>"
  let ?s2 = "?s1\<lparr>pic := ?p0\<lparr>picSignals := [?sig 1700, ?sig 1800]\<rparr>, wanted := [1700, 1800]\<rparr>"
  let ?s3 = "?s2\<lparr>pic := ?p0\<lparr>picSignals := [?sig 1800], asked := [picture_name 1700]\<rparr>,
    picInfo := 1\<rparr>"
  have r0: "pic_reach ?s0"
    by (rule pic_reach.started [of False]) (simp add: LinkNewPictureUploader_def)
  have send: "LinkSendItIsTimeToCaptureSignal (pic ?s0) 1700
      = (sizeof_PicSignal, ?p0\<lparr>picSignals := [?sig 1700]\<rparr>)"
    "LinkSendItIsTimeToCaptureSignal (pic ?s1) 1800
      = (sizeof_PicSignal, ?p0\<lparr>picSignals := [?sig 1700, ?sig 1800]\<rparr>)"
    by (simp_all add: LinkSendItIsTimeToCaptureSignal_def pushSignal_def)
  have narrow: "narrow 1700" "narrow 1800" by (simp_all add: narrow_def)
  have "pic_step ?s0 ?s1"
    using pic_step.capture [OF narrow(1) send(1)] by (simp add: sizeof_PicSignal_def)
  then have r1: "pic_reach ?s1" by (rule pic_reach.step [OF r0])
  have "pic_step ?s1 ?s2"
    using pic_step.capture [OF narrow(2) send(2)] by (simp add: sizeof_PicSignal_def)
  then have r2: "pic_reach ?s2" by (rule pic_reach.step [OF r1])
  define e where "e = \<lparr>peParam = \<lambda>_ p. Inr (LINK_NOT_INITED, p), pePut = \<lambda>_. (0, False, 200)\<rparr>"
  have "length (print_int 1700 @ chars ''.jpg'') \<le> 24"
    using length_picture_name [OF narrow(1)] .
  then have "listenPicUpload e (picInfo ?s2) (pic ?s2) = Inr (Pic_again, 1, pic ?s3)"
    by (simp add: listenPicUpload_def handleSignal_def Let_def picture_name_def)
  then have "pic_step ?s2 ?s3"
    using pic_step.turn [of ?s2 e Pic_again 1 "pic ?s3"] by simp
  then have r3: "pic_reach ?s3" by (rule pic_reach.step [OF r2])
  show ?thesis
    using pictures_asked_in_order [OF r3] r3 by (intro exI [of _ ?s3]) simp
qed

end
