(* ===== verification/PictureFields.thy ===== *)
theory PictureFields
  imports PicUploader ReportParams
begin

section \<open>From the signal to the server\<close>

text \<open>
  What becomes of one picture: the application names it by the time it was asked for, the upload
  thread puts the session into the name, and \<open>LinkUploadPicture\<close> takes the name apart into the
  fields it sends, with the parameters the token thread hands out.
\<close>

lemma digits_range: "c \<in> set (digits n) \<Longrightarrow> 48 \<le> c \<and> c \<le> 57"
proof (induction n rule: digits.induct)
  case (1 n)
  have d: "48 \<le> (of_nat (48 + m) :: u8) \<and> (of_nat (48 + m) :: u8) \<le> 57" if "m < 10" for m
  proof -
    have "unat (of_nat (48 + m) :: u8) = 48 + m"
      using that by (simp add: unsigned_of_nat take_bit_nat_eq_self del: of_nat_add)
    then show ?thesis
      using that by (simp add: word_le_nat_alt del: of_nat_add)
  qed
  show ?case
    using 1 d [of n] d [of "n mod 10"]
    by (cases "n < 10") (auto simp: digits.simps [of n] simp del: of_nat_add)
qed

lemma digits_plain: "45 \<notin> set (digits n)" "46 \<notin> set (digits n)" "47 \<notin> set (digits n)"
  using digits_range [of 45 n] digits_range [of 46 n] digits_range [of 47 n] by auto

lemma splitAt_first: "c \<notin> set a \<Longrightarrow> splitAt c (a @ c # b) = Some (a, b)"
  by (simp add: splitAt_def dropWhile_append takeWhile_append)

lemma lastPart_plain:
  assumes "47 \<notin> set s"
  shows "lastPart s = s"
proof -
  have "takeWhile (\<lambda>c. c \<noteq> 47) (rev s) = rev s"
    using assms by (metis (mono_tags, lifting) set_rev takeWhile_eq_all_conv)
  then show ?thesis by (simp only: lastPart_def rev_rev_ident)
qed

text \<open>The name after the upload thread has put in the session.\<close>

definition session_name :: "int \<Rightarrow> bytes \<Rightarrow> bytes" where
  "session_name t sid = print_int t @ [45] @ sid @ [46, 106, 112, 103]"

lemma picture_renamed:
  assumes pic: "picture k = Some \<lparr>picFilename = (print_int t @ chars ''.jpg'') @ replicate 25 0,
      nFilenameLen = length (print_int t @ chars ''.jpg''), picBuf = buf\<rparr>"
    and sid: "c_string (sessionId (session k)) = sid" "length sid \<le> 19"
  shows "\<exists>c k' p'. uploadPicture e k = Inr (c, k') \<and> picUploads k' = picUploads k @ [p']
    \<and> picBuf p' = buf \<and> (\<exists>r. picFilename p' = session_name t sid @ 0 # r)"
proof -
  let ?n = "print_int t"
  let ?b = "(?n @ chars ''.jpg'') @ replicate 25 0"
  let ?w = "[45] @ sid @ [46, 106, 112, 103] @ [0 :: u8]"
  have t: "take 24 ([45] @ sid @ [46, 106, 112, 103]) @ [0] = ?w"
    using sid(2) by simp
  have w: "write_at (length ?n) ?w ?b = Inr (overwrite (length ?n) ?w ?b)"
    using sid(2) by (intro write_at_ok) (simp add: chars_def)
  have "overwrite (length ?n) ?w ?b = session_name t sid @ 0 # drop (length ?n + length ?w) ?b"
    by (simp add: overwrite_def session_name_def)
  then show ?thesis
    using w t by (simp add: uploadPicture_def pic sid(1) Let_def chars_def statistic_def case_prod_beta)
qed

text \<open>The parameters for a picture, in a state of the token thread that has them.\<close>

definition picture_params_fit :: "TokenState \<Rightarrow> bool" where
  "picture_params_fit t \<longleftrightarrow> paramsReady t \<and> \<not> isCompatableMode (token t)
     \<and> buffer_ok (pFrameToken (token t)) \<and> bufLen (pFrameToken (token t)) < 1024
     \<and> buffer_ok (upHostUrl (remoteConfig t)) \<and> bufLen (upHostUrl (remoteConfig t)) < 192"

lemma c_string_overwrite: "c_string (overwrite 0 (s @ [0]) d) = c_string s"
  by (simp add: overwrite_def c_string_def takeWhile_tail)

lemma picture_params:
  assumes "picture_params_fit t"
  shows "\<exists>prm. uploadParamCallback t picParam LINK_UPLOAD_CB_GETFRAMEPARAM = Inr (LINK_SUCCESS, prm)
    \<and> nFilePrefix prm = 0 \<and> blockText (pTokenBuf prm) = c_string (buffer_text (pFrameToken (token t)))
    \<and> blockText (pUpHost prm) = c_string (buffer_text (upHostUrl (remoteConfig t)))"
proof -
  note g = giveText_ok [of "pFrameToken (token t)" "replicate 1024 0" 1024]
    giveText_ok [of "upHostUrl (remoteConfig t)" "replicate 192 0" 192]
  show ?thesis
    using assms
    by (simp add: picture_params_fit_def uploadParamCallback_def sourceToken_def afterGiven_def
        picParam_def g Let_def blockText_def c_string_overwrite del: replicate_Suc)
qed

text \<open>
  C33: A picture the application named by the time it was asked for reaches the server with that
  time as its field \<open>x:start\<close> and the identifier of the session of the segment as \<open>x:session\<close>,
  whole, with the token for pictures and the host of the configuration; the segment's thread
  learns the server's answer, and the block with the name is released.
\<close>

theorem picture_fields:
  assumes ts: "0 \<le> t"
    and pic: "picture k = Some \<lparr>picFilename = (print_int t @ chars ''.jpg'') @ replicate 25 0,
      nFilenameLen = length (print_int t @ chars ''.jpg''), picBuf = buf\<rparr>"
    and sid: "c_string (sessionId (session k)) = sid" "length sid \<le> 19" "46 \<notin> set sid" "47 \<notin> set sid"
    and short: "t < 10 ^ 19"
    and par: "picture_params_fit tk"
    and env: "peParam pe 0 = (\<lambda>p. uploadParamCallback tk p LINK_UPLOAD_CB_GETFRAMEPARAM)"
  defines "put \<equiv> \<lparr>ppData = buf, ppHost = c_string (buffer_text (upHostUrl (remoteConfig tk))),
      ppToken = c_string (buffer_text (pFrameToken (token tk))), ppKey = None,
      ppMagic = [chars ''x:start'', print_int t, chars ''x:session'', sid]\<rparr>"
  shows "\<exists>c k' p out. uploadPicture e k = Inr (c, k') \<and> picUploads k' = picUploads k @ [p]
    \<and> LinkUploadPicture pe True st (Some p) = Inr (LINK_SUCCESS, out)
    \<and> poPut out = Some put \<and> poFreed out
    \<and> poRet out = Some (case pePut pe put of (ret, timedout, code) \<Rightarrow>
        if ret \<noteq> 0 then (if timedout then LINK_TIMEOUT else ret)
        else if code = 200 then LINK_SUCCESS else code)"
proof -
  obtain c k' p r where up: "uploadPicture e k = Inr (c, k')" "picUploads k' = picUploads k @ [p]"
    "picBuf p = buf" "picFilename p = session_name t sid @ 0 # r"
    using picture_renamed [OF pic sid(1,2), of e] by blast
  obtain prm where prm: "uploadParamCallback tk picParam LINK_UPLOAD_CB_GETFRAMEPARAM
      = Inr (LINK_SUCCESS, prm)" "nFilePrefix prm = 0"
    "blockText (pTokenBuf prm) = ppToken put" "blockText (pUpHost prm) = ppHost put"
    using picture_params [OF par] by (auto simp: put_def)
  have sid0: "0 \<notin> set sid"
    using c_string_plain sid(1) by metis
  have num: "print_int t = digits (nat t)" using ts by (simp add: print_int_def)
  have plain: "45 \<notin> set (print_int t)" "47 \<notin> set (print_int t)" "0 \<notin> set (print_int t)"
    using digits_plain [of "nat t"] print_int_nonzero [of t] by (simp_all add: num)
  have name: "c_string (picFilename p) = session_name t sid"
    unfolding up(4) using plain sid0 by (intro c_string_terminated) (auto simp: session_name_def)
  have fname: "lastPart (session_name t sid) = session_name t sid"
    using plain sid(4) by (intro lastPart_plain) (auto simp: session_name_def)
  have split: "splitAt 45 (session_name t sid) = Some (print_int t, sid @ 46 # [106, 112, 103])"
    "splitAt 46 (sid @ 46 # [106, 112, 103]) = Some (sid, [106, 112, 103])"
    using splitAt_first [OF plain(1), of "sid @ [46, 106, 112, 103]"] splitAt_first [OF sid(3)]
    by (simp_all add: session_name_def)
  have "length (digits (nat t)) \<le> 19"
    using length_digits_le [of "nat t" 19] ts short by (simp add: nat_less_iff)
  then have len: "\<not> 560 \<le> length (session_name t sid) + 7"
    using sid(2) by (simp add: session_name_def num)
  let ?sig = "zeroSignal\<lparr>sigDataLen := int (length buf), sigData := buf, sigFileName := Some (picFilename p)\<rparr>"
  have put': "\<lparr>ppData = take (nat (sigDataLen ?sig)) (sigData ?sig), ppHost = blockText (pUpHost prm),
      ppToken = blockText (pTokenBuf prm), ppKey = None,
      ppMagic = [chars ''x:start'', print_int t, chars ''x:session'', sid]\<rparr> = put"
    using prm(3,4) by (simp add: put_def)
  obtain ret timedout code where ans: "pePut pe put = (ret, timedout, code)"
    by (cases "pePut pe put")
  have "\<exists>out. sendPicture pe True st (picFilename p) ?sig prm = Inr out \<and> poPut out = Some put
      \<and> poFreed out \<and> poRet out = Some (if ret \<noteq> 0 then (if timedout then LINK_TIMEOUT else ret)
        else if code = 200 then LINK_SUCCESS else code)"
    using len prm(2) put' ans
    by (simp add: sendPicture_def name fname split Let_def setRet_def noOutcome_def)
  then show ?thesis
    using up prm(1) ans env
    by (fastforce simp: LinkUploadPicture_def uploadPicture_given_def)
qed

definition idle_keeper :: SessionKeeper where
  "idle_keeper = \<lparr>nSegmentId = 0, nSegSeqNum = 0, nLastCheckTime = 0, keeperSessionId = [],
     segmentHandle = 0, nSessionDuration = 0, nSessionTimeout = 0, updates = [], reports = []\<rparr>"

theorem picture_fields_witness:
  "\<exists>c k' out. uploadPicture \<lparr>envNow = 0, envParam = (0, [], [], 0), envPicture = (0, 0),
        envJunk = [], envPut = (\<lambda>_. (0, 200)), hasStatisticCb = False\<rparr>
      ((freshUploader False 6 TSQ_APPEND_FIX 6 1 idle_keeper)\<lparr>picture := Some
        \<lparr>picFilename = (print_int 1700 @ chars ''.jpg'') @ replicate 25 0,
         nFilenameLen = length (print_int 1700 @ chars ''.jpg''), picBuf = [255, 216]\<rparr>,
        session := zeroSession\<lparr>sessionId := [65, 66] @ replicate 19 0\<rparr>\<rparr>) = Inr (c, k')
    \<and> poPut (out :: PicOutcome) = Some \<lparr>ppData = [255, 216], ppHost = [104], ppToken = [116], ppKey = None,
        ppMagic = [chars ''x:start'', print_int 1700, chars ''x:session'', [65, 66]]\<rparr>
    \<and> poRet out = Some 612"
proof -
  define tk where "tk = (freshTokenState [] [] [])\<lparr>
     token := \<lparr>pToken = noBuffer, pFrameToken = \<lparr>bufData = Some [116, 0], bufLen = 1, bufCap = 2\<rparr>,
       pTsToken = \<lparr>bufData = Some [117, 0], bufLen = 1, bufCap = 2\<rparr>, pFnamePrefix = noBuffer,
       isCompatableMode = False\<rparr>,
     remoteConfig := freshConfig\<lparr>isValid := True,
       upHostUrl := \<lparr>bufData = Some [104, 0], bufLen = 1, bufCap = 2\<rparr>\<rparr>\<rparr>"
  have fit: "picture_params_fit tk"
    by (simp add: picture_params_fit_def paramsReady_def tk_def buffer_ok_def freshTokenState_def)
  have texts: "c_string (buffer_text (upHostUrl (remoteConfig tk))) = [104]"
    "c_string (buffer_text (pFrameToken (token tk))) = [116]"
    by (simp_all add: tk_def buffer_text_def block_of_def c_string_def)
  define pe where "pe = \<lparr>peParam = \<lambda>_ p. uploadParamCallback tk p LINK_UPLOAD_CB_GETFRAMEPARAM,
    pePut = \<lambda>_. (0, False, 612)\<rparr>"
  define k where "k = (freshUploader False 6 TSQ_APPEND_FIX 6 1 idle_keeper)\<lparr>picture := Some
        \<lparr>picFilename = (print_int 1700 @ chars ''.jpg'') @ replicate 25 0,
         nFilenameLen = length (print_int 1700 @ chars ''.jpg''), picBuf = [255, 216]\<rparr>,
        session := zeroSession\<lparr>sessionId := [65, 66] @ replicate 19 0\<rparr>\<rparr>"
  have pe: "peParam pe 0 = (\<lambda>p. uploadParamCallback tk p LINK_UPLOAD_CB_GETFRAMEPARAM)"
    "pePut pe x = (0, False, 612)" for x
    by (simp_all add: pe_def)
  have k: "picture k = Some \<lparr>picFilename = (print_int 1700 @ chars ''.jpg'') @ replicate 25 0,
         nFilenameLen = length (print_int 1700 @ chars ''.jpg''), picBuf = [255, 216]\<rparr>"
    "c_string (sessionId (session k)) = [65, 66]"
    by (simp_all add: k_def c_string_def)
  have h: "0 \<le> (1700 :: int)" "length [65, 66 :: u8] \<le> 19" "46 \<notin> set [65, 66 :: u8]"
    "47 \<notin> set [65, 66 :: u8]" "(1700 :: int) < 10 ^ 19"
    by simp_all
  have ret: "(case pePut pe x of (ret, timedout, code) \<Rightarrow>
      if ret \<noteq> 0 then (if timedout then LINK_TIMEOUT else ret)
      else if code = 200 then LINK_SUCCESS else code) = 612" for x
    by (simp add: pe(2))
  show ?thesis
    using picture_fields [OF h(1) k h(2-5) fit pe(1), of "\<lparr>envNow = 0, envParam = (0, [], [], 0),
        envPicture = (0, 0), envJunk = [], envPut = (\<lambda>_. (0, 200)), hasStatisticCb = False\<rparr>" False]
    unfolding texts ret k_def [symmetric] by blast
qed

subsection \<open>Releasing an uploader\<close>

text \<open>
  \<open>waitToCompleUploadAndDestroyTsMuxContext\<close>, the function the recycling thread calls on the context
  of a destroyed uploader, as the order in which it stops threads and releases memory.
  \<open>hasMuxUploader\<close> says whether the context still belongs to an uploader.
\<close>

datatype destroy_action =
    Stop_ts_uploader
  | Release_muxer
  | Send_quit_update
  | Join_token_thread
  | Release_video_meta
  | Release_update_queue
  | Release_segment_handle
  | Defer_picture_uploader
  | Release_aac_buffer
  | Release_tokens
  | Release_configs
  | Release_mux_uploader
  | Release_context

definition waitToCompleUploadAndDestroyTsMuxContext :: "bool \<Rightarrow> bool \<Rightarrow> destroy_action list" where
  "waitToCompleUploadAndDestroyTsMuxContext hasContext hasMuxUploader =
     (if \<not> hasContext then []
      else [Stop_ts_uploader, Release_muxer] @
        (if hasMuxUploader
         then [Send_quit_update, Join_token_thread, Release_video_meta, Release_update_queue,
           Release_segment_handle, Defer_picture_uploader, Release_aac_buffer, Release_tokens,
           Release_configs, Release_mux_uploader]
         else []) @ [Release_context])"

text \<open>
  The picture uploader is only pushed to the recycling queue, whose thread is the one that runs
  this function: its thread is stopped by a later call. Until then it may call back, for the
  parameters of a picture still in its queue, into the uploader released here.
\<close>

lemma picture_thread_outlives_uploader:
  "\<exists>before between after. waitToCompleUploadAndDestroyTsMuxContext True True
     = before @ [Defer_picture_uploader] @ between @ [Release_mux_uploader] @ after"
  by (intro exI [of _ "[Stop_ts_uploader, Release_muxer, Send_quit_update, Join_token_thread,
        Release_video_meta, Release_update_queue, Release_segment_handle]"]
      exI [of _ "[Release_aac_buffer, Release_tokens, Release_configs]"]
      exI [of _ "[Release_context]"]) (simp add: waitToCompleUploadAndDestroyTsMuxContext_def)

text \<open>The threads that read the uploader's tokens and configuration are stopped before their release.\<close>

lemma token_thread_ends_before_release:
  "\<exists>before between after. waitToCompleUploadAndDestroyTsMuxContext True True
     = before @ [Join_token_thread] @ between @ [Release_tokens, Release_configs, Release_mux_uploader] @ after"
  by (intro exI [of _ "[Stop_ts_uploader, Release_muxer, Send_quit_update]"]
      exI [of _ "[Release_video_meta, Release_update_queue, Release_segment_handle,
        Defer_picture_uploader, Release_aac_buffer]"]
      exI [of _ "[Release_context]"]) (simp add: waitToCompleUploadAndDestroyTsMuxContext_def)

end
