(* ===== verification/MqttClient.thy ===== *)
theory MqttClient
  imports Prelude
begin

section \<open>The MQTT client (libmqtt/mqtt.c, libmqtt/wolfmqtt/wolfmqtt.c)\<close>

text \<open>
  One thread per instance keeps the connection to the broker, restores the subscriptions after
  a reconnection and reads messages; the application publishes and subscribes from its own
  threads. The protocol itself is the wolfMQTT library, whose calls are answers of the
  environment here.
\<close>

subsection \<open>Codes\<close>

abbreviation (input) MQTT_SUCCESS :: int where "MQTT_SUCCESS \<equiv> 3000"
abbreviation (input) MQTT_ERR_NOMEM :: int where "MQTT_ERR_NOMEM \<equiv> 3001"
abbreviation (input) MQTT_ERR_INVAL :: int where "MQTT_ERR_INVAL \<equiv> 3003"
abbreviation (input) MQTT_ERR_CONN_LOST :: int where "MQTT_ERR_CONN_LOST \<equiv> 3007"
abbreviation (input) MQTT_ERR_TLS :: int where "MQTT_ERR_TLS \<equiv> 3008"
abbreviation (input) MQTT_ERR_PAYLOAD_SIZE :: int where "MQTT_ERR_PAYLOAD_SIZE \<equiv> 3009"
abbreviation (input) MQTT_ERR_ERRNO :: int where "MQTT_ERR_ERRNO \<equiv> 3014"
abbreviation (input) MQTT_CONTINUE :: int where "MQTT_CONTINUE \<equiv> 3018"
abbreviation (input) MQTT_RETRY :: int where "MQTT_RETRY \<equiv> 3019"
abbreviation (input) MQTT_QUEUE_FULL :: int where "MQTT_QUEUE_FULL \<equiv> 3020"
abbreviation (input) MQTT_ERR_OTHERS :: int where "MQTT_ERR_OTHERS \<equiv> 3021"

text \<open>The results of the wolfMQTT library, by their names.\<close>

datatype wolf_code =
    MQTT_CODE_SUCCESS
  | MQTT_CODE_STDIN_WAKE
  | MQTT_CODE_ERROR_BAD_ARG
  | MQTT_CODE_ERROR_OUT_OF_BUFFER
  | MQTT_CODE_ERROR_MALFORMED_DATA
  | MQTT_CODE_ERROR_PACKET_TYPE
  | MQTT_CODE_ERROR_PACKET_ID
  | MQTT_CODE_ERROR_TLS_CONNECT
  | MQTT_CODE_ERROR_TIMEOUT
  | MQTT_CODE_ERROR_NETWORK
  | MQTT_CODE_ERROR_MEMORY
  | MQTT_CODE_ERROR_STAT
  | MQTT_CODE_ERROR_PROPERTY
  | MQTT_CODE_ERROR_SERVER_PROP
  | MQTT_CODE_ERROR_CALLBACK
  | MQTT_CODE_CONTINUE
  | MQTT_CODE_OTHER int

fun MqttErrorStatusChange :: "wolf_code \<Rightarrow> int" where
  "MqttErrorStatusChange MQTT_CODE_SUCCESS = MQTT_SUCCESS"
| "MqttErrorStatusChange MQTT_CODE_STDIN_WAKE = MQTT_ERR_INVAL"
| "MqttErrorStatusChange MQTT_CODE_ERROR_BAD_ARG = MQTT_ERR_INVAL"
| "MqttErrorStatusChange MQTT_CODE_ERROR_OUT_OF_BUFFER = MQTT_ERR_PAYLOAD_SIZE"
| "MqttErrorStatusChange MQTT_CODE_ERROR_MALFORMED_DATA = MQTT_ERR_INVAL"
| "MqttErrorStatusChange MQTT_CODE_ERROR_PACKET_TYPE = MQTT_ERR_INVAL"
| "MqttErrorStatusChange MQTT_CODE_ERROR_PACKET_ID = MQTT_ERR_INVAL"
| "MqttErrorStatusChange MQTT_CODE_ERROR_TLS_CONNECT = MQTT_ERR_TLS"
| "MqttErrorStatusChange MQTT_CODE_ERROR_TIMEOUT = MQTT_ERR_CONN_LOST"
| "MqttErrorStatusChange MQTT_CODE_ERROR_NETWORK = MQTT_ERR_ERRNO"
| "MqttErrorStatusChange MQTT_CODE_ERROR_MEMORY = MQTT_ERR_NOMEM"
| "MqttErrorStatusChange MQTT_CODE_ERROR_STAT = MQTT_ERR_ERRNO"
| "MqttErrorStatusChange MQTT_CODE_ERROR_PROPERTY = MQTT_ERR_INVAL"
| "MqttErrorStatusChange MQTT_CODE_ERROR_SERVER_PROP = MQTT_ERR_ERRNO"
| "MqttErrorStatusChange MQTT_CODE_ERROR_CALLBACK = MQTT_ERR_ERRNO"
| "MqttErrorStatusChange MQTT_CODE_CONTINUE = MQTT_CONTINUE"
| "MqttErrorStatusChange (MQTT_CODE_OTHER c) = MQTT_ERR_OTHERS"

lemma MqttErrorStatusChange_success [simp]:
  "MqttErrorStatusChange c = MQTT_SUCCESS \<longleftrightarrow> c = MQTT_CODE_SUCCESS"
  by (cases c) simp_all

subsection \<open>The list of subscriptions\<close>

text \<open>
  The list behind its head node, as the topics in its nodes. A topic is copied without a check
  into an array of 128 characters.
\<close>

definition InsertNode :: "bool \<Rightarrow> bytes list \<Rightarrow> bytes \<Rightarrow> (bool \<times> bytes list) run" where
  "InsertNode allocOk nodes val =
     (if \<not> allocOk then Inl Null_deref
      else if 128 \<le> length val then Inl Out_of_bounds
      else Inr (True, nodes @ [val]))"

text \<open>
  The loop looks at the node behind \<open>p\<close> and removes it when it has the topic; otherwise it does
  not move \<open>p\<close>, so it looks at the same node for ever.
\<close>

fun DeleteNode :: "bytes list \<Rightarrow> bytes \<Rightarrow> (bool \<times> bytes list) run" where
  "DeleteNode [] val = Inr (False, [])"
| "DeleteNode (t # nodes) val = (if t = val then Inr (True, nodes) else Inl Diverges)"

fun ClearNode :: "bytes list \<Rightarrow> bytes list" where
  "ClearNode [] = []"
| "ClearNode (t # nodes) = ClearNode nodes"

subsection \<open>The instance\<close>

abbreviation (input) STATUS_IDLE :: int where "STATUS_IDLE \<equiv> 0"
abbreviation (input) STATUS_CONNECTING :: int where "STATUS_CONNECTING \<equiv> 1"
abbreviation (input) STATUS_CONNACK_RECVD :: int where "STATUS_CONNACK_RECVD \<equiv> 2"
abbreviation (input) STATUS_CONNECT_ERROR :: int where "STATUS_CONNECT_ERROR \<equiv> 4"

text \<open>
  The context of the library: whether its buffers are there, the keep-alive time of the last
  connection request, and the two counters of \<open>LinkMqttLoop\<close>.
\<close>

record MQTTCtx =
  hasBuffers :: bool
  keep_alive_sec :: int
  nWaitTimeoutCount :: int
  nPingTimeoutCount :: int

datatype ctx_pointer = Ctx_null | Ctx_dangling | Ctx MQTTCtx

text \<open>
  \<open>events\<close> are the calls of the application's \<open>OnEvent\<close>; \<open>requests\<close> the subscription requests
  sent, with their packet identifiers; \<open>ctxLeaks\<close> counts contexts no pointer leads to any more.
  \<open>mPacketIdLast\<close> is the static of that name.
\<close>

record MqttInstance =
  mosq :: ctx_pointer
  mqStatus :: int
  lastStatus :: int
  connected :: bool
  isDestroying :: bool
  pSubscribeList :: "bytes list"
  nKeepalive :: int
  hasOnEvent :: bool
  hasOnMessage :: bool
  events :: "int list"
  requests :: "(int \<times> bytes) list"
  ctxLeaks :: nat
  mPacketIdLast :: int

definition mqtt_get_packetid :: "MqttInstance \<Rightarrow> int \<times> MqttInstance" where
  "mqtt_get_packetid i =
     (let n = (if 65535 \<le> mPacketIdLast i then 1 else mPacketIdLast i + 1) in
        (n, i\<lparr>mPacketIdLast := n\<rparr>))"

definition OnEventCallback :: "MqttInstance \<Rightarrow> int \<Rightarrow> MqttInstance" where
  "OnEventCallback i rc =
     (let i = (if hasOnEvent i \<and> (lastStatus i < MQTT_ERR_NOMEM \<or> rc < MQTT_ERR_NOMEM)
                 then i\<lparr>events := events i @ [rc]\<rparr> else i)
      in i\<lparr>lastStatus := rc\<rparr>)"

text \<open>
  Using the context: an access through the null pointer or to released memory is a fault.
\<close>

definition with_ctx :: "MqttInstance \<Rightarrow> (MQTTCtx \<Rightarrow> 'a run) \<Rightarrow> 'a run" where
  "with_ctx i f = (case mosq i of
     Ctx_null \<Rightarrow> Inl Null_deref | Ctx_dangling \<Rightarrow> Inl Out_of_bounds | Ctx c \<Rightarrow> f c)"

text \<open>
  Answers of the library and the system for one call: network set-up, client set-up, the
  allocations, the results of the requests (a subscription's by its topic, a ping's by its
  number) and of waiting for a message.
\<close>

record MqttEnv =
  weCtxAlloc :: bool
  weBufAlloc :: bool
  weNodeAlloc :: bool
  weNetInit :: wolf_code
  weClientInit :: wolf_code
  weNetConnect :: wolf_code
  weConnect :: wolf_code
  weNetDisconnect :: wolf_code
  wePublish :: wolf_code
  weSubscribe :: "bytes \<Rightarrow> wolf_code"
  weUnsubscribe :: wolf_code
  weWait :: wolf_code
  wePing :: "int \<Rightarrow> wolf_code"

subsection \<open>Set-up and release\<close>

text \<open>
  A context made while another is still there leaves that one unreachable. When a buffer cannot
  be allocated the context is released and the pointer to it stays.
\<close>

definition lose_ctx :: "MqttInstance \<Rightarrow> MqttInstance" where
  "lose_ctx i = (case mosq i of Ctx _ \<Rightarrow> i\<lparr>ctxLeaks := ctxLeaks i + 1\<rparr> | _ \<Rightarrow> i)"

definition LinkMqttInit :: "MqttEnv \<Rightarrow> MqttInstance \<Rightarrow> int \<times> MqttInstance" where
  "LinkMqttInit e i =
     (if \<not> weCtxAlloc e then (MQTT_ERR_NOMEM, i)
      else
        let c = \<lparr>hasBuffers = False, keep_alive_sec = 0, nWaitTimeoutCount = 0, nPingTimeoutCount = 0\<rparr>;
            i = (lose_ctx i)\<lparr>mosq := Ctx c\<rparr>
        in if weNetInit e \<noteq> MQTT_CODE_SUCCESS then (MqttErrorStatusChange (weNetInit e), i)
           else if \<not> weBufAlloc e then (MQTT_ERR_NOMEM, i\<lparr>mosq := Ctx_dangling\<rparr>)
           else (MqttErrorStatusChange (weClientInit e), i\<lparr>mosq := Ctx (c\<lparr>hasBuffers := True\<rparr>)\<rparr>))"

text \<open>
  The buffers are released and their pointers cleared; the test before the release of the
  context looks at one of those pointers and so never succeeds.
\<close>

definition LinkMqttDinit :: "MqttInstance \<Rightarrow> MqttInstance run" where
  "LinkMqttDinit i = (case mosq i of
     Ctx_null \<Rightarrow> Inr i
   | Ctx_dangling \<Rightarrow> Inl Out_of_bounds
   | Ctx c \<Rightarrow> Inr (i\<lparr>mosq := Ctx (c\<lparr>hasBuffers := False\<rparr>)\<rparr>))"

definition LinkMqttInstanceInit :: "int \<Rightarrow> bool \<Rightarrow> bool \<Rightarrow> int \<Rightarrow> int \<Rightarrow> MqttInstance" where
  "LinkMqttInstanceInit keepalive onEvent onMessage junkStatus packetId =
     \<lparr>mosq = Ctx_null, mqStatus = STATUS_IDLE, lastStatus = junkStatus, connected = False,
      isDestroying = False, pSubscribeList = [], nKeepalive = keepalive, hasOnEvent = onEvent,
      hasOnMessage = onMessage, events = [], requests = [], ctxLeaks = 0, mPacketIdLast = packetId\<rparr>"

definition LinkMqttDestroyInstance :: "MqttInstance \<Rightarrow> MqttInstance" where
  "LinkMqttDestroyInstance i = (lose_ctx i)\<lparr>pSubscribeList := ClearNode (pSubscribeList i)\<rparr>"

definition LinkMqttDestroy :: "MqttInstance \<Rightarrow> MqttInstance" where
  "LinkMqttDestroy i = i\<lparr>isDestroying := True\<rparr>"

definition LinkMqttIsConnected :: "MqttInstance option \<Rightarrow> bool" where
  "LinkMqttIsConnected pInstance = (case pInstance of None \<Rightarrow> False | Some i \<Rightarrow> connected i)"

subsection \<open>Requests of the application\<close>

definition LinkMqttPublish :: "MqttEnv \<Rightarrow> MqttInstance \<Rightarrow> bool \<Rightarrow> bool \<Rightarrow> int \<times> MqttInstance" where
  "LinkMqttPublish e i hasTopic hasPayload =
     (if \<not> hasTopic \<or> \<not> hasPayload then (MQTT_ERR_INVAL, i)
      else
        let i = snd (mqtt_get_packetid i);
            rc = (if \<not> connected i then MQTT_CODE_ERROR_NETWORK else wePublish e)
        in (MqttErrorStatusChange rc, i))"

definition LinkMqttSubscribe ::
    "MqttEnv \<Rightarrow> MqttInstance \<Rightarrow> bytes option \<Rightarrow> (int \<times> MqttInstance) run" where
  "LinkMqttSubscribe e i pTopic =
     (case pTopic of
        None \<Rightarrow> Inr (MQTT_ERR_INVAL, i)
      | Some topic \<Rightarrow> with_ctx i (\<lambda>_.
          case mqtt_get_packetid i of (n, i) \<Rightarrow>
          let rc = weSubscribe e topic; i = i\<lparr>requests := requests i @ [(n, topic)]\<rparr> in
          if rc = MQTT_CODE_SUCCESS then
            and_then (InsertNode (weNodeAlloc e) (pSubscribeList i) topic) (\<lambda>(_, l).
              Inr (MqttErrorStatusChange rc, i\<lparr>pSubscribeList := l\<rparr>))
          else Inr (MqttErrorStatusChange rc, i)))"

definition LinkMqttUnsubscribe ::
    "MqttEnv \<Rightarrow> MqttInstance \<Rightarrow> bytes option \<Rightarrow> (int \<times> MqttInstance) run" where
  "LinkMqttUnsubscribe e i pTopic =
     (case pTopic of
        None \<Rightarrow> Inr (MQTT_ERR_INVAL, i)
      | Some topic \<Rightarrow> with_ctx i (\<lambda>_.
          let i = snd (mqtt_get_packetid i); rc = weUnsubscribe e in
          if rc = MQTT_CODE_SUCCESS then
            and_then (DeleteNode (pSubscribeList i) topic) (\<lambda>(_, l).
              Inr (MqttErrorStatusChange rc, i\<lparr>pSubscribeList := l\<rparr>))
          else Inr (MqttErrorStatusChange rc, i)))"

subsection \<open>The connection\<close>

text \<open>All topics of the list again, with one packet identifier; the result is that of the last.\<close>

definition RecoverSub :: "MqttEnv \<Rightarrow> MqttInstance \<Rightarrow> (int \<times> MqttInstance) run" where
  "RecoverSub e i = with_ctx i (\<lambda>_.
     case mqtt_get_packetid i of (n, i) \<Rightarrow>
       Inr (MqttErrorStatusChange (if pSubscribeList i = [] then MQTT_CODE_SUCCESS
              else weSubscribe e (last (pSubscribeList i))),
            i\<lparr>requests := requests i @ map (\<lambda>t. (n, t)) (pSubscribeList i)\<rparr>))"

definition ClientOptSet :: "MqttInstance \<Rightarrow> int" where
  "ClientOptSet i = MqttErrorStatusChange MQTT_CODE_SUCCESS"

definition LinkMqttConnect :: "MqttEnv \<Rightarrow> MqttInstance \<Rightarrow> (int \<times> MqttInstance) run" where
  "LinkMqttConnect e i =
     (if mosq i = Ctx_null then Inr (MQTT_ERR_NOMEM, i)
      else with_ctx i (\<lambda>c.
        let i = i\<lparr>mosq := Ctx (c\<lparr>keep_alive_sec := nKeepalive i\<rparr>)\<rparr> in
        if weNetConnect e \<noteq> MQTT_CODE_SUCCESS then Inr (MqttErrorStatusChange (weNetConnect e), i)
        else
          let rc = weConnect e;
              i = (if rc \<noteq> MQTT_CODE_SUCCESS then i
                   else i\<lparr>connected := True, mqStatus := STATUS_CONNACK_RECVD\<rparr>);
              i = OnEventCallback i (MqttErrorStatusChange rc)
          in and_then (RecoverSub e i) (\<lambda>(_, i). Inr (MqttErrorStatusChange rc, i))))"

definition LinkMqttDisconnect :: "MqttEnv \<Rightarrow> MqttInstance \<Rightarrow> MqttInstance run" where
  "LinkMqttDisconnect e i =
     (if mosq i = Ctx_null then Inr i else with_ctx i (\<lambda>_. Inr (i\<lparr>connected := False\<rparr>)))"

text \<open>What the library calls when it closes the connection.\<close>

definition OnDisconnectCallback :: "MqttEnv \<Rightarrow> MqttInstance \<Rightarrow> wolf_code \<Rightarrow> MqttInstance run" where
  "OnDisconnectCallback e i error_code =
     (if error_code = MQTT_CODE_ERROR_TIMEOUT then Inr i
      else if \<not> connected i then Inr i
      else
        let i = (OnEventCallback i (MqttErrorStatusChange error_code))\<lparr>connected := False\<rparr> in
        and_then (if isDestroying i then Inr i
                  else and_then (LinkMqttDinit i) (\<lambda>i. Inr (snd (LinkMqttInit e i)))) (\<lambda>i.
          Inr (i\<lparr>mqStatus := (if error_code = MQTT_CODE_SUCCESS then STATUS_IDLE
                                else STATUS_CONNECT_ERROR)\<rparr>)))"

text \<open>The pings after a silence of the keep-alive time: until one succeeds, or the count runs out.\<close>

function pingLoop :: "MqttEnv \<Rightarrow> bool \<Rightarrow> int \<Rightarrow> int \<Rightarrow> wolf_code \<Rightarrow> wolf_code" where
  "pingLoop e conn keep ping rc =
     (if ping * 1000 < keep * 1000 then
        if \<not> conn then rc
        else if wePing e ping = MQTT_CODE_SUCCESS then MQTT_CODE_SUCCESS
        else pingLoop e conn keep (ping + 1) (wePing e ping)
      else rc)"
  by pat_completeness auto
termination
  by (relation "measure (\<lambda>(_, _, keep, ping, _). nat (keep - ping))") auto

declare pingLoop.simps [simp del]

definition LinkMqttLoop :: "MqttEnv \<Rightarrow> MqttInstance \<Rightarrow> (int \<times> MqttInstance) run" where
  "LinkMqttLoop e i =
     (if mosq i = Ctx_null then Inr (MQTT_ERR_NOMEM, i)
      else with_ctx i (\<lambda>c.
        if weWait e \<noteq> MQTT_CODE_ERROR_TIMEOUT then Inr (MqttErrorStatusChange (weWait e), i)
        else
          let c = c\<lparr>nWaitTimeoutCount := nWaitTimeoutCount c + 1\<rparr> in
          if keep_alive_sec c * 1000 \<le> nWaitTimeoutCount c * 1000 then
            Inr (MqttErrorStatusChange (pingLoop e (connected i) (keep_alive_sec c)
                   (nPingTimeoutCount c) MQTT_CODE_ERROR_TIMEOUT),
                 i\<lparr>mosq := Ctx (c\<lparr>nWaitTimeoutCount := 0, nPingTimeoutCount := 0\<rparr>)\<rparr>)
          else Inr (MQTT_SUCCESS, i\<lparr>mosq := Ctx c\<rparr>)))"

subsection \<open>The thread\<close>

text \<open>
  One turn of the loop of \<open>LinkMqttThread\<close>: the reconnection period and the instance after it,
  and the seconds slept. \<open>rnd\<close> gives the values of \<open>rand ()\<close>.
\<close>

definition LinkMqttThread_turn ::
    "MqttEnv \<Rightarrow> (nat \<Rightarrow> int) \<Rightarrow> int \<Rightarrow> MqttInstance \<Rightarrow> (int \<times> int list \<times> MqttInstance) run" where
  "LinkMqttThread_turn e rnd period i =
     (let pause = (\<lambda>k. if 1 < period then [rnd k mod period] else []) in
      if \<not> connected i \<and> mqStatus i \<noteq> STATUS_CONNECTING then
        let i = i\<lparr>mqStatus := STATUS_CONNECTING\<rparr>; rc = ClientOptSet i in
        and_then (if rc = MQTT_SUCCESS then
            and_then (LinkMqttConnect e i) (\<lambda>(rc, i).
              Inr (rc, if period < 64 then period * 2 else period, pause 0, i))
          else Inr (rc, period, [], i)) (\<lambda>(rc, period', slept, i).
        Inr (period', slept, if rc \<noteq> MQTT_SUCCESS
          then (OnEventCallback i rc)\<lparr>mqStatus := STATUS_CONNECT_ERROR\<rparr> else i))
      else if mqStatus i = STATUS_CONNECTING then Inr (period, [1], i)
      else
        and_then (LinkMqttLoop e i) (\<lambda>(rc, i).
          Inr (period, (if MQTT_ERR_NOMEM \<le> rc then pause 0 else []) @
            (if rc = MQTT_ERR_CONN_LOST then pause 1 else []), i)))"

text \<open>Its start, and its end after the loop.\<close>

definition LinkMqttThread_start :: "MqttEnv \<Rightarrow> MqttInstance \<Rightarrow> bool \<times> MqttInstance" where
  "LinkMqttThread_start e i =
     (case LinkMqttInit e i of (ret, i) \<Rightarrow>
        if ret \<noteq> MQTT_SUCCESS
          then (False, LinkMqttDestroyInstance (OnEventCallback i MQTT_ERR_INVAL))
        else (True, i))"

definition LinkMqttThread_end :: "MqttEnv \<Rightarrow> MqttInstance \<Rightarrow> MqttInstance run" where
  "LinkMqttThread_end e i =
     and_then (if connected i then LinkMqttDisconnect e i else Inr i) (\<lambda>i.
     and_then (LinkMqttDinit i) (\<lambda>i. Inr (LinkMqttDestroyInstance i)))"

subsection \<open>Packet identifiers\<close>

fun packet_ids :: "nat \<Rightarrow> MqttInstance \<Rightarrow> int list" where
  "packet_ids 0 i = []"
| "packet_ids (Suc n) i = (case mqtt_get_packetid i of (p, i') \<Rightarrow> p # packet_ids n i')"

lemma packet_ids_count:
  "0 \<le> mPacketIdLast i \<Longrightarrow> mPacketIdLast i \<le> 65535 \<Longrightarrow>
    packet_ids n i = map (\<lambda>k. (mPacketIdLast i + int k) mod 65535 + 1) [0..<n]"
proof (induction n arbitrary: i)
  case 0
  then show ?case by simp
next
  case (Suc n)
  define p where "p = (if 65535 \<le> mPacketIdLast i then 1 else mPacketIdLast i + 1)"
  have p: "0 \<le> p" "p \<le> 65535" "p = mPacketIdLast i mod 65535 + 1"
    using Suc.prems by (auto simp: p_def)
  have step: "mqtt_get_packetid i = (p, i\<lparr>mPacketIdLast := p\<rparr>)"
    by (simp add: mqtt_get_packetid_def p_def Let_def)
  have shift: "(p + int k) mod 65535 = (mPacketIdLast i + int (Suc k)) mod 65535" for k
  proof -
    have "p + int k = mPacketIdLast i mod 65535 + int (Suc k)"
      by (simp add: p(3))
    then show ?thesis
      by (simp only: mod_add_left_eq)
  qed
  have "packet_ids (Suc n) i
      = p # map (\<lambda>k. (mPacketIdLast i + int (Suc k)) mod 65535 + 1) [0..<n]"
  proof -
    have "packet_ids n (i\<lparr>mPacketIdLast := p\<rparr>) = map (\<lambda>k. (p + int k) mod 65535 + 1) [0..<n]"
      using Suc.IH [of "i\<lparr>mPacketIdLast := p\<rparr>"] p(1,2) by simp
    then show ?thesis
      by (simp only: packet_ids.simps step prod.case shift)
  qed
  also have "\<dots> = map (\<lambda>k. (mPacketIdLast i + int k) mod 65535 + 1) [0..<Suc n]"
    using p(3) by (simp add: map_upt_Suc del: upt_Suc)
  finally show ?case .
qed

text \<open>
  Identifiers are never 0 and any 65535 successive ones differ, whatever requests they are for.
\<close>

lemma packet_ids_distinct:
  assumes "0 \<le> mPacketIdLast i" "mPacketIdLast i \<le> 65535" and "n \<le> 65535"
  shows "distinct (packet_ids n i) \<and> (\<forall>p \<in> set (packet_ids n i). 1 \<le> p \<and> p \<le> 65535)"
proof -
  have "j = k" if "(mPacketIdLast i + int j) mod 65535 = (mPacketIdLast i + int k) mod 65535"
    "j < n" "k < n" for j k
  proof -
    have "65535 dvd int j - int k"
      using that(1) by (simp add: mod_eq_dvd_iff)
    then obtain d where d: "int j - int k = 65535 * d" ..
    then have "d = 0" using that(2,3) assms(3) by linarith
    then show ?thesis using d by simp
  qed
  then show ?thesis
    by (auto simp: packet_ids_count [OF assms(1,2)] distinct_map inj_on_def)
qed

subsection \<open>Subscriptions\<close>

lemma DeleteNode_result:
  "DeleteNode nodes t = (if nodes = [] then Inr (False, []) else if hd nodes = t
     then Inr (True, tl nodes) else Inl Diverges)"
  by (cases nodes) auto

text \<open>
  Unsubscribing a topic that is not the oldest of the list never returns, and keeps the list's
  mutex: neither does any later call that needs it.
\<close>

lemma unsubscribe_newer_topic_diverges:
  assumes "mosq i = Ctx c" "weUnsubscribe e = MQTT_CODE_SUCCESS"
    and "pSubscribeList i = t # nodes" "t \<noteq> topic"
  shows "LinkMqttUnsubscribe e i (Some topic) = Inl Diverges"
  using assms by (simp add: LinkMqttUnsubscribe_def with_ctx_def Let_def mqtt_get_packetid_def)

datatype sub_op = Subscribed bytes | Unsubscribed bytes

text \<open>The topics subscribed and not unsubscribed since, in the order of the requests.\<close>

fun live_topics :: "sub_op list \<Rightarrow> bytes list" where
  "live_topics [] = []"
| "live_topics (Subscribed t # ops) = live_topics ops @ [t]"
| "live_topics (Unsubscribed t # ops) = remove1 t (live_topics ops)"

text \<open>
  Runs of one instance: its thread, the library's disconnection callback, and the requests of
  the application, in any order; memory does not run out and the library's set-up succeeds.
  \<open>log\<close> are the subscriptions and unsubscriptions that succeeded, the latest first.
\<close>

definition mqtt_env_ok :: "MqttEnv \<Rightarrow> bool" where
  "mqtt_env_ok e \<longleftrightarrow> weCtxAlloc e \<and> weBufAlloc e \<and> weNodeAlloc e
     \<and> weNetInit e = MQTT_CODE_SUCCESS"

inductive mqtt_run :: "sub_op list \<Rightarrow> int \<Rightarrow> MqttInstance \<Rightarrow> bool" where
  mqtt_start: "mqtt_env_ok e \<Longrightarrow> 0 \<le> n \<Longrightarrow> n \<le> 65535 \<Longrightarrow>
    LinkMqttThread_start e (LinkMqttInstanceInit keep ev msg junk n) = (True, i) \<Longrightarrow>
    mqtt_run [] 1 i"
| mqtt_turn: "mqtt_run log period i \<Longrightarrow> mqtt_env_ok e \<Longrightarrow>
    LinkMqttThread_turn e rnd period i = Inr (period', slept, i') \<Longrightarrow> mqtt_run log period' i'"
| mqtt_drop: "mqtt_run log period i \<Longrightarrow> mqtt_env_ok e \<Longrightarrow>
    OnDisconnectCallback e i code = Inr i' \<Longrightarrow> mqtt_run log period i'"
| mqtt_publish: "mqtt_run log period i \<Longrightarrow> mqtt_env_ok e \<Longrightarrow>
    LinkMqttPublish e i t p = (ret, i') \<Longrightarrow> mqtt_run log period i'"
| mqtt_subscribe: "mqtt_run log period i \<Longrightarrow> mqtt_env_ok e \<Longrightarrow>
    LinkMqttSubscribe e i (Some t) = Inr (ret, i') \<Longrightarrow>
    mqtt_run (if ret = MQTT_SUCCESS then Subscribed t # log else log) period i'"
| mqtt_unsubscribe: "mqtt_run log period i \<Longrightarrow> mqtt_env_ok e \<Longrightarrow>
    LinkMqttUnsubscribe e i (Some t) = Inr (ret, i') \<Longrightarrow>
    mqtt_run (if ret = MQTT_SUCCESS then Unsubscribed t # log else log) period i'"

definition mqtt_inv :: "sub_op list \<Rightarrow> int \<Rightarrow> MqttInstance \<Rightarrow> bool" where
  "mqtt_inv log period i \<longleftrightarrow> (\<exists>c. mosq i = Ctx c \<and> hasBuffers c)
     \<and> pSubscribeList i = live_topics log \<and> (\<forall>t \<in> set (pSubscribeList i). length t < 128)
     \<and> period \<in> {1, 2, 4, 8, 16, 32, 64}"

lemma packetid_fields [simp]:
  "mosq (snd (mqtt_get_packetid i)) = mosq i"
  "pSubscribeList (snd (mqtt_get_packetid i)) = pSubscribeList i"
  "connected (snd (mqtt_get_packetid i)) = connected i"
  "requests (snd (mqtt_get_packetid i)) = requests i"
  by (simp_all add: mqtt_get_packetid_def Let_def)

lemma OnEventCallback_fields [simp]:
  "mosq (OnEventCallback i c) = mosq i" "pSubscribeList (OnEventCallback i c) = pSubscribeList i"
  "connected (OnEventCallback i c) = connected i" "requests (OnEventCallback i c) = requests i"
  "isDestroying (OnEventCallback i c) = isDestroying i"
  by (simp_all add: OnEventCallback_def Let_def)

lemma mqtt_inv_cong:
  "mosq i' = mosq i \<Longrightarrow> pSubscribeList i' = pSubscribeList i \<Longrightarrow>
    mqtt_inv log period i' = mqtt_inv log period i"
  by (simp add: mqtt_inv_def)

lemma LinkMqttInit_ok:
  "mqtt_env_ok e \<Longrightarrow> \<exists>c. mosq (snd (LinkMqttInit e i)) = Ctx c \<and> hasBuffers c"
  "pSubscribeList (snd (LinkMqttInit e i)) = pSubscribeList i"
  "connected (snd (LinkMqttInit e i)) = connected i"
  by (simp_all add: LinkMqttInit_def mqtt_env_ok_def Let_def lose_ctx_def split: ctx_pointer.split)

text \<open>What a connection attempt does: the context stays, the list of topics is requested again.\<close>

lemma RecoverSub_result:
  assumes "mosq i = Ctx c"
  obtains r i' n where "RecoverSub e i = Inr (r, i')" "mosq i' = mosq i"
    "pSubscribeList i' = pSubscribeList i" "connected i' = connected i"
    "requests i' = requests i @ map (\<lambda>t. (n, t)) (pSubscribeList i)"
proof -
  obtain n j where g: "mqtt_get_packetid i = (n, j)" by (cases "mqtt_get_packetid i")
  have j: "mosq j = mosq i" "pSubscribeList j = pSubscribeList i" "connected j = connected i"
    "requests j = requests i"
    using packetid_fields [of i] by (simp_all add: g)
  let ?i = "j\<lparr>requests := requests j @ map (\<lambda>t. (n, t)) (pSubscribeList j)\<rparr>"
  have "\<exists>r. RecoverSub e i = Inr (r, ?i)"
    using assms by (simp add: RecoverSub_def with_ctx_def g)
  then show thesis
    using that [where n = n and i' = ?i] j by auto
qed

lemma LinkMqttConnect_result:
  assumes "mosq i = Ctx c" and "hasBuffers c"
  obtains rc i' c' n where "LinkMqttConnect e i = Inr (rc, i')" "mosq i' = Ctx c'" "hasBuffers c'"
    "pSubscribeList i' = pSubscribeList i"
    "connected i' = (connected i \<or> weNetConnect e = MQTT_CODE_SUCCESS \<and> weConnect e = MQTT_CODE_SUCCESS)"
    "requests i' = requests i @ (if weNetConnect e = MQTT_CODE_SUCCESS
       then map (\<lambda>t. (n, t)) (pSubscribeList i) else [])"
proof (cases "weNetConnect e = MQTT_CODE_SUCCESS")
  case False
  then show thesis
    using assms that [of "MqttErrorStatusChange (weNetConnect e)"]
    by (simp add: LinkMqttConnect_def with_ctx_def Let_def)
next
  case True
  let ?i = "OnEventCallback (if weConnect e \<noteq> MQTT_CODE_SUCCESS
      then i\<lparr>mosq := Ctx (c\<lparr>keep_alive_sec := nKeepalive i\<rparr>)\<rparr>
      else i\<lparr>mosq := Ctx (c\<lparr>keep_alive_sec := nKeepalive i\<rparr>), connected := True,
        mqStatus := STATUS_CONNACK_RECVD\<rparr>) (MqttErrorStatusChange (weConnect e))"
  have m: "mosq ?i = Ctx (c\<lparr>keep_alive_sec := nKeepalive i\<rparr>)" by simp
  obtain r i' n where r: "RecoverSub e ?i = Inr (r, i')" "mosq i' = mosq ?i"
    "pSubscribeList i' = pSubscribeList ?i" "connected i' = connected ?i"
    "requests i' = requests ?i @ map (\<lambda>t. (n, t)) (pSubscribeList ?i)"
    by (rule RecoverSub_result [OF m])
  have "LinkMqttConnect e i = Inr (MqttErrorStatusChange (weConnect e), i')"
    using assms(1) True r(1)
    by (cases "weConnect e = MQTT_CODE_SUCCESS") (simp_all add: LinkMqttConnect_def with_ctx_def Let_def)
  then show thesis
    using that [where n = n and i' = i'] r assms(2) True
    by (cases "weConnect e = MQTT_CODE_SUCCESS") simp_all
qed

lemma LinkMqttLoop_result:
  assumes "mosq i = Ctx c" and "hasBuffers c"
  obtains rc i' c' where "LinkMqttLoop e i = Inr (rc, i')" "mosq i' = Ctx c'" "hasBuffers c'"
    "pSubscribeList i' = pSubscribeList i" "connected i' = connected i" "requests i' = requests i"
proof (cases "weWait e = MQTT_CODE_ERROR_TIMEOUT")
  case False
  then show thesis
    using assms that [of _ i c] by (simp add: LinkMqttLoop_def with_ctx_def)
next
  case True
  show thesis
    by (rule that [of "fst (case LinkMqttLoop e i of Inr x \<Rightarrow> x)"
          "snd (case LinkMqttLoop e i of Inr x \<Rightarrow> x)"
          "case mosq (snd (case LinkMqttLoop e i of Inr x \<Rightarrow> x)) of Ctx c \<Rightarrow> c"])
      (use assms True in \<open>auto simp: LinkMqttLoop_def with_ctx_def Let_def\<close>)
qed

text \<open>
  A turn of the thread: it never faults while there is a context; when it connects, the topics
  of the list are requested in their order, and otherwise a connection stays as it is.
\<close>

lemma LinkMqttThread_turn_result:
  assumes inv: "mqtt_inv log period i"
  obtains period' slept i' where "LinkMqttThread_turn e rnd period i = Inr (period', slept, i')"
    "mqtt_inv log period' i'" "connected i \<longrightarrow> connected i' \<and> requests i' = requests i"
    "\<not> connected i \<and> connected i' \<longrightarrow>
      (\<exists>n. requests i' = requests i @ map (\<lambda>t. (n, t)) (live_topics log))"
proof -
  obtain c where c: "mosq i = Ctx c" "hasBuffers c" and l: "pSubscribeList i = live_topics log"
    using inv by (auto simp: mqtt_inv_def)
  consider (connect) "\<not> connected i" "mqStatus i \<noteq> STATUS_CONNECTING"
    | (wait) "mqStatus i = STATUS_CONNECTING"
    | (process) "connected i" "mqStatus i \<noteq> STATUS_CONNECTING" by blast
  then show thesis
  proof cases
    case connect
    let ?i = "i\<lparr>mqStatus := STATUS_CONNECTING\<rparr>"
    have m: "mosq ?i = Ctx c" using c(1) by simp
    obtain rc i1 c1 n where r: "LinkMqttConnect e ?i = Inr (rc, i1)" "mosq i1 = Ctx c1" "hasBuffers c1"
      "pSubscribeList i1 = pSubscribeList ?i"
      "connected i1 = (connected ?i \<or> weNetConnect e = MQTT_CODE_SUCCESS \<and> weConnect e = MQTT_CODE_SUCCESS)"
      "requests i1 = requests ?i @ (if weNetConnect e = MQTT_CODE_SUCCESS
         then map (\<lambda>t. (n, t)) (pSubscribeList ?i) else [])"
      by (rule LinkMqttConnect_result [OF m c(2), of e])
    let ?p = "if period < 64 then period * 2 else period"
    let ?i2 = "if rc \<noteq> MQTT_SUCCESS then (OnEventCallback i1 rc)\<lparr>mqStatus := STATUS_CONNECT_ERROR\<rparr> else i1"
    have f: "mosq ?i2 = mosq i1" "pSubscribeList ?i2 = pSubscribeList i1" "connected ?i2 = connected i1"
      "requests ?i2 = requests i1"
      by simp_all
    have "mqtt_inv log ?p ?i2"
      using inv r(2-4) unfolding mqtt_inv_def f by auto
    moreover have "LinkMqttThread_turn e rnd period i
        = Inr (?p, if 1 < period then [rnd 0 mod period] else [], ?i2)"
      using connect r(1) by (simp add: LinkMqttThread_turn_def ClientOptSet_def Let_def)
    moreover have "requests ?i2 = requests i @ map (\<lambda>t. (n, t)) (live_topics log)" if "connected ?i2"
      using that r(5,6) connect(1) l unfolding f by simp
    ultimately show thesis
      using that connect(1) by blast
  next
    case wait
    then have "LinkMqttThread_turn e rnd period i = Inr (period, [1], i)"
      by (simp add: LinkMqttThread_turn_def)
    then show thesis using that [of period "[1]" i] inv by blast
  next
    case process
    obtain rc i1 c1 where r: "LinkMqttLoop e i = Inr (rc, i1)" "mosq i1 = Ctx c1" "hasBuffers c1"
      "pSubscribeList i1 = pSubscribeList i" "connected i1 = connected i" "requests i1 = requests i"
      by (rule LinkMqttLoop_result [OF c, of e])
    have "mqtt_inv log period i1"
      using inv r(2-4) by (simp add: mqtt_inv_def)
    then show thesis
      using that [of period _ i1] process r by (simp add: LinkMqttThread_turn_def Let_def)
  qed
qed

lemma OnDisconnectCallback_result:
  assumes "mosq i = Ctx c" and "hasBuffers c" and "mqtt_env_ok e"
  obtains i' c' where "OnDisconnectCallback e i code = Inr i'" "mosq i' = Ctx c'" "hasBuffers c'"
    "pSubscribeList i' = pSubscribeList i"
    "connected i' = (connected i \<and> code = MQTT_CODE_ERROR_TIMEOUT)"
proof (cases "code = MQTT_CODE_ERROR_TIMEOUT \<or> \<not> connected i")
  case True
  then show thesis
    using assms(1,2) that [of i c] by (auto simp: OnDisconnectCallback_def)
next
  case False
  let ?i = "(OnEventCallback i (MqttErrorStatusChange code))\<lparr>connected := False\<rparr>"
  have d: "LinkMqttDinit ?i = Inr (?i\<lparr>mosq := Ctx (c\<lparr>hasBuffers := False\<rparr>)\<rparr>)"
    using assms(1) by (simp add: LinkMqttDinit_def)
  let ?j = "?i\<lparr>mosq := Ctx (c\<lparr>hasBuffers := False\<rparr>)\<rparr>"
  obtain c' where c': "mosq (snd (LinkMqttInit e ?j)) = Ctx c'" "hasBuffers c'"
    using LinkMqttInit_ok(1) [OF assms(3)] by blast
  show thesis
  proof (cases "isDestroying i")
    case True
    then show thesis
      using False assms(1,2) that [of "?i\<lparr>mqStatus := (if code = MQTT_CODE_SUCCESS then STATUS_IDLE
          else STATUS_CONNECT_ERROR)\<rparr>" c]
      by (simp add: OnDisconnectCallback_def Let_def)
  next
    case nd: False
    then show thesis
      using False d c' that [of "(snd (LinkMqttInit e ?j))\<lparr>mqStatus := (if code = MQTT_CODE_SUCCESS
          then STATUS_IDLE else STATUS_CONNECT_ERROR)\<rparr>" c']
      by (simp add: OnDisconnectCallback_def Let_def LinkMqttInit_ok(2,3))
  qed
qed

lemma set_live_topics_remove: "set (remove1 t xs) \<subseteq> set xs"
  by (rule set_remove1_subset)

lemma LinkMqttSubscribe_result:
  assumes c: "mosq i = Ctx c" and e: "mqtt_env_ok e"
  shows "LinkMqttSubscribe e i (Some t) = (if weSubscribe e t = MQTT_CODE_SUCCESS \<and> 128 \<le> length t
      then Inl Out_of_bounds
      else Inr (MqttErrorStatusChange (weSubscribe e t),
        let j = snd (mqtt_get_packetid i);
            j = j\<lparr>requests := requests j @ [(fst (mqtt_get_packetid i), t)]\<rparr>
        in if weSubscribe e t = MQTT_CODE_SUCCESS
           then j\<lparr>pSubscribeList := pSubscribeList i @ [t]\<rparr> else j))"
  using assms
  by (auto simp: LinkMqttSubscribe_def with_ctx_def Let_def case_prod_beta InsertNode_def mqtt_env_ok_def)

lemma LinkMqttUnsubscribe_result:
  assumes "mosq i = Ctx c"
  shows "LinkMqttUnsubscribe e i (Some t) = (let j = snd (mqtt_get_packetid i) in
    if weUnsubscribe e = MQTT_CODE_SUCCESS then
      (if pSubscribeList i = [] then Inr (MQTT_SUCCESS, j\<lparr>pSubscribeList := []\<rparr>)
       else if hd (pSubscribeList i) = t then Inr (MQTT_SUCCESS, j\<lparr>pSubscribeList := tl (pSubscribeList i)\<rparr>)
       else Inl Diverges)
    else Inr (MqttErrorStatusChange (weUnsubscribe e), j))"
  using assms by (simp add: LinkMqttUnsubscribe_def with_ctx_def Let_def DeleteNode_result)

lemma mqtt_run_inv: "mqtt_run log period i \<Longrightarrow> mqtt_inv log period i"
proof (induction rule: mqtt_run.induct)
  case (mqtt_start e n keep ev msg junk i)
  let ?i0 = "LinkMqttInstanceInit keep ev msg junk n"
  have "i = snd (LinkMqttInit e ?i0)"
    using mqtt_start(4) by (simp add: LinkMqttThread_start_def split: prod.splits if_splits)
  then show ?case
    using LinkMqttInit_ok(1) [OF mqtt_start(1), of ?i0] LinkMqttInit_ok(2) [of e ?i0]
    by (simp add: mqtt_inv_def LinkMqttInstanceInit_def)
next
  case (mqtt_turn log period i e rnd period' slept i')
  obtain p s j where "LinkMqttThread_turn e rnd period i = Inr (p, s, j)" "mqtt_inv log p j"
    by (rule LinkMqttThread_turn_result [OF mqtt_turn.IH, of e rnd])
  then show ?case using mqtt_turn.hyps by simp
next
  case (mqtt_drop log period i e code i')
  obtain c where c: "mosq i = Ctx c" "hasBuffers c" using mqtt_drop.IH by (auto simp: mqtt_inv_def)
  obtain j c' where "OnDisconnectCallback e i code = Inr j" "mosq j = Ctx c'" "hasBuffers c'"
    "pSubscribeList j = pSubscribeList i"
    by (rule OnDisconnectCallback_result [OF c mqtt_drop.hyps(2), of code])
  then show ?case
    using mqtt_drop.hyps(3) mqtt_drop.IH by (simp add: mqtt_inv_def)
next
  case (mqtt_publish log period i e t p ret i')
  then have "i' = i \<or> i' = snd (mqtt_get_packetid i)"
    by (auto simp: LinkMqttPublish_def Let_def split: if_splits)
  then show ?case
    using mqtt_publish.IH mqtt_inv_cong [of "snd (mqtt_get_packetid i)" i] by auto
next
  case (mqtt_subscribe log period i e t ret i')
  then obtain c where c: "mosq i = Ctx c" "hasBuffers c" by (auto simp: mqtt_inv_def)
  then show ?case
    using mqtt_subscribe.hyps(3) mqtt_subscribe.IH
    by (auto simp: LinkMqttSubscribe_result [OF c(1) mqtt_subscribe.hyps(2)] mqtt_inv_def Let_def
        split: if_splits)
next
  case (mqtt_unsubscribe log period i e t ret i')
  then obtain c where c: "mosq i = Ctx c" "hasBuffers c" by (auto simp: mqtt_inv_def)
  show ?case
  proof (cases "pSubscribeList i")
    case Nil
    then show ?thesis
      using mqtt_unsubscribe.hyps(3) mqtt_unsubscribe.IH c
      by (auto simp: LinkMqttUnsubscribe_result [OF c(1)] mqtt_inv_def Let_def split: if_splits)
  next
    case (Cons x xs)
    then have "live_topics log = x # xs"
      using mqtt_unsubscribe.IH by (simp add: mqtt_inv_def)
    then show ?thesis
      using mqtt_unsubscribe.hyps(3) mqtt_unsubscribe.IH c Cons
      by (auto simp: LinkMqttUnsubscribe_result [OF c(1)] mqtt_inv_def Let_def split: if_splits)
  qed
qed


subsection \<open>Keeping the connection alive\<close>

text \<open>The pings of one round: the first that succeeds ends it; otherwise the last result counts.\<close>

lemma pingLoop_result:
  assumes "0 \<le> ping" and "ping < keep"
  shows "pingLoop e True keep ping rc = (if \<exists>k. ping \<le> k \<and> k < keep \<and> wePing e k = MQTT_CODE_SUCCESS
    then MQTT_CODE_SUCCESS else wePing e (keep - 1))"
  using assms
proof (induction "nat (keep - ping)" arbitrary: ping rc)
  case 0
  then show ?case by simp
next
  case (Suc n)
  have split: "(\<exists>k. ping \<le> k \<and> k < keep \<and> wePing e k = MQTT_CODE_SUCCESS)
      \<longleftrightarrow> wePing e ping = MQTT_CODE_SUCCESS
        \<or> (\<exists>k. ping + 1 \<le> k \<and> k < keep \<and> wePing e k = MQTT_CODE_SUCCESS)"
  proof -
    have "ping \<le> k \<longleftrightarrow> k = ping \<or> ping + 1 \<le> k" for k
      by auto
    then show ?thesis
      using Suc.prems by (simp only:) blast
  qed
  show ?case
  proof (cases "ping + 1 < keep")
    case True
    then show ?thesis
      using Suc.hyps(1) [of "ping + 1" "wePing e ping"] Suc.hyps(2) Suc.prems split
      by (auto simp: pingLoop.simps [of e True keep ping])
  next
    case False
    then have k: "keep = ping + 1" using Suc.prems by simp
    show ?thesis
      using split Suc.prems by (auto simp: k pingLoop.simps [of e True _ ping] pingLoop.simps [of e True _ "ping + 1"])
  qed
qed

definition ping_result :: "MqttEnv \<Rightarrow> int \<Rightarrow> int" where
  "ping_result e keep = MqttErrorStatusChange (if \<exists>k. 0 \<le> k \<and> k < keep \<and> wePing e k = MQTT_CODE_SUCCESS
     then MQTT_CODE_SUCCESS else wePing e (keep - 1))"

text \<open>Turns of \<open>LinkMqttLoop\<close>, one for each environment, with their results.\<close>

fun loop_turns :: "MqttEnv list \<Rightarrow> MqttInstance \<Rightarrow> (int list \<times> MqttInstance) run" where
  "loop_turns [] i = Inr ([], i)"
| "loop_turns (e # es) i = and_then (LinkMqttLoop e i) (\<lambda>(rc, i').
     and_then (loop_turns es i') (\<lambda>(rcs, i''). Inr (rc # rcs, i'')))"

lemma LinkMqttLoop_silent:
  assumes c: "mosq i = Ctx c" "keep_alive_sec c = keep" "nPingTimeoutCount c = 0" "connected i"
    and w: "nWaitTimeoutCount c = w" "0 \<le> w" "w < keep" and e: "weWait e = MQTT_CODE_ERROR_TIMEOUT"
  shows "LinkMqttLoop e i = Inr (if w + 1 = keep then ping_result e keep else MQTT_SUCCESS,
    i\<lparr>mosq := Ctx (c\<lparr>nWaitTimeoutCount := (w + 1) mod keep\<rparr>)\<rparr>)"
proof (cases "w + 1 = keep")
  case True
  have "pingLoop e True keep 0 MQTT_CODE_ERROR_TIMEOUT
      = (if \<exists>k. 0 \<le> k \<and> k < keep \<and> wePing e k = MQTT_CODE_SUCCESS
         then MQTT_CODE_SUCCESS else wePing e (keep - 1))"
    using w by (intro pingLoop_result) simp_all
  then show ?thesis
    using c w e True by (simp add: LinkMqttLoop_def with_ctx_def Let_def ping_result_def)
next
  case False
  then have "w + 1 < keep" using w by simp
  then show ?thesis
    using c w e by (simp add: LinkMqttLoop_def with_ctx_def Let_def)
qed

lemma loop_turns_silent:
  assumes "mosq i = Ctx c" "keep_alive_sec c = keep" "nPingTimeoutCount c = 0" "connected i"
    and "nWaitTimeoutCount c = w" "0 \<le> w" "w < keep"
    and "\<forall>e \<in> set es. weWait e = MQTT_CODE_ERROR_TIMEOUT"
  shows "\<exists>i'. loop_turns es i = Inr (map (\<lambda>j. if keep dvd w + int j + 1 then ping_result (es ! j) keep
      else MQTT_SUCCESS) [0..<length es], i') \<and> connected i'"
  using assms
proof (induction es arbitrary: i c w)
  case Nil
  then show ?case by simp
next
  case (Cons e es)
  let ?c = "c\<lparr>nWaitTimeoutCount := (w + 1) mod keep\<rparr>"
  let ?i = "i\<lparr>mosq := Ctx ?c\<rparr>"
  have first: "LinkMqttLoop e i = Inr (if w + 1 = keep then ping_result e keep else MQTT_SUCCESS, ?i)"
    using LinkMqttLoop_silent [OF Cons.prems(1-7)] Cons.prems(8) by simp
  have dvd1: "keep dvd w + 1 \<longleftrightarrow> w + 1 = keep"
    using Cons.prems(6,7) by (auto dest: zdvd_imp_le)
  have shift: "keep dvd (w + 1) mod keep + int j + 1 \<longleftrightarrow> keep dvd w + int (Suc j) + 1" for j
  proof -
    have "((w + 1) mod keep + (int j + 1)) mod keep = ((w + 1) + (int j + 1)) mod keep"
      by (rule mod_add_left_eq)
    then show ?thesis by (simp add: dvd_eq_mod_eq_0 ac_simps)
  qed
  obtain i' where i': "loop_turns es ?i = Inr (map (\<lambda>j. if keep dvd (w + 1) mod keep + int j + 1
      then ping_result (es ! j) keep else MQTT_SUCCESS) [0..<length es], i')" "connected i'"
    using Cons.IH [of ?i ?c "(w + 1) mod keep"] Cons.prems by auto
  have "map (\<lambda>j. if keep dvd w + int j + 1 then ping_result ((e # es) ! j) keep else MQTT_SUCCESS)
      [0..<length (e # es)]
    = (if w + 1 = keep then ping_result e keep else MQTT_SUCCESS)
      # map (\<lambda>j. if keep dvd (w + 1) mod keep + int j + 1 then ping_result (es ! j) keep
          else MQTT_SUCCESS) [0..<length es]"
    unfolding shift by (simp add: map_upt_Suc dvd1 del: upt_Suc)
  then show ?case
    using first i' by simp
qed

text \<open>
  While the broker is silent, the connection is tested once in each keep-alive time and
  never in between: of the successive waits of a second each, every \<open>keep\<close>-th is followed by
  pings, until one is answered or as many failed as the time has seconds; the turn reports success
  in the first case and the last ping's error in the second. The instance stays connected in
  either case.
\<close>

theorem keep_alive_pings:
  assumes "mosq i = Ctx c" "keep_alive_sec c = keep" "0 < keep" "connected i"
    and "nWaitTimeoutCount c = 0" "nPingTimeoutCount c = 0"
    and "\<forall>e \<in> set es. weWait e = MQTT_CODE_ERROR_TIMEOUT"
  shows "\<exists>i'. loop_turns es i = Inr (map (\<lambda>j. if keep dvd int j + 1 then ping_result (es ! j) keep
      else MQTT_SUCCESS) [0..<length es], i') \<and> connected i'"
  using loop_turns_silent [of i c keep 0 es] assms by simp

subsection \<open>Reconnecting\<close>

text \<open>
  Before the attempts to connect the thread pauses a random time below a period that doubles
  with every attempt, from one second up to 64.
\<close>

theorem reconnect_backoff:
  assumes run: "mqtt_run log period i" and down: "\<not> connected i" "mqStatus i \<noteq> STATUS_CONNECTING"
  shows "\<exists>slept i'. LinkMqttThread_turn e rnd period i = Inr (min 64 (2 * period), slept, i')
    \<and> slept = (if period = 1 then [] else [rnd 0 mod period]) \<and> sum_list slept < 64"
proof -
  have inv: "mqtt_inv log period i" by (rule mqtt_run_inv [OF run])
  have p: "period \<in> {1, 2, 4, 8, 16, 32, 64}" using inv by (simp add: mqtt_inv_def)
  obtain c where c: "mosq (i\<lparr>mqStatus := STATUS_CONNECTING\<rparr>) = Ctx c" "hasBuffers c"
    using inv by (auto simp: mqtt_inv_def)
  obtain rc i1 where r: "LinkMqttConnect e (i\<lparr>mqStatus := STATUS_CONNECTING\<rparr>) = Inr (rc, i1)"
    by (rule LinkMqttConnect_result [OF c, of e])
  have "rnd 0 mod period < period" if "1 < period"
    using that by simp
  then have "sum_list (if period = 1 then [] else [rnd 0 mod period]) < 64"
    using p by auto
  moreover have "(if period < 64 then period * 2 else period) = min 64 (2 * period)"
    "(if 1 < period then [rnd 0 mod period] else []) = (if period = 1 then [] else [rnd 0 mod period])"
    using p by auto
  ultimately show ?thesis
    using down r by (simp add: LinkMqttThread_turn_def ClientOptSet_def Let_def)
qed

text \<open>
  The period is never set back: after six connections, however long they lasted, every later
  reconnection waits up to a minute.
\<close>

lemma period_never_falls:
  assumes "mqtt_run log period i" and "LinkMqttThread_turn e rnd period i = Inr (period', slept, i')"
  shows "period \<le> period'"
  using assms mqtt_run_inv [OF assms(1)]
  by (auto simp: LinkMqttThread_turn_def Let_def and_then_eq_Inr mqtt_inv_def ClientOptSet_def
      split: if_splits)

text \<open>
  A broker that no longer answers the pings does not end the connection: the turn reports the
  loss and pauses, and nothing else happens.
\<close>

lemma lost_ping_keeps_connection:
  assumes "connected i" "mqStatus i \<noteq> STATUS_CONNECTING"
    and "LinkMqttLoop e i = Inr (MQTT_ERR_CONN_LOST, i')" "connected i' = connected i"
  shows "\<exists>slept. LinkMqttThread_turn e rnd period i = Inr (period, slept, i') \<and> connected i'"
  using assms by (simp add: LinkMqttThread_turn_def Let_def)

text \<open>The context of the library is never released: a connection lost and made again leaves one behind.\<close>

lemma disconnection_leaks_context:
  assumes "mosq i = Ctx c" "connected i" "\<not> isDestroying i" "mqtt_env_ok e"
  shows "\<exists>i'. OnDisconnectCallback e i MQTT_CODE_ERROR_NETWORK = Inr i' \<and> ctxLeaks i' = ctxLeaks i + 1"
  using assms
  by (simp add: OnDisconnectCallback_def LinkMqttDinit_def LinkMqttInit_def lose_ctx_def Let_def
      mqtt_env_ok_def OnEventCallback_def)

text \<open>When a buffer cannot be allocated, the released context is used by the next attempt to connect.\<close>

lemma failed_init_leaves_dangling_context:
  assumes "weCtxAlloc e" "weNetInit e = MQTT_CODE_SUCCESS" "\<not> weBufAlloc e"
  shows "\<exists>i'. LinkMqttInit e i = (MQTT_ERR_NOMEM, i') \<and> LinkMqttConnect e' i' = Inl Out_of_bounds"
  using assms by (simp add: LinkMqttInit_def LinkMqttConnect_def with_ctx_def Let_def)

subsection \<open>A run\<close>

definition good_env :: MqttEnv where
  "good_env = \<lparr>weCtxAlloc = True, weBufAlloc = True, weNodeAlloc = True, weNetInit = MQTT_CODE_SUCCESS,
     weClientInit = MQTT_CODE_SUCCESS, weNetConnect = MQTT_CODE_SUCCESS, weConnect = MQTT_CODE_SUCCESS,
     weNetDisconnect = MQTT_CODE_SUCCESS, wePublish = MQTT_CODE_SUCCESS,
     weSubscribe = (\<lambda>_. MQTT_CODE_SUCCESS), weUnsubscribe = MQTT_CODE_SUCCESS,
     weWait = MQTT_CODE_ERROR_TIMEOUT, wePing = (\<lambda>_. MQTT_CODE_ERROR_TIMEOUT)\<rparr>"

lemma good_env_ok: "mqtt_env_ok good_env"
  by (simp add: mqtt_env_ok_def good_env_def)

definition fresh_instance :: MqttInstance where
  "fresh_instance = \<lparr>mosq = Ctx \<lparr>hasBuffers = True, keep_alive_sec = 0, nWaitTimeoutCount = 0,
       nPingTimeoutCount = 0\<rparr>, mqStatus = 0, lastStatus = 0, connected = False, isDestroying = False,
     pSubscribeList = [], nKeepalive = 10, hasOnEvent = False, hasOnMessage = True, events = [],
     requests = [], ctxLeaks = 0, mPacketIdLast = 0\<rparr>"

lemma fresh_run: "mqtt_run [] 1 fresh_instance"
  by (rule mqtt_run.mqtt_start [OF good_env_ok, of 0 10 False True 0])
    (simp_all add: LinkMqttThread_start_def LinkMqttInit_def LinkMqttInstanceInit_def good_env_def
      fresh_instance_def lose_ctx_def Let_def)


theorem keep_alive_pings_witness:
  "\<exists>i'. loop_turns [good_env, good_env, good_env] (fresh_instance\<lparr>connected := True,
      mosq := Ctx \<lparr>hasBuffers = True, keep_alive_sec = 2, nWaitTimeoutCount = 0,
        nPingTimeoutCount = 0\<rparr>\<rparr>)
    = Inr ([MQTT_SUCCESS, MQTT_ERR_CONN_LOST, MQTT_SUCCESS], i')"
proof -
  let ?c = "\<lparr>hasBuffers = True, keep_alive_sec = 2, nWaitTimeoutCount = 0, nPingTimeoutCount = 0\<rparr>"
  let ?i = "fresh_instance\<lparr>connected := True, mosq := Ctx ?c\<rparr>"
  have "ping_result good_env 2 = MQTT_ERR_CONN_LOST"
    by (simp add: ping_result_def good_env_def)
  moreover have "\<exists>i'. loop_turns [good_env, good_env, good_env] ?i
      = Inr (map (\<lambda>j. if 2 dvd int j + 1 then ping_result ([good_env, good_env, good_env] ! j) 2
          else MQTT_SUCCESS) [0..<length [good_env, good_env, good_env]], i') \<and> connected i'"
    by (rule keep_alive_pings [of ?i ?c]) (simp_all add: good_env_def)
  ultimately show ?thesis
    by (auto simp: upt_rec simp del: loop_turns.simps)
qed

theorem reconnect_backoff_witness:
  "\<exists>slept i'. LinkMqttThread_turn good_env (\<lambda>_. 5) 1 fresh_instance = Inr (2, slept, i')
    \<and> slept = []"
  using reconnect_backoff [OF fresh_run, of good_env "\<lambda>_. 5"] by (auto simp: fresh_instance_def)

end
