(* ===== verification/Control.thy ===== *)
theory Control
  imports MessageQueue MqttClient TokenConfig
begin

section \<open>Remote commands and log lines over MQTT (libmqtt/control.c)\<close>

text \<open>
  Messages whose topic begins with "linking/v1/" are commands: the network thread puts them in
  the message queue of the session of its MQTT instance, and the application fetches them with
  \<open>LinkRecvIOCtrl\<close> and answers with \<open>LinkSendIOResponse\<close>. The JSON library and the MQTT client's
  publishing are parameters; \<open>parse\<close> reads a block in memory and may run past its end.
\<close>

subsection \<open>State\<close>

text \<open>A message: its blocks are allocated apart; log lines have no request identifier.\<close>

record IoMessage =
  nMessageID :: int
  pReqID :: "bytes option"
  msgBody :: bytes

record LinkIOCtrlInfo =
  pubTopic :: bytes
  subTopic :: bytes
  ioInstance :: "nat option"
  isUsed :: bool
  ioQueue :: "IoMessage MessageQueue option"

definition zeroIoInfo :: LinkIOCtrlInfo where
  "zeroIoInfo = \<lparr>pubTopic = replicate 128 0, subTopic = replicate 128 0, ioInstance = None,
     isUsed = False, ioQueue = None\<rparr>"

text \<open>The sessions and the blocks no pointer leads to any more.\<close>

record IoState =
  ioSessions :: "LinkIOCtrlInfo list"
  ioLost :: nat

definition zeroIoState :: IoState where
  "zeroIoState = \<lparr>ioSessions = replicate 10 zeroIoInfo, ioLost = 0\<rparr>"

subsection \<open>Routing (wolfmqtt.c)\<close>

text \<open>
  The message of the broker is copied, cut to the sizes of the context's buffers, and goes to
  the control channel by the prefix of its topic, or to the application.
\<close>

datatype route = To_control bytes bytes | To_application bytes bytes | Nowhere

definition control_prefix :: bytes where
  "control_prefix = chars ''linking/v1/''"

definition OnMessageCallback :: "bool \<Rightarrow> bytes \<Rightarrow> bytes \<Rightarrow> route" where
  "OnMessageCallback onMessage topicName buffer =
     (if \<not> onMessage then Nowhere
      else
        let topic = take 127 topicName @ replicate (128 - length (take 127 topicName)) 0;
            message = take 1023 buffer
        in if take 11 topic = control_prefix then To_control (c_string topic) message
           else To_application (c_string topic) message)"

subsection \<open>A message arrives\<close>

text \<open>
  \<open>sscanf (topic, "%*[^/]/...%*[^/]/%[^/]/", reqID)\<close>: six non-empty parts are skipped with their
  slashes, and the seventh is stored when it is not empty.
\<close>

definition skipPart :: "bytes \<Rightarrow> bytes option" where
  "skipPart s = (case (takeWhile (\<lambda>c. c \<noteq> 47) s, dropWhile (\<lambda>c. c \<noteq> 47) s) of
     (_ # _, _ # rest) \<Rightarrow> Some rest | _ \<Rightarrow> None)"

fun skipParts :: "nat \<Rightarrow> bytes \<Rightarrow> bytes option" where
  "skipParts 0 s = Some s"
| "skipParts (Suc n) s = (case skipPart s of None \<Rightarrow> None | Some r \<Rightarrow> skipParts n r)"

definition GetReqID :: "bytes \<Rightarrow> bytes \<Rightarrow> bytes run" where
  "GetReqID topic block =
     (case skipParts 6 topic of
        None \<Rightarrow> Inr block
      | Some r \<Rightarrow>
          let seg = takeWhile (\<lambda>c. c \<noteq> 47) r in
          if seg = [] then Inr block else write_at 0 (seg @ [0]) block)"

definition findSession :: "nat \<Rightarrow> LinkIOCtrlInfo list \<Rightarrow> nat option" where
  "findSession inst ss =
     (let n = length (takeWhile (\<lambda>s. \<not> (isUsed s \<and> ioInstance s = Some inst)) ss) in
        if n < length ss then Some n else None)"

text \<open>
  The answers of the allocator for the message, its body and its identifier. On every early
  return something stays allocated.
\<close>

definition OnIOCtrlMessage ::
    "bool \<Rightarrow> heap_answer \<Rightarrow> heap_answer \<Rightarrow> IoState \<Rightarrow> nat \<Rightarrow> bytes \<Rightarrow> bytes \<Rightarrow> nat \<Rightarrow> IoState run" where
  "OnIOCtrlMessage msgOk mBody mReq st inst topic message nLength =
     (case (msgOk, malloc mBody nLength, malloc mReq (length topic)) of
        (True, Some body, Some req) \<Rightarrow>
          and_then (GetReqID topic req) (\<lambda>req.
            case findSession inst (ioSessions st) of
              None \<Rightarrow> Inr (st\<lparr>ioLost := ioLost st + 2\<rparr>)
            | Some i \<Rightarrow>
                and_then (read_at 0 nLength message) (\<lambda>data.
                and_then (write_at 0 data body) (\<lambda>body.
                let s = ioSessions st ! i in
                and_then (SendMessage (ioQueue s)
                    \<lparr>nMessageID = int i, pReqID = Some req, msgBody = body\<rparr>) (\<lambda>q.
                  Inr (st\<lparr>ioSessions := (ioSessions st)[i := s\<lparr>ioQueue := q\<rparr>]\<rparr>)))))
      | (a, b, c) \<Rightarrow> Inr (st\<lparr>ioLost := ioLost st + (if a then 1 else 0) + (if b = None then 0 else 1)
            + (if c = None then 0 else 1)\<rparr>))"

subsection \<open>Sessions\<close>

definition responseTopic :: "bytes \<Rightarrow> bytes \<Rightarrow> bytes" where
  "responseTopic app dev = control_prefix @ app @ [47] @ dev @ chars ''/rpc/response/''"

definition requestTopic :: "bytes \<Rightarrow> bytes \<Rightarrow> bytes" where
  "requestTopic app dev = control_prefix @ app @ [47] @ dev @ chars ''/rpc/request/+/''"

text \<open>\<open>sprintf\<close> into one of the arrays of 128 characters.\<close>

definition printTopic :: "bytes \<Rightarrow> bytes run" where
  "printTopic text = write_at 0 (text @ [0]) (replicate 128 0)"

definition freeSession :: "LinkIOCtrlInfo list \<Rightarrow> nat" where
  "freeSession ss = length (takeWhile isUsed ss)"

text \<open>
  \<open>queue\<close> answers the two allocations of \<open>CreateMessageQueue\<close>, \<open>subscribe\<close> is \<open>LinkMqttSubscribe\<close> on
  the instance.
\<close>

definition LinkInitIOCtrl ::
    "bool \<Rightarrow> (nat \<Rightarrow> IoMessage) option \<Rightarrow> (bytes \<Rightarrow> int) \<Rightarrow> bytes \<Rightarrow> bytes \<Rightarrow> nat option \<Rightarrow> IoState
       \<Rightarrow> (int \<times> IoState) run" where
  "LinkInitIOCtrl structAlloc queue subscribe app dev inst st =
     (let index = freeSession (ioSessions st) in
      if index = 10 then Inr (MQTT_ERR_INVAL, st)
      else (case inst of
          None \<Rightarrow> Inr (MQTT_ERR_INVAL, st)
        | Some _ \<Rightarrow>
            (case CreateMessageQueue structAlloc queue 64 of
               None \<Rightarrow> Inr (MQTT_ERR_NOMEM, st)
             | Some q \<Rightarrow>
                 and_then (printTopic (responseTopic app dev)) (\<lambda>pub.
                 and_then (printTopic (requestTopic app dev)) (\<lambda>sub.
                 let st = st\<lparr>ioSessions := (ioSessions st)[index :=
                       \<lparr>pubTopic = pub, subTopic = sub, ioInstance = inst, isUsed = True,
                        ioQueue = Some q\<rparr>]\<rparr>;
                     ret = subscribe (c_string sub)
                 in Inr (if ret \<noteq> MQTT_SUCCESS then ret else int index, st))))))"

definition LinkDinitIOCtrl :: "int \<Rightarrow> IoState \<Rightarrow> IoState run" where
  "LinkDinitIOCtrl nSession st =
     (if 10 \<le> nSession then Inr st
      else if nSession < 0 then Inl Out_of_bounds
      else
        let n = nat nSession; s = ioSessions st ! n in
        if isUsed s then
          Inr (st\<lparr>ioSessions := (ioSessions st)[n := s\<lparr>ioInstance := None,
              pubTopic := replicate 128 0, subTopic := replicate 128 0, isUsed := False,
              ioQueue := fst (DestroyMessageQueue (ioQueue s))\<rparr>]\<rparr>)
        else Inr st)"

subsection \<open>Fetching a command\<close>

text \<open>
  Access to the JSON library: the parser, the fields of an object, the text of an item, and
  \<open>atoi\<close> of the standard library.
\<close>

record 'j IoJson =
  ijParse :: "bytes \<Rightarrow> 'j option run"
  ijItem :: "'j \<Rightarrow> string \<Rightarrow> 'j option"
  ijPrint :: "'j \<Rightarrow> bytes"
  ijAtoi :: "bytes \<Rightarrow> int"

text \<open>\<open>strlen\<close> and the bytes it counts.\<close>

definition stringOf :: "bytes \<Rightarrow> bytes run" where
  "stringOf b = (if 0 \<in> set b then Inr (c_string b) else Inl Out_of_bounds)"

text \<open>
  The results are the code, the command's type where it is set, the caller's two blocks, and the
  size. The comparison of the size, an \<open>int\<close>, with a length is unsigned. Nothing here ends the
  request identifier or the data with a null byte.
\<close>

definition LinkRecvIOCtrl ::
    "'j IoJson \<Rightarrow> int \<times> int \<Rightarrow> (int \<times> int \<Rightarrow> IoMessage MessageQueue \<Rightarrow> bool \<times> IoMessage MessageQueue)
       \<Rightarrow> int \<Rightarrow> bytes \<Rightarrow> bytes \<Rightarrow> int \<Rightarrow> int \<Rightarrow> IoState
       \<Rightarrow> (int \<times> int option \<times> bytes \<times> bytes \<times> int \<times> IoState) run" where
  "LinkRecvIOCtrl js now wait nSession reqId ioData maxSize nTimeout st =
     (if 10 \<le> nSession then Inr (MQTT_ERR_INVAL, None, reqId, ioData, maxSize, st)
      else if nSession < 0 then Inl Out_of_bounds
      else
        let n = nat nSession; s = ioSessions st ! n in
        if \<not> isUsed s then Inr (MQTT_ERR_INVAL, None, reqId, ioData, maxSize, st)
        else
          and_then (ReceiveMessageTimeout now wait (ioQueue s) nTimeout) (\<lambda>(msg, q).
          let st = st\<lparr>ioSessions := (ioSessions st)[n := s\<lparr>ioQueue := q\<rparr>]\<rparr> in
          case msg of
            None \<Rightarrow> Inr (MQTT_RETRY, None, reqId, ioData, maxSize, st)
          | Some m \<Rightarrow>
              and_then (ijParse js (msgBody m)) (\<lambda>json.
              let lost = st\<lparr>ioLost := ioLost st + 3\<rparr> in
              case json of
                None \<Rightarrow> Inr (MQTT_ERR_NOMEM, None, reqId, ioData, maxSize, lost)
              | Some j \<Rightarrow>
                  (case ijItem js j ''action'' of
                     None \<Rightarrow> Inr (MQTT_ERR_NOMEM, None, reqId, ioData, maxSize, lost)
                   | Some a \<Rightarrow>
                       let ty = ijAtoi js (ijPrint js a) in
                       (case ijItem js j ''params'' of
                          None \<Rightarrow> Inr (MQTT_SUCCESS, Some ty, reqId, ioData, maxSize, lost)
                        | Some p \<Rightarrow>
                            let params = ijPrint js p;
                                size = (if maxSize < 0 \<or> int (length params) < maxSize
                                        then int (length params) else maxSize)
                            in and_then (case pReqID m of None \<Rightarrow> Inl Null_deref | Some r \<Rightarrow> stringOf r) (\<lambda>rid.
                               and_then (write_at 0 rid reqId) (\<lambda>reqId.
                               and_then (write_at 0 (take (nat size) params) ioData) (\<lambda>ioData.
                                 Inr (MQTT_SUCCESS, Some ty, reqId, ioData, size,
                                   st\<lparr>ioLost := ioLost st + 1\<rparr>)))))))))"

subsection \<open>Answering\<close>

datatype response = Resp_value bytes | Resp_error int bytes

definition CreateResponse :: "bool \<Rightarrow> int \<Rightarrow> bytes \<Rightarrow> response option" where
  "CreateResponse alloc nIOErrorCode ioData =
     (if \<not> alloc then None
      else Some (if nIOErrorCode = 0 then Resp_value ioData else Resp_error nIOErrorCode ioData))"

text \<open>The topic keeps the placeholders the broker replaces. \<open>publish\<close> is \<open>LinkMqttPublish\<close>.\<close>

definition answerTopic :: "bytes \<Rightarrow> bytes" where
  "answerTopic reqId = responseTopic (chars ''${appid}'') (chars ''${device}'') @ reqId @ [47]"

definition LinkSendIOResponse ::
    "bool \<Rightarrow> (response \<Rightarrow> bytes) \<Rightarrow> (nat option \<Rightarrow> bytes \<Rightarrow> bytes \<Rightarrow> int) \<Rightarrow> int \<Rightarrow> bytes \<Rightarrow> int \<Rightarrow> bytes
       \<Rightarrow> IoState \<Rightarrow> (int \<times> (bytes \<times> bytes) option \<times> IoState) run" where
  "LinkSendIOResponse alloc print publish nSession reqId code ioData st =
     (if 10 \<le> nSession then Inr (MQTT_ERR_INVAL, None, st)
      else if nSession < 0 then Inl Out_of_bounds
      else
        let n = nat nSession; s = ioSessions st ! n in
        if \<not> isUsed s then Inr (MQTT_ERR_INVAL, None, st)
        else (case CreateResponse alloc code ioData of
            None \<Rightarrow> Inr (MQTT_ERR_NOMEM, None, st)
          | Some r \<Rightarrow>
              and_then (printTopic (answerTopic reqId)) (\<lambda>pub.
                Inr (publish (ioInstance s) (c_string pub) (print r),
                     Some (c_string pub, print r),
                     st\<lparr>ioSessions := (ioSessions st)[n := s\<lparr>pubTopic := pub\<rparr>]\<rparr>))))"

subsection \<open>Log lines\<close>

text \<open>\<open>LinkInitLog\<close>; the last component says whether the thread was started.\<close>

definition LinkInitLog ::
    "bool \<Rightarrow> (nat \<Rightarrow> IoMessage) option \<Rightarrow> nat option \<Rightarrow> LinkIOCtrlInfo \<Rightarrow> int \<times> LinkIOCtrlInfo \<times> bool" where
  "LinkInitLog structAlloc queue inst s =
     (if isUsed s then (MQTT_ERR_INVAL, s, False)
      else if inst = None then (MQTT_ERR_INVAL, s, False)
      else (case CreateMessageQueue structAlloc queue 64 of
          None \<Rightarrow> (MQTT_ERR_NOMEM, s\<lparr>ioQueue := None\<rparr>, False)
        | Some q \<Rightarrow>
            (1, s\<lparr>ioQueue := Some q,
               pubTopic := overwrite 0 (chars ''linking/v1/${appid}/${device}/stats'') (replicate 128 0),
               ioInstance := inst, isUsed := True\<rparr>, True)))"

definition LinkSendLog ::
    "bool \<Rightarrow> heap_answer \<Rightarrow> int \<Rightarrow> bytes \<Rightarrow> nat \<Rightarrow> LinkIOCtrlInfo \<Rightarrow> (int \<times> LinkIOCtrlInfo) run" where
  "LinkSendLog msgOk mem level pLog nLength s =
     (case (msgOk, malloc mem nLength) of
        (True, Some body) \<Rightarrow>
          and_then (read_at 0 nLength pLog) (\<lambda>data.
          and_then (write_at 0 data body) (\<lambda>body.
          case ioQueue s of
            None \<Rightarrow> Inl Null_deref
          | Some q \<Rightarrow>
              if nSize q = nCapacity q then Inr (MQTT_QUEUE_FULL, s)
              else and_then (SendMessage (Some q) \<lparr>nMessageID = level, pReqID = None, msgBody = body\<rparr>)
                (\<lambda>q'. Inr (1, s\<lparr>ioQueue := q'\<rparr>))))
      | _ \<Rightarrow> Inr (MQTT_ERR_NOMEM, s))"

text \<open>
  One turn of \<open>LinkLogThread\<close>: what it publishes, whether it goes on. The length of the body is
  taken with \<open>strlen\<close>.
\<close>

definition LinkLogThread_turn ::
    "int \<times> int \<Rightarrow> (int \<times> int \<Rightarrow> IoMessage MessageQueue \<Rightarrow> bool \<times> IoMessage MessageQueue)
       \<Rightarrow> LinkIOCtrlInfo \<Rightarrow> ((bytes \<times> bytes) option \<times> bool \<times> LinkIOCtrlInfo) run" where
  "LinkLogThread_turn now wait s =
     and_then (ReceiveMessageTimeout now wait (ioQueue s) 1000) (\<lambda>(msg, q).
     let s = s\<lparr>ioQueue := q\<rparr> in
     case msg of
       None \<Rightarrow> Inr (None, isUsed s, s)
     | Some m \<Rightarrow>
         and_then (printTopic (c_string (pubTopic s) @ [47] @ print_int (nMessageID m))) (\<lambda>topic.
         and_then (stringOf (msgBody m)) (\<lambda>text.
           Inr (Some (c_string topic, text), isUsed s, s))))"

definition LinkDinitLog_stop :: "LinkIOCtrlInfo \<Rightarrow> LinkIOCtrlInfo" where
  "LinkDinitLog_stop s = s\<lparr>isUsed := False\<rparr>"

definition LinkDinitLog_joined :: "LinkIOCtrlInfo \<Rightarrow> LinkIOCtrlInfo" where
  "LinkDinitLog_joined s = s\<lparr>ioQueue := fst (DestroyMessageQueue (ioQueue s)),
     pubTopic := replicate 128 0, subTopic := replicate 128 0, ioInstance := None\<rparr>"

subsection \<open>The state of the sessions\<close>

definition session_ok :: "LinkIOCtrlInfo \<Rightarrow> bool" where
  "session_ok s \<longleftrightarrow> (isUsed s \<longrightarrow> (\<exists>q. ioQueue s = Some q \<and> mq_inv 64 q))"

definition io_ok :: "IoState \<Rightarrow> bool" where
  "io_ok st \<longleftrightarrow> length (ioSessions st) = 10 \<and> (\<forall>s \<in> set (ioSessions st). session_ok s)"

lemma zeroIoState_ok: "io_ok zeroIoState"
  by (simp add: io_ok_def zeroIoState_def session_ok_def zeroIoInfo_def)

lemma io_ok_update: "io_ok st \<Longrightarrow> session_ok s \<Longrightarrow> io_ok (st\<lparr>ioSessions := (ioSessions st)[n := s]\<rparr>)"
  by (auto simp: io_ok_def dest: set_update_subset_insert [THEN subsetD])

lemma io_ok_lost [simp]: "io_ok (st\<lparr>ioLost := k\<rparr>) = io_ok st"
  by (simp add: io_ok_def)

lemma findSession_used:
  assumes "io_ok st" and "findSession inst (ioSessions st) = Some i"
  obtains q where "i < 10" "isUsed (ioSessions st ! i)" "ioInstance (ioSessions st ! i) = Some inst"
    "ioQueue (ioSessions st ! i) = Some q" "mq_inv 64 q"
proof -
  let ?P = "\<lambda>s. \<not> (isUsed s \<and> ioInstance s = Some inst)"
  have i: "i = length (takeWhile ?P (ioSessions st))" "i < length (ioSessions st)"
    using assms(2) by (auto simp: findSession_def Let_def split: if_splits)
  then have u: "isUsed (ioSessions st ! i)" "ioInstance (ioSessions st ! i) = Some inst"
    using nth_length_takeWhile [of ?P "ioSessions st"] by simp_all
  moreover have "session_ok (ioSessions st ! i)"
    using assms(1) i(2) by (simp add: io_ok_def)
  ultimately show thesis
    using that assms(1) i(2) by (auto simp: session_ok_def io_ok_def)
qed

subsection \<open>The parts of a topic\<close>

lemma skipPart_part: "a \<noteq> [] \<Longrightarrow> 47 \<notin> set a \<Longrightarrow> skipPart (a @ 47 # r) = Some r"
  by (cases a) (auto simp: skipPart_def takeWhile_append dropWhile_append)

definition command_topic :: "bytes \<Rightarrow> bytes \<Rightarrow> bytes \<Rightarrow> bytes" where
  "command_topic app dev rid = control_prefix @ app @ [47] @ dev @ chars ''/rpc/request/'' @ rid @ [47]"

lemma GetReqID_command:
  assumes "app \<noteq> []" "47 \<notin> set app" "dev \<noteq> []" "47 \<notin> set dev" "rid \<noteq> []" "47 \<notin> set rid"
    and "length block = length (command_topic app dev rid)"
  shows "\<exists>r. GetReqID (command_topic app dev rid) block = Inr (rid @ 0 # r)"
proof -
  let ?l = "chars ''linking''" and ?v = "chars ''v1''" and ?p = "chars ''rpc''" and ?q = "chars ''request''"
  have t: "command_topic app dev rid
      = ?l @ 47 # ?v @ 47 # app @ 47 # dev @ 47 # ?p @ 47 # ?q @ 47 # rid @ [47]"
    by (simp add: command_topic_def control_prefix_def chars_def)
  have parts: "?l \<noteq> []" "47 \<notin> set ?l" "?v \<noteq> []" "47 \<notin> set ?v" "?p \<noteq> []" "47 \<notin> set ?p" "?q \<noteq> []"
    "47 \<notin> set ?q"
    by (simp_all add: chars_def)
  have "skipParts 6 (command_topic app dev rid) = Some (rid @ [47])"
    unfolding t by (simp add: eval_nat_numeral skipPart_part parts assms(1-4))
  moreover have "takeWhile (\<lambda>c. c \<noteq> 47) (rid @ [47]) = rid"
    using assms(6) by (subst takeWhile_append2) auto
  moreover have "write_at 0 (rid @ [0]) block = Inr (rid @ 0 # drop (length rid + 1) block)"
    using assms(7) by (simp add: write_at_def overwrite_def t)
  ultimately show ?thesis
    using assms(5) by (simp add: GetReqID_def)
qed

text \<open>Whatever the topic, the identifier fits the block allocated for it.\<close>

lemma skipPart_length: "skipPart s = Some r \<Longrightarrow> length r + 2 \<le> length s"
proof -
  assume "skipPart s = Some r"
  then obtain a as where "takeWhile (\<lambda>c. c \<noteq> 47) s = a # as" and "\<exists>b. dropWhile (\<lambda>c. c \<noteq> 47) s = b # r"
    by (auto simp: skipPart_def split: list.splits)
  then obtain b where "s = (a # as) @ b # r"
    by (metis takeWhile_dropWhile_id)
  then show ?thesis by simp
qed

lemma skipParts_length: "skipParts n s = Some r \<Longrightarrow> length r + 2 * n \<le> length s"
proof (induction n arbitrary: s)
  case 0
  then show ?case by simp
next
  case (Suc n)
  then obtain x where "skipPart s = Some x" "skipParts n x = Some r"
    by (auto split: option.splits)
  then show ?case
    using Suc.IH [of x] skipPart_length [of s x] by simp
qed

lemma GetReqID_fits:
  assumes "length block = length topic"
  obtains block' where "GetReqID topic block = Inr block'" "length block' = length block"
proof (cases "skipParts 6 topic")
  case None
  then show thesis using that by (simp add: GetReqID_def)
next
  case (Some r)
  have "length (takeWhile (\<lambda>c. c \<noteq> 47) r) + 12 \<le> length topic"
    using skipParts_length [OF Some] length_takeWhile_le [of "\<lambda>c. c \<noteq> 47" r] by linarith
  then have fits: "length (takeWhile (\<lambda>c. c \<noteq> 47) r @ [0]) \<le> length block"
    using assms by simp
  show thesis
  proof (cases "takeWhile (\<lambda>c. c \<noteq> 47) r = []")
    case True
    then show thesis using Some that by (simp add: GetReqID_def)
  next
    case False
    then show thesis
      using Some fits that [of "overwrite 0 (takeWhile (\<lambda>c. c \<noteq> 47) r @ [0]) block"]
      by (simp add: GetReqID_def write_at_def)
  qed
qed

subsection \<open>Delivery\<close>

lemma OnIOCtrlMessage_queues:
  assumes ok: "io_ok st" and f: "findSession inst (ioSessions st) = Some i"
    and len: "nLength \<le> length message"
  obtains q q' req where "ioQueue (ioSessions st ! i) = Some q" "mq_inv 64 q"
    "GetReqID topic (map jr [0..<length topic]) = Inr req"
    "OnIOCtrlMessage True (Some jb) (Some jr) st inst topic message nLength
      = Inr (st\<lparr>ioSessions := (ioSessions st)[i := (ioSessions st ! i)\<lparr>ioQueue := Some q'\<rparr>]\<rparr>)"
    "mq_inv 64 q'" "mq_items q' = last_n 64 (mq_items q
      @ [\<lparr>nMessageID = int i, pReqID = Some req, msgBody = take nLength message\<rparr>])"
proof -
  obtain q where q: "ioQueue (ioSessions st ! i) = Some q" "mq_inv 64 q"
    using findSession_used [OF ok f] by metis
  obtain req where req: "GetReqID topic (map jr [0..<length topic]) = Inr req"
    by (rule GetReqID_fits [of "map jr [0..<length topic]" topic]) simp_all
  let ?m = "\<lparr>nMessageID = int i, pReqID = Some req, msgBody = take nLength message\<rparr>"
  obtain q' where q': "SendMessage (Some q) ?m = Inr (Some q')" "mq_inv 64 q'"
    "mq_items q' = last_n 64 (mq_items q @ [?m])"
    using SendMessage_latest [OF q(2), of ?m] by blast
  have "write_at 0 (take nLength message) (map jb [0..<nLength]) = Inr (take nLength message)"
    using len by (simp add: write_at_def overwrite_def)
  then show thesis
    using that [OF q req _ q'(2,3)] f len req q'(1) q(1)
    by (simp add: OnIOCtrlMessage_def malloc_def read_at_def Let_def)
qed

text \<open>
  Messages are kept apart by instance: a message changes only the queue of the first session
  of its instance, and it never faults.
\<close>

theorem command_queue_isolated:
  assumes ok: "io_ok st" and "nLength \<le> length message"
  shows "\<exists>st'. OnIOCtrlMessage True (Some jb) (Some jr) st inst topic message nLength = Inr st'
    \<and> io_ok st' \<and> (\<forall>k < 10. findSession inst (ioSessions st) \<noteq> Some k
        \<longrightarrow> ioSessions st' ! k = ioSessions st ! k)"
proof (cases "findSession inst (ioSessions st)")
  case None
  obtain req where "GetReqID topic (map jr [0..<length topic]) = Inr req"
    by (rule GetReqID_fits [of "map jr [0..<length topic]" topic]) simp_all
  then show ?thesis
    using None ok by (simp add: OnIOCtrlMessage_def malloc_def)
next
  case (Some i)
  obtain q' where q': "OnIOCtrlMessage True (Some jb) (Some jr) st inst topic message nLength
      = Inr (st\<lparr>ioSessions := (ioSessions st)[i := (ioSessions st ! i)\<lparr>ioQueue := Some q'\<rparr>]\<rparr>)"
    "mq_inv 64 q'"
    using OnIOCtrlMessage_queues [OF ok Some assms(2)] by metis
  have "session_ok ((ioSessions st ! i)\<lparr>ioQueue := Some q'\<rparr>)"
    using q'(2) by (simp add: session_ok_def)
  then show ?thesis
    using q'(1) io_ok_update [OF ok] Some by (intro exI conjI) auto
qed

lemma findSession_none: "findSession inst ss = None \<Longrightarrow> s \<in> set ss \<Longrightarrow> \<not> (isUsed s \<and> ioInstance s = Some inst)"
proof -
  assume a: "findSession inst ss = None" and s: "s \<in> set ss"
  let ?P = "\<lambda>s. \<not> (isUsed s \<and> ioInstance s = Some inst)"
  have "length (takeWhile ?P ss) = length ss"
    using a length_takeWhile_le [of ?P ss] by (auto simp: findSession_def Let_def split: if_splits)
  then have "takeWhile ?P ss = ss"
    by (metis takeWhile_eq_take take_all_iff order_refl)
  then have "\<forall>x \<in> set ss. ?P x"
    by (simp only: takeWhile_eq_all_conv)
  with s show ?thesis by blast
qed

lemma findSession_new:
  assumes "findSession inst ss = None" and "n < length ss" and "isUsed s" "ioInstance s = Some inst"
  shows "findSession inst (ss[n := s]) = Some n"
proof -
  let ?P = "\<lambda>s. \<not> (isUsed s \<and> ioInstance s = Some inst)"
  have "takeWhile ?P (ss[n := s]) = take n ss"
  proof -
    have "ss[n := s] = take n ss @ s # drop (Suc n) ss"
      by (rule upd_conv_take_nth_drop [OF assms(2)])
    moreover have "\<forall>x \<in> set (take n ss). ?P x"
      using findSession_none [OF assms(1)] by (auto dest: in_set_takeD)
    ultimately show ?thesis
      using assms(3,4) by (simp add: takeWhile_append2)
  qed
  then show ?thesis
    using assms(2) by (simp add: findSession_def Let_def)
qed

lemma LinkInitIOCtrl_result:
  assumes st: "io_ok st" "freeSession (ioSessions st) = n" "n < 10"
    and short: "length (requestTopic app dev) < 128" and sub: "subscribe (c_string (requestTopic app dev)) = MQTT_SUCCESS"
    and plain: "0 \<notin> set (requestTopic app dev)"
  obtains q s where "LinkInitIOCtrl True (Some junk) subscribe app dev (Some inst) st
      = Inr (int n, st\<lparr>ioSessions := (ioSessions st)[n := s]\<rparr>)"
    "isUsed s" "ioInstance s = Some inst" "ioQueue s = Some q" "mq_inv 64 q" "mq_items q = []"
proof -
  obtain q where q: "CreateMessageQueue True (Some junk) 64 = Some q"
    by (simp add: CreateMessageQueue_def)
  have len: "length (responseTopic app dev) < 128"
    using short by (simp add: requestTopic_def responseTopic_def chars_def)
  have p1: "printTopic (responseTopic app dev) = Inr (overwrite 0 (responseTopic app dev @ [0]) (replicate 128 0))"
    using len by (simp add: printTopic_def write_at_def del: replicate_Suc)
  have p2: "printTopic (requestTopic app dev) = Inr (overwrite 0 (requestTopic app dev @ [0]) (replicate 128 0))"
    using short by (simp add: printTopic_def write_at_def del: replicate_Suc)
  have c: "c_string (overwrite 0 (requestTopic app dev @ [0]) (replicate 128 0)) = requestTopic app dev"
    "c_string (requestTopic app dev) = requestTopic app dev"
    using plain by (simp_all add: overwrite_def c_string_def takeWhile_tail takeWhile_append2
        takeWhile_eq_all_conv del: replicate_Suc) (metis takeWhile_eq_all_conv)+
  show thesis
    by (rule that [where q = q and s = "\<lparr>pubTopic = overwrite 0 (responseTopic app dev @ [0]) (replicate 128 0),
            subTopic = overwrite 0 (requestTopic app dev @ [0]) (replicate 128 0), ioInstance = Some inst,
            isUsed = True, ioQueue = Some q\<rparr>"])
      (use st sub q p1 p2 c CreateMessageQueue_new [OF q] in
        \<open>simp_all add: LinkInitIOCtrl_def Let_def del: replicate_Suc\<close>)
qed

text \<open>Fetching the only message of a session.\<close>

lemma LinkRecvIOCtrl_message:
  assumes n: "n < 10" and len: "length (ioSessions st) = 10"
    and s: "isUsed (ioSessions st ! n)" "ioQueue (ioSessions st ! n) = Some q" "mq_inv 64 q"
    and m: "mq_items q = \<lparr>nMessageID = int n, pReqID = Some (rid @ 0 # r), msgBody = body\<rparr> # ms"
    and rid: "0 \<notin> set rid" "length rid \<le> length reqBuf"
    and js: "ijParse js body = Inr (Some j)" "ijItem js j ''action'' = Some a" "ijItem js j ''params'' = Some p"
    and size: "0 \<le> maxSize" "nat (min maxSize (int (length (ijPrint js p)))) \<le> length ioData"
  defines "sz \<equiv> min maxSize (int (length (ijPrint js p)))"
  shows "\<exists>st'. LinkRecvIOCtrl js now wait (int n) reqBuf ioData maxSize t st = Inr (MQTT_SUCCESS,
      Some (ijAtoi js (ijPrint js a)), overwrite 0 rid reqBuf,
      overwrite 0 (take (nat sz) (ijPrint js p)) ioData, sz, st')"
proof -
  obtain q' where q': "takeMessage q = Inr (Some \<lparr>nMessageID = int n, pReqID = Some (rid @ 0 # r),
      msgBody = body\<rparr>, q')"
    using takeMessage_oldest [OF s(3) m] by blast
  have "nSize q \<noteq> 0"
    using m s(3) mq_items_Nil [OF s(3)] by simp
  then have recv: "ReceiveMessageTimeout now wait (Some q) t = Inr (Some \<lparr>nMessageID = int n,
      pReqID = Some (rid @ 0 # r), msgBody = body\<rparr>, Some q')"
    by (simp add: ReceiveMessageTimeout_def q')
  have str: "stringOf (rid @ 0 # r) = Inr rid"
  proof -
    have "takeWhile (\<lambda>x. x \<noteq> 0) (rid @ 0 # r) = rid"
      using rid(1) by (subst takeWhile_append2) auto
    then show ?thesis by (simp add: stringOf_def c_string_def)
  qed
  have w: "write_at 0 rid reqBuf = Inr (overwrite 0 rid reqBuf)"
    using rid(2) by (simp add: write_at_def)
  have sz: "(if maxSize < 0 \<or> int (length (ijPrint js p)) < maxSize then int (length (ijPrint js p)) else maxSize) = sz"
    using size(1) by (auto simp: sz_def)
  have w2: "write_at 0 (take (nat sz) (ijPrint js p)) ioData
      = Inr (overwrite 0 (take (nat sz) (ijPrint js p)) ioData)"
    using size by (simp add: write_at_def sz_def)
  show ?thesis
    using n s(1,2) by (simp add: LinkRecvIOCtrl_def Let_def recv js str w sz w2)
qed

text \<open>
  C36: A command reaches the application: after \<open>LinkInitIOCtrl\<close> has made the session of an
  instance, a message for it, whose topic names the application, the device and a request, is
  the next thing \<open>LinkRecvIOCtrl\<close> returns, with the command's action, its parameters cut to the
  caller's size, and the request's identifier.
\<close>

theorem remote_command_delivered:
  assumes st: "io_ok st" "freeSession (ioSessions st) = n" "n < 10" "findSession inst (ioSessions st) = None"
    and names: "app \<noteq> []" "47 \<notin> set app" "0 \<notin> set app" "dev \<noteq> []" "47 \<notin> set dev" "0 \<notin> set dev"
      "rid \<noteq> []" "47 \<notin> set rid" "0 \<notin> set rid" "length app + length dev \<le> 96"
    and sub: "\<forall>topic. subscribe topic = MQTT_SUCCESS"
    and js: "ijParse js (take nLength message) = Inr (Some j)" "ijItem js j ''action'' = Some a"
      "ijItem js j ''params'' = Some p"
    and room: "nLength \<le> length message" "length rid \<le> length reqBuf" "0 \<le> maxSize"
      "nat (min maxSize (int (length (ijPrint js p)))) \<le> length ioData"
  shows "\<exists>st1 st2 st3 sz. LinkInitIOCtrl True (Some junk) subscribe app dev (Some inst) st = Inr (int n, st1)
    \<and> OnIOCtrlMessage True (Some jb) (Some jr) st1 inst (command_topic app dev rid) message nLength = Inr st2
    \<and> sz = min maxSize (int (length (ijPrint js p)))
    \<and> LinkRecvIOCtrl js now wait (int n) reqBuf ioData maxSize t st2 = Inr (MQTT_SUCCESS,
        Some (ijAtoi js (ijPrint js a)), overwrite 0 rid reqBuf,
        overwrite 0 (take (nat sz) (ijPrint js p)) ioData, sz, st3)"
proof -
  have short: "length (requestTopic app dev) < 128" and plain: "0 \<notin> set (requestTopic app dev)"
    using names by (auto simp: requestTopic_def control_prefix_def chars_def)
  obtain q0 s where init: "LinkInitIOCtrl True (Some junk) subscribe app dev (Some inst) st
      = Inr (int n, st\<lparr>ioSessions := (ioSessions st)[n := s]\<rparr>)"
    and s: "isUsed s" "ioInstance s = Some inst" "ioQueue s = Some q0" "mq_inv 64 q0" "mq_items q0 = []"
    by (rule LinkInitIOCtrl_result [OF st(1-3) short _ plain, of subscribe junk inst])
      (use sub in simp)
  let ?st1 = "st\<lparr>ioSessions := (ioSessions st)[n := s]\<rparr>"
  have len: "length (ioSessions st) = 10" using st(1) by (simp add: io_ok_def)
  have ok1: "io_ok ?st1"
    using io_ok_update [OF st(1)] s(3,4) by (simp add: session_ok_def)
  have f: "findSession inst (ioSessions ?st1) = Some n"
    using findSession_new [OF st(4) _ s(1,2)] st(3) len by simp
  obtain r where r: "GetReqID (command_topic app dev rid) (map jr [0..<length (command_topic app dev rid)])
      = Inr (rid @ 0 # r)"
    using GetReqID_command [of app dev rid] names by fastforce
  obtain q q' req where d: "ioQueue (ioSessions ?st1 ! n) = Some q"
    "GetReqID (command_topic app dev rid) (map jr [0..<length (command_topic app dev rid)]) = Inr req"
    "OnIOCtrlMessage True (Some jb) (Some jr) ?st1 inst (command_topic app dev rid) message nLength
      = Inr (?st1\<lparr>ioSessions := (ioSessions ?st1)[n := (ioSessions ?st1 ! n)\<lparr>ioQueue := Some q'\<rparr>]\<rparr>)"
    "mq_inv 64 q'" "mq_items q' = last_n 64 (mq_items q
      @ [\<lparr>nMessageID = int n, pReqID = Some req, msgBody = take nLength message\<rparr>])"
    by (rule OnIOCtrlMessage_queues [OF ok1 f room(1)])
  let ?st2 = "?st1\<lparr>ioSessions := (ioSessions ?st1)[n := (ioSessions ?st1 ! n)\<lparr>ioQueue := Some q'\<rparr>]\<rparr>"
  have items: "mq_items q' = [\<lparr>nMessageID = int n, pReqID = Some (rid @ 0 # r), msgBody = take nLength message\<rparr>]"
    using d r s(3,5) st(3) len by (simp add: last_n_def)
  have s2: "length (ioSessions ?st2) = 10" "isUsed (ioSessions ?st2 ! n)" "ioQueue (ioSessions ?st2 ! n) = Some q'"
    using st(3) len s(1) by simp_all
  obtain st3 where "LinkRecvIOCtrl js now wait (int n) reqBuf ioData maxSize t ?st2 = Inr (MQTT_SUCCESS,
        Some (ijAtoi js (ijPrint js a)), overwrite 0 rid reqBuf,
        overwrite 0 (take (nat (min maxSize (int (length (ijPrint js p))))) (ijPrint js p)) ioData,
        min maxSize (int (length (ijPrint js p))), st3)"
    using LinkRecvIOCtrl_message [OF st(3) s2 d(4) items names(9) room(2) js room(3,4), of now wait t] by blast
  then show ?thesis
    using init d(3) by blast
qed

text \<open>The answer to a request goes to the topic that ends with its identifier.\<close>

lemma response_topic:
  assumes "0 \<le> n" "n < 10" "isUsed (ioSessions st ! nat n)" "length rid \<le> 70" "0 \<notin> set rid"
  shows "\<exists>st'. LinkSendIOResponse True print publish n rid code ioData st
    = Inr (publish (ioInstance (ioSessions st ! nat n)) (answerTopic rid)
        (print (if code = 0 then Resp_value ioData else Resp_error code ioData)),
      Some (answerTopic rid, print (if code = 0 then Resp_value ioData else Resp_error code ioData)), st')"
proof -
  have "0 \<notin> set (answerTopic rid)"
    using assms(5) by (simp add: answerTopic_def responseTopic_def control_prefix_def chars_def)
  then have t: "takeWhile (\<lambda>x. x \<noteq> 0) (answerTopic rid @ 0 # r) = answerTopic rid" for r
    by (subst takeWhile_append2) auto
  have "length (answerTopic rid) < 128"
    using assms(4) by (simp add: answerTopic_def responseTopic_def control_prefix_def chars_def)
  then have "printTopic (answerTopic rid) = Inr (overwrite 0 (answerTopic rid @ [0]) (replicate 128 0))"
    by (simp add: printTopic_def write_at_def del: replicate_Suc)
  moreover have "c_string (overwrite 0 (answerTopic rid @ [0]) (replicate 128 0)) = answerTopic rid"
    by (simp add: overwrite_def c_string_def t del: replicate_Suc)
  ultimately show ?thesis
    using assms(1-3) by (simp add: LinkSendIOResponse_def CreateResponse_def Let_def)
qed

subsection \<open>Errors\<close>

text \<open>
  The body of a message has no null byte at its end. A parser that has not found the end of the
  value by then reads on behind the block, so a command cut short by its sender makes the fetch
  fault.
\<close>

lemma truncated_command_overreads:
  assumes "n < 10" "isUsed (ioSessions st ! n)" "ioQueue (ioSessions st ! n) = Some q" "mq_inv 64 q"
    and "mq_items q = m # ms" "ijParse js (msgBody m) = Inl Out_of_bounds"
  shows "LinkRecvIOCtrl js now wait (int n) reqBuf ioData maxSize t st = Inl Out_of_bounds"
proof -
  obtain q' where "takeMessage q = Inr (Some m, q')"
    using takeMessage_oldest [OF assms(4,5)] by blast
  moreover have "nSize q \<noteq> 0"
    using mq_items_Nil [OF assms(4)] assms(5) by simp
  ultimately show ?thesis
    using assms by (simp add: LinkRecvIOCtrl_def ReceiveMessageTimeout_def Let_def)
qed

text \<open>The log thread takes the length of a line with \<open>strlen\<close>, but lines have no null byte at the end.\<close>

lemma log_line_overreads:
  assumes "ioQueue s = Some q" "mq_inv 64 q" "mq_items q = m # ms" "0 \<notin> set (msgBody m)"
  shows "\<exists>f. LinkLogThread_turn now wait s = Inl f"
proof -
  obtain q' where "takeMessage q = Inr (Some m, q')"
    using takeMessage_oldest [OF assms(2,3)] by blast
  moreover have "nSize q \<noteq> 0"
    using mq_items_Nil [OF assms(2)] assms(3) by simp
  moreover have "stringOf (msgBody m) = Inl Out_of_bounds"
    using assms(4) by (simp add: stringOf_def)
  ultimately show ?thesis
    using assms(1) by (cases "printTopic (c_string (pubTopic s) @ [47] @ print_int (nMessageID m))")
      (simp_all add: LinkLogThread_turn_def ReceiveMessageTimeout_def)
qed

lemma sent_log_line_has_no_end:
  assumes "ioQueue s = Some q" "mq_inv 64 q" "nSize q < 64" "n \<le> length l" "0 \<notin> set l"
  shows "\<exists>q' m. LinkSendLog True (Some j) level l n s = Inr (1, s\<lparr>ioQueue := Some q'\<rparr>)
    \<and> mq_items q' = last_n 64 (mq_items q @ [m]) \<and> 0 \<notin> set (msgBody m)"
proof -
  let ?m = "\<lparr>nMessageID = level, pReqID = None, msgBody = take n l\<rparr>"
  obtain q' where q': "SendMessage (Some q) ?m = Inr (Some q')" "mq_items q' = last_n 64 (mq_items q @ [?m])"
    using SendMessage_latest [OF assms(2), of ?m] by blast
  have "nCapacity q = 64" using assms(2) by (simp add: mq_inv_def)
  moreover have "0 \<notin> set (take n l)" using assms(5) by (auto dest: in_set_takeD)
  ultimately show ?thesis
    using assms(1,3,4) q'
    by (intro exI [of _ q'] exI [of _ ?m])
      (simp add: LinkSendLog_def malloc_def read_at_def write_at_def overwrite_def)
qed

text \<open>Before \<open>LinkInitLog\<close>, or after a failed one, sending a line reads through a null pointer.\<close>

lemma log_before_init_faults:
  "n \<le> length l \<Longrightarrow> LinkSendLog True (Some j) level l n zeroIoInfo = Inl Null_deref"
  by (simp add: LinkSendLog_def malloc_def read_at_def write_at_def zeroIoInfo_def)

text \<open>A session whose subscription failed stays in use, and its number is not returned.\<close>

lemma failed_subscription_keeps_session:
  assumes "LinkInitIOCtrl a (Some junk) subscribe app dev (Some inst) st = Inr (ret, st')"
    and "\<forall>t. subscribe t = MQTT_ERR_ERRNO" "io_ok st" "freeSession (ioSessions st) < 10" "a"
  shows "ret = MQTT_ERR_ERRNO \<and> isUsed (ioSessions st' ! freeSession (ioSessions st))"
proof -
  obtain q where q: "CreateMessageQueue True (Some junk) 64 = Some q"
    by (simp add: CreateMessageQueue_def)
  show ?thesis
    using assms q by (auto simp: LinkInitIOCtrl_def Let_def and_then_eq_Inr io_ok_def)
qed

text \<open>A command without parameters is reported as received, but without its request identifier.\<close>

lemma command_without_params_has_no_id:
  assumes "n < 10" "isUsed (ioSessions st ! n)" "ioQueue (ioSessions st ! n) = Some q" "mq_inv 64 q"
    and "mq_items q = m # ms" "ijParse js (msgBody m) = Inr (Some j)" "ijItem js j ''action'' = Some a"
    and "ijItem js j ''params'' = None"
  shows "\<exists>st'. LinkRecvIOCtrl js now wait (int n) reqBuf ioData maxSize t st
    = Inr (MQTT_SUCCESS, Some (ijAtoi js (ijPrint js a)), reqBuf, ioData, maxSize, st')"
proof -
  obtain q' where "takeMessage q = Inr (Some m, q')"
    using takeMessage_oldest [OF assms(4,5)] by blast
  moreover have "nSize q \<noteq> 0"
    using mq_items_Nil [OF assms(4)] assms(5) by simp
  ultimately show ?thesis
    using assms by (simp add: LinkRecvIOCtrl_def ReceiveMessageTimeout_def Let_def)
qed

lemma negative_session_out_of_bounds:
  "n < 0 \<Longrightarrow> LinkSendIOResponse a print publish n rid code d st = Inl Out_of_bounds"
  by (simp add: LinkSendIOResponse_def)

subsection \<open>An instance\<close>

text \<open>A reader for the witness: the document of a command whose action and parameters are its two bytes.\<close>

definition sample_json :: "bytes IoJson" where
  "sample_json = \<lparr>ijParse = (\<lambda>b. Inr (Some b)),
     ijItem = (\<lambda>j f. if f = ''action'' then Some [hd j] else Some (tl j)), ijPrint = (\<lambda>j. j),
     ijAtoi = (\<lambda>b. int (length b))\<rparr>"

theorem remote_command_delivered_witness:
  "\<exists>st1 st2 st3. LinkInitIOCtrl True (Some (\<lambda>_. \<lparr>nMessageID = 0, pReqID = None, msgBody = []\<rparr>))
      (\<lambda>_. MQTT_SUCCESS) [65] [66] (Some 7) zeroIoState = Inr (0, st1)
    \<and> OnIOCtrlMessage True (Some (\<lambda>_. 0)) (Some (\<lambda>_. 0)) st1 7 (command_topic [65] [66] [49, 50]) [1, 2, 3] 3
      = Inr st2
    \<and> LinkRecvIOCtrl sample_json (0, 0) (\<lambda>_ q. (True, q)) 0 [9, 9, 9] [8, 8] 1 100 st2
      = Inr (MQTT_SUCCESS, Some 1, [49, 50, 9], [2, 8], 1, st3)"
proof -
  let ?junk = "\<lambda>_. \<lparr>nMessageID = 0, pReqID = None, msgBody = []\<rparr> :: IoMessage"
  have free: "freeSession (ioSessions zeroIoState) = 0" "findSession 7 (ioSessions zeroIoState) = None"
    by (simp_all add: freeSession_def findSession_def zeroIoState_def zeroIoInfo_def numeral_eq_Suc)
  have js: "ijParse sample_json (take 3 [1, 2, 3]) = Inr (Some [1, 2, 3])"
    "ijItem sample_json [1, 2, 3] ''action'' = Some [1]"
    "ijItem sample_json [1, 2, 3] ''params'' = Some [2, 3]"
    by (simp_all add: sample_json_def)
  have "\<exists>st1 st2 st3 sz. LinkInitIOCtrl True (Some ?junk) (\<lambda>_. MQTT_SUCCESS) [65] [66] (Some 7) zeroIoState
      = Inr (int 0, st1)
    \<and> OnIOCtrlMessage True (Some (\<lambda>_. 0)) (Some (\<lambda>_. 0)) st1 7 (command_topic [65] [66] [49, 50]) [1, 2, 3] 3
      = Inr st2
    \<and> sz = min 1 (int (length (ijPrint sample_json [2, 3])))
    \<and> LinkRecvIOCtrl sample_json (0, 0) (\<lambda>_ q. (True, q)) (int 0) [9, 9, 9] [8, 8] 1 100 st2
      = Inr (MQTT_SUCCESS, Some (ijAtoi sample_json (ijPrint sample_json [1])),
          overwrite 0 [49, 50] [9, 9, 9],
          overwrite 0 (take (nat sz) (ijPrint sample_json [2, 3])) [8, 8], sz, st3)"
    by (rule remote_command_delivered [OF zeroIoState_ok free(1) _ free(2) _ _ _ _ _ _ _ _ _ _ _ js])
      (simp_all add: sample_json_def)
  then show ?thesis
    by (simp add: sample_json_def overwrite_def)
qed

end
