(* ===== verification/UploadForm.thy ===== *)
theory UploadForm
  imports PutBuffer HttpTools "HOL-Library.Sublist"
begin

section \<open>The upload form (libghttp/qupload.c)\<close>

text \<open>
  An upload is a POST of a multipart form: the token, the key, the metadata of the object as
  fields \<open>x-qn-meta-...\<close>, the custom fields, and last the data. For data in memory the text in front of
  the data and behind it is built in a buffer of 1636 bytes on the stack and the data is sent from
  where it lies. The HTTP client and \<open>rand\<close> are parameters.
\<close>

subsection \<open>Writing the form\<close>

text \<open>
  A form being written: the block, the position \<open>form_data_p\<close>, and \<open>form_data_len\<close>.
\<close>

type_synonym form = "bytes \<times> nat \<times> nat"

definition qn_memconcat :: "bytes \<Rightarrow> bytes \<times> nat \<Rightarrow> (bytes \<times> nat) run" where
  "qn_memconcat src f = (case f of (b, p) \<Rightarrow>
     and_then (write_at p src b) (\<lambda>b. Inr (b, p + length src)))"

text \<open>"\textbackslash r\textbackslash n"\<close>

definition crlf :: bytes where
  "crlf = [13, 10]"

definition disposition :: bytes where
  "disposition = chars ''Content-Disposition: form-data; name='' @ [34]"

text \<open>
  One field. With \<open>fileContent\<close> the value is read from a file (\<open>None\<close>: it cannot be read).
\<close>

definition qn_addformfield ::
    "bytes \<Rightarrow> bytes \<Rightarrow> bytes \<Rightarrow> bytes option \<Rightarrow> bytes option option \<Rightarrow> form \<Rightarrow> form option run" where
  "qn_addformfield boundary name val mime fileContent f =
     (case f of (b, p, n) \<Rightarrow>
       and_then (qn_memconcat boundary (b, p)) (\<lambda>f.
       and_then (qn_memconcat crlf f) (\<lambda>f.
       and_then (qn_memconcat disposition f) (\<lambda>f.
       and_then (qn_memconcat name f) (\<lambda>f.
       and_then (qn_memconcat [34] f) (\<lambda>f.
       and_then (case mime of
           None \<Rightarrow> Inr f
         | Some m \<Rightarrow> and_then (qn_memconcat (crlf @ chars ''Content-Type: '') f) (qn_memconcat m)) (\<lambda>f.
       and_then (qn_memconcat (crlf @ crlf) f) (\<lambda>f.
       let finish = (\<lambda>v. and_then (qn_memconcat v f) (\<lambda>f.
             and_then (qn_memconcat (crlf @ [45, 45]) f) (\<lambda>(b, p).
               Inr (Some (b, p, n + length boundary + 2 + 38 + length name + 1
                 + (case mime of None \<Rightarrow> 0 | Some m \<Rightarrow> 16 + length m) + 4 + length v + 4)))))
       in (case fileContent of
            None \<Rightarrow> finish val
          | Some None \<Rightarrow> Inr None
          | Some (Some content) \<Rightarrow> finish content)))))))))"

text \<open>
  Names and values in pairs, as \<open>customMeta\<close> and \<open>customMagic\<close> give them; the loops step by two, and an
  odd last name makes them read behind the array.
\<close>

fun addFields ::
    "bytes \<Rightarrow> (bytes \<Rightarrow> bytes) \<Rightarrow> bytes list \<Rightarrow> form \<Rightarrow> form option run" where
  "addFields boundary rename [] f = Inr (Some f)"
| "addFields boundary rename [name] f = Inl Out_of_bounds"
| "addFields boundary rename (name # val # rest) f =
     and_then (qn_addformfield boundary (rename name) val None None f) (\<lambda>r.
     case r of None \<Rightarrow> Inr None | Some f \<Rightarrow> addFields boundary rename rest f)"

text \<open>\<open>snprintf\<close> behind the prefix in a block of 32.\<close>

definition metaKey :: "bytes \<Rightarrow> bytes" where
  "metaKey name = chars ''x-qn-meta-'' @ take 21 name"

text \<open>
  The boundary: 24 fixed characters and 16 random ones. \<open>(float) 61 * rand ()\<close> is computed with
  numbers of 24 significant bits: the value of \<open>rand ()\<close> and the product are rounded to the nearest
  of them, to the even one between two. The division by \<open>RAND_MAX + 1.0\<close>, 2 to the 31, is exact.
\<close>

fun bit_count :: "nat \<Rightarrow> nat" where
  "bit_count n = (if n = 0 then 0 else Suc (bit_count (n div 2)))"

declare bit_count.simps [simp del]

definition to_float :: "nat \<Rightarrow> nat" where
  "to_float n =
     (let unit = 2 ^ (bit_count n - 24); q = n div unit; r = n mod unit in
        if 2 * r < unit \<or> 2 * r = unit \<and> even q then q * unit else (q + 1) * unit)"

definition base_chars :: bytes where
  "base_chars = chars ''abcdefghijklmnopqrstuvwxyzABCDEFGHIJKLMNOPQRSTUVWXYZ0123456789'' @ [0]"

definition random_index :: "nat \<Rightarrow> nat" where
  "random_index r = 1 + to_float (61 * to_float r) div 2 ^ 31"

definition get_fix_random_str :: "(nat \<Rightarrow> nat) \<Rightarrow> nat \<Rightarrow> nat \<Rightarrow> bytes" where
  "get_fix_random_str rnd bufLen len =
     (let len = (if len \<le> bufLen - 1 then len else bufLen - 1) in
        map (\<lambda>i. base_chars ! random_index (rnd i)) [0..<len] @ [0])"

definition form_boundary :: "(nat \<Rightarrow> nat) \<Rightarrow> bytes" where
  "form_boundary rnd = c_string (chars ''--------LINKFormBoundary'' @ get_fix_random_str rnd 17 16)"

text \<open>The form up to the data, in the given block; then its end.\<close>

definition formHead ::
    "bytes \<Rightarrow> bytes \<Rightarrow> bytes option \<Rightarrow> bytes list \<Rightarrow> bytes list \<Rightarrow> bytes \<Rightarrow> form option run" where
  "formHead boundary token key metas magic block =
     and_then (qn_memconcat [45, 45] (block, 0)) (\<lambda>(b, p).
     and_then (qn_addformfield boundary (chars ''token'') token None None (b, p, 2)) (\<lambda>r.
     case r of None \<Rightarrow> Inr None | Some f \<Rightarrow>
     and_then (case key of None \<Rightarrow> Inr (Some f)
       | Some k \<Rightarrow> qn_addformfield boundary (chars ''key'') k None None f) (\<lambda>r.
     case r of None \<Rightarrow> Inr None | Some f \<Rightarrow>
     and_then (addFields boundary metaKey metas f) (\<lambda>r.
     case r of None \<Rightarrow> Inr None | Some f \<Rightarrow> addFields boundary (\<lambda>n. n) magic f))))"

definition formEnd :: "bytes \<Rightarrow> form \<Rightarrow> form run" where
  "formEnd boundary f = (case f of (b, p, n) \<Rightarrow>
     and_then (qn_memconcat boundary (b, p)) (\<lambda>f.
     and_then (qn_memconcat ([45, 45] @ crlf) f) (\<lambda>(b, p).
       Inr (b, p, n + length boundary + 4))))"

text \<open>The body of an upload from memory: the part in front of the data, the data, the part behind it.\<close>

definition bufferForm ::
    "bytes \<Rightarrow> bytes \<Rightarrow> bytes option \<Rightarrow> bytes list \<Rightarrow> bytes list \<Rightarrow> bytes option \<Rightarrow> bytes \<Rightarrow> bytes run" where
  "bufferForm boundary token key metas magic mime data =
     and_then (formHead boundary token key metas magic (replicate 1636 0)) (\<lambda>r.
     case r of None \<Rightarrow> Inr [] | Some f \<Rightarrow>
     and_then (qn_addformfield boundary (chars ''file'') [] mime None f) (\<lambda>r.
     case r of None \<Rightarrow> Inr [] | Some (b, p, n) \<Rightarrow>
       let prev = n - 4 in
       and_then (formEnd boundary (b, p, n)) (\<lambda>(b, p, n).
       and_then (read_at 0 prev b) (\<lambda>front.
       and_then (read_at prev (n - prev) b) (\<lambda>back.
         Inr (front @ data @ back))))))"

text \<open>
  The body of an upload from a file, in one block of the file's size and 5120 bytes. The size is kept in
  an \<open>int\<close>; no allocation satisfies a negative one.
\<close>

definition fileForm ::
    "bytes \<Rightarrow> bytes \<Rightarrow> bytes option \<Rightarrow> bytes list \<Rightarrow> bytes list \<Rightarrow> bytes option \<Rightarrow> nat \<Rightarrow> heap_answer
       \<Rightarrow> bytes option \<Rightarrow> bytes option run" where
  "fileForm boundary token key metas magic mime fileSize mem content =
     (case (let size = signed_take_bit 31 (int fileSize + 5120) in
            if size < 0 then None else malloc mem (nat size)) of
        None \<Rightarrow> Inl Null_deref
      | Some block \<Rightarrow>
          and_then (formHead boundary token key metas magic block) (\<lambda>r.
          case r of None \<Rightarrow> Inr None | Some f \<Rightarrow>
          and_then (qn_addformfield boundary (chars ''file'') [] mime (Some content) f) (\<lambda>r.
          case r of None \<Rightarrow> Inr None | Some f \<Rightarrow>
            and_then (formEnd boundary f) (\<lambda>(b, p, n).
            and_then (read_at 0 n b) (\<lambda>body. Inr (Some body))))))"

subsection \<open>Sending it\<close>

record LinkPutret =
  putTimeout :: bool
  putCode :: int
  putBody :: "bytes option"

definition zeroPutret :: LinkPutret where
  "zeroPutret = \<lparr>putTimeout = False, putCode = 0, putBody = None\<rparr>"

definition LinkFreePutret :: "LinkPutret \<Rightarrow> LinkPutret" where
  "LinkFreePutret r = r\<lparr>putBody := None\<rparr>"

text \<open>The request: address, content type and body. \<open>send\<close> answers it, \<open>None\<close> for a missing request object.\<close>

datatype upload_answer = Up_timeout | Up_error "bytes option" | Up_reply int "bytes option"

definition sendForm ::
    "(bytes \<times> bytes \<times> bytes \<Rightarrow> upload_answer) option \<Rightarrow> bytes \<Rightarrow> bytes \<Rightarrow> bytes \<Rightarrow> int \<times> LinkPutret" where
  "sendForm send upHost boundary body =
     (case send of
        None \<Rightarrow> (-4, zeroPutret)
      | Some s \<Rightarrow>
          (case s (upHost, chars ''multipart/form-data; boundary='' @ boundary, body) of
             Up_timeout \<Rightarrow> (-5, zeroPutret\<lparr>putTimeout := True\<rparr>)
           | Up_error b \<Rightarrow> (-5, zeroPutret\<lparr>putBody := b\<rparr>)
           | Up_reply code b \<Rightarrow>
               if code = 200 then (0, zeroPutret\<lparr>putCode := code\<rparr>)
               else (-6, zeroPutret\<lparr>putCode := code, putBody := b\<rparr>)))"

definition LinkUploadBuffer ::
    "(nat \<Rightarrow> nat) \<Rightarrow> (bytes \<times> bytes \<times> bytes \<Rightarrow> upload_answer) option \<Rightarrow> LinkPutret \<Rightarrow> bytes option \<Rightarrow> bytes
       \<Rightarrow> bytes option \<Rightarrow> bytes option \<Rightarrow> bytes list \<Rightarrow> bytes list \<Rightarrow> bytes option \<Rightarrow> (int \<times> LinkPutret) run" where
  "LinkUploadBuffer rnd send ret0 buffer upHost token key metas magic mime =
     (case (token, buffer) of
        (Some tok, Some data) \<Rightarrow>
          and_then (bufferForm (form_boundary rnd) tok key metas magic mime data) (\<lambda>body.
            Inr (sendForm send upHost (form_boundary rnd) body))
      | _ \<Rightarrow> Inr (-1, ret0))"

definition LinkUploadFile ::
    "(nat \<Rightarrow> nat) \<Rightarrow> (bytes \<times> bytes \<times> bytes \<Rightarrow> upload_answer) option \<Rightarrow> LinkPutret \<Rightarrow> (nat \<times> bytes option) option
       \<Rightarrow> heap_answer \<Rightarrow> bytes \<Rightarrow> bytes option \<Rightarrow> bytes option \<Rightarrow> bytes option \<Rightarrow> (int \<times> LinkPutret) run" where
  "LinkUploadFile rnd send ret0 file mem upHost token key mime =
     (case token of
        None \<Rightarrow> Inr (-1, ret0)
      | Some tok \<Rightarrow>
          (case file of
             None \<Rightarrow> Inr (-2, zeroPutret)
           | Some (fileSize, content) \<Rightarrow>
               and_then (fileForm (form_boundary rnd) tok key [] [] mime fileSize mem content) (\<lambda>body.
                 case body of
                   None \<Rightarrow> Inr (-3, zeroPutret)
                 | Some b \<Rightarrow> Inr (sendForm send upHost (form_boundary rnd) b))))"

text \<open>
  \<open>LinkMoveFile\<close>: \<open>uriOk\<close> and \<open>prepared\<close> are the results of \<open>ghttp_set_uri\<close> and \<open>ghttp_prepare\<close>, \<open>send\<close> gets
  the address and the authorization. After a failed \<open>ghttp_prepare\<close> the error text is read from the
  request that was just destroyed. Every reply is a success.
\<close>

definition LinkMoveFile ::
    "(bytes \<times> bytes \<Rightarrow> upload_answer) option \<Rightarrow> bool \<Rightarrow> int \<Rightarrow> bytes \<Rightarrow> bytes \<Rightarrow> (int \<times> LinkPutret) run" where
  "LinkMoveFile send uriOk prepared url token =
     (case send of
        None \<Rightarrow> Inr (-1, zeroPutret)
      | Some s \<Rightarrow>
          if \<not> uriOk then Inr (-7, zeroPutret)
          else if prepared \<noteq> 0 then Inl Out_of_bounds
          else (case s (url, take 511 (chars ''QBox '' @ token)) of
               Up_timeout \<Rightarrow> Inr (-4, zeroPutret)
             | Up_error b \<Rightarrow> Inr (-5, zeroPutret)
             | Up_reply code b \<Rightarrow>
                 if code div 100 = 2 then Inr (0, zeroPutret\<lparr>putCode := code\<rparr>)
                 else Inr (0, zeroPutret\<lparr>putCode := code, putBody := b\<rparr>)))"

lemma rejected_move_is_success:
  "send (url, take 511 (chars ''QBox '' @ token)) = Up_reply 404 b \<Longrightarrow>
   LinkMoveFile (Some send) True 0 url token = Inr (0, zeroPutret\<lparr>putCode := 404, putBody := b\<rparr>)"
  by (simp add: LinkMoveFile_def)

subsection \<open>The text of the form\<close>

definition field_text :: "bytes \<Rightarrow> bytes \<Rightarrow> bytes option \<Rightarrow> bytes \<Rightarrow> bytes" where
  "field_text boundary name mime val =
     boundary @ crlf @ disposition @ name @ [34]
       @ (case mime of None \<Rightarrow> [] | Some m \<Rightarrow> crlf @ chars ''Content-Type: '' @ m)
       @ crlf @ crlf @ val @ crlf @ [45, 45]"

text \<open>A block with a text at its beginning, and the position behind it; the whole text fits or not.\<close>

definition put :: "bytes \<Rightarrow> bytes \<Rightarrow> (bytes \<times> nat) run" where
  "put block t = (if length t \<le> length block then Inr (t @ drop (length t) block, length t)
     else Inl Out_of_bounds)"

definition put_form :: "bytes \<Rightarrow> bytes \<Rightarrow> form run" where
  "put_form block t = and_then (put block t) (\<lambda>(b, p). Inr (b, p, p))"

lemma put_concat_last: "and_then (put block t) (qn_memconcat s) = put block (t @ s)"
  by (auto simp: put_def qn_memconcat_def write_at_def overwrite_def add.commute)

lemma put_concat [simp]:
  "and_then (put block t) (\<lambda>f. and_then (qn_memconcat s f) K) = and_then (put block (t @ s)) K"
  by (simp only: put_concat_last [symmetric] and_then_assoc)

lemma length_disposition [simp]: "length disposition = 38" "length crlf = 2"
  "length (chars ''Content-Type: '') = 14"
  by (simp_all add: disposition_def chars_def crlf_def)

lemma length_field_text:
  "length (field_text boundary name mime val) = length boundary + 2 + 38 + length name + 1
     + (case mime of None \<Rightarrow> 0 | Some m \<Rightarrow> 16 + length m) + 4 + length val + 4"
  by (simp add: field_text_def length_disposition split: option.split)

text \<open>A field added to a form is its text behind the form's; this is so where it fits and where it does not.\<close>

lemma put_addformfield:
  "and_then (put_form block t) (\<lambda>f. and_then (qn_addformfield boundary name val mime None f) K)
     = and_then (put_form block (t @ field_text boundary name mime val)) (\<lambda>f. K (Some f))"
proof (cases "length t \<le> length block")
  case False
  then show ?thesis by (simp add: put_form_def put_def)
next
  case True
  let ?f = "(t @ drop (length t) block, length t)"
  have start: "and_then (qn_memconcat s ?f) G = and_then (put block (t @ s)) G" for s G
    using put_concat [of block t s G] True by (simp add: put_def)
  let ?u = "t @ field_text boundary name mime val"
  have "and_then (qn_addformfield boundary name val mime None (t @ drop (length t) block, length t, length t)) K
    = and_then (put block ?u) (\<lambda>x. K (Some (fst x, snd x, length ?u)))"
    by (cases mime)
      (simp_all add: qn_addformfield_def start and_then_assoc put_concat_last length_field_text
        field_text_def case_prod_beta add_ac)
  also have "\<dots> = and_then (put_form block ?u) (\<lambda>f. K (Some f))"
    by (simp add: put_form_def put_def)
  finally show ?thesis
    using True by (simp add: put_form_def put_def)
qed

definition pairs :: "(bytes \<times> bytes) list \<Rightarrow> bytes list" where
  "pairs ps = concat (map (\<lambda>(n, v). [n, v]) ps)"

definition fields_text :: "bytes \<Rightarrow> (bytes \<times> bytes option \<times> bytes) list \<Rightarrow> bytes" where
  "fields_text boundary fs = concat (map (\<lambda>(n, m, v). field_text boundary n m v) fs)"

lemma put_addFields:
  "and_then (put_form block t) (\<lambda>f. and_then (addFields boundary rename (pairs ps) f) K)
     = and_then (put_form block (t @ fields_text boundary (map (\<lambda>(n, v). (rename n, None, v)) ps)))
         (\<lambda>f. K (Some f))"
proof (induction ps arbitrary: t)
  case Nil
  then show ?case by (simp add: pairs_def fields_text_def)
next
  case (Cons p ps)
  obtain n v where p: "p = (n, v)" by (cases p)
  show ?case
    using Cons.IH [of "t @ field_text boundary (rename n) None v"]
    by (simp add: p pairs_def fields_text_def and_then_assoc put_addformfield)
qed

text \<open>The fields of an upload, the data last.\<close>

definition form_fields ::
    "bytes \<Rightarrow> bytes option \<Rightarrow> (bytes \<times> bytes) list \<Rightarrow> (bytes \<times> bytes) list \<Rightarrow> (bytes \<times> bytes option \<times> bytes) list" where
  "form_fields token key metas magic =
     (chars ''token'', None, token)
       # (case key of None \<Rightarrow> [] | Some k \<Rightarrow> [(chars ''key'', None, k)])
       @ map (\<lambda>(n, v). (metaKey n, None, v)) metas @ map (\<lambda>(n, v). (n, None, v)) magic"

definition head_text where
  "head_text boundary token key metas magic =
     [45, 45] @ fields_text boundary (form_fields token key metas magic)"

lemma put_formHead:
  "and_then (formHead boundary token key (pairs metas) (pairs magic) block) K
     = and_then (put_form block (head_text boundary token key metas magic)) (\<lambda>f. K (Some f))"
proof -
  have start: "formHead boundary token key ms gs block = and_then (put_form block [45, 45]) (\<lambda>f.
      and_then (qn_addformfield boundary (chars ''token'') token None None f) (\<lambda>r.
      case r of None \<Rightarrow> Inr None | Some f \<Rightarrow>
      and_then (case key of None \<Rightarrow> Inr (Some f)
        | Some k \<Rightarrow> qn_addformfield boundary (chars ''key'') k None None f) (\<lambda>r.
      case r of None \<Rightarrow> Inr None | Some f \<Rightarrow>
      and_then (addFields boundary metaKey ms f) (\<lambda>r.
      case r of None \<Rightarrow> Inr None | Some f \<Rightarrow> addFields boundary (\<lambda>n. n) gs f))))" for ms gs
    by (auto simp: formHead_def put_form_def put_def qn_memconcat_def write_at_def overwrite_def
        numeral_2_eq_2)
  have magic: "and_then (put_form block t) (\<lambda>f. and_then (addFields boundary (\<lambda>n. n) (pairs magic) f) K)
      = and_then (put_form block (t @ fields_text boundary (map (\<lambda>(n, v). (n, None, v)) magic))) (\<lambda>f. K (Some f))" for t
    by (rule put_addFields)
  show ?thesis
    unfolding start
    by (cases key) (simp_all add: and_then_assoc
        put_addformfield put_addFields magic head_text_def form_fields_def fields_text_def)
qed

lemma put_formEnd:
  "and_then (put_form block t) (\<lambda>f. and_then (formEnd boundary f) K)
     = and_then (put_form block (t @ boundary @ [45, 45] @ crlf)) K"
proof (cases "length t \<le> length block")
  case False
  then show ?thesis by (simp add: put_form_def put_def)
next
  case True
  let ?f = "(t @ drop (length t) block, length t)"
  have start: "and_then (qn_memconcat s ?f) G = and_then (put block (t @ s)) G" for s G
    using put_concat [of block t s G] True by (simp add: put_def)
  have "and_then (formEnd boundary (t @ drop (length t) block, length t, length t)) K
    = and_then (put block (t @ boundary @ [45, 45] @ crlf))
        (\<lambda>x. K (fst x, snd x, length (t @ boundary @ [45, 45] @ crlf)))"
    by (simp add: formEnd_def start and_then_assoc case_prod_beta add_ac numeral_eq_Suc)
  then show ?thesis
    using True by (simp add: put_form_def put_def)
qed

text \<open>
  The body of an upload from memory: the fields and the data, exactly when the text without the data
  fits the block of 1636 bytes; otherwise the block is overrun.
\<close>

definition form_text :: "bytes \<Rightarrow> (bytes \<times> bytes option \<times> bytes) list \<Rightarrow> bytes" where
  "form_text boundary fs = [45, 45] @ fields_text boundary fs @ boundary @ [45, 45] @ crlf"

lemma form_text_front:
  "\<exists>front. length (form_text boundary (fs @ [(n, mime, [])])) = length front + length boundary + 8
     \<and> [45, 45] @ fields_text boundary fs @ field_text boundary n mime [] = front @ crlf @ [45, 45]
     \<and> (\<forall>v. form_text boundary (fs @ [(n, mime, v)]) = front @ v @ crlf @ [45, 45] @ boundary @ [45, 45] @ crlf)"
  by (rule exI [of _ "[45, 45] @ fields_text boundary fs @ boundary @ crlf @ disposition @ n @ [34]
       @ (case mime of None \<Rightarrow> [] | Some m \<Rightarrow> crlf @ chars ''Content-Type: '' @ m) @ crlf @ crlf"])
    (simp add: form_text_def fields_text_def field_text_def)

lemma bufferForm_text:
  "bufferForm boundary token key (pairs metas) (pairs magic) mime data =
     (if length (form_text boundary (form_fields token key metas magic @ [(chars ''file'', mime, [])])) \<le> 1636
      then Inr (form_text boundary (form_fields token key metas magic @ [(chars ''file'', mime, data)]))
      else Inl Out_of_bounds)"
proof -
  let ?fs = "form_fields token key metas magic"
  let ?b = "replicate 1636 0 :: bytes"
  obtain front where len: "length (form_text boundary (?fs @ [(chars ''file'', mime, [])]))
        = length front + length boundary + 8"
    and t: "[45, 45] @ fields_text boundary ?fs @ field_text boundary (chars ''file'') mime [] = front @ crlf @ [45, 45]"
    and whole: "\<And>v. form_text boundary (?fs @ [(chars ''file'', mime, v)])
        = front @ v @ crlf @ [45, 45] @ boundary @ [45, 45] @ crlf"
    using form_text_front [of boundary ?fs "chars ''file''" mime] by blast
  define rest where "rest = (\<lambda>(b, p, n). let prev = n - 4 in
      and_then (formEnd boundary (b, p, n)) (\<lambda>(b, p, n).
      and_then (read_at 0 prev b) (\<lambda>front.
      and_then (read_at prev (n - prev) b) (\<lambda>back. Inr (front @ data @ back)))))"
  have "bufferForm boundary token key (pairs metas) (pairs magic) mime data
      = and_then (put_form ?b (front @ crlf @ [45, 45])) rest"
    unfolding bufferForm_def put_formHead head_text_def t [symmetric] rest_def
    by (simp add: put_addformfield)
  also have "\<dots> = (if length front + length boundary + 8 \<le> 1636
      then Inr (front @ data @ crlf @ [45, 45] @ boundary @ [45, 45] @ crlf) else Inl Out_of_bounds)"
  proof (cases "length front + 4 \<le> 1636")
    case False
    then show ?thesis by (simp add: put_form_def put_def)
  next
    case True
    let ?t = "front @ crlf @ [45, 45]"
    have ends: "and_then (formEnd boundary (?t @ drop (length ?t) ?b, length ?t, length ?t)) G
        = and_then (put_form ?b (?t @ boundary @ [45, 45] @ crlf)) G" for G :: "form \<Rightarrow> bytes run"
      using put_formEnd [of ?b ?t boundary G] True by (simp add: put_form_def put_def)
    have "and_then (put_form ?b ?t) rest = rest (?t @ drop (length ?t) ?b, length ?t, length ?t)"
      using True by (simp add: put_form_def put_def)
    also have "\<dots> = and_then (put_form ?b (?t @ boundary @ [45, 45] @ crlf)) (\<lambda>(b, p, n).
        and_then (read_at 0 (length front) b) (\<lambda>front'.
        and_then (read_at (length front) (n - length front) b) (\<lambda>back. Inr (front' @ data @ back))))"
      unfolding rest_def prod.case Let_def ends by simp
    also have "\<dots> = (if length front + length boundary + 8 \<le> 1636
        then Inr (front @ data @ crlf @ [45, 45] @ boundary @ [45, 45] @ crlf) else Inl Out_of_bounds)"
    proof -
      define tl0 where "tl0 = crlf @ [45, 45] @ boundary @ [45, 45] @ crlf"
      have "length tl0 = length boundary + 8" by (simp add: tl0_def)
      moreover have "?t @ boundary @ [45, 45] @ crlf = front @ tl0" by (simp add: tl0_def)
      ultimately show ?thesis
        unfolding tl0_def [symmetric]
        by (auto simp: put_form_def put_def read_at_def simp del: replicate_Suc)
    qed
    finally show ?thesis .
  qed
  finally show ?thesis by (simp add: len whole)
qed

subsection \<open>Reading a form\<close>

text \<open>
  What a server makes of a form: the boundary, then fields, each with its name in quotes, perhaps a
  content type, an empty line, and a value that goes on to the next delimiter.
\<close>

fun cut :: "'a list \<Rightarrow> 'a list \<Rightarrow> ('a list \<times> 'a list) option" where
  "cut pat [] = (if pat = [] then Some ([], []) else None)"
| "cut pat (c # s) =
     (if take (length pat) (c # s) = pat then Some ([], drop (length pat) (c # s))
      else map_option (\<lambda>(a, b). (c # a, b)) (cut pat s))"

definition strip :: "'a list \<Rightarrow> 'a list \<Rightarrow> 'a list option" where
  "strip pat s = (if take (length pat) s = pat then Some (drop (length pat) s) else None)"

definition delimiter :: "bytes \<Rightarrow> bytes" where
  "delimiter boundary = crlf @ [45, 45] @ boundary"

definition read_field :: "bytes \<Rightarrow> bytes \<Rightarrow> ((bytes \<times> bytes option \<times> bytes) \<times> bytes) option" where
  "read_field boundary s =
     Option.bind (strip (crlf @ disposition) s) (\<lambda>s.
     Option.bind (cut [34] s) (\<lambda>(name, s).
     Option.bind (case strip (crlf @ chars ''Content-Type: '') s of
           None \<Rightarrow> Some (None, s) | Some r \<Rightarrow> map_option (\<lambda>(m, r). (Some m, crlf @ r)) (cut crlf r)) (\<lambda>(mime, s).
     Option.bind (strip (crlf @ crlf) s) (\<lambda>s.
     map_option (\<lambda>(val, s). ((name, mime, val), s)) (cut (delimiter boundary) s)))))"

fun read_fields :: "bytes \<Rightarrow> nat \<Rightarrow> bytes \<Rightarrow> (bytes \<times> bytes option \<times> bytes) list option" where
  "read_fields boundary 0 s = None"
| "read_fields boundary (Suc n) s =
     (if s = [45, 45] @ crlf then Some []
      else Option.bind (read_field boundary s) (\<lambda>(f, s). map_option ((#) f) (read_fields boundary n s)))"

definition read_form :: "bytes \<Rightarrow> bytes \<Rightarrow> (bytes \<times> bytes option \<times> bytes) list option" where
  "read_form boundary body = Option.bind (strip ([45, 45] @ boundary) body) (read_fields boundary (length body))"

lemma strip_append [simp]: "strip pat (pat @ s) = Some s"
  by (simp add: strip_def)

text \<open>A pattern that begins with a character it does not contain again is found where it was put.\<close>

lemma cut_first:
  assumes "c \<notin> set p" and "\<not> sublist (c # p) v"
  shows "cut (c # p) (v @ (c # p) @ r) = Some (v, r)"
  using assms(2)
proof (induction v)
  case Nil
  then show ?case by simp
next
  case (Cons x v)
  have "take (length (c # p)) (x # v @ (c # p) @ r) \<noteq> c # p"
  proof
    assume eq: "take (length (c # p)) (x # v @ (c # p) @ r) = c # p"
    show False
    proof (cases "length (c # p) \<le> length (x # v)")
      case True
      then have "take (length (c # p)) (x # v) = c # p" using eq by simp
      then have "sublist (c # p) (x # v)" by (metis prefix_imp_sublist take_is_prefix)
      then show False using Cons.prems by simp
    next
      case False
      then have len: "length v < length p" by simp
      have "(c # p) ! Suc (length v) = take (length (c # p)) (x # v @ (c # p) @ r) ! Suc (length v)"
        by (simp only: eq)
      also have "\<dots> = c" using len by (simp add: nth_append)
      finally show False using assms(1) len by (metis nth_Cons_Suc nth_mem)
    qed
  qed
  moreover have "cut (c # p) (v @ (c # p) @ r) = Some (v, r)"
    using Cons by (metis sublist_Cons_right)
  ultimately show ?case by simp
qed

definition field_ok :: "bytes \<Rightarrow> bytes \<times> bytes option \<times> bytes \<Rightarrow> bool" where
  "field_ok boundary f = (case f of (n, m, v) \<Rightarrow>
     34 \<notin> set n \<and> (case m of None \<Rightarrow> True | Some t \<Rightarrow> 13 \<notin> set t) \<and> \<not> sublist (delimiter boundary) v)"

definition part_text :: "bytes \<Rightarrow> bytes \<times> bytes option \<times> bytes \<Rightarrow> bytes" where
  "part_text boundary f = (case f of (n, m, v) \<Rightarrow>
     crlf @ disposition @ n @ [34] @ (case m of None \<Rightarrow> [] | Some t \<Rightarrow> crlf @ chars ''Content-Type: '' @ t)
       @ crlf @ crlf @ v @ delimiter boundary)"

lemma cut_char: "c \<notin> set v \<Longrightarrow> cut [c] (v @ c # r) = Some (v, r)"
  using cut_first [of c "[]" v r] by (metis append_Cons append_Nil empty_iff list.set(1) set_mono_sublist
      list.set_intros(1) subset_iff)

lemma read_part:
  assumes "field_ok boundary f" and "13 \<notin> set boundary"
  shows "read_field boundary (part_text boundary f @ r) = Some (f, r)"
proof -
  obtain n m v where f: "f = (n, m, v)" by (cases f)
  have val: "cut (delimiter boundary) (v @ delimiter boundary @ r) = Some (v, r)"
    using cut_first [of 13 "10 # [45, 45] @ boundary" v r] assms
    by (simp add: f field_ok_def delimiter_def crlf_def)
  have nam: "cut [34] (n @ 34 # s) = Some (n, s)" for s
    using assms(1) by (intro cut_char) (simp add: f field_ok_def)
  have none: "strip (crlf @ chars ''Content-Type: '') (crlf @ crlf @ s) = None" for s
    by (simp add: strip_def crlf_def chars_def)
  have mime: "cut crlf (t @ crlf @ s) = Some (t, s)" if "m = Some t" for t s
  proof -
    have "13 \<notin> set t" using assms(1) that by (simp add: f field_ok_def)
    then have "\<not> sublist [13, 10] t" by (meson list.set_intros(1) set_mono_sublist subsetD)
    then show ?thesis using cut_first [of 13 "[10]" t s] by (simp add: crlf_def)
  qed
  have sd: "strip (crlf @ disposition) (crlf @ disposition @ s) = Some s"
    "strip (crlf @ crlf) (crlf @ crlf @ s) = Some s"
    "strip (crlf @ chars ''Content-Type: '') (crlf @ chars ''Content-Type: '' @ s) = Some s" for s
    using strip_append [of "crlf @ disposition" s] strip_append [of "crlf @ crlf" s]
      strip_append [of "crlf @ chars ''Content-Type: ''" s] by simp_all
  show ?thesis
    by (cases m) (simp_all add: f read_field_def part_text_def sd nam none val mime)
qed

lemma form_text_parts:
  "form_text boundary fs = [45, 45] @ boundary @ concat (map (part_text boundary) fs) @ [45, 45] @ crlf"
proof -
  have "fields_text boundary fs @ boundary @ s = boundary @ concat (map (part_text boundary) fs) @ s" for s
    by (induction fs) (auto simp: fields_text_def part_text_def field_text_def delimiter_def)
  then show ?thesis by (simp add: form_text_def)
qed

lemma read_parts:
  assumes "\<forall>f \<in> set fs. field_ok boundary f" and "13 \<notin> set boundary" and "length fs < n"
  shows "read_fields boundary n (concat (map (part_text boundary) fs) @ [45, 45] @ crlf) = Some fs"
  using assms
proof (induction fs arbitrary: n)
  case Nil
  then show ?case by (cases n) simp_all
next
  case (Cons f fs)
  then obtain k where n: "n = Suc k" "length fs < k" by (cases n) auto
  have "part_text boundary f @ s \<noteq> [45, 45] @ crlf" for s
    by (simp add: part_text_def crlf_def split: prod.split)
  then show ?case
    using Cons n read_part [of boundary f "concat (map (part_text boundary) fs) @ [45, 45] @ crlf"] by simp
qed

lemma read_form_text:
  assumes "\<forall>f \<in> set fs. field_ok boundary f" and "13 \<notin> set boundary"
  shows "read_form boundary (form_text boundary fs) = Some fs"
proof -
  have "length fs \<le> length (concat (map (part_text boundary) fs))"
    by (induction fs) (auto simp: part_text_def crlf_def split: prod.splits)
  then have "length fs < length (form_text boundary fs)"
    by (simp add: form_text_parts)
  moreover have "strip ([45, 45] @ boundary) (form_text boundary fs)
      = Some (concat (map (part_text boundary) fs) @ [45, 45] @ crlf)"
    using strip_append [of "[45, 45] @ boundary"] by (simp add: form_text_parts)
  ultimately show ?thesis
    using read_parts [OF assms] by (simp add: read_form_def)
qed

subsection \<open>The boundary\<close>

lemma bit_count_bounds: "n < 2 ^ bit_count n" "0 < n \<Longrightarrow> 2 ^ (bit_count n - 1) \<le> n"
proof (induction n rule: bit_count.induct)
  case (1 n)
  { case 1
    show ?case
    proof (cases "n = 0")
      case False
      then have "n div 2 < 2 ^ bit_count (n div 2)" using "1.IH"(1) by simp
      then show ?thesis using False by (simp add: bit_count.simps [of n])
    qed (simp add: bit_count.simps)
  next
    case 2
    show ?case
    proof (cases "n div 2 = 0")
      case True
      then have "n = 1" using 2 by simp
      then show ?thesis by (simp add: bit_count.simps [of "Suc 0"] bit_count.simps [of 0])
    next
      case False
      then have "2 ^ (bit_count (n div 2) - 1) \<le> n div 2" using "1.IH"(2) 2 by simp
      moreover obtain k where k: "bit_count (n div 2) = Suc k"
        using False by (simp add: bit_count.simps [of "n div 2"])
      ultimately show ?thesis
        using 2 by (simp add: bit_count.simps [of n])
    qed
  }
qed

text \<open>Rounding does not go past a number that can be represented.\<close>

lemma to_float_le:
  assumes "n \<le> c * 2 ^ k" and "c < 2 ^ 24"
  shows "to_float n \<le> c * 2 ^ k"
proof -
  define e where "e = bit_count n - 24"
  let ?q = "n div 2 ^ e" and ?r = "n mod 2 ^ e"
  have n: "n = ?q * 2 ^ e + ?r" by (rule div_mult_mod_eq [symmetric])
  have val: "to_float n \<in> {?q * 2 ^ e, (?q + 1) * 2 ^ e}" "?r = 0 \<Longrightarrow> to_float n = ?q * 2 ^ e"
    by (simp_all add: to_float_def Let_def e_def)
  show ?thesis
  proof (cases "?r = 0")
    case True
    then show ?thesis using val(2) n assms(1) by simp
  next
    case False
    have "e \<le> k"
    proof (rule ccontr)
      assume "\<not> e \<le> k"
      then obtain d where d: "e = Suc k + d" by (auto dest: less_imp_Suc_add simp: not_le)
      have "0 < n" using False by (cases n) simp_all
      moreover have "bit_count n - 1 = 23 + e" using d by (simp add: e_def)
      ultimately have "2 ^ (23 + e) \<le> n" using bit_count_bounds(2) [of n] by simp
      also have "n \<le> c * 2 ^ k" by (rule assms(1))
      also have "\<dots> < 2 ^ 24 * 2 ^ k" using assms(2) by simp
      also have "\<dots> \<le> 2 ^ (23 + e)" by (simp add: d power_add)
      finally show False by simp
    qed
    then have "2 ^ e dvd c * 2 ^ k" by (simp add: le_imp_power_dvd)
    then obtain m where m: "c * 2 ^ k = m * 2 ^ e" by (metis dvdE mult.commute)
    have lt: "?q * 2 ^ e < m * 2 ^ e"
      using n assms(1) False m by linarith
    then have up: "(?q + 1) * 2 ^ e \<le> m * 2 ^ e" by (metis Suc_eq_plus1 Suc_leI mult_le_mono1 mult_less_cancel2)
    show ?thesis
      using val(1) unfolding m
    proof (elim insertE emptyE)
      assume "to_float n = ?q * 2 ^ e"
      then show "to_float n \<le> m * 2 ^ e" using lt by simp
    next
      assume "to_float n = (?q + 1) * 2 ^ e"
      then show "to_float n \<le> m * 2 ^ e" using up by (simp only:)
    qed
  qed
qed

lemma random_index_range:
  assumes "r < 2 ^ 31"
  shows "random_index r < length base_chars"
proof -
  have "to_float r \<le> 1 * 2 ^ 31" using assms by (intro to_float_le) simp_all
  then have "to_float (61 * to_float r) \<le> 61 * 2 ^ 31" by (intro to_float_le) simp_all
  then show ?thesis by (simp add: random_index_def base_chars_def chars_def)
qed

lemma form_boundary_plain:
  assumes "\<forall>i. rnd i < 2 ^ 31"
  shows "13 \<notin> set (form_boundary rnd)"
proof -
  have "(13 :: u8) \<notin> set base_chars" "(13 :: u8) \<notin> set (chars ''--------LINKFormBoundary'')"
    by (simp_all add: base_chars_def chars_def)
  moreover have "base_chars ! random_index (rnd i) \<in> set base_chars" for i
    using random_index_range assms by simp
  ultimately have "13 \<notin> set (chars ''--------LINKFormBoundary'' @ get_fix_random_str rnd 17 16)"
    by (auto simp: get_fix_random_str_def)
  then show ?thesis by (auto simp: form_boundary_def c_string_def dest: set_takeWhileD)
qed

text \<open>
  The last 32 values of \<open>rand ()\<close> and more are rounded up to the end of the range: the index is then
  that of the null byte, and the boundary ends there. The first letter is never chosen.
\<close>

lemma boundary_cut_short: "base_chars ! random_index 2147483647 = 0"
  by (simp add: random_index_def to_float_def bit_count.simps base_chars_def chars_def)

subsection \<open>Properties\<close>

text \<open>
  C37: The server reads from the form of an upload what the caller gave: the token, the key, the
  metadata and the custom fields, each under its name, and the data, whole and last. This needs the
  text around the data to fit its block of 1636 bytes, names without quotes, and values that do not
  contain the delimiter.
\<close>

theorem upload_form_roundtrip:
  assumes rand: "\<forall>i. rnd i < 2 ^ 31"
    and fields: "fs = form_fields tok key metas magic"
    and ok: "\<forall>f \<in> set (fs @ [(chars ''file'', mime, data)]). field_ok (form_boundary rnd) f"
    and fits: "length (form_text (form_boundary rnd) (fs @ [(chars ''file'', mime, [])])) \<le> 1636"
  shows "\<exists>body. LinkUploadBuffer rnd send ret0 (Some data) host (Some tok) key (pairs metas) (pairs magic) mime
      = Inr (sendForm send host (form_boundary rnd) body)
    \<and> read_form (form_boundary rnd) body = Some (fs @ [(chars ''file'', mime, data)])"
proof (intro exI conjI)
  let ?body = "form_text (form_boundary rnd) (fs @ [(chars ''file'', mime, data)])"
  show "LinkUploadBuffer rnd send ret0 (Some data) host (Some tok) key (pairs metas) (pairs magic) mime
      = Inr (sendForm send host (form_boundary rnd) ?body)"
    using fits by (simp add: LinkUploadBuffer_def bufferForm_text fields)
  show "read_form (form_boundary rnd) ?body = Some (fs @ [(chars ''file'', mime, data)])"
    by (rule read_form_text [OF ok form_boundary_plain [OF rand]])
qed

theorem upload_form_roundtrip_witness:
  "\<exists>body. LinkUploadBuffer (\<lambda>_. 0) (Some (\<lambda>_. Up_reply 200 None)) zeroPutret (Some [13, 10, 45, 45]) [104] (Some [84])
      None (pairs [(chars ''d'', [53])]) (pairs []) None
      = Inr (0, zeroPutret\<lparr>putCode := 200\<rparr>)
    \<and> read_form (form_boundary (\<lambda>_. 0)) body = Some [(chars ''token'', None, [84]),
        (chars ''x-qn-meta-d'', None, [53]), (chars ''file'', None, [13, 10, 45, 45])]"
proof -
  let ?B = "form_boundary (\<lambda>_. 0)"
  have "random_index 0 = 1"
    by (simp add: random_index_def to_float_def bit_count.simps [of 0])
  then have "get_fix_random_str (\<lambda>_. 0) 17 16 = replicate 16 98 @ [0]"
    by (simp add: get_fix_random_str_def base_chars_def chars_def map_replicate_const del: replicate_Suc)
  moreover have "c_string (x @ [0]) = x" if "0 \<notin> set x" for x
    using that unfolding c_string_def by (subst takeWhile_append2) auto
  moreover have "0 \<notin> set (chars ''--------LINKFormBoundary'' @ replicate 16 98)"
    by (simp add: chars_def del: replicate_Suc)
  ultimately have B: "?B = chars ''--------LINKFormBoundary'' @ replicate 16 98"
    unfolding form_boundary_def by (metis append_assoc)
  have len: "length ?B = 40" unfolding B by (simp add: chars_def)
  have fs: "form_fields [84] None [(chars ''d'', [53])] [] = [(chars ''token'', None, [84]), (chars ''x-qn-meta-d'', None, [53])]"
    by (simp add: form_fields_def metaKey_def chars_def)
  have short: "field_ok ?B (n, None, v)" if "length v < 44" "34 \<notin> set n" for n v
    using that len sublist_length_le [of "delimiter ?B" v] by (auto simp: field_ok_def delimiter_def)
  have ok: "\<forall>f \<in> set (form_fields [84] None [(chars ''d'', [53])] [] @ [(chars ''file'', None, [13, 10, 45, 45])]).
      field_ok ?B f"
    unfolding fs by (auto intro!: short simp: chars_def)
  have fits: "length (form_text ?B (form_fields [84] None [(chars ''d'', [53])] [] @ [(chars ''file'', None, [])])) \<le> 1636"
    unfolding fs by (simp add: form_text_def fields_text_def length_field_text len) (simp add: chars_def)
  show ?thesis
    using upload_form_roundtrip [OF _ refl ok fits, of "Some (\<lambda>_. Up_reply 200 None)" zeroPutret "[104]"]
    unfolding fs by (auto simp: sendForm_def)
qed

subsection \<open>Limits\<close>

text \<open>
  The form of a segment: with its four metadata fields the token, the key and the values may have 911
  bytes together. The token's own buffer has 1024, so a long one overruns the block.
\<close>

lemma segment_form_limit:
  assumes "length boundary = 40"
  shows "bufferForm boundary tok (Some key)
      (pairs [(chars ''o'', v1), (chars ''d'', v2), (chars ''s'', v3), (chars ''c'', v4)]) (pairs []) None data
    = Inl Out_of_bounds
    \<longleftrightarrow> 911 < length tok + length key + length v1 + length v2 + length v3 + length v4"
  unfolding bufferForm_text
  by (simp add: form_text_def fields_text_def form_fields_def length_field_text assms metaKey_def)
    (simp add: chars_def)

end
