(* ===== verification/HttpHeaders.thy ===== *)
theory HttpHeaders
  imports Session
begin

section \<open>Header lists (libghttp/http_hdrs.c)\<close>

text \<open>
  The headers of a request or a response: 256 places, each empty or a name with its value. Names
  are compared without regard to case, and a name the library knows is stored in its spelling.
\<close>

type_synonym hdr_list = "(bytes \<times> bytes) option list"

definition to_lower :: "u8 \<Rightarrow> u8" where
  "to_lower c = (if 65 \<le> c \<and> c \<le> 90 then c + 32 else c)"

definition same_name :: "bytes \<Rightarrow> bytes \<Rightarrow> bool" where
  "same_name a b \<longleftrightarrow> map to_lower a = map to_lower b"

definition http_hdr_known_list :: "bytes list" where
  "http_hdr_known_list = map chars
     [''Allow'', ''Content-Encoding'', ''Content-Language'', ''Content-Length'', ''Content-Location'',
      ''Content-MD5'', ''Content-Range'', ''Content-Type'', ''Expires'', ''Last-Modified'',
      ''Cache-Control'', ''Connection'', ''Date'', ''Pragma'', ''Transfer-Encoding'', ''Update'',
      ''Trailer'', ''Via'',
      ''Accept'', ''Accept-Charset'', ''Accept-Encoding'', ''Accept-Language'', ''Authorization'',
      ''Expect'', ''From'', ''Host'', ''If-Modified-Since'', ''If-Match'', ''If-None-Match'', ''If-Range'',
      ''If-Unmodified-Since'', ''Max-Forwards'', ''Proxy-Authorization'', ''Range'', ''Referrer'', ''TE'',
      ''User-Agent'',
      ''Accept-Ranges'', ''Age'', ''ETag'', ''Location'', ''Retry-After'', ''Server'', ''Vary'',
      ''Warning'', ''WWW-Authenticate'']"

fun find_known :: "bytes \<Rightarrow> bytes list \<Rightarrow> bytes option" where
  "find_known name [] = None"
| "find_known name (k # ks) = (if same_name name k then Some k else find_known name ks)"

definition http_hdr_is_known :: "bytes option \<Rightarrow> bytes option" where
  "http_hdr_is_known a_hdr = Option.bind a_hdr (\<lambda>name. find_known name http_hdr_known_list)"

definition http_hdr_list_new :: hdr_list where
  "http_hdr_list_new = replicate 256 None"

fun http_hdr_get_value :: "hdr_list \<Rightarrow> bytes \<Rightarrow> bytes option" where
  "http_hdr_get_value [] name = None"
| "http_hdr_get_value (Some (h, v) # l) name =
     (if same_name h name then Some v else http_hdr_get_value l name)"
| "http_hdr_get_value (None # l) name = http_hdr_get_value l name"

text \<open>The first free place, and the place whose value was found.\<close>

fun put_free :: "hdr_list \<Rightarrow> bytes \<times> bytes \<Rightarrow> hdr_list option" where
  "put_free [] hv = None"
| "put_free (None # l) hv = Some (Some hv # l)"
| "put_free (Some x # l) hv = map_option ((#) (Some x)) (put_free l hv)"

fun put_value :: "hdr_list \<Rightarrow> bytes \<Rightarrow> bytes \<Rightarrow> hdr_list" where
  "put_value [] name val = []"
| "put_value (Some (h, v) # l) name val =
     (if same_name h name then Some (h, val) # l else Some (h, v) # put_value l name val)"
| "put_value (None # l) name val = None # put_value l name val"

definition http_hdr_set_value :: "hdr_list \<Rightarrow> bytes option \<Rightarrow> bytes option \<Rightarrow> int \<times> hdr_list" where
  "http_hdr_set_value a_list a_name a_val =
     (case (a_name, a_val) of
        (Some name, Some val) \<Rightarrow>
          (case http_hdr_get_value a_list name of
             Some _ \<Rightarrow> (1, put_value a_list name val)
           | None \<Rightarrow>
               (case put_free a_list (case http_hdr_is_known a_name of Some k \<Rightarrow> k | None \<Rightarrow> name, val) of
                  None \<Rightarrow> (0, a_list)
                | Some l \<Rightarrow> (1, l)))
      | _ \<Rightarrow> (0, a_list))"

text \<open>
  \<open>http_hdr_set_value_no_nts\<close> copies name and value, which end at their first null byte then.
\<close>

definition http_hdr_set_value_no_nts :: "hdr_list \<Rightarrow> bytes \<Rightarrow> bytes \<Rightarrow> int \<times> hdr_list" where
  "http_hdr_set_value_no_nts a_list name val =
     (if name = [] then (0, a_list) else http_hdr_set_value a_list (Some (c_string name)) (Some (c_string val)))"

definition http_hdr_clear_value :: "hdr_list \<Rightarrow> bytes \<Rightarrow> int \<times> hdr_list" where
  "http_hdr_clear_value a_list name =
     (0, map (\<lambda>p. case p of Some (h, v) \<Rightarrow> if same_name h name then None else p | None \<Rightarrow> None) a_list)"

text \<open>
  The names are copied to an array with as many places as there are headers, each to the place it
  has in the list: a list with a gap makes it write behind the array.
\<close>

definition http_hdr_get_headers :: "hdr_list \<Rightarrow> bytes list run" where
  "http_hdr_get_headers a_list =
     (let n = length (filter (\<lambda>p. p \<noteq> None) a_list) in
        if \<exists>i < length a_list. n \<le> i \<and> a_list ! i \<noteq> None then Inl Out_of_bounds
        else Inr (map (\<lambda>p. fst (the p)) (take n a_list)))"

subsection \<open>The contract of a header store\<close>

text \<open>
  What requests and responses rely on: a value set under a name is the one found under every
  spelling of it, and the other values stay, as long as there is room.
\<close>

locale header_store =
  fixes lookup :: "'s \<Rightarrow> bytes \<Rightarrow> bytes option"
    and store :: "'s \<Rightarrow> bytes \<Rightarrow> bytes \<Rightarrow> 's"
    and room :: "'s \<Rightarrow> nat"
  assumes lookup_store: "0 < room s \<Longrightarrow>
      lookup (store s n v) m = (if same_name n m then Some v else lookup s m)"
    and room_store: "room s \<le> Suc (room (store s n v))"
begin

text \<open>After a sequence of stores the last one for a name counts.\<close>

lemma lookup_stores:
  assumes "length hs \<le> room s"
  shows "lookup (foldl (\<lambda>s (n, v). store s n v) s hs) m =
    (case find (\<lambda>(n, v). same_name n m) (rev hs) of Some (n, v) \<Rightarrow> Some v | None \<Rightarrow> lookup s m)"
  using assms
proof (induction hs rule: rev_induct)
  case Nil
  then show ?case by simp
next
  case (snoc h hs)
  have room: "room s \<le> length hs + room (foldl (\<lambda>s (n, v). store s n v) s hs)" for s and hs :: "(bytes \<times> bytes) list"
  proof (induction hs rule: rev_induct)
    case Nil
    then show ?case by simp
  next
    case (snoc h hs)
    then show ?case
      using room_store [of "foldl (\<lambda>s (n, v). store s n v) s hs" "fst h" "snd h"] by (cases h) simp
  qed
  have "0 < room (foldl (\<lambda>s (n, v). store s n v) s hs)"
    using room [of s hs] snoc.prems by simp
  then show ?case
    using snoc lookup_store by (cases h) simp
qed

end

lemma same_name_refl [simp]: "same_name a a"
  by (simp add: same_name_def)

lemma same_name_trans: "same_name a b \<Longrightarrow> same_name a c \<longleftrightarrow> same_name b c"
  by (simp add: same_name_def)

lemma same_name_sym: "same_name a b \<longleftrightarrow> same_name b a"
  by (auto simp: same_name_def)

lemma get_put_value:
  "http_hdr_get_value l n = Some w \<Longrightarrow>
   http_hdr_get_value (put_value l n v) m = (if same_name n m then Some v else http_hdr_get_value l m)"
  by (induction l n v rule: put_value.induct) (auto simp: same_name_def)

lemma get_put_free:
  "http_hdr_get_value l n = None \<Longrightarrow> put_free l (k, v) = Some l' \<Longrightarrow> same_name n k \<Longrightarrow>
   http_hdr_get_value l' m = (if same_name n m then Some v else http_hdr_get_value l m)"
  by (induction l n arbitrary: l' rule: http_hdr_get_value.induct)
    (auto simp: same_name_def split: if_splits)

definition free_places :: "hdr_list \<Rightarrow> nat" where
  "free_places l = length (filter (\<lambda>p. p = None) l)"

lemma put_free_room: "put_free l hv = Some l' \<Longrightarrow> free_places l = Suc (free_places l')"
  by (induction l hv arbitrary: l' rule: put_free.induct) (auto simp: free_places_def)

lemma put_free_None: "put_free l hv = None \<longleftrightarrow> free_places l = 0"
  by (induction l hv rule: put_free.induct) (auto simp: free_places_def)

lemma put_value_room: "free_places (put_value l n v) = free_places l"
  by (induction l n v rule: put_value.induct) (auto simp: free_places_def)

lemma find_known_same: "find_known n ks = Some k \<Longrightarrow> same_name n k"
  by (induction ks) (auto split: if_splits)

lemma http_hdr_is_known_same: "http_hdr_is_known (Some n) = Some k \<Longrightarrow> same_name n k"
  by (simp add: http_hdr_is_known_def find_known_same)

definition hdr_store :: "hdr_list \<Rightarrow> bytes \<Rightarrow> bytes \<Rightarrow> hdr_list" where
  "hdr_store l n v = snd (http_hdr_set_value l (Some n) (Some v))"

interpretation hdrs: header_store http_hdr_get_value hdr_store free_places
proof
  fix s n v m
  assume room: "0 < free_places s"
  show "http_hdr_get_value (hdr_store s n v) m = (if same_name n m then Some v else http_hdr_get_value s m)"
  proof (cases "http_hdr_get_value s n")
    case (Some w)
    then show ?thesis by (simp add: hdr_store_def http_hdr_set_value_def get_put_value)
  next
    case None
    let ?k = "case http_hdr_is_known (Some n) of Some k \<Rightarrow> k | None \<Rightarrow> n"
    have k: "same_name n ?k" by (auto split: option.split dest: http_hdr_is_known_same)
    obtain l' where l': "put_free s (?k, v) = Some l'"
      using room put_free_None [of s "(?k, v)"] by auto
    then show ?thesis
      using get_put_free [OF None l' k] None by (simp add: hdr_store_def http_hdr_set_value_def)
  qed
next
  fix s n v
  show "free_places s \<le> Suc (free_places (hdr_store s n v))"
    by (auto simp: hdr_store_def http_hdr_set_value_def put_value_room
        split: option.split dest: put_free_room)
qed

lemma http_hdr_list_new_facts [simp]:
  "free_places http_hdr_list_new = 256" "http_hdr_get_value http_hdr_list_new n = None"
proof -
  show "free_places http_hdr_list_new = 256"
    by (simp add: free_places_def http_hdr_list_new_def del: replicate_Suc)
  have "http_hdr_get_value (replicate k None) n = None" for k by (induction k) simp_all
  then show "http_hdr_get_value http_hdr_list_new n = None" by (simp add: http_hdr_list_new_def)
qed

text \<open>A full list refuses a new header; a cleared one makes the copy of the names run over its array.\<close>

lemma full_list_drops_header:
  "free_places l = 0 \<Longrightarrow> http_hdr_get_value l n = None \<Longrightarrow> http_hdr_set_value l (Some n) (Some v) = (0, l)"
  by (simp add: http_hdr_set_value_def put_free_None [THEN iffD2])

lemma names_after_clear_overrun:
  "http_hdr_get_headers (None # Some (b, v) # replicate 254 None) = Inl Out_of_bounds"
proof -
  have "filter (\<lambda>p. p \<noteq> None) (replicate 254 None) = ([] :: hdr_list)" by (simp add: filter_empty_conv)
  then show ?thesis
    by (auto simp: http_hdr_get_headers_def intro!: exI [of _ 1] simp del: replicate_Suc)
qed

end
