(* ===== verification/HttpTransport.thy ===== *)
theory HttpTransport
  imports Prelude
begin

section \<open>The connection and its buffer (libghttp/http_trans.c)\<close>

text \<open>
  A connection reads the socket into one buffer that grows with the data. The bytes of the buffer
  behind those read are never looked at, so the model keeps the used part and the capacity. The socket
  is what the network has still to say: data in the pieces in which it arrives, its end, an error,
  or an interrupted call; when nothing comes any more the receive time-out ends the call. This is the
  library as it is used here: synchronous, and built without TLS.
\<close>

abbreviation (input) HTTP_TRANS_ERR :: int where "HTTP_TRANS_ERR \<equiv> -1"
abbreviation (input) HTTP_TRANS_NOT_DONE :: int where "HTTP_TRANS_NOT_DONE \<equiv> 1"
abbreviation (input) HTTP_TRANS_DONE :: int where "HTTP_TRANS_DONE \<equiv> 2"
abbreviation (input) EINTR :: int where "EINTR \<equiv> 4"
abbreviation (input) EAGAIN :: int where "EAGAIN \<equiv> 11"

datatype net_read = Net_data bytes | Net_close | Net_error int
datatype net_write = Takes nat | Write_error int

datatype err_type = http_trans_err_type_host | http_trans_err_type_errno | http_trans_err_type_ssl
  | http_trans_err_type_local_ca

record HttpConn =
  connHost :: "bytes option"
  proxyHost :: "bytes option"
  connPort :: int
  proxyPort :: int
  nTimeoutInSecond :: int
  ioBuf :: bytes
  ioLen :: nat
  ioDone :: int
  ioLeft :: int
  ioChunk :: nat
  lastRead :: int
  chunkLen :: int
  sockOpen :: bool
  errType :: err_type
  errCode :: int
  incoming :: "net_read list"
  outgoing :: "net_write list"
  sent :: bytes

definition http_trans_conn_new :: "int \<Rightarrow> net_read list \<Rightarrow> net_write list \<Rightarrow> HttpConn" where
  "http_trans_conn_new timeout inc out =
     \<lparr>connHost = None, proxyHost = None, connPort = 80, proxyPort = 0, nTimeoutInSecond = timeout, ioBuf = [], ioLen = 1024, ioDone = 0, ioLeft = 0, ioChunk = 1024, lastRead = 0, chunkLen = 0,
      sockOpen = False, errType = http_trans_err_type_host, errCode = 0,
      incoming = inc, outgoing = out, sent = []\<rparr>"

definition http_trans_conn_close :: "HttpConn \<Rightarrow> HttpConn" where
  "http_trans_conn_close c = c\<lparr>sockOpen := False\<rparr>"

text \<open>Without TLS a request for it is refused, and \<open>USE_SSL\<close> is always 0.\<close>

definition http_trans_conn_set_ssl :: "bool \<Rightarrow> int" where
  "http_trans_conn_set_ssl ssl = (if \<not> ssl then -2 else -6)"

definition http_trans_buf_free :: "HttpConn \<Rightarrow> int" where
  "http_trans_buf_free c = int (ioLen c) - int (length (ioBuf c))"

definition http_trans_append_data_to_buf :: "HttpConn \<Rightarrow> bytes \<Rightarrow> HttpConn" where
  "http_trans_append_data_to_buf c d =
     (let c = (if http_trans_buf_free c < int (length d) then c\<lparr>ioLen := ioLen c + length d\<rparr> else c)
      in c\<lparr>ioBuf := ioBuf c @ d\<rparr>)"

definition http_trans_buf_reset :: "HttpConn \<Rightarrow> HttpConn" where
  "http_trans_buf_reset c = c\<lparr>ioBuf := [], ioLen := ioChunk c, ioDone := 0, ioLeft := 0\<rparr>"

text \<open>\<open>n\<close> is the offset of \<open>a_clip_to\<close> in the buffer; \<open>memmove\<close> of a negative length is a fault.\<close>

definition http_trans_buf_clip :: "HttpConn \<Rightarrow> int \<Rightarrow> HttpConn run" where
  "http_trans_buf_clip c n =
     (if int (length (ioBuf c)) < n then Inl Out_of_bounds
      else Inr (c\<lparr>ioBuf := (if 0 < n then drop (nat n) (ioBuf c) else ioBuf c), ioDone := 0, ioLeft := 0\<rparr>))"

text \<open>The offset of the first occurrence of a pattern.\<close>

fun http_trans_buf_has_patt :: "bytes \<Rightarrow> bytes \<Rightarrow> nat option" where
  "http_trans_buf_has_patt pat [] = (if pat = [] then Some 0 else None)"
| "http_trans_buf_has_patt pat (b # bs) =
     (if take (length pat) (b # bs) = pat then Some 0
      else map_option Suc (http_trans_buf_has_patt pat bs))"

subsection \<open>Reading\<close>

text \<open>\<open>read\<close> with room for \<open>n\<close> bytes; of a longer piece the rest stays.\<close>

fun sock_read :: "nat \<Rightarrow> net_read list \<Rightarrow> (int + bytes) \<times> net_read list" where
  "sock_read n [] = (Inl EAGAIN, [])"
| "sock_read n (Net_error e # inc) = (Inl e, inc)"
| "sock_read n (Net_close # inc) = (Inr [], [Net_close])"
| "sock_read n (Net_data d # inc) =
     (Inr (take n d), if drop n d = [] then inc else Net_data (drop n d) # inc)"

definition http_trans_read_into_buf :: "HttpConn \<Rightarrow> int \<times> HttpConn" where
  "http_trans_read_into_buf c =
     (let c = (if ioLeft c = 0 then c\<lparr>ioLeft := int (ioChunk c), ioDone := 0\<rparr> else c);
          c = (if http_trans_buf_free c < ioLeft c then c\<lparr>ioLen := ioLen c + nat (ioLeft c)\<rparr> else c);
          n = (if int (ioChunk c) < ioLeft c then ioChunk c else nat (ioLeft c))
      in (case sock_read n (incoming c) of
             (Inl e, inc) \<Rightarrow>
               (if e = EINTR then HTTP_TRANS_NOT_DONE else HTTP_TRANS_ERR,
                c\<lparr>lastRead := -1, errType := http_trans_err_type_errno, errCode := e, incoming := inc\<rparr>)
           | (Inr d, inc) \<Rightarrow>
               if d = [] then (HTTP_TRANS_DONE, c\<lparr>lastRead := 0, incoming := inc\<rparr>)
               else
                 let c = c\<lparr>lastRead := int (length d), incoming := inc, ioLeft := ioLeft c - int (length d),
                       ioDone := ioDone c + int (length d), ioBuf := ioBuf c @ d\<rparr>
                 in (if ioLeft c = 0 then HTTP_TRANS_DONE else HTTP_TRANS_NOT_DONE, c)))"

text \<open>What the network has still to say, as a measure for the loops that read.\<close>

fun net_size :: "net_read list \<Rightarrow> nat" where
  "net_size [] = 0"
| "net_size (Net_data d # inc) = Suc (length d + net_size inc)"
| "net_size (Net_close # inc) = 0"
| "net_size (Net_error e # inc) = Suc (net_size inc)"

subsection \<open>Writing\<close>

text \<open>
  \<open>write\<close> takes at least one of the bytes or fails. An interrupted call counts as nothing written,
  for which the function returns \<open>HTTP_TRANS_DONE\<close>. With nothing to write the call returns 0, an error here.
\<close>

definition http_trans_write_buf :: "HttpConn \<Rightarrow> int \<times> HttpConn" where
  "http_trans_write_buf c =
     (let c = (if ioLeft c = 0 then c\<lparr>ioLeft := int (length (ioBuf c)), ioDone := 0\<rparr> else c)
      in if ioLeft c \<le> 0 then (HTTP_TRANS_ERR, c)
         else (case outgoing c of
             [] \<Rightarrow> (HTTP_TRANS_ERR, c\<lparr>lastRead := -1, errType := http_trans_err_type_errno, errCode := EAGAIN\<rparr>)
           | Write_error e # out \<Rightarrow>
               (if e = EINTR then HTTP_TRANS_DONE else HTTP_TRANS_ERR,
                c\<lparr>lastRead := -1, errType := http_trans_err_type_errno, errCode := e, outgoing := out\<rparr>)
           | Takes k # out \<Rightarrow>
               let n = min (nat (ioLeft c)) (Suc k);
                   d = take n (drop (nat (ioDone c)) (ioBuf c));
                   c = c\<lparr>lastRead := int n, outgoing := out, sent := sent c @ d,
                       ioLeft := ioLeft c - int n, ioDone := ioDone c + int n\<rparr>
               in (if ioLeft c = 0 then HTTP_TRANS_DONE else HTTP_TRANS_NOT_DONE, c)))"

subsection \<open>The loops\<close>

text \<open>Every read that goes on brings the loops nearer to their end: data or an event is consumed.\<close>

definition to_come :: "HttpConn \<Rightarrow> nat" where
  "to_come c = 2 * net_size (incoming c) + length (ioBuf c)"

lemma sock_read_data: "sock_read n inc = (Inr d, inc') \<Longrightarrow> length d + net_size inc' \<le> net_size inc"
  by (induction n inc rule: sock_read.induct) (auto split: if_splits)

lemma sock_read_step:
  assumes "sock_read n inc = (Inr d, inc')" and "d \<noteq> []"
  shows "2 * net_size inc' + length d < 2 * net_size inc"
proof -
  have "0 < length d" using assms(2) by simp
  then show ?thesis using sock_read_data [OF assms(1)] by linarith
qed

lemma sock_read_error: "sock_read n inc = (Inl e, inc') \<Longrightarrow> e \<noteq> EAGAIN \<Longrightarrow> net_size inc' < net_size inc"
  by (induction n inc rule: sock_read.induct) (auto split: if_splits)

lemma read_progress:
  assumes "http_trans_read_into_buf c = (rv, c')" and "rv \<noteq> HTTP_TRANS_ERR"
  shows "to_come c' \<le> to_come c"
    and "rv = HTTP_TRANS_NOT_DONE \<or> lastRead c' \<noteq> 0 \<Longrightarrow> to_come c' < to_come c"
proof -
  define c1 where "c1 = (if ioLeft c = 0 then c\<lparr>ioLeft := int (ioChunk c), ioDone := 0\<rparr> else c)"
  define c2 where "c2 = (if http_trans_buf_free c1 < ioLeft c1 then c1\<lparr>ioLen := ioLen c1 + nat (ioLeft c1)\<rparr> else c1)"
  define n where "n = (if int (ioChunk c2) < ioLeft c2 then ioChunk c2 else nat (ioLeft c2))"
  have c2: "incoming c2 = incoming c" "ioBuf c2 = ioBuf c"
    by (simp_all add: c2_def c1_def)
  obtain res inc where sr: "sock_read n (incoming c) = (res, inc)" by fastforce
  note read = assms(1) [unfolded http_trans_read_into_buf_def Let_def, folded c1_def, folded c2_def,
      folded n_def, unfolded c2 sr]
  show "to_come c' \<le> to_come c"
    using read assms(2) sock_read_data [of n "incoming c"] sock_read_error [of n "incoming c"] sr
    by (auto simp: to_come_def c2 split: sum.splits if_splits)
  show "rv = HTTP_TRANS_NOT_DONE \<or> lastRead c' \<noteq> 0 \<Longrightarrow> to_come c' < to_come c"
    using read assms(2) sock_read_step [of n "incoming c"] sock_read_error [of n "incoming c"] sr
    by (auto simp: to_come_def c2 split: sum.splits if_splits)
qed

lemma read_codes:
  "http_trans_read_into_buf c = (rv, c') \<Longrightarrow> rv \<in> {HTTP_TRANS_ERR, HTTP_TRANS_NOT_DONE, HTTP_TRANS_DONE}"
  by (auto simp: http_trans_read_into_buf_def Let_def split: prod.splits sum.splits if_splits)

lemma read_error_last: "http_trans_read_into_buf c = (HTTP_TRANS_ERR, c') \<Longrightarrow> lastRead c' = -1"
  by (auto simp: http_trans_read_into_buf_def Let_def split: prod.splits sum.splits if_splits)

text \<open>\<open>do ... while (l_rv == HTTP_TRANS_NOT_DONE)\<close>, and the loop to the end of the stream.\<close>

function read_loop :: "HttpConn \<Rightarrow> int \<times> HttpConn" where
  "read_loop c =
     (case http_trans_read_into_buf c of (rv, c') \<Rightarrow>
        if rv = HTTP_TRANS_NOT_DONE then read_loop c' else (rv, c'))"
  by pat_completeness auto
termination
  by (relation "measure to_come") (simp_all, metis one_neq_neg_one read_progress(2))

lemma read_goes_on:
  assumes "http_trans_read_into_buf c = (rv, c')" and "rv = HTTP_TRANS_NOT_DONE \<or> 0 < lastRead c'"
  shows "to_come c' < to_come c"
  using assms read_progress [OF assms(1)] read_error_last [of c c']
  by (cases "rv = HTTP_TRANS_ERR") auto

function read_to_end :: "HttpConn \<Rightarrow> int \<times> HttpConn" where
  "read_to_end c =
     (case http_trans_read_into_buf c of (rv, c') \<Rightarrow>
        if rv = HTTP_TRANS_NOT_DONE \<or> 0 < lastRead c' then read_to_end c' else (rv, c'))"
  by pat_completeness auto
termination
  by (relation "measure to_come") (simp_all add: read_goes_on [OF sym])

declare read_loop.simps [simp del] read_to_end.simps [simp del]

lemma read_loop_less: "read_loop c = (rv, c') \<Longrightarrow> rv \<noteq> HTTP_TRANS_ERR \<Longrightarrow> to_come c' \<le> to_come c"
proof (induction c rule: read_loop.induct)
  case (1 c)
  obtain rv1 c1 where r: "http_trans_read_into_buf c = (rv1, c1)" by fastforce
  show ?case
  proof (cases "rv1 = HTTP_TRANS_NOT_DONE")
    case True
    then have "read_loop c1 = (rv, c')" using 1(2) r by (simp add: read_loop.simps [of c])
    then show ?thesis
      using "1.IH" [OF r [symmetric] True] 1(3) read_progress(2) [OF r] True by simp
  next
    case False
    then show ?thesis
      using 1(2,3) r read_progress(1) [OF r] by (simp add: read_loop.simps [of c])
  qed
qed

subsection \<open>Patterns in the buffer\<close>

lemma has_patt_Some:
  "http_trans_buf_has_patt pat s = Some k \<Longrightarrow> k + length pat \<le> length s \<and> take (length pat) (drop k s) = pat"
proof (induction s arbitrary: k)
  case Nil
  then show ?case by (simp split: if_splits)
next
  case (Cons b s)
  show ?case
  proof (cases "take (length pat) (b # s) = pat")
    case True
    then have "length pat \<le> length (b # s)" by (metis length_take min.absorb_iff2 min.commute)
    then show ?thesis using Cons.prems True by simp
  next
    case False
    then show ?thesis using Cons by auto
  qed
qed

text \<open>What is found does not depend on how much more there is.\<close>

lemma has_patt_append:
  "http_trans_buf_has_patt pat s = Some k \<Longrightarrow> http_trans_buf_has_patt pat (s @ t) = Some k"
proof (induction s arbitrary: k)
  case Nil
  then show ?case by (cases t) (simp_all split: if_splits)
next
  case (Cons b s)
  show ?case
  proof (cases "take (length pat) (b # s) = pat")
    case True
    then have "length pat \<le> length (b # s)" by (metis length_take min.absorb_iff2 min.commute)
    then have "take (length pat) ((b # s) @ t) = pat" using True by (simp only: take_append) simp
    then show ?thesis using Cons.prems True by simp
  next
    case False
    then obtain j where j: "http_trans_buf_has_patt pat s = Some j" "k = Suc j" using Cons.prems by auto
    have "take (length pat) (b # s @ t) \<noteq> pat"
    proof
      assume eq: "take (length pat) (b # s @ t) = pat"
      have "length pat \<le> length s" using has_patt_Some [OF j(1)] by simp
      then have "take (length pat) (b # s) = pat" using eq by (simp add: take_Cons' split: if_splits)
      then show False using False by simp
    qed
    then show ?thesis using Cons.IH [OF j(1)] j(2) by simp
  qed
qed

lemma has_patt_prefix:
  assumes "http_trans_buf_has_patt pat (s @ t) = Some k" and "k + length pat \<le> length s"
  shows "http_trans_buf_has_patt pat s = Some k"
  using assms
proof (induction s arbitrary: k)
  case Nil
  then show ?case by (cases t) (auto split: if_splits)
next
  case (Cons b s)
  show ?case
  proof (cases "take (length pat) (b # s @ t) = pat")
    case True
    then have "k = 0" using Cons.prems(1) by simp
    then have "take (length pat) (b # s) = pat" using True Cons.prems(2) by (simp add: take_Cons' split: if_splits)
    then show ?thesis using \<open>k = 0\<close> by simp
  next
    case False
    then obtain j where j: "http_trans_buf_has_patt pat (s @ t) = Some j" "k = Suc j" using Cons.prems(1) by auto
    have "take (length pat) (b # s) \<noteq> pat"
    proof
      assume eq: "take (length pat) (b # s) = pat"
      then have "length pat \<le> length (b # s)" by (metis length_take min.absorb_iff2 min.commute)
      then have "take (length pat) ((b # s) @ t) = pat" using eq by (simp only: take_append) simp
      then show False using False by simp
    qed
    then show ?thesis using Cons.IH [OF j(1)] Cons.prems(2) j(2) by simp
  qed
qed

lemma has_patt_longer:
  assumes "http_trans_buf_has_patt pat (s @ t) = Some k" and "length s < k + length pat"
  shows "http_trans_buf_has_patt pat s = None"
proof (rule ccontr)
  assume "http_trans_buf_has_patt pat s \<noteq> None"
  then obtain j where j: "http_trans_buf_has_patt pat s = Some j" by auto
  then have "j = k" using has_patt_append [OF j, of t] assms(1) by simp
  then show False using has_patt_Some [OF j] assms(2) by simp
qed

subsection \<open>A stream in pieces\<close>

text \<open>
  The peer delivers a stream in any pieces, with calls interrupted in between: what is in the buffer
  and what is still to come make up the stream, and reading only moves the border.
\<close>

definition pieces :: "net_read list \<Rightarrow> bool" where
  "pieces inc \<longleftrightarrow> (\<forall>e \<in> set inc. case e of Net_data d \<Rightarrow> d \<noteq> [] | Net_close \<Rightarrow> False | Net_error e \<Rightarrow> e = EINTR)"

fun stream :: "net_read list \<Rightarrow> bytes" where
  "stream [] = []"
| "stream (Net_data d # inc) = d @ stream inc"
| "stream (_ # inc) = stream inc"

definition pending :: "HttpConn \<Rightarrow> bytes" where
  "pending c = ioBuf c @ stream (incoming c)"

definition conn_ok :: "HttpConn \<Rightarrow> bool" where
  "conn_ok c \<longleftrightarrow> 0 < ioChunk c \<and> 0 \<le> ioLeft c \<and> pieces (incoming c)"

text \<open>Nothing but the buffer, its counters and the socket changes by reading.\<close>

definition same_but_io :: "HttpConn \<Rightarrow> HttpConn \<Rightarrow> bool" where
  "same_but_io c c' \<longleftrightarrow> chunkLen c' = chunkLen c \<and> sockOpen c' = sockOpen c \<and> ioChunk c' = ioChunk c
     \<and> outgoing c' = outgoing c \<and> sent c' = sent c \<and> connHost c' = connHost c \<and> proxyHost c' = proxyHost c"

lemma same_but_io_refl [simp]: "same_but_io c c"
  by (simp add: same_but_io_def)

lemma same_but_io_trans: "same_but_io a b \<Longrightarrow> same_but_io b c \<Longrightarrow> same_but_io a c"
  by (simp add: same_but_io_def)

lemma sock_read_pieces:
  assumes "pieces inc" and "stream inc \<noteq> []" and "0 < n"
  shows "(\<exists>inc'. sock_read n inc = (Inl EINTR, inc') \<and> pieces inc' \<and> stream inc' = stream inc)
    \<or> (\<exists>d inc'. sock_read n inc = (Inr d, inc') \<and> d \<noteq> [] \<and> length d \<le> n \<and> pieces inc'
        \<and> stream inc = d @ stream inc')"
proof (cases inc)
  case Nil
  then show ?thesis using assms(2) by simp
next
  case (Cons e rest)
  then show ?thesis
    using assms by (cases e) (auto simp: pieces_def)
qed

lemma read_pieces:
  assumes ok: "conn_ok c" and more: "stream (incoming c) \<noteq> []"
  shows "\<exists>rv c' d. http_trans_read_into_buf c = (rv, c') \<and> conn_ok c' \<and> pending c' = pending c
    \<and> same_but_io c c' \<and> ioBuf c' = ioBuf c @ d \<and> rv \<noteq> HTTP_TRANS_ERR \<and> lastRead c' \<noteq> 0
    \<and> (rv = HTTP_TRANS_NOT_DONE \<longleftrightarrow> ioLeft c' \<noteq> 0) \<and> rv \<in> {HTTP_TRANS_NOT_DONE, HTTP_TRANS_DONE}
    \<and> ioLeft c' = (if ioLeft c = 0 then int (ioChunk c) else ioLeft c) - int (length d)"
proof -
  define c1 where "c1 = (if ioLeft c = 0 then c\<lparr>ioLeft := int (ioChunk c), ioDone := 0\<rparr> else c)"
  define c2 where "c2 = (if http_trans_buf_free c1 < ioLeft c1 then c1\<lparr>ioLen := ioLen c1 + nat (ioLeft c1)\<rparr> else c1)"
  define n where "n = (if int (ioChunk c2) < ioLeft c2 then ioChunk c2 else nat (ioLeft c2))"
  have c2: "incoming c2 = incoming c" "ioBuf c2 = ioBuf c" "ioChunk c2 = ioChunk c"
    "ioLeft c2 = (if ioLeft c = 0 then int (ioChunk c) else ioLeft c)" "same_but_io c c2" "0 < ioLeft c2"
    using ok by (auto simp: c2_def c1_def same_but_io_def conn_ok_def)
  have n: "0 < n" "int n \<le> ioLeft c2"
    using ok c2(6) by (auto simp: n_def c2(3) conn_ok_def)
  note read = http_trans_read_into_buf_def [of c, unfolded Let_def, folded c1_def, folded c2_def,
      folded n_def, unfolded c2(1,2)]
  have p: "pieces (incoming c)" "0 < ioChunk c" using ok by (simp_all add: conn_ok_def)
  consider (intr) inc where "sock_read n (incoming c) = (Inl EINTR, inc)" "pieces inc" "stream inc = stream (incoming c)"
    | (got) d inc where "sock_read n (incoming c) = (Inr d, inc)" "d \<noteq> []" "length d \<le> n" "pieces inc"
        "stream (incoming c) = d @ stream inc"
    using sock_read_pieces [OF p(1) more n(1)] by blast
  then show ?thesis
  proof cases
    case intr
    then show ?thesis
      using c2 p by (intro exI [of _ HTTP_TRANS_NOT_DONE] exI [of _ "c2\<lparr>lastRead := -1, errType := http_trans_err_type_errno,
          errCode := EINTR, incoming := inc\<rparr>"] exI [of _ "[]"])
        (auto simp: read conn_ok_def pending_def same_but_io_def)
  next
    case got
    let ?c = "c2\<lparr>lastRead := int (length d), incoming := inc, ioLeft := ioLeft c2 - int (length d),
        ioDone := ioDone c2 + int (length d), ioBuf := ioBuf c @ d\<rparr>"
    have "length d \<noteq> 0" using got(2) by simp
    then show ?thesis
      using got c2 p n
      by (intro exI [of _ "if ioLeft ?c = 0 then HTTP_TRANS_DONE else HTTP_TRANS_NOT_DONE"] exI [of _ ?c] exI [of _ d])
        (auto simp: read conn_ok_def pending_def same_but_io_def)
  qed
qed

text \<open>The loop that fills the buffer up to a given length.\<close>

lemma read_loop_pieces:
  assumes "conn_ok c" and "0 < ioLeft c" and "nat (ioLeft c) \<le> length (stream (incoming c))"
  shows "\<exists>c'. read_loop c = (HTTP_TRANS_DONE, c') \<and> conn_ok c' \<and> pending c' = pending c \<and> same_but_io c c'
    \<and> ioLeft c' = 0 \<and> lastRead c' \<noteq> 0 \<and> ioBuf c' = ioBuf c @ take (nat (ioLeft c)) (stream (incoming c))"
  using assms
proof (induction c rule: read_loop.induct)
  case (1 c)
  then have "stream (incoming c) \<noteq> []" by auto
  then obtain rv c1 d where r: "http_trans_read_into_buf c = (rv, c1)" "conn_ok c1" "pending c1 = pending c"
      "same_but_io c c1" "ioBuf c1 = ioBuf c @ d" "rv \<in> {HTTP_TRANS_NOT_DONE, HTTP_TRANS_DONE}" "lastRead c1 \<noteq> 0"
      "rv = HTTP_TRANS_NOT_DONE \<longleftrightarrow> ioLeft c1 \<noteq> 0"
      "ioLeft c1 = (if ioLeft c = 0 then int (ioChunk c) else ioLeft c) - int (length d)"
    using read_pieces [OF 1(2)] by blast
  have left: "ioLeft c1 = ioLeft c - int (length d)" using r(9) 1(3) by simp
  have d: "stream (incoming c) = d @ stream (incoming c1)"
    using r(3,5) by (simp add: pending_def)
  show ?case
  proof (cases "ioLeft c1 = 0")
    case True
    then have "nat (ioLeft c) = length d" using left by simp
    then show ?thesis
      using True r d by (auto simp: read_loop.simps [of c])
  next
    case False
    have pos: "0 < ioLeft c1" using False r(2) by (simp add: conn_ok_def)
    have "nat (ioLeft c1) \<le> length (stream (incoming c1))" "nat (ioLeft c) = length d + nat (ioLeft c1)"
      using 1(4) d left pos by simp_all
    then show ?thesis
      using "1.IH" [OF r(1) [symmetric]] r(1-8) pos d False same_but_io_trans [OF r(4)]
      by (auto simp: read_loop.simps [of c])
  qed
qed

end
