(* ===== verification/HttpResponse.thy ===== *)
theory HttpResponse
  imports HttpHeaders HttpTransport TokenConfig
begin

section \<open>Reading a response (libghttp/http_resp.c)\<close>

text \<open>
  The response line and the headers are read until an empty line is in the buffer and then taken
  apart by a state machine over the characters; the body follows by its length, in chunks, or to the
  end of the connection.
\<close>

record HttpResp =
  respVer :: "int \<times> int"
  statusCode :: int
  reasonPhrase :: "bytes option"
  respHeaders :: hdr_list
  respBody :: "bytes option"
  contentLength :: int
  flushedLength :: int

definition http_resp_new :: HttpResp where
  "http_resp_new = \<lparr>respVer = (0, 0), statusCode = 0, reasonPhrase = None,
     respHeaders = http_hdr_list_new, respBody = None, contentLength = 0, flushedLength = 0\<rparr>"

definition isdigit :: "u8 \<Rightarrow> bool" where
  "isdigit c \<longleftrightarrow> 48 \<le> c \<and> c \<le> 57"

definition digit_value :: "u8 \<Rightarrow> int" where
  "digit_value c = uint c - 48"

subsection \<open>The response line\<close>

text \<open>
  Version, status code and reason phrase; the phrase goes to the next carriage return, which is there
  because the end of the headers was found.
\<close>

definition response_line :: "bytes \<Rightarrow> ((int \<times> int) \<times> int \<times> bytes) option" where
  "response_line b =
     (if length b < 14 then None
      else if take 4 b \<noteq> chars ''HTTP'' then None
      else if \<not> isdigit (b ! 5) \<or> b ! 6 \<noteq> 46 \<or> \<not> isdigit (b ! 7) \<or> b ! 8 \<noteq> 32 \<or> \<not> isdigit (b ! 9)
        \<or> \<not> isdigit (b ! 10) \<or> \<not> isdigit (b ! 11) \<or> b ! 12 \<noteq> 32 then None
      else Some ((digit_value (b ! 5), digit_value (b ! 7)),
        digit_value (b ! 9) * 100 + digit_value (b ! 10) * 10 + digit_value (b ! 11),
        takeWhile (\<lambda>c. c \<noteq> 13) (drop 13 b)))"

subsection \<open>The headers\<close>

text \<open>
  The states of the machine; the start and length of a name or value are the characters between. A
  name of no characters is a line that continues the header before.
\<close>

datatype header_state = reading_header bytes | reading_sep bytes | reading_value bytes bytes | reading_eol

text \<open>
  \<open>n\<close> counts the characters up to the one behind the end of the headers, \<open>s\<close> are the characters
  from the current one on. The result says whether the headers are well formed.
\<close>

definition is_eol :: "u8 \<Rightarrow> bool" where
  "is_eol c \<longleftrightarrow> c = 13 \<or> c = 10"

definition is_blank :: "u8 \<Rightarrow> bool" where
  "is_blank c \<longleftrightarrow> c = 32 \<or> c = 9"

function parse_headers ::
    "nat \<Rightarrow> bytes \<Rightarrow> header_state \<Rightarrow> bytes option \<Rightarrow> hdr_list \<Rightarrow> (bool \<times> hdr_list) run" where
  "parse_headers 0 s st prev hs = Inr (True, hs)"
| "parse_headers (Suc n) [] st prev hs = Inl Out_of_bounds"
| "parse_headers (Suc n) (c # s) (reading_header name) prev hs =
     (if name = [] \<and> is_blank c then
        (if prev = None then Inr (False, hs) else parse_headers n s (reading_sep []) prev hs)
      else if c = 58 then
        (if name = [] then Inr (False, hs) else parse_headers n s (reading_sep name) prev hs)
      else if c = 13 then Inr (False, hs)
      else parse_headers n s (reading_header (name @ [c])) prev hs)"
| "parse_headers (Suc n) (c # s) (reading_sep name) prev hs =
     (if is_blank c then parse_headers n s (reading_sep name) prev hs
      else parse_headers (Suc n) (c # s) (reading_value name []) prev hs)"
| "parse_headers (Suc n) (c # s) (reading_value name val) prev hs =
     (if is_eol c then
        (if name = [] then
           parse_headers (Suc n) (c # s) reading_eol prev
             (snd (http_hdr_set_value_no_nts hs (case prev of Some p \<Rightarrow> p | None \<Rightarrow> []) val))
         else parse_headers (Suc n) (c # s) reading_eol (Some name)
             (snd (http_hdr_set_value_no_nts hs name val)))
      else parse_headers n s (reading_value name (val @ [c])) prev hs)"
| "parse_headers (Suc n) (c # s) reading_eol prev hs =
     (if is_eol c then parse_headers n s reading_eol prev hs
      else parse_headers (Suc n) (c # s) (reading_header []) prev hs)"
  by pat_completeness auto
termination
  by (relation "measures [\<lambda>(n, _). n, \<lambda>(_, _, st, _). case st of reading_header _ \<Rightarrow> 0 | reading_eol \<Rightarrow> 1
      | reading_value _ _ \<Rightarrow> 2 | reading_sep _ \<Rightarrow> 3]") auto

text \<open>
  From the end of the reason phrase to the end \<open>k\<close> of the headers. Carriage returns and line feeds are
  skipped first, be it past that end; then it is never met and the machine runs on.
\<close>

definition response_headers :: "bytes \<Rightarrow> nat \<Rightarrow> nat \<Rightarrow> hdr_list \<Rightarrow> (bool \<times> hdr_list) run" where
  "response_headers b start k hs =
     (if start = k then Inr (True, hs)
      else
        let s = dropWhile is_eol (drop start b); i = length b - length s
        in if s = [] then Inl Out_of_bounds
           else parse_headers (if i \<le> k + 1 then k + 1 - i else Suc (length s)) s (reading_header []) None hs)"

definition crlf2 :: bytes where
  "crlf2 = [13, 10, 13, 10]"

text \<open>
  A response with status 100 is cut off and the next one read, after another read from the socket.
\<close>

lemma buf_clip_less:
  "http_trans_buf_clip c n = Inr c' \<Longrightarrow> 0 < n \<Longrightarrow> to_come c' < to_come c"
  by (auto simp: http_trans_buf_clip_def to_come_def split: if_splits)

lemma read_again:
  "(rv, c') = http_trans_read_into_buf c \<Longrightarrow> rv \<noteq> HTTP_TRANS_ERR
     \<Longrightarrow> \<not> (rv = HTTP_TRANS_DONE \<and> lastRead c' = 0) \<Longrightarrow> to_come c' < to_come c"
  using read_progress [of c rv c'] read_codes [of c rv c'] by auto

lemma read_clip_less:
  "(rv, c') = http_trans_read_into_buf c \<Longrightarrow> rv \<noteq> HTTP_TRANS_ERR
     \<Longrightarrow> http_trans_buf_clip c' (int k + 4) = Inr c'' \<Longrightarrow> to_come c'' < to_come c"
  using read_progress(1) [of c rv c'] buf_clip_less [of c' "int k + 4" c''] by auto

function http_resp_read_headers :: "HttpResp \<Rightarrow> HttpConn \<Rightarrow> (int \<times> HttpResp \<times> HttpConn) run" where
  "http_resp_read_headers r c =
     (case http_trans_read_into_buf c of (rv, c') \<Rightarrow>
        if rv = HTTP_TRANS_ERR then Inr (HTTP_TRANS_ERR, r, c')
        else (case http_trans_buf_has_patt crlf2 (ioBuf c') of
            None \<Rightarrow>
              if rv = HTTP_TRANS_DONE \<and> lastRead c' = 0 then Inr (HTTP_TRANS_ERR, r, c')
              else http_resp_read_headers r c'
          | Some k \<Rightarrow>
              (case response_line (ioBuf c') of
                 None \<Rightarrow> Inr (HTTP_TRANS_ERR, r, c')
               | Some (ver, code, reason) \<Rightarrow>
                   if code = 100 then
                     (case http_trans_buf_clip c' (int k + 4) of
                        Inl f \<Rightarrow> Inl f
                      | Inr c'' \<Rightarrow> http_resp_read_headers
                          (r\<lparr>respVer := ver, statusCode := 0, reasonPhrase := Some reason\<rparr>) c'')
                   else
                     and_then (response_headers (ioBuf c') (13 + length reason) k (respHeaders r)) (\<lambda>(ok, hs).
                     let r = r\<lparr>respVer := ver, statusCode := code, reasonPhrase := Some reason, respHeaders := hs\<rparr>
                     in if \<not> ok then Inr (HTTP_TRANS_ERR, r, c')
                        else and_then (http_trans_buf_clip c' (int k + 4)) (\<lambda>c.
                          Inr (HTTP_TRANS_DONE, r, c))))))"
  by pat_completeness auto
termination
  by (relation "measure (\<lambda>(r, c). to_come c)") (simp_all add: read_again read_clip_less)

declare http_resp_read_headers.simps [simp del]

subsection \<open>The body by its length\<close>

definition string_is_number :: "bytes \<Rightarrow> bool" where
  "string_is_number s \<longleftrightarrow> s \<noteq> [] \<and> list_all isdigit s"

text \<open>\<open>atoi\<close> of digits: \<open>strtol\<close> keeps to the range of a \<open>long\<close>, the result is narrowed to an \<open>int\<close>.\<close>

definition atoi_digits :: "bytes \<Rightarrow> int" where
  "atoi_digits s = c_int (min (foldl (\<lambda>n c. 10 * n + digit_value c) 0 s) (2 ^ 63 - 1))"

definition flush_response_body :: "HttpResp \<Rightarrow> HttpConn \<Rightarrow> HttpResp \<times> HttpConn" where
  "flush_response_body r c =
     (r\<lparr>flushedLength := flushedLength r + (case respBody r of None \<Rightarrow> 0 | Some b \<Rightarrow> int (length b)),
        respBody := Some (ioBuf c)\<rparr>, http_trans_buf_reset c)"

definition bodyLen :: "HttpResp \<Rightarrow> int" where
  "bodyLen r = (case respBody r of None \<Rightarrow> 0 | Some b \<Rightarrow> int (length b))"

definition read_body_content_length :: "HttpResp \<Rightarrow> HttpConn \<Rightarrow> int \<times> HttpResp \<times> HttpConn" where
  "read_body_content_length r c =
     (if contentLength r = 0 then (HTTP_TRANS_DONE, r, c)
      else
        let left = contentLength r - int (length (ioBuf c)) - flushedLength r - bodyLen r;
            c = c\<lparr>ioLeft := left, ioDone := 0\<rparr>;
            flush = (\<lambda>c. case flush_response_body r c of (r, c) \<Rightarrow> (HTTP_TRANS_DONE, r, c))
        in if 0 < left then
             (case read_loop c of (rv, c) \<Rightarrow>
                if rv = HTTP_TRANS_ERR \<or> rv = HTTP_TRANS_DONE \<and> lastRead c = 0 then (HTTP_TRANS_ERR, r, c)
                else flush c)
           else flush c)"

subsection \<open>The body in chunks\<close>

definition is_hex :: "u8 \<Rightarrow> bool" where
  "is_hex c \<longleftrightarrow> (97 \<le> to_lower c \<and> to_lower c \<le> 102) \<or> (48 \<le> c \<and> c \<le> 57)"

definition hex_digit :: "u8 \<Rightarrow> int" where
  "hex_digit c = (if 97 \<le> to_lower c \<and> to_lower c \<le> 102 then uint (to_lower c) - 0x57
     else uint (to_lower c) - 0x30)"

text \<open>
  The digits are shifted by four times their place: by 32 bits and more for a number of more than eight
  digits, leading zeros included, which C leaves undefined. The sum wraps as an \<open>int\<close>.
\<close>

fun hex_sum :: "bytes \<Rightarrow> int" where
  "hex_sum [] = 0"
| "hex_sum (c # s) = hex_digit c * 2 ^ (4 * length s) + hex_sum s"

definition chunk_size :: "bytes \<Rightarrow> int run" where
  "chunk_size s = (if 8 < length s then Inl Bad_shift else Inr (c_int (hex_sum s)))"

text \<open>The end of the chunk's header is in the buffer, or is read for.\<close>

function find_eol :: "HttpConn \<Rightarrow> nat option \<times> HttpConn" where
  "find_eol c =
     (case http_trans_buf_has_patt [13, 10] (ioBuf c) of
        Some k \<Rightarrow> (Some k, c)
      | None \<Rightarrow>
          (case http_trans_read_into_buf c of (rv, c') \<Rightarrow>
             if rv = HTTP_TRANS_ERR \<or> rv = HTTP_TRANS_DONE \<and> lastRead c' = 0 then (None, c')
             else find_eol c'))"
  by pat_completeness auto
termination
  by (relation "measure to_come") (simp_all add: read_again)

declare find_eol.simps [simp del]

definition chunk_header :: "HttpConn \<Rightarrow> (int \<times> HttpConn) run" where
  "chunk_header c =
     (case find_eol c of
        (None, c) \<Rightarrow> Inr (HTTP_TRANS_ERR, c)
      | (Some k, c) \<Rightarrow>
          let s = takeWhile is_hex (take k (ioBuf c)) in
          if s = [] then Inr (HTTP_TRANS_ERR, c\<lparr>chunkLen := -1\<rparr>)
          else and_then (chunk_size s) (\<lambda>n.
               and_then (http_trans_buf_clip (c\<lparr>chunkLen := n\<rparr>) (int k + 2)) (\<lambda>c.
                 Inr (HTTP_TRANS_DONE, c))))"

definition chunk_data :: "HttpConn \<Rightarrow> int \<times> HttpConn" where
  "chunk_data c =
     (let finish = (\<lambda>c. (if chunkLen c + 2 \<le> int (length (ioBuf c)) \<or> chunkLen c = 0 then HTTP_TRANS_DONE
                         else HTTP_TRANS_ERR, c));
          left = chunkLen c - int (length (ioBuf c)) + 2
      in if chunkLen c \<noteq> 0 \<and> 0 < left then
           (case read_loop (c\<lparr>ioLeft := left, ioDone := 0\<rparr>) of (rv, c) \<Rightarrow>
              if rv = HTTP_TRANS_ERR \<or> rv = HTTP_TRANS_DONE \<and> lastRead c = 0 then (HTTP_TRANS_ERR, c)
              else finish c)
         else finish c)"

definition read_chunk :: "HttpConn \<Rightarrow> (int \<times> HttpConn) run" where
  "read_chunk c =
     and_then (if chunkLen c = 0 then chunk_header c else Inr (HTTP_TRANS_DONE, c)) (\<lambda>(rv, c).
       if rv = HTTP_TRANS_ERR then Inr (rv, c) else Inr (chunk_data c))"

text \<open>
  After the last chunk two bytes must be in the buffer; here the peer may have hung up.
\<close>

definition chunk_append :: "HttpResp \<Rightarrow> HttpConn \<Rightarrow> HttpResp" where
  "chunk_append r c =
     (if 0 < chunkLen c
      then r\<lparr>respBody := Some ((case respBody r of None \<Rightarrow> [] | Some b \<Rightarrow> b) @ take (nat (chunkLen c)) (ioBuf c))\<rparr>
      else r)"

definition last_chunk :: "HttpConn \<Rightarrow> int \<times> HttpConn" where
  "last_chunk c =
     (if length (ioBuf c) < 2 then read_loop (c\<lparr>ioLeft := 2 - int (length (ioBuf c)), ioDone := 0\<rparr>)
      else (HTTP_TRANS_DONE, c))"

lemma to_come_update [simp]:
  "to_come (c\<lparr>ioLeft := l, ioDone := d\<rparr>) = to_come c" "to_come (c\<lparr>chunkLen := n\<rparr>) = to_come c"
  by (simp_all add: to_come_def)

lemma find_eol_less: "find_eol c = (Some k, c') \<Longrightarrow> to_come c' \<le> to_come c"
proof (induction c rule: find_eol.induct)
  case (1 c)
  show ?case
  proof (cases "http_trans_buf_has_patt [13, 10] (ioBuf c)")
    case (Some j)
    then show ?thesis using 1(2) by (simp add: find_eol.simps [of c])
  next
    case None
    obtain rv c1 where r: "http_trans_read_into_buf c = (rv, c1)" by fastforce
    have more: "\<not> (rv = HTTP_TRANS_ERR \<or> rv = HTTP_TRANS_DONE \<and> lastRead c1 = 0)"
      using 1(2) None r by (auto simp: find_eol.simps [of c])
    then have "find_eol c1 = (Some k, c')" using 1(2) None r by (auto simp: find_eol.simps [of c])
    then show ?thesis
      using "1.IH" [OF None r [symmetric] more] read_again [OF r [symmetric]] more by simp
  qed
qed

lemma chunk_header_less: "chunk_header c = Inr (HTTP_TRANS_DONE, c') \<Longrightarrow> to_come c' < to_come c"
  by (auto simp: chunk_header_def Let_def and_then_eq_Inr split: prod.splits option.splits if_splits
      dest!: find_eol_less buf_clip_less)

lemma chunk_data_less: "chunk_data c = (HTTP_TRANS_DONE, c') \<Longrightarrow> to_come c' \<le> to_come c"
  by (auto simp: chunk_data_def Let_def split: prod.splits if_splits dest!: read_loop_less)

lemma chunk_header_codes: "chunk_header c = Inr (rv, c') \<Longrightarrow> rv = HTTP_TRANS_ERR \<or> rv = HTTP_TRANS_DONE"
  by (auto simp: chunk_header_def Let_def and_then_eq_Inr split: prod.splits option.splits if_splits)

lemma read_chunk_less:
  assumes "chunkLen c = 0" and "Inr (HTTP_TRANS_DONE, c') = read_chunk c"
  shows "to_come c' < to_come c"
  using assms chunk_header_codes [of c]
  by (auto simp: read_chunk_def and_then_eq_Inr eq_commute [of "Inr (2, c')"] split: if_splits
      dest!: chunk_header_less chunk_data_less)

lemma read_chunk_le:
  assumes "chunkLen c \<noteq> 0" and "Inr (HTTP_TRANS_DONE, c') = read_chunk c"
  shows "to_come c' \<le> to_come c"
  using assms by (auto simp: read_chunk_def dest!: chunk_data_less [OF sym])

lemma clip_le: "http_trans_buf_clip c n = Inr c' \<Longrightarrow> to_come c' \<le> to_come c"
  by (auto simp: http_trans_buf_clip_def to_come_def split: if_splits)

text \<open>
  The loop over the chunks. The chunk's length is cleared after each, so that every turn reads a header.
\<close>

function read_body_chunked :: "HttpResp \<Rightarrow> HttpConn \<Rightarrow> (int \<times> HttpResp \<times> HttpConn) run" where
  "read_body_chunked r c =
     (case read_chunk c of
        Inl f \<Rightarrow> Inl f
      | Inr (rv, c') \<Rightarrow>
          if rv \<noteq> HTTP_TRANS_DONE then Inr (HTTP_TRANS_ERR, r, c')
          else
            let r' = chunk_append r c' in
            if chunkLen c' = 0 then
              (case last_chunk c' of (rv, c'') \<Rightarrow>
                 if rv = HTTP_TRANS_ERR then Inr (HTTP_TRANS_ERR, r', c'') else Inr (HTTP_TRANS_DONE, r', c''))
            else
              (case http_trans_buf_clip c' (chunkLen c' + 2) of
                 Inl f \<Rightarrow> Inl f
               | Inr c'' \<Rightarrow> read_body_chunked r' (c''\<lparr>chunkLen := 0\<rparr>)))"
  by pat_completeness auto
termination
proof (relation "measures [\<lambda>(r, c). to_come c, \<lambda>(r, c). if chunkLen c = 0 then 0 else 1]", simp)
  fix r c x y rv c' r' c''
  assume chunk: "read_chunk c = Inr x" "(rv, c') = x" "\<not> rv \<noteq> HTTP_TRANS_DONE" 
    and clip: "http_trans_buf_clip c' (chunkLen c' + 2) = Inr c''"
  have le: "to_come c'' \<le> to_come c'" by (rule clip_le [OF clip])
  show "((r', c''\<lparr>chunkLen := 0\<rparr>), r, c) \<in> measures [\<lambda>(r, c). to_come c, \<lambda>(r, c). if chunkLen c = 0 then 0 else 1]"
    using chunk le read_chunk_less [of c c'] read_chunk_le [of c c'] by (cases "chunkLen c = 0") auto
qed

declare read_body_chunked.simps [simp del]

subsection \<open>The whole body\<close>

definition read_body_standard :: "HttpResp \<Rightarrow> HttpConn \<Rightarrow> int \<times> HttpResp \<times> HttpConn" where
  "read_body_standard r c =
     (case read_to_end c of (rv, c) \<Rightarrow>
        if rv = HTTP_TRANS_ERR then (HTTP_TRANS_ERR, r, c)
        else (case flush_response_body r c of (r, c) \<Rightarrow> (HTTP_TRANS_DONE, r, c)))"

definition http_resp_flush :: "HttpResp \<Rightarrow> HttpConn \<Rightarrow> HttpResp \<times> HttpConn" where
  "http_resp_flush r c = flush_response_body r c"

definition http_resp_read_body :: "HttpResp \<Rightarrow> bool \<Rightarrow> HttpConn \<Rightarrow> (int \<times> HttpResp \<times> HttpConn) run" where
  "http_resp_read_body r isHead c =
     (let header = http_hdr_get_value (respHeaders r);
          close = (\<lambda>(rv, r, c). (rv, r, case header (chars ''Connection'') of
              Some v \<Rightarrow> if same_name v (chars ''close'') then http_trans_conn_close c else c
            | None \<Rightarrow> c))
      in case header (chars ''Content-Length'') of
           Some n \<Rightarrow>
             if isHead then Inr (HTTP_TRANS_DONE, r, c)
             else if \<not> string_is_number n then Inr (-1, r, c)
             else Inr (close (read_body_content_length (r\<lparr>contentLength := atoi_digits n\<rparr>) c))
         | None \<Rightarrow>
             (case header (chars ''Transfer-Encoding'') of
                Some e \<Rightarrow>
                  if same_name e (chars ''chunked'')
                  then and_then (read_body_chunked r c) (\<lambda>x. Inr (close x))
                  else Inr (-1, r, c)
              | None \<Rightarrow>
                  (case read_body_standard r c of (rv, r, c) \<Rightarrow>
                     Inr (close (rv, r, if rv = HTTP_TRANS_DONE then http_trans_conn_close c else c)))))"

end
