(* ===== verification/HttpUri.thy ===== *)
theory HttpUri
  imports HttpResponse
begin

section \<open>Addresses (libghttp/http_uri.c)\<close>

text \<open>
  \<open>http_uri_parse\<close> writes the parts of an address into a structure as it finds them, also when it
  fails further on. The structure may be missing; then the address is only checked, except that
  without TLS an https address is refused where there is a structure to write to.
\<close>

record http_uri =
  uriFull :: "bytes option"
  uriProto :: "bytes option"
  uriHost :: "bytes option"
  uriPort :: nat
  uriResource :: "bytes option"

definition http_uri_new :: http_uri where
  "http_uri_new = \<lparr>uriFull = None, uriProto = None, uriHost = None, uriPort = 80, uriResource = None\<rparr>"

datatype uri_parse_state = parse_state_read_host | parse_state_read_port

text \<open>\<open>atoi\<close> into an \<open>unsigned short\<close>\<close>

definition port_of :: "bytes \<Rightarrow> nat" where
  "port_of s = nat (atoi_digits s mod 2 ^ 16)"

text \<open>
  The machine over the characters behind \<open>://\<close>; \<open>part\<close> are those from \<open>l_start_string\<close> on. The host is taken
  with the port that follows it. At the first slash the rest is the resource. Only there the length of a
  port is checked.
\<close>

fun parse_parts :: "uri_parse_state \<Rightarrow> bytes \<Rightarrow> bytes \<Rightarrow> http_uri option \<Rightarrow> int \<times> http_uri option" where
  "parse_parts parse_state_read_host part [] u =
     (if part = [] then (-1, u)
      else (0, map_option (\<lambda>u. u\<lparr>uriHost := Some part, uriResource := Some [47]\<rparr>) u))"
| "parse_parts parse_state_read_host part (c # s) u =
     (if c = 58 then
        (if part = [] then (-1, u)
         else parse_parts parse_state_read_port [] s
           (map_option (\<lambda>u. u\<lparr>uriHost := Some (part @ takeWhile (\<lambda>x. x \<noteq> 47) (c # s))\<rparr>) u))
      else if c = 47 then
        (if part = [] then (-1, u)
         else (0, map_option (\<lambda>u. u\<lparr>uriHost := Some part, uriResource := Some (c # s)\<rparr>) u))
      else parse_parts parse_state_read_host (part @ [c]) s u)"
| "parse_parts parse_state_read_port part [] u =
     (if part = [] then (-1, u)
      else (0, map_option (\<lambda>u. u\<lparr>uriPort := port_of part, uriResource := Some [47]\<rparr>) u))"
| "parse_parts parse_state_read_port part (c # s) u =
     (if c = 47 then
        (if 5 < length part \<or> part = [] then (-1, u)
         else (0, map_option (\<lambda>u. u\<lparr>uriPort := port_of part, uriResource := Some (c # s)\<rparr>) u))
      else if \<not> isdigit c then (-1, u)
      else parse_parts parse_state_read_port (part @ [c]) s u)"

definition http_uri_parse :: "bytes option \<Rightarrow> http_uri option \<Rightarrow> int \<times> http_uri option" where
  "http_uri_parse a_string a_uri =
     (case a_string of
        None \<Rightarrow> (-1, a_uri)
      | Some s \<Rightarrow>
          let u = map_option (\<lambda>u. u\<lparr>uriFull := Some s\<rparr>) a_uri;
              proto = takeWhile (\<lambda>x. x \<noteq> 58) s; rest = dropWhile (\<lambda>x. x \<noteq> 58) s
          in if rest = [] then (-1, u)
             else
               let u = map_option (\<lambda>u. u\<lparr>uriProto := Some proto\<rparr>) u
               in if u \<noteq> None \<and> proto = chars ''https'' then (-1, u)
                  else if take 3 rest \<noteq> chars ''://'' then (-1, u)
                  else parse_parts parse_state_read_host [] (drop 3 rest) u)"

subsection \<open>Addresses read back\<close>

definition host_ok :: "bytes \<Rightarrow> bool" where
  "host_ok h \<longleftrightarrow> h \<noteq> [] \<and> 47 \<notin> set h \<and> 58 \<notin> set h"

definition port_text :: "nat option \<Rightarrow> bytes" where
  "port_text p = (case p of None \<Rightarrow> [] | Some n \<Rightarrow> 58 # digits n)"

definition uri_text :: "bytes \<Rightarrow> nat option \<Rightarrow> bytes \<Rightarrow> bytes" where
  "uri_text host port res = chars ''http://'' @ host @ port_text port @ res"

lemma parse_host:
  assumes "47 \<notin> set h" "58 \<notin> set h"
  shows "parse_parts parse_state_read_host part (h @ s) u = parse_parts parse_state_read_host (part @ h) s u"
  using assms by (induction h arbitrary: part) auto

lemma parse_port:
  assumes "list_all isdigit p"
  shows "parse_parts parse_state_read_port part (p @ s) u = parse_parts parse_state_read_port (part @ p) s u"
  using assms
proof (induction p arbitrary: part)
  case (Cons c p)
  then have "c \<noteq> 47" by (auto simp: isdigit_def)
  then show ?case using Cons by simp
qed simp

lemma digit_unat: "d < 10 \<Longrightarrow> unat (of_nat (48 + d) :: u8) = 48 + d"
  by (simp add: unsigned_of_nat take_bit_nat_eq_self del: of_nat_add)

lemma isdigit_byte: "d < 10 \<Longrightarrow> isdigit (of_nat (48 + d))"
  using digit_unat [of d] by (simp add: isdigit_def word_le_nat_alt del: of_nat_add)

lemma digit_value_byte: "d < 10 \<Longrightarrow> digit_value (of_nat (48 + d)) = int d"
  using digit_unat [of d] by (simp add: digit_value_def uint_nat del: of_nat_add)

lemma digits_isdigit: "list_all isdigit (digits n)"
  by (induction n rule: digits.induct) (simp add: digits.simps isdigit_byte del: of_nat_add)

lemma digits_some: "digits n \<noteq> []"
  by (simp add: digits.simps [of n])

lemma atoi_digits_value: "foldl (\<lambda>n c. 10 * n + digit_value c) 0 (digits n) = int n"
proof (induction n rule: digits.induct)
  case (1 n)
  show ?case
  proof (cases "n < 10")
    case True
    then show ?thesis by (simp add: digits.simps [of n] digit_value_byte del: of_nat_add)
  next
    case False
    then have "foldl (\<lambda>n c. 10 * n + digit_value c) 0 (digits n) = 10 * int (n div 10) + int (n mod 10)"
      using 1 by (simp add: digits.simps [of n] digit_value_byte del: of_nat_add)
    also have "\<dots> = int n" by (simp add: zdiv_int zmod_int)
    finally show ?thesis .
  qed
qed

lemma c_int_small: "- (2 ^ 31) \<le> x \<Longrightarrow> x < 2 ^ 31 \<Longrightarrow> c_int x = x"
  by (simp add: c_int_def signed_of_int signed_take_bit_int_eq_self)

lemma atoi_digits_small: "n < 2 ^ 31 \<Longrightarrow> atoi_digits (digits n) = int n"
  by (simp add: atoi_digits_def atoi_digits_value c_int_small)

lemma uri_parts:
  assumes "host_ok host" and "\<forall>n. port = Some n \<longrightarrow> n < 65536" and "res \<noteq> [] \<longrightarrow> hd res = 47"
  shows "http_uri_parse (Some (uri_text host port res)) (Some u) =
    (0, Some (u\<lparr>uriFull := Some (uri_text host port res), uriProto := Some (chars ''http''),
        uriHost := Some (host @ port_text port),
        uriPort := (case port of None \<Rightarrow> uriPort u | Some n \<Rightarrow> n),
        uriResource := Some (if res = [] then [47] else res)\<rparr>))"
proof -
  have c: "res = [] \<or> (\<exists>rest. res = 47 # rest)" using assms(3) by (cases res) auto
  let ?u = "u\<lparr>uriFull := Some (uri_text host port res), uriProto := Some (chars ''http'')\<rparr>"
  have start: "http_uri_parse (Some (uri_text host port res)) (Some u)
      = parse_parts parse_state_read_host host (port_text port @ res) (Some ?u)"
    using parse_host [of host "[]" "port_text port @ res"] assms(1)
    by (simp add: http_uri_parse_def uri_text_def chars_def host_ok_def)
  show ?thesis
  proof (cases port)
    case None
    then show ?thesis using start assms(1) c by (auto simp: port_text_def host_ok_def)
  next
    case (Some n)
    have plain: "\<forall>x \<in> set (digits n). x \<noteq> 47"
      using digits_isdigit [of n] by (auto simp: list_all_iff isdigit_def)
    have "takeWhile (\<lambda>x. x \<noteq> 47) (digits n @ res) = digits n"
      using plain c by (subst takeWhile_append2) auto
    then have host: "parse_parts parse_state_read_host host (port_text port @ res) (Some ?u)
        = parse_parts parse_state_read_port [] (digits n @ res) (Some (?u\<lparr>uriHost := Some (host @ port_text port)\<rparr>))"
      using assms(1) by (simp add: Some port_text_def host_ok_def)
    have "length (digits n) \<le> 5" using assms(2) Some by (intro length_digits_le) auto
    moreover have "port_of (digits n) = n" using assms(2) Some by (simp add: port_of_def atoi_digits_small)
    ultimately show ?thesis
      using c digits_some [of n] unfolding start host parse_port [OF digits_isdigit]
      by (auto simp: Some)
  qed
qed

text \<open>
  An address of host, optional port and resource, printed and parsed, gives back its parts.
\<close>

theorem uri_roundtrip:
  assumes "host_ok host" and "\<forall>n. port = Some n \<longrightarrow> n < 65536" and "res \<noteq> [] \<longrightarrow> hd res = 47"
  shows "http_uri_parse (Some (uri_text host port res)) (Some u) =
    (0, Some (u\<lparr>uriFull := Some (uri_text host port res), uriProto := Some (chars ''http''),
        uriHost := Some (host @ port_text port),
        uriPort := (case port of None \<Rightarrow> uriPort u | Some n \<Rightarrow> n),
        uriResource := Some (if res = [] then [47] else res)\<rparr>))"
  by (rule uri_parts [OF assms])

theorem uri_roundtrip_witness:
  "http_uri_parse (Some (uri_text (chars ''up.qiniu.com'') (Some 8080) (chars ''/put''))) (Some http_uri_new) =
    (0, Some (http_uri_new\<lparr>uriFull := Some (chars ''http://up.qiniu.com:8080/put''), uriProto := Some (chars ''http''),
        uriHost := Some (chars ''up.qiniu.com:8080''), uriPort := 8080, uriResource := Some (chars ''/put'')\<rparr>))"
proof -
  have "port_text (Some 8080) = chars '':8080''"
    by (simp add: port_text_def chars_def digits.simps)
  then show ?thesis
    using uri_roundtrip [of "chars ''up.qiniu.com''" "Some 8080" "chars ''/put''" http_uri_new]
    by (simp add: host_ok_def chars_def uri_text_def)
qed

text \<open>A failed parse leaves the parts found so far behind; a long port is checked only before a slash.\<close>

lemma failed_parse_leaves_host:
  "http_uri_parse (Some (chars ''http://proxy:x'')) (Some http_uri_new) =
    (-1, Some (http_uri_new\<lparr>uriFull := Some (chars ''http://proxy:x''), uriProto := Some (chars ''http''),
        uriHost := Some (chars ''proxy:x'')\<rparr>))"
  by code_simp

lemma long_port_wraps:
  "snd (http_uri_parse (Some (chars ''http://a:65616'')) (Some http_uri_new)) =
   Some (http_uri_new\<lparr>uriFull := Some (chars ''http://a:65616''), uriProto := Some (chars ''http''),
        uriHost := Some (chars ''a:65616''), uriPort := 80, uriResource := Some (chars ''/'')\<rparr>)"
  by code_simp

end
