(* ===== verification/HttpRequest.thy ===== *)
theory HttpRequest
  imports HttpUri
begin

section \<open>Sending a request (libghttp/http_req.c)\<close>

text \<open>
  A request goes out in three parts, each through the buffer of the connection: the request line, the
  headers, and the body, which may be in three pieces. The connection is synchronous.
\<close>

datatype http_req_type = http_req_type_get | http_req_type_options | http_req_type_head | http_req_type_post
  | http_req_type_put | http_req_type_delete | http_req_type_trace | http_req_type_connect
  | http_req_type_propfind | http_req_type_proppatch | http_req_type_mkcol | http_req_type_copy
  | http_req_type_move | http_req_type_lock | http_req_type_unlock

fun http_req_type_char :: "http_req_type \<Rightarrow> string" where
  "http_req_type_char http_req_type_get = ''GET''"
| "http_req_type_char http_req_type_options = ''OPTIONS''"
| "http_req_type_char http_req_type_head = ''HEAD''"
| "http_req_type_char http_req_type_post = ''POST''"
| "http_req_type_char http_req_type_put = ''PUT''"
| "http_req_type_char http_req_type_delete = ''DELETE''"
| "http_req_type_char http_req_type_trace = ''TRACE''"
| "http_req_type_char http_req_type_connect = ''CONNECT''"
| "http_req_type_char http_req_type_propfind = ''PROPFIND''"
| "http_req_type_char http_req_type_proppatch = ''PROPPATCH''"
| "http_req_type_char http_req_type_mkcol = ''MKCOL''"
| "http_req_type_char http_req_type_copy = ''COPY''"
| "http_req_type_char http_req_type_move = ''MOVE''"
| "http_req_type_char http_req_type_lock = ''LOCK''"
| "http_req_type_char http_req_type_unlock = ''UNLOCK''"

record http_req =
  rqType :: http_req_type
  rqHost :: "bytes option"
  rqFullUri :: "bytes option"
  rqResource :: "bytes option"
  rqBody :: "bytes option"
  rqBodyLen :: int
  rqBody1 :: "bytes option"
  rqBody1Len :: int
  rqBody2 :: "bytes option"
  rqBody2Len :: int
  rqHeaders :: hdr_list

definition http_req_new :: http_req where
  "http_req_new = \<lparr>rqType = http_req_type_get, rqHost = None, rqFullUri = None, rqResource = None,
     rqBody = None, rqBodyLen = 0, rqBody1 = None, rqBody1Len = 0, rqBody2 = None, rqBody2Len = 0,
     rqHeaders = http_hdr_list_new\<rparr>"

text \<open>
  \<open>agent\<close> is the text with the version that the build puts in. The sum of the lengths is an \<open>int\<close>.
\<close>

definition http_req_prepare :: "bytes \<Rightarrow> http_req \<Rightarrow> http_req" where
  "http_req_prepare agent r =
     (let hs = snd (http_hdr_set_value (rqHeaders r) (Some (chars ''Host'')) (rqHost r));
          hs = (if rqType r \<in> {http_req_type_post, http_req_type_put, http_req_type_trace} \<and> 0 < rqBodyLen r
                then snd (http_hdr_set_value hs (Some (chars ''Content-Length''))
                  (Some (print_int (c_int (rqBodyLen r + rqBody1Len r + rqBody2Len r)))))
                else hs);
          hs = (if http_hdr_get_value hs (chars ''User-Agent'') = None
                then snd (http_hdr_set_value hs (Some (chars ''User-Agent'')) (Some agent)) else hs)
      in r\<lparr>rqHeaders := hs\<rparr>)"

subsection \<open>The loops\<close>

definition to_write :: "HttpConn \<Rightarrow> nat" where
  "to_write c = (if ioLeft c = 0 then length (ioBuf c) else nat (ioLeft c))"

lemma write_goes_on:
  assumes "(HTTP_TRANS_NOT_DONE, c') = http_trans_write_buf c"
  shows "to_write c' < to_write c"
  using assms by (auto simp: http_trans_write_buf_def to_write_def Let_def split: list.splits net_write.splits if_splits)

text \<open>
  The loop for the request line and the headers. It is left with an error only when a call claims to be
  done with nothing written; it ends on any other error as it does when all is written.
\<close>

function write_loop :: "HttpConn \<Rightarrow> bool \<times> HttpConn" where
  "write_loop c =
     (case http_trans_write_buf c of (rv, c') \<Rightarrow>
        if rv = HTTP_TRANS_DONE \<and> lastRead c' = 0 then (False, c')
        else if rv = HTTP_TRANS_NOT_DONE then write_loop c'
        else (True, c'))"
  by pat_completeness auto
termination
  by (relation "measure to_write") (simp_all add: write_goes_on)

text \<open>The loop for a block of the body; an old time-out in \<open>error\<close> ends it too.\<close>

function write_block :: "HttpConn \<Rightarrow> bool \<times> HttpConn" where
  "write_block c =
     (case http_trans_write_buf c of (rv, c') \<Rightarrow>
        if rv = HTTP_TRANS_ERR then (False, c')
        else if rv = HTTP_TRANS_DONE \<and> lastRead c' = 0 then (False, c')
        else if errCode c' = EAGAIN then (False, c')
        else if rv = HTTP_TRANS_NOT_DONE then write_block c'
        else (True, c'))"
  by pat_completeness auto
termination
  by (relation "measure to_write") (simp_all add: write_goes_on)

declare write_loop.simps [simp del] write_block.simps [simp del]

text \<open>A piece of the body, in blocks of 256 KiB that are written from where they lie.\<close>

function send_piece :: "bytes \<Rightarrow> int \<Rightarrow> HttpConn \<Rightarrow> (bool \<times> HttpConn) run" where
  "send_piece d remain c =
     (if remain \<le> 0 then Inr (True, c)
      else
        let l = (if 262144 < remain then 262144 else nat remain) in
        if length d < l then Inl Out_of_bounds
        else (case write_block (c\<lparr>ioBuf := take l d, ioLen := l, ioLeft := int l, ioDone := 0\<rparr>) of (ok, c) \<Rightarrow>
          if \<not> ok then Inr (False, c) else send_piece (drop l d) (remain - int l) c))"
  by pat_completeness auto
termination
  by (relation "measure (\<lambda>(d, remain, c). nat remain)") auto

declare send_piece.simps [simp del]

definition restoreConn :: "HttpConn \<Rightarrow> HttpConn \<Rightarrow> HttpConn" where
  "restoreConn bak c = c\<lparr>ioBuf := ioBuf bak, ioLen := ioLen bak, ioLeft := ioLeft bak, ioDone := ioDone bak\<rparr>"

fun send_pieces :: "(bytes option \<times> int) list \<Rightarrow> HttpConn \<Rightarrow> (bool \<times> HttpConn) run" where
  "send_pieces [] c = Inr (True, c)"
| "send_pieces ((None, n) # ps) c = send_pieces ps c"
| "send_pieces ((Some d, n) # ps) c =
     and_then (send_piece d n c) (\<lambda>(ok, c). if ok then send_pieces ps c else Inr (False, c))"

definition send_body :: "http_req \<Rightarrow> HttpConn \<Rightarrow> (int \<times> HttpConn) run" where
  "send_body r c =
     and_then (send_pieces [(rqBody r, rqBodyLen r), (rqBody1 r, rqBody1Len r), (rqBody2 r, rqBody2Len r)] c) (\<lambda>(ok, c').
       Inr (if ok then HTTP_TRANS_DONE else HTTP_TRANS_ERR, restoreConn c c'))"

subsection \<open>The request\<close>

definition request_line :: "http_req \<Rightarrow> bytes \<Rightarrow> bytes" where
  "request_line r uri = chars (http_req_type_char (rqType r)) @ [32] @ uri @ chars '' HTTP/1.1'' @ [13, 10]"

definition line_block :: "http_req \<Rightarrow> bool \<Rightarrow> bytes run" where
  "line_block r proxy =
     (case rqResource r of
        None \<Rightarrow> Inl Null_deref
      | Some res \<Rightarrow>
          if \<not> proxy then
            (if length (request_line r res) < 30 + length res then Inr (request_line r res) else Inl Out_of_bounds)
          else (case (rqHost r, rqFullUri r) of
              (Some host, Some full) \<Rightarrow>
                (if length (request_line r full) < 30 + length res + (length host + 20)
                 then Inr (request_line r full) else Inl Out_of_bounds)
            | _ \<Rightarrow> Inl Null_deref))"

definition header_text :: "hdr_list \<Rightarrow> bytes" where
  "header_text hs = concat (map (\<lambda>p. case p of
       Some (n, v) \<Rightarrow> if n = [] then [] else n @ [58, 32] @ v @ [13, 10]
     | None \<Rightarrow> []) hs) @ [13, 10]"

definition http_req_send :: "http_req \<Rightarrow> HttpConn \<Rightarrow> (int \<times> HttpConn) run" where
  "http_req_send r c =
     and_then (line_block r (proxyHost c \<noteq> None)) (\<lambda>line.
       case write_loop (http_trans_append_data_to_buf c line) of (ok, c) \<Rightarrow>
         if \<not> ok then Inr (HTTP_TRANS_ERR, c)
         else (case write_loop (http_trans_append_data_to_buf (http_trans_buf_reset c) (header_text (rqHeaders r))) of
           (ok, c) \<Rightarrow>
             if \<not> ok then Inr (HTTP_TRANS_ERR, c)
             else
               let c = http_trans_buf_reset c in
               (case http_hdr_get_value (rqHeaders r) (chars ''Content-Length'') of
                  None \<Rightarrow> Inr (HTTP_TRANS_DONE, c)
                | Some _ \<Rightarrow> send_body r c)))"

subsection \<open>A network that takes what it is given\<close>

definition accepts :: "nat \<Rightarrow> HttpConn \<Rightarrow> bool" where
  "accepts n c \<longleftrightarrow> n \<le> length (outgoing c) \<and> list_all (\<lambda>e. \<exists>k. e = Takes k) (outgoing c)"

text \<open>Nothing but the buffer, its counters and what was sent changes by writing.\<close>

definition same_but_out :: "HttpConn \<Rightarrow> HttpConn \<Rightarrow> bool" where
  "same_but_out c c' \<longleftrightarrow> incoming c' = incoming c \<and> ioChunk c' = ioChunk c \<and> chunkLen c' = chunkLen c
     \<and> sockOpen c' = sockOpen c \<and> errCode c' = errCode c \<and> proxyHost c' = proxyHost c \<and> connHost c' = connHost c"

lemma same_but_out_refl [simp]: "same_but_out c c"
  by (simp add: same_but_out_def)

lemma same_but_out_trans: "same_but_out a b \<Longrightarrow> same_but_out b c \<Longrightarrow> same_but_out a c"
  by (simp add: same_but_out_def)

lemma write_takes:
  assumes "0 < ioLeft c" and "0 \<le> ioDone c" and "nat (ioDone c) + nat (ioLeft c) = length (ioBuf c)"
    and "accepts (m + nat (ioLeft c)) c"
  shows "\<exists>c' n. http_trans_write_buf c = (if ioLeft c' = 0 then HTTP_TRANS_DONE else HTTP_TRANS_NOT_DONE, c')
    \<and> 0 < n \<and> n \<le> nat (ioLeft c) \<and> lastRead c' = int n \<and> ioLeft c' = ioLeft c - int n \<and> ioDone c' = ioDone c + int n
    \<and> ioBuf c' = ioBuf c \<and> sent c' = sent c @ take n (drop (nat (ioDone c)) (ioBuf c))
    \<and> accepts (m + nat (ioLeft c')) c' \<and> same_but_out c c'"
proof -
  obtain k out where out: "outgoing c = Takes k # out"
    using assms(1,4) by (cases "outgoing c") (auto simp: accepts_def)
  define n where "n = min (nat (ioLeft c)) (Suc k)"
  have n: "0 < n" "n \<le> nat (ioLeft c)" using assms(1) by (auto simp: n_def)
  define c' where "c' = c\<lparr>lastRead := int n, outgoing := out, sent := sent c @ take n (drop (nat (ioDone c)) (ioBuf c)),
      ioLeft := ioLeft c - int n, ioDone := ioDone c + int n\<rparr>"
  have "http_trans_write_buf c = (if ioLeft c' = 0 then HTTP_TRANS_DONE else HTTP_TRANS_NOT_DONE, c')"
    using assms(1) out by (simp add: http_trans_write_buf_def Let_def c'_def n_def)
  then show ?thesis
    using n assms(4) out by (intro exI [of _ c'] exI [of _ n]) (auto simp: c'_def accepts_def same_but_out_def)
qed


lemma take_drop_add: "take n (drop k xs) @ drop (k + n) xs = drop k xs"
  by (metis append_take_drop_id drop_drop add.commute)

lemma write_loop_takes:
  assumes "0 < ioLeft c" and "0 \<le> ioDone c" and "nat (ioDone c) + nat (ioLeft c) = length (ioBuf c)"
    and "accepts (m + nat (ioLeft c)) c"
  shows "\<exists>c'. write_loop c = (True, c') \<and> ioLeft c' = 0 \<and> ioBuf c' = ioBuf c
    \<and> sent c' = sent c @ drop (nat (ioDone c)) (ioBuf c) \<and> accepts m c' \<and> same_but_out c c'"
  using assms
proof (induction c rule: write_loop.induct)
  case (1 c)
  obtain c1 n where w: "http_trans_write_buf c = (if ioLeft c1 = 0 then HTTP_TRANS_DONE else HTTP_TRANS_NOT_DONE, c1)"
      "0 < n" "n \<le> nat (ioLeft c)" "lastRead c1 = int n" "ioLeft c1 = ioLeft c - int n" "ioDone c1 = ioDone c + int n"
      "ioBuf c1 = ioBuf c" "sent c1 = sent c @ take n (drop (nat (ioDone c)) (ioBuf c))"
      "accepts (m + nat (ioLeft c1)) c1" "same_but_out c c1"
    using write_takes [OF 1(2-5)] by blast
  have done1: "nat (ioDone c1) = nat (ioDone c) + n" using w(6) 1(3) by (simp add: nat_add_distrib)
  show ?case
  proof (cases "ioLeft c1 = 0")
    case True
    then have "take n (drop (nat (ioDone c)) (ioBuf c)) = drop (nat (ioDone c)) (ioBuf c)"
      using w(5) 1(4) by simp
    then show ?thesis using True w by (simp add: write_loop.simps [of c])
  next
    case False
    then have left: "0 < ioLeft c1" using w(3,5) 1(2) by linarith
    have "nat (ioDone c1) + nat (ioLeft c1) = length (ioBuf c1)"
      using done1 w(3,5,7) 1(4) by (simp add: nat_diff_distrib)
    moreover have "write_loop c = write_loop c1" using w(1,2,4) False by (simp add: write_loop.simps [of c])
    moreover have "\<not> (HTTP_TRANS_NOT_DONE = HTTP_TRANS_DONE \<and> lastRead c1 = 0)" by simp
    ultimately show ?thesis
      using "1.IH" [of HTTP_TRANS_NOT_DONE c1] left w(1,6,9) False 1(3) done1 w(7,8) same_but_out_trans [OF w(10)]
        take_drop_add [of n "nat (ioDone c)" "ioBuf c"] by auto
  qed
qed

lemma write_block_takes:
  assumes "0 < ioLeft c" and "0 \<le> ioDone c" and "nat (ioDone c) + nat (ioLeft c) = length (ioBuf c)"
    and "accepts (m + nat (ioLeft c)) c" and "errCode c \<noteq> EAGAIN"
  shows "\<exists>c'. write_block c = (True, c') \<and> sent c' = sent c @ drop (nat (ioDone c)) (ioBuf c)
    \<and> accepts m c' \<and> same_but_out c c'"
  using assms
proof (induction c rule: write_block.induct)
  case (1 c)
  obtain c1 n where w: "http_trans_write_buf c = (if ioLeft c1 = 0 then HTTP_TRANS_DONE else HTTP_TRANS_NOT_DONE, c1)"
      "0 < n" "n \<le> nat (ioLeft c)" "lastRead c1 = int n" "ioLeft c1 = ioLeft c - int n" "ioDone c1 = ioDone c + int n"
      "ioBuf c1 = ioBuf c" "sent c1 = sent c @ take n (drop (nat (ioDone c)) (ioBuf c))"
      "accepts (m + nat (ioLeft c1)) c1" "same_but_out c c1"
    using write_takes [OF 1(2-5)] by blast
  have done1: "nat (ioDone c1) = nat (ioDone c) + n" using w(6) 1(3) by (simp add: nat_add_distrib)
  have err: "errCode c1 \<noteq> EAGAIN" using w(10) 1(6) by (simp add: same_but_out_def)
  show ?case
  proof (cases "ioLeft c1 = 0")
    case True
    then have "take n (drop (nat (ioDone c)) (ioBuf c)) = drop (nat (ioDone c)) (ioBuf c)"
      using w(5) 1(4) by simp
    then show ?thesis using True w err by (simp add: write_block.simps [of c])
  next
    case False
    then have left: "0 < ioLeft c1" using w(3,5) 1(2) by linarith
    have "nat (ioDone c1) + nat (ioLeft c1) = length (ioBuf c1)"
      using done1 w(3,5,7) 1(4) by (simp add: nat_diff_distrib)
    moreover have "write_block c = write_block c1" using w(1,2,4) False err by (simp add: write_block.simps [of c])
    ultimately show ?thesis
      using "1.IH" [of HTTP_TRANS_NOT_DONE c1] left w(1,6,9) False 1(3) done1 w(7,8) err same_but_out_trans [OF w(10)]
        take_drop_add [of n "nat (ioDone c)" "ioBuf c"] by auto
  qed
qed

text \<open>Through an empty buffer, as the first two parts are sent.\<close>

lemma send_text:
  assumes "ioBuf c = []" and "ioLeft c = 0" and "d \<noteq> []" and "accepts (m + length d) c"
  shows "\<exists>c'. write_loop (http_trans_append_data_to_buf c d) = (True, c') \<and> sent c' = sent c @ d
    \<and> accepts m c' \<and> same_but_out c c'"
proof -
  let ?c = "http_trans_append_data_to_buf c d"
  let ?c1 = "?c\<lparr>ioLeft := int (length d), ioDone := 0\<rparr>"
  have c: "ioBuf ?c = d" "ioLeft ?c = 0" "sent ?c = sent c" "outgoing ?c = outgoing c" "same_but_out c ?c"
    using assms(1,2) by (simp_all add: http_trans_append_data_to_buf_def Let_def same_but_out_def)
  have "http_trans_write_buf ?c = http_trans_write_buf ?c1"
    using c(1,2) assms(3) by (simp add: http_trans_write_buf_def Let_def)
  then have same: "write_loop ?c = write_loop ?c1" by (simp add: write_loop.simps [of ?c] write_loop.simps [of ?c1])
  show ?thesis
    unfolding same
    using write_loop_takes [of ?c1 m] c assms(3,4) by (auto simp: accepts_def same_but_out_def)
qed

lemma send_piece_takes:
  assumes "accepts (m + length d) c" and "errCode c \<noteq> EAGAIN"
  shows "\<exists>c'. send_piece d (int (length d)) c = Inr (True, c') \<and> sent c' = sent c @ d
    \<and> accepts m c' \<and> same_but_out c c'"
  using assms
proof (induction "length d" arbitrary: d c rule: less_induct)
  case less
  show ?case
  proof (cases "d = []")
    case True
    then show ?thesis using less.prems by (simp add: send_piece.simps)
  next
    case False
    define l where "l = min 262144 (length d)"
    have l: "(if 262144 < int (length d) then 262144 else nat (int (length d))) = l" "0 < l" "l \<le> length d"
      using False by (auto simp: l_def)
    let ?c = "c\<lparr>ioBuf := take l d, ioLen := l, ioLeft := int l, ioDone := 0\<rparr>"
    have "accepts (m + length (drop l d) + nat (ioLeft ?c)) ?c" "errCode ?c \<noteq> EAGAIN"
      using less.prems l(2,3) by (auto simp: accepts_def)
    then obtain c1 where c1: "write_block ?c = (True, c1)" "sent c1 = sent c @ take l d"
        "accepts (m + length (drop l d)) c1" "same_but_out ?c c1"
      using write_block_takes [of ?c "m + length (drop l d)"] l(2,3) by auto
    have "errCode c1 \<noteq> EAGAIN" using c1(4) less.prems(2) by (simp add: same_but_out_def)
    moreover have "length (drop l d) < length d" using l(2,3) by simp
    ultimately obtain c2 where c2: "send_piece (drop l d) (int (length (drop l d))) c1 = Inr (True, c2)"
        "sent c2 = sent c1 @ drop l d" "accepts m c2" "same_but_out c1 c2"
      using less.hyps [of "drop l d" c1] c1(3) by blast
    have "int (length d) - int l = int (length (drop l d))" using l(3) by simp
    then have "send_piece d (int (length d)) c = send_piece (drop l d) (int (length (drop l d))) c1"
      using c1(1) l False by (simp add: send_piece.simps [of d] Let_def)
    then show ?thesis
      using c2 c1(2,4) by (auto simp: same_but_out_def)
  qed
qed


subsection \<open>The text of a request\<close>

definition body_pieces :: "http_req \<Rightarrow> (bytes option \<times> int) list" where
  "body_pieces r = [(rqBody r, rqBodyLen r), (rqBody1 r, rqBody1Len r), (rqBody2 r, rqBody2Len r)]"

definition pieces_ok :: "(bytes option \<times> int) list \<Rightarrow> bool" where
  "pieces_ok ps \<longleftrightarrow> list_all (\<lambda>(b, n). case b of None \<Rightarrow> True | Some d \<Rightarrow> n = int (length d)) ps"

definition pieces_text :: "(bytes option \<times> int) list \<Rightarrow> bytes" where
  "pieces_text ps = concat (map (\<lambda>(b, n). case b of None \<Rightarrow> [] | Some d \<Rightarrow> d) ps)"

definition request_text :: "http_req \<Rightarrow> bytes \<Rightarrow> bytes" where
  "request_text r uri = request_line r uri @ header_text (rqHeaders r) @
     (if http_hdr_get_value (rqHeaders r) (chars ''Content-Length'') = None then [] else pieces_text (body_pieces r))"

lemma send_pieces_takes:
  assumes "pieces_ok ps" and "accepts (m + length (pieces_text ps)) c" and "errCode c \<noteq> EAGAIN"
  shows "\<exists>c'. send_pieces ps c = Inr (True, c') \<and> sent c' = sent c @ pieces_text ps
    \<and> accepts m c' \<and> same_but_out c c'"
  using assms
proof (induction ps arbitrary: c)
  case Nil
  then show ?case by (simp add: pieces_text_def)
next
  case (Cons p ps)
  show ?case
  proof (cases "fst p")
    case None
    then have "\<exists>c'. send_pieces ps c = Inr (True, c') \<and> sent c' = sent c @ pieces_text ps
        \<and> accepts m c' \<and> same_but_out c c'"
      using Cons.prems by (intro Cons.IH) (auto simp: pieces_ok_def pieces_text_def split: prod.splits)
    then show ?thesis using None by (cases p) (simp add: pieces_text_def)
  next
    case (Some d)
    then have p: "p = (Some d, int (length d))" using Cons.prems(1) by (cases p) (simp add: pieces_ok_def)
    then obtain c1 where c1: "send_piece d (int (length d)) c = Inr (True, c1)" "sent c1 = sent c @ d"
        "accepts (m + length (pieces_text ps)) c1" "same_but_out c c1"
      using send_piece_takes [of "m + length (pieces_text ps)" d c] Cons.prems(2,3)
      by (auto simp: pieces_text_def add.commute add.left_commute)
    have "errCode c1 \<noteq> EAGAIN" using c1(4) Cons.prems(3) by (simp add: same_but_out_def)
    then obtain c2 where "send_pieces ps c1 = Inr (True, c2)" "sent c2 = sent c1 @ pieces_text ps"
        "accepts m c2" "same_but_out c1 c2"
      using Cons.IH [of c1] Cons.prems(1) c1(3) by (auto simp: pieces_ok_def)
    then show ?thesis
      using c1 p same_but_out_trans [OF c1(4)] by (auto simp: pieces_text_def)
  qed
qed

lemma type_name_short: "length (http_req_type_char ty) \<le> 9"
  by (cases ty) simp_all

lemma accepts_reset [simp]: "accepts m (http_trans_buf_reset c) \<longleftrightarrow> accepts m c"
  by (simp add: accepts_def http_trans_buf_reset_def)

lemma same_but_out_reset [simp]: "same_but_out c (http_trans_buf_reset c') \<longleftrightarrow> same_but_out c c'"
  by (simp add: same_but_out_def http_trans_buf_reset_def)

lemma buf_reset_facts [simp]:
  "ioBuf (http_trans_buf_reset c) = []" "ioLeft (http_trans_buf_reset c) = 0" "sent (http_trans_buf_reset c) = sent c"
  by (simp_all add: http_trans_buf_reset_def)

lemma request_text_sent:
  assumes "rqResource r = Some res" and "proxyHost c = None" and "pieces_ok (body_pieces r)"
    and "ioBuf c = []" and "ioLeft c = 0" and "errCode c \<noteq> EAGAIN"
    and "accepts (length (request_text r res)) c"
  shows "\<exists>c'. http_req_send r c = Inr (HTTP_TRANS_DONE, c') \<and> sent c' = sent c @ request_text r res
    \<and> same_but_out c c' \<and> ioBuf c' = [] \<and> ioLeft c' = 0"
proof -
  let ?cl = "http_hdr_get_value (rqHeaders r) (chars ''Content-Length'')"
  let ?body = "if ?cl = None then [] else pieces_text (body_pieces r)"
  let ?line = "request_line r res" and ?head = "header_text (rqHeaders r)"
  have "length ?line < 30 + length res"
    using type_name_short [of "rqType r"] by (simp add: request_line_def chars_def)
  then have block: "line_block r (proxyHost c \<noteq> None) = Inr ?line"
    using assms(1,2) by (simp add: line_block_def)
  have nonempty: "?line \<noteq> []" "?head \<noteq> []" by (simp_all add: request_line_def header_text_def)
  have acc: "accepts (length (?head @ ?body) + length ?line) c"
    using assms(7) by (simp add: request_text_def add.commute add.left_commute)
  obtain c1 where c1: "write_loop (http_trans_append_data_to_buf c ?line) = (True, c1)" "sent c1 = sent c @ ?line"
      "accepts (length (?head @ ?body)) c1" "same_but_out c c1"
    using send_text [OF assms(4,5) nonempty(1) acc] by blast
  have "accepts (length ?body + length ?head) (http_trans_buf_reset c1)"
    using c1(3) by (simp add: add.commute)
  then obtain c2 where c2: "write_loop (http_trans_append_data_to_buf (http_trans_buf_reset c1) ?head) = (True, c2)"
      "sent c2 = sent c1 @ ?head" "accepts (length ?body) c2" "same_but_out (http_trans_buf_reset c1) c2"
    using send_text [OF _ _ nonempty(2), of "http_trans_buf_reset c1"] by auto
  have same: "same_but_out c c2"
    using c1(4) c2(4) by (auto simp: same_but_out_def http_trans_buf_reset_def)
  show ?thesis
  proof (cases ?cl)
    case None
    then show ?thesis
      using block c1(1,2) c2(1,2) same by (simp add: http_req_send_def request_text_def Let_def)
  next
    case (Some v)
    have "errCode (http_trans_buf_reset c2) \<noteq> EAGAIN"
      using same assms(6) by (simp add: same_but_out_def http_trans_buf_reset_def)
    then obtain c3 where c3: "send_pieces (body_pieces r) (http_trans_buf_reset c2) = Inr (True, c3)"
        "sent c3 = sent c2 @ pieces_text (body_pieces r)" "same_but_out (http_trans_buf_reset c2) c3"
      using send_pieces_takes [OF assms(3), of 0 "http_trans_buf_reset c2"] c2(3) Some by auto
    have "send_body r (http_trans_buf_reset c2) = Inr (HTTP_TRANS_DONE, restoreConn (http_trans_buf_reset c2) c3)"
      using c3(1) by (simp add: send_body_def body_pieces_def)
    moreover have "same_but_out c (restoreConn (http_trans_buf_reset c2) c3)"
      using same c3(3) by (auto simp: same_but_out_def restoreConn_def http_trans_buf_reset_def)
    ultimately show ?thesis
      using block c1(1,2) c2(1,2) c3(2) Some
      by (simp add: http_req_send_def request_text_def Let_def restoreConn_def)
  qed
qed

subsection \<open>Errors that go unnoticed\<close>

lemma append_writes:
  "outgoing (http_trans_append_data_to_buf c d) = outgoing c" "sent (http_trans_append_data_to_buf c d) = sent c"
  by (simp_all add: http_trans_append_data_to_buf_def Let_def)

lemma write_loop_dead:
  assumes "outgoing c = []"
  shows "\<exists>c'. write_loop c = (True, c') \<and> outgoing c' = [] \<and> sent c' = sent c"
  using assms by (auto simp: write_loop.simps [of c] http_trans_write_buf_def Let_def)

text \<open>A request without a body whose every write fails counts as sent.\<close>

lemma failed_write_goes_unnoticed:
  assumes "line_block r (proxyHost c \<noteq> None) = Inr line" and "outgoing c = []"
    and "http_hdr_get_value (rqHeaders r) (chars ''Content-Length'') = None"
  shows "\<exists>c'. http_req_send r c = Inr (HTTP_TRANS_DONE, c') \<and> sent c' = sent c"
proof -
  obtain c1 where c1: "write_loop (http_trans_append_data_to_buf c line) = (True, c1)" "outgoing c1 = []" "sent c1 = sent c"
    using write_loop_dead [of "http_trans_append_data_to_buf c line"] assms(2) by (auto simp: append_writes)
  let ?c = "http_trans_append_data_to_buf (http_trans_buf_reset c1) (header_text (rqHeaders r))"
  have "outgoing ?c = []" "sent ?c = sent c"
    using c1 by (simp_all add: append_writes http_trans_buf_reset_def)
  then obtain c2 where "write_loop ?c = (True, c2)" "sent c2 = sent c" using write_loop_dead [of ?c] by auto
  then show ?thesis using assms c1(1) by (simp add: http_req_send_def Let_def)
qed

text \<open>A call that is interrupted by a signal ends the loop as if all was written.\<close>

lemma interrupted_write_drops_rest:
  assumes "0 < ioLeft c" and "outgoing c = Write_error EINTR # out"
  shows "\<exists>c'. write_loop c = (True, c') \<and> sent c' = sent c"
  using assms by (auto simp: write_loop.simps [of c] http_trans_write_buf_def Let_def)

end
