(* ===== verification/DnsCache.thy ===== *)
theory DnsCache
  imports Session
begin

section \<open>The cache of host addresses (libghttp/http_trans.c)\<close>

text \<open>
  Ten places shared by all threads. A lookup claims a place under the mutex by setting its status, works on
  it without the mutex and gives it back by clearing the status. The resolver's answer is an argument: its code, 0
  for success, and the addresses, of which only those of the fourth version of IP are used.
\<close>

datatype addrinfo = AF_INET nat | Other_family

record DnsCacheItem =
  dnsHost :: bytes
  updateTime :: int
  addrs :: "addrinfo list"
  dnsStatus :: nat
  isValid :: bool

type_synonym resolver_answer = "int \<times> addrinfo list"

definition emptyItem :: DnsCacheItem where
  "emptyItem = \<lparr>dnsHost = [], updateTime = 0, addrs = [], dnsStatus = 0, isValid = False\<rparr>"

definition dnsItems :: "DnsCacheItem list" where
  "dnsItems = replicate 10 emptyItem"

fun first_inet :: "addrinfo list \<Rightarrow> nat option" where
  "first_inet [] = None"
| "first_inet (AF_INET a # l) = Some a"
| "first_inet (Other_family # l) = first_inet l"

text \<open>The code, the addresses handed to the caller and the one put into \<open>*sinp\<close>.\<close>

definition get_host_by_name :: "resolver_answer \<Rightarrow> int \<times> addrinfo list \<times> nat option" where
  "get_host_by_name ans =
     (case ans of (err, alist) \<Rightarrow>
        if err \<noteq> 0 then (err, [], None)
        else (if first_inet alist = None then -1 else 0, alist, first_inet alist))"

text \<open>The name is cut off to fit its block of 128 bytes.\<close>

definition update_dns_cache ::
    "resolver_answer \<Rightarrow> int \<Rightarrow> bytes \<Rightarrow> DnsCacheItem \<Rightarrow> int \<times> nat option \<times> DnsCacheItem" where
  "update_dns_cache ans now host item =
     (let item = item\<lparr>addrs := [], dnsHost := []\<rparr>
      in case get_host_by_name ans of (ret, alist, sin) \<Rightarrow>
        if ret \<noteq> 0 then (ret, sin, item\<lparr>isValid := False, dnsStatus := 0\<rparr>)
        else (ret, sin, item\<lparr>addrs := alist, dnsHost := take 127 host, updateTime := now, isValid := True,
          dnsStatus := 0\<rparr>))"

text \<open>
  The loop under the mutex: the first unused place is claimed on the way to the host's own, if it has one.
\<close>

function claim :: "bytes \<Rightarrow> nat option \<Rightarrow> DnsCacheItem list \<Rightarrow> nat \<Rightarrow> nat option \<times> nat option \<times> DnsCacheItem list" where
  "claim host spare items i =
     (if length items \<le> i then (None, spare, items)
      else if \<not> isValid (items ! i) \<and> dnsStatus (items ! i) = 0 \<and> spare = None then
        claim host (Some i) (items[i := (items ! i)\<lparr>dnsStatus := 1\<rparr>]) (i + 1)
      else if isValid (items ! i) \<and> dnsStatus (items ! i) = 0 \<and> host = dnsHost (items ! i) then
        (Some i, spare, items[i := (items ! i)\<lparr>dnsStatus := 2\<rparr>])
      else claim host spare items (i + 1))"
  by pat_completeness auto
termination
  by (relation "measure (\<lambda>(host, spare, items, i). length items - i)") auto

declare claim.simps [simp del]

text \<open>What follows without the mutex, on the claimed place.\<close>

definition use_item ::
    "resolver_answer \<Rightarrow> int \<Rightarrow> bytes \<Rightarrow> DnsCacheItem \<Rightarrow> int \<times> nat option \<times> DnsCacheItem" where
  "use_item ans now host item =
     (if 7200 < now - updateTime item then update_dns_cache ans now host item
      else (case first_inet (addrs item) of
          Some a \<Rightarrow> (0, Some a, item\<lparr>dnsStatus := 0\<rparr>)
        | None \<Rightarrow> update_dns_cache ans now host item))"

definition work ::
    "resolver_answer \<Rightarrow> int \<Rightarrow> bytes \<Rightarrow> nat option \<Rightarrow> nat option \<Rightarrow> DnsCacheItem list
       \<Rightarrow> int \<times> nat option \<times> DnsCacheItem list" where
  "work ans now host found spare items =
     (case found of
        Some i \<Rightarrow> (case use_item ans now host (items ! i) of (ret, sin, item) \<Rightarrow> (ret, sin, items[i := item]))
      | None \<Rightarrow>
          (case spare of
             Some i \<Rightarrow> (case update_dns_cache ans now host (items ! i) of (ret, sin, item) \<Rightarrow> (ret, sin, items[i := item]))
           | None \<Rightarrow> (-1, None, items)))"

text \<open>A lookup with no other thread in between.\<close>

definition get_host_by_name_from_cache ::
    "resolver_answer \<Rightarrow> int \<Rightarrow> bytes \<Rightarrow> DnsCacheItem list \<Rightarrow> int \<times> nat option \<times> DnsCacheItem list" where
  "get_host_by_name_from_cache ans now host items =
     (case claim host None items 0 of (found, spare, items) \<Rightarrow> work ans now host found spare items)"

subsection \<open>Lookups of several threads\<close>

text \<open>
  Each thread alternates between the two parts. \<open>given\<close> records the answers of the resolver and \<open>results\<close>
  those of the lookups.
\<close>

record DnsRun =
  cache :: "DnsCacheItem list"
  working :: "nat \<Rightarrow> (bytes \<times> nat option \<times> nat option) option"
  given :: "(bytes \<times> addrinfo list) set"
  results :: "(bytes \<times> int \<times> nat option) list"

definition answered :: "bytes \<Rightarrow> resolver_answer \<Rightarrow> (bytes \<times> addrinfo list) set" where
  "answered host ans = (if fst ans = 0 then {(host, snd ans)} else {})"

inductive dns_step :: "DnsRun \<Rightarrow> DnsRun \<Rightarrow> bool" where
  lookup: "working s t = None \<Longrightarrow> claim host None (cache s) 0 = (found, spare, items) \<Longrightarrow>
     dns_step s (s\<lparr>cache := items, working := (working s)(t \<mapsto> (host, found, spare))\<rparr>)"
| resolve: "working s t = Some (host, found, spare) \<Longrightarrow> work ans now host found spare (cache s) = (ret, sin, items) \<Longrightarrow>
     dns_step s (s\<lparr>cache := items, working := (working s)(t := None),
       given := given s \<union> answered host ans,
       results := results s @ [(host, ret, sin)]\<rparr>)"

definition dns_start :: DnsRun where
  "dns_start = \<lparr>cache = dnsItems, working = (\<lambda>t. None), given = {}, results = []\<rparr>"

definition dns_reachable :: "DnsRun \<Rightarrow> bool" where
  "dns_reachable s \<longleftrightarrow> dns_step\<^sup>*\<^sup>* dns_start s"

text \<open>The place a thread works on.\<close>

definition works_on :: "DnsRun \<Rightarrow> nat \<Rightarrow> nat option" where
  "works_on s t = (case working s t of None \<Rightarrow> None
     | Some (host, found, spare) \<Rightarrow> (case found of Some i \<Rightarrow> Some i | None \<Rightarrow> spare))"

text \<open>A claim changes only the status of free places, of at most two.\<close>

definition only_claims :: "DnsCacheItem list \<Rightarrow> DnsCacheItem list \<Rightarrow> bool" where
  "only_claims old new \<longleftrightarrow> length new = length old \<and> (\<forall>k < length old. new ! k = old ! k
     \<or> dnsStatus (old ! k) = 0 \<and> (\<exists>st. st \<noteq> 0 \<and> new ! k = (old ! k)\<lparr>dnsStatus := st\<rparr>))"

definition claimed :: "DnsCacheItem list \<Rightarrow> DnsCacheItem list \<Rightarrow> nat \<Rightarrow> bool" where
  "claimed old new j \<longleftrightarrow> j < length old \<and> dnsStatus (old ! j) = 0 \<and> dnsStatus (new ! j) \<noteq> 0"

lemma only_claims_same:
  assumes "only_claims old new" and "k < length old"
  shows "isValid (new ! k) = isValid (old ! k) \<and> dnsHost (new ! k) = dnsHost (old ! k) \<and> addrs (new ! k) = addrs (old ! k)"
proof -
  have "new ! k = old ! k \<or> (\<exists>st. new ! k = (old ! k)\<lparr>dnsStatus := st\<rparr>)"
    using assms by (auto simp: only_claims_def)
  then show ?thesis by auto
qed

lemma claim_facts:
  assumes "claim host spare items i = (found, spare', new)" and "only_claims old items"
    and "\<forall>k < length old. i \<le> k \<longrightarrow> items ! k = old ! k"
    and "\<forall>j. spare = Some j \<longrightarrow> claimed old items j"
  shows "only_claims old new \<and> (\<forall>j. spare' = Some j \<longrightarrow> claimed old new j)
    \<and> (\<forall>j. found = Some j \<longrightarrow> claimed old new j \<and> isValid (old ! j) \<and> dnsHost (old ! j) = host)"
  using assms
proof (induction host spare items i rule: claim.induct)
  case (1 host spare items i)
  have len: "length items = length old" using "1.prems"(2) by (simp add: only_claims_def)
  consider (over) "length items \<le> i"
    | (take) "i < length items" "\<not> isValid (items ! i)" "dnsStatus (items ! i) = 0" "spare = None"
    | (hit) "i < length items" "isValid (items ! i)" "dnsStatus (items ! i) = 0" "host = dnsHost (items ! i)"
    | (pass) "i < length items" "\<not> (\<not> isValid (items ! i) \<and> dnsStatus (items ! i) = 0 \<and> spare = None)"
        "\<not> (isValid (items ! i) \<and> dnsStatus (items ! i) = 0 \<and> host = dnsHost (items ! i))"
    by linarith
  then show ?case
  proof cases
    case over
    then show ?thesis using "1.prems" by (simp add: claim.simps [of host spare items i])
  next
    case take
    let ?new = "items[i := (items ! i)\<lparr>dnsStatus := 1\<rparr>]"
    have "claim host (Some i) ?new (i + 1) = (found, spare', new)"
      using "1.prems"(1) take by (simp add: claim.simps [of host None items i])
    moreover have "only_claims old ?new"
      using "1.prems"(2,3) take len by (auto simp: only_claims_def nth_list_update intro!: exI [of _ 1])
    moreover have "claimed old ?new i" using "1.prems"(3) take len by (simp add: claimed_def)
    ultimately show ?thesis
      using "1.IH"(1) "1.prems"(3) take len by (simp add: not_le)
  next
    case hit
    let ?new = "items[i := (items ! i)\<lparr>dnsStatus := 2\<rparr>]"
    have res: "found = Some i" "spare' = spare" "new = ?new"
      using "1.prems"(1) hit by (auto simp: claim.simps [of "dnsHost (items ! i)" spare items i])
    have "only_claims old ?new"
      using "1.prems"(2,3) hit len by (auto simp: only_claims_def nth_list_update intro!: exI [of _ 2])
    moreover have "claimed old ?new i" using "1.prems"(3) hit len by (simp add: claimed_def)
    moreover have "claimed old ?new j" if "spare = Some j" for j
      using "1.prems"(4) that len by (cases "j = i") (auto simp: claimed_def)
    ultimately show ?thesis using "1.prems"(3) hit len by (simp add: res)
  next
    case pass
    have "claim host spare items (i + 1) = (found, spare', new)"
      using "1.prems"(1) pass by (auto simp: claim.simps [of host spare items i] split: if_splits)
    then show ?thesis using "1.IH"(2) "1.prems"(2-4) pass by (simp add: not_le)
  qed
qed

lemma claim_start:
  assumes "claim host None items 0 = (found, spare, new)"
  shows "only_claims items new" "spare = Some j \<Longrightarrow> claimed items new j"
    "found = Some j \<Longrightarrow> claimed items new j \<and> isValid (items ! j) \<and> dnsHost (items ! j) = host"
  using claim_facts [OF assms, of items] by (auto simp: only_claims_def)

subsection \<open>What holds in every run\<close>

definition right_item :: "(bytes \<times> addrinfo list) set \<Rightarrow> DnsCacheItem \<Rightarrow> bool" where
  "right_item g item \<longleftrightarrow> (isValid item \<longrightarrow> (\<exists>h. (h, addrs item) \<in> g \<and> dnsHost item = take 127 h))"

definition dns_inv :: "DnsRun \<Rightarrow> bool" where
  "dns_inv s \<longleftrightarrow>
     (\<forall>t i. works_on s t = Some i \<longrightarrow> i < length (cache s) \<and> dnsStatus (cache s ! i) \<noteq> 0)
     \<and> (\<forall>t u i. works_on s t = Some i \<longrightarrow> works_on s u = Some i \<longrightarrow> t = u)
     \<and> (\<forall>i < length (cache s). right_item (given s) (cache s ! i))
     \<and> (\<forall>t host i spare. working s t = Some (host, Some i, spare) \<longrightarrow> isValid (cache s ! i) \<and> dnsHost (cache s ! i) = host)
     \<and> (\<forall>(host, ret, sin) \<in> set (results s). sin \<noteq> None \<longrightarrow> length host < 127 \<longrightarrow>
          (\<exists>l. (host, l) \<in> given s \<and> AF_INET (the sin) \<in> set l))"

lemma dns_invD:
  assumes "dns_inv s"
  shows "works_on s t = Some i \<Longrightarrow> i < length (cache s) \<and> dnsStatus (cache s ! i) \<noteq> 0"
    and "works_on s t = Some i \<Longrightarrow> works_on s u = Some i \<Longrightarrow> t = u"
    and "i < length (cache s) \<Longrightarrow> right_item (given s) (cache s ! i)"
    and "working s t = Some (host, Some i, spare) \<Longrightarrow> isValid (cache s ! i) \<and> dnsHost (cache s ! i) = host"
    and "(host, ret, Some a) \<in> set (results s) \<Longrightarrow> length host < 127 \<Longrightarrow> \<exists>l. (host, l) \<in> given s \<and> AF_INET a \<in> set l"
proof -
  note inv = assms [unfolded dns_inv_def]
  show "works_on s t = Some i \<Longrightarrow> i < length (cache s) \<and> dnsStatus (cache s ! i) \<noteq> 0" using inv by blast
  show "works_on s t = Some i \<Longrightarrow> works_on s u = Some i \<Longrightarrow> t = u" using inv by blast
  show "i < length (cache s) \<Longrightarrow> right_item (given s) (cache s ! i)" using inv by blast
  show "working s t = Some (host, Some i, spare) \<Longrightarrow> isValid (cache s ! i) \<and> dnsHost (cache s ! i) = host"
    using inv by blast
  show "(host, ret, Some a) \<in> set (results s) \<Longrightarrow> length host < 127 \<Longrightarrow> \<exists>l. (host, l) \<in> given s \<and> AF_INET a \<in> set l"
    using inv by fastforce
qed

lemma first_inet_in: "first_inet l = Some a \<Longrightarrow> AF_INET a \<in> set l"
  by (induction l rule: first_inet.induct) auto

lemma right_item_mono: "right_item g item \<Longrightarrow> g \<subseteq> g' \<Longrightarrow> right_item g' item"
  by (auto simp: right_item_def)

lemma update_facts:
  assumes "update_dns_cache ans now host item = (ret, sin, item')"
  shows "right_item (answered host ans) item'" and "sin = Some a \<Longrightarrow> \<exists>l. (host, l) \<in> answered host ans \<and> AF_INET a \<in> set l"
  using assms
  by (auto simp: update_dns_cache_def get_host_by_name_def right_item_def answered_def Let_def
      split: prod.splits if_splits dest: first_inet_in)

lemma use_facts:
  assumes "use_item ans now host item = (ret, sin, item')" and "isValid item" "dnsHost item = host"
    and "right_item g item"
  shows "right_item (g \<union> answered host ans) item'"
    and "sin = Some a \<Longrightarrow> length host < 127 \<Longrightarrow> \<exists>l. (host, l) \<in> g \<union> answered host ans \<and> AF_INET a \<in> set l"
proof -
  have short: "take 127 h = host \<Longrightarrow> length host < 127 \<Longrightarrow> h = host" for h by (cases "127 \<le> length h") auto
  show "right_item (g \<union> answered host ans) item'"
    using assms update_facts(1) [of ans now host item ret sin item']
    by (auto simp: use_item_def right_item_def split: if_splits option.splits)
  show "\<exists>l. (host, l) \<in> g \<union> answered host ans \<and> AF_INET a \<in> set l" if "sin = Some a" "length host < 127"
    using assms update_facts(2) [of ans now host item ret sin item'] that short first_inet_in [of "addrs item" a]
    by (auto simp: use_item_def right_item_def split: if_splits option.splits)
qed

lemma dns_inv_start: "dns_inv dns_start"
  by (auto simp: dns_inv_def dns_start_def works_on_def right_item_def dnsItems_def emptyItem_def simp del: replicate_Suc)

lemma dns_inv_lookup:
  assumes inv: "dns_inv s" and free: "working s t = None"
    and c: "claim host None (cache s) 0 = (found, spare, items)"
  shows "dns_inv (s\<lparr>cache := items, working := (working s)(t \<mapsto> (host, found, spare))\<rparr>)" (is "dns_inv ?s")
proof -
  note facts = claim_start [OF c]
  have len: "length items = length (cache s)" using facts(1) by (simp add: only_claims_def)
  have kept: "items ! i = cache s ! i" if "works_on s u = Some i" for u i
  proof -
    have "i < length (cache s)" "dnsStatus (cache s ! i) \<noteq> 0" using dns_invD(1) [OF inv that] by auto
    then show ?thesis using facts(1) by (auto simp: only_claims_def)
  qed
  have mine: "claimed (cache s) items i" if "works_on ?s t = Some i" for i
    using that facts(2,3) by (auto simp: works_on_def split: option.splits)
  have other: "works_on ?s u = works_on s u" if "u \<noteq> t" for u
    using that by (simp add: works_on_def)
  have busy: "i < length items \<and> dnsStatus (items ! i) \<noteq> 0" if "works_on ?s u = Some i" for u i
  proof (cases "u = t")
    case True
    then show ?thesis using mine [of i] that len by (simp add: claimed_def)
  next
    case False
    then have "works_on s u = Some i" using that other by simp
    then show ?thesis using dns_invD(1) [OF inv] kept len by auto
  qed
  have fresh: "works_on s u \<noteq> Some i" if "works_on ?s t = Some i" for u i
    using mine [OF that] dns_invD(1) [OF inv, of u i] by (auto simp: claimed_def)
  have apart: "u = v" if "works_on ?s u = Some i" "works_on ?s v = Some i" for u v i
    using that by (metis fresh other dns_invD(2) [OF inv])
  have right: "right_item (given s) (items ! i)" if "i < length items" for i
    using dns_invD(3) [OF inv, of i] only_claims_same [OF facts(1), of i] that len by (simp add: right_item_def)
  have hit: "isValid (items ! i) \<and> dnsHost (items ! i) = h" if "working ?s u = Some (h, Some i, sp)" for u h i sp
  proof (cases "u = t")
    case True
    then have "found = Some i" "h = host" using that by auto
    then show ?thesis
      using facts(1) facts(3) [of i] by (auto simp: claimed_def only_claims_def)
  next
    case False
    then have "works_on s u = Some i" "working s u = Some (h, Some i, sp)" using that by (auto simp: works_on_def)
    then show ?thesis using dns_invD(4) [OF inv] kept by auto
  qed
  show ?thesis
    unfolding dns_inv_def
  proof (intro conjI)
    show "\<forall>u i. works_on ?s u = Some i \<longrightarrow> i < length (cache ?s) \<and> dnsStatus (cache ?s ! i) \<noteq> 0"
      using busy by simp
    show "\<forall>u v i. works_on ?s u = Some i \<longrightarrow> works_on ?s v = Some i \<longrightarrow> u = v"
      using apart by blast
    show "\<forall>i < length (cache ?s). right_item (given ?s) (cache ?s ! i)"
      using right by simp
    show "\<forall>u h i sp. working ?s u = Some (h, Some i, sp) \<longrightarrow> isValid (cache ?s ! i) \<and> dnsHost (cache ?s ! i) = h"
      using hit by simp
  qed (use inv in \<open>simp add: dns_inv_def\<close>)
qed

lemma work_facts:
  assumes "work ans now host found spare items = (ret, sin, items')" and "length items = n"
    and "\<forall>i. found = Some i \<longrightarrow> i < n \<and> isValid (items ! i) \<and> dnsHost (items ! i) = host"
    and "\<forall>i. found = None \<longrightarrow> spare = Some i \<longrightarrow> i < n" and "\<forall>i < n. right_item g (items ! i)"
  shows "length items' = n"
    and "\<forall>i < n. (case found of Some j \<Rightarrow> Some j | None \<Rightarrow> spare) \<noteq> Some i \<longrightarrow> items' ! i = items ! i"
    and "\<forall>i < n. right_item (g \<union> answered host ans) (items' ! i)"
    and "sin = Some a \<Longrightarrow> length host < 127 \<Longrightarrow> \<exists>l. (host, l) \<in> g \<union> answered host ans \<and> AF_INET a \<in> set l"
proof -
  have mono: "right_item g x \<Longrightarrow> right_item (g \<union> answered host ans) x" for x
    by (rule right_item_mono) auto
  consider (hit) i item where "found = Some i" "use_item ans now host (items ! i) = (ret, sin, item)" "items' = items[i := item]"
    | (new) i item where "found = None" "spare = Some i" "update_dns_cache ans now host (items ! i) = (ret, sin, item)"
        "items' = items[i := item]"
    | (full) "found = None" "spare = None" "sin = None" "items' = items"
    using assms(1) by (auto simp: work_def split: option.splits prod.splits)
  note cases = this
  show "length items' = n" using cases assms(2) by cases auto
  show "\<forall>i < n. (case found of Some j \<Rightarrow> Some j | None \<Rightarrow> spare) \<noteq> Some i \<longrightarrow> items' ! i = items ! i"
    using cases by cases auto
  show "\<forall>i < n. right_item (g \<union> answered host ans) (items' ! i)"
    using cases
  proof cases
    case hit
    then show ?thesis
      using use_facts(1) [OF hit(2)] assms(2,3,5) mono by (auto simp: nth_list_update)
  next
    case new
    then show ?thesis
      using right_item_mono [OF update_facts(1) [OF new(3)], of "g \<union> answered host ans"] assms(2,5) mono
      by (metis Un_upper2 nth_list_update_eq nth_list_update_neq update_facts(1) [OF new(3)] right_item_mono)
  next
    case full
    then show ?thesis using assms(5) mono by simp
  qed
  show "\<exists>l. (host, l) \<in> g \<union> answered host ans \<and> AF_INET a \<in> set l" if "sin = Some a" "length host < 127"
    using cases
  proof cases
    case hit
    then show ?thesis using use_facts(2) [OF hit(2) _ _ _ that] assms(3,5) by auto
  next
    case new
    then show ?thesis using update_facts(2) [OF new(3) that(1)] by auto
  qed (use that in simp)
qed

lemma dns_inv_resolve:
  assumes inv: "dns_inv s" and busy: "working s t = Some (host, found, spare)"
    and w: "work ans now host found spare (cache s) = (ret, sin, items)"
  shows "dns_inv (s\<lparr>cache := items, working := (working s)(t := None),
       given := given s \<union> answered host ans, results := results s @ [(host, ret, sin)]\<rparr>)" (is "dns_inv ?s")
proof -
  have place: "works_on s t = (case found of Some j \<Rightarrow> Some j | None \<Rightarrow> spare)"
    using busy by (simp add: works_on_def)
  have in_range: "i < length (cache s) \<and> dnsStatus (cache s ! i) \<noteq> 0" if "works_on s u = Some i" for u i
    using that by (rule dns_invD(1) [OF inv])
  have hit: "\<forall>i. found = Some i \<longrightarrow> i < length (cache s) \<and> isValid (cache s ! i) \<and> dnsHost (cache s ! i) = host"
    using dns_invD(4) [OF inv, of t] busy in_range [of t] place by auto
  have new: "\<forall>i. found = None \<longrightarrow> spare = Some i \<longrightarrow> i < length (cache s)"
    using in_range [of t] place by auto
  have right: "\<forall>i < length (cache s). right_item (given s) (cache s ! i)"
    using dns_invD(3) [OF inv] by blast
  note facts = work_facts [OF w refl hit new right]
  have works: "works_on ?s u = (if u = t then None else works_on s u)" for u
    by (simp add: works_on_def)
  have apart: "u = v" if "works_on s u = Some i" "works_on s v = Some i" for u v i
    using that by (rule dns_invD(2) [OF inv])
  have kept: "items ! i = cache s ! i" if "works_on s u = Some i" "u \<noteq> t" for u i
    using facts(2) in_range [OF that(1)] apart [OF that(1), of t] that(2) place by fastforce
  show ?thesis
    unfolding dns_inv_def
  proof (intro conjI)
    show "\<forall>u i. works_on ?s u = Some i \<longrightarrow> i < length (cache ?s) \<and> dnsStatus (cache ?s ! i) \<noteq> 0"
      using in_range kept facts(1) by (auto simp: works)
    show "\<forall>u v i. works_on ?s u = Some i \<longrightarrow> works_on ?s v = Some i \<longrightarrow> u = v"
      using apart by (auto simp: works)
    show "\<forall>i < length (cache ?s). right_item (given ?s) (cache ?s ! i)"
      using facts(1,3) by simp
    have "isValid (items ! i) \<and> dnsHost (items ! i) = h" if "working s u = Some (h, Some i, sp)" "u \<noteq> t" for u h i sp
    proof -
      have "works_on s u = Some i" using that(1) by (simp add: works_on_def)
      then show ?thesis using kept that dns_invD(4) [OF inv] by metis
    qed
    then show "\<forall>u h i sp. working ?s u = Some (h, Some i, sp) \<longrightarrow> isValid (cache ?s ! i) \<and> dnsHost (cache ?s ! i) = h"
      by auto
    show "\<forall>(h, ret, sin) \<in> set (results ?s). sin \<noteq> None \<longrightarrow> length h < 127 \<longrightarrow>
          (\<exists>l. (h, l) \<in> given ?s \<and> AF_INET (the sin) \<in> set l)"
      using inv facts(4) unfolding dns_inv_def by fastforce
  qed
qed

lemma dns_inv_reachable: "dns_reachable s \<Longrightarrow> dns_inv s"
  unfolding dns_reachable_def
proof (induction rule: rtranclp_induct)
  case base
  show ?case by (rule dns_inv_start)
next
  case (step s s')
  from step.hyps(2) show ?case
  proof (cases rule: dns_step.cases)
    case (lookup t host found spare items)
    then show ?thesis using dns_inv_lookup [OF step.IH] by simp
  next
    case (resolve t host found spare ans now ret sin items)
    then show ?thesis using dns_inv_resolve [OF step.IH] by simp
  qed
qed

text \<open>
  C39: In every interleaving of lookups no two threads work on the same place of the cache.
\<close>

theorem dns_places_exclusive:
  assumes "dns_reachable s" and "works_on s t = Some i" and "works_on s u = Some i"
  shows "t = u"
  using dns_invD(2) [OF dns_inv_reachable [OF assms(1)] assms(2,3)] .

text \<open>
  C40: A lookup of a name of less than 127 characters that hands out an address hands out one the resolver
  gave for this name, whatever the other threads look up meanwhile.
\<close>

theorem lookups_answer_for_their_host:
  assumes "dns_reachable s" and "(host, ret, Some a) \<in> set (results s)" and "length host < 127"
  shows "\<exists>l. (host, l) \<in> given s \<and> AF_INET a \<in> set l"
  using dns_invD(5) [OF dns_inv_reachable [OF assms(1)] assms(2,3)] .

text \<open>A first lookup: the claim, and the answer of the resolver.\<close>

definition sample_host :: bytes where
  "sample_host = [117, 112]"

definition sample_claimed :: DnsRun where
  "sample_claimed = dns_start\<lparr>cache := emptyItem\<lparr>dnsStatus := 1\<rparr> # replicate 9 emptyItem,
     working := (\<lambda>t. None)(3 \<mapsto> (sample_host, None, Some 0))\<rparr>"

lemma sample_claim:
  "claim sample_host None dnsItems 0 = (None, Some 0, emptyItem\<lparr>dnsStatus := 1\<rparr> # replicate 9 emptyItem)"
  by code_simp

lemma sample_reachable: "dns_reachable sample_claimed"
  unfolding dns_reachable_def
proof (rule r_into_rtranclp)
  show "dns_step dns_start sample_claimed"
    unfolding sample_claimed_def
    using dns_step.lookup [of dns_start 3 sample_host] sample_claim
    by (simp add: dns_start_def del: replicate_Suc)
qed

theorem dns_places_exclusive_witness:
  "works_on sample_claimed 3 = Some 0 \<and> works_on sample_claimed 4 \<noteq> Some 0"
proof
  show busy: "works_on sample_claimed 3 = Some 0"
    by (simp add: works_on_def sample_claimed_def)
  show "works_on sample_claimed 4 \<noteq> Some 0"
    using dns_places_exclusive [OF sample_reachable busy, of 4] by auto
qed

definition sample_run :: DnsRun where
  "sample_run = sample_claimed\<lparr>cache := \<lparr>dnsHost = sample_host, updateTime = 5, addrs = [Other_family, AF_INET 7],
       dnsStatus = 0, isValid = True\<rparr> # replicate 9 emptyItem,
     working := (\<lambda>t. None), given := {(sample_host, [Other_family, AF_INET 7])}, results := [(sample_host, 0, Some 7)]\<rparr>"

lemma sample_run_reachable: "dns_reachable sample_run"
  unfolding dns_reachable_def
proof (rule rtranclp.rtrancl_into_rtrancl)
  show "dns_step\<^sup>*\<^sup>* dns_start sample_claimed"
    using sample_reachable by (simp add: dns_reachable_def)
  have w: "work (0, [Other_family, AF_INET 7]) 5 sample_host None (Some 0) (cache sample_claimed)
      = (0, Some 7, cache sample_run)"
    by code_simp
  show "dns_step sample_claimed sample_run"
    using dns_step.resolve [of sample_claimed 3 sample_host None "Some 0", OF _ w]
    by (simp add: sample_claimed_def sample_run_def dns_start_def answered_def fun_upd_idem del: replicate_Suc)
qed

theorem lookups_answer_for_their_host_witness:
  "\<exists>l. (sample_host, l) \<in> given sample_run \<and> AF_INET 7 \<in> set l"
proof -
  have "(sample_host, 0, Some 7) \<in> set (results sample_run)" by (simp add: sample_run_def)
  then show ?thesis
    using lookups_answer_for_their_host [OF sample_run_reachable] by (simp add: sample_host_def)
qed

subsection \<open>Places that are lost\<close>

text \<open>
  A place claimed on the way to the host's own is never given back: nobody works on it, and its status stays 1.
\<close>

definition one_invalid :: "DnsCacheItem list" where
  "one_invalid = [emptyItem, \<lparr>dnsHost = sample_host, updateTime = 5, addrs = [AF_INET 7], dnsStatus = 0, isValid = True\<rparr>]"

lemma lookup_loses_place:
  "get_host_by_name_from_cache (0, []) 6 sample_host one_invalid =
     (0, Some 7, [emptyItem\<lparr>dnsStatus := 1\<rparr>, one_invalid ! 1])"
  by code_simp

text \<open>Nothing is ever evicted: with ten hosts in the cache an eleventh is not resolved any more.\<close>

lemma claim_full:
  assumes "\<forall>k < length items. isValid (items ! k) \<and> dnsHost (items ! k) \<noteq> host"
  shows "claim host None items i = (None, None, items)"
  using assms
proof (induction host "None :: nat option" items i rule: claim.induct)
  case (1 host items i)
  show ?case
  proof (cases "length items \<le> i")
    case False
    then have "isValid (items ! i)" "host \<noteq> dnsHost (items ! i)"
      using "1.prems" [rule_format, of i] False by auto
    then show ?thesis
      using 1 False by (simp add: claim.simps [of host None items i])
  qed (simp add: claim.simps [of host None items i])
qed

lemma eleventh_host_fails:
  assumes "\<forall>k < length items. isValid (items ! k) \<and> dnsHost (items ! k) \<noteq> host"
  shows "get_host_by_name_from_cache ans now host items = (-1, None, items)"
  using claim_full [OF assms, of 0] by (simp add: get_host_by_name_from_cache_def work_def)

end
