(* ===== verification/HttpConnect.thy ===== *)
theory HttpConnect
  imports DnsCache HttpTransport
begin

section \<open>Opening a connection (libghttp/timeoutconn.c, http_trans.c)\<close>

text \<open>
  The answers of the system calls are arguments: \<open>fcntl\<close> reads and sets the flags of the socket, \<open>connect\<close>
  succeeds or sets \<open>errno\<close>, \<open>select\<close> waits for the end of a connect in progress.
\<close>

abbreviation (input) EINPROGRESS :: int where "EINPROGRESS \<equiv> 115"
abbreviation (input) O_NONBLOCK :: int where "O_NONBLOCK \<equiv> 2048"

record SocketAnswers =
  getFlags :: int
  setFlags :: int
  connectError :: "int option"
  selectResult :: int
  soError :: int
  selectErrno :: int
  getFlags2 :: int
  setFlags2 :: int
  fcntlErrno :: int

definition set_socket_to_nonblock :: "SocketAnswers \<Rightarrow> int" where
  "set_socket_to_nonblock a =
     (let flags = getFlags a in
      if flags < 0 then (if flags = -1 then fcntlErrno a else flags)
      else
        let flags = or flags O_NONBLOCK in
        if setFlags a < 0 then (if flags = -1 then fcntlErrno a else flags) else 0)"

definition set_socket_to_block :: "SocketAnswers \<Rightarrow> int" where
  "set_socket_to_block a =
     (let flags = getFlags2 a in
      if flags < 0 then (if flags = -1 then fcntlErrno a else flags)
      else
        let flags = and flags (not O_NONBLOCK) in
        if setFlags2 a < 0 then (if flags = -1 then fcntlErrno a else flags) else 0)"

definition wait_connect :: "SocketAnswers \<Rightarrow> int" where
  "wait_connect a =
     (if 0 < selectResult a then (if soError a = 0 then 0 else soError a)
      else if selectResult a = 0 then -1 else selectErrno a)"

text \<open>\<open>ret\<close> of a failed wait is overwritten by that of \<open>set_socket_to_block\<close>.\<close>

definition timeout_connect :: "SocketAnswers \<Rightarrow> int" where
  "timeout_connect a =
     (let ret = set_socket_to_nonblock a in
      if ret \<noteq> 0 then ret
      else
        let rest = (\<lambda>ok. let ret = set_socket_to_block a in
                     if ret \<noteq> 0 then ret else if \<not> ok then ret else 0)
        in case connectError a of
             None \<Rightarrow> rest True
           | Some e \<Rightarrow> if e \<noteq> EINPROGRESS then e else rest (wait_connect a = 0))"

text \<open>The name without the port, which follows the last colon.\<close>

definition host_name :: "bytes \<Rightarrow> bytes" where
  "host_name h = (if 58 \<in> set h then rev (tl (dropWhile (\<lambda>x. x \<noteq> 58) (rev h))) else h)"

text \<open>
  Clock readings in milliseconds: at the start, after the name was looked up, and after the connect; \<open>now\<close>
  is the time in seconds. The code, the connection, and the cache.
\<close>

record ConnectAnswers =
  dnsAnswer :: "bytes \<Rightarrow> resolver_answer"
  nowSeconds :: int
  startTime :: int
  endDnsTime :: int
  socketError :: "int option"
  socketAnswers :: SocketAnswers
  connErrno :: int
  connEndTime :: int

definition http_trans_connect ::
    "ConnectAnswers \<Rightarrow> DnsCacheItem list \<Rightarrow> HttpConn \<Rightarrow> int \<times> HttpConn \<times> DnsCacheItem list" where
  "http_trans_connect a items c =
     (let failed = (\<lambda>ty e c items. (-1, c\<lparr>errType := ty, errCode := e\<rparr>, items))
      in case connHost c of
           None \<Rightarrow> (-1, c, items)
         | Some host \<Rightarrow>
             let name = (case proxyHost c of Some p \<Rightarrow> p | None \<Rightarrow> host_name host)
             in (case get_host_by_name_from_cache (dnsAnswer a name) (nowSeconds a) name items of (dnserr, sin, items) \<Rightarrow>
                if dnserr \<noteq> 0 then failed http_trans_err_type_host dnserr c items
                else if nTimeoutInSecond c * 1000 \<le> endDnsTime a - startTime a
                  then failed http_trans_err_type_errno EAGAIN c items
                else (case socketError a of
                    Some e \<Rightarrow> failed http_trans_err_type_errno e (c\<lparr>sockOpen := False\<rparr>) items
                  | None \<Rightarrow>
                      let c = c\<lparr>sockOpen := True\<rparr> in
                      if timeout_connect (socketAnswers a) < 0
                      then failed http_trans_err_type_errno (connErrno a) c items
                      else if (nTimeoutInSecond c + 5) * 1000 - (connEndTime a - startTime a) < 0
                      then failed http_trans_err_type_errno EAGAIN c items
                      else (0, c, items))))"

subsection \<open>What a connection needs\<close>

lemma timeout_connect_result:
  assumes "set_socket_to_nonblock a = 0" and "connectError a \<in> {None, Some EINPROGRESS}"
  shows "timeout_connect a = set_socket_to_block a"
  using assms by (auto simp: timeout_connect_def Let_def)

text \<open>A refused connection, and one that timed out, count as made; a refusal at once too.\<close>

lemma failed_connect_is_success:
  assumes "set_socket_to_nonblock a = 0" and "connectError a = Some EINPROGRESS"
    and "wait_connect a = e" and "e \<noteq> 0" and "set_socket_to_block a = 0"
  shows "timeout_connect a = 0"
  using assms timeout_connect_result [of a] by simp

lemma refused_connect_is_success:
  assumes "set_socket_to_nonblock a = 0" and "connectError a = Some 111"
  shows "timeout_connect a = 111"
  using assms by (simp add: timeout_connect_def Let_def)

text \<open>The port of a proxy stays in the name that is looked up.\<close>

lemma proxy_port_is_looked_up:
  assumes "connHost c = Some host" and "proxyHost c = Some p"
    and "fst (get_host_by_name_from_cache (dnsAnswer a p) (nowSeconds a) p items) \<noteq> 0"
  shows "fst (http_trans_connect a items c) = -1"
  using assms by (auto simp: http_trans_connect_def Let_def split: prod.splits)

lemma host_name_port: "58 \<notin> set p \<Longrightarrow> host_name (h @ 58 # p) = h"
  by (simp add: host_name_def, subst dropWhile_append2) auto

lemma host_name_plain: "58 \<notin> set h \<Longrightarrow> host_name h = h"
  by (simp add: host_name_def)

end
