(* ===== verification/Ghttp.thy ===== *)
theory Ghttp
  imports HttpRequest HttpConnect
begin

section \<open>The requests of the HTTP client (libghttp/ghttp.c)\<close>

text \<open>
  A request object holds the address, the request, the response and the connection, and where it is
  between them. Objects of the library are compared by their addresses in \<open>ghttp_prepare\<close>; here by what they
  hold, which differs only where an address was freed and used again. There is no TLS, so an https address is
  refused before, and requests are synchronous.
\<close>

datatype ghttp_proc = ghttp_proc_none | ghttp_proc_request | ghttp_proc_response_hdrs | ghttp_proc_response
datatype ghttp_status = ghttp_error | ghttp_not_done | ghttp_done

record ghttp_request =
  gUri :: http_uri
  gProxy :: http_uri
  gReq :: http_req
  gResp :: HttpResp
  gConn :: HttpConn
  gConnected :: bool
  gProc :: ghttp_proc
  gUser :: "bytes option"
  gPass :: "bytes option"
  gAuth :: "bytes option"
  gProxyUser :: "bytes option"
  gProxyPass :: "bytes option"
  gProxyAuth :: "bytes option"

text \<open>What the network will bring and take is part of the new connection.\<close>

definition ghttp_request_new :: "net_read list \<Rightarrow> net_write list \<Rightarrow> ghttp_request" where
  "ghttp_request_new inc out =
     \<lparr>gUri = http_uri_new, gProxy = http_uri_new, gReq = http_req_new, gResp = http_resp_new,
      gConn = http_trans_conn_new 10 inc out, gConnected = False, gProc = ghttp_proc_none,
      gUser = None, gPass = None, gAuth = None, gProxyUser = None, gProxyPass = None, gProxyAuth = None\<rparr>"

definition ghttp_set_timeout :: "int \<Rightarrow> ghttp_request \<Rightarrow> ghttp_request" where
  "ghttp_set_timeout n g = g\<lparr>gConn := (gConn g)\<lparr>nTimeoutInSecond := n\<rparr>\<rparr>"

definition ghttp_is_timeout :: "ghttp_request \<Rightarrow> bool" where
  "ghttp_is_timeout g \<longleftrightarrow> errType (gConn g) = http_trans_err_type_errno \<and> errCode (gConn g) = EAGAIN"

definition ghttp_uri_validate :: "bytes option \<Rightarrow> int" where
  "ghttp_uri_validate a_uri = (case a_uri of None \<Rightarrow> -1 | Some s \<Rightarrow> fst (http_uri_parse (Some s) None))"

text \<open>With the same host and port only the resource is taken over.\<close>

definition ghttp_set_uri :: "bytes option \<Rightarrow> ghttp_request \<Rightarrow> int \<times> ghttp_request" where
  "ghttp_set_uri a_uri g =
     (case a_uri of
        None \<Rightarrow> (-1, g)
      | Some s \<Rightarrow>
          (case http_uri_parse (Some s) (Some http_uri_new) of
             (rv, Some new) \<Rightarrow>
               if rv < 0 then (-1, g)
               else
                 let old = gUri g in
                 if uriHost old \<noteq> None \<and> uriPort old \<noteq> 0 \<and> uriResource old \<noteq> None
                    \<and> uriHost old = uriHost new \<and> uriPort old = uriPort new
                 then (0, g\<lparr>gUri := old\<lparr>uriResource := uriResource new\<rparr>\<rparr>)
                 else (0, g\<lparr>gUri := new\<rparr>)
           | (rv, None) \<Rightarrow> (-1, g)))"

definition ghttp_set_proxy :: "bytes option \<Rightarrow> ghttp_request \<Rightarrow> int \<times> ghttp_request" where
  "ghttp_set_proxy a_uri g =
     (case a_uri of
        None \<Rightarrow> (-1, g)
      | Some s \<Rightarrow>
          (case http_uri_parse (Some s) (Some (gProxy g)) of (rv, p) \<Rightarrow>
             (if rv < 0 then -1 else 0, g\<lparr>gProxy := (case p of Some p \<Rightarrow> p | None \<Rightarrow> gProxy g)\<rparr>)))"

definition ghttp_set_type :: "http_req_type \<Rightarrow> ghttp_request \<Rightarrow> ghttp_request" where
  "ghttp_set_type ty g = g\<lparr>gReq := (gReq g)\<lparr>rqType := ty\<rparr>\<rparr>"

definition takes_body :: "http_req_type \<Rightarrow> bool" where
  "takes_body ty \<longleftrightarrow> ty \<in> {http_req_type_post, http_req_type_put, http_req_type_proppatch,
     http_req_type_propfind, http_req_type_lock}"

definition ghttp_set_body :: "bytes option \<Rightarrow> int \<Rightarrow> ghttp_request \<Rightarrow> int \<times> ghttp_request" where
  "ghttp_set_body a_body a_len g =
     (if 0 < a_len \<and> a_body = None \<or> \<not> takes_body (rqType (gReq g)) then (-1, g)
      else (0, g\<lparr>gReq := (gReq g)\<lparr>rqBody := a_body, rqBodyLen := a_len\<rparr>\<rparr>))"

definition ghttp_set_body3 ::
    "bytes option \<Rightarrow> int \<Rightarrow> bytes option \<Rightarrow> int \<Rightarrow> bytes option \<Rightarrow> int \<Rightarrow> ghttp_request \<Rightarrow> int \<times> ghttp_request" where
  "ghttp_set_body3 a_body a_len a1_body a1_len a2_body a2_len g =
     (if 0 < a_len \<and> a_body = None \<or> \<not> takes_body (rqType (gReq g)) then (-1, g)
      else (0, g\<lparr>gReq := (gReq g)\<lparr>rqBody := a_body, rqBodyLen := a_len, rqBody1 := a1_body, rqBody1Len := a1_len,
          rqBody2 := a2_body, rqBody2Len := a2_len\<rparr>\<rparr>))"

definition ghttp_set_header :: "bytes \<Rightarrow> bytes \<Rightarrow> ghttp_request \<Rightarrow> ghttp_request" where
  "ghttp_set_header h v g =
     g\<lparr>gReq := (gReq g)\<lparr>rqHeaders := snd (http_hdr_set_value (rqHeaders (gReq g)) (Some h) (Some v))\<rparr>\<rparr>"

definition ghttp_set_chunksize :: "int \<Rightarrow> ghttp_request \<Rightarrow> ghttp_request" where
  "ghttp_set_chunksize n g = (if 0 < n then g\<lparr>gConn := (gConn g)\<lparr>ioChunk := nat n\<rparr>\<rparr> else g)"

definition ghttp_close :: "ghttp_request \<Rightarrow> ghttp_request" where
  "ghttp_close g = g\<lparr>gConn := http_trans_conn_close (gConn g), gConnected := False\<rparr>"

definition ghttp_clean :: "ghttp_request \<Rightarrow> ghttp_request" where
  "ghttp_clean g = g\<lparr>gResp := http_resp_new, gReq := http_req_new, gConn := http_trans_buf_reset (gConn g),
     gProc := ghttp_proc_none\<rparr>"

definition ghttp_flush_response_buffer :: "ghttp_request \<Rightarrow> ghttp_request" where
  "ghttp_flush_response_buffer g =
     (case http_resp_flush (gResp g) (gConn g) of (r, c) \<Rightarrow> g\<lparr>gResp := r, gConn := c\<rparr>)"

subsection \<open>Preparing and processing\<close>

text \<open>The ports of the connection are \<open>short\<close>, those of addresses \<open>unsigned short\<close>.\<close>

definition as_short :: "nat \<Rightarrow> int" where
  "as_short n = sint (word_of_nat n :: 16 word)"

definition set_auth :: "string \<Rightarrow> bytes option \<Rightarrow> hdr_list \<Rightarrow> hdr_list" where
  "set_auth name tok hs =
     (case tok of
        Some t \<Rightarrow> if t = [] then hs else snd (http_hdr_set_value hs (Some (chars name)) (Some t))
      | None \<Rightarrow> hs)"

definition host_changed :: "ghttp_request \<Rightarrow> bool" where
  "host_changed g \<longleftrightarrow> connHost (gConn g) = None \<or> connHost (gConn g) \<noteq> uriHost (gUri g)
     \<or> connPort (gConn g) \<noteq> int (uriPort (gUri g)) \<or> proxyHost (gConn g) \<noteq> uriHost (gProxy g)
     \<or> proxyPort (gConn g) \<noteq> int (uriPort (gProxy g))"

definition set_up_host :: "ghttp_request \<Rightarrow> ghttp_request" where
  "set_up_host g =
     (if host_changed g then
        let c = (gConn g)\<lparr>connHost := uriHost (gUri g), connPort := as_short (uriPort (gUri g)),
              proxyHost := uriHost (gProxy g), proxyPort := as_short (uriPort (gProxy g))\<rparr>;
            open = sockOpen c
        in g\<lparr>gConn := (if open then http_trans_conn_close c else c), gConnected := gConnected g \<and> \<not> open,
             gReq := (gReq g)\<lparr>rqHost := uriHost (gUri g), rqFullUri := uriFull (gUri g)\<rparr>\<rparr>
      else g)"

definition ghttp_prepare :: "bytes \<Rightarrow> ghttp_request \<Rightarrow> int \<times> ghttp_request" where
  "ghttp_prepare agent g =
     (if uriHost (gProxy g) = None \<and> uriProto (gUri g) \<notin> {None, Some (chars ''http''), Some (chars ''https'')} then (1, g)
      else
        let g = set_up_host g; r = gReq g;
            r = (if rqResource r = None \<or> rqResource r \<noteq> uriResource (gUri g)
                 then r\<lparr>rqResource := uriResource (gUri g), rqHost := uriHost (gUri g)\<rparr> else r);
            hs = set_auth ''Authorization'' (gAuth g) (rqHeaders r);
            hs = set_auth ''Proxy-Authorization'' (gProxyAuth g) hs
        in (0, g\<lparr>gReq := http_req_prepare agent (r\<lparr>rqHeaders := hs\<rparr>)\<rparr>))"

text \<open>The three parts of \<open>ghttp_process\<close>, each entered when the one before is through.\<close>

definition process_body :: "ghttp_request \<Rightarrow> (ghttp_status \<times> ghttp_request) run" where
  "process_body g =
     and_then (http_resp_read_body (gResp g) (rqType (gReq g) = http_req_type_head) (gConn g)) (\<lambda>(rv, r, c).
       let g = g\<lparr>gResp := r, gConn := c\<rparr>; still = gConnected g \<and> sockOpen c in
       if rv = HTTP_TRANS_ERR then Inr (ghttp_error, g\<lparr>gConnected := still\<rparr>)
       else if rv = HTTP_TRANS_NOT_DONE then Inr (ghttp_not_done, g)
       else Inr (ghttp_done, g\<lparr>gConnected := still, gProc := ghttp_proc_none\<rparr>))"

definition process_headers :: "ghttp_request \<Rightarrow> (ghttp_status \<times> ghttp_request) run" where
  "process_headers g =
     and_then (http_resp_read_headers (gResp g) (gConn g)) (\<lambda>(rv, r, c).
       let g = g\<lparr>gResp := r, gConn := c\<rparr> in
       if rv = HTTP_TRANS_ERR then Inr (ghttp_error, g)
       else if rv = HTTP_TRANS_NOT_DONE then Inr (ghttp_not_done, g)
       else process_body (g\<lparr>gProc := ghttp_proc_response\<rparr>))"

definition process_request ::
    "ConnectAnswers \<Rightarrow> DnsCacheItem list \<Rightarrow> ghttp_request \<Rightarrow> (ghttp_status \<times> ghttp_request \<times> DnsCacheItem list) run" where
  "process_request a items g =
     (case (if gConnected g then (0, gConn g, items) else http_trans_connect a items (gConn g)) of (rv, c, items) \<Rightarrow>
        if rv < 0 then Inr (ghttp_error, g\<lparr>gConn := c\<rparr>, items)
        else
          let g = g\<lparr>gConn := c, gConnected := True\<rparr> in
          and_then (http_req_send (gReq g) (gConn g)) (\<lambda>(rv, c).
            let g = g\<lparr>gConn := c\<rparr> in
            if rv = HTTP_TRANS_ERR then Inr (ghttp_error, g, items)
            else if rv = HTTP_TRANS_NOT_DONE then Inr (ghttp_not_done, g, items)
            else and_then (process_headers (g\<lparr>gProc := ghttp_proc_response_hdrs\<rparr>)) (\<lambda>(st, g).
              Inr (st, g, items))))"

definition ghttp_process ::
    "ConnectAnswers \<Rightarrow> DnsCacheItem list \<Rightarrow> ghttp_request \<Rightarrow> (ghttp_status \<times> ghttp_request \<times> DnsCacheItem list) run" where
  "ghttp_process a items g =
     (case gProc g of
        ghttp_proc_none \<Rightarrow> process_request a items (g\<lparr>gProc := ghttp_proc_request\<rparr>)
      | ghttp_proc_request \<Rightarrow> process_request a items g
      | ghttp_proc_response_hdrs \<Rightarrow> and_then (process_headers g) (\<lambda>(st, g). Inr (st, g, items))
      | ghttp_proc_response \<Rightarrow> and_then (process_body g) (\<lambda>(st, g). Inr (st, g, items)))"

subsection \<open>Results\<close>

definition ghttp_get_status :: "ghttp_request \<Rightarrow> ghttp_proc \<times> int \<times> int" where
  "ghttp_get_status g =
     (gProc g, case gProc g of
        ghttp_proc_request \<Rightarrow> (ioDone (gConn g), int (length (ioBuf (gConn g))))
      | ghttp_proc_response \<Rightarrow>
          (bodyLen (gResp g) + int (length (ioBuf (gConn g))) + flushedLength (gResp g),
           if 0 < contentLength (gResp g) then contentLength (gResp g) else -1)
      | _ \<Rightarrow> (0, 0))"

definition ghttp_get_header :: "ghttp_request \<Rightarrow> bytes \<Rightarrow> bytes option" where
  "ghttp_get_header g h = http_hdr_get_value (respHeaders (gResp g)) h"

definition ghttp_get_header_names :: "ghttp_request \<Rightarrow> bytes list run" where
  "ghttp_get_header_names g = http_hdr_get_headers (respHeaders (gResp g))"

definition ghttp_status_code :: "ghttp_request \<Rightarrow> int" where
  "ghttp_status_code g = statusCode (gResp g)"

definition ghttp_reason_phrase :: "ghttp_request \<Rightarrow> bytes option" where
  "ghttp_reason_phrase g = reasonPhrase (gResp g)"

definition ghttp_get_body :: "ghttp_request \<Rightarrow> bytes option" where
  "ghttp_get_body g =
     (case gProc g of
        ghttp_proc_none \<Rightarrow> respBody (gResp g)
      | ghttp_proc_response \<Rightarrow>
          if 0 < contentLength (gResp g)
          then (if bodyLen (gResp g) \<noteq> 0 then respBody (gResp g) else Some (ioBuf (gConn g)))
          else respBody (gResp g)
      | _ \<Rightarrow> None)"

definition ghttp_get_body_len :: "ghttp_request \<Rightarrow> int" where
  "ghttp_get_body_len g =
     (case gProc g of
        ghttp_proc_none \<Rightarrow> bodyLen (gResp g)
      | ghttp_proc_response \<Rightarrow>
          if 0 < contentLength (gResp g)
          then (if bodyLen (gResp g) \<noteq> 0 then bodyLen (gResp g) else int (length (ioBuf (gConn g))))
          else bodyLen (gResp g)
      | _ \<Rightarrow> 0)"


subsection \<open>Addresses that go stale\<close>

text \<open>
  With the same host and port the full address stays the old one, which is what a proxy is sent; and
  after \<open>ghttp_clean\<close> it is not set again as long as the host stays the same.
\<close>

lemma full_uri_goes_stale:
  "uriFull (gUri (snd (ghttp_set_uri (Some (chars ''http://a/2''))
      (snd (ghttp_set_uri (Some (chars ''http://a/1'')) (ghttp_request_new [] [])))))) = Some (chars ''http://a/1'')"
  by code_simp

lemma clean_loses_full_uri:
  assumes "\<not> host_changed g"
  shows "rqFullUri (gReq (snd (ghttp_prepare agent (ghttp_clean g)))) = None \<or> fst (ghttp_prepare agent (ghttp_clean g)) = 1"
proof -
  have "\<not> host_changed (ghttp_clean g)"
    using assms by (simp add: host_changed_def ghttp_clean_def http_trans_buf_reset_def)
  then show ?thesis
    by (simp add: ghttp_prepare_def set_up_host_def Let_def http_req_prepare_def ghttp_clean_def http_req_new_def)
qed

text \<open>A port above 32767 never compares equal, so that the connection is closed and made again for each request.\<close>

lemma high_port_never_kept:
  assumes "32767 < uriPort (gUri g)" and "connPort (gConn g) \<le> 32767"
  shows "host_changed (set_up_host g)"
proof -
  have short: "as_short n < 32768" for n
    using sint_lt [of "word_of_nat n :: 16 word"] by (simp add: as_short_def)
  have "as_short (uriPort (gUri g)) \<noteq> int (uriPort (gUri g))"
    using assms(1) short [of "uriPort (gUri g)"] by linarith
  moreover have "host_changed g" using assms by (auto simp: host_changed_def)
  ultimately show ?thesis
    by (auto simp: set_up_host_def host_changed_def http_trans_conn_close_def Let_def)
qed

text \<open>Without TLS an https address is valid, but cannot be set.\<close>

lemma https_validates:
  "ghttp_uri_validate (Some (chars ''https://a/'')) = 0"
  "fst (ghttp_set_uri (Some (chars ''https://a/'')) g) = -1"
  by (simp_all add: ghttp_uri_validate_def ghttp_set_uri_def http_uri_parse_def chars_def)

end
