(* ===== verification/ResponseRoundtrip.thy ===== *)
theory ResponseRoundtrip
  imports HttpUri
begin

section \<open>Responses arrive as they were sent\<close>

text \<open>
  What a server sends, cut into any pieces by the network, is what the client makes of it: status, reason
  phrase, headers and body.
\<close>

subsection \<open>The text of a response\<close>

definition eol :: bytes where
  "eol = [13, 10]"

definition header_line :: "bytes \<times> bytes \<Rightarrow> bytes" where
  "header_line h = fst h @ [58, 32] @ snd h @ eol"

definition header_ok :: "bytes \<times> bytes \<Rightarrow> bool" where
  "header_ok h \<longleftrightarrow> fst h \<noteq> [] \<and> \<not> is_blank (hd (fst h)) \<and> (snd h \<noteq> [] \<longrightarrow> \<not> is_blank (hd (snd h)))
     \<and> 58 \<notin> set (fst h) \<and> {0, 10, 13} \<inter> set (fst h) = {} \<and> {0, 10, 13} \<inter> set (snd h) = {}"

definition status_text :: "nat \<Rightarrow> nat \<Rightarrow> nat \<Rightarrow> bytes \<Rightarrow> bytes" where
  "status_text a b code reason = chars ''HTTP/1.1 '' @ map (\<lambda>d. of_nat (48 + d)) [a, b, code] @ [32] @ reason @ eol"

definition reply_head :: "nat \<Rightarrow> nat \<Rightarrow> nat \<Rightarrow> bytes \<Rightarrow> (bytes \<times> bytes) list \<Rightarrow> bytes" where
  "reply_head a b c reason hs = status_text a b c reason @ concat (map header_line hs) @ eol"

subsection \<open>The machine over the headers\<close>

lemma parse_name:
  assumes "58 \<notin> set n" "13 \<notin> set n" "acc = [] \<and> n \<noteq> [] \<longrightarrow> \<not> is_blank (hd n)"
  shows "parse_headers (length n + m) (n @ s) (reading_header acc) prev hs = parse_headers m s (reading_header (acc @ n)) prev hs"
  using assms
proof (induction n arbitrary: acc)
  case Nil
  then show ?case by simp
next
  case (Cons c n)
  then have "parse_headers (length (c # n) + m) ((c # n) @ s) (reading_header acc) prev hs
      = parse_headers (length n + m) (n @ s) (reading_header (acc @ [c])) prev hs"
    by auto
  also have "\<dots> = parse_headers m s (reading_header ((acc @ [c]) @ n)) prev hs"
    using Cons by (intro Cons.IH) auto
  finally show ?case by simp
qed

lemma parse_value:
  assumes "10 \<notin> set v" "13 \<notin> set v"
  shows "parse_headers (length v + m) (v @ s) (reading_value n acc) prev hs = parse_headers m s (reading_value n (acc @ v)) prev hs"
  using assms
proof (induction v arbitrary: acc)
  case (Cons c v)
  then have "\<not> is_eol c" by (auto simp: is_eol_def)
  then show ?case using Cons by simp
qed simp

lemma parse_line:
  assumes ok: "header_ok (n, v)"
  shows "parse_headers (length n + 2 + length v + Suc m) (n @ [58, 32] @ v @ 13 # s) (reading_header []) prev hs
    = parse_headers m s reading_eol (Some n) (hdr_store hs n v)"
proof -
  have n: "n \<noteq> []" "58 \<notin> set n" "13 \<notin> set n" "\<not> is_blank (hd n)" "c_string n = n" "c_string v = v"
    and v: "10 \<notin> set v" "13 \<notin> set v" "v \<noteq> [] \<longrightarrow> \<not> is_blank (hd v)"
    using ok by (auto simp: header_ok_def c_string_def takeWhile_eq_all_conv)
  have sep: "parse_headers (length v + Suc m) (v @ 13 # s) (reading_sep n) prev hs
      = parse_headers (length v + Suc m) (v @ 13 # s) (reading_value n []) prev hs"
    using v(3) by (cases v) (auto simp: is_blank_def)
  have "parse_headers (length n + (2 + length v + Suc m)) (n @ [58, 32] @ v @ 13 # s) (reading_header []) prev hs
      = parse_headers (2 + length v + Suc m) ([58, 32] @ v @ 13 # s) (reading_header n) prev hs"
    using parse_name [of n "[]" "2 + length v + Suc m"] n by simp
  also have "\<dots> = parse_headers (length v + Suc m) (v @ 13 # s) (reading_sep n) prev hs"
    using n(1) by (simp add: is_blank_def)
  also have "\<dots> = parse_headers (Suc m) (13 # s) (reading_value n v) prev hs"
    unfolding sep using parse_value [OF v(1,2), of "Suc m" "13 # s" n "[]"] by simp
  also have "\<dots> = parse_headers m s reading_eol (Some n) (hdr_store hs n v)"
    using n by (simp add: is_eol_def http_hdr_set_value_no_nts_def hdr_store_def)
  finally show ?thesis by (simp only: add.assoc)
qed

lemma parse_lines:
  assumes "\<forall>h \<in> set hl. header_ok h" and "hl \<noteq> []"
  shows "parse_headers (length (concat (map header_line hl)) - 1) (concat (map header_line hl) @ rest) (reading_header []) prev hs
    = Inr (True, foldl (\<lambda>hs (n, v). hdr_store hs n v) hs hl)"
  using assms
proof (induction hl arbitrary: prev hs)
  case Nil
  then show ?case by simp
next
  case (Cons h hl)
  obtain n v where h: "h = (n, v)" by (cases h)
  have ok: "header_ok (n, v)" using Cons.prems(1) h by simp
  let ?t = "concat (map header_line hl)"
  have line: "header_line h @ ?t @ rest = n @ [58, 32] @ v @ 13 # (10 # ?t @ rest)"
    by (simp add: header_line_def h eol_def)
  have len: "length (header_line h) = length n + 2 + length v + 2"
    by (simp add: header_line_def h eol_def)
  show ?case
  proof (cases "hl = []")
    case True
    then have "length (concat (map header_line (h # hl))) - 1 = length n + 2 + length v + Suc 0"
      by (simp add: len)
    then show ?thesis
      using parse_line [OF ok, of 0 "10 # ?t @ rest" prev hs] line h True by (simp del: parse_headers.simps(2-))
  next
    case False
    then obtain h2 hl2 where hl: "hl = h2 # hl2" by (cases hl) auto
    have h2: "header_ok h2" using Cons.prems(1) hl by simp
    then obtain c w where w: "?t = c # w" "\<not> is_eol c"
      by (cases "fst h2") (auto simp: hl header_line_def header_ok_def is_eol_def)
    have len1: "length (concat (map header_line (h # hl))) - 1 = length n + 2 + length v + Suc (Suc (length ?t - 1))"
      using w(1) by (simp add: len)
    have whole: "concat (map header_line (h # hl)) @ rest = n @ [58, 32] @ v @ 13 # (10 # ?t @ rest)"
      using line by simp
    have "parse_headers (length (concat (map header_line (h # hl))) - 1) (concat (map header_line (h # hl)) @ rest)
        (reading_header []) prev hs = parse_headers (Suc (length ?t - 1)) (10 # ?t @ rest) reading_eol (Some n) (hdr_store hs n v)"
      unfolding len1 whole by (rule parse_line [OF ok])
    also have "\<dots> = parse_headers (length ?t - 1) (?t @ rest) reading_eol (Some n) (hdr_store hs n v)"
      by (simp add: is_eol_def)
    also have "\<dots> = parse_headers (length ?t - 1) (?t @ rest) (reading_header []) (Some n) (hdr_store hs n v)"
      using w by (cases "length ?t - 1") simp_all
    also have "\<dots> = Inr (True, foldl (\<lambda>hs (n, v). hdr_store hs n v) (hdr_store hs n v) hl)"
      using Cons.prems by (intro Cons.IH) (auto simp: False)
    finally show ?thesis by (simp add: h)
  qed
qed

text \<open>The end of the headers is found where it is.\<close>

lemma length_crlf2: "length crlf2 = 4"
  by (simp add: crlf2_def)

lemma patt_line:
  assumes "13 \<notin> set l"
  shows "http_trans_buf_has_patt crlf2 (l @ eol @ s)
    = (if take 2 s = eol then Some (length l) else map_option (\<lambda>k. length l + 2 + k) (http_trans_buf_has_patt crlf2 s))"
  using assms
proof (induction l)
  case Nil
  have four: "take 4 (13 # 10 # s) = crlf2 \<longleftrightarrow> take 2 s = eol"
    by (cases s; cases "tl s") (auto simp: crlf2_def eol_def)
  have ten: "http_trans_buf_has_patt crlf2 (10 # s) = map_option Suc (http_trans_buf_has_patt crlf2 s)"
    by (simp add: crlf2_def)
  have found: "http_trans_buf_has_patt crlf2 (13 # 10 # s) = (if take 4 (13 # 10 # s) = crlf2 then Some 0
      else map_option Suc (http_trans_buf_has_patt crlf2 (10 # s)))"
    by (simp only: http_trans_buf_has_patt.simps length_crlf2)
  have start: "[] @ eol @ s = 13 # 10 # s" by (simp add: eol_def)
  show ?case
    unfolding start found four ten by (simp add: option.map_comp comp_def)
next
  case (Cons c l)
  then show ?case by (auto simp: crlf2_def option.map_comp comp_def)
qed

lemma patt_lines:
  assumes "13 \<notin> set l" and "\<forall>m \<in> set ls. m \<noteq> [] \<and> 13 \<notin> set m"
  shows "http_trans_buf_has_patt crlf2 (l @ eol @ concat (map (\<lambda>m. m @ eol) ls) @ eol @ b)
    = Some (length l + length (concat (map (\<lambda>m. m @ eol) ls)))"
  using assms
proof (induction ls arbitrary: l)
  case Nil
  then show ?case using patt_line [of l "eol @ b"] by (simp add: eol_def)
next
  case (Cons m ls)
  have "take 2 (m @ eol @ s) \<noteq> eol" for s
    using Cons.prems(2) by (cases m) (auto simp: eol_def take_Cons')
  then show ?case
    using patt_line [OF Cons.prems(1), of "m @ eol @ concat (map (\<lambda>m. m @ eol) ls) @ eol @ b"] Cons.IH [of m] Cons.prems
    by (simp add: eol_def)
qed

lemma header_lines: "map header_line hl = map (\<lambda>m. m @ eol) (map (\<lambda>h. fst h @ [58, 32] @ snd h) hl)"
  by (simp add: header_line_def)

lemma digit_not_13: "unat (w :: u8) = 48 + d \<Longrightarrow> w \<noteq> 13"
  by auto

definition status_ok :: "nat \<Rightarrow> nat \<Rightarrow> nat \<Rightarrow> bytes \<Rightarrow> bool" where
  "status_ok a b d reason \<longleftrightarrow> a < 10 \<and> b < 10 \<and> d < 10 \<and> 13 \<notin> set reason"

lemma head_patt:
  assumes "status_ok x y z reason" and "\<forall>h \<in> set hl. header_ok h"
  shows "http_trans_buf_has_patt crlf2 (reply_head x y z reason hl @ b)
    = Some (13 + length reason + length (concat (map header_line hl)))"
proof -
  let ?ls = "map (\<lambda>h. fst h @ [58, 32] @ snd h) hl"
  let ?l = "chars ''HTTP/1.1 '' @ map (\<lambda>d. of_nat (48 + d)) [x, y, z] @ [32] @ reason"
  have digit: "d < 10 \<Longrightarrow> (of_nat (48 + d) :: u8) \<noteq> 13" for d
    by (metis digit_unat digit_not_13)
  have l: "13 \<notin> set ?l"
    using assms(1) digit [of x] digit [of y] digit [of z] by (auto simp: status_ok_def chars_def)
  have "\<forall>m \<in> set ?ls. m \<noteq> [] \<and> 13 \<notin> set m" using assms(2) by (auto simp: header_ok_def)
  from patt_lines [OF l this, of b] show ?thesis
    unfolding reply_head_def status_text_def header_lines by (simp add: chars_def)
qed

subsection \<open>Status and headers\<close>

lemma response_line_head:
  assumes "status_ok x y z reason"
  shows "response_line (reply_head x y z reason hl @ b) = Some ((1, 1), int (100 * x + 10 * y + z), reason)"
proof -
  define s where "s = concat (map header_line hl) @ eol @ b"
  have "reply_head x y z reason hl @ b
      = [72, 84, 84, 80, 47, 49, 46, 49, 32, of_nat (48 + x), of_nat (48 + y), of_nat (48 + z), 32] @ reason @ 13 # 10 # s"
    by (simp add: reply_head_def status_text_def s_def chars_def eol_def del: of_nat_add)
  moreover have "takeWhile (\<lambda>c. c \<noteq> 13) (reason @ 13 # 10 # s) = reason"
    using assms by (subst takeWhile_append2) (auto simp: status_ok_def)
  ultimately show ?thesis
    using assms isdigit_byte [of x] isdigit_byte [of y] isdigit_byte [of z]
      digit_value_byte [of x] digit_value_byte [of y] digit_value_byte [of z]
    by (simp add: response_line_def chars_def status_ok_def isdigit_def [of 49] digit_value_def [of 49] del: of_nat_add)
qed

lemma response_headers_head:
  assumes "status_ok x y z reason" and "\<forall>h \<in> set hl. header_ok h"
  shows "response_headers (reply_head x y z reason hl @ b) (13 + length reason)
      (13 + length reason + length (concat (map header_line hl))) hs
    = Inr (True, foldl (\<lambda>hs (n, v). hdr_store hs n v) hs hl)"
proof (cases hl)
  case Nil
  then show ?thesis by (simp add: response_headers_def)
next
  case (Cons h hl')
  let ?t = "concat (map header_line hl)" and ?b = "reply_head x y z reason hl @ b"
  obtain c w where w: "?t = c # w" "\<not> is_eol c"
    using assms(2) Cons by (cases "fst h") (auto simp: header_line_def header_ok_def is_eol_def)
  define p where "p = chars ''HTTP/1.1 '' @ map (\<lambda>d. of_nat (48 + d)) [x, y, z] @ [32] @ reason"
  have "?b = p @ eol @ ?t @ eol @ b" "length p = 13 + length reason"
    by (simp_all add: p_def reply_head_def status_text_def chars_def)
  then have "drop (13 + length reason) ?b = eol @ ?t @ eol @ b" by simp
  then have s: "dropWhile is_eol (drop (13 + length reason) ?b) = ?t @ eol @ b"
    using w by (simp add: eol_def is_eol_def)
  have len: "length ?b - length (?t @ eol @ b) = 15 + length reason"
    by (simp add: reply_head_def status_text_def chars_def eol_def)
  have "13 + length reason + length ?t + 1 - (15 + length reason) = length ?t - 1" by simp
  moreover have "15 + length reason \<le> 13 + length reason + length ?t + 1" using w(1) by simp
  ultimately show ?thesis
    unfolding response_headers_def Let_def s len
    using w(1) parse_lines [OF assms(2), of "eol @ b" None hs] Cons by simp
qed

lemma split_prefix:
  assumes "x @ y = p @ s" and "length p \<le> length x"
  shows "\<exists>b. x = p @ b \<and> s = b @ y"
proof -
  have "take (length p) (x @ y) = p" "drop (length p) (x @ y) = s" by (simp_all add: assms(1))
  then have "take (length p) x = p" "drop (length p) x @ y = s" using assms(2) by simp_all
  then show ?thesis by (metis append_take_drop_id)
qed

lemma read_headers_roundtrip:
  assumes "status_ok x y z reason" and "100 * x + 10 * y + z \<noteq> 100" and "\<forall>h \<in> set hl. header_ok h"
    and "conn_ok c" and "pending c = reply_head x y z reason hl @ b"
    and "length (ioBuf c) < length (reply_head x y z reason hl)"
  shows "\<exists>c'. http_resp_read_headers r c = Inr (HTTP_TRANS_DONE,
      r\<lparr>respVer := (1, 1), statusCode := int (100 * x + 10 * y + z), reasonPhrase := Some reason,
        respHeaders := foldl (\<lambda>hs (n, v). hdr_store hs n v) (respHeaders r) hl\<rparr>, c')
    \<and> conn_ok c' \<and> pending c' = b \<and> same_but_io c c' \<and> ioLeft c' = 0"
  using assms(4-6)
proof (induction r c rule: http_resp_read_headers.induct)
  case (1 r c)
  let ?h = "reply_head x y z reason hl" and ?k = "13 + length reason + length (concat (map header_line hl))"
  have len: "length ?h = ?k + 4"
    by (simp add: reply_head_def status_text_def chars_def eol_def)
  have patt: "http_trans_buf_has_patt crlf2 (?h @ t) = Some ?k" for t
    by (rule head_patt [OF assms(1,3)])
  have "length (ioBuf c) < length (pending c)" using "1.prems"(2,3) by simp
  then have "stream (incoming c) \<noteq> []" by (auto simp: pending_def)
  then obtain rv c1 d where r: "http_trans_read_into_buf c = (rv, c1)" "conn_ok c1" "pending c1 = pending c"
      "same_but_io c c1" "ioBuf c1 = ioBuf c @ d" "rv \<in> {HTTP_TRANS_NOT_DONE, HTTP_TRANS_DONE}" "lastRead c1 \<noteq> 0"
    using read_pieces [OF "1.prems"(1)] by blast
  have whole: "ioBuf c1 @ stream (incoming c1) = ?h @ b" using r(3) "1.prems"(2) by (simp add: pending_def)
  have goes: "rv \<noteq> HTTP_TRANS_ERR" "\<not> (rv = HTTP_TRANS_DONE \<and> lastRead c1 = 0)" using r(6,7) by auto
  show ?case
  proof (cases "length (ioBuf c1) < length ?h")
    case True
    then have none: "http_trans_buf_has_patt crlf2 (ioBuf c1) = None"
      using has_patt_longer [of crlf2 "ioBuf c1" "stream (incoming c1)"] patt [of b] whole len
      by (simp add: crlf2_def)
    have "http_resp_read_headers r c = http_resp_read_headers r c1"
      using none goes r(1) by (auto simp: http_resp_read_headers.simps [of r c])
    then show ?thesis
      using "1.IH"(1) [OF r(1) [symmetric] goes(1) none goes(2) r(2)] True r(3) "1.prems"(2) same_but_io_trans [OF r(4)]
      by fastforce
  next
    case False
    obtain b' where b': "ioBuf c1 = ?h @ b'" "b = b' @ stream (incoming c1)"
      using split_prefix [OF whole] False by auto
    have found: "http_trans_buf_has_patt crlf2 (ioBuf c1) = Some ?k" unfolding b'(1) by (rule patt)
    have clip: "http_trans_buf_clip c1 (int ?k + 4) = Inr (c1\<lparr>ioBuf := b', ioDone := 0, ioLeft := 0\<rparr>)"
    proof -
      have "nat (int ?k + 4) = length ?h" "\<not> int (length (ioBuf c1)) < int ?k + 4"
        using len by (simp_all add: b'(1))
      then show ?thesis by (simp add: http_trans_buf_clip_def b'(1))
    qed
    have line: "response_line (ioBuf c1) = Some ((1, 1), int (100 * x + 10 * y + z), reason)"
      unfolding b'(1) by (rule response_line_head [OF assms(1)])
    have code: "int (100 * x + 10 * y + z) \<noteq> 100" using assms(2) by linarith
    have heads: "response_headers (ioBuf c1) (13 + length reason) ?k (respHeaders r)
        = Inr (True, foldl (\<lambda>hs (n, v). hdr_store hs n v) (respHeaders r) hl)"
      unfolding b'(1) by (rule response_headers_head [OF assms(1,3)])
    show ?thesis
      using r(2,4) b'(2) code goes(1)
      by (simp add: http_resp_read_headers.simps [of r c] r(1) found line heads clip conn_ok_def pending_def same_but_io_def
          del: of_nat_add of_nat_mult)
  qed
qed

subsection \<open>The body by its length\<close>

definition body :: "HttpResp \<Rightarrow> bytes" where
  "body r = (case respBody r of None \<Rightarrow> [] | Some b \<Rightarrow> b)"

lemma read_body_length:
  assumes "conn_ok c" and "pending c = d" and "contentLength r = int (length d)"
    and "flushedLength r = 0" and "respBody r = None"
  shows "\<exists>c'. read_body_content_length r c
      = (HTTP_TRANS_DONE, r\<lparr>respBody := if d = [] then None else Some d\<rparr>, c') \<and> sent c' = sent c"
proof (cases "d = []")
  case True
  then show ?thesis using assms by (simp add: read_body_content_length_def)
next
  case False
  let ?left = "int (length d) - int (length (ioBuf c))"
  let ?c = "c\<lparr>ioLeft := ?left, ioDone := 0\<rparr>"
  have io: "ioBuf c @ stream (incoming c) = d" using assms(2) by (simp add: pending_def)
  then have left: "nat ?left = length (stream (incoming c))" by auto
  have flush: "flush_response_body r c' = (r\<lparr>respBody := Some d\<rparr>, http_trans_buf_reset c')" if "ioBuf c' = d" for c'
    using that assms(4,5) by (cases r) (simp add: flush_response_body_def)
  have size: "contentLength r \<noteq> 0" "contentLength r - int (length (ioBuf c)) - flushedLength r - bodyLen r = ?left"
    using False assms(3-5) by (simp_all add: bodyLen_def)
  note whole = read_body_content_length_def [of r c, unfolded Let_def size(2) if_not_P [OF size(1)]]
  show ?thesis
  proof (cases "0 < ?left")
    case True
    have "conn_ok ?c" using assms(1) True by (simp add: conn_ok_def)
    then obtain c' where c': "read_loop ?c = (HTTP_TRANS_DONE, c')" "pending c' = pending ?c" "lastRead c' \<noteq> 0"
        "ioBuf c' = ioBuf c @ stream (incoming c)" "sent c' = sent c"
      using read_loop_pieces [of ?c] True left by (auto simp: same_but_io_def)
    have "stream (incoming c') = []" using c'(2,4) io by (simp add: pending_def)
    then show ?thesis
      using c'(1,3,4,5) io flush [of c'] True False
      by (simp add: whole pending_def http_trans_buf_reset_def)
  next
    case full: False
    then have "stream (incoming c) = []" using left by simp
    then show ?thesis
      using io flush [of ?c] full False
      by (simp add: whole pending_def http_trans_buf_reset_def)
  qed
qed

subsection \<open>The body in chunks\<close>

definition hex_char :: "nat \<Rightarrow> u8" where
  "hex_char d = (if d < 10 then of_nat (48 + d) else of_nat (87 + d))"

fun hex_text :: "nat \<Rightarrow> bytes" where
  "hex_text n = (if n < 16 then [hex_char n] else hex_text (n div 16) @ [hex_char (n mod 16)])"

declare hex_text.simps [simp del]

definition chunk :: "bytes \<Rightarrow> bytes" where
  "chunk d = hex_text (length d) @ eol @ d @ eol"

definition chunked_text :: "bytes list \<Rightarrow> bytes" where
  "chunked_text ds = concat (map chunk ds) @ [48] @ eol @ eol"

lemma hex_chars: "list_all (\<lambda>d. is_hex (hex_char d) \<and> hex_digit (hex_char d) = int d) [0..<16]"
  by code_simp

lemma hex_char: "d < 16 \<Longrightarrow> is_hex (hex_char d) \<and> hex_digit (hex_char d) = int d"
  using hex_chars by (simp add: list_all_iff)

lemma hex_sum_snoc: "hex_sum (s @ [c]) = 16 * hex_sum s + hex_digit c"
  by (induction s) (simp_all add: algebra_simps power_add)

lemma hex_text_sum: "hex_sum (hex_text n) = int n"
proof (induction n rule: hex_text.induct)
  case (1 n)
  show ?case
  proof (cases "n < 16")
    case True
    then show ?thesis using hex_char [of n] by (simp add: hex_text.simps [of n])
  next
    case False
    have "hex_sum (hex_text n) = 16 * int (n div 16) + int (n mod 16)"
      using 1 False hex_char [of "n mod 16"] by (simp add: hex_text.simps [of n] hex_sum_snoc)
    also have "\<dots> = int n" by (simp add: zdiv_int zmod_int)
    finally show ?thesis .
  qed
qed

lemma hex_text_hex: "list_all is_hex (hex_text n)"
  by (induction n rule: hex_text.induct) (simp add: hex_text.simps hex_char)

lemma hex_text_nonempty: "hex_text n \<noteq> []"
  by (simp add: hex_text.simps [of n])

lemma hex_text_length: "n < 16 ^ Suc k \<Longrightarrow> length (hex_text n) \<le> Suc k"
proof (induction k arbitrary: n)
  case 0
  then show ?case by (simp add: hex_text.simps [of n])
next
  case (Suc k)
  then have "n div 16 < 16 ^ Suc k" by (simp add: div_less_iff_less_mult)
  then show ?case using Suc.IH [of "n div 16"] by (simp add: hex_text.simps [of n])
qed

lemma patt_eol: "13 \<notin> set l \<Longrightarrow> http_trans_buf_has_patt [13, 10] (l @ eol @ s) = Some (length l)"
  by (induction l) (auto simp: eol_def)

lemma find_eol_pieces:
  assumes "conn_ok c" and "pending c = l @ eol @ s" and "13 \<notin> set l"
  shows "\<exists>c'. find_eol c = (Some (length l), c') \<and> conn_ok c' \<and> pending c' = pending c \<and> same_but_io c c'
    \<and> length l + 2 \<le> length (ioBuf c')"
  using assms(1,2)
proof (induction c rule: find_eol.induct)
  case (1 c)
  note patt = patt_eol [OF assms(3), of s]
  show ?case
  proof (cases "http_trans_buf_has_patt [13, 10] (ioBuf c)")
    case (Some j)
    then have "j = length l"
      using has_patt_append [OF Some, of "stream (incoming c)"] patt 1(3) by (simp add: pending_def)
    then show ?thesis using Some has_patt_Some [OF Some] 1(2) by (simp add: find_eol.simps [of c])
  next
    case None
    have "length (ioBuf c) < length l + 2"
      using has_patt_prefix [of "[13, 10]" "ioBuf c" "stream (incoming c)" "length l"] None patt 1(3)
      by (fastforce simp: pending_def not_le)
    moreover have "length l + 2 \<le> length (pending c)" by (simp add: 1(3) eol_def)
    ultimately have "stream (incoming c) \<noteq> []" by (auto simp: pending_def)
    then obtain rv c1 d where r: "http_trans_read_into_buf c = (rv, c1)" "conn_ok c1" "pending c1 = pending c"
        "same_but_io c c1" "rv \<in> {HTTP_TRANS_NOT_DONE, HTTP_TRANS_DONE}" "lastRead c1 \<noteq> 0"
      using read_pieces [OF 1(2)] by blast
    have goes: "\<not> (rv = HTTP_TRANS_ERR \<or> rv = HTTP_TRANS_DONE \<and> lastRead c1 = 0)" using r(5,6) by auto
    have "find_eol c = find_eol c1" using None r(1) goes by (auto simp: find_eol.simps [of c])
    then show ?thesis
      using "1.IH" [OF None r(1) [symmetric] goes r(2)] r(3) 1(3) same_but_io_trans [OF r(4)] by fastforce
  qed
qed

lemma hex_text_plain: "13 \<notin> set (hex_text n)"
  using hex_text_hex [of n] by (auto simp: list_all_iff is_hex_def to_lower_def)

lemma chunk_header_pieces:
  assumes "conn_ok c" and "pending c = hex_text n @ eol @ s" and "n < 2 ^ 31"
  shows "\<exists>c'. chunk_header c = Inr (HTTP_TRANS_DONE, c') \<and> conn_ok c' \<and> pending c' = s \<and> chunkLen c' = int n
    \<and> sent c' = sent c"
proof -
  obtain c1 where c1: "find_eol c = (Some (length (hex_text n)), c1)" "conn_ok c1" "pending c1 = hex_text n @ eol @ s"
      "length (hex_text n) + 2 \<le> length (ioBuf c1)" "sent c1 = sent c"
    using find_eol_pieces [OF assms(1,2) hex_text_plain] assms(2) by (auto simp: same_but_io_def)
  obtain b where b: "ioBuf c1 = hex_text n @ eol @ b" "s = b @ stream (incoming c1)"
    using split_prefix [of "ioBuf c1" "stream (incoming c1)" "hex_text n @ eol" s] c1(3,4)
    by (auto simp: pending_def eol_def)
  have digits: "takeWhile is_hex (hex_text n) = hex_text n"
    using hex_text_hex by (simp add: takeWhile_eq_all_conv list_all_iff)
  have "length (hex_text n) \<le> 8"
    using hex_text_length [of n 7] assms(3) by simp
  then have size: "chunk_size (hex_text n) = Inr (int n)"
    using assms(3) by (simp add: chunk_size_def hex_text_sum c_int_small)
  have len: "nat (int (length (hex_text n)) + 2) = length (hex_text n @ eol)" by (simp add: eol_def)
  have "http_trans_buf_clip (c1\<lparr>chunkLen := int n\<rparr>) (int (length (hex_text n)) + 2)
      = Inr (c1\<lparr>chunkLen := int n, ioBuf := b, ioDone := 0, ioLeft := 0\<rparr>)"
    unfolding http_trans_buf_clip_def len using b(1) by (simp add: eol_def)
  then show ?thesis
    using c1(1,2,5) b hex_text_nonempty [of n]
    by (simp add: chunk_header_def conn_ok_def pending_def digits size Let_def)
qed

lemma chunk_data_pieces:
  assumes "conn_ok c" and "pending c = d @ eol @ s" and "chunkLen c = int (length d)" and "d \<noteq> []"
  shows "\<exists>c'. chunk_data c = (HTTP_TRANS_DONE, c') \<and> conn_ok c' \<and> pending c' = pending c
    \<and> chunkLen c' = chunkLen c \<and> length d + 2 \<le> length (ioBuf c') \<and> sent c' = sent c"
proof (cases "length d + 2 \<le> length (ioBuf c)")
  case True
  then show ?thesis using assms by (simp add: chunk_data_def)
next
  case False
  let ?left = "chunkLen c - int (length (ioBuf c)) + 2"
  let ?c = "c\<lparr>ioLeft := ?left, ioDone := 0\<rparr>"
  have left: "0 < ?left" "nat ?left = length d + 2 - length (ioBuf c)" using False assms(3) by simp_all
  have "length d + 2 \<le> length (pending c)" by (simp add: assms(2) eol_def)
  then have more: "nat ?left \<le> length (stream (incoming c))" by (simp add: left(2) pending_def)
  have "conn_ok ?c" using assms(1) left(1) by (simp add: conn_ok_def)
  then obtain c' where c': "read_loop ?c = (HTTP_TRANS_DONE, c')" "conn_ok c'" "pending c' = pending c"
      "same_but_io ?c c'" "lastRead c' \<noteq> 0" "length (ioBuf c') = length (ioBuf c) + nat ?left"
    using read_loop_pieces [of ?c] left(1) more by (auto simp: pending_def)
  have "chunkLen c' + 2 = int (length (ioBuf c'))" "chunkLen c' = chunkLen c" "sent c' = sent c"
    using c'(4,6) left False assms(3) by (simp_all add: same_but_io_def)
  then show ?thesis
    using c' left(1) assms(3,4) by (simp add: chunk_data_def)
qed

definition chunk_ok :: "bytes \<Rightarrow> bool" where
  "chunk_ok d \<longleftrightarrow> d \<noteq> [] \<and> length d < 2 ^ 31"

lemma read_chunk_pieces:
  assumes "conn_ok c" and "chunkLen c = 0" and "pending c = hex_text (length d) @ eol @ (if d = [] then s else d @ eol @ s)"
    and "length d < 2 ^ 31"
  shows "\<exists>c'. read_chunk c = Inr (HTTP_TRANS_DONE, c') \<and> conn_ok c' \<and> chunkLen c' = int (length d)
    \<and> pending c' = (if d = [] then s else d @ eol @ s) \<and> (d \<noteq> [] \<longrightarrow> length d + 2 \<le> length (ioBuf c'))
    \<and> sent c' = sent c"
proof -
  obtain c1 where c1: "chunk_header c = Inr (HTTP_TRANS_DONE, c1)" "conn_ok c1"
      "pending c1 = (if d = [] then s else d @ eol @ s)" "chunkLen c1 = int (length d)" "sent c1 = sent c"
    using chunk_header_pieces [OF assms(1,3,4)] by auto
  show ?thesis
  proof (cases "d = []")
    case True
    then have "chunk_data c1 = (HTTP_TRANS_DONE, c1)" using c1(4) by (simp add: chunk_data_def)
    then show ?thesis using c1 assms(2) True by (simp add: read_chunk_def)
  next
    case False
    then show ?thesis
      using chunk_data_pieces [of c1 d s] c1 assms(2) by (auto simp: read_chunk_def)
  qed
qed

lemma last_chunk_pieces:
  assumes "conn_ok c" and "2 \<le> length (pending c)"
  shows "\<exists>c'. last_chunk c = (HTTP_TRANS_DONE, c') \<and> conn_ok c' \<and> pending c' = pending c \<and> sent c' = sent c"
proof (cases "length (ioBuf c) < 2")
  case True
  let ?c = "c\<lparr>ioLeft := 2 - int (length (ioBuf c)), ioDone := 0\<rparr>"
  have "conn_ok ?c" using assms(1) True by (simp add: conn_ok_def)
  moreover have "nat (ioLeft ?c) \<le> length (stream (incoming ?c))" using assms(2) by (simp add: pending_def)
  ultimately show ?thesis
    using read_loop_pieces [of ?c] True by (auto simp: last_chunk_def pending_def same_but_io_def)
next
  case False
  then show ?thesis using assms by (simp add: last_chunk_def)
qed

lemma hex_text_0: "hex_text 0 = [48]"
  by (simp add: hex_text.simps [of 0] hex_char_def)

lemma chunked_pieces:
  assumes "\<forall>d \<in> set ds. chunk_ok d" and "conn_ok c" and "chunkLen c = 0" and "pending c = chunked_text ds @ s"
  shows "\<exists>c'. read_body_chunked r c = Inr (HTTP_TRANS_DONE,
      (if ds = [] then r else r\<lparr>respBody := Some (body r @ concat ds)\<rparr>), c')
    \<and> conn_ok c' \<and> pending c' = eol @ s \<and> sent c' = sent c"
  using assms
proof (induction ds arbitrary: r c)
  case Nil
  have "pending c = hex_text (length ([] :: bytes)) @ eol @ (eol @ s)"
    using Nil.prems(4) by (simp add: chunked_text_def hex_text_0)
  then obtain c1 where c1: "read_chunk c = Inr (HTTP_TRANS_DONE, c1)" "conn_ok c1" "chunkLen c1 = 0" "pending c1 = eol @ s" "sent c1 = sent c"
    using read_chunk_pieces [OF Nil.prems(2,3), of "[]" "eol @ s"] by auto
  obtain c2 where "last_chunk c1 = (HTTP_TRANS_DONE, c2)" "conn_ok c2" "pending c2 = eol @ s" "sent c2 = sent c1"
    using last_chunk_pieces [OF c1(2)] c1(4) by (auto simp: eol_def)
  then show ?case
    using c1 by (simp add: read_body_chunked.simps [of r c] chunk_append_def)
next
  case (Cons d ds)
  have d: "d \<noteq> []" "length d < 2 ^ 31" using Cons.prems(1) by (auto simp: chunk_ok_def)
  have "pending c = hex_text (length d) @ eol @ (if d = [] then chunked_text ds @ s else d @ eol @ chunked_text ds @ s)"
    using Cons.prems(4) d(1) by (simp add: chunked_text_def chunk_def)
  then obtain c1 where c1: "read_chunk c = Inr (HTTP_TRANS_DONE, c1)" "conn_ok c1" "chunkLen c1 = int (length d)"
      "pending c1 = d @ eol @ chunked_text ds @ s" "length d + 2 \<le> length (ioBuf c1)" "sent c1 = sent c"
    using read_chunk_pieces [OF Cons.prems(2,3) _ d(2)] d(1) by force
  obtain b where b: "ioBuf c1 = d @ eol @ b" "chunked_text ds @ s = b @ stream (incoming c1)"
    using split_prefix [of "ioBuf c1" "stream (incoming c1)" "d @ eol" "chunked_text ds @ s"] c1(4,5)
    by (auto simp: pending_def eol_def)
  have len: "nat (int (length d) + 2) = length (d @ eol)" by (simp add: eol_def)
  let ?c = "c1\<lparr>ioBuf := b, ioDone := 0, ioLeft := 0\<rparr>"
  have clip: "http_trans_buf_clip c1 (int (length d) + 2) = Inr ?c"
    unfolding http_trans_buf_clip_def len using b(1) by (simp add: eol_def)
  let ?r = "r\<lparr>respBody := Some (body r @ d)\<rparr>"
  have app: "chunk_append r c1 = ?r"
    using c1(3) b(1) d(1) by (simp add: chunk_append_def body_def)
  have "\<exists>c'. read_body_chunked ?r (?c\<lparr>chunkLen := 0\<rparr>) = Inr (HTTP_TRANS_DONE,
      (if ds = [] then ?r else ?r\<lparr>respBody := Some (body ?r @ concat ds)\<rparr>), c')
    \<and> conn_ok c' \<and> pending c' = eol @ s \<and> sent c' = sent (?c\<lparr>chunkLen := 0\<rparr>)"
    using Cons.prems(1) c1(2) b(2) by (intro Cons.IH) (auto simp: conn_ok_def pending_def)
  then show ?case
    using c1(1,3,6) app clip d(1) by (auto simp: read_body_chunked.simps [of r c] body_def Let_def)
qed

subsection \<open>A whole response\<close>

text \<open>A body goes with its length, or in chunks.\<close>

datatype transfer = By_length bytes | By_chunks "bytes list"

fun content :: "transfer \<Rightarrow> bytes" where
  "content (By_length d) = d"
| "content (By_chunks ds) = concat ds"

fun framing :: "transfer \<Rightarrow> bytes \<times> bytes" where
  "framing (By_length d) = (chars ''Content-Length'', digits (length d))"
| "framing (By_chunks ds) = (chars ''Transfer-Encoding'', chars ''chunked'')"

fun body_text :: "transfer \<Rightarrow> bytes" where
  "body_text (By_length d) = d"
| "body_text (By_chunks ds) = chunked_text ds"

fun transfer_ok :: "transfer \<Rightarrow> bool" where
  "transfer_ok (By_length d) \<longleftrightarrow> length d < 2 ^ 31"
| "transfer_ok (By_chunks ds) \<longleftrightarrow> list_all chunk_ok ds"

text \<open>The other headers say nothing of the body, and there is room for all of them.\<close>

definition other_headers :: "(bytes \<times> bytes) list \<Rightarrow> bool" where
  "other_headers hl \<longleftrightarrow> list_all header_ok hl \<and> length hl < 256
     \<and> list_all (\<lambda>h. \<not> same_name (fst h) (chars ''Content-Length'') \<and> \<not> same_name (fst h) (chars ''Transfer-Encoding'')) hl"

lemma framing_header_ok: "header_ok (framing t)"
proof (cases t)
  case (By_length d)
  have "list_all isdigit (digits (length d))" "digits (length d) \<noteq> []"
    by (simp_all add: digits_isdigit digits_some)
  then have "hd (digits (length d)) \<noteq> 32 \<and> hd (digits (length d)) \<noteq> 9" "{0, 10, 13} \<inter> set (digits (length d)) = {}"
    by (cases "digits (length d)"; auto simp: list_all_iff isdigit_def)+
  then show ?thesis by (simp add: By_length header_ok_def is_blank_def chars_def)
next
  case (By_chunks ds)
  then show ?thesis by (simp add: header_ok_def is_blank_def chars_def)
qed

lemma not_same_names:
  "\<not> same_name (chars ''Transfer-Encoding'') (chars ''Content-Length'')"
  by (simp add: same_name_def chars_def)

lemma find_none: "list_all (\<lambda>h. \<not> same_name (fst h) m) hl \<Longrightarrow> find (\<lambda>(n, v). same_name n m) (rev hl) = None"
  by (auto simp: find_None_iff list_all_iff)

lemma framing_lookup:
  fixes t assumes "other_headers hl"
  defines "hs \<equiv> foldl (\<lambda>hs (n, v). hdr_store hs n v) http_hdr_list_new (hl @ [framing t])"
  shows "http_hdr_get_value hs (chars ''Content-Length'') = (case t of By_length d \<Rightarrow> Some (digits (length d)) | By_chunks ds \<Rightarrow> None)"
    and "t = By_chunks ds \<Longrightarrow> http_hdr_get_value hs (chars ''Transfer-Encoding'') = Some (chars ''chunked'')"
proof -
  have room: "length (hl @ [framing t]) \<le> free_places http_hdr_list_new"
    using assms(1) by (simp add: other_headers_def)
  have other: "list_all (\<lambda>h. \<not> same_name (fst h) (chars ''Content-Length'')) hl"
    using assms(1) by (auto simp: other_headers_def list_all_iff)
  show "http_hdr_get_value hs (chars ''Content-Length'') = (case t of By_length d \<Rightarrow> Some (digits (length d)) | By_chunks ds \<Rightarrow> None)"
    unfolding hs_def hdrs.lookup_stores [OF room]
    using find_none [OF other] not_same_names by (cases t) auto
  show "http_hdr_get_value hs (chars ''Transfer-Encoding'') = Some (chars ''chunked'')" if "t = By_chunks ds"
    unfolding hs_def hdrs.lookup_stores [OF room] using that by simp
qed

lemma read_body_framed:
  assumes "other_headers hl" and "transfer_ok t" and "conn_ok c" and "chunkLen c = 0" and "pending c = body_text t"
    and "respHeaders r = foldl (\<lambda>hs (n, v). hdr_store hs n v) http_hdr_list_new (hl @ [framing t])"
    and "flushedLength r = 0" and "respBody r = None"
  shows "\<exists>r' c'. http_resp_read_body r False c = Inr (HTTP_TRANS_DONE, r', c') \<and> body r' = content t
    \<and> statusCode r' = statusCode r \<and> reasonPhrase r' = reasonPhrase r \<and> respHeaders r' = respHeaders r
    \<and> sent c' = sent c"
proof (cases t)
  case (By_length d)
  let ?r = "r\<lparr>contentLength := int (length d)\<rparr>"
  obtain c' where c': "read_body_content_length ?r c
      = (HTTP_TRANS_DONE, ?r\<lparr>respBody := if d = [] then None else Some d\<rparr>, c')" "sent c' = sent c"
    using read_body_length [of c d ?r] assms(3,5,7,8) By_length by auto
  have len: "http_hdr_get_value (respHeaders r) (chars ''Content-Length'') = Some (digits (length d))"
    unfolding assms(6) framing_lookup(1) [OF assms(1)] by (simp add: By_length)
  have "string_is_number (digits (length d))" "atoi_digits (digits (length d)) = int (length d)"
    using assms(2) By_length by (simp_all add: string_is_number_def digits_some digits_isdigit atoi_digits_small)
  then show ?thesis
    using len c' By_length
    by (simp add: http_resp_read_body_def Let_def body_def http_trans_conn_close_def split: option.split)
next
  case (By_chunks ds)
  have none: "http_hdr_get_value (respHeaders r) (chars ''Content-Length'') = None"
    unfolding assms(6) framing_lookup(1) [OF assms(1)] by (simp add: By_chunks)
  have enc: "http_hdr_get_value (respHeaders r) (chars ''Transfer-Encoding'') = Some (chars ''chunked'')"
    unfolding assms(6) by (rule framing_lookup(2) [OF assms(1) By_chunks])
  obtain c' where c': "read_body_chunked r c = Inr (HTTP_TRANS_DONE,
      (if ds = [] then r else r\<lparr>respBody := Some (body r @ concat ds)\<rparr>), c')" "sent c' = sent c"
    using chunked_pieces [of ds c "[]" r] assms(2-5) By_chunks by (auto simp: list_all_iff)
  then show ?thesis
    using none enc By_chunks assms(8) c'(2)
    by (simp add: http_resp_read_body_def Let_def body_def http_trans_conn_close_def split: option.split)
qed

subsection \<open>Responses the reader gets wrong\<close>

text \<open>A line that continues the header before replaces its value.\<close>

lemma folded_line_replaces:
  "parse_headers 9 (chars ''A:x'' @ [13, 10] @ chars '' y'' @ [13, 10]) (reading_header []) None [None] =
     Inr (True, [Some (chars ''A'', chars ''y'')])"
  by code_simp

text \<open>
  After carriage returns at the end of the reason phrase the end of the headers is passed before it is
  compared with, and the machine runs off the buffer.
\<close>

lemma end_of_headers_missed:
  "response_headers (chars ''HTTP/1.1 200 '' @ [13, 13, 10, 13, 10]) 13 14 [None] = Inl Out_of_bounds"
  by code_simp

lemma long_chunk_size_shifts: "8 < length s \<Longrightarrow> chunk_size s = Inl Bad_shift"
  by (simp add: chunk_size_def)

lemma big_chunk_size_is_negative: "chunk_size (chars ''80000000'') = Inr (- (2 ^ 31))"
  by code_simp

text \<open>What follows a body of a given length in the buffer is taken for part of it.\<close>

lemma excess_joins_body:
  assumes "0 < contentLength r" and "contentLength r \<le> int (length (ioBuf c))" and "flushedLength r = 0" and "respBody r = None"
  shows "\<exists>c'. read_body_content_length r c = (HTTP_TRANS_DONE, r\<lparr>respBody := Some (ioBuf c)\<rparr>, c')"
  using assms by (cases r) (simp add: read_body_content_length_def flush_response_body_def bodyLen_def Let_def)

end
