(* ===== verification/HttpExchange.thy ===== *)
theory HttpExchange
  imports Ghttp ResponseRoundtrip HttpTools
begin

section \<open>A request and its response\<close>

text \<open>
  The parts of the HTTP client together: what \<open>linkSimpleHttpRequest\<close> (httptools.c) asks for goes out as
  the text of a request, and the answer of the server comes back, in whatever pieces the network takes and
  brings them.
\<close>

subsection \<open>Processing\<close>

lemma process_exchange:
  assumes start: "gProc g = ghttp_proc_none" "\<not> gConnected g" "gResp g = http_resp_new"
    and connect: "http_trans_connect a items (gConn g) = (0, c, items')"
    and req: "rqResource (gReq g) = Some res" "proxyHost c = None" "pieces_ok (body_pieces (gReq g))"
      "rqType (gReq g) \<noteq> http_req_type_head"
    and conn: "ioBuf c = []" "ioLeft c = 0" "errCode c \<noteq> EAGAIN" "chunkLen c = 0" "0 < ioChunk c"
    and net: "accepts (length (request_text (gReq g) res)) c" "pieces (incoming c)"
      "stream (incoming c) = reply_head x y z reason (hl @ [framing t]) @ body_text t"
    and resp: "status_ok x y z reason" "100 * x + 10 * y + z \<noteq> 100" "other_headers hl" "transfer_ok t"
  shows "\<exists>g'. ghttp_process a items g = Inr (ghttp_done, g', items')
    \<and> sent (gConn g') = sent c @ request_text (gReq g) res
    \<and> ghttp_status_code g' = int (100 * x + 10 * y + z) \<and> ghttp_reason_phrase g' = Some reason
    \<and> respHeaders (gResp g') = foldl (\<lambda>hs (n, v). hdr_store hs n v) http_hdr_list_new (hl @ [framing t])
    \<and> gProc g' = ghttp_proc_none \<and> body (gResp g') = content t"
proof -
  obtain c1 where c1: "http_req_send (gReq g) c = Inr (HTTP_TRANS_DONE, c1)"
      "sent c1 = sent c @ request_text (gReq g) res" "same_but_out c c1" "ioBuf c1 = []" "ioLeft c1 = 0"
    using request_text_sent [OF req(1-3) conn(1-3) net(1)] by blast
  have in1: "conn_ok c1" "chunkLen c1 = 0"
    "pending c1 = reply_head x y z reason (hl @ [framing t]) @ body_text t"
    using c1(3-5) conn net(2,3) by (simp_all add: same_but_out_def conn_ok_def pending_def)
  have hl: "\<forall>h \<in> set (hl @ [framing t]). header_ok h"
    using resp(3) framing_header_ok by (auto simp: other_headers_def list_all_iff)
  have "length (ioBuf c1) < length (reply_head x y z reason (hl @ [framing t]))"
    by (simp add: c1(4) reply_head_def status_text_def eol_def)
  then obtain c2 where c2: "http_resp_read_headers http_resp_new c1 = Inr (HTTP_TRANS_DONE,
      http_resp_new\<lparr>respVer := (1, 1), statusCode := int (100 * x + 10 * y + z), reasonPhrase := Some reason,
        respHeaders := foldl (\<lambda>hs (n, v). hdr_store hs n v) http_hdr_list_new (hl @ [framing t])\<rparr>, c2)"
      (is "_ = Inr (_, ?r, _)")
      "conn_ok c2" "pending c2 = body_text t" "same_but_io c1 c2"
    using read_headers_roundtrip [OF resp(1,2) hl in1(1,3), of http_resp_new] by (auto simp: http_resp_new_def)
  have "chunkLen c2 = 0" using c2(4) in1(2) by (simp add: same_but_io_def)
  then obtain r' c3 where c3: "http_resp_read_body ?r False c2 = Inr (HTTP_TRANS_DONE, r', c3)" "body r' = content t"
      "statusCode r' = statusCode ?r" "reasonPhrase r' = reasonPhrase ?r" "respHeaders r' = respHeaders ?r" "sent c3 = sent c2"
    using read_body_framed [OF resp(3,4) c2(2) _ c2(3), of ?r] by (auto simp: http_resp_new_def)
  have "sent c3 = sent c @ request_text (gReq g) res"
    using c3(6) c2(4) c1(2) by (simp add: same_but_io_def)
  then show ?thesis
    using start connect c1(1) c2(1) c3(1-5) req(4)
    by (simp add: ghttp_process_def process_request_def process_headers_def process_body_def Let_def
        ghttp_status_code_def ghttp_reason_phrase_def)
qed

subsection \<open>Header lists without gaps\<close>

definition header_list :: "(bytes \<times> bytes) list \<Rightarrow> hdr_list" where
  "header_list hs = map Some hs @ replicate (256 - length hs) None"

lemma header_list_Nil: "http_hdr_list_new = header_list []"
  by (simp add: http_hdr_list_new_def header_list_def del: replicate_Suc)

lemma get_header_list:
  "http_hdr_get_value (header_list hs) n = map_option snd (find (\<lambda>h. same_name (fst h) n) hs)"
proof -
  have none: "http_hdr_get_value (replicate k None) n = None" for k by (induction k) simp_all
  have "http_hdr_get_value (map Some hs @ replicate k None) n = map_option snd (find (\<lambda>h. same_name (fst h) n) hs)" for k
    by (induction hs) (auto simp: none)
  then show ?thesis by (simp add: header_list_def)
qed

lemma put_free_list:
  "put_free (map Some hs @ replicate (Suc k) None) hv = Some (map Some (hs @ [hv]) @ replicate k None)"
  by (induction hs) simp_all

lemma store_new:
  assumes "length hs < 256" and "find (\<lambda>h. same_name (fst h) n) hs = None" and "http_hdr_is_known (Some n) = Some n"
  shows "http_hdr_set_value (header_list hs) (Some n) (Some v) = (1, header_list (hs @ [(n, v)]))"
proof -
  obtain k where k: "256 - length hs = Suc k" "256 - length (hs @ [(n, v)]) = k"
    using assms(1) by (metis Suc_diff_Suc length_append_singleton)
  have "http_hdr_get_value (header_list hs) n = None" by (simp add: get_header_list assms(2))
  then show ?thesis
    using put_free_list [of hs k "(n, v)"] k assms(3)
    by (simp add: http_hdr_set_value_def header_list_def)
qed

lemma header_list_text:
  assumes "list_all (\<lambda>h. fst h \<noteq> []) hs"
  shows "header_text (header_list hs) = concat (map header_line hs) @ eol"
proof -
  have none: "concat (map (\<lambda>p. case p of Some (n, v) \<Rightarrow> if n = [] then [] else n @ [58, 32] @ v @ [13, 10] | None \<Rightarrow> [])
      (replicate k None)) = []" for k
    by (induction k) simp_all
  have "concat (map (\<lambda>p. case p of Some (n, v) \<Rightarrow> if n = [] then [] else n @ [58, 32] @ v @ [13, 10] | None \<Rightarrow> [])
      (map Some hs)) = concat (map header_line hs)"
    using assms by (induction hs) (auto simp: header_line_def eol_def)
  then show ?thesis by (simp add: header_text_def header_list_def none eol_def del: replicate_Suc)
qed

subsection \<open>The client of httptools.c\<close>

text \<open>The calls of \<open>linkSimpleHttpRequest\<close> up to \<open>ghttp_prepare\<close>.\<close>

definition simple_request :: "bytes \<Rightarrow> net_read list \<Rightarrow> net_write list \<Rightarrow> HttpRequest \<Rightarrow> int \<times> ghttp_request" where
  "simple_request agent inc out r =
     (let g = snd (ghttp_set_uri (Some (reqUri r)) (ghttp_request_new inc out));
          g = (if reqPost r then ghttp_set_type http_req_type_post g else g);
          g = (case reqContentType r of Some ct \<Rightarrow> ghttp_set_header (chars ''Content-Type'') ct g | None \<Rightarrow> g);
          g = (if reqPost r \<and> reqBody r \<noteq> [] then snd (ghttp_set_body (Some (reqBody r)) (int (length (reqBody r))) g) else g);
          g = (case reqAuthorization r of Some t \<Rightarrow> ghttp_set_header (chars ''Authorization'') t g | None \<Rightarrow> g)
      in ghttp_prepare agent g)"

text \<open>What the caller makes of the outcome, with what was sent.\<close>

definition simple_reply :: "ghttp_status \<Rightarrow> ghttp_request \<Rightarrow> HttpReply" where
  "simple_reply st g =
     (if st = ghttp_error then (if ghttp_is_timeout g then Http_timeout else Http_failed)
      else Http_reply (ghttp_status_code g) (case ghttp_get_body g of None \<Rightarrow> [] | Some b \<Rightarrow> b))"

definition simple_exchange ::
    "bytes \<Rightarrow> ConnectAnswers \<Rightarrow> DnsCacheItem list \<Rightarrow> net_read list \<Rightarrow> net_write list \<Rightarrow> HttpRequest
       \<Rightarrow> (HttpReply \<times> bytes) run" where
  "simple_exchange agent a items inc out r =
     and_then (ghttp_process a items (snd (simple_request agent inc out r))) (\<lambda>(st, g, items).
       Inr (simple_reply st g, sent (gConn g)))"

text \<open>The text of a request as a server sees it.\<close>

definition simple_headers :: "bytes \<Rightarrow> bytes \<Rightarrow> HttpRequest \<Rightarrow> (bytes \<times> bytes) list" where
  "simple_headers agent host r =
     (case reqContentType r of Some ct \<Rightarrow> [(chars ''Content-Type'', ct)] | None \<Rightarrow> [])
     @ (case reqAuthorization r of Some t \<Rightarrow> [(chars ''Authorization'', t)] | None \<Rightarrow> [])
     @ [(chars ''Host'', host)]
     @ (if reqPost r \<and> reqBody r \<noteq> [] then [(chars ''Content-Length'', digits (length (reqBody r)))] else [])
     @ [(chars ''User-Agent'', agent)]"

definition simple_text :: "bytes \<Rightarrow> bytes \<Rightarrow> bytes \<Rightarrow> HttpRequest \<Rightarrow> bytes" where
  "simple_text agent host res r =
     chars (if reqPost r then ''POST '' else ''GET '') @ res @ chars '' HTTP/1.1'' @ eol
     @ concat (map header_line (simple_headers agent host r)) @ eol @ (if reqPost r then reqBody r else [])"


lemma find_known_length:
  "length n \<noteq> length k \<Longrightarrow> find_known n (k # ks) = find_known n ks"
  "length n = length k \<Longrightarrow> find_known n (k # ks) = (if same_name n k then Some k else find_known n ks)"
  by (auto simp: same_name_def dest: arg_cong [where f = length])

lemma length_chars: "length (chars s) = length s"
  by (simp add: chars_def)

lemma same_chars: "same_name (chars s) (chars t) \<longleftrightarrow> map to_lower (map of_char s) = map to_lower (map of_char t)"
  by (simp add: same_name_def chars_def)

lemma known_names:
  "http_hdr_is_known (Some (chars ''Content-Type'')) = Some (chars ''Content-Type'')"
  "http_hdr_is_known (Some (chars ''Authorization'')) = Some (chars ''Authorization'')"
  "http_hdr_is_known (Some (chars ''Host'')) = Some (chars ''Host'')"
  "http_hdr_is_known (Some (chars ''Content-Length'')) = Some (chars ''Content-Length'')"
  "http_hdr_is_known (Some (chars ''User-Agent'')) = Some (chars ''User-Agent'')"
  by (simp_all add: http_hdr_is_known_def http_hdr_known_list_def find_known_length length_chars same_chars to_lower_def
      del: find_known.simps(2))
lemma names_differ:
  "\<not> same_name (chars ''Content-Type'') (chars ''Authorization'')"
  "\<not> same_name (chars ''Content-Type'') (chars ''Host'')"
  "\<not> same_name (chars ''Content-Type'') (chars ''Content-Length'')"
  "\<not> same_name (chars ''Content-Type'') (chars ''User-Agent'')"
  "\<not> same_name (chars ''Authorization'') (chars ''Host'')"
  "\<not> same_name (chars ''Authorization'') (chars ''Content-Length'')"
  "\<not> same_name (chars ''Authorization'') (chars ''User-Agent'')"
  "\<not> same_name (chars ''Host'') (chars ''Content-Length'')"
  "\<not> same_name (chars ''Host'') (chars ''User-Agent'')"
  "\<not> same_name (chars ''Content-Length'') (chars ''User-Agent'')"
  by (simp_all add: same_chars to_lower_def)

lemma names_nonempty:
  "chars ''Content-Type'' \<noteq> []" "chars ''Authorization'' \<noteq> []" "chars ''Host'' \<noteq> []"
  "chars ''Content-Length'' \<noteq> []" "chars ''User-Agent'' \<noteq> []"
  by (simp_all add: chars_def)

text \<open>What \<open>http_req_prepare\<close> makes of the headers set before.\<close>

lemma prepared_headers:
  assumes "hs = (case ct of Some v \<Rightarrow> [(chars ''Content-Type'', v)] | None \<Rightarrow> [])
      @ (case tok of Some v \<Rightarrow> [(chars ''Authorization'', v)] | None \<Rightarrow> [])"
    and "rqHeaders r = header_list hs" and "rqHost r = Some host"
    and "rqBodyLen r = int n" "rqBody1Len r = 0" "rqBody2Len r = 0" "n < 2 ^ 31"
    and "rqType r = (if post then http_req_type_post else http_req_type_get)"
  shows "http_req_prepare agent r = r\<lparr>rqHeaders := header_list (hs @ [(chars ''Host'', host)]
     @ (if post \<and> 0 < n then [(chars ''Content-Length'', digits n)] else []) @ [(chars ''User-Agent'', agent)])\<rparr>"
proof -
  have few: "length hs \<le> 2" using assms(1) by (simp split: option.splits)
  have other: "find (\<lambda>h. same_name (fst h) m) hs = None"
    if "\<not> same_name (chars ''Content-Type'') m" "\<not> same_name (chars ''Authorization'') m" for m
    using assms(1) that by (simp split: option.splits)
  have snoc: "find P (xs @ ys) = (case find P xs of None \<Rightarrow> find P ys | Some x \<Rightarrow> Some x)" for P :: "bytes \<times> bytes \<Rightarrow> bool" and xs ys
    by (induction xs) auto
  have num: "print_int (c_int (int n)) = digits n"
    using assms(7) by (simp add: c_int_small print_int_def)
  note find = other names_differ known_names snoc
  have h1: "http_hdr_set_value (header_list hs) (Some (chars ''Host'')) (Some host)
      = (1, header_list (hs @ [(chars ''Host'', host)]))"
    using few by (intro store_new) (simp_all add: find)
  have h2: "http_hdr_set_value (header_list (hs @ [(chars ''Host'', host)])) (Some (chars ''Content-Length'')) (Some (digits n))
      = (1, header_list ((hs @ [(chars ''Host'', host)]) @ [(chars ''Content-Length'', digits n)]))"
    using few by (intro store_new) (simp_all add: find)
  let ?hs = "hs @ [(chars ''Host'', host)] @ (if post \<and> 0 < n then [(chars ''Content-Length'', digits n)] else [])"
  have none: "find (\<lambda>h. same_name (fst h) (chars ''User-Agent'')) ?hs = None" by (simp add: find)
  have h3: "http_hdr_set_value (header_list ?hs) (Some (chars ''User-Agent'')) (Some agent)
      = (1, header_list (?hs @ [(chars ''User-Agent'', agent)]))"
    using few none by (intro store_new) (simp_all add: known_names)
  show ?thesis
    using h3 none
    by (auto simp: http_req_prepare_def Let_def assms(2-6,8) h1 h2 num get_header_list)
qed

text \<open>The request object when it is processed.\<close>

lemma simple_request_prepared:
  assumes uri: "reqUri r = uri_text h port res" "host_ok h" "\<forall>n. port = Some n \<longrightarrow> n < 65536" "res \<noteq> [] \<longrightarrow> hd res = 47"
    and len: "length (reqBody r) < 2 ^ 31"
  shows "\<exists>g. simple_request agent inc out r = (0, g) \<and> gProc g = ghttp_proc_none \<and> \<not> gConnected g \<and> gResp g = http_resp_new
    \<and> gConn g = (http_trans_conn_new 10 inc out)\<lparr>connHost := Some (h @ port_text port),
        connPort := as_short (case port of None \<Rightarrow> 80 | Some n \<Rightarrow> n), proxyHost := None, proxyPort := as_short 80\<rparr>
    \<and> rqResource (gReq g) = Some (if res = [] then [47] else res) \<and> pieces_ok (body_pieces (gReq g))
    \<and> rqType (gReq g) = (if reqPost r then http_req_type_post else http_req_type_get)
    \<and> rqHeaders (gReq g) = header_list (simple_headers agent (h @ port_text port) r)
    \<and> pieces_text (body_pieces (gReq g)) = (if reqPost r then reqBody r else [])"
proof -
  let ?host = "h @ port_text port"
  define new where "new = http_uri_new\<lparr>uriFull := Some (uri_text h port res), uriProto := Some (chars ''http''),
        uriHost := Some ?host, uriPort := (case port of None \<Rightarrow> uriPort http_uri_new | Some n \<Rightarrow> n),
        uriResource := Some (if res = [] then [47] else res)\<rparr>"
  have "http_uri_parse (Some (reqUri r)) (Some http_uri_new) = (0, Some new)"
    unfolding uri(1) new_def by (rule uri_parts [OF uri(2-4)])
  then have g0: "snd (ghttp_set_uri (Some (reqUri r)) (ghttp_request_new inc out)) = (ghttp_request_new inc out)\<lparr>gUri := new\<rparr>"
    by (simp add: ghttp_set_uri_def ghttp_request_new_def http_uri_new_def)
  define ct where "ct = (case reqContentType r of Some v \<Rightarrow> [(chars ''Content-Type'', v)] | None \<Rightarrow> [])"
  define hs where "hs = ct @ (case reqAuthorization r of Some v \<Rightarrow> [(chars ''Authorization'', v)] | None \<Rightarrow> [])"
  define r0 where "r0 = http_req_new\<lparr>rqType := if reqPost r then http_req_type_post else http_req_type_get\<rparr>"
  define post where "post \<longleftrightarrow> reqPost r \<and> reqBody r \<noteq> []"
  define r1 where "r1 = r0\<lparr>rqHeaders := header_list hs,
      rqBody := if post then Some (reqBody r) else None, rqBodyLen := if post then int (length (reqBody r)) else 0\<rparr>"
  have ct_set: "(case reqContentType r of Some v \<Rightarrow> snd (http_hdr_set_value http_hdr_list_new (Some (chars ''Content-Type'')) (Some v))
      | None \<Rightarrow> http_hdr_list_new) = header_list ct"
    using store_new [of "[]" "chars ''Content-Type''"] by (auto simp: ct_def header_list_Nil known_names split: option.split)
  have auth_set: "(case reqAuthorization r of Some v \<Rightarrow> snd (http_hdr_set_value (header_list ct) (Some (chars ''Authorization'')) (Some v))
      | None \<Rightarrow> header_list ct) = header_list hs"
    using store_new [of ct "chars ''Authorization''"]
    by (auto simp: hs_def ct_def known_names names_differ split: option.splits)
  define g1 where "g1 = (ghttp_request_new inc out)\<lparr>gUri := new, gReq := r1\<rparr>"
  have chain: "simple_request agent inc out r = ghttp_prepare agent g1"
    unfolding simple_request_def Let_def g0
    using ct_set auth_set
    by (cases "reqPost r"; cases "reqBody r = []"; cases "reqContentType r"; cases "reqAuthorization r")
      (simp_all add: ghttp_request_new_def ghttp_set_type_def ghttp_set_header_def ghttp_set_body_def takes_body_def
        g1_def r1_def r0_def post_def http_req_new_def)
  have prep: "http_req_prepare agent (r1\<lparr>rqHost := Some ?host, rqFullUri := f, rqResource := s, rqHeaders := header_list hs\<rparr>)
      = r1\<lparr>rqHost := Some ?host, rqFullUri := f, rqResource := s, rqHeaders := header_list (simple_headers agent ?host r)\<rparr>" for f s
    using prepared_headers [of hs "reqContentType r" "reqAuthorization r"
        "r1\<lparr>rqHost := Some ?host, rqFullUri := f, rqResource := s, rqHeaders := header_list hs\<rparr>" ?host
        "if post then length (reqBody r) else 0" "reqPost r" agent] len
    by (auto simp: hs_def ct_def r1_def r0_def post_def http_req_new_def simple_headers_def)
  have "ghttp_prepare agent g1 = (0, g1\<lparr>gConn := (gConn g1)\<lparr>connHost := Some ?host, connPort := as_short (uriPort new),
        proxyHost := None, proxyPort := as_short 80\<rparr>,
      gReq := r1\<lparr>rqHost := Some ?host, rqFullUri := uriFull new, rqResource := uriResource new,
        rqHeaders := header_list (simple_headers agent ?host r)\<rparr>\<rparr>)"
    using prep
    by (simp add: ghttp_prepare_def Let_def g1_def new_def ghttp_request_new_def http_uri_new_def set_up_host_def
        host_changed_def http_trans_conn_new_def set_auth_def r1_def r0_def http_req_new_def)
  then show ?thesis
    unfolding chain
    by (auto simp: g1_def ghttp_request_new_def new_def http_uri_new_def r1_def r0_def post_def http_req_new_def
        body_pieces_def pieces_ok_def pieces_text_def split: option.split)
qed


subsection \<open>The exchange\<close>

text \<open>The host is resolved, and the connection is made in time.\<close>

definition connects :: "ConnectAnswers \<Rightarrow> DnsCacheItem list \<Rightarrow> bytes \<Rightarrow> int \<Rightarrow> bool" where
  "connects a items name timeout \<longleftrightarrow>
     fst (get_host_by_name_from_cache (dnsAnswer a name) (nowSeconds a) name items) = 0
     \<and> endDnsTime a - startTime a < timeout * 1000 \<and> socketError a = None \<and> timeout_connect (socketAnswers a) = 0
     \<and> connEndTime a - startTime a \<le> (timeout + 5) * 1000"

lemma connect_made:
  assumes "connects a items (host_name host) (nTimeoutInSecond c)" and "connHost c = Some host" and "proxyHost c = None"
  shows "\<exists>items'. http_trans_connect a items c = (0, c\<lparr>sockOpen := True\<rparr>, items')"
  using assms
  by (cases "get_host_by_name_from_cache (dnsAnswer a (host_name host)) (nowSeconds a) (host_name host) items")
    (simp add: http_trans_connect_def connects_def Let_def)

lemma header_names_nonempty: "list_all (\<lambda>h. fst h \<noteq> []) (simple_headers agent host r)"
  by (simp add: simple_headers_def names_nonempty split: option.split)

lemma find_append: "find P (xs @ ys) = (case find P xs of None \<Rightarrow> find P ys | Some x \<Rightarrow> Some x)"
  by (induction xs) auto

lemma simple_content_length:
  "http_hdr_get_value (header_list (simple_headers agent host r)) (chars ''Content-Length'')
    = (if reqPost r \<and> reqBody r \<noteq> [] then Some (digits (length (reqBody r))) else None)"
  by (simp add: get_header_list simple_headers_def find_append names_differ
      names_differ(10) [unfolded same_name_sym [of "chars ''Content-Length''"]] split: option.split)

lemma exchange:
  assumes uri: "reqUri r = uri_text h port res" "host_ok h" "\<forall>n. port = Some n \<longrightarrow> n < 65536" "res \<noteq> [] \<longrightarrow> hd res = 47"
    and len: "length (reqBody r) < 2 ^ 31"
    and con: "connects a items h 10"
    and net: "list_all (\<lambda>e. \<exists>k. e = Takes k) out"
      "length (simple_text agent (h @ port_text port) (if res = [] then [47] else res) r) \<le> length out"
      "pieces inc" "stream inc = reply_head x y z reason (hl @ [framing t]) @ body_text t"
    and resp: "status_ok x y z reason" "100 * x + 10 * y + z \<noteq> 100" "other_headers hl" "transfer_ok t"
  shows "simple_exchange agent a items inc out r = Inr (Http_reply (int (100 * x + 10 * y + z)) (content t),
      simple_text agent (h @ port_text port) (if res = [] then [47] else res) r)"
proof -
  let ?host = "h @ port_text port" and ?res = "if res = [] then [47] else res"
  obtain g where g: "simple_request agent inc out r = (0, g)" "gProc g = ghttp_proc_none" "\<not> gConnected g"
      "gResp g = http_resp_new"
      "gConn g = (http_trans_conn_new 10 inc out)\<lparr>connHost := Some ?host,
        connPort := as_short (case port of None \<Rightarrow> 80 | Some n \<Rightarrow> n), proxyHost := None, proxyPort := as_short 80\<rparr>"
      "rqResource (gReq g) = Some ?res" "pieces_ok (body_pieces (gReq g))"
      "rqType (gReq g) = (if reqPost r then http_req_type_post else http_req_type_get)"
      "rqHeaders (gReq g) = header_list (simple_headers agent ?host r)"
      "pieces_text (body_pieces (gReq g)) = (if reqPost r then reqBody r else [])"
    using simple_request_prepared [OF uri len, of agent inc out] by blast
  have digits_plain: "58 \<notin> set (digits n)" for n
    using digits_isdigit [of n] by (auto simp: list_all_iff isdigit_def)
  have name: "host_name ?host = h"
    using uri(2) host_name_plain [of h] host_name_port [OF digits_plain]
    by (auto simp: port_text_def host_ok_def split: option.split)
  have "connects a items (host_name ?host) (nTimeoutInSecond (gConn g))"
    using con g(5) by (simp add: name http_trans_conn_new_def)
  then obtain items' where c: "http_trans_connect a items (gConn g) = (0, (gConn g)\<lparr>sockOpen := True\<rparr>, items')"
    using connect_made [of a items ?host "gConn g"] g(5) by auto
  have line: "request_line (gReq g) u = chars (if reqPost r then ''POST '' else ''GET '') @ u @ chars '' HTTP/1.1'' @ eol" for u
    using g(8) by (simp add: request_line_def chars_def eol_def)
  have tail: "(if http_hdr_get_value (rqHeaders (gReq g)) (chars ''Content-Length'') = None then [] else pieces_text (body_pieces (gReq g)))
      = (if reqPost r then reqBody r else [])"
    unfolding g(9) simple_content_length g(10) by auto
  have sent: "request_text (gReq g) ?res = simple_text agent ?host ?res r"
    unfolding request_text_def simple_text_def line tail by (simp add: g(9) header_list_text [OF header_names_nonempty])
  have "accepts (length (request_text (gReq g) ?res)) ((gConn g)\<lparr>sockOpen := True\<rparr>)"
    unfolding sent accepts_def using net(1,2) g(5) by (simp add: http_trans_conn_new_def)
  moreover have "rqType (gReq g) \<noteq> http_req_type_head" using g(8) by simp
  ultimately obtain g' where g': "ghttp_process a items g = Inr (ghttp_done, g', items')"
      "sent (gConn g') = simple_text agent ?host ?res r" "ghttp_status_code g' = int (100 * x + 10 * y + z)"
      "gProc g' = ghttp_proc_none" "body (gResp g') = content t"
    using process_exchange [OF g(2-4) c g(6) _ g(7), of x y z reason hl t] net(3,4) resp sent g(5,8)
    by (auto simp: http_trans_conn_new_def)
  then show ?thesis
    by (simp add: simple_exchange_def g(1) simple_reply_def ghttp_get_body_def body_def)
qed

text \<open>
  C38: A request that \<open>linkSimpleHttpRequest\<close> makes is on the wire exactly the text with its method, resource,
  headers and body; and of a response the client has the status and the body, however the network cuts them up.
\<close>

theorem http_exchange:
  assumes "reqUri r = uri_text h port res" and "host_ok h" and "\<forall>n. port = Some n \<longrightarrow> n < 65536" and "res \<noteq> [] \<longrightarrow> hd res = 47"
    and "length (reqBody r) < 2 ^ 31"
    and "connects a items h 10"
    and "list_all (\<lambda>e. \<exists>k. e = Takes k) out"
    and "length (simple_text agent (h @ port_text port) (if res = [] then [47] else res) r) \<le> length out"
    and "pieces inc" and "stream inc = reply_head x y z reason (hl @ [framing t]) @ body_text t"
    and "status_ok x y z reason" and "100 * x + 10 * y + z \<noteq> 100" and "other_headers hl" and "transfer_ok t"
  shows "simple_exchange agent a items inc out r = Inr (Http_reply (int (100 * x + 10 * y + z)) (content t),
      simple_text agent (h @ port_text port) (if res = [] then [47] else res) r)"
  by (rule exchange [OF assms])

text \<open>A POST over a network that takes three bytes at a time, answered in two chunked_text with a call interrupted between.\<close>

definition sample_connect :: ConnectAnswers where
  "sample_connect = \<lparr>dnsAnswer = (\<lambda>n. (0, [AF_INET 7])), nowSeconds = 5, startTime = 0, endDnsTime = 20, socketError = None,
     socketAnswers = \<lparr>getFlags = 2, setFlags = 0, connectError = Some EINPROGRESS, selectResult = 1, soError = 0,
       selectErrno = 0, getFlags2 = 2050, setFlags2 = 0, fcntlErrno = 0\<rparr>, connErrno = 0, connEndTime = 90\<rparr>"

definition sample_post :: HttpRequest where
  "sample_post = \<lparr>reqPost = True, reqUri = uri_text (chars ''a'') (Some 8080) (chars ''/t''), reqBody = chars ''k=v'',
     reqContentType = Some form_type, reqAuthorization = None\<rparr>"

definition sample_out :: "net_write list" where
  "sample_out = replicate 300 (Takes 2)"

definition sample_reply :: bytes where
  "sample_reply = reply_head 2 0 0 (chars ''OK'') [(chars ''Server'', chars ''x''), framing (By_chunks [chars ''hel'', chars ''lo''])]
     @ body_text (By_chunks [chars ''hel'', chars ''lo''])"

definition sample_in :: "net_read list" where
  "sample_in = [Net_data (take 21 sample_reply), Net_error EINTR, Net_data (drop 21 sample_reply)]"

lemma sample_network:
  "connects sample_connect dnsItems (chars ''a'') 10" "list_all (\<lambda>e. \<exists>k. e = Takes k) sample_out"
  "pieces sample_in" "stream sample_in = sample_reply" "other_headers [(chars ''Server'', chars ''x'')]"
proof -
  show "connects sample_connect dnsItems (chars ''a'') 10"
    by code_simp
  show "list_all (\<lambda>e. \<exists>k. e = Takes k) sample_out"
    by (simp add: sample_out_def list_all_iff del: replicate_Suc)
  have "21 < length sample_reply"
    by (simp add: sample_reply_def reply_head_def status_text_def chars_def header_line_def eol_def)
  then show "pieces sample_in" "stream sample_in = sample_reply"
    by (auto simp: pieces_def sample_in_def)
  show "other_headers [(chars ''Server'', chars ''x'')]"
    by (simp add: other_headers_def header_ok_def is_blank_def same_name_def chars_def to_lower_def)
qed

lemma sample_size:
  "length (simple_text (chars ''version'') (chars ''a'' @ port_text (Some 8080))
     (if chars ''/t'' = [] then [47] else chars ''/t'') sample_post) \<le> length sample_out"
  by (simp add: simple_text_def simple_headers_def sample_post_def sample_out_def header_line_def chars_def eol_def
      form_type_def port_text_def digits.simps del: replicate_Suc)

theorem http_exchange_witness:
  "simple_exchange (chars ''version'') sample_connect dnsItems sample_in sample_out sample_post =
     Inr (Http_reply 200 (chars ''hello''), simple_text (chars ''version'') (chars ''a:8080'') (chars ''/t'') sample_post)"
proof -
  have host: "chars ''a'' @ port_text (Some 8080) = chars ''a:8080''"
    by (simp add: port_text_def chars_def digits.simps)
  have res: "(if chars ''/t'' = [] then [47] else chars ''/t'') = chars ''/t''" by (simp add: chars_def)
  have "simple_exchange (chars ''version'') sample_connect dnsItems sample_in sample_out sample_post =
     Inr (Http_reply (int (100 * 2 + 10 * 0 + 0)) (content (By_chunks [chars ''hel'', chars ''lo''])),
       simple_text (chars ''version'') (chars ''a'' @ port_text (Some 8080)) (if chars ''/t'' = [] then [47] else chars ''/t'')
         sample_post)"
  proof (rule http_exchange)
    show "reqUri sample_post = uri_text (chars ''a'') (Some 8080) (chars ''/t'')" by (simp add: sample_post_def)
    show "stream sample_in = reply_head 2 0 0 (chars ''OK'') ([(chars ''Server'', chars ''x'')]
        @ [framing (By_chunks [chars ''hel'', chars ''lo''])]) @ body_text (By_chunks [chars ''hel'', chars ''lo''])"
      using sample_network(4) by (simp add: sample_reply_def)
    show "status_ok 2 0 0 (chars ''OK'')" by (simp add: status_ok_def chars_def)
  qed (use sample_network sample_size in \<open>simp_all add: host_ok_def sample_post_def chars_def chunk_ok_def\<close>)
  then show ?thesis unfolding host res by (simp add: chars_def)
qed


subsection \<open>The requests of the SDK over it\<close>

text \<open>The HTTP client that \<open>linkSimpleHttpRequest\<close> relies on, given by the library and a network.\<close>

definition client_over ::
    "bytes \<Rightarrow> ConnectAnswers \<Rightarrow> DnsCacheItem list \<Rightarrow> net_read list \<Rightarrow> net_write list \<Rightarrow> bytes \<Rightarrow> HttpClient" where
  "client_over agent a items inc out url =
     \<lparr>httpNew = True, httpUriOk = (fst (ghttp_set_uri (Some url) (ghttp_request_new inc out)) \<noteq> -1),
      httpPrepared = (fst (simple_request agent inc out \<lparr>reqPost = False, reqUri = url, reqBody = [],
        reqContentType = None, reqAuthorization = None\<rparr>) = 0),
      httpReply = (\<lambda>r. case simple_exchange agent a items inc out r of Inr (rep, _) \<Rightarrow> rep | Inl _ \<Rightarrow> Http_failed)\<rparr>"

text \<open>
  A POST of the SDK to a server that answers with a status of the two-hundreds gives its caller the body
  of the answer, as much as fits, and the length of the whole.
\<close>

theorem post_gets_body:
  assumes "host_ok h" and "\<forall>n. port = Some n \<longrightarrow> n < 65536" and "res \<noteq> [] \<longrightarrow> hd res = 47"
    and "length data < 2 ^ 31" and "connects a items h 10" and "list_all (\<lambda>e. \<exists>k. e = Takes k) out"
    and "length (simple_text agent (h @ port_text port) (if res = [] then [47] else res)
        \<lparr>reqPost = True, reqUri = uri_text h port res, reqBody = data, reqContentType = Some (case ct of Some c \<Rightarrow> c | None \<Rightarrow> form_type),
         reqAuthorization = None\<rparr>) \<le> length out"
    and "pieces inc" and "stream inc = reply_head 2 y z reason (hl @ [framing t]) @ body_text t"
    and "status_ok 2 y z reason" and "other_headers hl" and "transfer_ok t" and "0 < n"
  shows "LinkSimpleHttpPost (client_over agent a items inc out (uri_text h port res)) (uri_text h port res) n data ct
    = Inr (LINK_SUCCESS, Some (length (content t)), take (n - 1) (content t) @ [0])"
proof -
  let ?url = "uri_text h port res"
  let ?r = "\<lparr>reqPost = True, reqUri = ?url, reqBody = data,
      reqContentType = Some (case ct of Some c \<Rightarrow> c | None \<Rightarrow> form_type), reqAuthorization = None\<rparr>"
  have reply: "simple_exchange agent a items inc out ?r = Inr (Http_reply (int (100 * 2 + 10 * y + z)) (content t),
      simple_text agent (h @ port_text port) (if res = [] then [47] else res) ?r)"
    using assms by (intro exchange) simp_all
  have uri: "fst (ghttp_set_uri (Some ?url) (ghttp_request_new inc out)) = 0"
    using uri_parts [OF assms(1-3), of http_uri_new]
    by (simp add: ghttp_set_uri_def ghttp_request_new_def http_uri_new_def)
  have prep: "fst (simple_request agent inc out \<lparr>reqPost = False, reqUri = ?url, reqBody = [],
        reqContentType = None, reqAuthorization = None\<rparr>) = 0"
    using simple_request_prepared [OF _ assms(1-3), of "\<lparr>reqPost = False, reqUri = ?url, reqBody = [],
        reqContentType = None, reqAuthorization = None\<rparr>" agent inc out] by auto
  have code: "c_div (int (100 * 2 + 10 * y + z)) 100 = 2"
  proof -
    have "y < 10" "z < 10" using assms(10) by (simp_all add: status_ok_def)
    then have "(100 * 2 + 10 * y + z) div 100 = 2" by (intro div_nat_eqI) simp_all
    then have "int (100 * 2 + 10 * y + z) div 100 = 2" by (metis of_nat_numeral zdiv_int)
    then show ?thesis by (simp add: c_div_pos)
  qed
  have cut: "take (if n - 1 < length d then n - 1 else length d) d = take (n - 1) d" for d :: bytes by simp
  then show ?thesis
    using uri prep reply code assms(13)
    by (cases ct) (simp_all add: LinkSimpleHttpPost_def linkSimpleHttpRequest_def client_over_def Let_def cut [simplified])
qed

theorem post_gets_body_witness:
  "LinkSimpleHttpPost (client_over (chars ''version'') sample_connect dnsItems sample_in sample_out (reqUri sample_post))
     (reqUri sample_post) 4 (chars ''k=v'') None = Inr (LINK_SUCCESS, Some 5, chars ''hel'' @ [0])"
proof -
  have "LinkSimpleHttpPost (client_over (chars ''version'') sample_connect dnsItems sample_in sample_out
      (uri_text (chars ''a'') (Some 8080) (chars ''/t''))) (uri_text (chars ''a'') (Some 8080) (chars ''/t'')) 4 (chars ''k=v'') None
    = Inr (LINK_SUCCESS, Some (length (content (By_chunks [chars ''hel'', chars ''lo'']))),
        take (4 - 1) (content (By_chunks [chars ''hel'', chars ''lo''])) @ [0])"
  proof (rule post_gets_body)
    show "stream sample_in = reply_head 2 0 0 (chars ''OK'') ([(chars ''Server'', chars ''x'')]
        @ [framing (By_chunks [chars ''hel'', chars ''lo''])]) @ body_text (By_chunks [chars ''hel'', chars ''lo''])"
      using sample_network(4) by (simp add: sample_reply_def)
    show "length (simple_text (chars ''version'') (chars ''a'' @ port_text (Some 8080))
        (if chars ''/t'' = [] then [47] else chars ''/t'')
        \<lparr>reqPost = True, reqUri = uri_text (chars ''a'') (Some 8080) (chars ''/t''), reqBody = chars ''k=v'',
         reqContentType = Some (case None of Some c \<Rightarrow> c | None \<Rightarrow> form_type), reqAuthorization = None\<rparr>) \<le> length sample_out"
      using sample_size by (simp add: sample_post_def)
    show "status_ok 2 0 0 (chars ''OK'')" by (simp add: status_ok_def chars_def)
  qed (use sample_network in \<open>simp_all add: host_ok_def chars_def chunk_ok_def\<close>)
  then show ?thesis by (simp add: sample_post_def chars_def)
qed

end
