(* ===== verification/LogAccount.thy ===== *)
theory LogAccount
  imports Control HttpTools PutBuffer
begin

section \<open>The library's own log lines over MQTT (libmqtt/qnlinking_mqtt.c, deps/log/log.c)\<close>

text \<open>
  The library opens an MQTT instance of its own, whose user name carries a time stamp and whose password
  is a signature of the user name, renewed at every event of the instance. Lines of the log go through a message queue to
  a thread that publishes them. The functions work on static variables, which are the record
  \<open>QnlinkingMQTT\<close>; messages are those of the control channel, without a request identifier.
\<close>

subsection \<open>Logging (log.c)\<close>

abbreviation (input) LINK_LOG_LEVEL_INFO :: int where "LINK_LOG_LEVEL_INFO \<equiv> 3"
abbreviation (input) LINK_LOG_LEVEL_ERROR :: int where "LINK_LOG_LEVEL_ERROR \<equiv> 5"

datatype log_call = No_line | Printed bytes | Called int bytes

definition LinkSetLogLevel :: "int \<Rightarrow> int \<Rightarrow> int" where
  "LinkSetLogLevel level nLogLevel = (if 1 \<le> level \<and> level \<le> LINK_LOG_LEVEL_ERROR then level else nLogLevel)"

text \<open>
  \<open>time_buf\<close> is what \<open>strftime\<close> printed, \<open>line\<close> the formatted message; \<open>vsnprintf\<close> keeps a place for the
  null byte of the \<open>MAX_LOG_LENGTH\<close> bytes it may use.
\<close>

definition LinkLog :: "int \<Rightarrow> bool \<Rightarrow> bytes \<Rightarrow> int \<Rightarrow> bytes \<Rightarrow> log_call" where
  "LinkLog nLogLevel hasFunc time_buf nLevel line =
     (if nLogLevel \<le> nLevel then
        let log_buf = time_buf @ take (320 - length time_buf - 1) line
        in if hasFunc then Called nLevel log_buf else Printed log_buf
      else No_line)"

subsection \<open>State\<close>

text \<open>What an instance keeps of its log-in, the null pointer being the empty block.\<close>

record LogLogin =
  loUsername :: bytes
  loPassword :: bytes
  loConnected :: bool

text \<open>An instance told to end is freed by its own thread, at a time nobody waits for.\<close>

datatype instance_pointer = No_instance | Instance_ending | Instance LogLogin

record QnlinkingMQTT =
  gInitialized :: bool
  gInstance :: instance_pointer
  gLinkDAK :: bytes
  gLinkDSK :: bytes
  logUsed :: bool
  logTopic :: bytes
  logHasInstance :: bool
  logQueue :: "IoMessage MessageQueue option"
  logThreads :: nat

definition zeroQnlinkingMQTT :: QnlinkingMQTT where
  "zeroQnlinkingMQTT = \<lparr>gInitialized = False, gInstance = No_instance, gLinkDAK = replicate 64 0,
     gLinkDSK = replicate 64 0, logUsed = False, logTopic = replicate 128 0, logHasInstance = False,
     logQueue = None, logThreads = 0\<rparr>"

subsection \<open>User name and password\<close>

abbreviation (input) LINK_MQTT_SUCCESS :: int where "LINK_MQTT_SUCCESS \<equiv> 0"
abbreviation (input) LINK_MQTT_ERROR :: int where "LINK_MQTT_ERROR \<equiv> -1"

text \<open>The \<open>n\<close> bytes \<open>strncpy\<close> writes; it stops reading at a null byte.\<close>

definition strncpy_bytes :: "nat \<Rightarrow> bytes \<Rightarrow> bytes run" where
  "strncpy_bytes n src =
     (let s = c_string (take n src) in
      if length s = length src \<and> length s < n then Inl Out_of_bounds
      else Inr (s @ replicate (n - length s) 0))"

definition account_name :: "bytes \<Rightarrow> int \<Rightarrow> bytes" where
  "account_name dak timestamp =
     chars ''dak='' @ dak @ chars ''&timestamp='' @ print_int timestamp @ chars ''&version=v1''"

text \<open>The result is the code, \<open>*_pLen\<close> and the block of the user name.\<close>

definition QnlinkingMQTT_GetUsernameSign ::
    "int \<Rightarrow> bytes \<Rightarrow> int \<Rightarrow> bytes option \<Rightarrow> (int \<times> int \<times> bytes) run" where
  "QnlinkingMQTT_GetUsernameSign timestamp pUsername pLen pDak =
     (case pDak of
        None \<Rightarrow> Inr (LINK_MQTT_ERROR, pLen, pUsername)
      | Some d \<Rightarrow>
          and_then (stringOf d) (\<lambda>dak.
          let query = account_name dak timestamp in
          and_then (write_at 0 (query @ [0]) (replicate 256 0)) (\<lambda>_.
          if int (length query) \<le> 0 then Inr (LINK_MQTT_ERROR, int (length query), pUsername)
          else and_then (write_at 0 (query @ [0]) pUsername) (\<lambda>u.
            Inr (LINK_MQTT_SUCCESS, int (length query), u)))))"

text \<open>
  The room for the encoded signature is given as \<open>_pOutLen\<close>, a pointer: the encoder gets its address, \<open>addr\<close>, for the size of the
  output. It writes no null byte.
\<close>

definition QnlinkingMQTT_GetPasswordSign ::
    "bytes \<Rightarrow> nat \<Rightarrow> bytes option \<Rightarrow> int \<Rightarrow> bytes \<Rightarrow> int \<Rightarrow> bytes option \<Rightarrow> (int \<times> int \<times> bytes) run" where
  "QnlinkingMQTT_GetPasswordSign junk addr pInput nInLen pOutput pOutLen pDsk =
     (case (pInput, pDsk) of
        (Some input, Some d) \<Rightarrow>
          and_then (stringOf d) (\<lambda>dsk.
          and_then (read_at 0 (nat nInLen) input) (\<lambda>data.
          case hmac_sha1 junk dsk data 20 of (ret, hsha1) \<Rightarrow>
            if ret \<noteq> 20 then Inr (LINK_MQTT_ERROR, pOutLen, pOutput)
            else and_then (urlsafe_b64_encode hsha1 (Some addr)) (\<lambda>(outlen, out).
              and_then (write_at 0 out pOutput) (\<lambda>p. Inr (LINK_MQTT_SUCCESS, int outlen, p)))))
      | _ \<Rightarrow> Inr (LINK_MQTT_ERROR, pOutLen, pOutput))"

definition QnlinkingMQTT_UpdateUserPasswd ::
    "bytes \<Rightarrow> nat \<Rightarrow> int \<Rightarrow> QnlinkingMQTT \<Rightarrow> LogLogin option \<Rightarrow> (int \<times> LogLogin option) run" where
  "QnlinkingMQTT_UpdateUserPasswd junk addr timestamp st pInstance =
     (case pInstance of
        None \<Rightarrow> Inr (LINK_MQTT_ERROR, None)
      | Some i \<Rightarrow>
          and_then (QnlinkingMQTT_GetUsernameSign timestamp (loUsername i) 0 (Some (gLinkDAK st))) (\<lambda>(_, n, u).
          and_then (QnlinkingMQTT_GetPasswordSign junk addr (Some u) n (loPassword i) 0 (Some (gLinkDSK st)))
            (\<lambda>(_, _, p). Inr (LINK_MQTT_SUCCESS, Some (i\<lparr>loUsername := u, loPassword := p\<rparr>)))))"

text \<open>\<open>ours\<close> says whether the instance of the event is the one the static variable points to.\<close>

definition QnlinkingMQTT_EventCallback ::
    "bytes \<Rightarrow> nat \<Rightarrow> int \<Rightarrow> bool \<Rightarrow> QnlinkingMQTT \<Rightarrow> QnlinkingMQTT run" where
  "QnlinkingMQTT_EventCallback junk addr timestamp ours st =
     (case (ours, gInstance st) of
        (True, Instance i) \<Rightarrow>
          and_then (QnlinkingMQTT_UpdateUserPasswd junk addr timestamp st (Some i)) (\<lambda>(_, r).
            Inr (case r of Some i' \<Rightarrow> st\<lparr>gInstance := Instance i'\<rparr> | None \<Rightarrow> st))
      | _ \<Rightarrow> Inr st)"

subsection \<open>Start and end\<close>

text \<open>The copies an instance makes of its options (mqtt.c).\<close>

definition MallocAndStrcpy :: "bool \<Rightarrow> bytes option \<Rightarrow> bytes" where
  "MallocAndStrcpy ok src = (case (src, ok) of (Some s, True) \<Rightarrow> c_string s @ [0] | _ \<Rightarrow> [])"

definition LinkMqttCreateInstance :: "bool \<Rightarrow> bool \<Rightarrow> bool \<Rightarrow> bytes \<Rightarrow> bytes \<Rightarrow> LogLogin option" where
  "LinkMqttCreateInstance structOk userOk passOk username password =
     (if \<not> structOk then None
      else Some \<lparr>loUsername = MallocAndStrcpy userOk (Some username),
        loPassword = MallocAndStrcpy passOk (Some password), loConnected = False\<rparr>)"

record InitAnswers =
  iaTime :: int
  iaJunk :: bytes
  iaAddr :: nat
  iaStruct :: bool
  iaUser :: bool
  iaPass :: bool
  iaQueueStruct :: bool
  iaQueue :: "(nat \<Rightarrow> IoMessage) option"

definition log_topic :: bytes where
  "log_topic = chars ''linking/v1/${appid}/${device}/syslog/''"

definition QnlinkingMQTT_Init ::
    "InitAnswers \<Rightarrow> bytes \<Rightarrow> nat \<Rightarrow> bytes \<Rightarrow> nat \<Rightarrow> QnlinkingMQTT \<Rightarrow> QnlinkingMQTT run" where
  "QnlinkingMQTT_Init a pDak nDakLen pDsk nDskLen st =
     (if gInitialized st then Inr st
      else
        and_then (strncpy_bytes nDakLen pDak) (\<lambda>d. and_then (write_at 0 d (gLinkDAK st)) (\<lambda>dak.
        and_then (strncpy_bytes nDakLen pDsk) (\<lambda>s. and_then (write_at 0 s (gLinkDSK st)) (\<lambda>dsk.
        and_then (QnlinkingMQTT_GetUsernameSign (iaTime a) (replicate 256 0) 0 (Some dak)) (\<lambda>(ret, n, user).
        and_then (if ret = LINK_MQTT_SUCCESS
                  then QnlinkingMQTT_GetPasswordSign (iaJunk a) (iaAddr a) (Some user) n (replicate 256 0) 0 (Some dsk)
                  else Inr (LINK_MQTT_ERROR, 0, replicate 256 0)) (\<lambda>(ret', _, pass).
        let st = st\<lparr>gLinkDAK := dak, gLinkDSK := dsk\<rparr>;
            st = (if ret = LINK_MQTT_SUCCESS \<and> ret' = LINK_MQTT_SUCCESS then
                    (case LinkMqttCreateInstance (iaStruct a) (iaUser a) (iaPass a) user pass of
                       None \<Rightarrow> st\<lparr>gInstance := No_instance\<rparr>
                     | Some i \<Rightarrow> st\<lparr>gInstance := Instance i, gInitialized := True\<rparr>)
                  else st)
        in (case CreateMessageQueue (iaQueueStruct a) (iaQueue a) 64 of
              None \<Rightarrow> Inr (st\<lparr>logQueue := None\<rparr>)
            | Some q \<Rightarrow>
                and_then (write_at 0 (log_topic @ [0]) (logTopic st)) (\<lambda>topic.
                  Inr (st\<lparr>logQueue := Some q, logTopic := topic, logHasInstance := (gInstance st \<noteq> No_instance),
                    logUsed := True, logThreads := logThreads st + 1\<rparr>))))))))))"

text \<open>
  \<open>join\<close> is what the log thread does until it has seen that it is to end. An instance that is ending may have been freed, and telling it again
  writes to that memory.
\<close>

definition QnlinkingMQTT_Cleanup :: "(QnlinkingMQTT \<Rightarrow> QnlinkingMQTT) \<Rightarrow> QnlinkingMQTT \<Rightarrow> QnlinkingMQTT run" where
  "QnlinkingMQTT_Cleanup join st =
     (let st = (if logUsed st then
                  let st = join (st\<lparr>logUsed := False\<rparr>)
                  in st\<lparr>logQueue := fst (DestroyMessageQueue (logQueue st)), logTopic := replicate 128 0,
                       logHasInstance := False, logThreads := logThreads st - 1\<rparr>
                else st)
      in if gInitialized st \<and> gInstance st \<noteq> No_instance then
           if gInstance st = Instance_ending then Inl Out_of_bounds else Inr (st\<lparr>gInstance := Instance_ending\<rparr>)
         else Inr st)"

text \<open>The status of an instance that is ending is read from memory that may have been freed.\<close>

definition QnlinkingMQTT_Status :: "QnlinkingMQTT \<Rightarrow> bool run" where
  "QnlinkingMQTT_Status st =
     (case gInstance st of
        No_instance \<Rightarrow> Inr False
      | Instance_ending \<Rightarrow> Inl Out_of_bounds
      | Instance i \<Rightarrow> Inr (loConnected i))"

subsection \<open>Log lines\<close>

text \<open>
  \<open>before\<close> and \<open>after\<close> are what other threads do to the queue before and after the second look at its
  size; none of the looks is under the queue's mutex.
\<close>

record SendAnswers =
  saMessage :: bool
  saBody :: heap_answer
  saBefore :: "IoMessage MessageQueue \<Rightarrow> IoMessage MessageQueue"
  saAfter :: "IoMessage MessageQueue \<Rightarrow> IoMessage MessageQueue"

definition QnlinkingMQTT_SendLog :: "SendAnswers \<Rightarrow> int \<Rightarrow> bytes option \<Rightarrow> QnlinkingMQTT \<Rightarrow> QnlinkingMQTT run" where
  "QnlinkingMQTT_SendLog a nLevel pLog st =
     (case pLog of
        None \<Rightarrow> Inr st
      | Some line \<Rightarrow>
          (case logQueue st of
             None \<Rightarrow> Inl Null_deref
           | Some q \<Rightarrow>
               if nSize q = nCapacity q then Inr st
               else
                 and_then (stringOf line) (\<lambda>str.
                 let nLogLen = (if length str \<le> 256 then length str else 256) in
                 case (saMessage a, malloc (saBody a) (nLogLen + 1)) of
                   (True, Some body) \<Rightarrow>
                     and_then (write_at 0 (replicate (nLogLen + 1) 0) body) (\<lambda>body.
                     and_then (read_at 0 nLogLen line) (\<lambda>data.
                     and_then (write_at 0 data body) (\<lambda>body.
                     let q = saBefore a q in
                     if nSize q = nCapacity q then Inr (st\<lparr>logQueue := Some q\<rparr>)
                     else and_then (SendMessage (Some (saAfter a q)) \<lparr>nMessageID = nLevel, pReqID = None, msgBody = body\<rparr>)
                       (\<lambda>q. Inr (st\<lparr>logQueue := q\<rparr>)))))
                 | _ \<Rightarrow> Inr st)))"

text \<open>
  One turn of the log thread: what it publishes and whether it goes on. \<open>failure\<close> is the text of the
  error line that \<open>LinkMqttPublish\<close> logs when publishing fails, through the callback the library itself has set.
\<close>

definition QnlinkingMQTT_LogThread_turn ::
    "int \<times> int \<Rightarrow> (int \<times> int \<Rightarrow> IoMessage MessageQueue \<Rightarrow> bool \<times> IoMessage MessageQueue) \<Rightarrow> bytes option
       \<Rightarrow> SendAnswers \<Rightarrow> QnlinkingMQTT \<Rightarrow> ((bytes \<times> bytes) option \<times> bool \<times> QnlinkingMQTT) run" where
  "QnlinkingMQTT_LogThread_turn now wait failure a st =
     and_then (ReceiveMessageTimeout now wait (logQueue st) 1000) (\<lambda>(msg, q).
     let st = st\<lparr>logQueue := q\<rparr> in
     case msg of
       None \<Rightarrow> Inr (None, logUsed st, st)
     | Some m \<Rightarrow>
         and_then (stringOf (logTopic st)) (\<lambda>t. and_then (printTopic t) (\<lambda>topic.
         and_then (stringOf (msgBody m)) (\<lambda>line.
         if \<not> logHasInstance st then Inl Null_deref
         else
           (case failure of
              None \<Rightarrow> Inr (Some (c_string topic, line), logUsed st, st)
            | Some err \<Rightarrow>
                and_then (QnlinkingMQTT_SendLog a LINK_LOG_LEVEL_ERROR (Some (err @ [0])) st) (\<lambda>st.
                  Inr (None, logUsed st, st)))))))"


subsection \<open>The log-in is signed\<close>

lemma c_string_end: "0 \<notin> set s \<Longrightarrow> c_string (s @ 0 # r) = s"
  by (simp add: c_string_def takeWhile_append)

lemma stringOf_end: "0 \<notin> set s \<Longrightarrow> stringOf (s @ 0 # r) = Inr s"
  by (simp add: stringOf_def c_string_end)

lemma c_string_no_end: "0 \<notin> set s \<Longrightarrow> c_string s = s"
  by (auto simp: c_string_def takeWhile_eq_all_conv)

lemma strncpy_bytes_string:
  assumes "0 \<notin> set s"
  shows "strncpy_bytes n (s @ [0]) = Inr (take n s @ replicate (n - length s) 0)"
proof (cases "length s < n")
  case True
  then show ?thesis using assms by (simp add: strncpy_bytes_def c_string_end)
next
  case False
  then have "c_string (take n (s @ [0])) = take n s"
    using assms in_set_takeD [of 0 n s] c_string_no_end [of "take n s"] by auto
  then show ?thesis using False by (simp add: strncpy_bytes_def)
qed

lemma account_name_length: "narrow t \<Longrightarrow> length (account_name dak t) \<le> length dak + 46"
  using length_print_int [of t] by (simp add: account_name_def chars_def)

lemma account_name_nonzero: "0 \<notin> set dak \<Longrightarrow> 0 \<notin> set (account_name dak t)"
  using print_int_nonzero [of t] by (simp add: account_name_def chars_def)

lemma GetUsernameSign_name:
  assumes "0 \<notin> set dak" "length dak < 64" "narrow t" "length (account_name dak t) < length u"
  shows "QnlinkingMQTT_GetUsernameSign t u n (Some (dak @ 0 # r)) =
    Inr (LINK_MQTT_SUCCESS, int (length (account_name dak t)),
      account_name dak t @ 0 # drop (length (account_name dak t) + 1) u)"
  using assms account_name_length [of t dak]
  by (simp add: QnlinkingMQTT_GetUsernameSign_def stringOf_end Let_def write_at_def overwrite_def)
    (simp add: account_name_def chars_def)

lemma GetPasswordSign_signature:
  assumes "length junk = 64" "28 \<le> addr" "0 \<notin> set dsk" "length dsk < 64" "length inp < 2 ^ 29" "28 \<le> length out"
  shows "QnlinkingMQTT_GetPasswordSign junk addr (Some (inp @ rest)) (int (length inp)) out m (Some (dsk @ 0 # r)) =
    Inr (LINK_MQTT_SUCCESS, 28, enc_all (rfc2104_hmac_sha1 dsk inp) @ drop 28 out)"
proof -
  have "hmac_sha1 junk dsk inp 20 = (20, rfc2104_hmac_sha1 dsk inp)"
    using hmac_sha1_rfc2104 [of junk dsk inp 20] assms by simp
  moreover have "urlsafe_b64_encode (rfc2104_hmac_sha1 dsk inp) (Some addr) = Inr (28, enc_all (rfc2104_hmac_sha1 dsk inp))"
    using urlsafe_b64_encode_all [of "rfc2104_hmac_sha1 dsk inp" addr] assms(2) by (simp add: length_hmac)
  moreover have "length (enc_all (rfc2104_hmac_sha1 dsk inp)) = 28"
    by (simp add: length_enc_all length_hmac)
  ultimately show ?thesis
    using assms by (simp add: QnlinkingMQTT_GetPasswordSign_def stringOf_end read_at_def write_at_def overwrite_def)
qed

definition signed_login :: "bytes \<Rightarrow> bytes \<Rightarrow> int \<Rightarrow> LogLogin \<Rightarrow> bool" where
  "signed_login dak dsk t i \<longleftrightarrow> loUsername i = account_name dak t @ [0]
     \<and> loPassword i = enc_all (rfc2104_hmac_sha1 dsk (account_name dak t)) @ [0]"

definition keeps_keys :: "bytes \<Rightarrow> bytes \<Rightarrow> QnlinkingMQTT \<Rightarrow> bool" where
  "keeps_keys dak dsk st \<longleftrightarrow> (\<exists>r r'. gLinkDAK st = dak @ 0 # r \<and> gLinkDSK st = dsk @ 0 # r')"

lemma keys_stored:
  assumes "length s \<le> n" "n < 64"
  shows "\<exists>r. overwrite 0 (take n s @ replicate (n - length s) 0) (replicate 64 0) = s @ (0 :: u8) # r"
proof -
  have "overwrite 0 (take n s @ replicate (n - length s) 0) (replicate 64 0)
      = s @ replicate (n - length s) (0 :: u8) @ replicate (64 - n) 0"
    using assms by (simp add: overwrite_def)
  also have "\<dots> = s @ 0 # replicate (63 - length s) 0"
    using assms by (simp flip: replicate_add replicate_Suc) 
  finally show ?thesis by blast
qed

lemma signed_login_new:
  assumes "0 \<notin> set dak" "length dak < 64" "narrow t" "loUsername i = account_name dak t' @ [0]"
    and "length (account_name dak t) = length (account_name dak t')"
    and "length junk = 64" "28 \<le> addr" "0 \<notin> set dsk" "length dsk < 64" "signed_login dak dsk t' i" "keeps_keys dak dsk st"
  shows "\<exists>i'. QnlinkingMQTT_UpdateUserPasswd junk addr t st (Some i) = Inr (LINK_MQTT_SUCCESS, Some i') \<and> signed_login dak dsk t i'"
proof -
  obtain r r' where k: "gLinkDAK st = dak @ 0 # r" "gLinkDSK st = dsk @ 0 # r'"
    using assms(11) by (auto simp: keeps_keys_def)
  have len: "length (account_name dak t) < 2 ^ 29" using account_name_length [OF assms(3), of dak] assms(2) by simp
  have p: "loPassword i = enc_all (rfc2104_hmac_sha1 dsk (account_name dak t')) @ [0]"
    and l: "length (loPassword i) = 29"
    using assms(10) by (simp_all add: signed_login_def length_enc_all length_hmac)
  have u: "QnlinkingMQTT_GetUsernameSign t (loUsername i) 0 (Some (gLinkDAK st)) =
      Inr (LINK_MQTT_SUCCESS, int (length (account_name dak t)), account_name dak t @ [0])"
    using GetUsernameSign_name [of dak t "loUsername i" 0 r] assms k by simp
  have s: "QnlinkingMQTT_GetPasswordSign junk addr (Some (account_name dak t @ [0])) (int (length (account_name dak t)))
      (loPassword i) 0 (Some (gLinkDSK st)) = Inr (LINK_MQTT_SUCCESS, 28, enc_all (rfc2104_hmac_sha1 dsk (account_name dak t)) @ [0])"
    using GetPasswordSign_signature [OF assms(6-9) len, of "loPassword i" "[0]" 0 r'] k l p
    by (simp add: length_enc_all length_hmac)
  show ?thesis
    unfolding QnlinkingMQTT_UpdateUserPasswd_def by (simp add: u s signed_login_def)
qed

text \<open>The events of an instance, each at its time.\<close>

fun login_events :: "bytes \<Rightarrow> nat \<Rightarrow> int list \<Rightarrow> QnlinkingMQTT \<Rightarrow> QnlinkingMQTT run" where
  "login_events junk addr [] st = Inr st"
| "login_events junk addr (t # ts) st =
     and_then (QnlinkingMQTT_EventCallback junk addr t True st) (login_events junk addr ts)"

definition good_answers :: "InitAnswers \<Rightarrow> bool" where
  "good_answers a \<longleftrightarrow> narrow (iaTime a) \<and> length (iaJunk a) = 64 \<and> 28 \<le> iaAddr a \<and> iaStruct a \<and> iaUser a \<and> iaPass a
     \<and> iaQueueStruct a \<and> iaQueue a \<noteq> None"

lemma Init_result:
  assumes "good_answers a" "0 \<notin> set dak" "0 \<notin> set dsk" "length dak \<le> n" "n < 64" "length dsk \<le> n"
  obtains st q i where "QnlinkingMQTT_Init a (dak @ [0]) n (dsk @ [0]) m zeroQnlinkingMQTT = Inr st"
    "gInstance st = Instance i" "signed_login dak dsk (iaTime a) i" "keeps_keys dak dsk st" "gInitialized st"
    "logQueue st = Some q" "mq_inv 64 q" "mq_items q = []" "logUsed st" "logHasInstance st"
    "logTopic st = log_topic @ replicate (128 - length log_topic) 0"
proof -
  have a: "narrow (iaTime a)" "length (iaJunk a) = 64" "28 \<le> iaAddr a" "iaStruct a" "iaUser a" "iaPass a" "iaQueueStruct a"
    using assms(1) by (simp_all add: good_answers_def)
  obtain j where j: "iaQueue a = Some j" using assms(1) by (auto simp: good_answers_def)
  let ?name = "account_name dak (iaTime a)"
  let ?sign = "enc_all (rfc2104_hmac_sha1 dsk ?name)"
  let ?d = "overwrite 0 (take n dak @ replicate (n - length dak) 0) (replicate 64 0)"
  let ?s = "overwrite 0 (take n dsk @ replicate (n - length dsk) 0) (replicate 64 0)"
  obtain r r' where k: "?d = dak @ 0 # r" "?s = dsk @ 0 # r'"
    using keys_stored [of dak n] keys_stored [of dsk n] assms by blast
  have len: "length ?name < 256" "length ?name < 2 ^ 29"
    using account_name_length [OF a(1), of dak] assms(4,5) by simp_all
  have u: "QnlinkingMQTT_GetUsernameSign (iaTime a) (replicate 256 0) 0 (Some (dak @ 0 # r)) =
      Inr (LINK_MQTT_SUCCESS, int (length ?name), ?name @ 0 # replicate (255 - length ?name) 0)"
    using GetUsernameSign_name [of dak "iaTime a" "replicate 256 0" 0 r] assms a len by simp
  have s: "QnlinkingMQTT_GetPasswordSign (iaJunk a) (iaAddr a) (Some (?name @ 0 # replicate (255 - length ?name) 0))
      (int (length ?name)) (replicate 256 0) 0 (Some (dsk @ 0 # r')) = Inr (LINK_MQTT_SUCCESS, 28, ?sign @ 0 # replicate 227 0)"
    using GetPasswordSign_signature [OF a(2,3) assms(3) _ len(2), of "replicate 256 0" "0 # replicate (255 - length ?name) 0" 0 r']
      assms(5,6) by (simp flip: replicate_Suc)
  obtain q where q: "CreateMessageQueue True (Some j) 64 = Some q"
    by (simp add: CreateMessageQueue_def)
  have strings: "c_string (?name @ 0 # x) = ?name" "c_string (?sign @ 0 # x) = ?sign" for x
    using c_string_end [OF account_name_nonzero [OF assms(2)]] c_string_end [OF enc_all_nonzero] by auto
  have w: "write_at 0 (take n dak @ replicate (n - length dak) 0) (replicate 64 0) = Inr (dak @ 0 # r)"
    "write_at 0 (take n dsk @ replicate (n - length dsk) 0) (replicate 64 0) = Inr (dsk @ 0 # r')"
    using k assms(4-6) by (simp_all add: write_at_def)
  have t: "write_at 0 (log_topic @ [0]) (replicate 128 0) = Inr (log_topic @ replicate (128 - length log_topic) 0)"
    by (simp add: write_at_def overwrite_def log_topic_def chars_def flip: replicate_Suc)
  let ?i = "\<lparr>loUsername = ?name @ [0], loPassword = ?sign @ [0], loConnected = False\<rparr>"
  let ?st = "zeroQnlinkingMQTT\<lparr>gLinkDAK := dak @ 0 # r, gLinkDSK := dsk @ 0 # r', gInstance := Instance ?i, gInitialized := True,
     logQueue := Some q, logTopic := log_topic @ replicate (128 - length log_topic) 0, logHasInstance := True,
     logUsed := True, logThreads := 1\<rparr>"
  have z: "gLinkDAK zeroQnlinkingMQTT = replicate 64 0" "gLinkDSK zeroQnlinkingMQTT = replicate 64 0"
    "logTopic zeroQnlinkingMQTT = replicate 128 0" "\<not> gInitialized zeroQnlinkingMQTT" "logThreads zeroQnlinkingMQTT = 0"
    by (simp_all add: zeroQnlinkingMQTT_def)
  have "QnlinkingMQTT_Init a (dak @ [0]) n (dsk @ [0]) m zeroQnlinkingMQTT = Inr ?st"
    using a j q by (simp add: QnlinkingMQTT_Init_def strncpy_bytes_string assms(2,3) z w u s t LinkMqttCreateInstance_def
      MallocAndStrcpy_def strings Let_def del: replicate.simps)
  then show thesis
    by (rule that [of ?st ?i q])
      (use CreateMessageQueue_new [OF q] in \<open>auto simp: signed_login_def keeps_keys_def\<close>)
qed

theorem login_stays_signed:
  assumes "good_answers a" "0 \<notin> set dak" "0 \<notin> set dsk" "length dak \<le> n" "n < 64" "length dsk \<le> n"
    and "\<forall>t \<in> set ts. narrow t \<and> length (account_name dak t) = length (account_name dak (iaTime a))"
    and "QnlinkingMQTT_Init a (dak @ [0]) n (dsk @ [0]) m zeroQnlinkingMQTT = Inr st"
  shows "\<exists>st' i. login_events (iaJunk a) (iaAddr a) ts st = Inr st' \<and> gInstance st' = Instance i
    \<and> signed_login dak dsk (last (iaTime a # ts)) i"
proof -
  have run: "\<exists>st' i. login_events (iaJunk a) (iaAddr a) ts s = Inr st' \<and> gInstance st' = Instance i
      \<and> signed_login dak dsk (last (t # ts)) i"
    if "gInstance s = Instance i" "signed_login dak dsk t i" "keeps_keys dak dsk s"
      "\<forall>t' \<in> set ts. narrow t' \<and> length (account_name dak t') = length (account_name dak t)" for ts s i t
    using that
  proof (induction ts arbitrary: s i t)
    case Nil
    then show ?case by simp
  next
    case (Cons t' ts)
    have a: "length (iaJunk a) = 64" "28 \<le> iaAddr a" using assms(1) by (simp_all add: good_answers_def)
    obtain i' where i': "QnlinkingMQTT_UpdateUserPasswd (iaJunk a) (iaAddr a) t' s (Some i) = Inr (LINK_MQTT_SUCCESS, Some i')"
      "signed_login dak dsk t' i'"
      using signed_login_new [of dak t' i t "iaJunk a" "iaAddr a" dsk s] Cons.prems assms a by (auto simp: signed_login_def)
    let ?s = "s\<lparr>gInstance := Instance i'\<rparr>"
    have "QnlinkingMQTT_EventCallback (iaJunk a) (iaAddr a) t' True s = Inr ?s"
      by (simp add: QnlinkingMQTT_EventCallback_def Cons.prems(1) i'(1))
    moreover have "keeps_keys dak dsk ?s" using Cons.prems(3) by (simp add: keeps_keys_def)
    ultimately show ?case
      using Cons.IH [of ?s i' t'] i'(2) Cons.prems(4) by simp
  qed
  obtain st0 i q where "QnlinkingMQTT_Init a (dak @ [0]) n (dsk @ [0]) m zeroQnlinkingMQTT = Inr st0"
    "gInstance st0 = Instance i" "signed_login dak dsk (iaTime a) i" "keeps_keys dak dsk st0"
    using Init_result [OF assms(1-6)] by metis
  then show ?thesis
    using run [of st i "iaTime a" ts] assms(7,8) by simp
qed


subsection \<open>Log lines arrive\<close>

text \<open>A message as \<open>QnlinkingMQTT_SendLog\<close> makes it of a line.\<close>

definition log_message :: "int \<Rightarrow> bytes \<Rightarrow> IoMessage" where
  "log_message level line = \<lparr>nMessageID = level, pReqID = None, msgBody = take 256 line @ [0]\<rparr>"

definition quiet :: "SendAnswers \<Rightarrow> bool" where
  "quiet a \<longleftrightarrow> saMessage a \<and> saBody a \<noteq> None \<and> saBefore a = id \<and> saAfter a = id"

lemma SendLog_queues:
  assumes "logQueue st = Some q" "mq_inv 64 q" "length (mq_items q) < 64" "0 \<notin> set line" "quiet a"
  obtains q' where "QnlinkingMQTT_SendLog a level (Some (line @ [0])) st = Inr (st\<lparr>logQueue := Some q'\<rparr>)"
    "mq_inv 64 q'" "mq_items q' = mq_items q @ [log_message level line]"
proof -
  let ?n = "if length line \<le> 256 then length line else 256"
  obtain j where j: "saBody a = Some j" and a: "saMessage a" "saBefore a = id" "saAfter a = id"
    using assms(5) by (auto simp: quiet_def)
  have size: "nSize q \<noteq> nCapacity q"
    using assms(2,3) by (auto simp: mq_inv_def mq_items_def)
  have body: "write_at 0 (take 256 line) (0 # replicate (length (take 256 line)) 0) = Inr (take 256 line @ [0])"
  proof -
    have "drop k (0 # replicate k 0) = [0 :: u8]" for k
      using drop_replicate [of k "Suc k" "0 :: u8"] by simp
    then show ?thesis by (simp add: write_at_def overwrite_def del: length_take)
  qed
  have n: "?n = length (take 256 line)" by simp
  have line: "read_at 0 (length (take 256 line)) (line @ [0]) = Inr (take 256 line)"
    by (simp add: read_at_def min_def)
  obtain q' where q': "SendMessage (Some q) (log_message level line) = Inr (Some q')" "mq_inv 64 q'"
    "mq_items q' = last_n 64 (mq_items q @ [log_message level line])"
    using SendMessage_latest [OF assms(2)] by blast
  have zero: "write_at 0 (replicate (k + 1) 0) (map j [0..<k + 1]) = Inr (replicate (k + 1) 0)" for k
    by (simp add: write_at_def overwrite_def)
  have "QnlinkingMQTT_SendLog a level (Some (line @ [0])) st = Inr (st\<lparr>logQueue := Some q'\<rparr>)"
    using q'(1) zero [of "length (take 256 line)"]
    by (simp add: QnlinkingMQTT_SendLog_def assms(1) size stringOf_end [OF assms(4)] a j malloc_def n line body log_message_def Let_def
      del: length_take)
  moreover have "mq_items q' = mq_items q @ [log_message level line]"
    using q'(3) assms(3) by (simp add: last_n_def)
  ultimately show thesis using q'(2) that by blast
qed

definition log_ready :: "QnlinkingMQTT \<Rightarrow> IoMessage list \<Rightarrow> bool" where
  "log_ready st ms \<longleftrightarrow> (\<exists>q. logQueue st = Some q \<and> mq_inv 64 q \<and> mq_items q = ms) \<and> logHasInstance st
     \<and> logTopic st = log_topic @ replicate (128 - length log_topic) 0"

lemma log_topic_plain: "0 \<notin> set log_topic" "length log_topic = 37"
  by (simp_all add: log_topic_def chars_def)

lemma LogThread_receives:
  assumes "log_ready st (log_message level line # ms)" "0 \<notin> set line"
  obtains q' where "mq_inv 64 q'" "mq_items q' = ms"
    "QnlinkingMQTT_LogThread_turn now wait None a st = Inr (Some (log_topic, take 256 line), logUsed st, st\<lparr>logQueue := Some q'\<rparr>)"
    "QnlinkingMQTT_LogThread_turn now wait (Some err) a st =
       and_then (QnlinkingMQTT_SendLog a LINK_LOG_LEVEL_ERROR (Some (err @ [0])) (st\<lparr>logQueue := Some q'\<rparr>)) (\<lambda>st. Inr (None, logUsed st, st))"
proof -
  obtain q where q: "logQueue st = Some q" "mq_inv 64 q" "mq_items q = log_message level line # ms"
    using assms(1) by (auto simp: log_ready_def)
  obtain q' where q': "takeMessage q = Inr (Some (log_message level line), q')" "mq_inv 64 q'" "mq_items q' = ms"
    using takeMessage_oldest [OF q(2,3)] by blast
  have "nSize q \<noteq> 0"
    using mq_items_Nil [OF q(2)] q(3) by simp
  then have recv: "ReceiveMessageTimeout now wait (logQueue st) 1000 = Inr (Some (log_message level line), Some q')"
    using q(1) q'(1) by (simp add: ReceiveMessageTimeout_def)
  have z: "replicate (128 - length log_topic) 0 = (0 :: u8) # replicate 90 0"
    by (simp add: log_topic_plain flip: replicate_Suc)
  have topic: "stringOf (logTopic st) = Inr log_topic"
    using assms(1) stringOf_end [OF log_topic_plain(1)] by (simp add: log_ready_def z)
  have print: "\<exists>b. printTopic log_topic = Inr b \<and> c_string b = log_topic"
    by (simp add: printTopic_def write_at_def overwrite_def log_topic_plain c_string_end)
  have body: "stringOf (msgBody (log_message level line)) = Inr (take 256 line)"
    using assms(2) in_set_takeD [of 0 256 line] stringOf_end [of "take 256 line" "[]"] by (auto simp: log_message_def)
  have inst: "logHasInstance st" using assms(1) by (simp add: log_ready_def)
  show thesis
    by (rule that [OF q'(2,3)]) (use print in \<open>auto simp: QnlinkingMQTT_LogThread_turn_def recv topic body inst\<close>)
qed

text \<open>The lines the application logs, and the turns of the thread while publishing succeeds.\<close>

fun send_lines :: "SendAnswers \<Rightarrow> (int \<times> bytes) list \<Rightarrow> QnlinkingMQTT \<Rightarrow> QnlinkingMQTT run" where
  "send_lines a [] st = Inr st"
| "send_lines a ((level, line) # ls) st =
     and_then (QnlinkingMQTT_SendLog a level (Some (line @ [0])) st) (send_lines a ls)"

fun log_turns :: "nat \<Rightarrow> bytes option \<Rightarrow> SendAnswers \<Rightarrow> QnlinkingMQTT \<Rightarrow> ((bytes \<times> bytes) option list \<times> QnlinkingMQTT) run" where
  "log_turns 0 failure a st = Inr ([], st)"
| "log_turns (Suc n) failure a st =
     and_then (QnlinkingMQTT_LogThread_turn (0, 0) (\<lambda>_ q. (True, q)) failure a st) (\<lambda>(out, _, st).
     and_then (log_turns n failure a st) (\<lambda>(outs, st). Inr (out # outs, st)))"

lemma send_lines_queues:
  assumes "log_ready st ms" "length ms + length ls \<le> 64" "\<forall>(level, line) \<in> set ls. 0 \<notin> set line" "quiet a"
  shows "\<exists>st'. send_lines a ls st = Inr st' \<and> log_ready st' (ms @ map (\<lambda>(level, line). log_message level line) ls)"
  using assms
proof (induction ls arbitrary: st ms)
  case Nil
  then show ?case by simp
next
  case (Cons l ls)
  obtain level line where l: "l = (level, line)" by (cases l)
  obtain q where q: "logQueue st = Some q" "mq_inv 64 q" "mq_items q = ms"
    using Cons.prems(1) by (auto simp: log_ready_def)
  obtain q' where q': "QnlinkingMQTT_SendLog a level (Some (line @ [0])) st = Inr (st\<lparr>logQueue := Some q'\<rparr>)"
    "mq_inv 64 q'" "mq_items q' = ms @ [log_message level line]"
    using SendLog_queues [OF q(1,2), of line a level] Cons.prems q(3) l by auto
  have "log_ready (st\<lparr>logQueue := Some q'\<rparr>) (ms @ [log_message level line])"
    using Cons.prems(1) q' by (simp add: log_ready_def)
  then show ?case
    using Cons.IH [of "st\<lparr>logQueue := Some q'\<rparr>" "ms @ [log_message level line]"] Cons.prems l q'(1) by simp
qed

lemma log_turns_publish:
  assumes "log_ready st (map (\<lambda>(level, line). log_message level line) ls)" "\<forall>(level, line) \<in> set ls. 0 \<notin> set line"
  shows "\<exists>st'. log_turns (length ls) None a st = Inr (map (\<lambda>(level, line). Some (log_topic, take 256 line)) ls, st') \<and> log_ready st' []"
  using assms
proof (induction ls arbitrary: st)
  case Nil
  then show ?case by simp
next
  case (Cons l ls)
  obtain level line where l: "l = (level, line)" by (cases l)
  obtain q' where q': "mq_inv 64 q'" "mq_items q' = map (\<lambda>(level, line). log_message level line) ls"
    "QnlinkingMQTT_LogThread_turn (0, 0) (\<lambda>_ q. (True, q)) None a st =
       Inr (Some (log_topic, take 256 line), logUsed st, st\<lparr>logQueue := Some q'\<rparr>)"
    using LogThread_receives [where st = st and level = level and line = line and ms = "map (\<lambda>(level, line). log_message level line) ls" and now = "(0, 0)" and wait = "\<lambda>_ q. (True, q)" and a = a and err = "[]"] Cons.prems l by auto
  have "log_ready (st\<lparr>logQueue := Some q'\<rparr>) (map (\<lambda>(level, line). log_message level line) ls)"
    using Cons.prems(1) q' by (simp add: log_ready_def)
  then show ?case
    using Cons.IH [of "st\<lparr>logQueue := Some q'\<rparr>"] Cons.prems l q'(3) by auto
qed

theorem log_lines_published:
  assumes "good_answers b" "0 \<notin> set dak" "0 \<notin> set dsk" "length dak \<le> n" "n < 64" "length dsk \<le> n"
    and "QnlinkingMQTT_Init b (dak @ [0]) n (dsk @ [0]) m zeroQnlinkingMQTT = Inr st"
    and "quiet a" "length ls \<le> 64" "\<forall>(level, line) \<in> set ls. 0 \<notin> set line"
  shows "\<exists>st' st''. send_lines a ls st = Inr st' \<and>
    log_turns (length ls) None a st' = Inr (map (\<lambda>(level, line). Some (log_topic, take 256 line)) ls, st'')"
proof -
  have "log_ready st []"
    using Init_result [OF assms(1-6), of m] assms(7) by (auto simp: log_ready_def)
  then show ?thesis
    using send_lines_queues [of st "[]" ls a] log_turns_publish [of _ ls a] assms(8-10) by fastforce
qed

subsection \<open>Failures\<close>

text \<open>
  A line that cannot be published leaves a line about that in the queue, whose publishing fails in turn: while the
  instance is not connected, the queue never empties again, and the thread never waits.
\<close>

lemma failed_lines_never_end:
  assumes "log_ready st (map (\<lambda>(level, line). log_message level line) ls)" "ls \<noteq> []" "length ls \<le> 64"
    and "\<forall>(level, line) \<in> set ls. 0 \<notin> set line" "0 \<notin> set err" "quiet a"
  shows "\<exists>ls' st'. log_turns k (Some err) a st = Inr (replicate k None, st')
    \<and> log_ready st' (map (\<lambda>(level, line). log_message level line) ls') \<and> length ls' = length ls"
  using assms(1-4)
proof (induction k arbitrary: st ls)
  case 0
  then show ?case by auto
next
  case (Suc k)
  obtain level line ls' where l: "ls = (level, line) # ls'" using Suc.prems(2) by (cases ls) auto
  let ?ms = "map (\<lambda>(level, line). log_message level line) ls'"
  obtain q where q: "mq_inv 64 q" "mq_items q = ?ms" "QnlinkingMQTT_LogThread_turn (0, 0) (\<lambda>_ q. (True, q)) (Some err) a st =
       and_then (QnlinkingMQTT_SendLog a LINK_LOG_LEVEL_ERROR (Some (err @ [0])) (st\<lparr>logQueue := Some q\<rparr>)) (\<lambda>st. Inr (None, logUsed st, st))"
    using LogThread_receives [where st = st and level = level and line = line and ms = ?ms and now = "(0, 0)" and wait = "\<lambda>_ q. (True, q)" and a = a and err = err] Suc.prems l by auto
  obtain q' where q': "QnlinkingMQTT_SendLog a LINK_LOG_LEVEL_ERROR (Some (err @ [0])) (st\<lparr>logQueue := Some q\<rparr>) = Inr (st\<lparr>logQueue := Some q'\<rparr>)"
    "mq_inv 64 q'" "mq_items q' = ?ms @ [log_message LINK_LOG_LEVEL_ERROR err]"
    using SendLog_queues [of "st\<lparr>logQueue := Some q\<rparr>" q err a LINK_LOG_LEVEL_ERROR] q Suc.prems(3) l assms(5,6) by auto
  have "log_ready (st\<lparr>logQueue := Some q'\<rparr>) (map (\<lambda>(level, line). log_message level line) (ls' @ [(LINK_LOG_LEVEL_ERROR, err)]))"
    using Suc.prems(1) q' by (simp add: log_ready_def)
  then show ?case
    using Suc.IH [of "st\<lparr>logQueue := Some q'\<rparr>" "ls' @ [(LINK_LOG_LEVEL_ERROR, err)]"] Suc.prems l q(3) q'(1) assms(5) by auto
qed

text \<open>
  The number of bytes kept of the secret is the length of the access key; of a longer secret the end is
  missing, and the signatures are made with another key than the server's.
\<close>

lemma long_secret_is_cut:
  assumes "good_answers a" "0 \<notin> set dak" "0 \<notin> set dsk" "length dak < 64" "length dak < length dsk"
  shows "\<exists>st i. QnlinkingMQTT_Init a (dak @ [0]) (length dak) (dsk @ [0]) (length dsk) zeroQnlinkingMQTT = Inr st
    \<and> gInstance st = Instance i \<and> signed_login dak (take (length dak) dsk) (iaTime a) i"
proof -
  let ?k = "take (length dak) dsk"
  have "0 \<notin> set ?k" using assms(3) in_set_takeD by fastforce
  then have k: "length ?k \<le> length dak" "0 \<notin> set ?k" by simp_all
  obtain st i where "QnlinkingMQTT_Init a (dak @ [0]) (length dak) (?k @ [0]) (length dsk) zeroQnlinkingMQTT = Inr st"
    "gInstance st = Instance i" "signed_login dak ?k (iaTime a) i"
    by (rule Init_result [OF assms(1,2) k(2) order_refl assms(4) k(1), of "length dsk"])
  moreover have "strncpy_bytes (length dak) (?k @ [0]) = strncpy_bytes (length dak) (dsk @ [0])"
    using assms \<open>0 \<notin> set ?k\<close> by (simp add: strncpy_bytes_string)
  ultimately show ?thesis
    by (auto simp: QnlinkingMQTT_Init_def)
qed

lemma long_access_key_overruns:
  assumes "0 \<notin> set dak" "64 < n"
  shows "QnlinkingMQTT_Init a (dak @ [0]) n pDsk m zeroQnlinkingMQTT = Inl Out_of_bounds"
proof -
  have "length (take n dak @ replicate (n - length dak) 0) = n"
    by (simp add: min_def)
  then have "write_at 0 (take n dak @ replicate (n - length dak) 0) (replicate 64 0) = Inl Out_of_bounds"
    using assms(2) by (intro write_at_fault) simp
  then show ?thesis
    using assms(1) by (simp add: QnlinkingMQTT_Init_def zeroQnlinkingMQTT_def strncpy_bytes_string)
qed

text \<open>Without an instance the thread runs all the same, and the first line makes it use the null pointer.\<close>

lemma log_without_instance_faults:
  assumes "logQueue st = Some q" "mq_inv 64 q" "mq_items q = log_message level line # ms" "\<not> logHasInstance st"
  shows "\<exists>f. QnlinkingMQTT_LogThread_turn now wait failure a st = Inl f"
proof -
  obtain q' where q': "takeMessage q = Inr (Some (log_message level line), q')"
    using takeMessage_oldest [OF assms(2,3)] by blast
  have "nSize q \<noteq> 0"
    using mq_items_Nil [OF assms(2)] assms(3) by simp
  then have recv: "ReceiveMessageTimeout now wait (logQueue st) 1000 = Inr (Some (log_message level line), Some q')"
    using assms(1) q' by (simp add: ReceiveMessageTimeout_def)
  show ?thesis
    by (auto simp: QnlinkingMQTT_LogThread_turn_def recv assms(4) and_then_def Let_def split: sum.splits)
qed

text \<open>
  \<open>QnlinkingMQTT_Cleanup\<close> takes the queue away but leaves the callback to \<open>LinkCleanup\<close>, so a line logged
  in between reads through a null pointer; and since it leaves the other variables, a new start does nothing, after which the callback is set again.
\<close>

lemma log_after_cleanup_faults:
  assumes "logUsed st" "gInitialized st" "gInstance st = Instance i"
    and "\<And>s. gInitialized (join s) = gInitialized s \<and> gInstance (join s) = gInstance s"
  shows "\<exists>st'. QnlinkingMQTT_Cleanup join st = Inr st' \<and> QnlinkingMQTT_SendLog a level (Some line) st' = Inl Null_deref
    \<and> QnlinkingMQTT_Init b pDak n pDsk m st' = Inr st' \<and> QnlinkingMQTT_Status st' = Inl Out_of_bounds"
  using assms by (simp add: QnlinkingMQTT_Cleanup_def QnlinkingMQTT_SendLog_def QnlinkingMQTT_Init_def
    QnlinkingMQTT_Status_def DestroyMessageQueue_def destroyMark_def Let_def split: option.splits)

end
