(* ===== verification/HttpAuth.thy ===== *)
theory HttpAuth
  imports Ghttp Base64 PutBuffer
begin

section \<open>Basic authentication (libghttp/http_base64.c, libghttp/ghttp.c)\<close>

text \<open>
  The user name and the password of a request are sent in base64. The encoder indexes its alphabet with
  characters, which are signed on some of the machines the library is built for; \<open>isSigned\<close> says
  whether they are.
\<close>

unbundle bit_operations_syntax

subsection \<open>Model\<close>

definition b64_alphabet :: bytes where
  "b64_alphabet =
    [65, 66, 67, 68, 69, 70, 71, 72, 73, 74, 75, 76, 77, 78, 79, 80,
     81, 82, 83, 84, 85, 86, 87, 88, 89, 90, 97, 98, 99, 100, 101, 102,
     103, 104, 105, 106, 107, 108, 109, 110, 111, 112, 113, 114, 115, 116, 117, 118,
     119, 120, 121, 122, 48, 49, 50, 51, 52, 53, 54, 55, 56, 57, 43, 47,
     61]"

definition char_value :: "bool \<Rightarrow> u8 \<Rightarrow> int" where
  "char_value isSigned c = (if isSigned then sint c else uint c)"

definition b64_at :: "int \<Rightarrow> u8 run" where
  "b64_at i = (if 0 \<le> i \<and> i < 65 then Inr (b64_alphabet ! nat i) else Inl Out_of_bounds)"

fun b64_group :: "int list \<Rightarrow> bytes run" where
  "b64_group [] = Inr []"
| "b64_group (i # is) = and_then (b64_at i) (\<lambda>c. and_then (b64_group is) (\<lambda>cs. Inr (c # cs)))"

text \<open>The loop over whole groups and the bytes left over; \<open>v\<close> is the value of a character.\<close>

fun b64_groups :: "(u8 \<Rightarrow> int) \<Rightarrow> bytes \<Rightarrow> bytes run" where
  "b64_groups v (a # b # c # rest) =
     and_then (b64_group [drop_bit 2 (v a), push_bit 4 (v a) AND 0x30 OR drop_bit 4 (v b),
       push_bit 2 (v b) AND 0x3c OR drop_bit 6 (v c), v c AND 0x3f]) (\<lambda>g.
     and_then (b64_groups v rest) (\<lambda>gs. Inr (g @ gs)))"
| "b64_groups v [a, b] =
     and_then (b64_group [drop_bit 2 (v a), push_bit 4 (v a) AND 0x30 OR drop_bit 4 (v b),
       push_bit 2 (v b) AND 0x3c]) (\<lambda>g. Inr (g @ [61]))"
| "b64_groups v [a] = and_then (b64_group [drop_bit 2 (v a), push_bit 4 (v a) AND 0x30]) (\<lambda>g. Inr (g @ [61, 61]))"
| "b64_groups v [] = Inr []"

text \<open>The result of \<open>malloc\<close> is used as it comes; \<open>allocOk\<close> says whether it is a block.\<close>

definition http_base64_encode :: "bool \<Rightarrow> bool \<Rightarrow> bytes option \<Rightarrow> bytes option run" where
  "http_base64_encode isSigned allocOk inp =
     (case inp of
        None \<Rightarrow> Inr None
      | Some s \<Rightarrow>
          let inlen = length s;
              outlen = inlen * 4 div 3;
              outlen = (if 0 < inlen mod 3 then outlen + (4 - inlen mod 3) else outlen)
          in if \<not> allocOk then Inl Null_deref
             else if inlen = 0 then Inr (Some [])
             else and_then (b64_groups (char_value isSigned) s) (\<lambda>out.
               and_then (write_at 0 (out @ [0]) (replicate (outlen + 1) 0)) (\<lambda>b. Inr (Some (c_string b)))))"

definition auth_token :: "bool \<Rightarrow> bool \<Rightarrow> bytes \<Rightarrow> bytes \<Rightarrow> bytes option run" where
  "auth_token isSigned allocOk user pass =
     and_then (http_base64_encode isSigned allocOk (Some (user @ [58] @ pass))) (\<lambda>r.
       Inr (map_option ((@) (chars ''Basic '')) r))"

definition ghttp_set_authinfo ::
    "bool \<Rightarrow> bool \<Rightarrow> bytes option \<Rightarrow> bytes option \<Rightarrow> ghttp_request \<Rightarrow> (int \<times> ghttp_request) run" where
  "ghttp_set_authinfo isSigned allocOk user pass g =
     (case (user, pass) of
        (Some u, Some p) \<Rightarrow>
          if u = [] \<or> p = [] then Inr (0, g\<lparr>gUser := None, gPass := None, gAuth := None\<rparr>)
          else and_then (auth_token isSigned allocOk u p) (\<lambda>r.
            Inr (case r of None \<Rightarrow> (-1, g) | Some t \<Rightarrow> (0, g\<lparr>gUser := Some u, gPass := Some p, gAuth := Some t\<rparr>)))
      | _ \<Rightarrow> Inr (0, g\<lparr>gUser := None, gPass := None, gAuth := None\<rparr>))"

definition ghttp_set_proxy_authinfo ::
    "bool \<Rightarrow> bool \<Rightarrow> bytes option \<Rightarrow> bytes option \<Rightarrow> ghttp_request \<Rightarrow> (int \<times> ghttp_request) run" where
  "ghttp_set_proxy_authinfo isSigned allocOk user pass g =
     (case (user, pass) of
        (Some u, Some p) \<Rightarrow>
          if u = [] \<or> p = [] then Inr (0, g\<lparr>gProxyUser := None, gProxyPass := None, gProxyAuth := None\<rparr>)
          else and_then (auth_token isSigned allocOk u p) (\<lambda>r.
            Inr (case r of None \<Rightarrow> (-1, g) | Some t \<Rightarrow> (0, g\<lparr>gProxyUser := Some u, gProxyPass := Some p, gProxyAuth := Some t\<rparr>)))
      | _ \<Rightarrow> Inr (0, g\<lparr>gProxyUser := None, gProxyPass := None, gProxyAuth := None\<rparr>))"

subsection \<open>The two encoders agree\<close>

text \<open>The standard alphabet differs from the URL-safe one in two characters.\<close>

definition standard_char :: "u8 \<Rightarrow> u8" where
  "standard_char c = (if c = 45 then 43 else if c = 95 then 47 else c)"

definition urlsafe_char :: "u8 \<Rightarrow> u8" where
  "urlsafe_char c = (if c = 43 then 45 else if c = 47 then 95 else c)"

definition pieces_ok :: "nat \<Rightarrow> bool" where
  "pieces_ok n = (let c = word_of_nat n :: u8; v = int n in
     drop_bit 2 v = uint (drop_bit 2 (c AND 0xfc)) \<and> push_bit 4 v AND 0x30 = uint (push_bit 4 (c AND 0x03))
     \<and> drop_bit 4 v = uint (drop_bit 4 (c AND 0xf0)) \<and> push_bit 2 v AND 0x3c = uint (push_bit 2 (c AND 0x0f))
     \<and> drop_bit 6 v = uint (drop_bit 6 (c AND 0xc0)) \<and> v AND 0x3f = uint (c AND 0x3f))"

lemma pieces_checked: "all_below 256 pieces_ok"
  by code_simp

lemma pieces:
  fixes c :: u8
  shows "drop_bit 2 (uint c) = uint (drop_bit 2 (c AND 0xfc))" "push_bit 4 (uint c) AND 0x30 = uint (push_bit 4 (c AND 0x03))"
    "drop_bit 4 (uint c) = uint (drop_bit 4 (c AND 0xf0))" "push_bit 2 (uint c) AND 0x3c = uint (push_bit 2 (c AND 0x0f))"
    "drop_bit 6 (uint c) = uint (drop_bit 6 (c AND 0xc0))" "uint c AND 0x3f = uint (c AND 0x3f)"
proof -
  have "unat c < 256" using unsigned_less [of c, where 'a = nat] by simp
  then have "pieces_ok (unat c)" using pieces_checked by (simp add: all_below_iff)
  then show "drop_bit 2 (uint c) = uint (drop_bit 2 (c AND 0xfc))" "push_bit 4 (uint c) AND 0x30 = uint (push_bit 4 (c AND 0x03))"
    "drop_bit 4 (uint c) = uint (drop_bit 4 (c AND 0xf0))" "push_bit 2 (uint c) AND 0x3c = uint (push_bit 2 (c AND 0x0f))"
    "drop_bit 6 (uint c) = uint (drop_bit 6 (c AND 0xc0))" "uint c AND 0x3f = uint (c AND 0x3f)"
    by (simp_all add: pieces_ok_def Let_def)
qed

definition alphabets_ok :: "nat \<Rightarrow> bool" where
  "alphabets_ok i = (b64_alphabet ! i = standard_char (b64_chars ! i) \<and> urlsafe_char (b64_alphabet ! i) = b64_chars ! i)"

lemma alphabets_checked: "all_below 64 alphabets_ok"
  by code_simp

lemma b64_at_index:
  assumes "i < (64 :: u8)"
  shows "b64_at (uint i) = Inr (standard_char (b64_chars ! unat i))"
    and "urlsafe_char (standard_char (b64_chars ! unat i)) = b64_chars ! unat i"
proof -
  have n: "unat i < 64" using assms by (simp add: word_less_nat_alt)
  then have ok: "alphabets_ok (unat i)" using alphabets_checked by (simp add: all_below_iff)
  have e: "b64_alphabet ! unat i = standard_char (b64_chars ! unat i)" "urlsafe_char (b64_alphabet ! unat i) = b64_chars ! unat i"
    using ok unfolding alphabets_ok_def by blast+
  have "uint i = int (unat i)" by simp
  then have "uint i < 65" using n by linarith
  then show "b64_at (uint i) = Inr (standard_char (b64_chars ! unat i))"
    unfolding b64_at_def by (simp add: e(1))
  show "urlsafe_char (standard_char (b64_chars ! unat i)) = b64_chars ! unat i"
    using e(2) unfolding e(1) .
qed

lemma b64_group_indexes:
  assumes "\<forall>i \<in> set is. i < (64 :: u8)"
  shows "b64_group (map uint is) = Inr (map (\<lambda>i. standard_char (b64_chars ! unat i)) is)"
  using assms by (induction "is") (simp_all add: b64_at_index)

lemma b64_group_chars:
  "b64_group [drop_bit 2 (uint a), push_bit 4 (uint a) AND 0x30 OR drop_bit 4 (uint b),
     push_bit 2 (uint b) AND 0x3c OR drop_bit 6 (uint c), uint c AND 0x3f] = Inr (map standard_char (enc_chars a b c))"
proof -
  have "[drop_bit 2 (uint a), push_bit 4 (uint a) AND 0x30 OR drop_bit 4 (uint b),
     push_bit 2 (uint b) AND 0x3c OR drop_bit 6 (uint c), uint c AND 0x3f] = map uint (enc_indexes a b c)"
    by (simp add: enc_indexes_or pieces unsigned_or_eq)
  then show ?thesis
    using b64_group_indexes [of "enc_indexes a b c"] enc_indexes_small by (simp add: enc_chars_def)
qed

lemma b64_group_take: "b64_group (xs @ ys) = Inr zs \<Longrightarrow> b64_group xs = Inr (take (length xs) zs)"
  by (induction xs arbitrary: zs) (auto simp: and_then_eq_Inr)

lemma b64_groups_standard: "b64_groups uint s = Inr (map standard_char (enc_all s))"
proof (induction s rule: enc_all.induct, goal_cases)
  case (1 a b c s)
  then show ?case by (simp add: b64_group_chars del: b64_group.simps)
next
  case 2
  then show ?case by (simp add: enc_tail_def)
next
  case (3 a)
  have "b64_group [drop_bit 2 (uint a), push_bit 4 (uint a) AND 0x30] = Inr (take 2 (map standard_char (enc_chars a 0 0)))"
    using b64_group_take [of "[drop_bit 2 (uint a), push_bit 4 (uint a) AND 0x30]" "[0, 0]"] b64_group_chars [of a 0 0]
    by (simp add: numeral_2_eq_2 del: b64_group.simps)
  then show ?case by (simp add: enc_tail_def take_map standard_char_def del: b64_group.simps)
next
  case (4 a b)
  have "b64_group [drop_bit 2 (uint a), push_bit 4 (uint a) AND 0x30 OR drop_bit 4 (uint b), push_bit 2 (uint b) AND 0x3c]
      = Inr (take 3 (map standard_char (enc_chars a b 0)))"
    using b64_group_take [of "[drop_bit 2 (uint a), push_bit 4 (uint a) AND 0x30 OR drop_bit 4 (uint b), push_bit 2 (uint b) AND 0x3c]" "[0]"]
      b64_group_chars [of a b 0]
    by (simp add: numeral_3_eq_3 del: b64_group.simps)
  then show ?case by (simp add: enc_tail_def take_map standard_char_def del: b64_group.simps)
qed

lemma b64_groups_value:
  assumes "\<forall>c \<in> set s. v c = uint c"
  shows "b64_groups v s = b64_groups uint s"
  using assms by (induction s rule: enc_all.induct) (simp_all del: b64_group.simps)

lemma standard_char_nonzero: "standard_char c = 0 \<longleftrightarrow> c = 0"
  by (simp add: standard_char_def)

text \<open>The size the code computes for the buffer is the size of the text, so the text always fits.\<close>

lemma http_base64_encode_size:
  "(if 0 < n mod 3 then n * 4 div 3 + (4 - n mod 3) else n * 4 div 3) = ((n + 2) div 3) * (4 :: nat)"
proof -
  define k where "k = n div 3"
  consider "n = 3 * k" | "n = 3 * k + 1" | "n = 3 * k + 2" unfolding k_def by linarith
  then show ?thesis
  proof cases
    case 2
    have "(3 * k + 1) * 4 div 3 = 4 * k + 1" "(3 * k + 1) mod 3 = 1" "(3 * k + 3) div 3 = Suc k" by presburger+
    then show ?thesis unfolding 2 by simp
  next
    case 3
    have "(3 * k + 2) * 4 div 3 = 4 * k + 2" "(3 * k + 2) mod 3 = 2" "(3 * k + 4) div 3 = Suc k" by presburger+
    then show ?thesis unfolding 3 by simp
  qed simp
qed

lemma sint_small:
  assumes "c < 128"
  shows "sint (c :: u8) = uint c"
proof -
  have "c < 128" using assms .
  then have "uint c < 2 ^ 7" "0 \<le> uint c"
    by (simp_all add: word_less_def)
  then have "signed_take_bit 7 (uint c) = uint c"
    by (intro signed_take_bit_int_eq_self) linarith+
  then show ?thesis by (simp add: sint_uint)
qed

lemma c_string_all: "0 \<notin> set s \<Longrightarrow> c_string (s @ [0]) = s"
  by (simp add: c_string_def takeWhile_append)

lemma enc_chars_alphabet: "c \<in> set (enc_chars a b d) \<Longrightarrow> urlsafe_char (standard_char c) = c"
  using enc_indexes_small [of _ a b d] by (auto simp: enc_chars_def b64_at_index(2))

lemma enc_all_alphabet: "c \<in> set (enc_all s) \<Longrightarrow> urlsafe_char (standard_char c) = c"
proof (induction s rule: enc_all.induct, goal_cases)
  case (1 a b d s)
  then show ?case using enc_chars_alphabet by auto
next
  case 2
  then show ?case by (simp add: enc_tail_def)
next
  case (3 a)
  then consider "c \<in> set (enc_chars a 0 0)" | "c = 61" by (auto simp: enc_tail_def dest: in_set_takeD)
  then show ?case by cases (simp_all add: enc_chars_alphabet, simp add: urlsafe_char_def standard_char_def)
next
  case (4 a b)
  then consider "c \<in> set (enc_chars a b 0)" | "c = 61" by (auto simp: enc_tail_def dest: in_set_takeD)
  then show ?case by cases (simp_all add: enc_chars_alphabet, simp add: urlsafe_char_def standard_char_def)
qed

lemma http_base64_encode_standard:
  assumes "\<forall>c \<in> set s. isSigned \<longrightarrow> c < 128"
  shows "http_base64_encode isSigned True (Some s) = Inr (Some (map standard_char (enc_all s)))"
proof -
  have v: "\<forall>c \<in> set s. char_value isSigned c = uint c"
    using assms by (auto simp: char_value_def sint_small)
  have groups: "b64_groups (char_value isSigned) s = Inr (map standard_char (enc_all s))"
    using b64_groups_value [OF v] by (simp add: b64_groups_standard)
  have nz: "0 \<notin> set (map standard_char (enc_all s))"
    using enc_all_nonzero [of s] by (auto simp: standard_char_nonzero eq_commute [of 0])
  show ?thesis
  proof (cases "s = []")
    case True
    then show ?thesis by (simp add: http_base64_encode_def enc_tail_def)
  next
    case False
    then show ?thesis
      using nz by (simp add: http_base64_encode_def Let_def http_base64_encode_size groups write_at_def overwrite_def
        length_enc_all c_string_all)
  qed
qed

text \<open>
  What a server makes of the credentials: it takes off the name of the scheme, decodes the rest and
  splits at the first colon.
\<close>

definition read_credentials :: "bytes \<Rightarrow> (bytes \<times> bytes) option" where
  "read_credentials tok =
     (if take 6 tok \<noteq> chars ''Basic '' then None
      else case dec_loop \<lparr>STOP_ON_UNKNOWN_CHAR = True, STOP_ON_UNEXPECTED_WS = True\<rparr> 0 [] 0 (map urlsafe_char (drop 6 tok)) of
        Inl _ \<Rightarrow> None
      | Inr t \<Rightarrow> let u = takeWhile (\<lambda>c. c \<noteq> 58) t in if length u < length t then Some (u, drop (length u + 1) t) else None)"

theorem credentials_roundtrip:
  assumes "u \<noteq> []" "p \<noteq> []" "58 \<notin> set u" "\<forall>c \<in> set (u @ p). isSigned \<longrightarrow> c < 128"
  shows "\<exists>tok. ghttp_set_authinfo isSigned True (Some u) (Some p) g =
      Inr (0, g\<lparr>gUser := Some u, gPass := Some p, gAuth := Some tok\<rparr>) \<and> read_credentials tok = Some (u, p)"
proof -
  let ?t = "u @ [58] @ p"
  have enc: "http_base64_encode isSigned True (Some ?t) = Inr (Some (map standard_char (enc_all ?t)))"
    using assms(4) by (intro http_base64_encode_standard) auto
  have inverse: "map urlsafe_char (map standard_char (enc_all ?t)) = enc_all ?t"
    using enc_all_alphabet by (simp add: map_idI)
  have "takeWhile (\<lambda>c. c \<noteq> 58) ?t = u"
    using assms(3) by (simp add: takeWhile_append) 
  then have "read_credentials (chars ''Basic '' @ map standard_char (enc_all ?t)) = Some (u, p)"
    using inverse by (simp add: read_credentials_def dec_enc_all Let_def chars_def)
  moreover have "ghttp_set_authinfo isSigned True (Some u) (Some p) g =
      Inr (0, g\<lparr>gUser := Some u, gPass := Some p, gAuth := Some (chars ''Basic '' @ map standard_char (enc_all ?t))\<rparr>)"
    using enc assms(1,2) by (simp add: ghttp_set_authinfo_def auth_token_def)
  ultimately show ?thesis by blast
qed

text \<open>Where characters are signed, a character beyond ASCII indexes in front of the alphabet.\<close>

lemma non_ascii_credentials_out_of_bounds:
  assumes "u \<noteq> []" "p \<noteq> []" "128 \<le> hd u"
  shows "ghttp_set_authinfo True True (Some u) (Some p) g = Inl Out_of_bounds"
proof -
  obtain a t where u: "u = a # t" "128 \<le> a" using assms(1,3) by (cases u) auto
  have "128 \<le> uint a" "uint a < 256" using u(2) unsigned_less [of a, where 'a = int] by (simp_all add: word_le_def)
  then have "odd (uint a div 2 ^ 7)" by (simp; presburger)
  then have "sint a < 0" by (simp add: sint_uint signed_take_bit_negative_iff bit_iff_odd)
  then have "b64_at (drop_bit 2 (sint a)) = Inl Out_of_bounds"
    by (simp add: b64_at_def)
  then have "b64_groups sint (a # x) = Inl Out_of_bounds" for x
    by (cases "(sint :: u8 \<Rightarrow> int, a # x)" rule: b64_groups.cases) auto
  moreover have "char_value True = sint"
    by (simp add: char_value_def fun_eq_iff)
  ultimately show ?thesis
    using assms(2) u by (simp add: ghttp_set_authinfo_def auth_token_def http_base64_encode_def Let_def)
qed

end
