(* ===== verification/Spec2Isabelle.thy ===== *)
theory Spec2Isabelle
  imports CircleQueue Kmp Adts Crc MpegTs TsMux Base64 Session PutBuffer TsPool TsUploader UploaderSafety UploadAccounting Sha1 MuxSimulation FrameEntry SegmentCutting AacEntry EndToEnd HttpTools SegmentMgr SegmentReports SegmentRuns TokenConfig TokenSafety ReportParams MessageQueue Recycle PicUploader PictureFields MqttClient Control UploadForm HttpExchange LogAccount HttpAuth
begin

text \<open>
  This development verifies the C library of qiniu/link-c-sdk: the part of a camera's firmware that
  cuts audio and video into segments of an MPEG transport stream, uploads them to a server, reports on them,
  and takes commands over MQTT. All paths are under \<^verbatim>\<open>src/\<close>.

  \<^bold>\<open>The parts and how they interact.\<close> The application creates an uploader through
  \<^verbatim>\<open>tsuploaderapi.c\<close> and pushes frames. The frame entry (\<^verbatim>\<open>tsmuxuploader.c\<close>)
  decides before a frame whether the segment being filled ends, looks for parameter sets with the pattern search
  (\<^verbatim>\<open>kmp.c\<close>), puts an ADTS header (\<^verbatim>\<open>adts.c\<close>) before AAC frames that lack
  one and calls the multiplexer (\<^verbatim>\<open>tsmux.c\<close>), which cuts the frame into packets of 188 bytes
  (\<^verbatim>\<open>mpegts.c\<close>) and hands each to an output callback. The callback is the segment uploader's
  (\<^verbatim>\<open>tsuploader.c\<close>): it appends to a circular queue (\<^verbatim>\<open>queue.c\<close>) whose block is
  one of four slots. At the end of a segment the queue is handed, in commands that go through further circular queues,
  to the upload thread and the callback thread. The upload thread keeps the account of the session, builds the
  metadata, asks \<^verbatim>\<open>uploadParamCallback\<close> for a token, and sends the segment with the form upload of
  \<^verbatim>\<open>libghttp/qupload.c\<close>. Beside it run the token thread, which fetches configuration and tokens; the
  report thread (\<^verbatim>\<open>segmentmgr.c\<close>), which is told of the start and the end of segments; the picture
  uploader (\<^verbatim>\<open>picuploader.c\<close>); and the thread that destroys uploaders (\<^verbatim>\<open>resource.c\<close>).
  Token and report requests are signed with HMAC-SHA1 and base64 and go out through
  \<^verbatim>\<open>libtsuploader/httptools.c\<close>; all requests use the HTTP client in \<^verbatim>\<open>libghttp/\<close>.
  \<^verbatim>\<open>libmqtt/\<close> is separate: one thread per instance keeps a connection to a broker, and messages
  that are commands go through a message queue to the application.

  \<^bold>\<open>How the code is modelled.\<close> A structure is a record with the code's field names, an enumeration a
  datatype, a function a HOL function from the state it works on to the state it leaves. What C leaves undefined is a
  value: a function whose code can go out of bounds, fail an assertion or use a null pointer returns
  \<open>'a run = fault + 'a\<close> (\<open>Prelude\<close>), and its memory accesses are checked against the block they
  go to. Bytes, tags, checksums and counters that wrap are words of their width; bit fields are words of the width of the field;
  sizes, positions and times are \<open>nat\<close> or \<open>int\<close> where the theory says that the code's type is wide enough,
  with the wrap-around written out where it is not. A function that runs under a mutex is one step; where a thread waits, what the
  others do meanwhile is an argument. Threads are interleaved by inductive step relations
  (\<open>dns_step\<close>, \<open>uploader_step\<close>, \<open>recycle_step\<close>, \<open>pic_step\<close>, \<open>entry_step\<close>,
  \<open>seg_run\<close>, \<open>tok_run\<close>, \<open>mqtt_run\<close>), and properties of all runs are proved by rule induction on them.

  \<^bold>\<open>Theories.\<close>

  \<^bold>\<open>Shared.\<close> \<open>Prelude\<close>: machine types, faults and sequencing, checked reads and writes, allocation, return
  codes, the collections \<open>run_simps\<close> and \<open>mem_simps\<close>.

  \<^bold>\<open>Queues.\<close> \<open>CircleQueue\<close> (\<^verbatim>\<open>libtsuploader/queue.c\<close>): the five policies over the byte
  block itself; a fixed-length queue is a bounded first-in first-out list; a queue's memory is released once.
  \<open>MessageQueue\<close> (\<^verbatim>\<open>libmqtt/queue.c\<close>): the queue of pointers that loses its oldest element.

  \<^bold>\<open>Transport stream.\<close> \<open>Kmp\<close> (\<^verbatim>\<open>kmp.c\<close>): the search ends and finds the first occurrence.
  \<open>Adts\<close> (\<^verbatim>\<open>adts.c\<close>): header fields survive packing. \<open>Crc\<close> and \<open>MpegTs\<close>
  (\<^verbatim>\<open>mpegts.c\<close>): the table-driven checksum is the bitwise one; PES and transport packets, the tables. \<open>TsMux\<close>
  (\<^verbatim>\<open>tsmux.c\<close>): what a demultiplexer reads from the packets are the frames; continuity counters, program tables, key frame positions.
  \<open>MuxSimulation\<close>: the multiplexer over any two outputs that answer alike.

  \<^bold>\<open>Frame entry.\<close> \<open>FrameEntry\<close>, \<open>SegmentCutting\<close>, \<open>AacEntry\<close>
  (\<^verbatim>\<open>tsmuxuploader.c\<close>, \<^verbatim>\<open>tsuploaderapi.c\<close>): push paths, segment switching, the search for
  parameter sets, start and end reports, the length of AAC frames.

  \<^bold>\<open>Segments.\<close> \<open>Session\<close>: session identifiers and when a session is replaced. \<open>PutBuffer\<close>,
  \<open>TsPool\<close>, \<open>TsUploader\<close> (\<^verbatim>\<open>tsuploader.c\<close>): metadata, the pool of slots, commands and both
  threads. \<open>UploaderSafety\<close>: references are counted and slots are not shared in any interleaving.
  \<open>UploadAccounting\<close>: durations and requests. \<open>EndToEnd\<close>: the frames pushed are what a player decodes
  from the queue of the segment.

  \<^bold>\<open>Around the uploader.\<close> \<open>Base64\<close> (\<^verbatim>\<open>deps/b64/urlsafe_b64.c\<close>), \<open>Sha1\<close>
  (\<^verbatim>\<open>deps/hmac_sha1/hmac_sha1.c\<close>): round trip, and equality with FIPS 180 and RFC 2104. \<open>HttpTools\<close>
  (\<^verbatim>\<open>httptools.c\<close>): the signed text of a request, tokens and their verification. \<open>TokenConfig\<close>,
  \<open>TokenSafety\<close> (\<^verbatim>\<open>tsmuxuploader.c\<close>): the token thread. \<open>SegmentMgr\<close>, \<open>SegmentReports\<close>,
  \<open>SegmentRuns\<close> (\<^verbatim>\<open>segmentmgr.c\<close>): the report thread. \<open>ReportParams\<close>: the two together.
  \<open>PicUploader\<close>, \<open>PictureFields\<close> (\<^verbatim>\<open>picuploader.c\<close>): pictures and the names they travel under.
  \<open>Recycle\<close> (\<^verbatim>\<open>resource.c\<close>): deferred destruction.

  \<^bold>\<open>HTTP client\<close> (\<^verbatim>\<open>libghttp/\<close>). \<open>HttpHeaders\<close> (\<^verbatim>\<open>http_hdrs.c\<close>),
  \<open>HttpUri\<close> (\<^verbatim>\<open>http_uri.c\<close>), \<open>HttpTransport\<close>, \<open>HttpConnect\<close>,
  \<open>DnsCache\<close> (\<^verbatim>\<open>http_trans.c\<close>, \<^verbatim>\<open>timeoutconn.c\<close>: the buffer of a connection, opening it, the
  cache of addresses the threads share), \<open>HttpRequest\<close> (\<^verbatim>\<open>http_req.c\<close>), \<open>HttpResponse\<close> (\<^verbatim>\<open>http_resp.c\<close>),
  \<open>ResponseRoundtrip\<close> (a response is understood however the network cuts it), \<open>Ghttp\<close>
  (\<^verbatim>\<open>ghttp.c\<close>: the objects that hold a request), \<open>HttpExchange\<close> (a whole exchange, and
  \<^verbatim>\<open>linkSimpleHttpRequest\<close> over it), \<open>HttpAuth\<close> (\<^verbatim>\<open>http_base64.c\<close>: credentials are read back), \<open>UploadForm\<close> (\<^verbatim>\<open>qupload.c\<close>: a reader of
  multipart forms gets back what the uploader put in).

  \<^bold>\<open>MQTT.\<close> \<open>MqttClient\<close> (\<^verbatim>\<open>mqtt.c\<close>, \<^verbatim>\<open>wolfmqtt.c\<close>): instances, pings and
  reconnection, subscriptions restored. \<open>Control\<close> (\<^verbatim>\<open>control.c\<close>): commands, their answers and log lines.
  \<open>LogAccount\<close> (\<^verbatim>\<open>qnlinking_mqtt.c\<close>, \<^verbatim>\<open>deps/log/log.c\<close>): the log-in stays signed through all events, log lines arrive in order.

  \<^bold>\<open>Interfaces.\<close>

  The locales state what a client relies on; each is interpreted on the model of the code that provides it.
  \<open>bounded_fifo\<close> is interpreted by the fixed-length circular queue (\<open>fix_queue\<close>);
  \<open>overwriting_fifo\<close>, a queue that loses its oldest element, both by the message queue (\<open>mq\<close>) and by the overwriting policy of the circular
  queue (\<open>over\<close>), two implementations of one contract;
  \<open>output_simulation\<close>, two outputs of the multiplexer that answer alike, by the frame entry's
  uploader record (\<open>log_sink\<close>) and by the segment uploader (\<open>segment_sink\<close>), which carries what \<open>TsMux\<close> shows
  to the bytes that are uploaded; \<open>header_store\<close>, a store of named values with a limit, by the header list (\<open>hdrs\<close>).

  \<^bold>\<open>Parameters, bounds and termination.\<close>

  Arguments of the model, with what is relied on as named hypotheses where a property needs any: the system clock, the allocator, sockets
  and the resolver, the random numbers of a form's boundary, the wolfMQTT protocol library, the JSON reader, the application's callbacks,
  and log output, which is left out. The HTTP client is an argument of the components that call it and is itself
  modelled; \<open>HttpExchange\<close> puts one in the place of the other.

  No function has fuel. Loops that end are total functions whose measures follow the code: bytes still to come from the socket
  (\<open>to_come\<close>), bytes still to write (\<open>to_write\<close>), bytes of the frame not yet packed, attempts left in a list of
  answers. Loops whose end is itself in question are \<open>partial_function (option)\<close> (\<open>kmp_table\<close>, \<open>kmp_search\<close>,
  \<open>spsScan\<close>) with a theorem that they return. Threads that run until told to stop are step relations; that they stop then is a property
  of its own (\<open>report_thread_ends\<close>, \<open>recycler_ends\<close>).

  \<^bold>\<open>Not modelled.\<close>

  \<^item> \<^verbatim>\<open>utils.c\<close>: reads the system clock, whose values are inputs here.
  \<^item> \<^verbatim>\<open>libmqtt/wolfmqtt/mqttnet.c\<close>: the socket callbacks of wolfMQTT, system calls around a submodule's interface.
  \<^item> \<^verbatim>\<open>deps/b64/b64.c\<close>, \<^verbatim>\<open>deps/cJSON\<close>, \<^verbatim>\<open>deps/flag\<close>: third-party helpers kept
    in the repository.
  \<^item> \<^verbatim>\<open>libghttp\<close>: TLS, which the build leaves out; the asynchronous mode, error texts, and dates
    (\<^verbatim>\<open>http_date.c\<close>), which nothing in the library uses.
  \<^item> \<^verbatim>\<open>demo/\<close>, \<^verbatim>\<open>sample/\<close>, \<^verbatim>\<open>tests/\<close>: programs that use the library.
\<close>

end
